(* ===== verification/Qdma_Prelude.thy ===== *)
theory Qdma_Prelude
  imports Main "HOL-Library.Word"
begin

text \<open>
  Shared vocabulary of the QDMA driver model: machine integers at their C widths, the
  error values the driver returns, and the environment (\<open>env\<close>) through which the driver
  reaches code that is not part of the repository: the memory-mapped registers of the FPGA
  (\<open>readl\<close>, \<open>writel\<close>) and the services of the kernel (delays, page and coherent memory
  allocation, DMA mapping). The environment is a parameter of every definition that uses it;
  nothing is assumed about it here. The rest of the theory holds the generic lemmas on
  words, lists and register sequences that the component theories share.
\<close>

unbundle bit_operations_syntax

named_theorems reg_simps \<open>register addresses, shifts and masks of the hardware interface\<close>

section \<open>Machine integers and errors\<close>

type_synonym u8 = "8 word"
type_synonym u16 = "16 word"
type_synonym u32 = "32 word"
type_synonym u64 = "64 word"

text \<open>
  The negative error codes of the driver. \<open>Status\<close> is the signed status byte a mailbox
  peer reports and that is handed on as a return value; \<open>Other\<close> is an error code produced
  by the kernel; \<open>OOPS\<close> is no return value but a kernel fault: a NULL or out-of-range
  access, or a corrupted list.
\<close>

datatype errno =
  EINVAL | ENOMEM | EIO | EBUSY | EAGAIN | ETIME | EFAULT | ENOSPC
  | Status int | Other int | OOPS

type_synonym 'a res = "errno + 'a"

section \<open>The environment\<close>

record 'e env =
  env_readl :: "u32 \<Rightarrow> 'e \<Rightarrow> u32 \<times> 'e"
  env_writel :: "u32 \<Rightarrow> u32 \<Rightarrow> 'e \<Rightarrow> 'e"
  env_udelay :: "u32 \<Rightarrow> 'e \<Rightarrow> 'e"
  env_kmalloc :: "nat \<Rightarrow> 'e \<Rightarrow> bool \<times> 'e"
  env_alloc_page :: "'e \<Rightarrow> u64 option \<times> 'e"
  env_free_page :: "u64 \<Rightarrow> 'e \<Rightarrow> 'e"
  env_dma_map_page :: "u64 \<Rightarrow> 'e \<Rightarrow> u64 option \<times> 'e"
  env_dma_unmap_page :: "u64 \<Rightarrow> 'e \<Rightarrow> 'e"
  env_dma_alloc :: "u32 \<Rightarrow> 'e \<Rightarrow> u64 option \<times> 'e"
  env_dma_free :: "u32 \<Rightarrow> u64 \<Rightarrow> 'e \<Rightarrow> 'e"

text \<open>
  \<open>traced E\<close> is the environment \<open>E\<close> with a ghost log of the register writes, oldest
  first. It decides nothing: every answer is that of \<open>E\<close>. Statements over \<open>traced E\<close> speak
  about the exact sequence of writes the driver issues, whatever the device does.
\<close>

definition traced :: "'e env \<Rightarrow> ('e \<times> (u32 \<times> u32) list) env" where
  "traced E = \<lparr>
     env_readl = (\<lambda>a (e, l). let (v, e') = env_readl E a e in (v, e', l)),
     env_writel = (\<lambda>a v (e, l). (env_writel E a v e, l @ [(a, v)])),
     env_udelay = (\<lambda>n (e, l). (env_udelay E n e, l)),
     env_kmalloc = (\<lambda>n (e, l). let (b, e') = env_kmalloc E n e in (b, e', l)),
     env_alloc_page = (\<lambda>(e, l). let (p, e') = env_alloc_page E e in (p, e', l)),
     env_free_page = (\<lambda>p (e, l). (env_free_page E p e, l)),
     env_dma_map_page = (\<lambda>p (e, l). let (m, e') = env_dma_map_page E p e in (m, e', l)),
     env_dma_unmap_page = (\<lambda>m (e, l). (env_dma_unmap_page E m e, l)),
     env_dma_alloc = (\<lambda>n (e, l). let (m, e') = env_dma_alloc E n e in (m, e', l)),
     env_dma_free = (\<lambda>n m (e, l). (env_dma_free E n m e, l))\<rparr>"

lemma traced_readl [simp]:
  "env_readl (traced E) a (e, l) = (fst (env_readl E a e), snd (env_readl E a e), l)"
  by (simp add: traced_def split: prod.splits)

lemma traced_writel [simp]:
  "env_writel (traced E) a v (e, l) = (env_writel E a v e, l @ [(a, v)])"
  by (simp add: traced_def)

lemma traced_udelay [simp]: "env_udelay (traced E) n (e, l) = (env_udelay E n e, l)"
  by (simp add: traced_def)

text \<open>
  \<open>ram_env\<close> is a concrete environment: the registers are plain memory, every allocation
  succeeds and returns the same address. It instantiates the environment where a statement
  is applied to a concrete run; no statement assumes it.
\<close>

definition ram_env :: "(u32 \<Rightarrow> u32) env" where
  "ram_env = \<lparr>
     env_readl = (\<lambda>a r. (r a, r)), env_writel = (\<lambda>a v r. r(a := v)), env_udelay = (\<lambda>n r. r),
     env_kmalloc = (\<lambda>n r. (True, r)), env_alloc_page = (\<lambda>r. (Some 0x1000, r)),
     env_free_page = (\<lambda>p r. r), env_dma_map_page = (\<lambda>p r. (Some p, r)),
     env_dma_unmap_page = (\<lambda>m r. r), env_dma_alloc = (\<lambda>n r. (Some 0x100000, r)),
     env_dma_free = (\<lambda>n m r. r)\<rparr>"

lemma ram_env_simps [simp]:
  "env_readl ram_env a r = (r a, r)" "env_writel ram_env a v r = r(a := v)"
  "env_udelay ram_env n r = r" "env_kmalloc ram_env k r = (True, r)"
  "env_alloc_page ram_env r = (Some 0x1000, r)" "env_free_page ram_env p r = r"
  "env_dma_map_page ram_env p r = (Some p, r)" "env_dma_unmap_page ram_env p r = r"
  "env_dma_alloc ram_env n r = (Some 0x100000, r)" "env_dma_free ram_env n p r = r"
  by (simp_all add: ram_env_def)

section \<open>State machines\<close>

text \<open>
  The contract of a component that is a state machine: a step relation and an invariant every
  step keeps. Whatever sequence of steps is taken, the invariant then holds at its end.
\<close>

locale machine =
  fixes step :: "'s \<Rightarrow> 's \<Rightarrow> bool" and inv :: "'s \<Rightarrow> bool"
  assumes step_inv: "step s t \<Longrightarrow> inv s \<Longrightarrow> inv t"
begin

lemma reach_inv: "step\<^sup>*\<^sup>* s t \<Longrightarrow> inv s \<Longrightarrow> inv t"
  by (induction rule: rtranclp_induct) (auto intro: step_inv)

lemma reach_inv_trans: "step\<^sup>*\<^sup>* s t \<Longrightarrow> step\<^sup>*\<^sup>* t u \<Longrightarrow> inv s \<Longrightarrow> inv u"
  using reach_inv by blast

end

section \<open>Register sequences\<close>

text \<open>
  The two loop shapes the driver uses on consecutive registers:
  \<open>for (i = 0; i < n; i++, reg += 4) writel(v[i], reg)\<close> and the same with \<open>readl\<close>.
\<close>

primrec write_regs :: "'e env \<Rightarrow> u32 \<Rightarrow> u32 list \<Rightarrow> 'e \<Rightarrow> 'e" where
  "write_regs E reg [] e = e"
| "write_regs E reg (v # vs) e = write_regs E (reg + 4) vs (env_writel E reg v e)"

primrec read_regs :: "'e env \<Rightarrow> u32 \<Rightarrow> nat \<Rightarrow> 'e \<Rightarrow> u32 list \<times> 'e" where
  "read_regs E reg 0 e = ([], e)"
| "read_regs E reg (Suc n) e =
     (let (v, e1) = env_readl E reg e;
          (vs, e2) = read_regs E (reg + 4) n e1
      in (v # vs, e2))"

primrec reg_list :: "u32 \<Rightarrow> u32 list \<Rightarrow> (u32 \<times> u32) list" where
  "reg_list reg [] = []"
| "reg_list reg (v # vs) = (reg, v) # reg_list (reg + 4) vs"

lemma write_regs_append:
  "write_regs E reg (vs @ ws) e =
     write_regs E (reg + 4 * of_nat (length vs)) ws (write_regs E reg vs e)"
  by (induction vs arbitrary: reg e) (simp_all add: algebra_simps)

lemma write_regs_trace [simp]:
  "write_regs (traced E) reg vs (e, l) = (write_regs E reg vs e, l @ reg_list reg vs)"
  by (induction vs arbitrary: reg e l) simp_all

lemma read_regs_trace [simp]:
  "read_regs (traced E) reg n (e, l) =
     (fst (read_regs E reg n e), snd (read_regs E reg n e), l)"
  by (induction n arbitrary: reg e l) (simp_all add: Let_def split: prod.splits)

lemma length_read_regs [simp]: "length (fst (read_regs E reg n e)) = n"
  by (induction n arbitrary: reg e) (simp_all add: Let_def case_prod_beta)

lemma reg_list_append:
  "reg_list reg (vs @ ws) = reg_list reg vs @ reg_list (reg + 4 * of_nat (length vs)) ws"
  by (induction vs arbitrary: reg) (simp_all add: algebra_simps)

lemma map_snd_reg_list [simp]: "map snd (reg_list reg vs) = vs"
  by (induction vs arbitrary: reg) simp_all

lemma read_regs_numeral:
  "read_regs E reg (numeral k) e =
     (let (v, e1) = env_readl E reg e;
          (vs, e2) = read_regs E (reg + 4) (pred_numeral k) e1
      in (v # vs, e2))"
  by (simp add: numeral_eq_Suc)

section \<open>Lists\<close>

lemma replicate_numeral: "replicate (numeral k) x = x # replicate (pred_numeral k) x"
  by (simp add: numeral_eq_Suc)

lemma first_index:
  assumes "\<exists>i\<le>m::nat. P i"
  obtains n where "n \<le> m" and "P n" and "\<forall>i<n. \<not> P i"
proof
  obtain i where i: "i \<le> m" "P i"
    using assms by blast
  show "(LEAST i. P i) \<le> m"
    using Least_le [of P, OF i(2)] i(1) by simp
  show "P (LEAST i. P i)"
    using i(2) by (rule LeastI)
  show "\<forall>i<LEAST i. P i. \<not> P i"
    using not_less_Least by blast
qed

lemma find_append:
  "find P (xs @ ys) = (case find P xs of None \<Rightarrow> find P ys | Some x \<Rightarrow> Some x)"
  by (induction xs) simp_all

lemma find_upt_first:
  "n < m \<Longrightarrow> P n \<Longrightarrow> \<forall>i<n. \<not> P i \<Longrightarrow> find P [0..<m] = Some n"
  by (auto simp: find_Some_iff intro!: exI [of _ n])

section \<open>Words\<close>

lemma unat_word_less_iff: "a < b \<longleftrightarrow> unat a < unat b" for a b :: "'a::len word"
  by (simp add: word_less_nat_alt)

lemma unat_lt_u32: "unat (w :: u32) < 4294967296"
  using unsigned_less [of w, where 'a = nat] by simp

lemma unat_plus_one: "a < b \<Longrightarrow> unat (a + 1) = unat a + 1" for a b :: "'a::len word"
proof -
  assume "a < b"
  then have "a + 1 \<noteq> 0"
    by (metis max_word_max max_word_wrap not_less)
  then show ?thesis
    by (simp add: unatSuc add.commute)
qed

lemma unat_minus_one_less: "a \<noteq> 0 \<Longrightarrow> unat (a - 1) < unat a" for a :: "'a::len word"
  by (metis measure_unat)

lemma unat_ucast_u16 [simp]: "unat (ucast (w :: u16) :: u32) = unat w"
  by (simp add: unsigned_ucast_eq take_bit_nat_eq_self_iff order_less_le_trans [OF unsigned_less])

lemma unat_ucast_u8 [simp]: "unat (ucast (w :: u8) :: u32) = unat w"
  by (simp add: unsigned_ucast_eq take_bit_nat_eq_self_iff order_less_le_trans [OF unsigned_less])

lemma unat_minus_two: "a \<noteq> 1 \<Longrightarrow> unat (a - 1) = Suc (unat (a - 2))" for a :: "'a::len word"
proof -
  assume "a \<noteq> 1"
  then have "unat (1 + (a - 2)) = Suc (unat (a - 2))"
    by (intro unatSuc) (simp add: algebra_simps)
  then show ?thesis
    by (simp add: algebra_simps)
qed

lemma unat_add_small:
  "unat a + unat b < 2 ^ LENGTH('a) \<Longrightarrow> unat (a + b) = unat a + unat b" for a b :: "'a::len word"
  by (simp add: unat_word_ariths)

lemma unat_two_power: "n < LENGTH('a) \<Longrightarrow> unat ((2 :: 'a::len word) ^ n) = 2 ^ n"
proof -
  assume n: "n < LENGTH('a)"
  have "unat ((2 :: 'a word) ^ n) = unat (of_nat (2 ^ n) :: 'a word)"
    by simp
  also have "\<dots> = 2 ^ n"
    using n by (simp only: unsigned_of_nat take_bit_nat_eq_self power_strict_increasing_iff one_less_numeral_iff semiring_norm of_nat_id)
  finally show ?thesis .
qed

lemma bit_less_exp:
  "x < 2 ^ n \<Longrightarrow> n \<le> i \<Longrightarrow> \<not> bit x i" for x :: "'a::len word"
proof
  assume "x < 2 ^ n" "n \<le> i" "bit x i"
  then have i: "i < LENGTH('a)"
    using bit_imp_le_length by blast
  with \<open>x < 2 ^ n\<close> \<open>n \<le> i\<close> have "unat x < 2 ^ n"
    by (simp add: word_less_nat_alt unat_two_power)
  also have "(2 :: nat) ^ n \<le> 2 ^ i"
    using \<open>n \<le> i\<close> by simp
  finally have "unat x div 2 ^ i = 0"
    by simp
  moreover have "bit (unat x) i"
    using \<open>bit x i\<close> by (simp add: bit_unsigned_iff)
  ultimately show False
    by (simp add: bit_iff_odd)
qed

lemma unat_sub_le: "b \<le> a \<Longrightarrow> unat (a - b) = unat a - unat b" for a b :: "'a::len word"
  by (rule unat_sub)

section \<open>Bit fields\<close>

text \<open>
  \<open>field s m w\<close> reads the field with shift \<open>s\<close> and (unshifted) mask \<open>m\<close> of a register
  or context word, which is how the hardware interface describes its layouts
  (the \<open>S_\<close> and \<open>M_\<close> macros). The three rules below evaluate a field of a disjunction of
  shifted parts: the part that starts at the field, parts above it and parts below it.
\<close>

declare push_bit_Suc [simp del]

definition field :: "nat \<Rightarrow> u32 \<Rightarrow> u32 \<Rightarrow> u32" where
  "field s m w = drop_bit s w AND m"

named_theorems field_simps \<open>evaluation of the fields of a packed word\<close>

lemma field_or [field_simps]: "field s m (a OR b) = field s m a OR field s m b"
  by (simp add: field_def bit_eq_iff bit_simps) blast

lemma field_zero [field_simps]: "field s m 0 = 0"
  by (simp add: field_def)

lemma field_push_same [field_simps]:
  assumes "m < 2 ^ (32 - s)" and "s < 32"
  shows "field s m (push_bit s x) = x AND m"
proof (rule bit_word_eqI)
  fix n assume "n < LENGTH(32)"
  have "bit m n \<Longrightarrow> n < 32 - s"
    using assms bit_less_exp [of m "32 - s" n] by force
  then show "bit (field s m (push_bit s x)) n = bit (x AND m) n"
    by (auto simp: field_def bit_simps)
qed

lemma field_push_above [field_simps]:
  assumes "s \<le> t" and "m < 2 ^ (t - s)"
  shows "field s m (push_bit t x) = 0"
proof (rule bit_word_eqI)
  fix n assume "n < LENGTH(32)"
  have "bit m n \<Longrightarrow> n < t - s"
    using assms bit_less_exp [of m "t - s" n] by force
  then show "bit (field s m (push_bit t x)) n = bit (0 :: u32) n"
    using assms by (auto simp: field_def bit_simps)
qed

lemma field_push_below [field_simps]:
  assumes "t \<le> s" and "x < 2 ^ (s - t)"
  shows "field s m (push_bit t x) = 0"
proof (rule bit_word_eqI)
  fix n assume "n < LENGTH(32)"
  have "\<not> bit x (s + n - t)"
    using assms by (intro bit_less_exp [of x "s - t"]) auto
  then show "bit (field s m (push_bit t x)) n = bit (0 :: u32) n"
    using assms by (auto simp: field_def bit_simps)
qed

lemma field_at_0 [field_simps]: "x AND m = x \<Longrightarrow> field 0 m x = x"
  by (simp add: field_def)

lemma field_flag_or_1 [field_simps]: "field s 1 x OR 1 = 1"
  by (rule bit_word_eqI) (auto simp: field_def bit_simps)

lemma field_small [field_simps]: "x < 2 ^ s \<Longrightarrow> field s m x = 0"
  using field_push_below [of 0 s x m] by simp

lemma field_of_numeral [field_simps]:
  "field s m (numeral n) = drop_bit s (numeral n) AND m"
  "field s m 1 = drop_bit s 1 AND m"
  by (simp_all add: field_def)

lemma and_mask_eq: "x < 2 ^ n \<Longrightarrow> m = 2 ^ n - 1 \<Longrightarrow> n < 32 \<Longrightarrow> x AND m = x" for x m :: u32
proof (rule bit_word_eqI)
  fix i assume x: "x < 2 ^ n" and m: "m = 2 ^ n - 1" and "n < 32" and "i < LENGTH(32)"
  have "m = mask n"
    using m by (simp add: mask_eq_exp_minus_1)
  then show "bit (x AND m) i = bit x i"
    using bit_less_exp [OF x, of i] \<open>i < LENGTH(32)\<close> by (cases "i < n") (auto simp: bit_simps)
qed

lemma ucast_u8_less [simp]: "8 \<le> n \<Longrightarrow> n < 32 \<Longrightarrow> (ucast (f :: u8) :: u32) < 2 ^ n"
proof -
  assume n: "8 \<le> n" "n < 32"
  have "unat (ucast f :: u32) = unat f"
    by (simp add: unsigned_ucast_eq take_bit_nat_eq_self_iff order_less_le_trans [OF unsigned_less])
  also have "unat f < 2 ^ 8"
    using unsigned_less [of f] by simp
  also have "(2 :: nat) ^ 8 \<le> 2 ^ n"
    using n by (intro power_increasing) auto
  finally show ?thesis
    using n by (simp add: word_less_nat_alt unat_two_power)
qed


lemma field_push_bits:
  "x < 2 ^ k \<Longrightarrow> t + k \<le> s \<Longrightarrow> s < 32 \<Longrightarrow> field s m (push_bit t x) = 0"
proof -
  assume "x < 2 ^ k" "t + k \<le> s" "s < 32"
  then have "unat x < 2 ^ k"
    by (simp add: word_less_nat_alt unat_two_power)
  also have "(2 :: nat) ^ k \<le> 2 ^ (s - t)"
    using \<open>t + k \<le> s\<close> by (intro power_increasing) auto
  finally have "x < 2 ^ (s - t)"
    using \<open>s < 32\<close> by (simp add: word_less_nat_alt unat_two_power)
  then show ?thesis
    using \<open>t + k \<le> s\<close> by (intro field_push_below) auto
qed

lemma field_push_u8 [field_simps]:
  "t + 8 \<le> s \<Longrightarrow> s < 32 \<Longrightarrow> field s m (push_bit t (ucast (f :: u8))) = 0"
  using field_push_bits [OF ucast_u8_less [of 8 f]] by simp

lemma field_push_flag [field_simps]:
  "x < 2 \<Longrightarrow> t < s \<Longrightarrow> s < 32 \<Longrightarrow> field s m (push_bit t x) = 0"
  by (rule field_push_bits [of _ 1]) simp_all

lemma field_flag [field_simps]: "x < 2 \<Longrightarrow> 0 < s \<Longrightarrow> s < 32 \<Longrightarrow> field s m x = 0"
  using field_push_flag [of x 0 s m] by simp

section \<open>Sequencing of fallible operations\<close>

text \<open>
  \<open>r >>= f\<close> of the source's error handling: go on with the next operation unless the last one
  failed (\<open>if (rv < 0) return rv;\<close>).
\<close>

definition res_then :: "'a res \<times> 'e \<Rightarrow> ('e \<Rightarrow> 'b res \<times> 'e) \<Rightarrow> 'b res \<times> 'e" where
  "res_then r f = (case r of (Inl err, e) \<Rightarrow> (Inl err, e) | (Inr _, e) \<Rightarrow> f e)"

lemma res_then_simps [simp]:
  "res_then (Inl err, e) f = (Inl err, e)" "res_then (Inr x, e) f = f e"
  by (simp_all add: res_then_def)

lemma res_then_ok_iff:
  "res_then r f = (Inr y, e') \<longleftrightarrow> (\<exists>x e. r = (Inr x, e) \<and> f e = (Inr y, e'))"
  by (auto simp: res_then_def split: prod.splits sum.splits)

end
