(* ===== verification/Qdma_Regs.thy ===== *)
theory Qdma_Regs
  imports Qdma_Prelude
begin

text \<open>
  The hardware access layer (\<open>libqdma/qdma_regs.h\<close>, \<open>libqdma/qdma_regs.c\<close>): the register
  map of the function, the polling loop \<open>hw_monitor_reg\<close>, the initialisation of the global
  CSR block, the function map, the indirect programming of the queue contexts with its
  optional read-back verification, and the queue-to-vector map. The registers are reached
  only through \<open>env_readl\<close> and \<open>env_writel\<close>; the device behind them is arbitrary.
  \<open>PAGE_SIZE\<close> is the 4096 bytes of the x86 kernels the driver is built for.
\<close>

section \<open>Register map\<close>

definition QDMA_REG_POLL_DFLT_INTERVAL_US :: u32 where
  [simp]: "QDMA_REG_POLL_DFLT_INTERVAL_US = 100"

definition QDMA_REG_POLL_DFLT_TIMEOUT_US :: u32 where
  [simp]: "QDMA_REG_POLL_DFLT_TIMEOUT_US = 500 * 1000"

definition RNG_SZ_DFLT :: u32 where
  [simp]: "RNG_SZ_DFLT = 256"

definition WRB_RNG_SZ_DFLT :: u32 where
  [simp]: "WRB_RNG_SZ_DFLT = 256"

definition C2H_TIMER_CNT_DFLT :: u32 where
  [simp]: "C2H_TIMER_CNT_DFLT = 0x1"

definition C2H_CNT_TH_DFLT :: u32 where
  [simp]: "C2H_CNT_TH_DFLT = 0x1"

definition PAGE_SIZE :: u32 where
  [simp]: "PAGE_SIZE = 4096"

definition C2H_BUF_SZ_DFLT :: u32 where
  [simp]: "C2H_BUF_SZ_DFLT = PAGE_SIZE"

definition QDMA_REG_FUNC_ID :: u32 where
  [simp]: "QDMA_REG_FUNC_ID = 0x12C"

definition QDMA_REG_GLBL_RNG_SZ_BASE :: u32 where
  [simp]: "QDMA_REG_GLBL_RNG_SZ_BASE = 0x204"

definition QDMA_REG_GLBL_RNG_SZ_COUNT :: nat where
  [simp]: "QDMA_REG_GLBL_RNG_SZ_COUNT = 16"

definition QDMA_REG_GLBL_WB_ACC :: u32 where
  [simp]: "QDMA_REG_GLBL_WB_ACC = 0x250"

definition QDMA_REG_C2H_TIMER_CNT_BASE :: u32 where
  [simp]: "QDMA_REG_C2H_TIMER_CNT_BASE = 0xA00"

definition QDMA_REG_C2H_TIMER_CNT_COUNT :: nat where
  [simp]: "QDMA_REG_C2H_TIMER_CNT_COUNT = 16"

definition QDMA_REG_C2H_CNT_TH_BASE :: u32 where
  [simp]: "QDMA_REG_C2H_CNT_TH_BASE = 0xA40"

definition QDMA_REG_C2H_CNT_TH_COUNT :: nat where
  [simp]: "QDMA_REG_C2H_CNT_TH_COUNT = 16"

definition QDMA_REG_C2H_BUF_SZ_BASE :: u32 where
  [simp]: "QDMA_REG_C2H_BUF_SZ_BASE = 0xAB0"

definition QDMA_REG_C2H_BUF_SZ_COUNT :: nat where
  [simp]: "QDMA_REG_C2H_BUF_SZ_COUNT = 16"

definition QDMA_REG_TRQ_SEL_FMAP_BASE :: u32 where
  [simp]: "QDMA_REG_TRQ_SEL_FMAP_BASE = 0x400"

definition QDMA_REG_TRQ_SEL_FMAP_STEP :: u32 where
  [simp]: "QDMA_REG_TRQ_SEL_FMAP_STEP = 0x4"

definition SEL_FMAP_QID_BASE_SHIFT :: nat where
  [simp]: "SEL_FMAP_QID_BASE_SHIFT = 0"

definition SEL_FMAP_QID_BASE_MASK :: u32 where
  [simp]: "SEL_FMAP_QID_BASE_MASK = 0x7FF"

definition SEL_FMAP_QID_MAX_SHIFT :: nat where
  [simp]: "SEL_FMAP_QID_MAX_SHIFT = 11"

definition SEL_FMAP_QID_MAX_MASK :: u32 where
  [simp]: "SEL_FMAP_QID_MAX_MASK = 0xFFF"

definition QDMA_REG_C2H_QID2VEC_MAP_QID :: u32 where
  [simp]: "QDMA_REG_C2H_QID2VEC_MAP_QID = 0xa80"

definition C2H_QID2VEC_MAP_QID_C2H_VEC_SHIFT :: nat where
  [simp]: "C2H_QID2VEC_MAP_QID_C2H_VEC_SHIFT = 0"

definition C2H_QID2VEC_MAP_QID_C2H_VEC_MASK :: u32 where
  [simp]: "C2H_QID2VEC_MAP_QID_C2H_VEC_MASK = 0xFF"

definition C2H_QID2VEC_MAP_QID_C2H_COALEN_SHIFT :: nat where
  [simp]: "C2H_QID2VEC_MAP_QID_C2H_COALEN_SHIFT = 8"

definition C2H_QID2VEC_MAP_QID_C2H_COALEN_MASK :: u32 where
  [simp]: "C2H_QID2VEC_MAP_QID_C2H_COALEN_MASK = 0x1"

definition C2H_QID2VEC_MAP_QID_H2C_VEC_SHIFT :: nat where
  [simp]: "C2H_QID2VEC_MAP_QID_H2C_VEC_SHIFT = 9"

definition C2H_QID2VEC_MAP_QID_H2C_VEC_MASK :: u32 where
  [simp]: "C2H_QID2VEC_MAP_QID_H2C_VEC_MASK = 0xFF"

definition C2H_QID2VEC_MAP_QID_H2C_COALEN_SHIFT :: nat where
  [simp]: "C2H_QID2VEC_MAP_QID_H2C_COALEN_SHIFT = 18"

definition C2H_QID2VEC_MAP_QID_H2C_COALEN_MASK :: u32 where
  [simp]: "C2H_QID2VEC_MAP_QID_H2C_COALEN_MASK = 0x1"

definition QDMA_REG_C2H_QID2VEC_MAP :: u32 where
  [simp]: "QDMA_REG_C2H_QID2VEC_MAP = 0xa84"

definition QDMA_REG_IND_CTXT_REG_COUNT :: nat where
  [simp]: "QDMA_REG_IND_CTXT_REG_COUNT = 4"

definition QDMA_REG_IND_CTXT_DATA_BASE :: u32 where
  [simp]: "QDMA_REG_IND_CTXT_DATA_BASE = 0x804"

definition QDMA_REG_IND_CTXT_MASK_BASE :: u32 where
  [simp]: "QDMA_REG_IND_CTXT_MASK_BASE = 0x814"

definition QDMA_REG_IND_CTXT_CMD :: u32 where
  [simp]: "QDMA_REG_IND_CTXT_CMD = 0x824"

definition IND_CTXT_CMD_QID_SHIFT :: nat where
  [simp]: "IND_CTXT_CMD_QID_SHIFT = 7"

definition IND_CTXT_CMD_QID_MASK :: u32 where
  [simp]: "IND_CTXT_CMD_QID_MASK = 0x7FF"

definition IND_CTXT_CMD_OP_SHIFT :: nat where
  [simp]: "IND_CTXT_CMD_OP_SHIFT = 5"

definition IND_CTXT_CMD_OP_MASK :: u32 where
  [simp]: "IND_CTXT_CMD_OP_MASK = 0x3"

definition IND_CTXT_CMD_SEL_SHIFT :: nat where
  [simp]: "IND_CTXT_CMD_SEL_SHIFT = 1"

definition IND_CTXT_CMD_SEL_MASK :: u32 where
  [simp]: "IND_CTXT_CMD_SEL_MASK = 0xF"

definition IND_CTXT_CMD_BUSY_MASK :: u32 where
  [simp]: "IND_CTXT_CMD_BUSY_MASK = 0x1"

definition QDMA_REG_MM_CONTROL_RUN :: u32 where
  [simp]: "QDMA_REG_MM_CONTROL_RUN = 0x1"

definition QDMA_REG_MM_CONTROL_STEP :: u32 where
  [simp]: "QDMA_REG_MM_CONTROL_STEP = 0x100"

definition QDMA_REG_C2H_MM_CONTROL_BASE :: u32 where
  [simp]: "QDMA_REG_C2H_MM_CONTROL_BASE = 0x1004"

definition QDMA_REG_H2C_MM_CONTROL_BASE :: u32 where
  [simp]: "QDMA_REG_H2C_MM_CONTROL_BASE = 0x1204"

definition QDMA_REG_PIDX_STEP :: u32 where
  [simp]: "QDMA_REG_PIDX_STEP = 0x10"

text \<open>
  The doorbell registers, whose bases differ between the physical function (PF) and the
  virtual function (VF) builds of the driver (\<open>__QDMA_VF__\<close>, the first argument).
\<close>

definition QDMA_REG_INT_CIDX_BASE :: "bool \<Rightarrow> u32" where
  [simp]: "QDMA_REG_INT_CIDX_BASE vf = (if vf then 0x3000 else 0x6400)"

definition QDMA_REG_H2C_PIDX_BASE :: "bool \<Rightarrow> u32" where
  [simp]: "QDMA_REG_H2C_PIDX_BASE vf = (if vf then 0x3004 else 0x6404)"

definition QDMA_REG_C2H_PIDX_BASE :: "bool \<Rightarrow> u32" where
  [simp]: "QDMA_REG_C2H_PIDX_BASE vf = (if vf then 0x3008 else 0x6408)"

definition QDMA_REG_WRB_CIDX_BASE :: "bool \<Rightarrow> u32" where
  [simp]: "QDMA_REG_WRB_CIDX_BASE vf = (if vf then 0x300C else 0x640C)"

text \<open>Commands and targets of the indirect context programming interface.\<close>

datatype ind_ctxt_cmd_op =
  QDMA_CTXT_CMD_CLR | QDMA_CTXT_CMD_WR | QDMA_CTXT_CMD_RD | QDMA_CTXT_CMD_INV

datatype ind_ctxt_cmd_sel =
  QDMA_CTXT_SEL_SW_C2H | QDMA_CTXT_SEL_SW_H2C | QDMA_CTXT_SEL_HW_C2H | QDMA_CTXT_SEL_HW_H2C
  | QDMA_CTXT_SEL_CR_C2H | QDMA_CTXT_SEL_CR_H2C | QDMA_CTXT_SEL_WRB | QDMA_CTXT_SEL_PFTCH
  | QDMA_CTXT_SEL_COAL

primrec ctxt_op_num :: "ind_ctxt_cmd_op \<Rightarrow> u32" where
  "ctxt_op_num QDMA_CTXT_CMD_CLR = 0"
| "ctxt_op_num QDMA_CTXT_CMD_WR = 1"
| "ctxt_op_num QDMA_CTXT_CMD_RD = 2"
| "ctxt_op_num QDMA_CTXT_CMD_INV = 3"

primrec ctxt_sel_num :: "ind_ctxt_cmd_sel \<Rightarrow> u32" where
  "ctxt_sel_num QDMA_CTXT_SEL_SW_C2H = 0"
| "ctxt_sel_num QDMA_CTXT_SEL_SW_H2C = 1"
| "ctxt_sel_num QDMA_CTXT_SEL_HW_C2H = 2"
| "ctxt_sel_num QDMA_CTXT_SEL_HW_H2C = 3"
| "ctxt_sel_num QDMA_CTXT_SEL_CR_C2H = 4"
| "ctxt_sel_num QDMA_CTXT_SEL_CR_H2C = 5"
| "ctxt_sel_num QDMA_CTXT_SEL_WRB = 6"
| "ctxt_sel_num QDMA_CTXT_SEL_PFTCH = 7"
| "ctxt_sel_num QDMA_CTXT_SEL_COAL = 8"

section \<open>Polling a register\<close>

text \<open>
  The \<open>do ... while (--count)\<close> loop of \<open>hw_monitor_reg\<close>. The counter is the C \<open>int\<close> at its
  width: a start value of 0 is decremented below zero and the loop goes round \<open>2 ^ 32\<close>
  times, which is why the loop ends for every start value.
\<close>

function poll_loop ::
  "'e env \<Rightarrow> u32 \<Rightarrow> u32 \<Rightarrow> u32 \<Rightarrow> u32 \<Rightarrow> u32 \<Rightarrow> 'e \<Rightarrow> bool \<times> 'e" where
  "poll_loop E reg msk v interval_us count e =
     (let (r, e1) = env_readl E reg e in
      if r AND msk = v then (True, e1)
      else let e2 = env_udelay E interval_us e1; count' = count - 1 in
           if count' = 0 then (False, e2)
           else poll_loop E reg msk v interval_us count' e2)"
  by pat_completeness auto
termination
  by (relation "measure (\<lambda>(E, reg, msk, v, us, count, e). unat (count - 1))")
    (auto simp: unat_minus_two)

declare poll_loop.simps [simp del]

definition hw_monitor_reg ::
  "'e env \<Rightarrow> u32 \<Rightarrow> u32 \<Rightarrow> u32 \<Rightarrow> u32 \<Rightarrow> u32 \<Rightarrow> 'e \<Rightarrow> int res \<times> 'e" where
  "hw_monitor_reg E reg msk v interval_us timeout_us e =
     (let interval_us = (if interval_us = 0 then QDMA_REG_POLL_DFLT_INTERVAL_US else interval_us);
          timeout_us = (if timeout_us = 0 then QDMA_REG_POLL_DFLT_TIMEOUT_US else timeout_us);
          count = timeout_us div interval_us;
          (found, e1) = poll_loop E reg msk v interval_us count e
      in if found then (Inr 1, e1)
         else let (r, e2) = env_readl E reg e1
              in if r AND msk = v then (Inr 1, e2) else (Inl EBUSY, e2))"

section \<open>Global CSRs, memory-mapped channels and the function map\<close>

definition hw_set_global_csr :: "'e env \<Rightarrow> 'e \<Rightarrow> 'e" where
  "hw_set_global_csr E e =
     (let e1 = env_writel E QDMA_REG_GLBL_WB_ACC 0x1 e;
          e2 = write_regs E QDMA_REG_GLBL_RNG_SZ_BASE
                 (replicate QDMA_REG_GLBL_RNG_SZ_COUNT (RNG_SZ_DFLT + 1)) e1;
          e3 = write_regs E QDMA_REG_C2H_BUF_SZ_BASE
                 (replicate QDMA_REG_C2H_BUF_SZ_COUNT C2H_BUF_SZ_DFLT) e2;
          e4 = write_regs E QDMA_REG_C2H_TIMER_CNT_BASE
                 (replicate QDMA_REG_C2H_TIMER_CNT_COUNT C2H_TIMER_CNT_DFLT) e3
      in write_regs E QDMA_REG_C2H_CNT_TH_BASE
           (replicate QDMA_REG_C2H_CNT_TH_COUNT C2H_CNT_TH_DFLT) e4)"

definition hw_mm_channel_enable :: "'e env \<Rightarrow> u32 \<Rightarrow> bool \<Rightarrow> 'e \<Rightarrow> 'e" where
  "hw_mm_channel_enable E channel c2h e =
     (let reg = (if c2h then QDMA_REG_H2C_MM_CONTROL_BASE else QDMA_REG_C2H_MM_CONTROL_BASE)
      in env_writel E (reg + channel * QDMA_REG_MM_CONTROL_STEP) QDMA_REG_MM_CONTROL_RUN e)"

definition hw_mm_channel_disable :: "'e env \<Rightarrow> u32 \<Rightarrow> bool \<Rightarrow> 'e \<Rightarrow> 'e" where
  "hw_mm_channel_disable E channel c2h e =
     (let reg = (if c2h then QDMA_REG_H2C_MM_CONTROL_BASE else QDMA_REG_C2H_MM_CONTROL_BASE)
      in env_writel E (reg + channel * QDMA_REG_MM_CONTROL_STEP) 0 e)"

definition hw_set_fmap :: "'e env \<Rightarrow> u8 \<Rightarrow> u32 \<Rightarrow> u32 \<Rightarrow> 'e \<Rightarrow> 'e" where
  "hw_set_fmap E func_id qbase qmax e =
     env_writel E (QDMA_REG_TRQ_SEL_FMAP_BASE + ucast func_id * QDMA_REG_TRQ_SEL_FMAP_STEP)
       (push_bit SEL_FMAP_QID_BASE_SHIFT qbase OR push_bit SEL_FMAP_QID_MAX_SHIFT qmax) e"

section \<open>Indirect context programming\<close>

text \<open>
  The command word, and the two phases of \<open>hw_indirect_ctext_prog\<close> that are shared: issuing
  a command and waiting for the busy bit to clear.
\<close>

definition ind_ctxt_cmd :: "u32 \<Rightarrow> ind_ctxt_cmd_op \<Rightarrow> ind_ctxt_cmd_sel \<Rightarrow> u32" where
  "ind_ctxt_cmd qid_hw op sel =
     push_bit IND_CTXT_CMD_QID_SHIFT qid_hw OR push_bit IND_CTXT_CMD_OP_SHIFT (ctxt_op_num op)
     OR push_bit IND_CTXT_CMD_SEL_SHIFT (ctxt_sel_num sel)"

definition ind_ctxt_issue ::
  "'e env \<Rightarrow> u32 \<Rightarrow> ind_ctxt_cmd_op \<Rightarrow> ind_ctxt_cmd_sel \<Rightarrow> 'e \<Rightarrow> int res \<times> 'e" where
  "ind_ctxt_issue E qid_hw op sel e =
     hw_monitor_reg E QDMA_REG_IND_CTXT_CMD IND_CTXT_CMD_BUSY_MASK 0 100 (500 * 1000)
       (env_writel E QDMA_REG_IND_CTXT_CMD (ind_ctxt_cmd qid_hw op sel) e)"

text \<open>
  \<open>data\<close> is the caller's buffer (\<open>None\<close> is NULL) and \<open>cnt\<close> the number of its words that
  take part. The result carries the buffer after the call, which a read command fills. A
  \<open>cnt\<close> beyond the buffer, or beyond the four-word read-back buffer when only the
  verification uses it, is a fault.
\<close>

definition ctext_setup ::
  "'e env \<Rightarrow> ind_ctxt_cmd_op \<Rightarrow> u32 list option \<Rightarrow> nat \<Rightarrow> 'e \<Rightarrow> unit res \<times> 'e" where
  "ctext_setup E op data cnt e =
     (if op = QDMA_CTXT_CMD_WR \<or> op = QDMA_CTXT_CMD_RD then
        if cnt = 0 \<or> cnt > QDMA_REG_IND_CTXT_REG_COUNT then (Inl EINVAL, e)
        else case data of
               None \<Rightarrow> (Inl EINVAL, e)
             | Some d \<Rightarrow>
                 let e1 = write_regs E QDMA_REG_IND_CTXT_MASK_BASE
                            (replicate QDMA_REG_IND_CTXT_REG_COUNT 0xFFFFFFFF) e
                 in if op = QDMA_CTXT_CMD_WR then
                      if length d < cnt then (Inl OOPS, e1)
                      else (Inr (), write_regs E QDMA_REG_IND_CTXT_DATA_BASE
                              (take cnt d @ replicate (QDMA_REG_IND_CTXT_REG_COUNT - cnt) 0) e1)
                    else (Inr (), e1)
      else (Inr (), e))"

definition ctext_verify ::
  "'e env \<Rightarrow> u32 \<Rightarrow> ind_ctxt_cmd_sel \<Rightarrow> u32 list option \<Rightarrow> nat \<Rightarrow> 'e \<Rightarrow> unit res \<times> 'e" where
  "ctext_verify E qid_hw sel data cnt e =
     (case ind_ctxt_issue E qid_hw QDMA_CTXT_CMD_RD sel e of
        (Inl err, e1) \<Rightarrow> (Inl err, e1)
      | (Inr _, e1) \<Rightarrow>
          if cnt > 4 then (Inl OOPS, e1)
          else let (rd, e2) = read_regs E QDMA_REG_IND_CTXT_DATA_BASE cnt e1
               in case data of
                    None \<Rightarrow> (if cnt = 0 then Inr () else Inl OOPS, e2)
                  | Some d \<Rightarrow>
                      (if length d < cnt then Inl OOPS
                       else if take cnt d \<noteq> rd then Inl EINVAL else Inr (), e2))"

definition hw_indirect_ctext_prog ::
  "'e env \<Rightarrow> u32 \<Rightarrow> ind_ctxt_cmd_op \<Rightarrow> ind_ctxt_cmd_sel \<Rightarrow> u32 list option \<Rightarrow> nat \<Rightarrow> bool
     \<Rightarrow> 'e \<Rightarrow> (unit res \<times> u32 list option) \<times> 'e" where
  "hw_indirect_ctext_prog E qid_hw op sel data cnt verify e =
     (case ctext_setup E op data cnt e of
        (Inl err, e1) \<Rightarrow> ((Inl err, data), e1)
      | (Inr _, e1) \<Rightarrow>
          (case ind_ctxt_issue E qid_hw op sel e1 of
             (Inl err, e2) \<Rightarrow> ((Inl EBUSY, data), e2)
           | (Inr _, e2) \<Rightarrow>
               if op = QDMA_CTXT_CMD_RD then
                 (case data of
                    None \<Rightarrow> ((Inl OOPS, data), e2)
                  | Some d \<Rightarrow>
                      if length d < cnt then ((Inl OOPS, data), e2)
                      else let (rd, e3) = read_regs E QDMA_REG_IND_CTXT_DATA_BASE cnt e2
                           in ((Inr (), Some (rd @ drop cnt d)), e3))
               else if \<not> verify then ((Inr (), data), e2)
               else let (rv, e3) = ctext_verify E qid_hw sel data cnt e2
                    in ((rv, data), e3)))"

section \<open>Queue to interrupt vector map\<close>

definition hw_prog_qid2vec :: "'e env \<Rightarrow> u32 \<Rightarrow> bool \<Rightarrow> u32 \<Rightarrow> bool \<Rightarrow> 'e \<Rightarrow> 'e" where
  "hw_prog_qid2vec E qid_hw c2h intr_id intr_coal_en e =
     (let msk = (if c2h then C2H_QID2VEC_MAP_QID_C2H_VEC_MASK
                 else C2H_QID2VEC_MAP_QID_H2C_VEC_MASK);
          shift = (if c2h then C2H_QID2VEC_MAP_QID_C2H_VEC_SHIFT
                   else C2H_QID2VEC_MAP_QID_H2C_VEC_SHIFT);
          coal_shift = (if c2h then C2H_QID2VEC_MAP_QID_C2H_COALEN_SHIFT
                        else C2H_QID2VEC_MAP_QID_H2C_COALEN_SHIFT);
          e1 = env_writel E QDMA_REG_C2H_QID2VEC_MAP_QID qid_hw e;
          (v, e2) = env_readl E QDMA_REG_C2H_QID2VEC_MAP e1;
          v = v AND NOT (push_bit shift msk);
          v = v OR push_bit shift intr_id;
          v = (if intr_coal_en then v OR push_bit coal_shift 1 else v)
      in env_writel E QDMA_REG_C2H_QID2VEC_MAP v e2)"


section \<open>Polling: what is sampled and when it gives up\<close>

text \<open>
  \<open>poll_state n\<close> is the device after \<open>n\<close> unsuccessful rounds (a read and a delay each) and
  \<open>poll_sample n\<close> the next reading. \<open>poll_rounds\<close> is the number of rounds the loop makes.
\<close>

primrec poll_state :: "'e env \<Rightarrow> u32 \<Rightarrow> u32 \<Rightarrow> nat \<Rightarrow> 'e \<Rightarrow> 'e" where
  "poll_state E reg us 0 e = e"
| "poll_state E reg us (Suc n) e = poll_state E reg us n (env_udelay E us (snd (env_readl E reg e)))"

definition poll_sample :: "'e env \<Rightarrow> u32 \<Rightarrow> u32 \<Rightarrow> nat \<Rightarrow> 'e \<Rightarrow> u32 \<times> 'e" where
  "poll_sample E reg us n e = env_readl E reg (poll_state E reg us n e)"

definition poll_rounds :: "u32 \<Rightarrow> u32 \<Rightarrow> nat" where
  "poll_rounds us tmo =
     unat ((if tmo = 0 then QDMA_REG_POLL_DFLT_TIMEOUT_US else tmo) div
           (if us = 0 then QDMA_REG_POLL_DFLT_INTERVAL_US else us) - 1) + 1"

definition poll_interval :: "u32 \<Rightarrow> u32" where
  "poll_interval us = (if us = 0 then QDMA_REG_POLL_DFLT_INTERVAL_US else us)"

lemma poll_sample_0 [simp]: "poll_sample E reg us 0 e = env_readl E reg e"
  by (simp add: poll_sample_def)

lemma poll_sample_Suc [simp]:
  "poll_sample E reg us (Suc n) e = poll_sample E reg us n (env_udelay E us (snd (env_readl E reg e)))"
  by (simp add: poll_sample_def)

lemma poll_loop_hit:
  assumes "n \<le> unat (count - 1)" and "fst (poll_sample E reg us n e) AND msk = v"
    and "\<forall>i<n. fst (poll_sample E reg us i e) AND msk \<noteq> v"
  shows "poll_loop E reg msk v us count e = (True, snd (poll_sample E reg us n e))"
  using assms
proof (induction n arbitrary: count e)
  case 0
  then show ?case
    by (subst poll_loop.simps) (auto simp: Let_def case_prod_beta)
next
  case (Suc n)
  have miss: "fst (env_readl E reg e) AND msk \<noteq> v"
    using Suc.prems(3) by (metis poll_sample_0 zero_less_Suc)
  have "count \<noteq> 1"
    using Suc.prems(1) by auto
  then have "poll_loop E reg msk v us count e =
      poll_loop E reg msk v us (count - 1) (env_udelay E us (snd (env_readl E reg e)))"
    using miss by (subst poll_loop.simps) (simp add: Let_def case_prod_beta)
  also have "\<dots> = (True, snd (poll_sample E reg us (Suc n) e))"
    using Suc.prems \<open>count \<noteq> 1\<close>
    by (subst Suc.IH) (auto simp: unat_minus_two dest: spec [of _ "Suc _"])
  finally show ?case .
qed

lemma poll_loop_miss:
  assumes "\<forall>i\<le>unat (count - 1). fst (poll_sample E reg us i e) AND msk \<noteq> v"
  shows "poll_loop E reg msk v us count e = (False, poll_state E reg us (unat (count - 1) + 1) e)"
  using assms
proof (induction "unat (count - 1)" arbitrary: count e)
  case 0
  then have "count = 1"
    by (metis eq_iff_diff_eq_0 unat_eq_zero)
  then show ?case
    using 0 by (subst poll_loop.simps) (auto simp: Let_def case_prod_beta)
next
  case (Suc n)
  then have "count \<noteq> 1"
    by auto
  then have n: "unat (count - 1) = Suc (unat (count - 2))" "count - 1 - 1 = count - 2"
    by (simp_all add: unat_minus_two)
  have miss: "fst (env_readl E reg e) AND msk \<noteq> v"
    using Suc.prems by (metis poll_sample_0 le0)
  then have "poll_loop E reg msk v us count e =
      poll_loop E reg msk v us (count - 1) (env_udelay E us (snd (env_readl E reg e)))"
    using \<open>count \<noteq> 1\<close> by (subst poll_loop.simps) (simp add: Let_def case_prod_beta)
  also have "\<dots> = (False, poll_state E reg us (unat (count - 1) + 1) e)"
    using Suc.prems Suc.hyps(2) n
    by (subst Suc.hyps(1)) (auto dest: spec [of _ "Suc _"])
  finally show ?case .
qed


text \<open>
  C36: \<open>hw_monitor_reg\<close> always returns. It samples the register at most \<open>poll_rounds + 1\<close> times,
  one poll interval apart; the result is 1, with the device as it is right after the first
  matching sample, if one of these samples matches, and \<open>-EBUSY\<close> otherwise.
\<close>

theorem hw_monitor_reg_correct:
  "hw_monitor_reg E reg msk v us tmo e =
     (case find (\<lambda>i. fst (poll_sample E reg (poll_interval us) i e) AND msk = v)
             [0..<Suc (poll_rounds us tmo)] of
        Some n \<Rightarrow> (Inr 1, snd (poll_sample E reg (poll_interval us) n e))
      | None \<Rightarrow> (Inl EBUSY, snd (poll_sample E reg (poll_interval us) (poll_rounds us tmo) e)))"
proof -
  define count where "count = (if tmo = 0 then QDMA_REG_POLL_DFLT_TIMEOUT_US else tmo) div
    (if us = 0 then QDMA_REG_POLL_DFLT_INTERVAL_US else us)"
  define us' where "us' = poll_interval us"
  let ?P = "\<lambda>i. fst (poll_sample E reg us' i e) AND msk = v"
  have rounds: "poll_rounds us tmo = unat (count - 1) + 1"
    by (simp add: poll_rounds_def count_def)
  have mon: "hw_monitor_reg E reg msk v us tmo e =
      (let (found, e1) = poll_loop E reg msk v us' count e in
       if found then (Inr 1, e1)
       else let (r, e2) = env_readl E reg e1
            in if r AND msk = v then (Inr 1, e2) else (Inl EBUSY, e2))"
    by (simp add: hw_monitor_reg_def Let_def us'_def poll_interval_def count_def)
  show ?thesis
  proof (cases "\<exists>i\<le>unat (count - 1). ?P i")
    case True
    then obtain n where n: "n \<le> unat (count - 1)" "?P n" "\<forall>i<n. \<not> ?P i"
      by (rule first_index)
    then have "find ?P [0..<Suc (poll_rounds us tmo)] = Some n"
      by (intro find_upt_first) (auto simp: rounds)
    then show ?thesis
      using poll_loop_hit [OF n] by (simp add: mon us'_def)
  next
    case False
    have loop: "poll_loop E reg msk v us' count e = (False, poll_state E reg us' (unat (count - 1) + 1) e)"
      using False by (intro poll_loop_miss) auto
    have split: "[0..<Suc (poll_rounds us tmo)] = [0..<Suc (unat (count - 1))] @ [poll_rounds us tmo]"
      by (simp add: rounds)
    have "find ?P [0..<Suc (unat (count - 1))] = None"
      using False by (fastforce simp: find_None_iff simp del: upt_Suc)
    then have "find ?P [0..<Suc (poll_rounds us tmo)] =
        (if ?P (poll_rounds us tmo) then Some (poll_rounds us tmo) else None)"
      unfolding split find_append by (simp del: upt_Suc)
    then show ?thesis
      using loop by (simp add: mon us'_def rounds poll_sample_def case_prod_beta Let_def)
  qed
qed

lemma poll_loop_trace [simp]:
  "poll_loop (traced E) reg msk v us count (e, l) =
     (fst (poll_loop E reg msk v us count e), snd (poll_loop E reg msk v us count e), l)"
proof (induction E reg msk v us count e rule: poll_loop.induct)
  case (1 E reg msk v us count e)
  show ?case
    using 1 [OF refl prod.collapse _ refl refl]
    by (subst (1 2 3) poll_loop.simps) (auto simp: Let_def case_prod_beta)
qed

lemma hw_monitor_reg_trace [simp]:
  "hw_monitor_reg (traced E) reg msk v us tmo (e, l) =
     (fst (hw_monitor_reg E reg msk v us tmo e), snd (hw_monitor_reg E reg msk v us tmo e), l)"
  by (simp add: hw_monitor_reg_def Let_def case_prod_beta)


section \<open>Indirect context programming: order, verification, errors\<close>

lemma ind_ctxt_issue_trace [simp]:
  "ind_ctxt_issue (traced E) qid op sel (e, l) =
     (fst (ind_ctxt_issue E qid op sel e), snd (ind_ctxt_issue E qid op sel e),
      l @ [(QDMA_REG_IND_CTXT_CMD, ind_ctxt_cmd qid op sel)])"
  by (simp add: ind_ctxt_issue_def)

lemma ctext_setup_wr:
  "ctext_setup E QDMA_CTXT_CMD_WR (Some d) cnt e = (Inr (), e') \<longleftrightarrow>
     0 < cnt \<and> cnt \<le> 4 \<and> cnt \<le> length d \<and>
     e' = write_regs E QDMA_REG_IND_CTXT_DATA_BASE (take cnt d @ replicate (4 - cnt) 0)
            (write_regs E QDMA_REG_IND_CTXT_MASK_BASE (replicate 4 0xFFFFFFFF) e)"
  by (auto simp: ctext_setup_def Let_def)

lemma hw_indirect_ctext_prog_ok_iff:
  "fst (fst (hw_indirect_ctext_prog E qid QDMA_CTXT_CMD_WR sel (Some d) cnt verify e)) = Inr () \<longleftrightarrow>
     (\<exists>e1 n e2. ctext_setup E QDMA_CTXT_CMD_WR (Some d) cnt e = (Inr (), e1) \<and>
       ind_ctxt_issue E qid QDMA_CTXT_CMD_WR sel e1 = (Inr n, e2) \<and>
       (verify \<longrightarrow> fst (ctext_verify E qid sel (Some d) cnt e2) = Inr ()))"
  by (auto simp: hw_indirect_ctext_prog_def Let_def split: prod.splits sum.splits)

lemma ctext_verify_ok:
  assumes "fst (ctext_verify E qid sel (Some d) cnt e) = Inr ()"
  shows "\<exists>n e1. ind_ctxt_issue E qid QDMA_CTXT_CMD_RD sel e = (Inr n, e1) \<and>
    read_regs E QDMA_REG_IND_CTXT_DATA_BASE cnt e1 =
      (take cnt d, snd (ctext_verify E qid sel (Some d) cnt e))"
  using assms
  by (auto simp: ctext_verify_def Let_def split: prod.splits sum.splits if_splits)

text \<open>
  C30: A verified context write that reports success has issued exactly this sequence of
  register writes and no other: the four mask registers, the \<open>cnt\<close> words of the context
  padded with zeros to four, the write command and the read command for the same queue and
  context; and the values the device then returned in the data registers are the words that
  were written.
\<close>

theorem ctext_prog_write_verified:
  assumes "hw_indirect_ctext_prog (traced E) qid QDMA_CTXT_CMD_WR sel (Some d) cnt True (e, []) =
    ((Inr (), data'), (e', log))"
  shows "0 < cnt \<and> cnt \<le> 4 \<and> cnt \<le> length d \<and> data' = Some d
    \<and> log = reg_list QDMA_REG_IND_CTXT_MASK_BASE (replicate 4 0xFFFFFFFF)
           @ reg_list QDMA_REG_IND_CTXT_DATA_BASE (take cnt d @ replicate (4 - cnt) 0)
           @ [(QDMA_REG_IND_CTXT_CMD, ind_ctxt_cmd qid QDMA_CTXT_CMD_WR sel),
              (QDMA_REG_IND_CTXT_CMD, ind_ctxt_cmd qid QDMA_CTXT_CMD_RD sel)]
    \<and> (\<exists>e1. read_regs E QDMA_REG_IND_CTXT_DATA_BASE cnt e1 = (take cnt d, e'))"
proof -
  have "fst (fst (hw_indirect_ctext_prog (traced E) qid QDMA_CTXT_CMD_WR sel (Some d) cnt True (e, [])))
      = Inr ()"
    using assms by simp
  then obtain e1 l1 n e2 l2 where
    prep: "ctext_setup (traced E) QDMA_CTXT_CMD_WR (Some d) cnt (e, []) = (Inr (), (e1, l1))" and
    issue: "ind_ctxt_issue (traced E) qid QDMA_CTXT_CMD_WR sel (e1, l1) = (Inr n, (e2, l2))" and
    verify: "fst (ctext_verify (traced E) qid sel (Some d) cnt (e2, l2)) = Inr ()"
    unfolding hw_indirect_ctext_prog_ok_iff by (metis surj_pair)
  have cnt: "0 < cnt" "cnt \<le> 4" "cnt \<le> length d"
    using prep by (auto simp: ctext_setup_wr)
  have l2: "l2 = reg_list QDMA_REG_IND_CTXT_MASK_BASE (replicate 4 0xFFFFFFFF)
      @ reg_list QDMA_REG_IND_CTXT_DATA_BASE (take cnt d @ replicate (4 - cnt) 0)
      @ [(QDMA_REG_IND_CTXT_CMD, ind_ctxt_cmd qid QDMA_CTXT_CMD_WR sel)]"
    using prep issue by (auto simp: ctext_setup_wr)
  have final: "data' = Some d" "snd (ctext_verify (traced E) qid sel (Some d) cnt (e2, l2)) = (e', log)"
    using assms prep issue by (auto simp: hw_indirect_ctext_prog_def Let_def split: prod.splits)
  obtain m e3 l3 where "ind_ctxt_issue (traced E) qid QDMA_CTXT_CMD_RD sel (e2, l2) = (Inr m, (e3, l3))"
    and "read_regs (traced E) QDMA_REG_IND_CTXT_DATA_BASE cnt (e3, l3) = (take cnt d, (e', log))"
    using ctext_verify_ok [OF verify] final(2) by (metis surj_pair)
  then show ?thesis
    using cnt l2 final(1) by (auto simp: prod_eq_iff)
qed

text \<open>
  A context write or read with a word count outside 1..4, or with a NULL buffer, is
  refused with \<open>-EINVAL\<close> before any register is touched.
\<close>

theorem ctext_prog_rejects:
  assumes "op = QDMA_CTXT_CMD_WR \<or> op = QDMA_CTXT_CMD_RD"
    and "cnt = 0 \<or> cnt > 4 \<or> data = None"
  shows "hw_indirect_ctext_prog E qid op sel data cnt verify e = ((Inl EINVAL, data), e)"
  using assms by (auto simp: hw_indirect_ctext_prog_def ctext_setup_def split: option.splits)


section \<open>Register layouts\<close>

text \<open>
  The command word of the indirect interface decodes, by the register layout, to the
  hardware queue, the operation and the context it was built from, for every queue number
  that fits the 11-bit queue field; the busy bit the driver polls is not set by it.
\<close>

theorem ind_ctxt_cmd_decode:
  assumes "qid < 2048"
  shows "field IND_CTXT_CMD_QID_SHIFT IND_CTXT_CMD_QID_MASK (ind_ctxt_cmd qid op sel) = qid
    \<and> field IND_CTXT_CMD_OP_SHIFT IND_CTXT_CMD_OP_MASK (ind_ctxt_cmd qid op sel) = ctxt_op_num op
    \<and> field IND_CTXT_CMD_SEL_SHIFT IND_CTXT_CMD_SEL_MASK (ind_ctxt_cmd qid op sel) = ctxt_sel_num sel
    \<and> ind_ctxt_cmd qid op sel AND IND_CTXT_CMD_BUSY_MASK = 0"
proof -
  have op: "ctxt_op_num op < 2 ^ 2" "ctxt_op_num op AND 3 = ctxt_op_num op"
    by (cases op; simp)+
  have sel: "ctxt_sel_num sel < 2 ^ 4" "ctxt_sel_num sel < 2 ^ 6" "ctxt_sel_num sel AND 15 = ctxt_sel_num sel"
    by (cases sel; simp)+
  have qid: "qid AND 2047 = qid"
    using assms by (intro and_mask_eq [of _ 11]) auto
  have "field 0 1 (ind_ctxt_cmd qid op sel) = 0"
    by (simp add: ind_ctxt_cmd_def field_simps)
  then have "ind_ctxt_cmd qid op sel AND IND_CTXT_CMD_BUSY_MASK = 0"
    by (simp add: field_def)
  then show ?thesis
    using op sel qid by (simp add: field_simps ind_ctxt_cmd_def)
qed


text \<open>
  Programming the function map of a function writes one word, at the register of that
  function, which decodes by the register layout to the queue base and the queue count given,
  for a base that fits its 11-bit field and a count that fits its 12-bit field.
\<close>

theorem hw_set_fmap_decode:
  assumes "qbase < 2048" and "qmax < 4096"
  shows "\<exists>w. hw_set_fmap (traced E) f qbase qmax (e, l) =
      (env_writel E (0x400 + 4 * ucast f) w e, l @ [(0x400 + 4 * ucast f, w)])
    \<and> field SEL_FMAP_QID_BASE_SHIFT SEL_FMAP_QID_BASE_MASK w = qbase
    \<and> field SEL_FMAP_QID_MAX_SHIFT SEL_FMAP_QID_MAX_MASK w = qmax"
proof -
  have "qbase AND 2047 = qbase" "qmax AND 4095 = qmax"
    using assms by (auto intro: and_mask_eq [of _ 11] and_mask_eq [of _ 12])
  then show ?thesis
    using assms by (intro exI [of _ "qbase OR push_bit 11 qmax"])
      (simp add: hw_set_fmap_def field_simps mult.commute)
qed

text \<open>
  Mapping a queue to an interrupt vector selects the queue first and then rewrites the map
  register with the vector in the field of the given direction; the vector and the coalescing
  flag of the other direction are left as the device reported them. Enabling coalescing
  sets the flag of this direction only.
\<close>

theorem hw_prog_qid2vec_fields:
  assumes "intr_id < 256"
  shows "\<exists>v w e1. env_readl E QDMA_REG_C2H_QID2VEC_MAP
        (env_writel E QDMA_REG_C2H_QID2VEC_MAP_QID qid e) = (v, e1)
    \<and> hw_prog_qid2vec (traced E) qid c2h intr_id coal (e, l) =
        (env_writel E QDMA_REG_C2H_QID2VEC_MAP w e1,
         l @ [(QDMA_REG_C2H_QID2VEC_MAP_QID, qid), (QDMA_REG_C2H_QID2VEC_MAP, w)])
    \<and> field (if c2h then 0 else 9) 0xFF w = intr_id
    \<and> field (if c2h then 9 else 0) 0xFF w = field (if c2h then 9 else 0) 0xFF v
    \<and> field (if c2h then 18 else 8) 1 w = field (if c2h then 18 else 8) 1 v
    \<and> field (if c2h then 8 else 18) 1 w = (if coal then 1 else field (if c2h then 8 else 18) 1 v)"
proof -
  obtain v e1 where r: "env_readl E QDMA_REG_C2H_QID2VEC_MAP
      (env_writel E QDMA_REG_C2H_QID2VEC_MAP_QID qid e) = (v, e1)"
    by (metis surj_pair)
  have id: "intr_id AND 255 = intr_id"
    using assms by (auto intro: and_mask_eq [of _ 8])
  have keep: "field 0 255 (v AND - 130561) = field 0 255 v" "field 8 1 (v AND - 130561) = field 8 1 v"
    "field 18 1 (v AND - 130561) = field 18 1 v" "field 9 255 (v AND - 130561) = 0"
    "field 0 255 (v AND - 256) = 0" "field 8 1 (v AND - 256) = field 8 1 v"
    "field 18 1 (v AND - 256) = field 18 1 v" "field 9 255 (v AND - 256) = field 9 255 v"
    by (simp_all add: field_def drop_bit_and and.assoc)
  have small: "intr_id < 512" "intr_id < 262144"
    using assms by (simp_all add: word_less_nat_alt)
  show ?thesis
    using r id keep assms small
    by (cases c2h; cases coal) (simp_all add: hw_prog_qid2vec_def Let_def field_simps)
qed


text \<open>
  The initialisation of the global CSR block writes 65 pairwise different registers: the
  write-back accumulation control with 1, the 16 ring sizes with 257 (one entry more than
  the default ring, for the status descriptor), the 16 C2H buffer sizes with the page size
  and the 16 timer and 16 counter thresholds with 1.
\<close>

theorem hw_set_global_csr_writes:
  "\<exists>l'. snd (hw_set_global_csr (traced E) (e, l)) = l @ l'
    \<and> l' = (0x250, 1) # reg_list 0x204 (replicate 16 257) @ reg_list 0xAB0 (replicate 16 4096)
           @ reg_list 0xA00 (replicate 16 1) @ reg_list 0xA40 (replicate 16 1)
    \<and> length l' = 65 \<and> distinct (map fst l')"
  by (simp add: hw_set_global_csr_def replicate_numeral)

text \<open>
  The direction flag of the memory-mapped channel control is inverted: asked for the C2H
  channel the driver runs (and stops) the H2C one, and vice versa.
\<close>

lemma hw_mm_channel_direction:
  "hw_mm_channel_enable E ch c2h e =
     env_writel E ((if c2h then QDMA_REG_H2C_MM_CONTROL_BASE else QDMA_REG_C2H_MM_CONTROL_BASE)
                   + 0x100 * ch) 1 e
   \<and> hw_mm_channel_disable E ch c2h e =
     env_writel E ((if c2h then QDMA_REG_H2C_MM_CONTROL_BASE else QDMA_REG_C2H_MM_CONTROL_BASE)
                   + 0x100 * ch) 0 e"
  by (simp add: hw_mm_channel_enable_def hw_mm_channel_disable_def mult.commute)

section \<open>Concrete runs\<close>

lemma hw_monitor_reg_ram [simp]:
  "r reg AND msk = v \<Longrightarrow> hw_monitor_reg ram_env reg msk v us tmo r = (Inr 1, r)"
  unfolding hw_monitor_reg_def by (subst poll_loop.simps) (simp add: Let_def)

theorem ctext_prog_write_verified_witness:
  "\<exists>e' log. hw_indirect_ctext_prog (traced ram_env) 5 QDMA_CTXT_CMD_WR QDMA_CTXT_SEL_SW_H2C
       (Some [1, 2, 3]) 3 True (\<lambda>_. 0, []) = ((Inr (), Some [1, 2, 3]), (e', log))
     \<and> log = reg_list 0x814 (replicate 4 0xFFFFFFFF) @ reg_list 0x804 [1, 2, 3, 0]
         @ [(0x824, 0x2A2), (0x824, 0x2C2)]"
proof -
  let ?run = "hw_indirect_ctext_prog (traced ram_env) 5 QDMA_CTXT_CMD_WR QDMA_CTXT_SEL_SW_H2C
       (Some [1, 2, 3]) 3 True (\<lambda>_. 0, [])"
  have "fst ?run = (Inr (), Some [1, 2, 3])"
    by (simp add: hw_indirect_ctext_prog_def ctext_setup_def ctext_verify_def ind_ctxt_issue_def
        ind_ctxt_cmd_def Let_def replicate_numeral read_regs_numeral)
  then obtain e' log where run: "?run = ((Inr (), Some [1, 2, 3]), (e', log))"
    by (metis surj_pair prod.sel(1))
  show ?thesis
    using run ctext_prog_write_verified [OF run] by (auto simp: ind_ctxt_cmd_def)
qed

theorem ctext_prog_rejects_witness:
  "hw_indirect_ctext_prog ram_env 5 QDMA_CTXT_CMD_RD QDMA_CTXT_SEL_WRB (Some [0]) 5 False (\<lambda>_. 0) =
     ((Inl EINVAL, Some [0]), \<lambda>_. 0)"
  by (rule ctext_prog_rejects) simp_all

theorem ind_ctxt_cmd_decode_witness:
  "field 7 0x7FF (ind_ctxt_cmd 2047 QDMA_CTXT_CMD_WR QDMA_CTXT_SEL_COAL) = 2047"
  using ind_ctxt_cmd_decode [of 2047 QDMA_CTXT_CMD_WR QDMA_CTXT_SEL_COAL] by simp

theorem hw_set_fmap_decode_witness:
  "\<exists>w. hw_set_fmap (traced ram_env) 1 32 32 (\<lambda>_. 0, []) = ((\<lambda>_. 0)(0x404 := w), [(0x404, w)])
     \<and> field 0 0x7FF w = 32 \<and> field 11 0xFFF w = 32"
  using hw_set_fmap_decode [of 32 32 ram_env 1 "\<lambda>_. 0" "[]"] by simp

theorem hw_prog_qid2vec_fields_witness:
  "\<exists>w. hw_prog_qid2vec (traced ram_env) 3 True 5 False (\<lambda>_. 0x200, []) =
       ((\<lambda>_. 0x200)(0xa80 := 3, 0xa84 := w), [(0xa80, 3), (0xa84, w)])
     \<and> field 0 0xFF w = 5 \<and> field 9 0xFF w = 1"
  using hw_prog_qid2vec_fields [of 5 ram_env 3 "\<lambda>_. 0x200" True False "[]"]
  by (auto simp: field_def)

end
