(* ===== verification/Qdma_Types.thy ===== *)
theory Qdma_Types
  imports Qdma_Regs
begin

text \<open>
  The data model of the driver: the structures of \<open>libqdma_export.h\<close>, \<open>xdev.h\<close>,
  \<open>qdma_descq.h\<close>, \<open>qdma_device.h\<close> and \<open>qdma_intr.h\<close> as records. A pointer to a structure the
  driver owns becomes the record itself, an optional one (NULL allowed) an \<open>option\<close>; the
  kernel's doubly linked lists become lists; locks, wait queues and the PCI device are not
  represented. Memory the device writes (status write-back, completion entries, interrupt
  ring) is part of the queue or device record, so that what the device does to it can be
  stated as a step on that record.
\<close>

section \<open>Descriptors and completions (qdma_regs.h)\<close>

record qdma_mm_desc =
  mm_src_addr :: u64
  mm_flag_len :: u32
  mm_rsvd0 :: u32
  mm_dst_addr :: u64
  mm_rsvd1 :: u64

record qdma_h2c_desc =
  h2c_src_addr :: u64
  h2c_flag_len :: u32
  h2c_rsvd :: u32

record qdma_c2h_desc =
  c2h_dst_addr :: u64

definition S_DESC_F_DV :: nat where
  [simp]: "S_DESC_F_DV = 28"

definition S_DESC_F_SOP :: nat where
  [simp]: "S_DESC_F_SOP = 29"

definition S_DESC_F_EOP :: nat where
  [simp]: "S_DESC_F_EOP = 30"

definition XDMA_DESC_BLEN_BITS :: nat where
  [simp]: "XDMA_DESC_BLEN_BITS = 28"

definition XDMA_DESC_BLEN_MAX :: u32 where
  [simp]: "XDMA_DESC_BLEN_MAX = push_bit XDMA_DESC_BLEN_BITS 1 - 1"

record qdma_desc_wb =
  wb_pidx :: u16
  wb_cidx :: u16

record qdma_c2h_wrb_wb =
  wrb_wb_pidx :: u16
  wrb_wb_cidx :: u16
  wrb_wb_color_isr_status :: u32

text \<open>
  The last constructor stands for a value outside the enumeration: the size comes as a byte
  from the caller and is cast.
\<close>

datatype ctxt_desc_sz_sel =
  DESC_SZ_8B | DESC_SZ_16B | DESC_SZ_32B | DESC_SZ_RSV | DESC_SZ_OTHER u8

datatype tigger_mode =
  TRIG_MODE_DISABLE | TRIG_MODE_ANY | TRIG_MODE_TIMER | TRIG_MODE_COUNTER
  | TRIG_MODE_COMBO | TRIG_MODE_USER

primrec desc_sz_num :: "ctxt_desc_sz_sel \<Rightarrow> u32" where
  "desc_sz_num DESC_SZ_8B = 0"
| "desc_sz_num DESC_SZ_16B = 1"
| "desc_sz_num DESC_SZ_32B = 2"
| "desc_sz_num DESC_SZ_RSV = 3"
| "desc_sz_num (DESC_SZ_OTHER n) = ucast n"

primrec trig_mode_num :: "tigger_mode \<Rightarrow> u32" where
  "trig_mode_num TRIG_MODE_DISABLE = 0"
| "trig_mode_num TRIG_MODE_ANY = 1"
| "trig_mode_num TRIG_MODE_TIMER = 2"
| "trig_mode_num TRIG_MODE_COUNTER = 3"
| "trig_mode_num TRIG_MODE_COMBO = 4"
| "trig_mode_num TRIG_MODE_USER = 5"

text \<open>
  The memory of a descriptor ring, whose element type the driver chooses from the queue
  configuration (memory mapped, streaming host-to-card, streaming card-to-host).
\<close>

datatype desc_ring =
  MM_ring "qdma_mm_desc list" | H2C_ring "qdma_h2c_desc list" | C2H_ring "qdma_c2h_desc list"

text \<open>Descriptors in ring memory that has been cleared.\<close>

definition zero_mm :: qdma_mm_desc where
  "zero_mm = \<lparr>mm_src_addr = 0, mm_flag_len = 0, mm_rsvd0 = 0, mm_dst_addr = 0, mm_rsvd1 = 0\<rparr>"

definition zero_h2c :: qdma_h2c_desc where
  "zero_h2c = \<lparr>h2c_src_addr = 0, h2c_flag_len = 0, h2c_rsvd = 0\<rparr>"

definition zero_c2h :: qdma_c2h_desc where
  "zero_c2h = \<lparr>c2h_dst_addr = 0\<rparr>"

section \<open>Requests (libqdma_export.h, qdma_descq.h)\<close>

text \<open>
  A DMA-mapped scatter-gather entry, and a request together with the driver's control block
  \<open>qdma_sgt_req_cb\<close>, which lives in its opaque area. \<open>rid\<close> stands for the address of the
  request. \<open>cb_status\<close> is \<open>None\<close> for the status value 0.
\<close>

record scatterlist =
  sg_dma_address :: u64
  sg_dma_len :: u32

record qdma_sg_req =
  rid :: nat
  req_write :: bool
  req_dma_mapped :: bool
  req_ep_addr :: u64
  req_sgt :: "scatterlist list"
  req_count :: u32
  req_timeout_ms :: u32
  req_fp_done :: bool
  cb_desc_nr :: u32
  cb_offset :: u32
  cb_done :: bool
  cb_status :: "errno option"

section \<open>Queues (libqdma_export.h, qdma_descq.h)\<close>

record qdma_queue_conf =
  qc_qidx :: u16
  qc_st :: bool
  qc_c2h :: bool
  qc_st_c2h_wrb_desc_size :: u8
  qc_name :: string
  qc_rngsz :: u32

record fl_desc =
  fl_pg :: "u64 option"
  fl_dma_addr :: u64
  fl_len :: u32

record st_c2h_wrb_udd =
  udd_data :: "u8 list"
  udd_len :: u8
  udd_offset :: u8

record st_rx_data =
  rx_pg :: "u64 option"
  rx_offset :: u32
  rx_len :: u32
  rx_udd_ref :: bool

record st_rx_queue =
  rxq_dlen :: u32
  rxq_udds :: "st_c2h_wrb_udd list"
  rxq_rxs :: "st_rx_data list"

text \<open>
  The state of a list node embedded in a structure: initialised (it is its own neighbour), linked
  into a list, or deleted: \<open>list_del\<close> leaves poisoned pointers behind, and deleting such a node
  again is a fault.
\<close>

datatype list_node = LIST_INIT | LIST_LINKED | LIST_POISON

record qdma_descq =
  q_conf :: qdma_queue_conf
  q_channel :: u8
  q_enabled :: bool
  q_inited :: bool
  q_online :: bool
  q_irq_en :: u32
  q_prefetch_en :: u32
  q_wrb_stat_desc_en :: u32
  q_wrb_trig_mode :: tigger_mode
  q_wrb_timer_idx :: u32
  q_qidx_hw :: u32
  q_intr_id :: nat
  q_wrkthp :: "nat option"
  q_wbthp :: "nat option"
  q_intr_list :: list_node
  q_work_list :: "qdma_sg_req list"
  q_pend_list :: "qdma_sg_req list"
  q_avail :: u32
  q_pidx :: u32
  q_cidx :: u32
  q_credit :: u32
  q_desc :: "desc_ring option"
  q_desc_bus :: u64
  q_desc_wb :: qdma_desc_wb
  q_rx_queue :: st_rx_queue
  q_rngsz_wrb :: u32
  q_pidx_wrb :: u32
  q_cidx_wrb :: u32
  q_st_c2h_wrb_desc_size :: ctxt_desc_sz_sel
  q_st_c2h_wrb_udd_en :: bool
  q_st_c2h_wrb_entry_len :: nat
  q_st_rx_fl :: "fl_desc list option"
  q_desc_wrb_cur :: nat
  q_desc_wrb :: "u8 list list option"
  q_desc_wrb_bus :: u64
  q_desc_wrb_wb :: qdma_c2h_wrb_wb
  q_rx_handler :: bool
  q_done :: "qdma_sg_req list"

text \<open>
  \<open>q_done\<close> is no field of the C structure: it logs the requests that \<open>qdma_sgt_req_done\<close>
  has handed back, oldest first, with their final control blocks. \<open>q_rx_handler\<close> tells
  whether \<open>fp_rx_handler\<close> is installed.
\<close>

section \<open>The device (xdev.h, qdma_device.h)\<close>

text \<open>
  An entry of an interrupt ring, with the two fields the driver reads, and the ring of one
  vector. \<open>ic_intr_ring_base\<close> is the ring memory.
\<close>

record qdma_intr_ring =
  ir_qid :: "11 word"
  ir_coal_color :: bool

record intr_coal_conf =
  ic_vec_id :: u16
  ic_intr_ring_size :: u16
  ic_intr_ring_bus :: u64
  ic_intr_ring_base :: "qdma_intr_ring list"
  ic_color :: bool
  ic_pidx :: u32
  ic_cidx :: u32

text \<open>\<open>dc_pdev\<close> stands for the address of the PCI device; a BAR number below 0 is "not configured".\<close>

record qdma_dev_conf =
  dc_c2h_channel_max :: u8
  dc_h2c_channel_max :: u8
  dc_poll_mode :: bool
  dc_pftch_en :: u8
  dc_indirect_intr_mode :: bool
  dc_vf_max :: u8
  dc_qsets_max :: u32
  dc_pdev :: nat
  dc_name :: string
  dc_idx :: u8
  dc_bar_num_config :: int
  dc_bar_num_user :: int

record qdma_dev =
  qd_init_qrange :: bool
  qd_qmax :: u16
  qd_qbase :: u16
  qd_h2c_qcnt :: u16
  qd_c2h_qcnt :: u16
  qd_h2c_descq :: "qdma_descq list"
  qd_c2h_descq :: "qdma_descq list"

text \<open>One slot of the table a physical function keeps of its virtual functions (qdma_sriov.c).\<close>

record qdma_vf_info =
  vf_func_id :: u16
  vf_qbase :: u16
  vf_qmax :: u16

text \<open>
  \<open>x_m_req\<close> holds the 16 words of the last reply a requester of the mailbox waits for,
  \<open>x_m_resp\<close> those of the message being handled; \<open>x_mbox_timer\<close> tells whether the polling timer
  runs. \<open>x_msix\<close> are the interrupt numbers of the vectors, \<open>x_intr_list\<close> the queues served by each
  vector.
\<close>

record xlnx_dma_dev =
  x_conf :: qdma_dev_conf
  x_flags :: u32
  x_func_id :: u8
  x_func_id_parent :: u8
  x_vf_count :: u8
  x_vf_info :: "qdma_vf_info list option"
  x_mbox_timer :: bool
  x_m_req :: "u32 list"
  x_m_resp :: "u32 list"
  x_num_vecs :: nat
  x_msix :: "nat list"
  x_intr_list :: "(bool \<times> u16) list list"
  x_intr_list_cnt :: "nat list"
  x_dev_priv :: "qdma_dev option"
  x_intr_coal_en :: bool
  x_intr_coal_list :: "intr_coal_conf list"

definition XDEV_FLAG_OFFLINE :: u32 where
  [simp]: "XDEV_FLAG_OFFLINE = 0x1"

definition XDEV_FLAG_IRQ :: u32 where
  [simp]: "XDEV_FLAG_IRQ = 0x2"

definition XDEV_NUM_IRQ_MAX :: nat where
  [simp]: "XDEV_NUM_IRQ_MAX = 8"

definition PCI_DMA_H :: "u64 \<Rightarrow> u64" where
  "PCI_DMA_H addr = drop_bit 16 (drop_bit 16 addr)"

definition PCI_DMA_L :: "u64 \<Rightarrow> u64" where
  "PCI_DMA_L addr = addr AND 0xffffffff"

end
