(* ===== verification/Qdma_Request.thy ===== *)
theory Qdma_Request
  imports Qdma_Types
begin

text \<open>
  The transmit half of a descriptor queue (\<open>libqdma/qdma_descq.c\<close>, \<open>sgt_find_offset\<close> of
  \<open>libqdma/xdev.c\<close>): the doorbells, the translation of a scatter-gather request into
  descriptors for memory-mapped queues and streaming host-to-card queues, and the
  hand-over of finished requests. The flag \<open>vf\<close> is the build of the driver.
\<close>

section \<open>Doorbells\<close>

definition S_WRB_PIDX_UPD_EN_INT :: nat where
  [simp]: "S_WRB_PIDX_UPD_EN_INT = 16"

definition S_WRB_CIDX_UPD_EN_INT :: nat where
  [simp]: "S_WRB_CIDX_UPD_EN_INT = 28"

definition S_WRB_CIDX_UPD_EN_STAT_DESC :: nat where
  [simp]: "S_WRB_CIDX_UPD_EN_STAT_DESC = 27"

definition V_WRB_CIDX_UPD_TRIG_MODE :: "u32 \<Rightarrow> u32" where
  [simp]: "V_WRB_CIDX_UPD_TRIG_MODE x = push_bit 24 x"

definition V_WRB_CIDX_UPD_TIMER_IDX :: "u32 \<Rightarrow> u32" where
  [simp]: "V_WRB_CIDX_UPD_TIMER_IDX x = push_bit 20 x"

definition V_INTR_CIDX_UPD_SW_CIDX :: "u32 \<Rightarrow> u32" where
  [simp]: "V_INTR_CIDX_UPD_SW_CIDX x = push_bit 0 x"

definition S_INTR_CIDX_UPD_DIR_SEL :: u32 where
  [simp]: "S_INTR_CIDX_UPD_DIR_SEL = 16"

definition descq_h2c_pidx_update_raw :: "'e env \<Rightarrow> bool \<Rightarrow> qdma_descq \<Rightarrow> u32 \<Rightarrow> 'e \<Rightarrow> 'e" where
  "descq_h2c_pidx_update_raw E vf descq reg_val =
     env_writel E (QDMA_REG_H2C_PIDX_BASE vf + ucast (qc_qidx (q_conf descq)) * QDMA_REG_PIDX_STEP)
       reg_val"

definition descq_c2h_pidx_update_raw :: "'e env \<Rightarrow> bool \<Rightarrow> qdma_descq \<Rightarrow> u32 \<Rightarrow> 'e \<Rightarrow> 'e" where
  "descq_c2h_pidx_update_raw E vf descq reg_val =
     env_writel E (QDMA_REG_C2H_PIDX_BASE vf + ucast (qc_qidx (q_conf descq)) * QDMA_REG_PIDX_STEP)
       reg_val"

definition descq_pidx_update :: "'e env \<Rightarrow> bool \<Rightarrow> qdma_descq \<Rightarrow> u32 \<Rightarrow> 'e \<Rightarrow> 'e" where
  "descq_pidx_update E vf descq pidx =
     (let pidx = pidx OR push_bit S_WRB_PIDX_UPD_EN_INT (q_irq_en descq)
      in if qc_c2h (q_conf descq) then descq_c2h_pidx_update_raw E vf descq pidx
         else descq_h2c_pidx_update_raw E vf descq pidx)"

definition descq_wrb_cidx_update :: "'e env \<Rightarrow> bool \<Rightarrow> qdma_descq \<Rightarrow> u32 \<Rightarrow> 'e \<Rightarrow> 'e" where
  "descq_wrb_cidx_update E vf descq cidx =
     (let cidx = cidx OR push_bit S_WRB_CIDX_UPD_EN_INT (q_irq_en descq);
          cidx = cidx OR push_bit S_WRB_CIDX_UPD_EN_STAT_DESC (q_wrb_stat_desc_en descq);
          cidx = cidx OR V_WRB_CIDX_UPD_TRIG_MODE (trig_mode_num (q_wrb_trig_mode descq));
          cidx = cidx OR V_WRB_CIDX_UPD_TIMER_IDX (q_wrb_timer_idx descq)
      in env_writel E (QDMA_REG_WRB_CIDX_BASE vf + ucast (qc_qidx (q_conf descq)) * QDMA_REG_PIDX_STEP)
           cidx)"

definition intr_cidx_update :: "'e env \<Rightarrow> bool \<Rightarrow> qdma_descq \<Rightarrow> u32 \<Rightarrow> 'e \<Rightarrow> 'e" where
  "intr_cidx_update E vf descq sw_cidx =
     (let cidx = 0 OR V_INTR_CIDX_UPD_SW_CIDX sw_cidx;
          cidx = (if qc_c2h (q_conf descq) then cidx OR S_INTR_CIDX_UPD_DIR_SEL else cidx)
      in env_writel E (QDMA_REG_INT_CIDX_BASE vf + ucast (qc_qidx (q_conf descq)) * QDMA_REG_PIDX_STEP)
           cidx)"

section \<open>Finding an offset in a scatter-gather list\<close>

text \<open>
  \<open>sgt_find_offset\<close> returns the index of the entry to continue with and the offset the
  caller is told, or \<open>-EINVAL\<close>. The running length wraps like the C \<open>unsigned int\<close>.
\<close>

fun sgt_find_from :: "scatterlist list \<Rightarrow> nat \<Rightarrow> u32 \<Rightarrow> u32 \<Rightarrow> (nat \<times> u32) res" where
  "sgt_find_from [] i len off = Inl EINVAL"
| "sgt_find_from (sg # sgs) i len off =
     (let len = len + sg_dma_len sg in
      if len = off then Inr (i + 1, 0)
      else if len > off then Inr (i, len - off)
      else sgt_find_from sgs (i + 1) len off)"

definition sgt_find_offset :: "scatterlist list \<Rightarrow> u32 \<Rightarrow> (nat \<times> u32) res" where
  "sgt_find_offset sgt off = sgt_find_from sgt 0 0 off"

section \<open>Filling the ring\<close>

text \<open>
  The loop both request functions share. \<open>f_desc\<close> is the C pointer \<open>desc\<close> as an index into
  the ring (an access outside the ring is the fault \<open>None\<close>) and \<open>f_end\<close> is \<open>desc_end\<close>.
  \<open>put\<close> writes the descriptor of one piece over the old one, from the endpoint address, the
  bus address and the length; \<open>bell\<close> is the doorbell the streaming variant rings after each descriptor;
  \<open>blen\<close> is the largest piece, one of two non-zero constants (the test for 0 only makes
  the definition total).
\<close>

record 'd fill =
  f_ring :: "'d list"
  f_desc :: nat
  f_pidx :: u32
  f_ep :: u64
  f_data_cnt :: u32
  f_desc_cnt :: u32
  f_end :: "nat option"

definition fill_put ::
  "('d \<Rightarrow> u64 \<Rightarrow> u64 \<Rightarrow> u32 \<Rightarrow> 'd) \<Rightarrow> (u32 \<Rightarrow> 'e \<Rightarrow> 'e) \<Rightarrow> u32 \<Rightarrow> u64 \<Rightarrow> u32 \<Rightarrow> 'd fill \<times> 'e
     \<Rightarrow> ('d fill \<times> 'e) option" where
  "fill_put put bell rngsz addr len se =
     (case se of (s, e) \<Rightarrow>
        if f_desc s \<ge> length (f_ring s) then None
        else let pidx = f_pidx s + 1;
                 (pidx, desc) = (if pidx = rngsz then (0, 0) else (pidx, f_desc s + 1))
             in Some (s\<lparr>f_ring := (f_ring s)[f_desc s := put (f_ring s ! f_desc s) (f_ep s) addr len],
                       f_desc := desc, f_pidx := pidx, f_ep := f_ep s + ucast len,
                       f_data_cnt := f_data_cnt s + len, f_desc_cnt := f_desc_cnt s + 1,
                       f_end := Some (f_desc s)\<rparr>,
                      bell pidx e))"

function fill_while ::
  "('d \<Rightarrow> u64 \<Rightarrow> u64 \<Rightarrow> u32 \<Rightarrow> 'd) \<Rightarrow> (u32 \<Rightarrow> 'e \<Rightarrow> 'e) \<Rightarrow> u32 \<Rightarrow> u32 \<Rightarrow> u32 \<Rightarrow> u32 \<Rightarrow> u64
     \<Rightarrow> 'd fill \<times> 'e \<Rightarrow> ('d fill \<times> 'e) option" where
  "fill_while put bell blen rngsz desc_max tlen addr se =
     (if tlen = 0 \<or> blen = 0 then Some se
      else let len = min tlen blen in
           case fill_put put bell rngsz addr len se of
             None \<Rightarrow> None
           | Some se' \<Rightarrow>
               if f_desc_cnt (fst se') = desc_max then Some se'
               else fill_while put bell blen rngsz desc_max (tlen - len) (addr + ucast len) se')"
  by pat_completeness auto
termination
proof (relation "measure (\<lambda>(put, bell, blen, rngsz, desc_max, tlen, addr, se). unat tlen)")
  fix tlen blen len :: u32
  assume "\<not> (tlen = 0 \<or> blen = 0)" and "len = min tlen blen"
  then have "len \<le> tlen" "len \<noteq> 0"
    by (auto simp: min_def)
  then show "((put, bell, blen, rngsz, desc_max, tlen - len, addr + ucast len, se'),
      (put, bell, blen, rngsz, desc_max, tlen, addr, se))
      \<in> measure (\<lambda>(put, bell, blen, rngsz, desc_max, tlen, addr, se). unat tlen)"
    for put bell rngsz desc_max addr se se'
    by (simp add: unat_sub_le word_le_nat_alt unat_gt_0 [symmetric])
qed auto

declare fill_while.simps [simp del]

fun fill_sgs ::
  "('d \<Rightarrow> u64 \<Rightarrow> u64 \<Rightarrow> u32 \<Rightarrow> 'd) \<Rightarrow> (u32 \<Rightarrow> 'e \<Rightarrow> 'e) \<Rightarrow> u32 \<Rightarrow> u32 \<Rightarrow> u32 \<Rightarrow> u32
     \<Rightarrow> scatterlist list \<Rightarrow> 'd fill \<times> 'e \<Rightarrow> ('d fill \<times> 'e) option" where
  "fill_sgs put bell blen rngsz desc_max sg_offset [] se = Some se"
| "fill_sgs put bell blen rngsz desc_max sg_offset (sg # sgs) se =
     (if f_desc_cnt (fst se) < desc_max then
        let tlen = sg_dma_len sg;
            addr = sg_dma_address sg;
            (sg_offset, tlen, addr) =
              (if sg_offset \<noteq> 0
               then let sg_offset = 0 in (sg_offset, tlen - sg_offset, addr + ucast sg_offset)
               else (sg_offset, tlen, addr))
        in case fill_while put bell blen rngsz desc_max tlen addr se of
             None \<Rightarrow> None
           | Some se' \<Rightarrow> fill_sgs put bell blen rngsz desc_max sg_offset sgs se'
      else Some se)"


section \<open>Requests on the lists of a queue\<close>

definition list_del_req :: "nat \<Rightarrow> qdma_sg_req list \<Rightarrow> qdma_sg_req list" where
  "list_del_req r xs = filter (\<lambda>x. rid x \<noteq> r) xs"

definition update_req :: "qdma_sg_req \<Rightarrow> qdma_sg_req list \<Rightarrow> qdma_sg_req list" where
  "update_req cb xs = map (\<lambda>x. if rid x = rid cb then cb else x) xs"

definition req_submitted :: "qdma_descq \<Rightarrow> qdma_sg_req \<Rightarrow> qdma_descq" where
  "req_submitted descq cb =
     descq\<lparr>q_work_list := list_del_req (rid cb) (q_work_list descq),
           q_pend_list := q_pend_list descq @ [cb]\<rparr>"

text \<open>
  Handing a request back (\<open>error\<close> is \<open>None\<close> for 0): it leaves the list it is on and its
  control block gets the final status. A request with a completion callback that has not
  transferred its full count is failed with \<open>-EINVAL\<close>.
\<close>

definition qdma_sgt_req_done :: "qdma_descq \<Rightarrow> qdma_sg_req \<Rightarrow> errno option \<Rightarrow> qdma_descq" where
  "qdma_sgt_req_done descq cb error =
     (let error = (if req_fp_done cb \<and> cb_offset cb \<noteq> req_count cb then Some EINVAL else error);
          cb' = cb\<lparr>cb_status := error, cb_done := True\<rparr>
      in descq\<lparr>q_work_list := list_del_req (rid cb) (q_work_list descq),
               q_pend_list := list_del_req (rid cb) (q_pend_list descq),
               q_done := q_done descq @ [cb']\<rparr>)"

section \<open>Memory-mapped requests\<close>

text \<open>
  Where a request continues: at the first entry, or at the entry \<open>sgt_find_offset\<close> names when
  part of it has been programmed before.
\<close>

definition req_start :: "qdma_sg_req \<Rightarrow> (nat \<times> u32) res" where
  "req_start cb =
     (if cb_offset cb \<noteq> 0 then
        case sgt_find_offset (req_sgt cb) (cb_offset cb) of
          Inl _ \<Rightarrow> Inl EINVAL
        | Inr (rv, sg_offset) \<Rightarrow>
            if rv \<ge> length (req_sgt cb) then Inl EINVAL else Inr (rv, sg_offset)
      else Inr (0, 0))"

definition fill_init :: "'d list \<Rightarrow> u32 \<Rightarrow> u64 \<Rightarrow> 'd fill" where
  "fill_init ring pidx ep =
     \<lparr>f_ring = ring, f_desc = unat pidx, f_pidx = pidx, f_ep = ep, f_data_cnt = 0,
      f_desc_cnt = 0, f_end = None\<rparr>"

definition mm_put :: "bool \<Rightarrow> qdma_mm_desc \<Rightarrow> u64 \<Rightarrow> u64 \<Rightarrow> u32 \<Rightarrow> qdma_mm_desc" where
  "mm_put c2h d ep addr len =
     \<lparr>mm_src_addr = (if c2h then ep else addr), mm_flag_len = len OR push_bit S_DESC_F_DV 1,
      mm_rsvd0 = 0, mm_dst_addr = (if c2h then addr else ep), mm_rsvd1 = 0\<rparr>"

definition mm_set_flag :: "nat \<Rightarrow> nat \<Rightarrow> qdma_mm_desc list \<Rightarrow> qdma_mm_desc list" where
  "mm_set_flag i flag ring =
     ring[i := (ring ! i)\<lparr>mm_flag_len := mm_flag_len (ring ! i) OR push_bit flag 1\<rparr>]"

text \<open>
  The bookkeeping at the end of both request functions: ring, producer index and free count
  of the queue, descriptor count and offset of the request, and the move to the pending
  list once the request is programmed completely. Waking the write-back thread has no
  effect on the state.
\<close>

definition req_commit ::
  "qdma_descq \<Rightarrow> qdma_sg_req \<Rightarrow> desc_ring \<Rightarrow> u32 \<Rightarrow> u32 \<Rightarrow> u32 \<Rightarrow> qdma_descq" where
  "req_commit descq cb ring pidx desc_cnt data_cnt =
     (let cb' = cb\<lparr>cb_desc_nr := cb_desc_nr cb + desc_cnt,
                  cb_offset := cb_offset cb + data_cnt\<rparr>;
          descq' = descq\<lparr>q_desc := Some ring, q_pidx := pidx,
                        q_avail := q_avail descq - desc_cnt,
                        q_work_list := update_req cb' (q_work_list descq)\<rparr>
      in if cb_offset cb' = req_count cb' then req_submitted descq' cb' else descq')"

definition descq_mm_proc_request ::
  "'e env \<Rightarrow> bool \<Rightarrow> qdma_descq \<Rightarrow> qdma_sg_req \<Rightarrow> 'e \<Rightarrow> unit res \<times> qdma_descq \<times> 'e" where
  "descq_mm_proc_request E vf descq cb e =
     (let desc_max = q_avail descq in
      if desc_max = 0 then (Inr (), descq, e)
      else case req_start cb of
        Inl err \<Rightarrow> (Inl err, descq, e)
      | Inr (i, sg_offset) \<Rightarrow>
        (case q_desc descq of
           Some (MM_ring ring) \<Rightarrow>
             (case fill_sgs (mm_put (qc_c2h (q_conf descq))) (\<lambda>pidx e. e) XDMA_DESC_BLEN_MAX
                     (qc_rngsz (q_conf descq)) desc_max sg_offset (drop i (req_sgt cb))
                     (fill_init ring (q_pidx descq) (req_ep_addr cb), e) of
                None \<Rightarrow> (Inl OOPS, descq, e)
              | Some (s, e1) \<Rightarrow>
                  (case f_end s of
                     None \<Rightarrow> (Inl EIO, descq, e1)
                   | Some desc_end \<Rightarrow>
                       let ring1 = mm_set_flag desc_end S_DESC_F_EOP (f_ring s);
                           ring2 = mm_set_flag (unat (q_pidx descq)) S_DESC_F_SOP ring1;
                           descq' = req_commit descq cb (MM_ring ring2) (f_pidx s) (f_desc_cnt s) (f_data_cnt s)
                       in (Inr (), descq', descq_pidx_update E vf descq' (q_pidx descq') e1)))
         | _ \<Rightarrow> (Inl OOPS, descq, e)))"

section \<open>Streaming host-to-card requests\<close>

definition h2c_put :: "qdma_h2c_desc \<Rightarrow> u64 \<Rightarrow> u64 \<Rightarrow> u32 \<Rightarrow> qdma_h2c_desc" where
  "h2c_put d ep addr len =
     d\<lparr>h2c_src_addr := addr,
       h2c_flag_len := len OR
         (push_bit S_DESC_F_DV 1 OR push_bit S_DESC_F_SOP 1 OR push_bit S_DESC_F_EOP 1)\<rparr>"

definition descq_proc_st_h2c_request ::
  "'e env \<Rightarrow> bool \<Rightarrow> qdma_descq \<Rightarrow> qdma_sg_req \<Rightarrow> 'e \<Rightarrow> unit res \<times> qdma_descq \<times> 'e" where
  "descq_proc_st_h2c_request E vf descq cb e =
     (let desc_max = q_avail descq in
      if desc_max = 0 then (Inr (), descq, e)
      else case req_start cb of
        Inl err \<Rightarrow> (Inl err, descq, e)
      | Inr (i, sg_offset) \<Rightarrow>
        (case q_desc descq of
           Some (H2C_ring ring) \<Rightarrow>
             (case fill_sgs h2c_put (\<lambda>pidx. descq_pidx_update E vf descq pidx) PAGE_SIZE
                     (qc_rngsz (q_conf descq)) desc_max sg_offset (drop i (req_sgt cb))
                     (fill_init ring (q_pidx descq) 0, e) of
                None \<Rightarrow> (Inl OOPS, descq, e)
              | Some (s, e1) \<Rightarrow> 
                  (Inr (), req_commit descq cb (H2C_ring (f_ring s)) (f_pidx s) (f_desc_cnt s)
                     (f_data_cnt s), e1))
         | _ \<Rightarrow> (Inl OOPS, descq, e)))"

text \<open>The dispatch on the kind of queue; a streaming card-to-host queue returns -1.\<close>

definition qdma_descq_proc_sgt_request ::
  "'e env \<Rightarrow> bool \<Rightarrow> qdma_descq \<Rightarrow> qdma_sg_req \<Rightarrow> 'e \<Rightarrow> unit res \<times> qdma_descq \<times> 'e" where
  "qdma_descq_proc_sgt_request E vf descq cb e =
     (if \<not> qc_st (q_conf descq) then descq_mm_proc_request E vf descq cb e
      else if qc_st (q_conf descq) \<and> \<not> qc_c2h (q_conf descq) then
        descq_proc_st_h2c_request E vf descq cb e
      else (Inl (Other 1), descq, e))"


section \<open>The pieces of a request\<close>

text \<open>
  The reference for the nested loops: an entry is cut into pieces of at most \<open>blen\<close> bytes,
  a scatter-gather list into the pieces of its entries, in order.
\<close>

function chunks :: "u32 \<Rightarrow> u64 \<Rightarrow> u32 \<Rightarrow> (u64 \<times> u32) list" where
  "chunks blen addr tlen =
     (if tlen = 0 \<or> blen = 0 then []
      else let len = min tlen blen in (addr, len) # chunks blen (addr + ucast len) (tlen - len))"
  by pat_completeness auto
termination
proof (relation "measure (\<lambda>(blen, addr, tlen). unat tlen)")
  fix tlen blen len :: u32
  assume "\<not> (tlen = 0 \<or> blen = 0)" and "len = min tlen blen"
  then have "len \<le> tlen" "len \<noteq> 0"
    by (auto simp: min_def)
  then show "((blen, addr + ucast len, tlen - len), (blen, addr, tlen))
      \<in> measure (\<lambda>(blen, addr, tlen). unat tlen)" for addr :: u64
    by (simp add: unat_sub_le word_le_nat_alt unat_gt_0 [symmetric])
qed auto

declare chunks.simps [simp del]

definition sgs_chunks :: "u32 \<Rightarrow> scatterlist list \<Rightarrow> (u64 \<times> u32) list" where
  "sgs_chunks blen sgs = concat (map (\<lambda>sg. chunks blen (sg_dma_address sg) (sg_dma_len sg)) sgs)"

lemma sgs_chunks_simps [simp]:
  "sgs_chunks blen [] = []"
  "sgs_chunks blen (sg # sgs) = chunks blen (sg_dma_address sg) (sg_dma_len sg) @ sgs_chunks blen sgs"
  by (simp_all add: sgs_chunks_def)

primrec put_all ::
  "('d \<Rightarrow> u64 \<Rightarrow> u64 \<Rightarrow> u32 \<Rightarrow> 'd) \<Rightarrow> (u32 \<Rightarrow> 'e \<Rightarrow> 'e) \<Rightarrow> u32 \<Rightarrow> (u64 \<times> u32) list
     \<Rightarrow> 'd fill \<times> 'e \<Rightarrow> ('d fill \<times> 'e) option" where
  "put_all put bell rngsz [] se = Some se"
| "put_all put bell rngsz (c # cs) se =
     (case fill_put put bell rngsz (fst c) (snd c) se of
        None \<Rightarrow> None | Some se' \<Rightarrow> put_all put bell rngsz cs se')"

lemma put_all_append:
  "put_all put bell rngsz (cs @ ds) se =
     (case put_all put bell rngsz cs se of
        None \<Rightarrow> None | Some se' \<Rightarrow> put_all put bell rngsz ds se')"
  by (induction cs arbitrary: se) (simp_all split: option.split)

lemma fill_put_desc_cnt:
  "fill_put put bell rngsz addr len se = Some se' \<Longrightarrow>
     f_desc_cnt (fst se') = f_desc_cnt (fst se) + 1"
  by (auto simp: fill_put_def Let_def split: prod.splits if_splits)

lemma put_all_desc_cnt:
  "put_all put bell rngsz cs se = Some se' \<Longrightarrow>
     f_desc_cnt (fst se') = f_desc_cnt (fst se) + of_nat (length cs)"
  by (induction cs arbitrary: se)
    (auto split: option.splits dest!: fill_put_desc_cnt simp: algebra_simps)

lemma unat_diff_Suc: "a < b \<Longrightarrow> unat (b - a) = Suc (unat (b - (a + 1)))" for a b :: u32
  by (simp add: unat_sub_le unat_plus_one word_le_nat_alt word_less_nat_alt less_imp_le)

lemma word_Suc_le: "a < b \<Longrightarrow> a + 1 \<le> b" for a b :: u32
  by (simp add: unat_plus_one word_le_nat_alt word_less_nat_alt)

lemma fill_while_chunks:
  "f_desc_cnt (fst se) < desc_max \<Longrightarrow>
     fill_while put bell blen rngsz desc_max tlen addr se =
     put_all put bell rngsz
       (take (unat (desc_max - f_desc_cnt (fst se))) (chunks blen addr tlen)) se"
proof (induction put bell blen rngsz desc_max tlen addr se rule: fill_while.induct)
  case (1 put bell blen rngsz desc_max tlen addr se)
  show ?case
  proof (cases "tlen = 0 \<or> blen = 0")
    case True
    then show ?thesis
      by (simp add: fill_while.simps chunks.simps)
  next
    case False
    let ?len = "min tlen blen"
    let ?put = "fill_put put bell rngsz addr ?len se"
    have n: "unat (desc_max - f_desc_cnt (fst se)) = Suc (unat (desc_max - (f_desc_cnt (fst se) + 1)))"
      using "1.prems" by (rule unat_diff_Suc)
    have IH: "fill_while put bell blen rngsz desc_max (tlen - ?len) (addr + ucast ?len) se' =
        put_all put bell rngsz (take (unat (desc_max - (f_desc_cnt (fst se) + 1)))
          (chunks blen (addr + ucast ?len) (tlen - ?len))) se'"
      if "?put = Some se'" "f_desc_cnt (fst se') \<noteq> desc_max" for se'
    proof -
      have "f_desc_cnt (fst se') < desc_max"
        using that fill_put_desc_cnt [OF that(1)] word_Suc_le [OF "1.prems"] by simp
      then show ?thesis
        using "1.IH" [OF False refl that] fill_put_desc_cnt [OF that(1)] by simp
    qed
    have stop: "unat (desc_max - (f_desc_cnt (fst se) + 1)) = 0"
      if "?put = Some se'" "f_desc_cnt (fst se') = desc_max" for se'
      using that fill_put_desc_cnt [OF that(1)] by simp
    show ?thesis
      using False IH stop
      by (subst fill_while.simps, subst chunks.simps)
        (auto simp: Let_def n split: option.split)
  qed
qed

lemma fill_sgs_chunks:
  "f_desc_cnt (fst se) \<le> desc_max \<Longrightarrow>
     fill_sgs put bell blen rngsz desc_max sg_offset sgs se =
     put_all put bell rngsz
       (take (unat (desc_max - f_desc_cnt (fst se))) (sgs_chunks blen sgs)) se"
proof (induction sgs arbitrary: sg_offset se)
  case (Cons sg sgs)
  show ?case
  proof (cases "f_desc_cnt (fst se) < desc_max")
    case False
    then show ?thesis
      using Cons.prems by simp
  next
    case True
    let ?c = "chunks blen (sg_dma_address sg) (sg_dma_len sg)"
    let ?n = "unat (desc_max - f_desc_cnt (fst se))"
    have run: "fill_while put bell blen rngsz desc_max (sg_dma_len sg) (sg_dma_address sg) se =
        put_all put bell rngsz (take ?n ?c) se"
      using True by (rule fill_while_chunks)
    have rest: "fill_sgs put bell blen rngsz desc_max 0 sgs se' =
        put_all put bell rngsz (take (?n - length ?c) (sgs_chunks blen sgs)) se'"
      if se': "put_all put bell rngsz (take ?n ?c) se = Some se'" for se'
    proof -
      let ?k = "min ?n (length ?c)"
      have cnt: "f_desc_cnt (fst se') = f_desc_cnt (fst se) + of_nat ?k"
        using put_all_desc_cnt [OF se'] by (simp add: min.commute)
      have "unat (f_desc_cnt (fst se)) + ?k < 2 ^ LENGTH(32)"
        using True unat_sub_le [of "f_desc_cnt (fst se)" desc_max] unat_lt_u32 [of desc_max]
        by (simp add: word_less_nat_alt word_le_nat_alt)
      then have "unat (f_desc_cnt (fst se')) = unat (f_desc_cnt (fst se)) + ?k"
        unfolding cnt by (simp add: unat_word_ariths unat_of_nat)
      then have le: "f_desc_cnt (fst se') \<le> desc_max"
        and diff: "unat (desc_max - f_desc_cnt (fst se')) = ?n - ?k"
        using True by (auto simp: word_le_nat_alt word_less_nat_alt unat_sub_le)
      have "take (?n - ?k) xs = take (?n - length ?c) xs" for xs :: "(u64 \<times> u32) list"
        by (simp add: min_def)
      then show ?thesis
        using Cons.IH [OF le] diff by simp
    qed
    show ?thesis
      using True run rest
      by (auto simp: put_all_append Let_def split: option.split)
  qed
qed simp


section \<open>What the loops leave in the ring\<close>

text \<open>
  \<open>ring_write n p ep cs\<close> writes the pieces \<open>cs\<close> to consecutive slots from \<open>p\<close> on, modulo the ring
  size \<open>n\<close>, with an endpoint address that advances with the data.
\<close>

primrec ring_write ::
  "('d \<Rightarrow> u64 \<Rightarrow> u64 \<Rightarrow> u32 \<Rightarrow> 'd) \<Rightarrow> nat \<Rightarrow> nat \<Rightarrow> u64 \<Rightarrow> (u64 \<times> u32) list \<Rightarrow> 'd list \<Rightarrow> 'd list" where
  "ring_write put n p ep [] ring = ring"
| "ring_write put n p ep (c # cs) ring =
     ring_write put n (Suc p mod n) (ep + ucast (snd c)) cs
       (ring[p := put (ring ! p) ep (fst c) (snd c)])"

definition chunks_len :: "(u64 \<times> u32) list \<Rightarrow> u32" where
  "chunks_len cs = sum_list (map snd cs)"

definition chunks_ep :: "u64 \<Rightarrow> (u64 \<times> u32) list \<Rightarrow> u64" where
  "chunks_ep ep cs = ep + sum_list (map (\<lambda>c. ucast (snd c)) cs)"

lemma chunks_len_simps [simp]:
  "chunks_len [] = 0" "chunks_len (c # cs) = snd c + chunks_len cs"
  by (simp_all add: chunks_len_def)

lemma chunks_ep_simps [simp]:
  "chunks_ep ep [] = ep" "chunks_ep ep (c # cs) = chunks_ep (ep + ucast (snd c)) cs"
  by (simp_all add: chunks_ep_def algebra_simps)

lemma length_ring_write [simp]: "length (ring_write put n p ep cs ring) = length ring"
  by (induction cs arbitrary: p ep ring) simp_all

lemma ring_write_other:
  "i < n \<Longrightarrow> p < n \<Longrightarrow> (\<forall>j<length cs. i \<noteq> (p + j) mod n) \<Longrightarrow>
     ring_write put n p ep cs ring ! i = ring ! i"
proof (induction cs arbitrary: p ep ring)
  case (Cons c cs)
  have "i \<noteq> p"
    using Cons.prems by (auto dest: spec [of _ 0])
  moreover have "\<forall>j<length cs. i \<noteq> (Suc p mod n + j) mod n"
    using Cons.prems(3) by (auto simp: mod_simps dest: spec [of _ "Suc _"])
  ultimately show ?case
    using Cons.IH [of "Suc p mod n"] Cons.prems by simp
qed simp

lemma mod_add_inj: "j < n \<Longrightarrow> k < n \<Longrightarrow> (p + j) mod n = (p + k) mod n \<Longrightarrow> j = k" for j k n p :: nat
proof (induction j k rule: linorder_wlog)
  case (le j k)
  then have "n dvd (p + k) - (p + j)"
    using mod_eq_dvd_iff_nat [of "p + j" "p + k" n] by simp
  then have "n dvd k - j"
    by simp
  with le show ?case
    by (metis diff_is_0_eq dvd_imp_le le_antisym less_imp_diff_less not_less zero_less_diff)
qed simp

lemma ring_write_nth:
  "j < length cs \<Longrightarrow> length cs \<le> n \<Longrightarrow> p < n \<Longrightarrow> n = length ring \<Longrightarrow>
     ring_write put n p ep cs ring ! ((p + j) mod n) =
       put (ring ! ((p + j) mod n)) (chunks_ep ep (take j cs)) (fst (cs ! j)) (snd (cs ! j))"
proof (induction cs arbitrary: p ep ring j)
  case (Cons c cs)
  show ?case
  proof (cases j)
    case 0
    have slot: "Suc p mod n < n"
      using Cons.prems by (intro mod_less_divisor) auto
    have "\<forall>k<length cs. p \<noteq> (Suc p mod n + k) mod n"
    proof (intro allI impI)
      fix k assume "k < length cs"
      then have "Suc k < n"
        using Cons.prems by simp
      then have "(p + Suc k) mod n \<noteq> (p + 0) mod n"
        using mod_add_inj [of "Suc k" n 0 p] by (cases n) auto
      then show "p \<noteq> (Suc p mod n + k) mod n"
        using Cons.prems by (simp add: mod_simps)
    qed
    then show ?thesis
      using 0 Cons.prems slot
        ring_write_other [of p n "Suc p mod n" cs put "ep + ucast (snd c)"
          "ring[p := put (ring ! p) ep (fst c) (snd c)]"] by simp
  next
    case (Suc i)
    have idx: "(Suc p mod n + i) mod n = (p + j) mod n"
      by (simp add: Suc mod_simps)
    have "0 < n"
      using Cons.prems(3) by linarith
    then have slot: "Suc p mod n < n" and "p \<noteq> (p + j) mod n"
      using mod_add_inj [of j n 0 p] Cons.prems Suc by auto
    then show ?thesis
      using Cons.IH [of i "Suc p mod n" "ring[p := put (ring ! p) ep (fst c) (snd c)]" "ep + ucast (snd c)"]
        Cons.prems Suc idx slot by simp
  qed
qed simp


definition ring_bells :: "nat \<Rightarrow> nat \<Rightarrow> nat \<Rightarrow> u32 list" where
  "ring_bells n p k = map (\<lambda>j. of_nat ((p + Suc j) mod n)) [0..<k]"

lemma ring_bells_simps:
  "ring_bells n p 0 = []"
  "ring_bells n p (Suc k) = of_nat (Suc p mod n) # ring_bells n (Suc p mod n) k"
proof -
  have "(p + Suc (Suc j)) mod n = (Suc p mod n + Suc j) mod n" for j
    by (metis add_Suc add_Suc_right mod_add_left_eq)
  then show "ring_bells n p (Suc k) = of_nat (Suc p mod n) # ring_bells n (Suc p mod n) k"
    by (simp only: ring_bells_def upt_conv_Cons map_Suc_upt [symmetric] list.map map_map o_def
        zero_less_Suc) simp
qed (simp add: ring_bells_def)

definition filled ::
  "('d \<Rightarrow> u64 \<Rightarrow> u64 \<Rightarrow> u32 \<Rightarrow> 'd) \<Rightarrow> (u64 \<times> u32) list \<Rightarrow> 'd fill \<Rightarrow> 'd fill" where
  "filled put cs s =
     (let n = length (f_ring s); k = length cs in
      \<lparr>f_ring = ring_write put n (f_desc s) (f_ep s) cs (f_ring s),
       f_desc = (f_desc s + k) mod n, f_pidx = of_nat ((f_desc s + k) mod n),
       f_ep = chunks_ep (f_ep s) cs, f_data_cnt = f_data_cnt s + chunks_len cs,
       f_desc_cnt = f_desc_cnt s + of_nat k,
       f_end = (if cs = [] then f_end s else Some ((f_desc s + (k - 1)) mod n))\<rparr>)"

lemma fill_put_filled:
  fixes s :: "'d fill"
  assumes "f_desc s = unat (f_pidx s)" and "f_pidx s < rngsz" and "length (f_ring s) = unat rngsz"
  shows "fill_put put bell rngsz addr len (s, e) =
    Some (filled put [(addr, len)] s, bell (of_nat (Suc (f_desc s) mod unat rngsz)) e)"
proof -
  have less: "unat (f_pidx s) < unat rngsz"
    using assms(2) by (simp add: word_less_nat_alt)
  have suc: "unat (f_pidx s + 1) = Suc (unat (f_pidx s))"
    using assms(2) by (simp add: unat_plus_one)
  show ?thesis
  proof (cases "f_pidx s + 1 = rngsz")
    case True
    then have "Suc (unat (f_pidx s)) = unat rngsz"
      using suc by simp
    then show ?thesis
      using True less assms by (simp add: fill_put_def filled_def Let_def)
  next
    case False
    then have "Suc (unat (f_pidx s)) < unat rngsz"
      using suc less by (metis Suc_lessI word_unat_eq_iff)
    moreover have "of_nat (Suc (unat (f_pidx s))) = f_pidx s + 1"
      by (simp add: add.commute)
    ultimately show ?thesis
      using False less assms by (simp add: fill_put_def filled_def Let_def add.commute)
  qed
qed

lemma filled_wf:
  assumes "0 < rngsz" and "length (f_ring s) = unat rngsz"
  shows "f_desc (filled put cs s) = unat (f_pidx (filled put cs s))"
    and "f_pidx (filled put cs s) < rngsz"
    and "length (f_ring (filled put cs s)) = unat rngsz"
proof -
  have n: "(f_desc s + length cs) mod unat rngsz < unat rngsz"
    using assms by (simp add: word_less_nat_alt)
  then have "unat (of_nat ((f_desc s + length cs) mod unat rngsz) :: u32) =
      (f_desc s + length cs) mod unat rngsz"
    using unat_lt_u32 [of rngsz] by (simp add: unat_of_nat)
  then show "f_desc (filled put cs s) = unat (f_pidx (filled put cs s))"
    and "f_pidx (filled put cs s) < rngsz"
    and "length (f_ring (filled put cs s)) = unat rngsz"
    using n assms by (simp_all add: filled_def Let_def word_less_nat_alt)
qed

lemma filled_Cons:
  assumes "0 < length (f_ring s)"
  shows "filled put cs (filled put [c] s) = filled put (c # cs) s"
proof -
  have "(Suc (f_desc s) mod n + (length cs - 1)) mod n = (f_desc s + length cs) mod n"
    if "cs \<noteq> []" for n
    using that by (cases cs) (simp_all add: mod_simps)
  then show ?thesis
    using assms by (simp add: filled_def Let_def add.commute mod_simps add.assoc add.left_commute)
qed

lemma put_all_filled:
  assumes "f_desc s = unat (f_pidx s)" and "f_pidx s < rngsz" and "length (f_ring s) = unat rngsz"
  shows "put_all put bell rngsz cs (s, e) =
    Some (filled put cs s, fold bell (ring_bells (unat rngsz) (f_desc s) (length cs)) e)"
  using assms
proof (induction cs arbitrary: s e)
  case Nil
  then show ?case
    by (simp add: filled_def Let_def ring_bells_simps word_less_nat_alt)
next
  case (Cons c cs)
  have pos: "0 < rngsz"
    using Cons.prems(2) by (auto simp: word_less_nat_alt)
  let ?s = "filled put [c] s"
  have "fill_put put bell rngsz (fst c) (snd c) (s, e) =
      Some (?s, bell (of_nat (Suc (f_desc s) mod unat rngsz)) e)"
    using fill_put_filled [OF Cons.prems, of put bell "fst c" "snd c" e] by simp
  moreover have "f_desc ?s = Suc (f_desc s) mod unat rngsz"
    by (simp add: filled_def Let_def Cons.prems(3))
  moreover have "filled put cs ?s = filled put (c # cs) s"
    using Cons.prems(3) pos by (intro filled_Cons) (simp add: word_less_nat_alt)
  ultimately show ?case
    using Cons.IH [OF filled_wf [OF pos Cons.prems(3)]] by (simp add: ring_bells_simps)
qed


section \<open>The ring invariant\<close>

text \<open>
  The ring invariant of a transmit queue: both indices lie in the ring, and the free count
  is what the distance from consumer to producer leaves of \<open>rngsz - 1\<close> usable slots (one
  slot stays empty, so that a full ring is not mistaken for an empty one).
  \<open>ring_mem_ok\<close> says that the ring memory matches the configuration.
\<close>

definition outstanding :: "qdma_descq \<Rightarrow> nat" where
  "outstanding descq =
     (unat (q_pidx descq) + unat (qc_rngsz (q_conf descq)) - unat (q_cidx descq))
       mod unat (qc_rngsz (q_conf descq))"

definition ring_ok :: "qdma_descq \<Rightarrow> bool" where
  "ring_ok descq \<longleftrightarrow>
     q_pidx descq < qc_rngsz (q_conf descq) \<and> q_cidx descq < qc_rngsz (q_conf descq)
     \<and> unat (q_avail descq) + outstanding descq + 1 = unat (qc_rngsz (q_conf descq))"

definition ring_mem_ok :: "qdma_descq \<Rightarrow> bool" where
  "ring_mem_ok descq \<longleftrightarrow>
     (case q_desc descq of
        Some (MM_ring r) \<Rightarrow> \<not> qc_st (q_conf descq) \<and> length r = unat (qc_rngsz (q_conf descq))
      | Some (H2C_ring r) \<Rightarrow> qc_st (q_conf descq) \<and> \<not> qc_c2h (q_conf descq)
          \<and> length r = unat (qc_rngsz (q_conf descq))
      | _ \<Rightarrow> False)"

lemma ring_ok_less:
  "ring_ok descq \<Longrightarrow> unat (q_pidx descq) < unat (qc_rngsz (q_conf descq))
     \<and> unat (q_avail descq) < unat (qc_rngsz (q_conf descq))"
  by (auto simp: ring_ok_def word_less_nat_alt)

text \<open>The pieces of a request that one call programs.\<close>

definition req_pieces :: "u32 \<Rightarrow> qdma_descq \<Rightarrow> qdma_sg_req \<Rightarrow> nat \<Rightarrow> (u64 \<times> u32) list" where
  "req_pieces blen descq cb i = take (unat (q_avail descq)) (sgs_chunks blen (drop i (req_sgt cb)))"

lemma length_req_pieces: "length (req_pieces blen descq cb i) \<le> unat (q_avail descq)"
  by (simp add: req_pieces_def)

lemma fill_request:
  assumes "q_pidx descq < qc_rngsz (q_conf descq)" and "length ring = unat (qc_rngsz (q_conf descq))"
  shows "fill_sgs put bell blen (qc_rngsz (q_conf descq)) (q_avail descq) sg_offset
      (drop i (req_sgt cb)) (fill_init ring (q_pidx descq) ep, e) =
    Some (filled put (req_pieces blen descq cb i) (fill_init ring (q_pidx descq) ep),
      fold bell (ring_bells (unat (qc_rngsz (q_conf descq))) (unat (q_pidx descq))
        (length (req_pieces blen descq cb i))) e)"
proof -
  let ?s = "fill_init ring (q_pidx descq) ep"
  have "fill_sgs put bell blen (qc_rngsz (q_conf descq)) (q_avail descq) sg_offset
      (drop i (req_sgt cb)) (?s, e) =
      put_all put bell (qc_rngsz (q_conf descq)) (req_pieces blen descq cb i) (?s, e)"
    by (subst fill_sgs_chunks) (simp_all add: fill_init_def req_pieces_def)
  also have "\<dots> = Some (filled put (req_pieces blen descq cb i) ?s,
      fold bell (ring_bells (unat (qc_rngsz (q_conf descq))) (f_desc ?s)
        (length (req_pieces blen descq cb i))) e)"
    using assms by (intro put_all_filled) (simp_all add: fill_init_def)
  finally show ?thesis
    by (simp add: fill_init_def)
qed

lemma fold_no_bell: "fold (\<lambda>pidx e. e) xs e = e"
  by (induction xs) simp_all

lemma mm_request_run:
  assumes "ring_ok descq" and "q_desc descq = Some (MM_ring ring)"
    and "length ring = unat (qc_rngsz (q_conf descq))"
    and "q_avail descq \<noteq> 0" and "req_start cb = Inr (i, sg_offset)"
  defines "cs \<equiv> req_pieces XDMA_DESC_BLEN_MAX descq cb i"
  defines "s \<equiv> filled (mm_put (qc_c2h (q_conf descq))) cs
    (fill_init ring (q_pidx descq) (req_ep_addr cb))"
  defines "ring' \<equiv> mm_set_flag (unat (q_pidx descq)) S_DESC_F_SOP
    (mm_set_flag ((unat (q_pidx descq) + (length cs - 1)) mod length ring) S_DESC_F_EOP (f_ring s))"
  defines "descq' \<equiv> req_commit descq cb (MM_ring ring') (f_pidx s) (f_desc_cnt s) (f_data_cnt s)"
  shows "descq_mm_proc_request E vf descq cb e =
    (if cs = [] then (Inl EIO, descq, e)
     else (Inr (), descq', descq_pidx_update E vf descq' (q_pidx descq') e))"
proof -
  have "q_pidx descq < qc_rngsz (q_conf descq)"
    using assms(1) by (simp add: ring_ok_def)
  then have fill: "fill_sgs (mm_put (qc_c2h (q_conf descq))) (\<lambda>pidx e. e) XDMA_DESC_BLEN_MAX
      (qc_rngsz (q_conf descq)) (q_avail descq) sg_offset (drop i (req_sgt cb))
      (fill_init ring (q_pidx descq) (req_ep_addr cb), e) = Some (s, e)"
    using assms(3) unfolding s_def cs_def by (subst fill_request) (simp_all add: fold_no_bell)
  have "f_end s = (if cs = [] then None
      else Some ((unat (q_pidx descq) + (length cs - 1)) mod length ring))"
    by (simp add: s_def filled_def Let_def fill_init_def)
  then show ?thesis
    using fill assms(2,4,5)
    by (simp add: descq_mm_proc_request_def Let_def ring'_def descq'_def del: XDMA_DESC_BLEN_MAX_def)
qed


section \<open>Descriptors of a memory-mapped request\<close>

text \<open>
  The descriptor of one piece: bus and endpoint address on the side the direction asks for,
  the length with the valid flag, start and end of packet where asked.
\<close>

definition mm_desc_of :: "bool \<Rightarrow> u64 \<Rightarrow> u64 \<times> u32 \<Rightarrow> bool \<Rightarrow> bool \<Rightarrow> qdma_mm_desc" where
  "mm_desc_of c2h ep c sop eop =
     \<lparr>mm_src_addr = (if c2h then ep else fst c),
      mm_flag_len = snd c OR push_bit 28 1 OR (if eop then push_bit 30 1 else 0)
                    OR (if sop then push_bit 29 1 else 0),
      mm_rsvd0 = 0, mm_dst_addr = (if c2h then fst c else ep), mm_rsvd1 = 0\<rparr>"

lemma mm_set_flag_nth:
  "i < length ring \<Longrightarrow> mm_set_flag k flag ring ! i =
     (if i = k then (ring ! i)\<lparr>mm_flag_len := mm_flag_len (ring ! i) OR push_bit flag 1\<rparr> else ring ! i)"
  by (auto simp: mm_set_flag_def nth_list_update)

lemma length_mm_set_flag [simp]: "length (mm_set_flag k flag ring) = length ring"
  by (simp add: mm_set_flag_def)

lemma q_desc_req_commit [simp]: "q_desc (req_commit descq cb ring p k d) = Some ring"
  by (simp add: req_commit_def Let_def req_submitted_def)

lemma slot_first: "p < n \<Longrightarrow> j < n \<Longrightarrow> (p + j) mod n = p \<longleftrightarrow> j = 0" for p j n :: nat
  using mod_add_inj [of j n 0 p] by auto

lemma slot_eq: "j < n \<Longrightarrow> k < n \<Longrightarrow> (p + j) mod n = (p + k) mod n \<longleftrightarrow> j = k" for p j k n :: nat
  using mod_add_inj [of j n k p] by auto

lemma mm_flag_or:
  "x OR a OR b OR c = ((x OR a) OR b) OR c" for x a b c :: u32
  by (simp add: or.assoc)

lemma mm_request_slots:
  assumes "ring_ok descq" and "q_desc descq = Some (MM_ring ring)"
    and "length ring = unat (qc_rngsz (q_conf descq))"
    and "req_start cb = Inr (i, sg_offset)"
    and "cs = req_pieces XDMA_DESC_BLEN_MAX descq cb i" and "cs \<noteq> []"
  shows "\<exists>descq' e' ring'. descq_mm_proc_request E vf descq cb e = (Inr (), descq', e')
    \<and> q_desc descq' = Some (MM_ring ring') \<and> length ring' = length ring
    \<and> (\<forall>j<length cs. ring' ! ((unat (q_pidx descq) + j) mod length ring) =
          mm_desc_of (qc_c2h (q_conf descq)) (chunks_ep (req_ep_addr cb) (take j cs)) (cs ! j)
            (j = 0) (j = length cs - 1))
    \<and> (\<forall>k<length ring. (\<forall>j<length cs. k \<noteq> (unat (q_pidx descq) + j) mod length ring) \<longrightarrow>
          ring' ! k = ring ! k)"
proof -
  let ?p = "unat (q_pidx descq)" and ?n = "length ring"
  let ?put = "mm_put (qc_c2h (q_conf descq))"
  let ?r = "ring_write ?put ?n ?p (req_ep_addr cb) cs ring"
  define ring' where "ring' = mm_set_flag ?p S_DESC_F_SOP
    (mm_set_flag ((?p + (length cs - 1)) mod ?n) S_DESC_F_EOP ?r)"
  have "q_avail descq \<noteq> 0"
    using assms(5,6) by (auto simp: req_pieces_def)
  note run = mm_request_run [OF assms(1-3) this assms(4), of E vf e, folded assms(5)]
  have ring: "f_ring (filled ?put cs (fill_init ring (q_pidx descq) (req_ep_addr cb))) = ?r"
    by (simp add: filled_def Let_def fill_init_def)
  have k: "length cs < ?n"
    using ring_ok_less [OF assms(1)] length_req_pieces [of XDMA_DESC_BLEN_MAX descq cb i]
      assms(3,5) by simp
  have p: "?p < ?n"
    using ring_ok_less [OF assms(1)] assms(3) by simp
  have slots: "ring' ! ((?p + j) mod ?n) = mm_desc_of (qc_c2h (q_conf descq))
      (chunks_ep (req_ep_addr cb) (take j cs)) (cs ! j) (j = 0) (j = length cs - 1)"
    if j: "j < length cs" for j
  proof -
    define m where "m = (?p + j) mod ?n"
    have jk: "j < ?n" "length cs - 1 < ?n" "0 < ?n"
      using j k by auto
    have m: "m < ?n" "m = ?p \<longleftrightarrow> j = 0" "m = (?p + (length cs - 1)) mod ?n \<longleftrightarrow> j = length cs - 1"
      using jk p slot_first [of ?p ?n j] slot_eq [of j ?n "length cs - 1" ?p] by (auto simp: m_def)
    have r: "?r ! m = ?put (ring ! m) (chunks_ep (req_ep_addr cb) (take j cs)) (fst (cs ! j)) (snd (cs ! j))"
      unfolding m_def using j k p by (intro ring_write_nth) auto
    have "ring' ! m = (let d = ?r ! m;
        d1 = (if j = length cs - 1 then d\<lparr>mm_flag_len := mm_flag_len d OR push_bit 30 1\<rparr> else d)
        in if j = 0 then d1\<lparr>mm_flag_len := mm_flag_len d1 OR push_bit 29 1\<rparr> else d1)"
      using m by (simp only: ring'_def mm_set_flag_nth length_mm_set_flag length_ring_write Let_def
          S_DESC_F_SOP_def S_DESC_F_EOP_def if_True if_False split: if_split)
    then show ?thesis
      unfolding r by (simp add: m_def [symmetric] mm_put_def mm_desc_of_def or.assoc)
  qed
  have others: "ring' ! m = ring ! m"
    if "m < ?n" "\<forall>j<length cs. m \<noteq> (?p + j) mod ?n" for m
  proof -
    have "m \<noteq> ?p" "m \<noteq> (?p + (length cs - 1)) mod ?n"
      using that assms(6) p by (auto dest: spec [of _ 0] spec [of _ "length cs - 1"])
    then show ?thesis
      using that p by (simp add: ring'_def mm_set_flag_nth ring_write_other)
  qed
  have "length ring' = ?n"
    by (simp add: ring'_def)
  then show ?thesis
    using run assms(6) slots others unfolding ring ring'_def [symmetric] by simp
qed

text \<open>
  C18: A memory-mapped request is cut into pieces of at most \<open>2 ^ 28 - 1\<close> bytes; as many of
  them as the ring has free slots are written, in order, to the slots from the producer index
  on, modulo the ring size. Each descriptor carries the bus address of its piece and the
  endpoint address, advanced by the data before it, as source and destination according to
  the direction, and the piece's length with the valid flag; the first one is marked start of
  packet, the last one end of packet. All other slots keep their contents, and no access
  leaves the ring.
\<close>

theorem mm_request_descriptors:
  assumes "ring_ok descq" and "q_desc descq = Some (MM_ring ring)"
    and "length ring = unat (qc_rngsz (q_conf descq))"
    and "req_start cb = Inr (i, sg_offset)"
    and "cs = req_pieces XDMA_DESC_BLEN_MAX descq cb i" and "cs \<noteq> []"
  shows "\<exists>descq' e' ring'. descq_mm_proc_request E vf descq cb e = (Inr (), descq', e')
    \<and> q_desc descq' = Some (MM_ring ring') \<and> length ring' = length ring
    \<and> (\<forall>j<length cs. ring' ! ((unat (q_pidx descq) + j) mod length ring) =
          mm_desc_of (qc_c2h (q_conf descq)) (chunks_ep (req_ep_addr cb) (take j cs)) (cs ! j)
            (j = 0) (j = length cs - 1))
    \<and> (\<forall>k<length ring. (\<forall>j<length cs. k \<noteq> (unat (q_pidx descq) + j) mod length ring) \<longrightarrow>
          ring' ! k = ring ! k)"
  using assms by (rule mm_request_slots)

section \<open>Accounting\<close>

text \<open>
  \<open>owed\<close> is the number of descriptors recorded with the unfinished requests of a queue, as
  the machine word the driver's counters are. \<open>credit_ok\<close> is the accounting invariant: the
  descriptors in flight, plus the credit received but not yet handed to a request, are those
  of the unfinished requests. \<open>reqs_ok\<close> says that every request is on the lists once.
\<close>

definition owed :: "qdma_descq \<Rightarrow> u32" where
  "owed descq = sum_list (map cb_desc_nr (q_work_list descq @ q_pend_list descq))"

definition credit_ok :: "qdma_descq \<Rightarrow> bool" where
  "credit_ok descq \<longleftrightarrow> of_nat (outstanding descq) + q_credit descq = owed descq"

definition reqs_ok :: "qdma_descq \<Rightarrow> bool" where
  "reqs_ok descq \<longleftrightarrow> distinct (map rid (q_work_list descq @ q_pend_list descq))"

definition tx_ok :: "qdma_descq \<Rightarrow> bool" where
  "tx_ok descq \<longleftrightarrow> ring_ok descq \<and> ring_mem_ok descq \<and> credit_ok descq \<and> reqs_ok descq"

lemma list_del_req_notin: "r \<notin> rid ` set xs \<Longrightarrow> list_del_req r xs = xs"
  by (auto simp: list_del_req_def filter_id_conv)

lemma update_req_notin: "rid cb \<notin> rid ` set xs \<Longrightarrow> update_req cb xs = xs"
  by (induction xs) (auto simp: update_req_def)

lemma sum_list_del_req:
  "distinct (map rid xs) \<Longrightarrow> cb \<in> set xs \<Longrightarrow>
     sum_list (map cb_desc_nr (list_del_req (rid cb) xs)) = sum_list (map cb_desc_nr xs) - cb_desc_nr cb"
proof (induction xs)
  case (Cons x xs)
  show ?case
  proof (cases "x = cb")
    case True
    then show ?thesis
      using Cons.prems list_del_req_notin [of "rid cb" xs] by (auto simp: list_del_req_def)
  next
    case False
    then have "cb \<in> set xs" "rid x \<noteq> rid cb"
      using Cons.prems by auto
    then show ?thesis
      using Cons by (simp add: list_del_req_def)
  qed
qed simp

lemma sum_update_req:
  "distinct (map rid xs) \<Longrightarrow> cb \<in> set xs \<Longrightarrow> rid cb' = rid cb \<Longrightarrow>
     sum_list (map cb_desc_nr (update_req cb' xs)) =
       sum_list (map cb_desc_nr xs) - cb_desc_nr cb + cb_desc_nr cb'"
proof (induction xs)
  case (Cons x xs)
  show ?case
  proof (cases "x = cb")
    case True
    then show ?thesis
      using Cons.prems update_req_notin [of cb' xs] by (auto simp: update_req_def)
  next
    case False
    then have "cb \<in> set xs" "rid x \<noteq> rid cb"
      using Cons.prems by auto
    then show ?thesis
      using Cons by (simp add: update_req_def)
  qed
qed simp

lemma rids_list_del_req: "rid ` set (list_del_req r xs) = rid ` set xs - {r}"
  by (auto simp: list_del_req_def)

lemma distinct_list_del_req: "distinct (map rid xs) \<Longrightarrow> distinct (map rid (list_del_req r xs))"
  by (simp add: list_del_req_def distinct_map_filter)

lemma map_rid_update_req [simp]: "map rid (update_req cb xs) = map rid xs"
  by (simp add: update_req_def)

lemma rids_update_req [simp]: "rid ` set (update_req cb xs) = rid ` set xs"
  by (metis map_rid_update_req set_map)

lemma list_del_update_req [simp]: "rid cb = r \<Longrightarrow> list_del_req r (update_req cb xs) = list_del_req r xs"
  by (induction xs) (auto simp: list_del_req_def update_req_def)

lemma outstanding_advance:
  "c < n \<Longrightarrow> (p + n - c) mod n + k < n \<Longrightarrow>
     ((p + k) mod n + n - c) mod n = (p + n - c) mod n + k" for c n p k :: nat
proof -
  assume c: "c < n" and k: "(p + n - c) mod n + k < n"
  have "((p + k) mod n + n - c) mod n = ((p + k) mod n + (n - c)) mod n"
    using c by simp
  also have "\<dots> = ((p + (n - c)) mod n + k) mod n"
    by (simp add: mod_simps add.commute add.left_commute)
  also have "\<dots> = (p + n - c) mod n + k"
    using c k by simp
  finally show ?thesis .
qed

lemma req_commit_accounting:
  fixes cs :: "(u64 \<times> u32) list" and cb :: qdma_sg_req and ring :: desc_ring and data_cnt :: u32
  assumes "tx_ok descq" and "cb \<in> set (q_work_list descq)"
    and "length cs \<le> unat (q_avail descq)"
  defines "pidx \<equiv> of_nat ((unat (q_pidx descq) + length cs) mod unat (qc_rngsz (q_conf descq)))"
  defines "descq' \<equiv> req_commit descq cb ring pidx (of_nat (length cs)) data_cnt"
  shows "ring_ok descq'" and "credit_ok descq'" and "reqs_ok descq'"
    and "outstanding descq' = outstanding descq + length cs"
proof -
  let ?n = "unat (qc_rngsz (q_conf descq))" and ?k = "length cs"
  have ok: "ring_ok descq" "credit_ok descq" "reqs_ok descq"
    using assms(1) by (simp_all add: tx_ok_def)
  have n: "unat (q_pidx descq) < ?n" "unat (q_cidx descq) < ?n"
    "unat (q_avail descq) + outstanding descq + 1 = ?n"
    using ok(1) by (simp_all add: ring_ok_def word_less_nat_alt)
  have same: "q_conf descq' = q_conf descq" "q_cidx descq' = q_cidx descq"
    "q_credit descq' = q_credit descq" "q_pidx descq' = pidx"
    "q_avail descq' = q_avail descq - of_nat ?k"
    by (simp_all add: descq'_def req_commit_def Let_def req_submitted_def)
  have slot: "(unat (q_pidx descq) + ?k) mod ?n < ?n"
    using n by (intro mod_less_divisor) simp
  then have pidx: "unat pidx = (unat (q_pidx descq) + ?k) mod ?n"
    using unat_lt_u32 [of "qc_rngsz (q_conf descq)"] by (simp add: pidx_def unat_of_nat)
  show out: "outstanding descq' = outstanding descq + ?k"
    unfolding outstanding_def same pidx using n assms(3)
    by (intro outstanding_advance) (simp_all add: outstanding_def)
  have "unat (of_nat ?k :: u32) = ?k"
    using assms(3) unat_lt_u32 [of "q_avail descq"] by (simp add: unat_of_nat)
  then have "unat (q_avail descq') = unat (q_avail descq) - ?k"
    using assms(3) by (simp add: same unat_sub_le word_le_nat_alt)
  then show "ring_ok descq'"
    using n slot out pidx assms(3) by (simp add: ring_ok_def word_less_nat_alt same)
  have work: "distinct (map rid (q_work_list descq))" "rid cb \<notin> rid ` set (q_pend_list descq)"
    using ok(3) assms(2) by (auto simp: reqs_ok_def)
  have "owed descq' = owed descq + of_nat ?k"
    using work assms(2)
    by (auto simp: owed_def descq'_def req_commit_def Let_def req_submitted_def
        sum_update_req [OF work(1) assms(2)] sum_list_del_req [OF work(1) assms(2)])
  then show "credit_ok descq'"
    using ok(2) out by (simp add: credit_ok_def same)
  show "reqs_ok descq'"
    using ok(3) work
    by (auto simp: reqs_ok_def descq'_def req_commit_def Let_def req_submitted_def
        rids_list_del_req distinct_list_del_req)
qed


section \<open>Streaming host-to-card requests and the invariant\<close>

lemma h2c_request_run:
  assumes "ring_ok descq" and "q_desc descq = Some (H2C_ring ring)"
    and "length ring = unat (qc_rngsz (q_conf descq))"
    and "q_avail descq \<noteq> 0" and "req_start cb = Inr (i, sg_offset)"
  defines "cs \<equiv> req_pieces PAGE_SIZE descq cb i"
  defines "s \<equiv> filled h2c_put cs (fill_init ring (q_pidx descq) 0)"
  shows "descq_proc_st_h2c_request E vf descq cb e =
    (Inr (), req_commit descq cb (H2C_ring (f_ring s)) (f_pidx s) (f_desc_cnt s) (f_data_cnt s),
     fold (descq_pidx_update E vf descq)
       (ring_bells (length ring) (unat (q_pidx descq)) (length cs)) e)"
proof -
  have "q_pidx descq < qc_rngsz (q_conf descq)"
    using assms(1) by (simp add: ring_ok_def)
  then have "fill_sgs h2c_put (\<lambda>pidx. descq_pidx_update E vf descq pidx) PAGE_SIZE
      (qc_rngsz (q_conf descq)) (q_avail descq) sg_offset (drop i (req_sgt cb))
      (fill_init ring (q_pidx descq) 0, e) = Some (s, fold (descq_pidx_update E vf descq)
       (ring_bells (length ring) (unat (q_pidx descq)) (length cs)) e)"
    using assms(3) unfolding s_def cs_def by (subst fill_request) simp_all
  then show ?thesis
    using assms(2,4,5) by (simp add: descq_proc_st_h2c_request_def Let_def del: PAGE_SIZE_def)
qed

lemma filled_init_simps:
  "f_desc_cnt (filled put cs (fill_init ring pidx ep)) = of_nat (length cs)"
  "f_data_cnt (filled put cs (fill_init ring pidx ep)) = chunks_len cs"
  "f_pidx (filled put cs (fill_init ring pidx ep)) = of_nat ((unat pidx + length cs) mod length ring)"
  "length (f_ring (filled put cs (fill_init ring pidx ep))) = length ring"
  by (simp_all add: filled_def Let_def fill_init_def)

lemma q_conf_req_commit [simp]: "q_conf (req_commit descq cb ring p k d) = q_conf descq"
  by (simp add: req_commit_def Let_def req_submitted_def)

lemma tx_ok_commit:
  fixes cs :: "(u64 \<times> u32) list"
  assumes "tx_ok descq" and "cb \<in> set (q_work_list descq)"
    and "length cs \<le> unat (q_avail descq)" and "n = unat (qc_rngsz (q_conf descq))"
    and "r = MM_ring mm \<and> \<not> qc_st (q_conf descq) \<and> length mm = n
      \<or> r = H2C_ring hc \<and> qc_st (q_conf descq) \<and> \<not> qc_c2h (q_conf descq) \<and> length hc = n"
  shows "tx_ok (req_commit descq cb r (of_nat ((unat (q_pidx descq) + length cs) mod n))
    (of_nat (length cs)) data_cnt)"
  using req_commit_accounting [OF assms(1-3)] assms(4,5) by (auto simp: tx_ok_def ring_mem_ok_def)

lemma proc_request_tx:
  assumes "tx_ok descq" and "cb \<in> set (q_work_list descq)"
    and "qdma_descq_proc_sgt_request E vf descq cb e = (rv, descq', e')"
  shows "tx_ok descq' \<and> rv \<noteq> Inl OOPS"
proof -
  have rk: "ring_ok descq" and mem: "ring_mem_ok descq"
    using assms(1) by (simp_all add: tx_ok_def)
  have start: "req_start cb \<noteq> Inl OOPS"
    by (auto simp: req_start_def split: sum.splits)
  consider (mm) ring where "q_desc descq = Some (MM_ring ring)" "\<not> qc_st (q_conf descq)"
      "length ring = unat (qc_rngsz (q_conf descq))"
    | (h2c) ring where "q_desc descq = Some (H2C_ring ring)" "qc_st (q_conf descq)"
      "\<not> qc_c2h (q_conf descq)" "length ring = unat (qc_rngsz (q_conf descq))"
    using mem by (auto simp: ring_mem_ok_def split: option.splits desc_ring.splits)
  then show ?thesis
  proof cases
    case mm
    show ?thesis
    proof (cases "q_avail descq = 0 \<or> (\<exists>err. req_start cb = Inl err)")
      case True
      then show ?thesis
        using mm assms(1,3) start
        by (auto simp: qdma_descq_proc_sgt_request_def descq_mm_proc_request_def Let_def split: if_splits)
    next
      case False
      then obtain i sg_offset where st: "req_start cb = Inr (i, sg_offset)"
        by (cases "req_start cb") auto
      let ?cs = "req_pieces XDMA_DESC_BLEN_MAX descq cb i"
      have "tx_ok (req_commit descq cb (MM_ring mm)
          (of_nat ((unat (q_pidx descq) + length ?cs) mod length ring)) (of_nat (length ?cs)) data_cnt)"
        if "length mm = length ring" for mm data_cnt
        using that mm(2) by (intro tx_ok_commit [OF assms(1,2) length_req_pieces mm(3)]) auto
      then show ?thesis
        using assms(1,3) mm False mm_request_run [OF rk mm(1,3) _ st, of E vf e]
        by (auto simp: qdma_descq_proc_sgt_request_def filled_init_simps split: if_splits
            simp del: XDMA_DESC_BLEN_MAX_def)
    qed
  next
    case h2c
    show ?thesis
    proof (cases "q_avail descq = 0 \<or> (\<exists>err. req_start cb = Inl err)")
      case True
      then show ?thesis
        using h2c assms(1,3) start
        by (auto simp: qdma_descq_proc_sgt_request_def descq_proc_st_h2c_request_def Let_def split: if_splits)
    next
      case False
      then obtain i sg_offset where st: "req_start cb = Inr (i, sg_offset)"
        by (cases "req_start cb") auto
      let ?cs = "req_pieces PAGE_SIZE descq cb i"
      have "tx_ok (req_commit descq cb (H2C_ring hc)
          (of_nat ((unat (q_pidx descq) + length ?cs) mod length ring)) (of_nat (length ?cs)) data_cnt)"
        if "length hc = length ring" for hc data_cnt
        using that h2c(2,3) by (intro tx_ok_commit [OF assms(1,2) length_req_pieces h2c(4)]) auto
      then show ?thesis
        using assms(1,3) h2c False h2c_request_run [OF rk h2c(1,4) _ st, of E vf e]
        by (auto simp: qdma_descq_proc_sgt_request_def filled_init_simps simp del: PAGE_SIZE_def)
    qed
  qed
qed

text \<open>
  Processing a queued request keeps the transmit queue consistent, whatever the request and
  on every path, error paths included: indices stay in the ring, free and outstanding slots
  add up, the outstanding descriptors stay accounted to the unfinished requests, and no ring
  access is out of range.
\<close>

theorem proc_request_tx_ok:
  assumes "tx_ok descq" and "cb \<in> set (q_work_list descq)"
    and "qdma_descq_proc_sgt_request E vf descq cb e = (rv, descq', e')"
  shows "tx_ok descq' \<and> rv \<noteq> Inl OOPS"
  using assms by (rule proc_request_tx)

end
