(* ===== verification/Qdma_Samples.thy ===== *)
theory Qdma_Samples
  imports Qdma_Types
begin

text \<open>
  Concrete queues, requests and devices, used where a theorem is applied to a concrete run.
  No theorem assumes anything about them.
\<close>

definition sample_conf :: "bool \<Rightarrow> bool \<Rightarrow> qdma_queue_conf" where
  "sample_conf st c2h =
     \<lparr>qc_qidx = 0, qc_st = st, qc_c2h = c2h, qc_st_c2h_wrb_desc_size = 0, qc_name = [],
      qc_rngsz = 4\<rparr>"

text \<open>A request of two entries, 4096 bytes and 512 bytes, of which \<open>off\<close> are programmed.\<close>

definition sample_req :: "u32 \<Rightarrow> qdma_sg_req" where
  "sample_req off =
     \<lparr>rid = 1, req_write = True, req_dma_mapped = True, req_ep_addr = 0x8000,
      req_sgt = [\<lparr>sg_dma_address = 0x10000, sg_dma_len = 4096\<rparr>,
                 \<lparr>sg_dma_address = 0x20000, sg_dma_len = 512\<rparr>],
      req_count = 4608, req_timeout_ms = 0, req_fp_done = False, cb_desc_nr = 0,
      cb_offset = off, cb_done = False, cb_status = None\<rparr>"

text \<open>A queue with a ring of four slots, empty, with both indices at slot 3.\<close>

definition sample_queue :: "qdma_queue_conf \<Rightarrow> desc_ring option \<Rightarrow> qdma_descq" where
  "sample_queue conf ring =
     \<lparr>q_conf = conf, q_channel = 0, q_enabled = True, q_inited = True, q_online = True,
      q_irq_en = 0, q_prefetch_en = 0, q_wrb_stat_desc_en = 1, q_wrb_trig_mode = TRIG_MODE_ANY,
      q_wrb_timer_idx = 0, q_qidx_hw = 0, q_intr_id = 0, q_wrkthp = Some 0, q_wbthp = Some 0, q_intr_list = LIST_INIT,
      q_work_list = [sample_req 0], q_pend_list = [], q_avail = 3, q_pidx = 3, q_cidx = 3,
      q_credit = 0, q_desc = ring, q_desc_bus = 0x100000,
      q_desc_wb = \<lparr>wb_pidx = 0, wb_cidx = 3\<rparr>,
      q_rx_queue = \<lparr>rxq_dlen = 0, rxq_udds = [], rxq_rxs = []\<rparr>, q_rngsz_wrb = 4,
      q_pidx_wrb = 0, q_cidx_wrb = 0, q_st_c2h_wrb_desc_size = DESC_SZ_RSV,
      q_st_c2h_wrb_udd_en = False, q_st_c2h_wrb_entry_len = 8, q_st_rx_fl = None,
      q_desc_wrb_cur = 0, q_desc_wrb = None, q_desc_wrb_bus = 0,
      q_desc_wrb_wb = \<lparr>wrb_wb_pidx = 0, wrb_wb_cidx = 0, wrb_wb_color_isr_status = 0\<rparr>,
      q_rx_handler = False, q_done = []\<rparr>"

definition sample_mm :: qdma_descq where
  "sample_mm = sample_queue (sample_conf False False) (Some (MM_ring (replicate 4 zero_mm)))"

definition sample_h2c :: qdma_descq where
  "sample_h2c = sample_queue (sample_conf True False) (Some (H2C_ring (replicate 4 zero_h2c)))"

text \<open>A device in poll mode, without interrupt vectors.\<close>

definition sample_xdev :: xlnx_dma_dev where
  "sample_xdev =
     \<lparr>x_conf = \<lparr>dc_c2h_channel_max = 1, dc_h2c_channel_max = 1, dc_poll_mode = True, dc_pftch_en = 0, dc_indirect_intr_mode = False,
                dc_vf_max = 0, dc_qsets_max = 32, dc_pdev = 1, dc_name = [], dc_idx = 0,
                dc_bar_num_config = 0, dc_bar_num_user = 1\<rparr>,
      x_flags = 0, x_func_id = 0, x_func_id_parent = 0, x_vf_count = 0, x_vf_info = None,
      x_mbox_timer = False, x_m_req = replicate 16 0, x_m_resp = replicate 16 0,
      x_num_vecs = 0, x_msix = [],
      x_intr_list = replicate 8 [], x_intr_list_cnt = replicate 8 0, x_dev_priv = None,
      x_intr_coal_en = False, x_intr_coal_list = []\<rparr>"

lemmas sample_simps =
  sample_mm_def sample_h2c_def sample_queue_def sample_conf_def sample_req_def

end
