(* ===== verification/Qdma_Submit.thy ===== *)
theory Qdma_Submit
  imports Qdma_Request Qdma_Samples
begin

text \<open>
  What the request functions of \<open>Qdma_Request\<close> achieve for a whole request: the pieces cover
  exactly the data, a request that fits the ring is programmed by one call and moves to the
  pending list, and what happens when a request has to be continued by a later call.
\<close>

section \<open>The pieces cover the data\<close>

lemma chunks_cover:
  "blen \<noteq> 0 \<Longrightarrow> chunks_len (chunks blen addr tlen) = tlen
     \<and> (\<forall>c\<in>set (chunks blen addr tlen). 0 < snd c \<and> snd c \<le> blen)"
proof (induction blen addr tlen rule: chunks.induct)
  case (1 blen addr tlen)
  show ?case
  proof (cases "tlen = 0")
    case True
    then show ?thesis
      by (simp add: chunks.simps)
  next
    case False
    then have pos: "0 < min tlen blen"
      using "1.prems" by (simp add: word_neq_0_conv)
    have "chunks blen addr tlen =
        (addr, min tlen blen) # chunks blen (addr + ucast (min tlen blen)) (tlen - min tlen blen)"
      using False "1.prems" by (subst chunks.simps) (simp add: Let_def)
    then show ?thesis
      using "1.IH" [OF _ refl] False "1.prems" pos by simp
  qed
qed

lemma chunks_head:
  "blen \<noteq> 0 \<Longrightarrow> tlen \<noteq> 0 \<Longrightarrow>
     \<exists>cs. chunks blen addr tlen = (addr, min tlen blen) # cs"
  by (subst chunks.simps) (simp add: Let_def)

lemma chunks_len_append [simp]: "chunks_len (cs @ ds) = chunks_len cs + chunks_len ds"
  by (simp add: chunks_len_def)

lemma sgs_chunks_len:
  "blen \<noteq> 0 \<Longrightarrow> chunks_len (sgs_chunks blen sgs) = sum_list (map sg_dma_len sgs)"
  by (induction sgs) (simp_all add: chunks_cover)

section \<open>Requests that fit\<close>

text \<open>The largest piece of a queue and its request function, by kind of queue.\<close>

definition queue_blen :: "qdma_descq \<Rightarrow> u32" where
  "queue_blen descq = (if qc_st (q_conf descq) then PAGE_SIZE else XDMA_DESC_BLEN_MAX)"

lemma proc_request_run:
  assumes "tx_ok descq" and "req_start cb = Inr (i, sg_offset)"
    and "cs = req_pieces (queue_blen descq) descq cb i" and "cs \<noteq> []"
  shows "\<exists>ring e'. qdma_descq_proc_sgt_request E vf descq cb e =
    (Inr (), req_commit descq cb ring
       (of_nat ((unat (q_pidx descq) + length cs) mod unat (qc_rngsz (q_conf descq))))
       (of_nat (length cs)) (chunks_len cs), e')"
proof -
  have rk: "ring_ok descq" and mem: "ring_mem_ok descq"
    using assms(1) by (simp_all add: tx_ok_def)
  have av: "q_avail descq \<noteq> 0"
    using assms(3,4) by (auto simp: req_pieces_def)
  consider (mm) ring where "q_desc descq = Some (MM_ring ring)" "\<not> qc_st (q_conf descq)"
      "length ring = unat (qc_rngsz (q_conf descq))"
    | (h2c) ring where "q_desc descq = Some (H2C_ring ring)" "qc_st (q_conf descq)"
      "\<not> qc_c2h (q_conf descq)" "length ring = unat (qc_rngsz (q_conf descq))"
    using mem by (auto simp: ring_mem_ok_def split: option.splits desc_ring.splits)
  then show ?thesis
  proof cases
    case mm
    have cs: "req_pieces XDMA_DESC_BLEN_MAX descq cb i = cs"
      using mm assms(3) by (simp add: queue_blen_def)
    show ?thesis
      using mm_request_run [OF rk mm(1,3) av assms(2), of E vf e, unfolded cs] assms(4) mm
      by (auto simp: qdma_descq_proc_sgt_request_def filled_init_simps)
  next
    case h2c
    have cs: "req_pieces PAGE_SIZE descq cb i = cs"
      using h2c assms(3) by (simp add: queue_blen_def)
    show ?thesis
      using h2c_request_run [OF rk h2c(1,4) av assms(2), of E vf e, unfolded cs] h2c
      by (auto simp: qdma_descq_proc_sgt_request_def filled_init_simps)
  qed
qed

text \<open>
  A fresh request whose pieces fit the free slots of the ring is programmed by one call: it
  leaves the work list for the end of the pending list, with its offset at its byte count and
  its descriptor count at the number of pieces; the producer index moves on by that number
  modulo the ring size, and the free count drops by it.
\<close>

lemma request_submitted:
  assumes "tx_ok descq" and "cb_offset cb = 0"
    and "cs = sgs_chunks (queue_blen descq) (req_sgt cb)" and "cs \<noteq> []"
    and "length cs \<le> unat (q_avail descq)"
    and "req_count cb = sum_list (map sg_dma_len (req_sgt cb))"
  shows "\<exists>descq' e'. qdma_descq_proc_sgt_request E vf descq cb e = (Inr (), descq', e')
    \<and> q_work_list descq' = list_del_req (rid cb) (q_work_list descq)
    \<and> q_pend_list descq' = q_pend_list descq @
        [cb\<lparr>cb_desc_nr := cb_desc_nr cb + of_nat (length cs), cb_offset := req_count cb\<rparr>]
    \<and> q_pidx descq' = of_nat ((unat (q_pidx descq) + length cs) mod unat (qc_rngsz (q_conf descq)))
    \<and> q_avail descq' = q_avail descq - of_nat (length cs)"
proof -
  have start: "req_start cb = Inr (0, 0)"
    by (simp add: req_start_def assms(2))
  have cs: "cs = req_pieces (queue_blen descq) descq cb 0"
    using assms(3,5) by (simp add: req_pieces_def)
  have "chunks_len cs = req_count cb"
    by (simp add: assms(3,6) sgs_chunks_len queue_blen_def)
  moreover obtain ring e' where
    run: "qdma_descq_proc_sgt_request E vf descq cb e =
      (Inr (), req_commit descq cb ring
         (of_nat ((unat (q_pidx descq) + length cs) mod unat (qc_rngsz (q_conf descq))))
         (of_nat (length cs)) (chunks_len cs), e')"
    using proc_request_run [OF assms(1) start cs assms(4), of E vf e] by blast
  ultimately show ?thesis
    unfolding run using assms(2) by (simp add: req_commit_def Let_def req_submitted_def)
qed

section \<open>Continuing a request\<close>

lemma sgt_find_from_spec:
  "sgt_find_from sgs k len off = Inr (i, r) \<Longrightarrow> len < off \<Longrightarrow>
   unat len + sum_list (map (unat \<circ> sg_dma_len) sgs) < 2 ^ 32 \<Longrightarrow>
   \<exists>m. i = k + m \<and> m \<le> length sgs \<and>
    (if r = 0 then unat len + sum_list (map (unat \<circ> sg_dma_len) (take m sgs)) = unat off
     else m < length sgs
       \<and> unat len + sum_list (map (unat \<circ> sg_dma_len) (take m sgs)) < unat off
       \<and> unat off < unat len + sum_list (map (unat \<circ> sg_dma_len) (take (Suc m) sgs))
       \<and> unat r = unat len + sum_list (map (unat \<circ> sg_dma_len) (take (Suc m) sgs)) - unat off)"
proof (induction sgs k len off rule: sgt_find_from.induct)
  case (2 sg sgs k len off)
  let ?l = "len + sg_dma_len sg"
  have l: "unat ?l = unat len + unat (sg_dma_len sg)"
    using "2.prems"(3) by (intro unat_add_small) simp
  consider "?l = off" | "off < ?l" | "?l < off"
    by (metis linorder_neqE)
  then show ?case
  proof cases
    case 1
    then have "i = k + 1" "r = 0"
      using "2.prems"(1) by auto
    then show ?thesis
      using 1 l by (intro exI [of _ 1]) auto
  next
    case 2
    then have "i = k" "r = ?l - off"
      using "2.prems"(1) by (auto simp: Let_def split: if_splits)
    moreover have "unat (?l - off) = unat ?l - unat off"
      using 2 by (intro unat_sub_le) simp
    moreover have "?l - off \<noteq> 0"
      using 2 by auto
    ultimately show ?thesis
      using 2 l "2.prems"(2) by (intro exI [of _ 0]) (auto simp: word_less_nat_alt)
  next
    case 3
    then have ne: "?l \<noteq> off" "\<not> off < ?l"
      by auto
    then have rec: "sgt_find_from sgs (k + 1) ?l off = Inr (i, r)"
      using "2.prems"(1) by (auto simp: Let_def split: if_splits)
    have "unat ?l + sum_list (map (unat \<circ> sg_dma_len) sgs) < 2 ^ 32"
      using l "2.prems"(3) by (simp add: o_def)
    then obtain m where "i = k + 1 + m" "m \<le> length sgs"
      "if r = 0 then unat ?l + sum_list (map (unat \<circ> sg_dma_len) (take m sgs)) = unat off
       else m < length sgs
       \<and> unat ?l + sum_list (map (unat \<circ> sg_dma_len) (take m sgs)) < unat off
       \<and> unat off < unat ?l + sum_list (map (unat \<circ> sg_dma_len) (take (Suc m) sgs))
       \<and> unat r = unat ?l + sum_list (map (unat \<circ> sg_dma_len) (take (Suc m) sgs)) - unat off"
      using "2.IH" [OF refl ne rec 3] by blast
    then show ?thesis
      using l by (intro exI [of _ "Suc m"]) (auto simp: add.assoc)
  qed
qed simp

text \<open>
  \<open>sgt_find_offset\<close> finds the entry that contains the given offset (for lists whose total
  length does not wrap): either the offset is exactly the sum of the entries before it and the
  value reported is 0, or the offset lies strictly inside the entry and the value reported is
  the number of bytes of the entry that remain from the offset on.
\<close>

lemma sgt_find_offset_spec:
  assumes "sgt_find_offset sgt off = Inr (i, r)" and "off \<noteq> 0"
    and "sum_list (map (unat \<circ> sg_dma_len) sgt) < 2 ^ 32"
  shows "i \<le> length sgt \<and>
    (if r = 0 then sum_list (map (unat \<circ> sg_dma_len) (take i sgt)) = unat off
     else i < length sgt
       \<and> sum_list (map (unat \<circ> sg_dma_len) (take i sgt)) < unat off
       \<and> unat off < sum_list (map (unat \<circ> sg_dma_len) (take (Suc i) sgt))
       \<and> unat r = sum_list (map (unat \<circ> sg_dma_len) (take (Suc i) sgt)) - unat off)"
proof -
  have "0 < off"
    using assms(2) by (simp add: word_neq_0_conv)
  then show ?thesis
    using sgt_find_from_spec [of sgt 0 0 off i r] assms(1,3) by (auto simp: sgt_find_offset_def)
qed

text \<open>
  C39: A memory-mapped request that is continued by a later call restarts the entry it stopped
  in from its first byte and at the endpoint address of the whole request: the first
  descriptor of the continuation carries the bus address of the entry and the original
  endpoint address, however much of the request was programmed before.
\<close>

theorem mm_resume_restarts:
  assumes "ring_ok descq" and "q_desc descq = Some (MM_ring ring)"
    and "length ring = unat (qc_rngsz (q_conf descq))" and "q_avail descq \<noteq> 0"
    and "cb_offset cb \<noteq> 0" and "sgt_find_offset (req_sgt cb) (cb_offset cb) = Inr (i, r)"
    and "i < length (req_sgt cb)" and "sg_dma_len (req_sgt cb ! i) \<noteq> 0"
  shows "\<exists>descq' e' ring'. descq_mm_proc_request E vf descq cb e = (Inr (), descq', e')
    \<and> q_desc descq' = Some (MM_ring ring')
    \<and> mm_src_addr (ring' ! unat (q_pidx descq)) =
        (if qc_c2h (q_conf descq) then req_ep_addr cb else sg_dma_address (req_sgt cb ! i))
    \<and> mm_dst_addr (ring' ! unat (q_pidx descq)) =
        (if qc_c2h (q_conf descq) then sg_dma_address (req_sgt cb ! i) else req_ep_addr cb)"
proof -
  let ?cs = "req_pieces XDMA_DESC_BLEN_MAX descq cb i"
  have start: "req_start cb = Inr (i, r)"
    using assms(5-7) by (simp add: req_start_def)
  obtain cs where "chunks XDMA_DESC_BLEN_MAX (sg_dma_address (req_sgt cb ! i))
      (sg_dma_len (req_sgt cb ! i)) =
      (sg_dma_address (req_sgt cb ! i), min (sg_dma_len (req_sgt cb ! i)) XDMA_DESC_BLEN_MAX) # cs"
    using chunks_head [of XDMA_DESC_BLEN_MAX "sg_dma_len (req_sgt cb ! i)"] assms(8) by fastforce
  moreover have "drop i (req_sgt cb) = req_sgt cb ! i # drop (Suc i) (req_sgt cb)"
    using assms(7) by (rule Cons_nth_drop_Suc [symmetric])
  ultimately have cs: "?cs \<noteq> []" "fst (?cs ! 0) = sg_dma_address (req_sgt cb ! i)"
    using assms(4) by (auto simp: req_pieces_def take_Cons unat_eq_zero split: nat.split
        simp del: XDMA_DESC_BLEN_MAX_def)
  moreover have "(unat (q_pidx descq) + 0) mod length ring = unat (q_pidx descq)"
    using ring_ok_less [OF assms(1)] assms(3) by simp
  ultimately show ?thesis
    using mm_request_slots [OF assms(1-3) start refl cs(1), of E vf e]
    by (fastforce simp: mm_desc_of_def dest: spec [of _ 0])
qed


section \<open>Concrete runs\<close>

lemmas chunks_eval = chunks.simps [of "numeral _" _ "numeral _"] chunks.simps [of _ _ 0]

lemma sample_mm_ok: "tx_ok sample_mm"
  by (simp add: tx_ok_def ring_ok_def ring_mem_ok_def credit_ok_def reqs_ok_def owed_def
      outstanding_def sample_simps)

lemma sample_mm_pieces:
  "req_pieces XDMA_DESC_BLEN_MAX sample_mm (sample_req 0) 0 = [(0x10000, 4096), (0x20000, 512)]"
  by (simp add: req_pieces_def sample_simps chunks_eval min_def)

theorem mm_request_descriptors_witness:
  "\<exists>descq' e' ring'.
     descq_mm_proc_request ram_env False sample_mm (sample_req 0) (\<lambda>_. 0) = (Inr (), descq', e')
     \<and> q_desc descq' = Some (MM_ring ring')
     \<and> ring' ! 3 = mm_desc_of False 0x8000 (0x10000, 4096) True False
     \<and> ring' ! 0 = mm_desc_of False 0x9000 (0x20000, 512) False True"
proof -
  have "ring_ok sample_mm" and mem: "q_desc sample_mm = Some (MM_ring (replicate 4 zero_mm))"
    "length (replicate 4 zero_mm) = unat (qc_rngsz (q_conf sample_mm))"
    "req_start (sample_req 0) = Inr (0, 0)"
    using sample_mm_ok by (simp_all add: tx_ok_def sample_simps req_start_def)
  from mm_request_descriptors [OF this sample_mm_pieces [symmetric], of ram_env False "\<lambda>_. 0"]
  obtain descq' e' ring' where
    run: "descq_mm_proc_request ram_env False sample_mm (sample_req 0) (\<lambda>_. 0) = (Inr (), descq', e')"
      "q_desc descq' = Some (MM_ring ring')" and
    slots: "\<And>j. j < 2 \<Longrightarrow> ring' ! ((unat (q_pidx sample_mm) + j) mod 4) =
      mm_desc_of (qc_c2h (q_conf sample_mm))
        (chunks_ep (req_ep_addr (sample_req 0)) (take j [(0x10000, 4096), (0x20000, 512)]))
        ([(0x10000, 4096), (0x20000, 512)] ! j) (j = 0) (j = 1)"
    by auto
  have "ring' ! 3 = mm_desc_of False 0x8000 (0x10000, 4096) True False"
    "ring' ! 0 = mm_desc_of False 0x9000 (0x20000, 512) False True"
    using slots [of 0] slots [of 1] by (simp_all add: sample_simps)
  then show ?thesis
    using run by blast
qed

theorem proc_request_tx_ok_witness:
  "tx_ok (fst (snd (qdma_descq_proc_sgt_request ram_env False sample_mm (sample_req 0) (\<lambda>_. 0))))"
proof -
  have mem: "sample_req 0 \<in> set (q_work_list sample_mm)"
    by (simp add: sample_mm_def sample_queue_def)
  obtain rv descq' e' where
    "qdma_descq_proc_sgt_request ram_env False sample_mm (sample_req 0) (\<lambda>_. 0) = (rv, descq', e')"
    by (metis surj_pair)
  from proc_request_tx_ok [OF sample_mm_ok mem this] this show ?thesis
    by simp
qed

lemma request_submitted_witness:
  "\<exists>descq' e'. qdma_descq_proc_sgt_request ram_env False sample_mm (sample_req 0) (\<lambda>_. 0) =
       (Inr (), descq', e')
     \<and> q_work_list descq' = [] \<and> map cb_offset (q_pend_list descq') = [4608]
     \<and> q_pidx descq' = 1 \<and> q_avail descq' = 1"
proof -
  have cs: "sgs_chunks (queue_blen sample_mm) (req_sgt (sample_req 0)) = [(0x10000, 4096), (0x20000, 512)]"
    by (simp add: queue_blen_def sample_simps chunks_eval min_def)
  show ?thesis
    using request_submitted [OF sample_mm_ok _ cs [symmetric], of ram_env False "\<lambda>_. 0"]
    by (auto simp: sample_simps list_del_req_def)
qed

lemma sgt_find_offset_spec_witness:
  "sgt_find_offset (req_sgt (sample_req 0)) 1000 = Inr (0, 3096)
   \<and> sum_list (map (unat \<circ> sg_dma_len) (take 0 (req_sgt (sample_req 0)))) < unat (1000 :: u32)"
proof -
  have "sgt_find_offset (req_sgt (sample_req 0)) 1000 = Inr (0, 3096)"
    by (simp add: sgt_find_offset_def sample_req_def Let_def)
  then show ?thesis
    using sgt_find_offset_spec [of "req_sgt (sample_req 0)" 1000 0 3096] by (simp add: sample_req_def)
qed

theorem mm_resume_restarts_witness:
  "\<exists>descq' e' ring'.
     descq_mm_proc_request ram_env False sample_mm (sample_req 4096) (\<lambda>_. 0) = (Inr (), descq', e')
     \<and> q_desc descq' = Some (MM_ring ring') \<and> mm_dst_addr (ring' ! 3) = 0x8000"
  using mm_resume_restarts [of sample_mm "replicate 4 zero_mm" "sample_req 4096" 1 0 ram_env False
      "\<lambda>_. 0"] sample_mm_ok
  by (auto simp: tx_ok_def sample_simps sgt_find_offset_def Let_def)

end
