(* ===== verification/Qdma_Writeback.thy ===== *)
theory Qdma_Writeback
  imports Qdma_Submit
begin

text \<open>
  Completion of transmit descriptors (\<open>libqdma/qdma_descq.c\<close>): the status write-back tells
  how far the device has consumed the ring; the difference is credited to the pending
  requests in submission order. The coalesced-interrupt bookkeeping that both write-back
  handlers share is here too.
\<close>

section \<open>Credits\<close>

text \<open>
  The walk of \<open>req_update_pend\<close> over the pending list. The list walked is the pending list
  itself, from the entry reached; finished entries leave it.
\<close>

fun update_pend_loop :: "qdma_descq \<Rightarrow> u32 \<Rightarrow> qdma_sg_req list \<Rightarrow> qdma_descq \<times> u32" where
  "update_pend_loop descq credit [] = (descq, credit)"
| "update_pend_loop descq credit (cb # cbs) =
     (if credit \<ge> cb_desc_nr cb then
        let credit = credit - cb_desc_nr cb;
            descq = qdma_sgt_req_done descq cb None
        in if credit = 0 then (descq, credit) else update_pend_loop descq credit cbs
      else
        let cb' = cb\<lparr>cb_desc_nr := cb_desc_nr cb - credit\<rparr>
        in (descq\<lparr>q_pend_list := update_req cb' (q_pend_list descq)\<rparr>, 0))"

definition req_update_pend :: "qdma_descq \<Rightarrow> u32 \<Rightarrow> qdma_descq" where
  "req_update_pend descq credit =
     (let credit = credit + q_credit descq;
          (descq, credit) = update_pend_loop descq credit (q_pend_list descq)
      in descq\<lparr>q_credit := credit\<rparr>)"

definition descq_wb_credit :: "qdma_descq \<Rightarrow> u32 \<Rightarrow> u32 \<times> qdma_descq" where
  "descq_wb_credit q cidx =
     (if cidx = q_cidx q then (0, q)
      else let n = (if cidx < q_cidx q then qc_rngsz (q_conf q) - q_cidx q + cidx
                    else cidx - q_cidx q)
           in (n, q\<lparr>q_cidx := cidx, q_avail := q_avail q + n\<rparr>))"

section \<open>Coalesced interrupts\<close>

text \<open>
  After a write-back has been served with interrupt coalescing on, the driver advances its
  view of the interrupt ring, always that of the first vector (\<open>xdev->intr_coal_list\<close>), and
  reports it. An empty list is a NULL dereference.
\<close>

definition intr_coal_step :: "intr_coal_conf \<Rightarrow> intr_coal_conf" where
  "intr_coal_step ic =
     (if ic_cidx ic \<ge> ucast (ic_intr_ring_size ic)
      then ic\<lparr>ic_cidx := 0, ic_pidx := 0, ic_color := \<not> ic_color ic\<rparr>
      else ic\<lparr>ic_cidx := ic_cidx ic + 1, ic_pidx := ic_pidx ic + 1\<rparr>)"

definition intr_coal_served ::
  "'e env \<Rightarrow> bool \<Rightarrow> xlnx_dma_dev \<Rightarrow> qdma_descq \<Rightarrow> 'e \<Rightarrow> unit res \<times> xlnx_dma_dev \<times> 'e" where
  "intr_coal_served E vf xdev descq e =
     (if x_intr_coal_en xdev then
        (case x_intr_coal_list xdev of
           [] \<Rightarrow> (Inl OOPS, xdev, e)
         | ic # ics \<Rightarrow>
             let ic' = intr_coal_step ic
             in (Inr (), xdev\<lparr>x_intr_coal_list := ic' # ics\<rparr>,
                 intr_cidx_update E vf descq (ic_cidx ic') e))
      else (Inr (), xdev, e))"

section \<open>Write-back of memory-mapped and host-to-card queues\<close>

text \<open>
  Waking the worker thread (when requests wait and slots are free) needs \<open>wrkthp\<close>: a NULL
  thread is a fault.
\<close>

definition descq_mm_n_h2c_wb ::
  "'e env \<Rightarrow> bool \<Rightarrow> xlnx_dma_dev \<Rightarrow> qdma_descq \<Rightarrow> 'e
     \<Rightarrow> unit res \<times> xlnx_dma_dev \<times> qdma_descq \<times> 'e" where
  "descq_mm_n_h2c_wb E vf xdev descq e =
     (if q_pidx descq = q_cidx descq then (Inr (), xdev, descq, e)
      else if q_desc descq = None then (Inl OOPS, xdev, descq, e)
      else let cidx_hw = ucast (wb_cidx (q_desc_wb descq)) in
           if cidx_hw = q_cidx descq then (Inr (), xdev, descq, e)
           else let (cr, descq) = descq_wb_credit descq cidx_hw in
                if q_work_list descq \<noteq> [] \<and> q_avail descq \<noteq> 0 \<and> q_wrkthp descq = None
                then (Inl OOPS, xdev, descq, e)
                else let descq = req_update_pend descq cr;
                         e1 = descq_pidx_update E vf descq (q_pidx descq) e;
                         (rv, xdev, e2) = intr_coal_served E vf xdev descq e1
                     in (rv, xdev, descq, e2))"

section \<open>Credits go to the pending requests in order\<close>

text \<open>The final control block of a request finished without error.\<close>

definition req_finished :: "qdma_sg_req \<Rightarrow> qdma_sg_req" where
  "req_finished cb =
     cb\<lparr>cb_status := (if req_fp_done cb \<and> cb_offset cb \<noteq> req_count cb then Some EINVAL else None),
        cb_done := True\<rparr>"

lemma req_done_head:
  assumes "reqs_ok descq" and "q_pend_list descq = cb # cbs"
  shows "qdma_sgt_req_done descq cb None =
      descq\<lparr>q_pend_list := cbs, q_done := q_done descq @ [req_finished cb]\<rparr>"
proof -
  have "rid cb \<notin> rid ` set (q_work_list descq)" "rid cb \<notin> rid ` set cbs"
    using assms by (auto simp: reqs_ok_def)
  then have "list_del_req (rid cb) (q_work_list descq) = q_work_list descq"
    "list_del_req (rid cb) (q_pend_list descq) = cbs"
    using assms(2) list_del_req_notin by (auto simp: list_del_req_def)
  then show ?thesis
    by (simp add: qdma_sgt_req_done_def Let_def req_finished_def)
qed

lemma update_req_head:
  assumes "reqs_ok descq" and "q_pend_list descq = cb # cbs" and "rid cb' = rid cb"
  shows "update_req cb' (q_pend_list descq) = cb' # cbs"
proof -
  have "rid cb' \<notin> rid ` set cbs"
    using assms by (auto simp: reqs_ok_def)
  then show ?thesis
    using assms(2,3) update_req_notin [of cb' cbs] by (simp add: update_req_def)
qed

text \<open>
  \<open>settle\<close> is the reference: how many of the pending requests a credit finishes, what is
  taken off the next one, and what remains.
\<close>

fun settle :: "u32 \<Rightarrow> qdma_sg_req list \<Rightarrow> qdma_sg_req list \<times> qdma_sg_req list \<times> u32" where
  "settle credit [] = ([], [], credit)"
| "settle credit (cb # cbs) =
     (if credit \<ge> cb_desc_nr cb then
        if credit - cb_desc_nr cb = 0 then ([cb], cbs, 0)
        else let (fin, rest, cr) = settle (credit - cb_desc_nr cb) cbs in (cb # fin, rest, cr)
      else ([], cb\<lparr>cb_desc_nr := cb_desc_nr cb - credit\<rparr> # cbs, 0))"

lemma update_pend_loop_settle:
  "reqs_ok descq \<Longrightarrow> q_pend_list descq = cbs \<Longrightarrow>
     update_pend_loop descq credit cbs =
       (let (fin, rest, cr) = settle credit cbs
        in (descq\<lparr>q_pend_list := rest, q_done := q_done descq @ map req_finished fin\<rparr>, cr))"
proof (induction credit cbs arbitrary: descq rule: settle.induct)
  case (1 credit)
  then show ?case
    by simp
next
  case (2 credit cb cbs)
  show ?case
  proof (cases "cb_desc_nr cb \<le> credit")
    case False
    then show ?thesis
      using update_req_head [OF "2.prems"] by (simp add: Let_def)
  next
    case True
    let ?q = "descq\<lparr>q_pend_list := cbs, q_done := q_done descq @ [req_finished cb]\<rparr>"
    have ok: "reqs_ok ?q" "q_pend_list ?q = cbs"
      using "2.prems" by (simp_all add: reqs_ok_def)
    show ?thesis
      using True req_done_head [OF "2.prems"] "2.IH" [OF True _ ok]
      by (simp add: Let_def split: prod.splits)
  qed
qed

lemma req_update_pend_settle:
  "reqs_ok descq \<Longrightarrow>
     req_update_pend descq credit =
       (let (fin, rest, cr) = settle (credit + q_credit descq) (q_pend_list descq)
        in descq\<lparr>q_pend_list := rest, q_done := q_done descq @ map req_finished fin, q_credit := cr\<rparr>)"
  by (simp add: req_update_pend_def Let_def update_pend_loop_settle split: prod.splits)

lemma settle_accounting:
  "settle credit cbs = (fin, rest, cr) \<Longrightarrow>
     credit - sum_list (map cb_desc_nr cbs) = cr - sum_list (map cb_desc_nr rest)"
  by (induction credit cbs arbitrary: fin rest cr rule: settle.induct)
    (auto simp: Let_def algebra_simps split: if_splits prod.splits)

lemma settle_rids:
  "settle credit cbs = (fin, rest, cr) \<Longrightarrow> map rid cbs = map rid (fin @ rest)"
  by (induction credit cbs arbitrary: fin rest cr rule: settle.induct)
    (auto simp: Let_def split: if_splits prod.splits)


definition desc_sum :: "qdma_sg_req list \<Rightarrow> nat" where
  "desc_sum cbs = sum_list (map (unat \<circ> cb_desc_nr) cbs)"

lemma desc_sum_simps [simp]:
  "desc_sum [] = 0" "desc_sum (cb # cbs) = unat (cb_desc_nr cb) + desc_sum cbs"
  by (simp_all add: desc_sum_def)

lemma settle_fifo:
  "settle credit cbs = (fin, rest, cr) \<Longrightarrow>
     fin = take (length fin) cbs \<and> desc_sum fin \<le> unat credit \<and>
     (if length fin = length cbs then rest = [] \<and> unat cr = unat credit - desc_sum fin
      else cr = 0
        \<and> (unat credit = desc_sum fin \<or> unat credit - desc_sum fin < unat (cb_desc_nr (cbs ! length fin)))
        \<and> rest = (cbs ! length fin)\<lparr>cb_desc_nr := cb_desc_nr (cbs ! length fin)
                    - of_nat (unat credit - desc_sum fin)\<rparr> # drop (Suc (length fin)) cbs)"
proof (induction credit cbs arbitrary: fin rest cr rule: settle.induct)
  case (1 credit)
  then show ?case
    by simp
next
  case (2 credit cb cbs)
  show ?case
  proof (cases "cb_desc_nr cb \<le> credit")
    case False
    then have "fin = []" "cr = 0" "rest = cb\<lparr>cb_desc_nr := cb_desc_nr cb - credit\<rparr> # cbs"
      using "2.prems" by auto
    then show ?thesis
      using False by (simp add: not_le word_less_nat_alt)
  next
    case le: True
    have sub: "unat (credit - cb_desc_nr cb) = unat credit - unat (cb_desc_nr cb)"
      "unat (cb_desc_nr cb) \<le> unat credit"
      using le by (simp_all add: unat_sub_le word_le_nat_alt)
    show ?thesis
    proof (cases "credit - cb_desc_nr cb = 0")
      case True
      then have "fin = [cb]" "cr = 0" "rest = cbs" "credit = cb_desc_nr cb"
        using "2.prems" le by auto
      then show ?thesis
        by (cases cbs) simp_all
    next
      case False
      obtain fin' where fin': "settle (credit - cb_desc_nr cb) cbs = (fin', rest, cr)" "fin = cb # fin'"
        using "2.prems" le False by (auto simp: Let_def split: prod.splits)
      show ?thesis
        using "2.IH" [OF le False fin'(1)] sub by (auto simp: fin'(2) split: if_splits)
    qed
  qed
qed

text \<open>
  C22: The credit of a write-back, together with what an earlier one left over, is handed to the
  pending requests strictly in the order they were submitted: the requests at the front whose
  descriptors it covers are finished, in order; what is left is taken off the next request's
  count, or, when no request is left, kept for later. Nothing is lost, and the work list is
  not touched.
\<close>

theorem req_update_pend_fifo:
  assumes "reqs_ok descq" and "unat credit + unat (q_credit descq) < 2 ^ 32"
    and "pend = q_pend_list descq" and "tot = unat credit + unat (q_credit descq)"
  shows "\<exists>m\<le>length pend. q_done (req_update_pend descq credit) =
      q_done descq @ map req_finished (take m pend)
    \<and> q_work_list (req_update_pend descq credit) = q_work_list descq
    \<and> desc_sum (take m pend) \<le> tot
    \<and> (if m = length pend
        then q_pend_list (req_update_pend descq credit) = []
          \<and> unat (q_credit (req_update_pend descq credit)) = tot - desc_sum pend
        else q_credit (req_update_pend descq credit) = 0
          \<and> (tot = desc_sum (take m pend) \<or> tot - desc_sum (take m pend) < unat (cb_desc_nr (pend ! m)))
          \<and> q_pend_list (req_update_pend descq credit) =
              (pend ! m)\<lparr>cb_desc_nr := cb_desc_nr (pend ! m) - of_nat (tot - desc_sum (take m pend))\<rparr>
              # drop (Suc m) pend)"
proof -
  obtain fin rest cr where st: "settle (credit + q_credit descq) pend = (fin, rest, cr)"
    by (metis surj_pair)
  have tot: "unat (credit + q_credit descq) = tot"
    using assms(2,4) by (simp add: unat_add_small)
  note fifo = settle_fifo [OF st, unfolded tot]
  have "fin = take (length fin) pend"
    using fifo by blast
  then have "length fin \<le> length pend" "fin = take (length fin) pend"
    by (metis length_take min.cobounded1, simp)
  then show ?thesis
    using fifo st assms(3) req_update_pend_settle [OF assms(1), of credit]
    by (intro exI [of _ "length fin"]) (auto split: if_splits)
qed

section \<open>The write-back keeps the invariant\<close>

text \<open>
  \<open>hw_wb_ok\<close> is the contract of the device on the write-back status: the consumer index it
  reports is a slot of the ring and lies between the driver's consumer index and its
  producer index.
\<close>

definition hw_wb_ok :: "qdma_descq \<Rightarrow> bool" where
  "hw_wb_ok descq \<longleftrightarrow>
     (let n = unat (qc_rngsz (q_conf descq)); c = unat (wb_cidx (q_desc_wb descq))
      in c < n \<and> (c + n - unat (q_cidx descq)) mod n \<le> outstanding descq)"

lemma outstanding_retire:
  "c < n \<Longrightarrow> c' < n \<Longrightarrow> k = (c' + n - c) mod n \<Longrightarrow> k \<le> (p + n - c) mod n \<Longrightarrow>
     (p + n - c') mod n = (p + n - c) mod n - k" for c c' n p k :: nat
proof -
  assume a: "c < n" "c' < n" "k = (c' + n - c) mod n" "k \<le> (p + n - c) mod n"
  have "((p + n - c') mod n + k) mod n = ((p + n - c') + (c' + n - c)) mod n"
    by (simp add: a(3) mod_simps)
  also have "(p + n - c') + (c' + n - c) = (p + n - c) + n"
    using a by simp
  finally have sum: "((p + n - c') mod n + k) mod n = (p + n - c) mod n"
    by simp
  show ?thesis
  proof (cases "(p + n - c') mod n + k < n")
    case True
    then show ?thesis
      using sum by simp
  next
    case False
    have "(p + n - c') mod n < n" "k < n"
      using a by simp_all
    then have "(p + n - c') mod n + k - n < n"
      by linarith
    then have "((p + n - c') mod n + k) mod n = (p + n - c') mod n + k - n"
      using False le_mod_geq [of n "(p + n - c') mod n + k"] by simp
    then show ?thesis
      using sum a(4) \<open>(p + n - c') mod n < n\<close> by simp
  qed
qed

lemma wb_credit_count:
  assumes "q_cidx q < rngsz" and "cidx < rngsz" and "rngsz = qc_rngsz (q_conf q)" and "cidx \<noteq> q_cidx q"
  shows "unat (fst (descq_wb_credit q cidx)) = (unat cidx + unat rngsz - unat (q_cidx q)) mod unat rngsz"
proof (cases "cidx < q_cidx q")
  case True
  then have "unat cidx + unat rngsz - unat (q_cidx q) < unat rngsz"
    using assms(1) by (simp add: word_less_nat_alt)
  moreover have "unat (rngsz - q_cidx q + cidx) = unat rngsz - unat (q_cidx q) + unat cidx"
    using True assms(1) unat_lt_u32 [of rngsz]
    by (subst unat_add_small) (simp_all add: unat_sub_le word_less_nat_alt word_le_nat_alt)
  moreover have "fst (descq_wb_credit q cidx) = rngsz - q_cidx q + cidx"
    using True assms(3,4) by (simp add: descq_wb_credit_def Let_def)
  ultimately show ?thesis
    using True assms(1) by (simp add: word_less_nat_alt)
next
  case False
  then have le: "unat (q_cidx q) \<le> unat cidx"
    by (simp add: word_less_nat_alt)
  then have sum: "unat cidx + unat rngsz - unat (q_cidx q) = (unat cidx - unat (q_cidx q)) + unat rngsz"
    by simp
  have "unat cidx < unat rngsz"
    using assms(2) by (simp add: word_less_nat_alt)
  then have "(unat cidx + unat rngsz - unat (q_cidx q)) mod unat rngsz = unat cidx - unat (q_cidx q)"
    unfolding sum mod_add_self2 by (intro mod_less) simp
  moreover have "fst (descq_wb_credit q cidx) = cidx - q_cidx q"
    using False assms(4) by (simp add: descq_wb_credit_def Let_def)
  moreover have "unat (cidx - q_cidx q) = unat cidx - unat (q_cidx q)"
    using le by (intro unat_sub_le) (simp add: word_le_nat_alt)
  ultimately show ?thesis
    by (simp only:)
qed


lemma ring_mem_ok_cong:
  "q_desc d' = q_desc d \<Longrightarrow> q_conf d' = q_conf d \<Longrightarrow> ring_mem_ok d' = ring_mem_ok d"
  by (simp add: ring_mem_ok_def split: option.split desc_ring.split)

lemma wb_credit_tx:
  assumes "tx_ok descq" and "hw_wb_ok descq"
    and "descq_wb_credit descq (ucast (wb_cidx (q_desc_wb descq))) = (cr, descq')"
  shows "ring_ok descq'" and "of_nat (outstanding descq') + (q_credit descq' + cr) = owed descq'"
    and "ring_mem_ok descq'" and "reqs_ok descq'"
proof -
  define cidx :: u32 where "cidx = ucast (wb_cidx (q_desc_wb descq))"
  let ?n = "unat (qc_rngsz (q_conf descq))"
  have cidx: "unat cidx = unat (wb_cidx (q_desc_wb descq))"
    by (simp add: cidx_def)
  have ok: "ring_ok descq" "ring_mem_ok descq" "credit_ok descq" "reqs_ok descq"
    using assms(1) by (simp_all add: tx_ok_def)
  have n: "unat (q_cidx descq) < ?n" "unat cidx < ?n"
    "unat (q_avail descq) + outstanding descq + 1 = ?n"
    "(unat cidx + ?n - unat (q_cidx descq)) mod ?n \<le> outstanding descq"
    using ok(1) assms(2) by (simp_all add: ring_ok_def hw_wb_ok_def Let_def word_less_nat_alt cidx)
  have cr: "unat cr = (unat cidx + ?n - unat (q_cidx descq)) mod ?n"
  proof (cases "cidx = q_cidx descq")
    case True
    then show ?thesis
      using assms(3) by (simp add: cidx_def [symmetric] descq_wb_credit_def)
  next
    case False
    then show ?thesis
      using wb_credit_count [of descq "qc_rngsz (q_conf descq)" cidx] n(1,2) assms(3)
      by (simp add: cidx_def [symmetric] word_less_nat_alt)
  qed
  have same: "q_conf descq' = q_conf descq" "q_pidx descq' = q_pidx descq" "q_cidx descq' = cidx"
    "q_avail descq' = q_avail descq + cr" "q_credit descq' = q_credit descq"
    "q_work_list descq' = q_work_list descq" "q_pend_list descq' = q_pend_list descq"
    "q_desc descq' = q_desc descq"
    using assms(3) by (auto simp: cidx_def [symmetric] descq_wb_credit_def Let_def split: if_splits)
  have out: "outstanding descq' = outstanding descq - unat cr"
    unfolding outstanding_def same using n cr
    by (intro outstanding_retire) (simp_all add: outstanding_def)
  have "unat (q_avail descq') = unat (q_avail descq) + unat cr"
    using n cr unat_lt_u32 [of "qc_rngsz (q_conf descq)"] unfolding same
    by (intro unat_add_small) simp
  then show "ring_ok descq'"
    using ok(1) n cr out by (simp add: ring_ok_def same word_less_nat_alt)
  have le: "unat cr \<le> outstanding descq"
    using n(4) cr by simp
  have "of_nat (outstanding descq) = (of_nat (outstanding descq - unat cr) + cr :: u32)"
    using le by (simp add: of_nat_diff)
  then show "of_nat (outstanding descq') + (q_credit descq' + cr) = owed descq'"
    using ok(3) by (simp add: credit_ok_def owed_def same out algebra_simps)
  show "ring_mem_ok descq'" "reqs_ok descq'"
    using ok(2,4) ring_mem_ok_cong [of descq' descq] by (simp_all add: reqs_ok_def same)
qed

lemma req_update_pend_tx:
  assumes "ring_ok descq" and "of_nat (outstanding descq) + (q_credit descq + cr) = owed descq"
    and "ring_mem_ok descq" and "reqs_ok descq"
  shows "tx_ok (req_update_pend descq cr)"
proof -
  obtain fin rest c where st: "settle (cr + q_credit descq) (q_pend_list descq) = (fin, rest, c)"
    by (metis surj_pair)
  have run: "req_update_pend descq cr =
      descq\<lparr>q_pend_list := rest, q_done := q_done descq @ map req_finished fin, q_credit := c\<rparr>"
    using req_update_pend_settle [OF assms(4), of cr] st by simp
  have "map rid (q_pend_list descq) = map rid (fin @ rest)"
    using settle_rids [OF st] .
  then have "reqs_ok (req_update_pend descq cr)"
    using assms(4) by (auto simp: reqs_ok_def run)
  moreover have "credit_ok (req_update_pend descq cr)"
  proof -
    let ?P = "sum_list (map cb_desc_nr (q_pend_list descq))"
    have c: "c = cr + q_credit descq - ?P + sum_list (map cb_desc_nr rest)"
      using settle_accounting [OF st] by (simp add: algebra_simps)
    have w: "sum_list (map cb_desc_nr (q_work_list descq)) =
        of_nat (outstanding descq) + (q_credit descq + cr) - ?P"
      using assms(2) by (simp add: owed_def algebra_simps)
    show ?thesis
      unfolding credit_ok_def owed_def run by (simp add: outstanding_def c w)
  qed
  moreover have "ring_mem_ok (req_update_pend descq cr)"
    using assms(3) ring_mem_ok_cong [of "req_update_pend descq cr" descq] by (simp add: run)
  ultimately show ?thesis
    using assms(1) by (simp add: tx_ok_def ring_ok_def outstanding_def run)
qed

lemma mm_n_h2c_wb_tx:
  assumes "tx_ok descq" and "hw_wb_ok descq"
    and "descq_mm_n_h2c_wb E vf xdev descq e = (rv, xdev', descq', e')" and "rv \<noteq> Inl OOPS"
  shows "tx_ok descq'"
proof -
  obtain cr q1 where cr: "descq_wb_credit descq (ucast (wb_cidx (q_desc_wb descq))) = (cr, q1)"
    by (metis surj_pair)
  have "tx_ok (req_update_pend q1 cr)"
    by (rule req_update_pend_tx) (rule wb_credit_tx [OF assms(1,2) cr])+
  then show ?thesis
    using assms(1,3,4) cr
    by (auto simp: descq_mm_n_h2c_wb_def Let_def split: if_splits prod.splits)
qed

text \<open>
  Serving a write-back keeps the transmit queue consistent, provided the device reports a
  consumer index inside the window of outstanding descriptors: after it the free count and
  the outstanding descriptors again add up to the usable ring, and the outstanding
  descriptors are again exactly those of the unfinished requests.
\<close>

theorem mm_n_h2c_wb_tx_ok:
  assumes "tx_ok descq" and "hw_wb_ok descq"
    and "descq_mm_n_h2c_wb E vf xdev descq e = (rv, xdev', descq', e')" and "rv \<noteq> Inl OOPS"
  shows "tx_ok descq'"
  using assms by (rule mm_n_h2c_wb_tx)

section \<open>Concrete runs\<close>

text \<open>
  The sample queue after its request has been programmed: two descriptors outstanding in
  slots 3 and 0, and the device reports that it has consumed the first of them.
\<close>

definition sample_busy :: qdma_descq where
  "sample_busy = sample_mm\<lparr>q_work_list := [],
     q_pend_list := [sample_req 4608\<lparr>cb_desc_nr := 2\<rparr>], q_pidx := 1, q_avail := 1,
     q_desc_wb := \<lparr>wb_pidx = 0, wb_cidx = 0\<rparr>\<rparr>"

lemma sample_busy_ok: "tx_ok sample_busy" "hw_wb_ok sample_busy"
  by (simp_all add: tx_ok_def ring_ok_def ring_mem_ok_def credit_ok_def reqs_ok_def owed_def
      outstanding_def hw_wb_ok_def Let_def sample_busy_def sample_simps)

theorem req_update_pend_fifo_witness:
  "\<exists>m\<le>1. desc_sum (take m (q_pend_list sample_busy)) \<le> 1
     \<and> q_done (req_update_pend sample_busy 1) = map req_finished (take m (q_pend_list sample_busy))"
proof -
  have pend: "length (q_pend_list sample_busy) = 1" "q_done sample_busy = []"
    "q_credit sample_busy = 0" "reqs_ok sample_busy"
    using sample_busy_ok by (simp_all add: tx_ok_def) (simp_all add: sample_busy_def sample_simps)
  show ?thesis
    using req_update_pend_fifo [OF pend(4), of 1 "q_pend_list sample_busy" 1] pend(1-3) by auto
qed

theorem mm_n_h2c_wb_tx_ok_witness:
  "tx_ok (fst (snd (snd (descq_mm_n_h2c_wb ram_env False sample_xdev sample_busy (\<lambda>_. 0)))))"
proof -
  obtain rv xdev' descq' e' where
    run: "descq_mm_n_h2c_wb ram_env False sample_xdev sample_busy (\<lambda>_. 0) = (rv, xdev', descq', e')"
    by (metis surj_pair)
  then have "rv \<noteq> Inl OOPS"
    by (auto simp: descq_mm_n_h2c_wb_def Let_def sample_busy_def sample_simps descq_wb_credit_def
        intr_coal_served_def sample_xdev_def split: if_splits prod.splits)
  from mm_n_h2c_wb_tx_ok [OF sample_busy_ok run this] run show ?thesis
    by simp
qed

end
