(* ===== verification/Qdma_Rxq.thy ===== *)
theory Qdma_Rxq
  imports Qdma_Types Qdma_Samples
begin

text \<open>
  The receive queue of a streaming card-to-host queue (\<open>libqdma/qdma_descq.c\<close>): two singly
  linked lists with head and tail pointers, one of received pages and one of user defined
  data. First the list functions as the C code has them, over an explicit memory of nodes;
  they are shown to implement the operations on plain lists that the rest of the model uses.
  The pointer reasoning is done once, in the locale \<open>linked_queue\<close>, and used for both lists.
\<close>

section \<open>The lists of the source\<close>

record rx_node =
  rxn_data :: st_rx_data
  rxn_next :: "nat option"

record udd_node =
  udn_data :: st_c2h_wrb_udd
  udn_next :: "nat option"

record rxq_mem =
  m_rxs :: "nat \<Rightarrow> rx_node option"
  m_udds :: "nat \<Rightarrow> udd_node option"
  m_dlen :: u32
  m_udd_head :: "nat option"
  m_udd_tail :: "nat option"
  m_head :: "nat option"
  m_tail :: "nat option"

definition rx_left :: "st_rx_data \<Rightarrow> u32" where
  "rx_left rx = rx_len rx - rx_offset rx"

definition udd_left :: "st_c2h_wrb_udd \<Rightarrow> u32" where
  "udd_left udd = ucast (udd_len udd) - ucast (udd_offset udd)"

text \<open>Each function fails (\<open>None\<close>) where the C code dereferences a pointer to no node.\<close>

definition rxq_dequeue_head :: "rxq_mem \<Rightarrow> (nat option \<times> rxq_mem) option" where
  "rxq_dequeue_head rxq =
     (case m_head rxq of
        None \<Rightarrow> Some (None, rxq)
      | Some rx \<Rightarrow>
          (case m_rxs rxq rx of
             None \<Rightarrow> None
           | Some n \<Rightarrow>
               let rxq = rxq\<lparr>m_head := rxn_next n, m_rxs := (m_rxs rxq)(rx \<mapsto> n\<lparr>rxn_next := None\<rparr>)\<rparr>;
                   rxq = (if m_head rxq = None then rxq\<lparr>m_tail := None\<rparr> else rxq)
               in Some (Some rx, rxq\<lparr>m_dlen := m_dlen rxq - rx_left (rxn_data n)\<rparr>)))"

definition rxq_enqueue_head :: "rxq_mem \<Rightarrow> nat \<Rightarrow> rxq_mem option" where
  "rxq_enqueue_head rxq rx =
     (case m_rxs rxq rx of
        None \<Rightarrow> None
      | Some n \<Rightarrow>
          let rxq = rxq\<lparr>m_rxs := (m_rxs rxq)(rx \<mapsto> n\<lparr>rxn_next := m_head rxq\<rparr>), m_head := Some rx\<rparr>;
              rxq = (if m_tail rxq = None then rxq\<lparr>m_tail := Some rx\<rparr> else rxq)
          in Some (rxq\<lparr>m_dlen := m_dlen rxq + rx_left (rxn_data n)\<rparr>))"

definition rxq_enqueue_tail :: "rxq_mem \<Rightarrow> nat \<Rightarrow> rxq_mem option" where
  "rxq_enqueue_tail rxq rx =
     (case m_rxs rxq rx of
        None \<Rightarrow> None
      | Some n \<Rightarrow>
          let rxq = rxq\<lparr>m_rxs := (m_rxs rxq)(rx \<mapsto> n\<lparr>rxn_next := None\<rparr>)\<rparr>;
              linked = (if m_head rxq = None then Some (rxq\<lparr>m_head := Some rx\<rparr>)
                        else case m_tail rxq of
                               None \<Rightarrow> None
                             | Some t \<Rightarrow>
                                 (case m_rxs rxq t of
                                    None \<Rightarrow> None
                                  | Some tn \<Rightarrow>
                                      Some (rxq\<lparr>m_rxs := (m_rxs rxq)(t \<mapsto> tn\<lparr>rxn_next := Some rx\<rparr>)\<rparr>)))
          in case linked of
               None \<Rightarrow> None
             | Some rxq \<Rightarrow> Some (rxq\<lparr>m_tail := Some rx, m_dlen := m_dlen rxq + rx_left (rxn_data n)\<rparr>))"

definition udd_dequeue_head :: "rxq_mem \<Rightarrow> (nat option \<times> rxq_mem) option" where
  "udd_dequeue_head rxq =
     (case m_udd_head rxq of
        None \<Rightarrow> Some (None, rxq)
      | Some udd \<Rightarrow>
          (case m_udds rxq udd of
             None \<Rightarrow> None
           | Some n \<Rightarrow>
               let rxq = rxq\<lparr>m_udd_head := udn_next n, m_udds := (m_udds rxq)(udd \<mapsto> n\<lparr>udn_next := None\<rparr>)\<rparr>;
                   rxq = (if m_udd_head rxq = None then rxq\<lparr>m_udd_tail := None\<rparr> else rxq)
               in Some (Some udd, rxq\<lparr>m_dlen := m_dlen rxq - udd_left (udn_data n)\<rparr>)))"

definition udd_enqueue_head :: "rxq_mem \<Rightarrow> nat \<Rightarrow> rxq_mem option" where
  "udd_enqueue_head rxq udd =
     (case m_udds rxq udd of
        None \<Rightarrow> None
      | Some n \<Rightarrow>
          let rxq = rxq\<lparr>m_udds := (m_udds rxq)(udd \<mapsto> n\<lparr>udn_next := m_udd_head rxq\<rparr>), m_udd_head := Some udd\<rparr>;
              rxq = (if m_udd_tail rxq = None then rxq\<lparr>m_udd_tail := Some udd\<rparr> else rxq)
          in Some (rxq\<lparr>m_dlen := m_dlen rxq + udd_left (udn_data n)\<rparr>))"

definition udd_enqueue_tail :: "rxq_mem \<Rightarrow> nat \<Rightarrow> rxq_mem option" where
  "udd_enqueue_tail rxq udd =
     (case m_udds rxq udd of
        None \<Rightarrow> None
      | Some n \<Rightarrow>
          let rxq = rxq\<lparr>m_udds := (m_udds rxq)(udd \<mapsto> n\<lparr>udn_next := None\<rparr>)\<rparr>;
              linked = (if m_udd_head rxq = None then Some (rxq\<lparr>m_udd_head := Some udd\<rparr>)
                        else case m_udd_tail rxq of
                               None \<Rightarrow> None
                             | Some t \<Rightarrow>
                                 (case m_udds rxq t of
                                    None \<Rightarrow> None
                                  | Some tn \<Rightarrow>
                                      Some (rxq\<lparr>m_udds := (m_udds rxq)(t \<mapsto> tn\<lparr>udn_next := Some udd\<rparr>)\<rparr>)))
          in case linked of
               None \<Rightarrow> None
             | Some rxq \<Rightarrow> Some (rxq\<lparr>m_udd_tail := Some udd, m_dlen := m_dlen rxq + udd_left (udn_data n)\<rparr>))"

section \<open>Linked queues with head and tail\<close>

text \<open>
  \<open>linked nd s xs\<close>: following the next pointers from \<open>s\<close> visits exactly the nodes \<open>xs\<close>, given
  as pairs of address and data, and ends.
\<close>

fun linked :: "(nat \<Rightarrow> ('d \<times> nat option) option) \<Rightarrow> nat option \<Rightarrow> (nat \<times> 'd) list \<Rightarrow> bool" where
  "linked nd s [] \<longleftrightarrow> s = None"
| "linked nd s ((p, d) # xs) \<longleftrightarrow> s = Some p \<and> (\<exists>n. nd p = Some (d, n) \<and> linked nd n xs)"

lemma linked_frame:
  "p \<notin> fst ` set xs \<Longrightarrow> linked (nd(p := v)) s xs \<longleftrightarrow> linked nd s xs"
  by (induction nd s xs rule: linked.induct) auto

lemma linked_append:
  "linked nd s xs \<Longrightarrow> distinct (map fst xs) \<Longrightarrow> p \<notin> fst ` set xs \<Longrightarrow> xs \<noteq> [] \<Longrightarrow>
   last xs = (t, e) \<Longrightarrow> linked (nd(p \<mapsto> (d, None), t \<mapsto> (e, Some p))) s (xs @ [(p, d)])"
proof (induction nd s xs rule: linked.induct)
  case (2 nd s q d' xs)
  show ?case
  proof (cases "xs = []")
    case True
    then show ?thesis
      using 2 by auto
  next
    case False
    then have "t \<in> fst ` set xs"
      using 2(6) last_in_set [of xs] by force
    then have "q \<noteq> t" "q \<noteq> p"
      using 2(3,4) by auto
    then show ?thesis
      using 2 False by auto
  qed
qed simp

lemma linked_last: "linked nd s xs \<Longrightarrow> xs \<noteq> [] \<Longrightarrow> last xs = (t, e) \<Longrightarrow> \<exists>k. nd t = Some (e, k)"
  by (induction nd s xs rule: linked.induct) (auto split: if_splits)

locale linked_queue =
  fixes head tail :: "'m \<Rightarrow> nat option"
    and node :: "'m \<Rightarrow> nat \<Rightarrow> ('d \<times> nat option) option"
    and deq :: "'m \<Rightarrow> (nat option \<times> 'm) option"
    and enq_head enq_tail :: "'m \<Rightarrow> nat \<Rightarrow> 'm option"
  assumes deq_empty: "head m = None \<Longrightarrow> deq m = Some (None, m)"
    and deq_node: "head m = Some p \<Longrightarrow> node m p = Some (d, n) \<Longrightarrow>
      \<exists>m'. deq m = Some (Some p, m') \<and> head m' = n
        \<and> tail m' = (if n = None then None else tail m) \<and> node m' = (node m)(p \<mapsto> (d, None))"
    and enq_head_node: "node m p = Some (d, n) \<Longrightarrow>
      \<exists>m'. enq_head m p = Some m' \<and> head m' = Some p
        \<and> tail m' = (if tail m = None then Some p else tail m) \<and> node m' = (node m)(p \<mapsto> (d, head m))"
    and enq_tail_empty: "head m = None \<Longrightarrow> node m p = Some (d, n) \<Longrightarrow>
      \<exists>m'. enq_tail m p = Some m' \<and> head m' = Some p \<and> tail m' = Some p
        \<and> node m' = (node m)(p \<mapsto> (d, None))"
    and enq_tail_node: "head m = Some h \<Longrightarrow> tail m = Some t \<Longrightarrow> node m t = Some (e, k) \<Longrightarrow>
      node m p = Some (d, n) \<Longrightarrow> t \<noteq> p \<Longrightarrow>
      \<exists>m'. enq_tail m p = Some m' \<and> head m' = Some h \<and> tail m' = Some p
        \<and> node m' = (node m)(p \<mapsto> (d, None), t \<mapsto> (e, Some p))"
begin

definition holds :: "'m \<Rightarrow> (nat \<times> 'd) list \<Rightarrow> bool" where
  "holds m xs \<longleftrightarrow> linked (node m) (head m) xs \<and> distinct (map fst xs)
     \<and> tail m = (if xs = [] then None else Some (fst (last xs)))"

lemma deq_holds_empty: "holds m [] \<Longrightarrow> deq m = Some (None, m)"
  by (simp add: holds_def deq_empty)

lemma deq_holds:
  assumes "holds m ((p, d) # xs)"
  shows "\<exists>m'. deq m = Some (Some p, m') \<and> holds m' xs \<and> node m' = (node m)(p \<mapsto> (d, None))"
proof -
  from assms obtain n where h: "head m = Some p" "node m p = Some (d, n)" "linked (node m) n xs"
    "p \<notin> fst ` set xs" "distinct (map fst xs)"
    by (auto simp: holds_def)
  from deq_node [OF h(1,2)] obtain m' where m': "deq m = Some (Some p, m')" "head m' = n"
    "tail m' = (if n = None then None else tail m)" "node m' = (node m)(p \<mapsto> (d, None))"
    by blast
  have "n = None \<longleftrightarrow> xs = []"
    using h(3) by (cases xs) auto
  then have "holds m' xs"
    using assms h m' by (auto simp: holds_def linked_frame)
  with m' show ?thesis
    by blast
qed

lemma enq_head_holds:
  assumes "holds m xs" and "node m p = Some (d, n)" and "p \<notin> fst ` set xs"
  shows "\<exists>m'. enq_head m p = Some m' \<and> holds m' ((p, d) # xs)
    \<and> node m' = (node m)(p \<mapsto> (d, head m))"
proof -
  from enq_head_node [OF assms(2)] obtain m' where m': "enq_head m p = Some m'" "head m' = Some p"
    "tail m' = (if tail m = None then Some p else tail m)" "node m' = (node m)(p \<mapsto> (d, head m))"
    by blast
  then have "holds m' ((p, d) # xs)"
    using assms by (auto simp: holds_def linked_frame)
  with m' show ?thesis
    by blast
qed

lemma enq_tail_holds:
  assumes "holds m xs" and "node m p = Some (d, n)" and "p \<notin> fst ` set xs"
  shows "\<exists>m'. enq_tail m p = Some m' \<and> holds m' (xs @ [(p, d)])"
proof (cases "xs = []")
  case True
  then have "head m = None"
    using assms(1) by (simp add: holds_def)
  from enq_tail_empty [OF this assms(2)] True show ?thesis
    by (auto simp: holds_def)
next
  case False
  obtain t e where t: "last xs = (t, e)"
    by (cases "last xs")
  have "t \<in> fst ` set xs"
    using t False last_in_set [of xs] by force
  then have tp: "t \<noteq> p"
    using assms(3) by auto
  obtain h where h: "head m = Some h"
    using assms(1) False by (cases xs) (auto simp: holds_def)
  obtain k where k: "node m t = Some (e, k)"
    using linked_last [of "node m" "head m" xs t e] assms(1) False t by (auto simp: holds_def)
  have tm: "tail m = Some t"
    using assms(1) False t by (simp add: holds_def)
  from enq_tail_node [OF h tm k assms(2) tp] obtain m' where m': "enq_tail m p = Some m'"
    "head m' = Some h" "tail m' = Some p" "node m' = (node m)(p \<mapsto> (d, None), t \<mapsto> (e, Some p))"
    by blast
  have "linked (node m') (head m') (xs @ [(p, d)])"
    using linked_append [of "node m" "head m" xs p t e d] assms(1,3) False t h m'
    by (simp add: holds_def)
  then show ?thesis
    using assms(1,3) m' by (auto simp: holds_def)
qed

end

section \<open>Both lists are such queues\<close>

definition rx_view :: "rxq_mem \<Rightarrow> nat \<Rightarrow> (st_rx_data \<times> nat option) option" where
  "rx_view m p = map_option (\<lambda>n. (rxn_data n, rxn_next n)) (m_rxs m p)"

definition udd_view :: "rxq_mem \<Rightarrow> nat \<Rightarrow> (st_c2h_wrb_udd \<times> nat option) option" where
  "udd_view m p = map_option (\<lambda>n. (udn_data n, udn_next n)) (m_udds m p)"

lemmas rxq_ptr_defs =
  rxq_dequeue_head_def rxq_enqueue_head_def rxq_enqueue_tail_def
  udd_dequeue_head_def udd_enqueue_head_def udd_enqueue_tail_def rx_view_def udd_view_def

interpretation rx: linked_queue m_head m_tail rx_view rxq_dequeue_head rxq_enqueue_head rxq_enqueue_tail
  by unfold_locales (auto simp: rxq_ptr_defs Let_def fun_eq_iff)

interpretation udd: linked_queue m_udd_head m_udd_tail udd_view udd_dequeue_head udd_enqueue_head
  udd_enqueue_tail
  by unfold_locales (auto simp: rxq_ptr_defs Let_def fun_eq_iff)

section \<open>The receive queue as lists\<close>

definition rx_pop :: "st_rx_queue \<Rightarrow> st_rx_data option \<times> st_rx_queue" where
  "rx_pop q =
     (case rxq_rxs q of
        [] \<Rightarrow> (None, q)
      | rx # rxs \<Rightarrow> (Some rx, q\<lparr>rxq_rxs := rxs, rxq_dlen := rxq_dlen q - rx_left rx\<rparr>))"

definition rx_push_front :: "st_rx_data \<Rightarrow> st_rx_queue \<Rightarrow> st_rx_queue" where
  "rx_push_front rx q = q\<lparr>rxq_rxs := rx # rxq_rxs q, rxq_dlen := rxq_dlen q + rx_left rx\<rparr>"

definition rx_push_back :: "st_rx_data \<Rightarrow> st_rx_queue \<Rightarrow> st_rx_queue" where
  "rx_push_back rx q = q\<lparr>rxq_rxs := rxq_rxs q @ [rx], rxq_dlen := rxq_dlen q + rx_left rx\<rparr>"

definition udd_pop :: "st_rx_queue \<Rightarrow> st_c2h_wrb_udd option \<times> st_rx_queue" where
  "udd_pop q =
     (case rxq_udds q of
        [] \<Rightarrow> (None, q)
      | u # us \<Rightarrow> (Some u, q\<lparr>rxq_udds := us, rxq_dlen := rxq_dlen q - udd_left u\<rparr>))"

definition udd_push_front :: "st_c2h_wrb_udd \<Rightarrow> st_rx_queue \<Rightarrow> st_rx_queue" where
  "udd_push_front u q = q\<lparr>rxq_udds := u # rxq_udds q, rxq_dlen := rxq_dlen q + udd_left u\<rparr>"

definition udd_push_back :: "st_c2h_wrb_udd \<Rightarrow> st_rx_queue \<Rightarrow> st_rx_queue" where
  "udd_push_back u q = q\<lparr>rxq_udds := rxq_udds q @ [u], rxq_dlen := rxq_dlen q + udd_left u\<rparr>"

lemmas rxq_list_defs =
  rx_pop_def rx_push_front_def rx_push_back_def udd_pop_def udd_push_front_def udd_push_back_def

text \<open>
  \<open>rxq_rep m q\<close>: the memory \<open>m\<close> holds the two lists of \<open>q\<close>, and its byte count.
\<close>

definition rxq_rep :: "rxq_mem \<Rightarrow> (nat \<times> st_rx_data) list \<Rightarrow> (nat \<times> st_c2h_wrb_udd) list \<Rightarrow> st_rx_queue \<Rightarrow> bool" where
  "rxq_rep m xs us q \<longleftrightarrow> rx.holds m xs \<and> udd.holds m us
     \<and> q = \<lparr>rxq_dlen = m_dlen m, rxq_udds = map snd us, rxq_rxs = map snd xs\<rparr>"

lemma rx_view_Some: "m_rxs m p = Some n \<Longrightarrow> rx_view m p = Some (rxn_data n, rxn_next n)"
  by (simp add: rx_view_def)

lemma udd_view_Some: "m_udds m p = Some n \<Longrightarrow> udd_view m p = Some (udn_data n, udn_next n)"
  by (simp add: udd_view_def)

lemma rx_ops_dlen:
  "rxq_dequeue_head m = Some (Some p, m') \<Longrightarrow> rx_view m p = Some (d, k) \<Longrightarrow> m_dlen m' = m_dlen m - rx_left d"
  "rxq_enqueue_head m p = Some m' \<Longrightarrow> rx_view m p = Some (d, k) \<Longrightarrow> m_dlen m' = m_dlen m + rx_left d"
  "rxq_enqueue_tail m p = Some m' \<Longrightarrow> rx_view m p = Some (d, k) \<Longrightarrow> m_dlen m' = m_dlen m + rx_left d"
  by (auto simp: rxq_ptr_defs Let_def split: option.splits if_splits)

lemma udd_ops_dlen:
  "udd_dequeue_head m = Some (Some p, m') \<Longrightarrow> udd_view m p = Some (d, k) \<Longrightarrow> m_dlen m' = m_dlen m - udd_left d"
  "udd_enqueue_head m p = Some m' \<Longrightarrow> udd_view m p = Some (d, k) \<Longrightarrow> m_dlen m' = m_dlen m + udd_left d"
  "udd_enqueue_tail m p = Some m' \<Longrightarrow> udd_view m p = Some (d, k) \<Longrightarrow> m_dlen m' = m_dlen m + udd_left d"
  by (auto simp: rxq_ptr_defs Let_def split: option.splits if_splits)

text \<open>Neither list's functions touch the other list.\<close>

lemma rx_ops_udd_frame:
  "rxq_dequeue_head m = Some (r, m') \<Longrightarrow> udd.holds m' us = udd.holds m us"
  "rxq_enqueue_head m p = Some m' \<Longrightarrow> udd.holds m' us = udd.holds m us"
  "rxq_enqueue_tail m p = Some m' \<Longrightarrow> udd.holds m' us = udd.holds m us"
proof -
  have eq: "udd.holds m' us = udd.holds m us"
    if "m_udds m' = m_udds m" "m_udd_head m' = m_udd_head m" "m_udd_tail m' = m_udd_tail m" for m m' us
  proof -
    have "udd_view m' = udd_view m"
      by (rule ext) (simp add: udd_view_def that)
    then show ?thesis
      by (simp add: udd.holds_def that)
  qed
  show "rxq_dequeue_head m = Some (r, m') \<Longrightarrow> udd.holds m' us = udd.holds m us"
    "rxq_enqueue_head m p = Some m' \<Longrightarrow> udd.holds m' us = udd.holds m us"
    "rxq_enqueue_tail m p = Some m' \<Longrightarrow> udd.holds m' us = udd.holds m us"
    by (rule eq; auto simp: rxq_ptr_defs Let_def split: option.splits if_splits)+
qed

lemma udd_ops_rx_frame:
  "udd_dequeue_head m = Some (r, m') \<Longrightarrow> rx.holds m' xs = rx.holds m xs"
  "udd_enqueue_head m p = Some m' \<Longrightarrow> rx.holds m' xs = rx.holds m xs"
  "udd_enqueue_tail m p = Some m' \<Longrightarrow> rx.holds m' xs = rx.holds m xs"
proof -
  have eq: "rx.holds m' xs = rx.holds m xs"
    if "m_rxs m' = m_rxs m" "m_head m' = m_head m" "m_tail m' = m_tail m" for m m' xs
  proof -
    have "rx_view m' = rx_view m"
      by (rule ext) (simp add: rx_view_def that)
    then show ?thesis
      by (simp add: rx.holds_def that)
  qed
  show "udd_dequeue_head m = Some (r, m') \<Longrightarrow> rx.holds m' xs = rx.holds m xs"
    "udd_enqueue_head m p = Some m' \<Longrightarrow> rx.holds m' xs = rx.holds m xs"
    "udd_enqueue_tail m p = Some m' \<Longrightarrow> rx.holds m' xs = rx.holds m xs"
    by (rule eq; auto simp: rxq_ptr_defs Let_def split: option.splits if_splits)+
qed

lemma rx_dequeue_rep:
  assumes "rxq_rep m xs us q"
  shows "\<exists>m'. rxq_dequeue_head m = Some (map_option fst (if xs = [] then None else Some (hd xs)), m')
    \<and> rxq_rep m' (tl xs) us (snd (rx_pop q))
    \<and> fst (rx_pop q) = map_option snd (if xs = [] then None else Some (hd xs))"
proof (cases xs)
  case Nil
  then show ?thesis
    using assms rx.deq_holds_empty [of m] by (auto simp: rxq_rep_def rx_pop_def)
next
  case (Cons x ys)
  then obtain p d where xs: "xs = (p, d) # ys"
    by (cases x) auto
  then have h: "rx.holds m ((p, d) # ys)"
    using assms by (simp add: rxq_rep_def)
  from rx.deq_holds [OF h] obtain m' where m': "rxq_dequeue_head m = Some (Some p, m')" "rx.holds m' ys"
    by blast
  have "\<exists>k. rx_view m p = Some (d, k)"
    using h by (auto simp: rx.holds_def)
  then have "m_dlen m' = m_dlen m - rx_left d"
    using rx_ops_dlen(1) [OF m'(1)] by blast
  then show ?thesis
    using m' assms xs rx_ops_udd_frame(1) [OF m'(1)] by (auto simp: rxq_rep_def rx_pop_def)
qed

lemma udd_dequeue_rep:
  assumes "rxq_rep m xs us q"
  shows "\<exists>m'. udd_dequeue_head m = Some (map_option fst (if us = [] then None else Some (hd us)), m')
    \<and> rxq_rep m' xs (tl us) (snd (udd_pop q))
    \<and> fst (udd_pop q) = map_option snd (if us = [] then None else Some (hd us))"
proof (cases us)
  case Nil
  then show ?thesis
    using assms udd.deq_holds_empty [of m] by (auto simp: rxq_rep_def udd_pop_def)
next
  case (Cons x ys)
  then obtain p d where us: "us = (p, d) # ys"
    by (cases x) auto
  then have h: "udd.holds m ((p, d) # ys)"
    using assms by (simp add: rxq_rep_def)
  from udd.deq_holds [OF h] obtain m' where m': "udd_dequeue_head m = Some (Some p, m')" "udd.holds m' ys"
    by blast
  have "\<exists>k. udd_view m p = Some (d, k)"
    using h by (auto simp: udd.holds_def)
  then have "m_dlen m' = m_dlen m - udd_left d"
    using udd_ops_dlen(1) [OF m'(1)] by blast
  then show ?thesis
    using m' assms us udd_ops_rx_frame(1) [OF m'(1)] by (auto simp: rxq_rep_def udd_pop_def)
qed

lemma rx_enqueue_rep:
  assumes "rxq_rep m xs us q" and "m_rxs m p = Some n" and "p \<notin> fst ` set xs"
  shows "\<exists>m'. rxq_enqueue_tail m p = Some m' \<and> rxq_rep m' (xs @ [(p, rxn_data n)]) us (rx_push_back (rxn_data n) q)"
    and "\<exists>m'. rxq_enqueue_head m p = Some m' \<and> rxq_rep m' ((p, rxn_data n) # xs) us (rx_push_front (rxn_data n) q)"
proof -
  have h: "rx.holds m xs"
    using assms(1) by (simp add: rxq_rep_def)
  obtain m1 where m1: "rxq_enqueue_tail m p = Some m1" "rx.holds m1 (xs @ [(p, rxn_data n)])"
    using rx.enq_tail_holds [OF h rx_view_Some [OF assms(2)] assms(3)] by blast
  then show "\<exists>m'. rxq_enqueue_tail m p = Some m' \<and> rxq_rep m' (xs @ [(p, rxn_data n)]) us (rx_push_back (rxn_data n) q)"
    using assms(1) rx_ops_dlen(3) [OF m1(1) rx_view_Some [OF assms(2)]] rx_ops_udd_frame(3) [OF m1(1)]
    by (simp add: rxq_rep_def rx_push_back_def)
  obtain m2 where m2: "rxq_enqueue_head m p = Some m2" "rx.holds m2 ((p, rxn_data n) # xs)"
    using rx.enq_head_holds [OF h rx_view_Some [OF assms(2)] assms(3)] by blast
  then show "\<exists>m'. rxq_enqueue_head m p = Some m' \<and> rxq_rep m' ((p, rxn_data n) # xs) us (rx_push_front (rxn_data n) q)"
    using assms(1) rx_ops_dlen(2) [OF m2(1) rx_view_Some [OF assms(2)]] rx_ops_udd_frame(2) [OF m2(1)]
    by (simp add: rxq_rep_def rx_push_front_def)
qed

lemma udd_enqueue_rep:
  assumes "rxq_rep m xs us q" and "m_udds m p = Some n" and "p \<notin> fst ` set us"
  shows "\<exists>m'. udd_enqueue_tail m p = Some m' \<and> rxq_rep m' xs (us @ [(p, udn_data n)]) (udd_push_back (udn_data n) q)"
    and "\<exists>m'. udd_enqueue_head m p = Some m' \<and> rxq_rep m' xs ((p, udn_data n) # us) (udd_push_front (udn_data n) q)"
proof -
  have h: "udd.holds m us"
    using assms(1) by (simp add: rxq_rep_def)
  obtain m1 where m1: "udd_enqueue_tail m p = Some m1" "udd.holds m1 (us @ [(p, udn_data n)])"
    using udd.enq_tail_holds [OF h udd_view_Some [OF assms(2)] assms(3)] by blast
  then show "\<exists>m'. udd_enqueue_tail m p = Some m' \<and> rxq_rep m' xs (us @ [(p, udn_data n)]) (udd_push_back (udn_data n) q)"
    using assms(1) udd_ops_dlen(3) [OF m1(1) udd_view_Some [OF assms(2)]] udd_ops_rx_frame(3) [OF m1(1)]
    by (simp add: rxq_rep_def udd_push_back_def)
  obtain m2 where m2: "udd_enqueue_head m p = Some m2" "udd.holds m2 ((p, udn_data n) # us)"
    using udd.enq_head_holds [OF h udd_view_Some [OF assms(2)] assms(3)] by blast
  then show "\<exists>m'. udd_enqueue_head m p = Some m' \<and> rxq_rep m' xs ((p, udn_data n) # us) (udd_push_front (udn_data n) q)"
    using assms(1) udd_ops_dlen(2) [OF m2(1) udd_view_Some [OF assms(2)]] udd_ops_rx_frame(2) [OF m2(1)]
    by (simp add: rxq_rep_def udd_push_front_def)
qed

text \<open>
  C24: The pointer functions of both receive lists implement the list operations: on a memory
  that holds two well-formed lists none of them touches a pointer to no node; dequeuing returns
  and removes the first node, enqueuing a node that is not yet in the list puts it at the tail
  or at the head; the byte count follows; the lists stay well formed (distinct nodes, tail
  pointer at the last one) and neither list's functions change the other list.
\<close>

theorem rxq_pointers_implement_lists:
  assumes "rxq_rep m xs us q"
  shows "(\<exists>m'. rxq_dequeue_head m = Some (map_option fst (if xs = [] then None else Some (hd xs)), m')
      \<and> rxq_rep m' (tl xs) us (snd (rx_pop q))
      \<and> fst (rx_pop q) = map_option snd (if xs = [] then None else Some (hd xs)))
    \<and> (m_rxs m p = Some n \<and> p \<notin> fst ` set xs \<longrightarrow>
      (\<exists>m'. rxq_enqueue_tail m p = Some m'
        \<and> rxq_rep m' (xs @ [(p, rxn_data n)]) us (rx_push_back (rxn_data n) q))
      \<and> (\<exists>m'. rxq_enqueue_head m p = Some m'
        \<and> rxq_rep m' ((p, rxn_data n) # xs) us (rx_push_front (rxn_data n) q)))
    \<and> (\<exists>m'. udd_dequeue_head m = Some (map_option fst (if us = [] then None else Some (hd us)), m')
      \<and> rxq_rep m' xs (tl us) (snd (udd_pop q))
      \<and> fst (udd_pop q) = map_option snd (if us = [] then None else Some (hd us)))
    \<and> (m_udds m r = Some u \<and> r \<notin> fst ` set us \<longrightarrow>
      (\<exists>m'. udd_enqueue_tail m r = Some m'
        \<and> rxq_rep m' xs (us @ [(r, udn_data u)]) (udd_push_back (udn_data u) q))
      \<and> (\<exists>m'. udd_enqueue_head m r = Some m'
        \<and> rxq_rep m' xs ((r, udn_data u) # us) (udd_push_front (udn_data u) q)))"
  using rx_dequeue_rep [OF assms] udd_dequeue_rep [OF assms] rx_enqueue_rep [OF assms]
    udd_enqueue_rep [OF assms] by blast

text \<open>A memory with one received page in the list and a second, free node of each kind.\<close>

definition sample_rx :: "u64 \<Rightarrow> u32 \<Rightarrow> st_rx_data" where
  "sample_rx pg len = \<lparr>rx_pg = Some pg, rx_offset = 0, rx_len = len, rx_udd_ref = False\<rparr>"

definition sample_udd :: st_c2h_wrb_udd where
  "sample_udd = \<lparr>udd_data = replicate 6 0, udd_len = 6, udd_offset = 0\<rparr>"

definition sample_rxq_mem :: rxq_mem where
  "sample_rxq_mem =
     \<lparr>m_rxs = [0 \<mapsto> \<lparr>rxn_data = sample_rx 0x1000 100, rxn_next = None\<rparr>,
               1 \<mapsto> \<lparr>rxn_data = sample_rx 0x2000 50, rxn_next = Some 0\<rparr>],
      m_udds = [7 \<mapsto> \<lparr>udn_data = sample_udd, udn_next = None\<rparr>], m_dlen = 100,
      m_udd_head = None, m_udd_tail = None, m_head = Some 0, m_tail = Some 0\<rparr>"

theorem rxq_pointers_implement_lists_witness:
  "\<exists>m'. rxq_enqueue_tail sample_rxq_mem 1 = Some m'
     \<and> rxq_rep m' [(0, sample_rx 0x1000 100), (1, sample_rx 0x2000 50)] []
         \<lparr>rxq_dlen = 150, rxq_udds = [], rxq_rxs = [sample_rx 0x1000 100, sample_rx 0x2000 50]\<rparr>"
proof -
  have "rxq_rep sample_rxq_mem [(0, sample_rx 0x1000 100)] []
      \<lparr>rxq_dlen = 100, rxq_udds = [], rxq_rxs = [sample_rx 0x1000 100]\<rparr>"
    by (simp add: rxq_rep_def rx.holds_def udd.holds_def rx_view_def udd_view_def sample_rxq_mem_def)
  from rxq_pointers_implement_lists [OF this, of 1 "\<lparr>rxn_data = sample_rx 0x2000 50, rxn_next = Some 0\<rparr>"]
  show ?thesis
    by (simp add: sample_rxq_mem_def rx_push_back_def rx_left_def) (simp add: sample_rx_def)
qed

end
