(* ===== verification/Qdma_Rxq_Read.thy ===== *)
theory Qdma_Rxq_Read
  imports Qdma_Rxq
begin

text \<open>
  Copying received data to the reader (\<open>qdma_descq_rxq_read\<close> of \<open>libqdma/qdma_descq.c\<close>).
  \<open>page p i\<close> is byte \<open>i\<close> of the page at \<open>p\<close>, as the device has written it; the scatter-gather
  list of the reader is the list of the lengths of its entries, and the result gives the bytes
  written to each of them, in order, from its start.
\<close>

section \<open>Reading\<close>

definition read_udd ::
  "st_rx_data \<Rightarrow> u32 \<Rightarrow> st_rx_queue \<Rightarrow> u8 list
     \<Rightarrow> (st_c2h_wrb_udd option \<times> st_rx_queue \<times> u32 \<times> u8 list) res" where
  "read_udd rx len q out =
     (case udd_pop q of
        (None, q) \<Rightarrow> Inr (None, q, len, out)
      | (Some udd, q) \<Rightarrow>
          let udd_cpy = min len (udd_left udd) in
          if unat (rx_offset rx) + unat udd_cpy > length (udd_data udd) then Inl OOPS
          else let out = out @ take (unat udd_cpy) (drop (unat (rx_offset rx)) (udd_data udd));
                   len = len - udd_cpy;
                   udd = udd\<lparr>udd_offset := udd_offset udd + ucast udd_cpy\<rparr>
               in if udd_offset udd = udd_len udd then Inr (None, q, len, out)
                  else Inr (Some udd, udd_push_front udd q, len, out))"

definition read_page ::
  "(u64 \<Rightarrow> nat \<Rightarrow> u8) \<Rightarrow> st_rx_data \<Rightarrow> u32 \<Rightarrow> (st_rx_data \<times> u32 \<times> u8 list) res" where
  "read_page page rx len =
     (case rx_pg rx of
        None \<Rightarrow> Inl OOPS
      | Some pg \<Rightarrow>
          let copy = min len (rx_left rx) in
          Inr (rx\<lparr>rx_offset := rx_offset rx + copy\<rparr>, copy,
               map (\<lambda>i. page pg (unat (rx_offset rx) + i)) [0..<unat copy]))"

lemma read_udd_len:
  "read_udd rx len q out = Inr (udd', q1, len1, out1) \<Longrightarrow> unat len1 \<le> unat len \<and> rxq_rxs q1 = rxq_rxs q"
  by (auto simp: read_udd_def udd_pop_def udd_push_front_def Let_def unat_sub_le
      split: list.splits if_splits)

lemma read_page_len:
  assumes "read_page page r len = Inr (r', copy, bytes)"
  shows "copy = min len (rx_left r)" "r' = r\<lparr>rx_offset := rx_offset r + copy\<rparr>"
    "unat (len - copy) = unat len - unat copy" "copy \<le> len"
    "rx_offset r' \<noteq> rx_len r' \<Longrightarrow> len = 0 \<or> 0 < unat copy"
  using assms
  by (auto simp: read_page_def rx_left_def Let_def unat_sub_le min_def unat_gt_0 split: option.splits if_splits)

text \<open>
  The inner loop, on one entry of the reader's list. Without a received page the code reads
  through the NULL pointer \<open>rx\<close>.
\<close>

function rxq_read_sg ::
  "'e env \<Rightarrow> (u64 \<Rightarrow> nat \<Rightarrow> u8) \<Rightarrow> u32 \<Rightarrow> st_rx_data option \<Rightarrow> st_c2h_wrb_udd option \<Rightarrow> st_rx_queue
     \<Rightarrow> u8 list \<Rightarrow> 'e
     \<Rightarrow> (st_rx_data option \<times> st_c2h_wrb_udd option \<times> st_rx_queue \<times> u8 list) res \<times> 'e" where
  "rxq_read_sg E page len rx udd q out e =
     (if len = 0 then (Inr (rx, udd, q, out), e)
      else case rx of
        None \<Rightarrow> (if udd = None then Inr (rx, udd, q, out) else Inl OOPS, e)
      | Some r \<Rightarrow>
          (case (if rx_udd_ref r \<and> rx_offset r = 0 \<or> udd \<noteq> None then read_udd r len q out
                 else Inr (udd, q, len, out)) of
             Inl err \<Rightarrow> (Inl err, e)
           | Inr (udd', q1, len1, out1) \<Rightarrow>
               (case read_page page r len1 of
                  Inl err \<Rightarrow> (Inl err, e)
                | Inr (r', copy, bytes) \<Rightarrow>
                    if rx_offset r' = rx_len r' then
                      rxq_read_sg E page (len1 - copy) (fst (rx_pop q1)) udd' (snd (rx_pop q1))
                        (out1 @ bytes) (env_free_page E (the (rx_pg r')) e)
                    else rxq_read_sg E page (len1 - copy) (Some r') udd' q1 (out1 @ bytes) e)))"
  by pat_completeness auto

termination
proof (relation "measure (\<lambda>(E, page, len, rx, udd, q, out, e).
    unat len + length (rxq_rxs q) + (if rx = None then 0 else 1))", goal_cases)
  case 1
  then show ?case by simp
next
  case (2 E page len rx udd q out e r a udd' b q1 c len1 out1 d r' f copy bytes)
  then have "unat len1 \<le> unat len" "rxq_rxs q1 = rxq_rxs q"
    using read_udd_len by (auto split: if_splits)
  moreover have "unat (len1 - copy) \<le> unat len1"
    using 2 read_page_len(3) [of page r len1 r' copy bytes] by simp
  ultimately show ?case
    using 2 by (auto simp: rx_pop_def split: list.splits)
next
  case (3 E page len rx udd q out e r a udd' b q1 c len1 out1 d r' f copy bytes)
  then have "unat len1 \<le> unat len" "rxq_rxs q1 = rxq_rxs q"
    using read_udd_len by (auto split: if_splits)
  moreover have "unat (len1 - copy) < unat len"
  proof -
    have rd: "read_page page r len1 = Inr (r', copy, bytes)" and "rx_offset r' \<noteq> rx_len r'" "0 < unat len"
      using 3 by (auto simp: unat_gt_0)
    then have "len1 = 0 \<or> 0 < unat copy" "unat copy \<le> unat len1"
      using read_page_len(4,5) [OF rd] by (auto simp: word_le_nat_alt)
    then show ?thesis
      using read_page_len(3) [OF rd] \<open>unat len1 \<le> unat len\<close> \<open>0 < unat len\<close> by auto
  qed
  ultimately show ?case
    using 3 by auto
qed

declare rxq_read_sg.simps [simp del]

fun rxq_read_sgs ::
  "'e env \<Rightarrow> (u64 \<Rightarrow> nat \<Rightarrow> u8) \<Rightarrow> u32 list \<Rightarrow> st_rx_data option \<Rightarrow> st_c2h_wrb_udd option \<Rightarrow> st_rx_queue
     \<Rightarrow> 'e \<Rightarrow> (st_rx_data option \<times> st_c2h_wrb_udd option \<times> st_rx_queue \<times> u8 list list) res \<times> 'e" where
  "rxq_read_sgs E page [] rx udd q e = (Inr (rx, udd, q, []), e)"
| "rxq_read_sgs E page (len # lens) rx udd q e =
     (case rxq_read_sg E page len rx udd q [] e of
        (Inl err, e1) \<Rightarrow> (Inl err, e1)
      | (Inr (rx1, udd1, q1, out), e1) \<Rightarrow>
          if rx1 = None \<and> udd1 = None then (Inr (rx1, udd1, q1, [out]), e1)
          else (case rxq_read_sgs E page lens rx1 udd1 q1 e1 of
                  (Inl err, e2) \<Rightarrow> (Inl err, e2)
                | (Inr (rx2, udd2, q2, outs), e2) \<Rightarrow> (Inr (rx2, udd2, q2, out # outs), e2)))"

text \<open>
  The result: the number of bytes copied and what went to each entry, whether the lock of the
  receive queue is still held on return, the queue and the environment. The parameter \<open>count\<close>
  of the C function is not used by it.
\<close>

definition qdma_descq_rxq_read ::
  "'e env \<Rightarrow> (u64 \<Rightarrow> nat \<Rightarrow> u8) \<Rightarrow> qdma_descq \<Rightarrow> u32 list \<Rightarrow> 'e
     \<Rightarrow> (u32 \<times> u8 list list) res \<times> bool \<times> qdma_descq \<times> 'e" where
  "qdma_descq_rxq_read E page descq sgl e =
     (let (rx, q) = rx_pop (q_rx_queue descq);
          no_data = (rx = None \<and> q_st_c2h_wrb_udd_en descq);
          (udd, q) = (if no_data then udd_pop q else (None, q))
      in if no_data \<and> udd = None then (Inr (0, []), True, descq\<lparr>q_rx_queue := q\<rparr>, e)
         else case rxq_read_sgs E page sgl rx udd q e of
                (Inl err, e1) \<Rightarrow> (Inl err, True, descq, e1)
              | (Inr (rx1, udd1, q1, outs), e1) \<Rightarrow>
                  let q2 = (case rx1 of
                              Some r \<Rightarrow> if rx_offset r < rx_len r then rx_push_front r q1 else q1
                            | None \<Rightarrow> q1)
                  in (Inr (of_nat (length (concat outs)), outs), False, descq\<lparr>q_rx_queue := q2\<rparr>, e1))"

section \<open>The queue is a byte stream\<close>

text \<open>
  What waits in the queue, as bytes in order of arrival. \<open>rxq_plain\<close>: pages with data left, no
  user defined data, and the byte count is that of the pages.
\<close>

definition rx_bytes :: "(u64 \<Rightarrow> nat \<Rightarrow> u8) \<Rightarrow> st_rx_data \<Rightarrow> u8 list" where
  "rx_bytes page r = map (\<lambda>i. page (the (rx_pg r)) (unat (rx_offset r) + i)) [0..<unat (rx_left r)]"

definition rx_stream :: "(u64 \<Rightarrow> nat \<Rightarrow> u8) \<Rightarrow> st_rx_queue \<Rightarrow> u8 list" where
  "rx_stream page q = concat (map (rx_bytes page) (rxq_rxs q))"

definition rx_plain :: "st_rx_data \<Rightarrow> bool" where
  "rx_plain r \<longleftrightarrow> rx_pg r \<noteq> None \<and> rx_offset r < rx_len r \<and> \<not> rx_udd_ref r"

definition rxq_plain :: "st_rx_queue \<Rightarrow> bool" where
  "rxq_plain q \<longleftrightarrow> rxq_udds q = [] \<and> list_all rx_plain (rxq_rxs q)
     \<and> rxq_dlen q = sum_list (map rx_left (rxq_rxs q))"

definition opt_bytes :: "(u64 \<Rightarrow> nat \<Rightarrow> u8) \<Rightarrow> st_rx_data option \<Rightarrow> u8 list" where
  "opt_bytes page rx = (case rx of None \<Rightarrow> [] | Some r \<Rightarrow> rx_bytes page r)"

lemma length_rx_bytes [simp]: "length (rx_bytes page r) = unat (rx_left r)"
  by (simp add: rx_bytes_def)

lemma unat_rx_left: "rx_offset r \<le> rx_len r \<Longrightarrow> unat (rx_left r) = unat (rx_len r) - unat (rx_offset r)"
  by (simp add: rx_left_def unat_sub_le)

lemma read_page_plain:
  assumes "rx_plain r" and rd: "read_page page r len = Inr (r', copy, bytes)"
  shows "bytes = take (unat len) (rx_bytes page r)"
    and "rx_offset r' \<noteq> rx_len r' \<Longrightarrow> rx_plain r' \<and> copy = len
           \<and> rx_bytes page r' = drop (unat len) (rx_bytes page r) \<and> unat len < unat (rx_left r)"
    and "rx_offset r' = rx_len r' \<Longrightarrow> unat (rx_left r) \<le> unat len \<and> copy = rx_left r"
proof -
  obtain pg where pg: "rx_pg r = Some pg" and lt: "rx_offset r < rx_len r" and ref: "\<not> rx_udd_ref r"
    using assms(1) by (auto simp: rx_plain_def)
  have left: "unat (rx_left r) = unat (rx_len r) - unat (rx_offset r)"
    using lt by (simp add: unat_rx_left)
  have copy: "copy = min len (rx_left r)" and r': "r' = r\<lparr>rx_offset := rx_offset r + copy\<rparr>"
    using read_page_len(1,2) [OF rd] .
  have ucopy: "unat copy = min (unat len) (unat (rx_left r))"
    by (simp add: copy min_def word_le_nat_alt)
  have "unat (rx_offset r) + unat copy < 2 ^ 32"
    using ucopy left lt unat_lt_u32 [of "rx_len r"] by (auto simp: word_less_nat_alt)
  then have off': "unat (rx_offset r') = unat (rx_offset r) + unat copy"
    by (simp add: r' unat_add_small)
  have bytes: "bytes = map (\<lambda>i. page pg (unat (rx_offset r) + i)) [0..<unat copy]"
    using rd pg by (simp add: read_page_def copy Let_def)
  show "bytes = take (unat len) (rx_bytes page r)"
    by (cases "unat len \<le> unat (rx_left r)") (simp_all add: bytes rx_bytes_def pg take_map take_upt ucopy)
  have full: "rx_offset r' = rx_len r' \<longleftrightarrow> unat (rx_left r) \<le> unat len"
  proof -
    have "rx_offset r' = rx_len r' \<longleftrightarrow> unat (rx_offset r) + unat copy = unat (rx_len r)"
      using off' by (simp add: r' word_unat_eq_iff)
    also have "\<dots> \<longleftrightarrow> unat (rx_left r) \<le> unat len"
      using left lt ucopy by (auto simp: word_less_nat_alt)
    finally show ?thesis .
  qed
  show "unat (rx_left r) \<le> unat len \<and> copy = rx_left r" if "rx_offset r' = rx_len r'"
    using that full copy by (simp add: min_def word_le_nat_alt word_unat_eq_iff)
  show "rx_plain r' \<and> copy = len \<and> rx_bytes page r' = drop (unat len) (rx_bytes page r)
      \<and> unat len < unat (rx_left r)" if ne: "rx_offset r' \<noteq> rx_len r'"
  proof -
    have less: "unat len < unat (rx_left r)"
      using ne full by simp
    then have cl: "copy = len"
      using copy by (simp add: min_def word_le_nat_alt)
    have lt': "rx_offset r' < rx_len r'"
      using off' less left cl by (simp add: r' word_less_nat_alt)
    have "unat (rx_left r') = unat (rx_left r) - unat len"
      using lt' off' left cl by (simp add: unat_rx_left r')
    then have "rx_bytes page r' = drop (unat len) (rx_bytes page r)"
    proof (intro nth_equalityI)
      fix i assume "i < length (rx_bytes page r')"
      then have "i + unat len < unat (rx_left r)" "i < unat (rx_left r')"
        using \<open>unat (rx_left r') = unat (rx_left r) - unat len\<close> by simp_all
      then show "rx_bytes page r' ! i = drop (unat len) (rx_bytes page r) ! i"
        using off' cl less by (simp add: rx_bytes_def r' pg add_ac)
    qed simp
    then show ?thesis
      using lt' less cl pg ref by (simp add: rx_plain_def r')
  qed
qed

lemma rxq_plain_pop:
  assumes "rxq_plain q"
  shows "rxq_plain (snd (rx_pop q))"
    and "opt_bytes page (fst (rx_pop q)) @ rx_stream page (snd (rx_pop q)) = rx_stream page q"
    and "pred_option rx_plain (fst (rx_pop q))"
    and "fst (rx_pop q) = None \<Longrightarrow> rxq_rxs (snd (rx_pop q)) = []"
  using assms
  by (auto simp: rx_pop_def rxq_plain_def rx_stream_def opt_bytes_def split: list.splits)

lemma rxq_read_sg_stop:
  "len = 0 \<or> rx = None \<Longrightarrow> rxq_read_sg E page len rx None q out e = (Inr (rx, None, q, out), e)"
  by (subst rxq_read_sg.simps) auto

lemma rxq_read_sg_page:
  assumes "rx_plain r" and "len \<noteq> 0" and "read_page page r len = Inr (r', copy, bytes)"
  shows "rxq_read_sg E page len (Some r) None q out e =
    (if rx_offset r' = rx_len r'
     then rxq_read_sg E page (len - copy) (fst (rx_pop q)) None (snd (rx_pop q)) (out @ bytes)
            (env_free_page E (the (rx_pg r')) e)
     else (Inr (Some r', None, q, out @ bytes), e))"
proof -
  have "len - copy = 0" if "rx_offset r' \<noteq> rx_len r'"
    using read_page_plain(2) [OF assms(1,3) that] by simp
  then show ?thesis
    using assms by (subst rxq_read_sg.simps) (auto simp: rx_plain_def rxq_read_sg_stop)
qed

definition stream_read ::
  "(u64 \<Rightarrow> nat \<Rightarrow> u8) \<Rightarrow> nat \<Rightarrow> st_rx_data option \<Rightarrow> st_rx_queue \<Rightarrow> u8 list \<Rightarrow> st_rx_data option \<Rightarrow> st_rx_queue \<Rightarrow> bool"
  where
  "stream_read page n rx q out rx' q' \<longleftrightarrow>
     out = take n (opt_bytes page rx @ rx_stream page q)
     \<and> opt_bytes page rx' @ rx_stream page q' = drop n (opt_bytes page rx @ rx_stream page q)
     \<and> rxq_plain q' \<and> pred_option rx_plain rx' \<and> (rx' = None \<longrightarrow> rxq_rxs q' = [])"

lemma rxq_read_sg_stream:
  assumes "rxq_plain q" and "pred_option rx_plain rx" and "rx = None \<Longrightarrow> rxq_rxs q = []"
  shows "\<exists>rx' q' bytes e'. rxq_read_sg E page len rx None q out e = (Inr (rx', None, q', out @ bytes), e')
    \<and> stream_read page (unat len) rx q bytes rx' q'"
  using assms
proof (induction "length (rxq_rxs q)" arbitrary: q rx len out e rule: less_induct)
  case less
  show ?case
  proof (cases "len = 0 \<or> rx = None")
    case True
    then have "stream_read page (unat len) rx q [] rx q"
      using less.prems by (auto simp: stream_read_def opt_bytes_def rx_stream_def)
    then show ?thesis
      using rxq_read_sg_stop [OF True, of E page q out e] by fastforce
  next
    case False
    then obtain r where r: "rx = Some r" "rx_plain r" "len \<noteq> 0"
      using less.prems(2) by auto
    obtain r' copy bytes where rd: "read_page page r len = Inr (r', copy, bytes)"
      using r(2) by (auto simp: read_page_def rx_plain_def Let_def)
    note bytes = read_page_plain(1) [OF r(2) rd]
    show ?thesis
    proof (cases "rx_offset r' = rx_len r'")
      case False
      then show ?thesis
        using read_page_plain(2) [OF r(2) rd False] rxq_read_sg_page [OF r(2,3) rd, of E q out e] less.prems r(1) bytes
        by (auto simp: stream_read_def opt_bytes_def)
    next
      case True
      then have full: "unat (rx_left r) \<le> unat len" "copy = rx_left r" "bytes = rx_bytes page r"
        using read_page_plain(3) [OF r(2) rd True] bytes by simp_all
      then have left: "unat (len - copy) = unat len - unat (rx_left r)"
        using read_page_len(3) [OF rd] by simp
      let ?rx = "fst (rx_pop q)" and ?q = "snd (rx_pop q)" and ?e = "env_free_page E (the (rx_pg r')) e"
      note pop = rxq_plain_pop [OF less.prems(1)]
      have "\<exists>rx' q' bs e'. rxq_read_sg E page (len - copy) ?rx None ?q (out @ bytes) ?e
          = (Inr (rx', None, q', (out @ bytes) @ bs), e')
        \<and> stream_read page (unat (len - copy)) ?rx ?q bs rx' q'"
      proof (cases "rxq_rxs q")
        case Nil
        then have "?rx = None" "?q = q"
          by (simp_all add: rx_pop_def)
        then show ?thesis
          using Nil less.prems(1) rxq_read_sg_stop [of "len - copy" None E page q "out @ bytes" ?e]
          by (simp add: stream_read_def opt_bytes_def rx_stream_def)
      next
        case (Cons x xs)
        then show ?thesis
          using pop by (intro less.hyps) (simp_all add: rx_pop_def)
      qed
      then obtain rx' q' bs e' where rest: "rxq_read_sg E page (len - copy) ?rx None ?q (out @ bytes) ?e
          = (Inr (rx', None, q', (out @ bytes) @ bs), e')"
        and sr: "stream_read page (unat (len - copy)) ?rx ?q bs rx' q'"
        by blast
      have "stream_read page (unat len) rx q (bytes @ bs) rx' q'"
        using sr full pop(2) [of page] left by (simp add: stream_read_def r(1) opt_bytes_def [of page "Some r"])
      then show ?thesis
        using rxq_read_sg_page [OF r(2,3) rd, of E q out e] rest True r(1) by auto
    qed
  qed
qed

lemma stream_read_trans:
  assumes "stream_read page m rx q out rx1 q1" and "stream_read page n rx1 q1 out1 rx2 q2"
  shows "stream_read page (m + n) rx q (out @ out1) rx2 q2"
  using assms by (auto simp: stream_read_def take_add add.commute simp del: take_append drop_append)

lemma rxq_read_sgs_stream:
  assumes "rxq_plain q" and "pred_option rx_plain rx" and "rx = None \<Longrightarrow> rxq_rxs q = []"
  shows "\<exists>rx' q' outs e'. rxq_read_sgs E page lens rx None q e = (Inr (rx', None, q', outs), e')
    \<and> stream_read page (sum_list (map unat lens)) rx q (concat outs) rx' q'"
  using assms
proof (induction lens arbitrary: rx q e)
  case Nil
  then show ?case
    by (auto simp: stream_read_def opt_bytes_def rx_stream_def)
next
  case (Cons len lens)
  obtain rx1 q1 out e1 where sg: "rxq_read_sg E page len rx None q [] e = (Inr (rx1, None, q1, out), e1)"
    and sr: "stream_read page (unat len) rx q out rx1 q1"
    using rxq_read_sg_stream [OF Cons.prems, of E page len "[]" e] by auto
  show ?case
  proof (cases rx1)
    case None
    then have "stream_read page (unat len + sum_list (map unat lens)) rx q out rx1 q1"
      using sr by (auto simp: stream_read_def opt_bytes_def rx_stream_def)
    then show ?thesis
      using sg None by fastforce
  next
    case (Some r)
    obtain rx2 q2 outs e2 where rest: "rxq_read_sgs E page lens rx1 None q1 e1 = (Inr (rx2, None, q2, outs), e2)"
      and sr2: "stream_read page (sum_list (map unat lens)) rx1 q1 (concat outs) rx2 q2"
      using Cons.IH [of q1 rx1 e1] sr Some by (auto simp: stream_read_def)
    have "stream_read page (unat len + sum_list (map unat lens)) rx q (out @ concat outs) rx2 q2"
      using stream_read_trans [OF sr sr2] .
    then show ?thesis
      using sg rest Some by auto
  qed
qed

lemma rxq_plain_put_back:
  assumes "rxq_plain q" and "pred_option rx_plain rx"
  defines "q' \<equiv> (case rx of Some r \<Rightarrow> if rx_offset r < rx_len r then rx_push_front r q else q | None \<Rightarrow> q)"
  shows "rxq_plain q'" and "rx_stream page q' = opt_bytes page rx @ rx_stream page q"
  using assms
  by (auto simp: rxq_plain_def rx_plain_def rx_push_front_def rx_stream_def opt_bytes_def add.commute
      split: option.splits)

text \<open>
  C20: Reading from a receive queue in which no user defined data waits delivers a byte stream. The
  reader gets, in order, as many of the waiting bytes as its entries have room for, each byte
  once; the number returned is their count; what remains in the queue is exactly the rest of
  the stream, with its byte count right. The call always returns. It releases the lock of the
  queue, with one exception: if nothing waits at all and user defined data is enabled for the queue, it
  returns 0 with the lock still held. (The second component of the result says whether the lock is held.)
\<close>

theorem rxq_read_stream:
  assumes "rxq_plain (q_rx_queue descq)"
    and "n = min (sum_list (map unat sgl)) (length (rx_stream page (q_rx_queue descq)))"
  shows "\<exists>outs q' e'. qdma_descq_rxq_read E page descq sgl e =
      (Inr (of_nat n, outs), rxq_rxs (q_rx_queue descq) = [] \<and> q_st_c2h_wrb_udd_en descq, descq\<lparr>q_rx_queue := q'\<rparr>, e')
    \<and> concat outs = take n (rx_stream page (q_rx_queue descq))
    \<and> rx_stream page q' = drop n (rx_stream page (q_rx_queue descq))
    \<and> rxq_plain q'"
proof (cases "rxq_rxs (q_rx_queue descq) = [] \<and> q_st_c2h_wrb_udd_en descq")
  case True
  then show ?thesis
    using assms by (intro exI [of _ "[]"] exI [of _ "q_rx_queue descq"] exI [of _ e])
      (simp add: qdma_descq_rxq_read_def Let_def rx_pop_def udd_pop_def rxq_plain_def rx_stream_def)
next
  case False
  let ?q = "q_rx_queue descq" and ?m = "sum_list (map unat sgl)"
  note pop = rxq_plain_pop [OF assms(1)]
  obtain rx' q' outs e' where
    run: "rxq_read_sgs E page sgl (fst (rx_pop ?q)) None (snd (rx_pop ?q)) e = (Inr (rx', None, q', outs), e')"
    and sr: "stream_read page ?m (fst (rx_pop ?q)) (snd (rx_pop ?q)) (concat outs) rx' q'"
    using rxq_read_sgs_stream [OF pop(1,3), of E page sgl e] pop(4) by blast
  let ?q' = "case rx' of Some r \<Rightarrow> if rx_offset r < rx_len r then rx_push_front r q' else q' | None \<Rightarrow> q'"
  have out: "concat outs = take ?m (rx_stream page ?q)" "rxq_plain ?q'"
    "rx_stream page ?q' = drop ?m (rx_stream page ?q)"
    using sr pop(2) [of page] rxq_plain_put_back [of q' rx'] by (simp_all add: stream_read_def)
  have n: "take ?m (rx_stream page ?q) = take n (rx_stream page ?q)"
    "drop ?m (rx_stream page ?q) = drop n (rx_stream page ?q)" "length (concat outs) = n"
    using assms(2) out(1) by (simp_all add: min_def)
  have data: "\<not> (fst (rx_pop ?q) = None \<and> q_st_c2h_wrb_udd_en descq)"
    using False by (auto simp: rx_pop_def split: list.splits)
  have "qdma_descq_rxq_read E page descq sgl e =
      (Inr (of_nat (length (concat outs)), outs), False, descq\<lparr>q_rx_queue := ?q'\<rparr>, e')"
    using run data by (cases rx'; cases "fst (rx_pop ?q)") (simp_all add: qdma_descq_rxq_read_def Let_def case_prod_beta)
  then show ?thesis
    using out n False by auto
qed

text \<open>
  With user defined data enabled, two situations without received pages go wrong. If only
  user defined data waits, the first copy reads through the NULL page pointer. If nothing at all
  waits, the call returns 0 with the lock of the receive queue still held.
\<close>

lemma rxq_read_no_data:
  assumes "rxq_rxs (q_rx_queue descq) = []" and "q_st_c2h_wrb_udd_en descq" and "len \<noteq> 0"
  shows "fst (qdma_descq_rxq_read E page descq (len # lens) e) =
      (if rxq_udds (q_rx_queue descq) = [] then Inr (0, []) else Inl OOPS)
    \<and> (rxq_udds (q_rx_queue descq) = [] \<longrightarrow>
      fst (snd (qdma_descq_rxq_read E page descq (len # lens) e)) = True)"
  using assms
  by (auto simp: qdma_descq_rxq_read_def Let_def rx_pop_def udd_pop_def rxq_read_sg.simps [of _ _ _ None "Some _"]
      split: list.splits)

section \<open>Concrete runs\<close>

definition sample_rxq :: st_rx_queue where
  "sample_rxq = \<lparr>rxq_dlen = 5, rxq_udds = [], rxq_rxs = [sample_rx 0x1000 3, sample_rx 0x2000 2]\<rparr>"

theorem rxq_read_stream_witness:
  "\<exists>outs q' e'. qdma_descq_rxq_read ram_env (\<lambda>p i. of_nat i) (sample_mm\<lparr>q_rx_queue := sample_rxq\<rparr>) [1, 3] (\<lambda>_. 0) =
     (Inr (4, outs), False, sample_mm\<lparr>q_rx_queue := q'\<rparr>, e')
   \<and> concat outs = [0, 1, 2, 0] \<and> rx_stream (\<lambda>p i. of_nat i) q' = [1]"
proof -
  have "rx_stream (\<lambda>p i. of_nat i) sample_rxq = [0, 1, 2, 0, 1]"
    by (simp add: rx_stream_def sample_rxq_def rx_bytes_def sample_rx_def rx_left_def upt_rec)
  moreover have "rxq_plain sample_rxq"
    by (simp add: rxq_plain_def sample_rxq_def rx_plain_def sample_rx_def rx_left_def)
  moreover have "\<not> q_st_c2h_wrb_udd_en (sample_mm\<lparr>q_rx_queue := sample_rxq\<rparr>)"
    by (simp add: sample_simps)
  ultimately show ?thesis
    using rxq_read_stream [of "sample_mm\<lparr>q_rx_queue := sample_rxq\<rparr>" 4 "[1, 3]" "\<lambda>p i. of_nat i" ram_env "\<lambda>_. 0"]
    by fastforce
qed

lemma rxq_read_no_data_witness:
  "fst (qdma_descq_rxq_read ram_env (\<lambda>p i. 0) (sample_mm\<lparr>q_rx_queue := \<lparr>rxq_dlen = 6,
      rxq_udds = [sample_udd], rxq_rxs = []\<rparr>, q_st_c2h_wrb_udd_en := True\<rparr>) [1] (\<lambda>_. 0)) = Inl OOPS"
  using rxq_read_no_data [of "sample_mm\<lparr>q_rx_queue := \<lparr>rxq_dlen = 6, rxq_udds = [sample_udd],
    rxq_rxs = []\<rparr>, q_st_c2h_wrb_udd_en := True\<rparr>" 1 ram_env "\<lambda>p i. 0" "[]" "\<lambda>_. 0"] by simp

end
