(* ===== verification/Qdma_Rx.thy ===== *)
theory Qdma_Rx
  imports Qdma_Writeback Qdma_Rxq_Read
begin

text \<open>
  The receive side of a streaming card-to-host queue (\<open>libqdma/qdma_descq.c\<close>): the list of
  free pages behind the descriptor ring, the processing of completion entries, and the
  completion of waiting read requests.
\<close>

section \<open>Free list\<close>

definition fl_refill_entry :: "'e env \<Rightarrow> fl_desc \<Rightarrow> 'e \<Rightarrow> unit res \<times> fl_desc \<times> 'e" where
  "fl_refill_entry E fl e =
     (let (fl, e) = (if fl_pg fl \<noteq> None
                     then (fl\<lparr>fl_pg := None, fl_dma_addr := 0\<rparr>, env_dma_unmap_page E (fl_dma_addr fl) e)
                     else (fl, e))
      in case env_alloc_page E e of
           (None, e) \<Rightarrow> (Inl ENOMEM, fl, e)
         | (Some pg, e) \<Rightarrow>
             (case env_dma_map_page E pg e of
                (None, e) \<Rightarrow> (Inl ENOMEM, fl, env_free_page E pg e)
              | (Some mapping, e) \<Rightarrow> (Inr (), fl\<lparr>fl_pg := Some pg, fl_dma_addr := mapping\<rparr>, e)))"

fun fl_free_entries :: "'e env \<Rightarrow> fl_desc list \<Rightarrow> 'e \<Rightarrow> 'e" where
  "fl_free_entries E [] e = e"
| "fl_free_entries E (fl # fls) e =
     (case fl_pg fl of
        None \<Rightarrow> e
      | Some pg \<Rightarrow> fl_free_entries E fls (env_free_page E pg (env_dma_unmap_page E (fl_dma_addr fl) e)))"

definition fl_free :: "'e env \<Rightarrow> qdma_descq \<Rightarrow> 'e \<Rightarrow> qdma_descq \<times> 'e" where
  "fl_free E descq e =
     (case q_st_rx_fl descq of
        None \<Rightarrow> (descq, e)
      | Some fls \<Rightarrow>
          (descq\<lparr>q_st_rx_fl := None\<rparr>, fl_free_entries E (take (unat (qc_rngsz (q_conf descq))) fls) e))"

fun fl_fill_entries :: "'e env \<Rightarrow> fl_desc list \<Rightarrow> 'e \<Rightarrow> unit res \<times> fl_desc list \<times> 'e" where
  "fl_fill_entries E [] e = (Inr (), [], e)"
| "fl_fill_entries E (fl # fls) e =
     (case fl_refill_entry E (fl\<lparr>fl_pg := None\<rparr>) e of
        (Inl err, fl1, e1) \<Rightarrow> (Inl err, fl1 # fls, e1)
      | (Inr _, fl1, e1) \<Rightarrow>
          (case fl_fill_entries E fls e1 of (rv, fls1, e2) \<Rightarrow> (rv, fl1 # fls1, e2)))"

definition zero_fl :: fl_desc where
  "zero_fl = \<lparr>fl_pg = None, fl_dma_addr = 0, fl_len = 0\<rparr>"

definition fl_fill :: "'e env \<Rightarrow> qdma_descq \<Rightarrow> 'e \<Rightarrow> unit res \<times> qdma_descq \<times> 'e" where
  "fl_fill E descq e =
     (let rngsz = unat (qc_rngsz (q_conf descq)) in
      case env_kmalloc E (rngsz * 24) e of
        (False, e) \<Rightarrow> (Inl ENOMEM, descq, e)
      | (True, e) \<Rightarrow>
          (case fl_fill_entries E (replicate rngsz zero_fl) e of
             (Inl _, fls, e) \<Rightarrow>
               (case fl_free E (descq\<lparr>q_st_rx_fl := Some fls\<rparr>) e of (descq, e) \<Rightarrow> (Inl ENOMEM, descq, e))
           | (Inr _, fls, e) \<Rightarrow> (Inr (), descq\<lparr>q_st_rx_fl := Some fls\<rparr>, e)))"

section \<open>Completion entries\<close>

definition wrb_next :: "qdma_descq \<Rightarrow> qdma_descq" where
  "wrb_next descq =
     (let descq = descq\<lparr>q_desc_wrb_cur := q_desc_wrb_cur descq + 1, q_cidx_wrb := q_cidx_wrb descq + 1\<rparr>
      in if q_cidx_wrb descq = q_rngsz_wrb descq
         then descq\<lparr>q_cidx_wrb := 0, q_desc_wrb_cur := 0\<rparr> else descq)"

text \<open>
  The rx handler of the driver, which is called with one page at a time. (Its loop would
  enqueue the same node again for a larger count.)
\<close>

definition descq_st_c2h_rx_data ::
  "'e env \<Rightarrow> qdma_descq \<Rightarrow> fl_desc \<Rightarrow> bool \<Rightarrow> 'e \<Rightarrow> unit res \<times> qdma_descq \<times> 'e" where
  "descq_st_c2h_rx_data E descq fl udd_ref e =
     (case env_kmalloc E 40 e of
        (False, e) \<Rightarrow> (Inl ENOMEM, descq, e)
      | (True, e) \<Rightarrow>
          (Inr (), descq\<lparr>q_rx_queue := rx_push_back
             \<lparr>rx_pg = fl_pg fl, rx_offset = 0, rx_len = fl_len fl, rx_udd_ref = udd_ref\<rparr>
             (q_rx_queue descq)\<rparr>, e))"

fun check_rx_loop :: "u32 \<Rightarrow> qdma_descq \<Rightarrow> qdma_sg_req list \<Rightarrow> qdma_descq" where
  "check_rx_loop dlen descq [] = descq"
| "check_rx_loop dlen descq (cb # cbs) =
     (if dlen < cb_offset cb then descq
      else check_rx_loop (dlen - cb_offset cb) (qdma_sgt_req_done descq cb None) cbs)"

definition check_rx_request_completed :: "qdma_descq \<Rightarrow> qdma_descq" where
  "check_rx_request_completed descq =
     check_rx_loop (rxq_dlen (q_rx_queue descq)) descq (q_pend_list descq)"

definition S_C2H_WB_ENTRY_LENGTH :: nat where
  [simp]: "S_C2H_WB_ENTRY_LENGTH = 4"

definition M_C2H_WB_ENTRY_LENGTH :: u64 where
  [simp]: "M_C2H_WB_ENTRY_LENGTH = 0xFFFF"

definition S_C2H_WB_ENTRY_F_DESC_ERR :: nat where
  [simp]: "S_C2H_WB_ENTRY_F_DESC_ERR = 2"

definition L_C2H_WB_ENTRY_DMA_INFO :: nat where
  [simp]: "L_C2H_WB_ENTRY_DMA_INFO = 3"

text \<open>The first eight bytes of a completion entry, as the (little endian) host reads them.\<close>

definition wrb_word0 :: "u8 list \<Rightarrow> u64" where
  "wrb_word0 entry = foldr (\<lambda>b w. push_bit 8 w OR ucast b) (take 8 entry) 0"

text \<open>User defined data of an entry: the upper nibble of byte 2, then the bytes from 3 on.\<close>

definition entry_udd :: "'e env \<Rightarrow> qdma_descq \<Rightarrow> u8 list \<Rightarrow> 'e \<Rightarrow> bool res \<times> qdma_descq \<times> 'e" where
  "entry_udd E descq entry e =
     (if \<not> q_st_c2h_wrb_udd_en descq then (Inr False, descq, e)
      else case env_kmalloc E 24 e of
        (False, e) \<Rightarrow> (Inl ENOMEM, descq, e)
      | (True, e) \<Rightarrow>
          let udd_len = q_st_c2h_wrb_entry_len descq - L_C2H_WB_ENTRY_DMA_INFO + 1 in
          (case env_kmalloc E udd_len e of
             (False, e) \<Rightarrow> (Inl ENOMEM, descq, e)
           | (True, e) \<Rightarrow>
               let udd = \<lparr>udd_data = (entry ! (L_C2H_WB_ENTRY_DMA_INFO - 1) AND 0xF0)
                            # take (udd_len - 1) (drop L_C2H_WB_ENTRY_DMA_INFO entry),
                          udd_len = of_nat udd_len, udd_offset = 0\<rparr>
               in (Inr True, descq\<lparr>q_rx_queue := udd_push_back udd (q_rx_queue descq)\<rparr>, e)))"

text \<open>
  The pages of one entry: each goes to the rx handler, whose result is ignored, and its slot
  in the free list and in the descriptor ring is filled again.
\<close>

fun rx_pages ::
  "'e env \<Rightarrow> nat \<Rightarrow> bool \<Rightarrow> u32 \<Rightarrow> u32 \<Rightarrow> qdma_descq \<Rightarrow> 'e \<Rightarrow> u32 res \<times> qdma_descq \<times> 'e" where
  "rx_pages E 0 udd pidx len descq e = (Inr pidx, descq, e)"
| "rx_pages E (Suc fl_nr) udd pidx len descq e =
     (case (q_st_rx_fl descq, q_desc descq) of
        (Some fls, Some (C2H_ring ring)) \<Rightarrow>
          if unat pidx \<ge> length fls \<or> unat pidx \<ge> length ring \<or> \<not> q_rx_handler descq
          then (Inl OOPS, descq, e)
          else let fl = (fls ! unat pidx)\<lparr>fl_len := min len PAGE_SIZE\<rparr>;
                   (_, descq, e) = descq_st_c2h_rx_data E descq fl udd e;
                   (_, fl, e) = fl_refill_entry E fl e;
                   descq = descq\<lparr>q_st_rx_fl := Some (fls[unat pidx := fl]),
                                 q_desc := Some (C2H_ring (ring[unat pidx :=
                                   (ring ! unat pidx)\<lparr>c2h_dst_addr := fl_dma_addr fl\<rparr>]))\<rparr>;
                   pidx = (if pidx + 1 \<ge> qc_rngsz (q_conf descq) then 0 else pidx + 1)
               in rx_pages E fl_nr False pidx (len - fl_len fl) descq e
      | _ \<Rightarrow> (Inl OOPS, descq, e))"

fun wrb_loop ::
  "'e env \<Rightarrow> nat \<Rightarrow> u32 \<Rightarrow> qdma_descq \<Rightarrow> 'e \<Rightarrow> u32 res \<times> qdma_descq \<times> 'e" where
  "wrb_loop E 0 pidx descq e = (Inr pidx, descq, e)"
| "wrb_loop E (Suc budget) pidx descq e =
     (case q_desc_wrb descq of
        None \<Rightarrow> (Inl OOPS, descq, e)
      | Some wrbs \<Rightarrow>
          if q_desc_wrb_cur descq \<ge> length wrbs then (Inl OOPS, descq, e)
          else let entry = wrbs ! q_desc_wrb_cur descq in
          (case entry_udd E descq entry e of
             (Inl err, descq, e) \<Rightarrow> (Inl err, descq, e)
           | (Inr udd, descq, e) \<Rightarrow>
               let w = wrb_word0 entry;
                   len = ucast (drop_bit S_C2H_WB_ENTRY_LENGTH w AND M_C2H_WB_ENTRY_LENGTH);
                   err = drop_bit S_C2H_WB_ENTRY_F_DESC_ERR w AND 1
               in if err \<noteq> 0 then (Inl EIO, descq, e)
                  else (case rx_pages E (unat (drop_bit 12 (len + PAGE_SIZE - 1))) udd pidx len descq e of
                          (Inl err, descq, e) \<Rightarrow> (Inl err, descq, e)
                        | (Inr pidx, descq, e) \<Rightarrow> wrb_loop E budget pidx (wrb_next descq) e)))"

definition wrb_budget :: "qdma_descq \<Rightarrow> u32" where
  "wrb_budget descq =
     (if q_pidx_wrb descq > q_cidx_wrb descq then q_pidx_wrb descq - q_cidx_wrb descq
      else if q_pidx_wrb descq < q_cidx_wrb descq
           then q_pidx_wrb descq + (qc_rngsz (q_conf descq) - q_cidx_wrb descq)
      else 0)"

text \<open>After the entries: the indices go to the hardware and waiting reads are completed.\<close>

definition rx_finish ::
  "'e env \<Rightarrow> bool \<Rightarrow> xlnx_dma_dev \<Rightarrow> qdma_descq \<Rightarrow> u32 \<Rightarrow> 'e
     \<Rightarrow> unit res \<times> xlnx_dma_dev \<times> qdma_descq \<times> 'e" where
  "rx_finish E vf xdev descq pidx e =
     (let descq = descq\<lparr>q_pidx := pidx\<rparr>;
          e = descq_pidx_update E vf descq
                (if q_pidx descq \<noteq> 0 then q_pidx descq - 1 else qc_rngsz (q_conf descq) - 1) e;
          e = descq_wrb_cidx_update E vf descq (q_cidx_wrb descq) e
      in case intr_coal_served E vf xdev descq e of
           (Inl err, xdev, e) \<Rightarrow> (Inl err, xdev, descq, e)
         | (Inr _, xdev, e) \<Rightarrow> (Inr (), xdev, check_rx_request_completed descq, e))"

definition descq_st_c2h_wb ::
  "'e env \<Rightarrow> bool \<Rightarrow> xlnx_dma_dev \<Rightarrow> qdma_descq \<Rightarrow> 'e
     \<Rightarrow> unit res \<times> xlnx_dma_dev \<times> qdma_descq \<times> 'e" where
  "descq_st_c2h_wb E vf xdev descq e =
     (if q_desc_wrb descq = None then (Inl OOPS, xdev, descq, e)
      else let descq = descq\<lparr>q_pidx_wrb := ucast (wrb_wb_pidx (q_desc_wrb_wb descq))\<rparr>;
               proc_cnt = unat (wrb_budget descq)
           in case wrb_loop E proc_cnt (q_pidx descq) descq e of
                (Inl err, descq, e) \<Rightarrow> (Inl err, xdev, descq, e)
              | (Inr pidx, descq, e) \<Rightarrow>
                  if proc_cnt = 0 then (Inr (), xdev, descq, e) else rx_finish E vf xdev descq pidx e)"

definition qdma_descq_service_wb ::
  "'e env \<Rightarrow> bool \<Rightarrow> xlnx_dma_dev \<Rightarrow> qdma_descq \<Rightarrow> 'e
     \<Rightarrow> unit res \<times> xlnx_dma_dev \<times> qdma_descq \<times> 'e" where
  "qdma_descq_service_wb E vf xdev descq e =
     (if qc_st (q_conf descq) \<and> qc_c2h (q_conf descq) then descq_st_c2h_wb E vf xdev descq e
      else descq_mm_n_h2c_wb E vf xdev descq e)"

section \<open>The receive ring stays consistent\<close>

text \<open>
  The free list and the descriptor ring have the size of the queue, every descriptor carries
  the DMA address of its page (0 for a slot that could not be refilled), the producer index
  lies in the ring, and the position in the completion ring is the consumer index.
\<close>

definition fl_ring_ok :: "qdma_descq \<Rightarrow> bool" where
  "fl_ring_ok descq \<longleftrightarrow>
     (\<exists>fls ring. q_st_rx_fl descq = Some fls \<and> q_desc descq = Some (C2H_ring ring)
        \<and> length fls = unat (qc_rngsz (q_conf descq)) \<and> map c2h_dst_addr ring = map fl_dma_addr fls)
     \<and> q_rx_handler descq"

definition rx_ok :: "qdma_descq \<Rightarrow> bool" where
  "rx_ok descq \<longleftrightarrow> fl_ring_ok descq \<and> q_pidx descq < qc_rngsz (q_conf descq)
     \<and> q_rngsz_wrb descq = qc_rngsz (q_conf descq)
     \<and> map_option length (q_desc_wrb descq) = Some (unat (q_rngsz_wrb descq))
     \<and> q_cidx_wrb descq < q_rngsz_wrb descq \<and> q_desc_wrb_cur descq = unat (q_cidx_wrb descq)"

text \<open>What processing completions does not change.\<close>

definition rx_frame :: "qdma_descq \<Rightarrow> qdma_descq \<Rightarrow> bool" where
  "rx_frame q q' \<longleftrightarrow> q_conf q' = q_conf q \<and> q_pidx q' = q_pidx q \<and> q_rngsz_wrb q' = q_rngsz_wrb q
     \<and> q_desc_wrb q' = q_desc_wrb q \<and> q_pidx_wrb q' = q_pidx_wrb q \<and> q_pend_list q' = q_pend_list q
     \<and> q_work_list q' = q_work_list q \<and> q_done q' = q_done q
     \<and> q_st_c2h_wrb_udd_en q' = q_st_c2h_wrb_udd_en q"

lemma rx_frame_refl [simp]: "rx_frame q q"
  by (simp add: rx_frame_def)

lemma rx_frame_trans: "rx_frame q r \<Longrightarrow> rx_frame r s \<Longrightarrow> rx_frame q s"
  by (simp add: rx_frame_def)

definition kmalloc_ok :: "'e env \<Rightarrow> bool" where
  "kmalloc_ok E \<longleftrightarrow> (\<forall>n e. fst (env_kmalloc E n e))"

text \<open>The lengths of the pages of a packet of \<open>len\<close> bytes.\<close>

fun page_lens :: "nat \<Rightarrow> u32 \<Rightarrow> u32 list" where
  "page_lens 0 len = []"
| "page_lens (Suc n) len = min len PAGE_SIZE # page_lens n (len - min len PAGE_SIZE)"

lemma fl_refill_entry_len: "fl_refill_entry E fl e = (rv, fl', e') \<Longrightarrow> fl_len fl' = fl_len fl"
  by (auto simp: fl_refill_entry_def Let_def split: prod.splits option.splits if_splits)

lemma rx_step_wrap:
  assumes "pidx < rngsz"
  shows "(if pidx + 1 \<ge> rngsz then 0 else pidx + 1) < rngsz"
    and "unat (if pidx + 1 \<ge> rngsz then 0 else pidx + 1 :: u32) = (unat pidx + 1) mod unat rngsz"
proof -
  have lt: "unat pidx < unat rngsz"
    using assms by (simp add: word_less_nat_alt)
  then have s: "unat (pidx + 1) = unat pidx + 1"
    using unat_plus_one [OF assms] by simp
  show "(if pidx + 1 \<ge> rngsz then 0 else pidx + 1) < rngsz"
    using lt by (auto simp: word_less_nat_alt word_le_nat_alt)
  show "unat (if pidx + 1 \<ge> rngsz then 0 else pidx + 1 :: u32) = (unat pidx + 1) mod unat rngsz"
    using lt s by (cases "Suc (unat pidx) = unat rngsz") (auto simp: word_le_nat_alt)
qed

text \<open>
  The page behind the slot that is \<open>j\<close> slots from the start of the ring, and the nodes the rx handler
  makes of pages \<open>g 0\<close>, \<open>g 1\<close>, ... that hold the given numbers of bytes.
\<close>

definition fl_page :: "qdma_descq \<Rightarrow> nat \<Rightarrow> u64 option" where
  "fl_page descq j = fl_pg (the (q_st_rx_fl descq) ! (j mod unat (qc_rngsz (q_conf descq))))"

fun rx_nodes :: "(nat \<Rightarrow> u64 option) \<Rightarrow> u32 list \<Rightarrow> st_rx_data list" where
  "rx_nodes g [] = []"
| "rx_nodes g (len # lens) =
     \<lparr>rx_pg = g 0, rx_offset = 0, rx_len = len, rx_udd_ref = False\<rparr> # rx_nodes (\<lambda>j. g (Suc j)) lens"

lemma rx_nodes_cong: "(\<And>j. j < length lens \<Longrightarrow> g j = h j) \<Longrightarrow> rx_nodes g lens = rx_nodes h lens"
proof (induction lens arbitrary: g h)
  case (Cons len lens)
  have "rx_nodes (\<lambda>j. g (Suc j)) lens = rx_nodes (\<lambda>j. h (Suc j)) lens"
    by (rule Cons.IH) (simp add: Cons.prems)
  then show ?case
    by (simp add: Cons.prems [of 0])
qed simp

lemma rx_nodes_append: "rx_nodes g (as @ bs) = rx_nodes g as @ rx_nodes (\<lambda>j. g (length as + j)) bs"
  by (induction as arbitrary: g) simp_all

lemma length_page_lens [simp]: "length (page_lens n len) = n"
  by (induction n arbitrary: len) simp_all

lemma fl_page_mod: "a mod unat (qc_rngsz (q_conf descq)) = b mod unat (qc_rngsz (q_conf descq)) \<Longrightarrow> fl_page descq a = fl_page descq b"
  by (simp add: fl_page_def)

lemma ring_step_other:
  assumes "p < n" and "Suc j < n"
  shows "(p + Suc j) mod n \<noteq> p"
proof (cases "p + Suc j < n")
  case False
  then show ?thesis
    using assms by (simp add: le_mod_geq)
qed (use assms in simp)

text \<open>One page: it goes to the queue, its slot is filled again, and no other slot changes.\<close>

lemma rx_page_step:
  assumes "fl_ring_ok descq" and "pidx < qc_rngsz (q_conf descq)"
  obtains pidx1 descq1 e1 where
    "rx_pages E (Suc n) udd pidx len descq e = rx_pages E n False pidx1 (len - min len PAGE_SIZE) descq1 e1"
    "fl_ring_ok descq1" "rx_frame descq descq1" "q_cidx_wrb descq1 = q_cidx_wrb descq"
    "q_desc_wrb_cur descq1 = q_desc_wrb_cur descq" "pidx1 < qc_rngsz (q_conf descq)"
    "unat pidx1 = (unat pidx + 1) mod unat (qc_rngsz (q_conf descq))"
    "rxq_udds (q_rx_queue descq1) = rxq_udds (q_rx_queue descq)"
    "kmalloc_ok E \<longrightarrow> q_rx_queue descq1 = rx_push_back
       \<lparr>rx_pg = fl_page descq (unat pidx), rx_offset = 0, rx_len = min len PAGE_SIZE, rx_udd_ref = udd\<rparr> (q_rx_queue descq)"
    "\<forall>j. j mod unat (qc_rngsz (q_conf descq)) \<noteq> unat pidx \<longrightarrow> fl_page descq1 j = fl_page descq j"
proof -
  from assms(1) obtain fls ring where r: "q_st_rx_fl descq = Some fls" "q_desc descq = Some (C2H_ring ring)"
    "length fls = unat (qc_rngsz (q_conf descq))" "map c2h_dst_addr ring = map fl_dma_addr fls"
    "q_rx_handler descq"
    by (auto simp: fl_ring_ok_def)
  then have lens: "length ring = length fls"
    using map_eq_imp_length_eq by blast
  have lt: "unat pidx < length fls"
    using assms(2) r(3) by (simp add: word_less_nat_alt)
  let ?fl = "(fls ! unat pidx)\<lparr>fl_len := min len PAGE_SIZE\<rparr>"
  obtain rv1 descq1 e1 where rx: "descq_st_c2h_rx_data E descq ?fl udd e = (rv1, descq1, e1)"
    by (cases "descq_st_c2h_rx_data E descq ?fl udd e") auto
  obtain rv2 fl e2 where rf: "fl_refill_entry E ?fl e1 = (rv2, fl, e2)"
    by (cases "fl_refill_entry E ?fl e1") auto
  have page: "fl_page descq (unat pidx) = fl_pg (fls ! unat pidx)"
    using r(1,3) lt by (simp add: fl_page_def)
  have q1: "descq1 = descq\<lparr>q_rx_queue := q_rx_queue descq1\<rparr>"
    "rxq_udds (q_rx_queue descq1) = rxq_udds (q_rx_queue descq)"
    "kmalloc_ok E \<longrightarrow> q_rx_queue descq1 = rx_push_back
       \<lparr>rx_pg = fl_page descq (unat pidx), rx_offset = 0, rx_len = min len PAGE_SIZE, rx_udd_ref = udd\<rparr> (q_rx_queue descq)"
    using rx unfolding kmalloc_ok_def page
    by (auto simp: descq_st_c2h_rx_data_def rx_push_back_def split: prod.splits bool.splits; metis fst_conv)+
  have fl_len: "fl_len fl = min len PAGE_SIZE"
    using fl_refill_entry_len [OF rf] by simp
  let ?descq = "descq1\<lparr>q_st_rx_fl := Some (fls[unat pidx := fl]),
      q_desc := Some (C2H_ring (ring[unat pidx := (ring ! unat pidx)\<lparr>c2h_dst_addr := fl_dma_addr fl\<rparr>]))\<rparr>"
  let ?pidx = "if pidx + 1 \<ge> qc_rngsz (q_conf descq) then 0 else pidx + 1"
  have conf: "q_conf descq1 = q_conf descq" "q_conf ?descq = q_conf descq"
    by (subst q1(1), simp)+
  have "rx_pages E (Suc n) udd pidx len descq e = rx_pages E n False ?pidx (len - min len PAGE_SIZE) ?descq e2"
    using r lens lt rx rf fl_len conf by (simp add: Let_def del: PAGE_SIZE_def)
  moreover have "q_rx_handler descq1"
    using r(5) by (subst q1(1)) simp
  then have "fl_ring_ok ?descq"
    using r lens lt conf by (simp add: fl_ring_ok_def map_update)
  moreover have "rx_frame descq ?descq" "q_cidx_wrb ?descq = q_cidx_wrb descq" "q_desc_wrb_cur ?descq = q_desc_wrb_cur descq"
    by (subst q1(1), simp add: rx_frame_def)+
  moreover have "\<forall>j. j mod unat (qc_rngsz (q_conf descq)) \<noteq> unat pidx \<longrightarrow> fl_page ?descq j = fl_page descq j"
    using r(1) by (simp add: fl_page_def conf)
  ultimately show thesis
    using that rx_step_wrap [OF assms(2)] q1(2,3) by simp
qed

lemma rx_pages_ok:
  assumes "fl_ring_ok descq" and "pidx < qc_rngsz (q_conf descq)"
  shows "\<exists>pidx' descq' e'. rx_pages E n udd pidx len descq e = (Inr pidx', descq', e')
    \<and> fl_ring_ok descq' \<and> rx_frame descq descq' \<and> q_cidx_wrb descq' = q_cidx_wrb descq
    \<and> q_desc_wrb_cur descq' = q_desc_wrb_cur descq
    \<and> pidx' < qc_rngsz (q_conf descq)
    \<and> unat pidx' = (unat pidx + n) mod unat (qc_rngsz (q_conf descq))
    \<and> rxq_udds (q_rx_queue descq') = rxq_udds (q_rx_queue descq)
    \<and> (kmalloc_ok E \<longrightarrow>
         map rx_len (rxq_rxs (q_rx_queue descq')) = map rx_len (rxq_rxs (q_rx_queue descq)) @ page_lens n len
         \<and> rxq_dlen (q_rx_queue descq') = rxq_dlen (q_rx_queue descq) + sum_list (page_lens n len))"
  using assms
proof (induction n arbitrary: udd pidx len descq e)
  case 0
  then show ?case
    by (simp add: word_less_nat_alt)
next
  case (Suc n)
  from rx_page_step [OF Suc.prems, of E n udd len e] obtain pidx1 descq1 e1 where
    st: "rx_pages E (Suc n) udd pidx len descq e = rx_pages E n False pidx1 (len - min len PAGE_SIZE) descq1 e1"
    "fl_ring_ok descq1" "rx_frame descq descq1" "q_cidx_wrb descq1 = q_cidx_wrb descq"
    "q_desc_wrb_cur descq1 = q_desc_wrb_cur descq" "pidx1 < qc_rngsz (q_conf descq)"
    "unat pidx1 = (unat pidx + 1) mod unat (qc_rngsz (q_conf descq))"
    "rxq_udds (q_rx_queue descq1) = rxq_udds (q_rx_queue descq)"
    "kmalloc_ok E \<longrightarrow> q_rx_queue descq1 = rx_push_back
       \<lparr>rx_pg = fl_page descq (unat pidx), rx_offset = 0, rx_len = min len PAGE_SIZE, rx_udd_ref = udd\<rparr> (q_rx_queue descq)"
    by metis
  have conf: "q_conf descq1 = q_conf descq"
    using st(3) by (simp add: rx_frame_def)
  obtain pidx' descq' e' where ih: "rx_pages E n False pidx1 (len - min len PAGE_SIZE) descq1 e1 = (Inr pidx', descq', e')"
    "fl_ring_ok descq'" "rx_frame descq1 descq'" "q_cidx_wrb descq' = q_cidx_wrb descq1"
    "q_desc_wrb_cur descq' = q_desc_wrb_cur descq1" "pidx' < qc_rngsz (q_conf descq)"
    "unat pidx' = (unat pidx1 + n) mod unat (qc_rngsz (q_conf descq))"
    "rxq_udds (q_rx_queue descq') = rxq_udds (q_rx_queue descq1)"
    "kmalloc_ok E \<longrightarrow>
       map rx_len (rxq_rxs (q_rx_queue descq')) =
         map rx_len (rxq_rxs (q_rx_queue descq1)) @ page_lens n (len - min len PAGE_SIZE)
       \<and> rxq_dlen (q_rx_queue descq') = rxq_dlen (q_rx_queue descq1) + sum_list (page_lens n (len - min len PAGE_SIZE))"
    using Suc.IH [of descq1 pidx1 False "len - min len PAGE_SIZE" e1] st(2,6) unfolding conf by blast
  have "unat pidx' = (unat pidx + Suc n) mod unat (qc_rngsz (q_conf descq))"
    using ih(7) st(7) by (simp add: mod_simps)
  then show ?case
    using st ih rx_frame_trans [OF st(3) ih(3)]
    by (intro exI [of _ pidx'] exI [of _ descq'] exI [of _ e']) (simp add: add.assoc rx_push_back_def rx_left_def)
qed

text \<open>
  Which pages are delivered: those behind the slots from \<open>pidx\<close> on, as long as no slot is used twice.
  The slots not used keep their pages.
\<close>

definition pages_delivered :: "qdma_descq \<Rightarrow> u32 \<Rightarrow> u32 list \<Rightarrow> qdma_descq \<Rightarrow> bool" where
  "pages_delivered descq pidx lens descq' \<longleftrightarrow> q_conf descq' = q_conf descq
     \<and> (length lens \<le> unat (qc_rngsz (q_conf descq)) \<longrightarrow>
         rxq_rxs (q_rx_queue descq') = rxq_rxs (q_rx_queue descq) @ rx_nodes (\<lambda>j. fl_page descq (unat pidx + j)) lens
         \<and> (\<forall>j. length lens \<le> j \<and> j < unat (qc_rngsz (q_conf descq)) \<longrightarrow>
               fl_page descq' (unat pidx + j) = fl_page descq (unat pidx + j)))"

lemma pages_delivered_Nil [simp]: "pages_delivered descq pidx [] descq"
  by (simp add: pages_delivered_def)

lemma pages_delivered_trans:
  assumes "pages_delivered q pidx as q1" and "pages_delivered q1 pidx1 bs q2"
    and "unat pidx1 = (unat pidx + length as) mod unat (qc_rngsz (q_conf q))"
  shows "pages_delivered q pidx (as @ bs) q2"
proof -
  let ?n = "unat (qc_rngsz (q_conf q))"
  have conf: "q_conf q1 = q_conf q" "q_conf q2 = q_conf q"
    using assms(1,2) by (simp_all add: pages_delivered_def)
  have shift: "fl_page d (unat pidx1 + j) = fl_page d (unat pidx + (length as + j))" if "q_conf d = q_conf q" for d j
    using assms(3) that by (intro fl_page_mod) (simp add: mod_simps add.assoc)
  have same: "fl_page q1 (unat pidx1 + j) = fl_page q (unat pidx + (length as + j))" if "length as + j < ?n" for j
    using assms(1) that shift [OF conf(1)] by (simp add: pages_delivered_def)
  have nodes: "rx_nodes (\<lambda>j. fl_page q1 (unat pidx1 + j)) bs = rx_nodes (\<lambda>j. fl_page q (unat pidx + (length as + j))) bs"
    if "length as + length bs \<le> ?n"
    using that same by (intro rx_nodes_cong) simp
  have rest: "fl_page q2 (unat pidx + j) = fl_page q (unat pidx + j)"
    if "length as + length bs \<le> j" "j < ?n" for j
  proof -
    define i where "i = j - length as"
    then have j: "j = length as + i" "length bs \<le> i" "length bs \<le> ?n" "i < ?n"
      using that by simp_all
    then have "fl_page q2 (unat pidx1 + i) = fl_page q1 (unat pidx1 + i)"
      using assms(2) conf(1) unfolding pages_delivered_def by simp
    then show ?thesis
      using same [of i] shift [OF conf(2), of i] that(2) unfolding j(1) by simp
  qed
  show ?thesis
    using assms(1,2) conf nodes rest by (simp add: pages_delivered_def rx_nodes_append)
qed

lemma rx_pages_delivered:
  assumes "fl_ring_ok descq" and "pidx < qc_rngsz (q_conf descq)" and "kmalloc_ok E"
    and "rx_pages E n False pidx len descq e = (Inr pidx', descq', e')"
  shows "pages_delivered descq pidx (page_lens n len) descq'"
  using assms(1,2,4)
proof (induction n arbitrary: pidx len descq e)
  case (Suc n)
  let ?n = "unat (qc_rngsz (q_conf descq))" and ?m = "min len PAGE_SIZE"
  from rx_page_step [OF Suc.prems(1,2), of E n False len e] assms(3) obtain pidx1 descq1 e1 where
    st: "rx_pages E (Suc n) False pidx len descq e = rx_pages E n False pidx1 (len - ?m) descq1 e1"
    "fl_ring_ok descq1" "rx_frame descq descq1" "pidx1 < qc_rngsz (q_conf descq)" "unat pidx1 = (unat pidx + 1) mod ?n"
    "q_rx_queue descq1 = rx_push_back
       \<lparr>rx_pg = fl_page descq (unat pidx), rx_offset = 0, rx_len = ?m, rx_udd_ref = False\<rparr> (q_rx_queue descq)"
    "\<forall>j. j mod ?n \<noteq> unat pidx \<longrightarrow> fl_page descq1 j = fl_page descq j"
    by metis
  have conf: "q_conf descq1 = q_conf descq"
    using st(3) by (simp add: rx_frame_def)
  have "(unat pidx + j) mod ?n \<noteq> unat pidx" if "1 \<le> j" "j < ?n" for j
    using that Suc.prems(2) ring_step_other [of "unat pidx" ?n "j - 1"] by (simp add: word_less_nat_alt)
  then have "pages_delivered descq pidx [?m] descq1"
    using st(6,7) conf by (simp add: pages_delivered_def rx_push_back_def del: PAGE_SIZE_def)
  moreover have "pages_delivered descq1 pidx1 (page_lens n (len - ?m)) descq'"
    using Suc.IH [of descq1 pidx1 "len - ?m" e1] Suc.prems(3) st(1,2,4) conf by simp
  ultimately show ?case
    using pages_delivered_trans [of descq pidx "[?m]" descq1 pidx1 _ descq'] st(5) by (simp del: PAGE_SIZE_def)
qed simp

definition wrb_pos_ok :: "qdma_descq \<Rightarrow> bool" where
  "wrb_pos_ok descq \<longleftrightarrow> map_option length (q_desc_wrb descq) = Some (unat (q_rngsz_wrb descq))
     \<and> q_cidx_wrb descq < q_rngsz_wrb descq \<and> q_desc_wrb_cur descq = unat (q_cidx_wrb descq)"

lemma rx_ok_alt:
  "rx_ok descq \<longleftrightarrow> fl_ring_ok descq \<and> wrb_pos_ok descq \<and> q_pidx descq < qc_rngsz (q_conf descq)
     \<and> q_rngsz_wrb descq = qc_rngsz (q_conf descq)"
  by (auto simp: rx_ok_def wrb_pos_ok_def)

lemma wrb_next_ok:
  assumes "wrb_pos_ok descq"
  shows "wrb_pos_ok (wrb_next descq)" "rx_frame descq (wrb_next descq)"
    "fl_ring_ok (wrb_next descq) = fl_ring_ok descq" "q_rx_queue (wrb_next descq) = q_rx_queue descq"
    "unat (q_cidx_wrb (wrb_next descq)) = (unat (q_cidx_wrb descq) + 1) mod unat (q_rngsz_wrb descq)"
proof -
  have lt: "q_cidx_wrb descq < q_rngsz_wrb descq"
    using assms by (simp add: wrb_pos_ok_def)
  then have s: "unat (q_cidx_wrb descq + 1) = unat (q_cidx_wrb descq) + 1"
    using unat_plus_one by simp
  then have eq: "q_cidx_wrb descq + 1 = q_rngsz_wrb descq \<longleftrightarrow> unat (q_cidx_wrb descq) + 1 = unat (q_rngsz_wrb descq)"
    by (metis word_unat_eq_iff)
  show "wrb_pos_ok (wrb_next descq)" "rx_frame descq (wrb_next descq)"
    "fl_ring_ok (wrb_next descq) = fl_ring_ok descq" "q_rx_queue (wrb_next descq) = q_rx_queue descq"
    "unat (q_cidx_wrb (wrb_next descq)) = (unat (q_cidx_wrb descq) + 1) mod unat (q_rngsz_wrb descq)"
    using assms lt s eq
    by (auto simp: wrb_pos_ok_def wrb_next_def Let_def rx_frame_def fl_ring_ok_def word_less_nat_alt)
qed

lemma pages_delivered_wrb_next: "pages_delivered descq pidx lens descq1 \<Longrightarrow> pages_delivered descq pidx lens (wrb_next descq1)"
  by (auto simp: pages_delivered_def fl_page_def wrb_next_def Let_def)

lemma entry_udd_ok:
  assumes "entry_udd E descq entry e = (rv, descq', e')"
  shows "rv \<noteq> Inl OOPS" "descq' = descq\<lparr>q_rx_queue := q_rx_queue descq'\<rparr>"
    "\<not> q_st_c2h_wrb_udd_en descq \<Longrightarrow> rv = Inr False \<and> descq' = descq"
  using assms by (auto simp: entry_udd_def Let_def split: prod.splits bool.splits if_splits)

lemma rx_queue_only:
  assumes "descq' = descq\<lparr>q_rx_queue := q\<rparr>"
  shows "rx_frame descq descq'" "fl_ring_ok descq' = fl_ring_ok descq" "wrb_pos_ok descq' = wrb_pos_ok descq"
    "q_cidx_wrb descq' = q_cidx_wrb descq" "q_conf descq' = q_conf descq"
  using assms by (auto simp: rx_frame_def fl_ring_ok_def wrb_pos_ok_def)

lemma rx_frame_simps:
  assumes "rx_frame q q'"
  shows "q_conf q' = q_conf q" "q_rngsz_wrb q' = q_rngsz_wrb q" "q_desc_wrb q' = q_desc_wrb q"
    "q_st_c2h_wrb_udd_en q' = q_st_c2h_wrb_udd_en q" "q_pidx q' = q_pidx q"
  using assms by (simp_all add: rx_frame_def)

text \<open>Length, error flag and number of pages of an entry.\<close>

definition entry_bytes :: "u8 list \<Rightarrow> u32" where
  "entry_bytes entry = ucast (drop_bit 4 (wrb_word0 entry) AND 0xFFFF)"

definition entry_err :: "u8 list \<Rightarrow> bool" where
  "entry_err entry \<longleftrightarrow> drop_bit 2 (wrb_word0 entry) AND 1 \<noteq> 0"

definition entry_pages :: "u8 list \<Rightarrow> nat" where
  "entry_pages entry = unat (drop_bit 12 (entry_bytes entry + PAGE_SIZE - 1))"

lemma wrb_loop_entry:
  assumes "wrb_pos_ok descq" and "fl_ring_ok descq" and "pidx < qc_rngsz (q_conf descq)"
    and "entry = the (q_desc_wrb descq) ! unat (q_cidx_wrb descq)"
  shows "(\<exists>err descq' e'. wrb_loop E (Suc n) pidx descq e = (Inl err, descq', e') \<and> err \<noteq> OOPS
      \<and> rx_frame descq descq' \<and> fl_ring_ok descq' \<and> wrb_pos_ok descq'
      \<and> (entry_err entry \<or> q_st_c2h_wrb_udd_en descq))
    \<or> (\<exists>pidx1 descq1 e1. wrb_loop E (Suc n) pidx descq e = wrb_loop E n pidx1 descq1 e1
      \<and> \<not> entry_err entry
      \<and> rx_frame descq descq1 \<and> fl_ring_ok descq1 \<and> wrb_pos_ok descq1
      \<and> pidx1 < qc_rngsz (q_conf descq)
      \<and> unat (q_cidx_wrb descq1) = (unat (q_cidx_wrb descq) + 1) mod unat (q_rngsz_wrb descq)
      \<and> unat pidx1 = (unat pidx + entry_pages entry) mod unat (qc_rngsz (q_conf descq))
      \<and> (kmalloc_ok E \<and> \<not> q_st_c2h_wrb_udd_en descq \<longrightarrow>
          map rx_len (rxq_rxs (q_rx_queue descq1)) =
            map rx_len (rxq_rxs (q_rx_queue descq)) @ page_lens (entry_pages entry) (entry_bytes entry)
          \<and> rxq_dlen (q_rx_queue descq1) = rxq_dlen (q_rx_queue descq)
              + sum_list (page_lens (entry_pages entry) (entry_bytes entry))
          \<and> pages_delivered descq pidx (page_lens (entry_pages entry) (entry_bytes entry)) descq1))"
proof -
  obtain wrbs where w: "q_desc_wrb descq = Some wrbs" "length wrbs = unat (q_rngsz_wrb descq)"
    using assms(1) by (auto simp: wrb_pos_ok_def)
  have cur: "q_desc_wrb_cur descq = unat (q_cidx_wrb descq)" "unat (q_cidx_wrb descq) < length wrbs"
    using assms(1) w(2) by (simp_all add: wrb_pos_ok_def word_less_nat_alt)
  obtain rv descq0 e0 where udd: "entry_udd E descq entry e = (rv, descq0, e0)"
    by (cases "entry_udd E descq entry e") auto
  note ud = entry_udd_ok [OF udd] and only = rx_queue_only [OF entry_udd_ok(2) [OF udd]]
  have run: "wrb_loop E (Suc n) pidx descq e =
      (case rv of Inl err \<Rightarrow> (Inl err, descq0, e0)
       | Inr udd \<Rightarrow>
           if entry_err entry then (Inl EIO, descq0, e0)
           else (case rx_pages E (entry_pages entry) udd pidx (entry_bytes entry) descq0 e0 of
                   (Inl err, descq, e) \<Rightarrow> (Inl err, descq, e)
                 | (Inr pidx, descq, e) \<Rightarrow> wrb_loop E n pidx (wrb_next descq) e))"
    using w cur assms(4) udd
    by (simp add: entry_err_def entry_bytes_def entry_pages_def Let_def split: sum.splits)
  show ?thesis
  proof (cases "(\<exists>err. rv = Inl err) \<or> entry_err entry")
    case True
    then have "(\<exists>err. rv = Inl err) \<Longrightarrow> q_st_c2h_wrb_udd_en descq"
      using ud(3) by auto
    then show ?thesis
      using run True ud(1) only assms(1,2) by (intro disjI1) (auto split: sum.splits)
  next
    case False
    then obtain b where b: "rv = Inr b"
      by (cases rv) auto
    have pre: "fl_ring_ok descq0" "pidx < qc_rngsz (q_conf descq0)"
      using only assms(2,3) by simp_all
    from rx_pages_ok [OF pre, of E "entry_pages entry" b "entry_bytes entry" e0]
    obtain pidx1 descq1 e1 where pg: "rx_pages E (entry_pages entry) b pidx (entry_bytes entry) descq0 e0 = (Inr pidx1, descq1, e1)"
      "fl_ring_ok descq1" "rx_frame descq0 descq1" "q_cidx_wrb descq1 = q_cidx_wrb descq0"
      "q_desc_wrb_cur descq1 = q_desc_wrb_cur descq0" "pidx1 < qc_rngsz (q_conf descq0)"
      "unat pidx1 = (unat pidx + entry_pages entry) mod unat (qc_rngsz (q_conf descq0))"
      "kmalloc_ok E \<longrightarrow>
         map rx_len (rxq_rxs (q_rx_queue descq1)) = map rx_len (rxq_rxs (q_rx_queue descq0))
           @ page_lens (entry_pages entry) (entry_bytes entry)
         \<and> rxq_dlen (q_rx_queue descq1) = rxq_dlen (q_rx_queue descq0)
             + sum_list (page_lens (entry_pages entry) (entry_bytes entry))"
      by blast
    have pos1: "wrb_pos_ok descq1"
      using pg(4,5) only(3) assms(1) rx_frame_simps [OF pg(3)] by (simp add: wrb_pos_ok_def)
    note nx = wrb_next_ok [OF pos1]
    have fr: "rx_frame descq (wrb_next descq1)"
      using rx_frame_trans [OF rx_frame_trans [OF only(1) pg(3)] nx(2)] .
    have same: "descq0 = descq \<and> b = False" if "\<not> q_st_c2h_wrb_udd_en descq"
      using ud(3) [OF that] b by simp
    then have "pages_delivered descq pidx (page_lens (entry_pages entry) (entry_bytes entry)) (wrb_next descq1)"
      if "kmalloc_ok E" "\<not> q_st_c2h_wrb_udd_en descq"
      using rx_pages_delivered [OF assms(2,3) that(1)] pg(1) that(2) pages_delivered_wrb_next by blast
    then show ?thesis
      using run False b same pg nx fr only rx_frame_simps [OF pg(3)] rx_frame_simps [OF only(1)]
      by (intro disjI2 exI [of _ pidx1] exI [of _ "wrb_next descq1"] exI [of _ e1])
        (simp del: wrb_loop.simps)
  qed
qed

text \<open>The entries a run of \<open>n\<close> completions looks at, from the consumer index on.\<close>

definition wrb_entries :: "qdma_descq \<Rightarrow> nat \<Rightarrow> u8 list list" where
  "wrb_entries descq n =
     map (\<lambda>i. the (q_desc_wrb descq) ! ((unat (q_cidx_wrb descq) + i) mod unat (q_rngsz_wrb descq))) [0..<n]"

lemma wrb_entries_Suc:
  assumes "wrb_pos_ok descq" and "rx_frame descq descq1"
    and "unat (q_cidx_wrb descq1) = (unat (q_cidx_wrb descq) + 1) mod unat (q_rngsz_wrb descq)"
  shows "wrb_entries descq (Suc n) =
    the (q_desc_wrb descq) ! unat (q_cidx_wrb descq) # wrb_entries descq1 n"
proof -
  have "unat (q_cidx_wrb descq) mod unat (q_rngsz_wrb descq) = unat (q_cidx_wrb descq)"
    using assms(1) by (simp add: wrb_pos_ok_def word_less_nat_alt)
  moreover have "[0..<Suc n] = 0 # map Suc [0..<n]"
    by (simp add: map_Suc_upt upt_conv_Cons del: upt_Suc)
  ultimately show ?thesis
    using assms(3) rx_frame_simps [OF assms(2)]
    by (simp add: wrb_entries_def mod_simps comp_def del: upt_Suc)
qed

lemma wrb_loop_safe:
  assumes "wrb_pos_ok descq" and "fl_ring_ok descq" and "pidx < qc_rngsz (q_conf descq)"
  shows "\<exists>rv descq' e'. wrb_loop E n pidx descq e = (rv, descq', e') \<and> rv \<noteq> Inl OOPS
    \<and> rx_frame descq descq' \<and> fl_ring_ok descq' \<and> wrb_pos_ok descq'
    \<and> (\<forall>pidx'. rv = Inr pidx' \<longrightarrow> pidx' < qc_rngsz (q_conf descq)
        \<and> unat (q_cidx_wrb descq') = (unat (q_cidx_wrb descq) + n) mod unat (q_rngsz_wrb descq))"
  using assms
proof (induction n arbitrary: pidx descq e)
  case 0
  then show ?case
    by (simp add: wrb_pos_ok_def word_less_nat_alt)
next
  case (Suc n)
  from wrb_loop_entry [OF Suc.prems refl, of E n e] consider
    (fail) err descq' e' where "wrb_loop E (Suc n) pidx descq e = (Inl err, descq', e')" "err \<noteq> OOPS"
      "rx_frame descq descq'" "fl_ring_ok descq'" "wrb_pos_ok descq'"
  | (go) pidx1 descq1 e1 where "wrb_loop E (Suc n) pidx descq e = wrb_loop E n pidx1 descq1 e1"
      "rx_frame descq descq1" "fl_ring_ok descq1" "wrb_pos_ok descq1" "pidx1 < qc_rngsz (q_conf descq)"
      "unat (q_cidx_wrb descq1) = (unat (q_cidx_wrb descq) + 1) mod unat (q_rngsz_wrb descq)"
    by blast
  then show ?case
  proof cases
    case fail
    then show ?thesis by fastforce
  next
    case go
    obtain rv descq' e' where ih: "wrb_loop E n pidx1 descq1 e1 = (rv, descq', e')" "rv \<noteq> Inl OOPS"
      "rx_frame descq1 descq'" "fl_ring_ok descq'" "wrb_pos_ok descq'"
      "\<forall>pidx'. rv = Inr pidx' \<longrightarrow> pidx' < qc_rngsz (q_conf descq1)
        \<and> unat (q_cidx_wrb descq') = (unat (q_cidx_wrb descq1) + n) mod unat (q_rngsz_wrb descq1)"
      using Suc.IH [of descq1 pidx1 e1] go rx_frame_simps [OF go(2)] by auto
    then show ?thesis
      using go rx_frame_trans [OF go(2) ih(3)] rx_frame_simps [OF go(2)]
      by (intro exI [of _ rv] exI [of _ descq'] exI [of _ e'])
        (simp add: mod_simps del: wrb_loop.simps)
  qed
qed

lemma wrb_loop_delivers:
  assumes "wrb_pos_ok descq" and "fl_ring_ok descq" and "pidx < qc_rngsz (q_conf descq)"
    and "kmalloc_ok E" and "\<not> q_st_c2h_wrb_udd_en descq"
    and "\<forall>entry\<in>set (wrb_entries descq n). \<not> entry_err entry"
  shows "\<exists>pidx' descq' e'. wrb_loop E n pidx descq e = (Inr pidx', descq', e')
    \<and> unat pidx' = (unat pidx + sum_list (map entry_pages (wrb_entries descq n))) mod unat (qc_rngsz (q_conf descq))
    \<and> map rx_len (rxq_rxs (q_rx_queue descq')) = map rx_len (rxq_rxs (q_rx_queue descq))
        @ concat (map (\<lambda>x. page_lens (entry_pages x) (entry_bytes x)) (wrb_entries descq n))
    \<and> rxq_dlen (q_rx_queue descq') = rxq_dlen (q_rx_queue descq)
        + sum_list (map (\<lambda>x. sum_list (page_lens (entry_pages x) (entry_bytes x))) (wrb_entries descq n))
    \<and> pages_delivered descq pidx (concat (map (\<lambda>x. page_lens (entry_pages x) (entry_bytes x)) (wrb_entries descq n))) descq'"
  using assms
proof (induction n arbitrary: pidx descq e)
  case 0
  then show ?case
    by (simp add: wrb_entries_def word_less_nat_alt)
next
  case (Suc n)
  let ?x = "the (q_desc_wrb descq) ! unat (q_cidx_wrb descq)"
  have "?x \<in> set (wrb_entries descq (Suc n))"
    using Suc.prems(1) nth_mem [of 0 "wrb_entries descq (Suc n)"]
    by (simp add: wrb_entries_def wrb_pos_ok_def word_less_nat_alt del: upt_Suc)
  then have "\<not> entry_err ?x"
    using Suc.prems(6) by blast
  with wrb_loop_entry [OF Suc.prems(1-3) refl, of E n e] Suc.prems(4,5)
  obtain pidx1 descq1 e1 where st: "wrb_loop E (Suc n) pidx descq e = wrb_loop E n pidx1 descq1 e1"
    "rx_frame descq descq1" "fl_ring_ok descq1" "wrb_pos_ok descq1" "pidx1 < qc_rngsz (q_conf descq)"
    "unat (q_cidx_wrb descq1) = (unat (q_cidx_wrb descq) + 1) mod unat (q_rngsz_wrb descq)"
    "unat pidx1 = (unat pidx + entry_pages ?x) mod unat (qc_rngsz (q_conf descq))"
    "map rx_len (rxq_rxs (q_rx_queue descq1)) =
        map rx_len (rxq_rxs (q_rx_queue descq)) @ page_lens (entry_pages ?x) (entry_bytes ?x)"
    "rxq_dlen (q_rx_queue descq1) = rxq_dlen (q_rx_queue descq)
        + sum_list (page_lens (entry_pages ?x) (entry_bytes ?x))"
    "pages_delivered descq pidx (page_lens (entry_pages ?x) (entry_bytes ?x)) descq1"
    by blast
  have ents: "wrb_entries descq (Suc n) = ?x # wrb_entries descq1 n"
    using wrb_entries_Suc [OF Suc.prems(1) st(2,6)] .
  note fr = rx_frame_simps [OF st(2)]
  have "\<exists>pidx' descq' e'. wrb_loop E n pidx1 descq1 e1 = (Inr pidx', descq', e')
    \<and> unat pidx' = (unat pidx1 + sum_list (map entry_pages (wrb_entries descq1 n))) mod unat (qc_rngsz (q_conf descq1))
    \<and> map rx_len (rxq_rxs (q_rx_queue descq')) = map rx_len (rxq_rxs (q_rx_queue descq1))
        @ concat (map (\<lambda>x. page_lens (entry_pages x) (entry_bytes x)) (wrb_entries descq1 n))
    \<and> rxq_dlen (q_rx_queue descq') = rxq_dlen (q_rx_queue descq1)
        + sum_list (map (\<lambda>x. sum_list (page_lens (entry_pages x) (entry_bytes x))) (wrb_entries descq1 n))
    \<and> pages_delivered descq1 pidx1 (concat (map (\<lambda>x. page_lens (entry_pages x) (entry_bytes x)) (wrb_entries descq1 n))) descq'"
    using st Suc.prems ents fr by (intro Suc.IH) auto
  then show ?case
    using st ents fr pages_delivered_trans [OF st(10), of pidx1]
    by (auto simp: mod_simps add_ac simp del: wrb_loop.simps)
qed

lemma page_lens_sum:
  "sum_list (page_lens (entry_pages entry) (entry_bytes entry)) = entry_bytes entry"
proof -
  have gen: "unat (sum_list (page_lens n len)) = min (unat len) (n * 4096)" if "unat len \<le> 0xFFFF" for n len
    using that
  proof (induction n arbitrary: len)
    case (Suc n)
    let ?m = "min len PAGE_SIZE"
    have m: "unat ?m = min (unat len) 4096"
      by (simp add: min_def word_le_nat_alt)
    have sub: "unat (len - ?m) = unat len - unat ?m"
      by (rule unat_sub_le) simp
    have ih: "unat (sum_list (page_lens n (len - ?m))) = min (unat (len - ?m)) (n * 4096)"
      using Suc.prems sub by (intro Suc.IH) simp
    have "unat (?m + sum_list (page_lens n (len - ?m))) = unat ?m + unat (sum_list (page_lens n (len - ?m)))"
      using ih sub m Suc.prems by (intro unat_add_small) (auto simp: min_def)
    then show ?case
      using ih sub m by (auto simp: min_def split: if_splits)
  qed simp
  have le: "unat (entry_bytes entry) \<le> 0xFFFF"
  proof -
    have "drop_bit 4 (wrb_word0 entry) AND 0xFFFF \<le> (0xFFFF :: u64)"
      by (rule word_and_le1)
    then have "unat (drop_bit 4 (wrb_word0 entry) AND 0xFFFF) \<le> 0xFFFF"
      by (simp add: word_le_nat_alt)
    then show ?thesis
      unfolding entry_bytes_def unsigned_ucast_eq using take_bit_nat_less_eq_self order_trans by blast
  qed
  have "entry_bytes entry + PAGE_SIZE - 1 = entry_bytes entry + 4095"
    by simp
  moreover have "unat (entry_bytes entry + 4095) = unat (entry_bytes entry) + 4095"
    using le unat_add_small [of "entry_bytes entry" 4095] by simp
  ultimately have "unat (entry_bytes entry + PAGE_SIZE - 1) = unat (entry_bytes entry) + 4095"
    by (simp only:)
  then have "entry_pages entry = (unat (entry_bytes entry) + 4095) div 4096"
    unfolding entry_pages_def unat_drop_bit_eq by (simp only: drop_bit_eq_div) simp
  then have "unat (entry_bytes entry) \<le> entry_pages entry * 4096"
    by simp
  then show ?thesis
    using gen [OF le, of "entry_pages entry"] by (simp add: word_unat_eq_iff)
qed

section \<open>Completing read requests\<close>

lemma check_rx_loop_frame:
  "\<exists>w p d. check_rx_loop dlen descq cbs = descq\<lparr>q_work_list := w, q_pend_list := p, q_done := d\<rparr>"
proof (induction cbs arbitrary: dlen descq)
  case Nil
  show ?case
    by (intro exI [of _ "q_work_list descq"] exI [of _ "q_pend_list descq"] exI [of _ "q_done descq"]) simp
next
  case (Cons cb cbs)
  show ?case
  proof (cases "dlen < cb_offset cb")
    case True
    then show ?thesis
      by (intro exI [of _ "q_work_list descq"] exI [of _ "q_pend_list descq"] exI [of _ "q_done descq"]) simp
  next
    case False
    then show ?thesis
      using Cons.IH [of "dlen - cb_offset cb" "qdma_sgt_req_done descq cb None"]
      by (auto simp: qdma_sgt_req_done_def Let_def)
  qed
qed

text \<open>How many of the waiting reads \<open>dlen\<close> received bytes satisfy, one after the other.\<close>

fun reads_served :: "nat \<Rightarrow> qdma_sg_req list \<Rightarrow> nat" where
  "reads_served dlen [] = 0"
| "reads_served dlen (cb # cbs) =
     (if dlen < unat (cb_offset cb) then 0 else Suc (reads_served (dlen - unat (cb_offset cb)) cbs))"

lemma check_rx_loop_served:
  assumes "reqs_ok descq" and "q_pend_list descq = cbs"
  shows "check_rx_loop dlen descq cbs =
    descq\<lparr>q_pend_list := drop (reads_served (unat dlen) cbs) cbs,
          q_done := q_done descq @ map req_finished (take (reads_served (unat dlen) cbs) cbs)\<rparr>"
  using assms
proof (induction cbs arbitrary: dlen descq)
  case (Cons cb cbs)
  show ?case
  proof (cases "dlen < cb_offset cb")
    case True
    then show ?thesis
      using Cons.prems by (simp add: word_less_nat_alt)
  next
    case False
    let ?d = "qdma_sgt_req_done descq cb None"
    have fin: "?d = descq\<lparr>q_pend_list := cbs, q_done := q_done descq @ [req_finished cb]\<rparr>"
      using req_done_head Cons.prems by simp
    have "reqs_ok ?d"
      using Cons.prems unfolding fin by (auto simp: reqs_ok_def)
    moreover have "unat (dlen - cb_offset cb) = unat dlen - unat (cb_offset cb)"
      using False by (intro unat_sub_le) simp
    ultimately show ?thesis
      using Cons.IH [of ?d "dlen - cb_offset cb"] False
      by (simp add: fin word_less_nat_alt not_less)
  qed
qed simp

text \<open>
  When data has arrived, the waiting reads are completed in order of submission, as long as
  the bytes received cover what each of them still misses; the first read that is not covered
  and all reads behind it keep waiting, nothing else changes.
\<close>

lemma check_rx_completes_in_order:
  assumes "reqs_ok descq" and "k = reads_served (unat (rxq_dlen (q_rx_queue descq))) (q_pend_list descq)"
  shows "check_rx_request_completed descq =
    descq\<lparr>q_pend_list := drop k (q_pend_list descq),
          q_done := q_done descq @ map req_finished (take k (q_pend_list descq))\<rparr>
    \<and> sum_list (map (unat \<circ> cb_offset) (take k (q_pend_list descq))) \<le> unat (rxq_dlen (q_rx_queue descq))
    \<and> (k < length (q_pend_list descq) \<longrightarrow>
        unat (rxq_dlen (q_rx_queue descq)) < sum_list (map (unat \<circ> cb_offset) (take (Suc k) (q_pend_list descq))))"
proof -
  have "sum_list (map (unat \<circ> cb_offset) (take (reads_served n cbs) cbs)) \<le> n
    \<and> (reads_served n cbs < length cbs \<longrightarrow>
        n < sum_list (map (unat \<circ> cb_offset) (take (Suc (reads_served n cbs)) cbs)))" for n cbs
    by (induction n cbs rule: reads_served.induct) auto
  then show ?thesis
    using check_rx_loop_served [OF assms(1) refl] assms(2)
    unfolding check_rx_request_completed_def by blast
qed

section \<open>Serving completions\<close>

lemma wrb_budget_reaches:
  assumes "q_pidx_wrb descq < qc_rngsz (q_conf descq)" and "q_cidx_wrb descq < qc_rngsz (q_conf descq)"
  shows "(unat (q_cidx_wrb descq) + unat (wrb_budget descq)) mod unat (qc_rngsz (q_conf descq)) =
    unat (q_pidx_wrb descq)"
proof -
  let ?p = "q_pidx_wrb descq" and ?c = "q_cidx_wrb descq" and ?n = "qc_rngsz (q_conf descq)"
  have lt: "unat ?p < unat ?n" "unat ?c < unat ?n"
    using assms by (simp_all add: word_less_nat_alt)
  consider "?p > ?c" | "?p < ?c" | "?p = ?c"
    by (meson linorder_less_linear)
  then show ?thesis
  proof cases
    case 1
    then have "unat (?p - ?c) = unat ?p - unat ?c"
      by (intro unat_sub_le) simp
    then show ?thesis
      using 1 lt by (simp add: wrb_budget_def word_less_nat_alt)
  next
    case 2
    have "unat (?n - ?c) = unat ?n - unat ?c"
      using assms by (intro unat_sub_le) simp
    moreover from this have "unat (?p + (?n - ?c)) = unat ?p + unat (?n - ?c)"
      using 2 lt unat_lt_u32 [of ?n] by (intro unat_add_small) (simp add: word_less_nat_alt)
    ultimately show ?thesis
      using 2 lt by (simp add: wrb_budget_def word_less_nat_alt not_less)
  next
    case 3
    then show ?thesis
      using lt by (simp add: wrb_budget_def)
  qed
qed

lemma intr_coal_served_safe:
  "intr_coal_served E vf xdev descq e = (rv, xdev', e') \<Longrightarrow>
   (x_intr_coal_en xdev \<Longrightarrow> x_intr_coal_list xdev \<noteq> []) \<Longrightarrow> rv = Inr ()"
  by (auto simp: intr_coal_served_def Let_def split: if_splits list.splits)

lemma check_rx_rx_ok: "rx_ok (check_rx_request_completed descq) = rx_ok descq"
  "q_cidx_wrb (check_rx_request_completed descq) = q_cidx_wrb descq"
  "q_pidx (check_rx_request_completed descq) = q_pidx descq"
  "q_rx_queue (check_rx_request_completed descq) = q_rx_queue descq" "q_conf (check_rx_request_completed descq) = q_conf descq"
  "q_st_rx_fl (check_rx_request_completed descq) = q_st_rx_fl descq"
  using check_rx_loop_frame [of "rxq_dlen (q_rx_queue descq)" descq "q_pend_list descq"]
  by (auto simp: check_rx_request_completed_def rx_ok_def fl_ring_ok_def)

lemma st_c2h_wb_run:
  assumes "q_desc_wrb descq \<noteq> None" and "x_intr_coal_en xdev \<longrightarrow> x_intr_coal_list xdev \<noteq> []"
    and "d = descq\<lparr>q_pidx_wrb := ucast (wrb_wb_pidx (q_desc_wrb_wb descq))\<rparr>"
    and "wrb_loop E (unat (wrb_budget d)) (q_pidx descq) d e = (r, d1, e1)"
    and "descq_st_c2h_wb E vf xdev descq e = (rv, xdev', descq', e')"
  shows "(\<forall>err. r = Inl err \<longrightarrow> rv = Inl err \<and> descq' = d1)
    \<and> (\<forall>pidx. r = Inr pidx \<longrightarrow> rv = Inr () \<and> descq' =
         (if wrb_budget d = 0 then d1 else check_rx_request_completed (d1\<lparr>q_pidx := pidx\<rparr>)))"
proof -
  have run: "descq_st_c2h_wb E vf xdev descq e =
      (case r of Inl err \<Rightarrow> (Inl err, xdev, d1, e1)
       | Inr pidx \<Rightarrow> if unat (wrb_budget d) = 0 then (Inr (), xdev, d1, e1)
                     else rx_finish E vf xdev d1 pidx e1)"
    using assms(1,3,4) by (cases r) (auto simp: descq_st_c2h_wb_def Let_def)
  have fin: "\<exists>x e2. rx_finish E vf xdev d1 pidx e1 =
      (Inr (), x, check_rx_request_completed (d1\<lparr>q_pidx := pidx\<rparr>), e2)" for pidx
  proof -
    let ?d2 = "d1\<lparr>q_pidx := pidx\<rparr>"
    have "\<exists>x e3. intr_coal_served E vf xdev ?d2 e2 = (Inr (), x, e3)" for e2
      using intr_coal_served_safe [of E vf xdev ?d2 e2] assms(2)
      by (cases "intr_coal_served E vf xdev ?d2 e2") auto
    moreover have "\<exists>e2. rx_finish E vf xdev d1 pidx e1 =
        (case intr_coal_served E vf xdev ?d2 e2 of
           (Inl err, xdev, e) \<Rightarrow> (Inl err, xdev, ?d2, e)
         | (Inr _, xdev, e) \<Rightarrow> (Inr (), xdev, check_rx_request_completed ?d2, e))"
      unfolding rx_finish_def Let_def by (rule exI, rule refl)
    ultimately show ?thesis
      by (metis (no_types, lifting) case_prod_conv old.sum.simps(6))
  qed
  show ?thesis
  proof (cases r)
    case (Inl err)
    then show ?thesis
      using run assms(5) by simp
  next
    case (Inr pidx)
    then show ?thesis
      using run assms(5) fin [of pidx] by (cases "wrb_budget d = 0") (auto simp: unat_eq_0)
  qed
qed

lemma rx_ok_set_pidx: "rx_ok descq \<Longrightarrow> pidx < qc_rngsz (q_conf descq) \<Longrightarrow> rx_ok (descq\<lparr>q_pidx := pidx\<rparr>)"
  by (auto simp: rx_ok_def fl_ring_ok_def)

lemma st_c2h_wb_loop:
  assumes "rx_ok descq" and "ucast (wrb_wb_pidx (q_desc_wrb_wb descq)) < q_rngsz_wrb descq"
    and "d = descq\<lparr>q_pidx_wrb := ucast (wrb_wb_pidx (q_desc_wrb_wb descq))\<rparr>"
  shows "wrb_pos_ok d" "fl_ring_ok d" "q_pidx d < qc_rngsz (q_conf d)" "q_desc_wrb d \<noteq> None"
    "(unat (q_cidx_wrb d) + unat (wrb_budget d)) mod unat (q_rngsz_wrb d) =
       unat (ucast (wrb_wb_pidx (q_desc_wrb_wb descq)) :: u32)"
  using assms wrb_budget_reaches [of d] by (auto simp: rx_ok_def wrb_pos_ok_def fl_ring_ok_def)

text \<open>
  C29: Serving the completions of a streaming card-to-host queue is safe and keeps the receive
  ring consistent, on every branch: whatever the entries contain and whether allocations
  succeed or fail, no slot outside the rings is touched, every descriptor carries the DMA
  address of the page behind it, and the indices stay in their rings. If the call succeeds,
  all entries up to the index the device reported are consumed.
\<close>

theorem st_c2h_wb_ring_ok:
  assumes "rx_ok descq" and "ucast (wrb_wb_pidx (q_desc_wrb_wb descq)) < q_rngsz_wrb descq"
    and "x_intr_coal_en xdev \<longrightarrow> x_intr_coal_list xdev \<noteq> []"
    and "descq_st_c2h_wb E vf xdev descq e = (rv, xdev', descq', e')"
  shows "rv \<noteq> Inl OOPS \<and> rx_ok descq'
    \<and> (rv = Inr () \<longrightarrow> q_cidx_wrb descq' = ucast (wrb_wb_pidx (q_desc_wrb_wb descq)))"
proof -
  define d where d: "d = descq\<lparr>q_pidx_wrb := ucast (wrb_wb_pidx (q_desc_wrb_wb descq))\<rparr>"
  note pre = st_c2h_wb_loop [OF assms(1,2) d]
  obtain r d1 e1 where loop: "wrb_loop E (unat (wrb_budget d)) (q_pidx d) d e = (r, d1, e1)" "r \<noteq> Inl OOPS"
    "rx_frame d d1" "fl_ring_ok d1" "wrb_pos_ok d1"
    "\<forall>pidx'. r = Inr pidx' \<longrightarrow> pidx' < qc_rngsz (q_conf d)
      \<and> unat (q_cidx_wrb d1) = (unat (q_cidx_wrb d) + unat (wrb_budget d)) mod unat (q_rngsz_wrb d)"
    using wrb_loop_safe [OF pre(1-3), of E "unat (wrb_budget d)" e] by blast
  have ne: "q_desc_wrb descq \<noteq> None" and pidx: "q_pidx d = q_pidx descq"
    using pre(4) by (simp_all add: d)
  have run: "(\<forall>err. r = Inl err \<longrightarrow> rv = Inl err \<and> descq' = d1)
    \<and> (\<forall>pidx. r = Inr pidx \<longrightarrow> rv = Inr () \<and> descq' =
         (if wrb_budget d = 0 then d1 else check_rx_request_completed (d1\<lparr>q_pidx := pidx\<rparr>)))"
    using st_c2h_wb_run [OF ne assms(3) d loop(1) [unfolded pidx] assms(4)] .
  note fr = rx_frame_simps [OF loop(3)]
  have ok1: "rx_ok d1"
    using loop fr pre(3) assms(1) by (simp add: rx_ok_alt d)
  have ok2: "rx_ok (d1\<lparr>q_pidx := pidx\<rparr>)" if "r = Inr pidx" for pidx
    using rx_ok_set_pidx [OF ok1, of pidx] loop(6) fr(1) that by simp
  have cidx: "q_cidx_wrb d1 = ucast (wrb_wb_pidx (q_desc_wrb_wb descq))" if "r = Inr pidx" for pidx
    using loop(6) that pre(5) by (simp add: word_unat_eq_iff)
  show ?thesis
    using run loop(2) ok1 ok2 cidx by (cases r) (auto simp: check_rx_rx_ok)
qed

text \<open>
  C19: The completions deliver the pages the device reported. For every entry up to the reported
  index, in order, its bytes are appended to the receive queue in pages of at most \<open>PAGE_SIZE\<close> bytes;
  the byte count of the queue grows by the lengths of the entries; and the producer index moves on by
  the number of pages used. The pages are the ones the device filled: the \<open>j\<close>-th page appended is
  the page behind the \<open>j\<close>-th slot of the free list from the producer index on, around the ring,
  read from its start (no page, if the slot could not be refilled); and the slots after those keep
  their pages.

  This holds for a consistent queue without user defined data, when no entry has the error flag and no allocation of a
  node fails. That the pages are those of the free list holds as long as the device uses
  no slot twice before the call, that is, reports at most as many pages as the ring has slots.
\<close>

theorem st_c2h_wb_delivers:
  assumes "rx_ok descq" and "ucast (wrb_wb_pidx (q_desc_wrb_wb descq)) < q_rngsz_wrb descq"
    and "x_intr_coal_en xdev \<longrightarrow> x_intr_coal_list xdev \<noteq> []"
    and "kmalloc_ok E" and "\<not> q_st_c2h_wrb_udd_en descq"
    and "entries = wrb_entries descq
      (unat (wrb_budget (descq\<lparr>q_pidx_wrb := ucast (wrb_wb_pidx (q_desc_wrb_wb descq))\<rparr>)))"
    and "\<forall>entry\<in>set entries. \<not> entry_err entry"
    and "descq_st_c2h_wb E vf xdev descq e = (rv, xdev', descq', e')"
  shows "rv = Inr ()
    \<and> map rx_len (rxq_rxs (q_rx_queue descq')) = map rx_len (rxq_rxs (q_rx_queue descq))
        @ concat (map (\<lambda>x. page_lens (entry_pages x) (entry_bytes x)) entries)
    \<and> rxq_dlen (q_rx_queue descq') = rxq_dlen (q_rx_queue descq) + sum_list (map entry_bytes entries)
    \<and> unat (q_pidx descq') =
        (unat (q_pidx descq) + sum_list (map entry_pages entries)) mod unat (qc_rngsz (q_conf descq))
    \<and> (sum_list (map entry_pages entries) \<le> unat (qc_rngsz (q_conf descq)) \<longrightarrow>
        rxq_rxs (q_rx_queue descq') = rxq_rxs (q_rx_queue descq)
          @ rx_nodes (\<lambda>j. fl_page descq (unat (q_pidx descq) + j))
              (concat (map (\<lambda>x. page_lens (entry_pages x) (entry_bytes x)) entries))
        \<and> (\<forall>j. sum_list (map entry_pages entries) \<le> j \<and> j < unat (qc_rngsz (q_conf descq)) \<longrightarrow>
              fl_page descq' (unat (q_pidx descq) + j) = fl_page descq (unat (q_pidx descq) + j)))"
proof -
  define d where d: "d = descq\<lparr>q_pidx_wrb := ucast (wrb_wb_pidx (q_desc_wrb_wb descq))\<rparr>"
  note pre = st_c2h_wb_loop [OF assms(1,2) d]
  have ents: "wrb_entries d (unat (wrb_budget d)) = entries"
    using assms(6) by (simp add: d wrb_entries_def)
  obtain pidx d1 e1 where loop: "wrb_loop E (unat (wrb_budget d)) (q_pidx d) d e = (Inr pidx, d1, e1)"
    "unat pidx = (unat (q_pidx d) + sum_list (map entry_pages entries)) mod unat (qc_rngsz (q_conf d))"
    "map rx_len (rxq_rxs (q_rx_queue d1)) = map rx_len (rxq_rxs (q_rx_queue d))
        @ concat (map (\<lambda>x. page_lens (entry_pages x) (entry_bytes x)) entries)"
    "rxq_dlen (q_rx_queue d1) = rxq_dlen (q_rx_queue d)
        + sum_list (map (\<lambda>x. sum_list (page_lens (entry_pages x) (entry_bytes x))) entries)"
    "pages_delivered d (q_pidx d) (concat (map (\<lambda>x. page_lens (entry_pages x) (entry_bytes x)) entries)) d1"
    using wrb_loop_delivers [OF pre(1-3) assms(4), of "unat (wrb_budget d)" e] assms(5,7) ents
    by (auto simp: d)
  have ne: "q_desc_wrb descq \<noteq> None" and pidx: "q_pidx d = q_pidx descq"
    using pre(4) by (simp_all add: d)
  have run: "rv = Inr () \<and> descq' =
      (if wrb_budget d = 0 then d1 else check_rx_request_completed (d1\<lparr>q_pidx := pidx\<rparr>))"
    using st_c2h_wb_run [OF ne assms(3) d loop(1) [unfolded pidx] assms(8)] by simp
  have zero: "pidx = q_pidx d \<and> d1 = d \<and> entries = []" if "wrb_budget d = 0"
    using loop(1) ents that by (auto simp: wrb_entries_def)
  have lt: "unat (q_pidx descq) < unat (qc_rngsz (q_conf descq))"
    using assms(1) by (simp add: rx_ok_def word_less_nat_alt)
  have "pages_delivered descq (q_pidx descq) (concat (map (\<lambda>x. page_lens (entry_pages x) (entry_bytes x)) entries)) descq'"
    using run loop(5) by (auto simp: d pages_delivered_def fl_page_def check_rx_rx_ok)
  then have pages: "pages_delivered descq (q_pidx descq) (concat (map (\<lambda>x. page_lens (entry_pages x) (entry_bytes x)) entries)) descq'
    \<and> length (concat (map (\<lambda>x. page_lens (entry_pages x) (entry_bytes x)) entries)) = sum_list (map entry_pages entries)"
    by (simp add: length_concat o_def)
  have "rv = Inr ()
    \<and> map rx_len (rxq_rxs (q_rx_queue descq')) = map rx_len (rxq_rxs (q_rx_queue descq))
        @ concat (map (\<lambda>x. page_lens (entry_pages x) (entry_bytes x)) entries)
    \<and> rxq_dlen (q_rx_queue descq') = rxq_dlen (q_rx_queue descq) + sum_list (map entry_bytes entries)
    \<and> unat (q_pidx descq') =
        (unat (q_pidx descq) + sum_list (map entry_pages entries)) mod unat (qc_rngsz (q_conf descq))"
    using run loop zero lt
    by (cases "wrb_budget d = 0") (auto simp: d check_rx_rx_ok page_lens_sum)
  then show ?thesis
    using pages unfolding pages_delivered_def by (auto simp del: length_concat)
qed

text \<open>
  An entry with the error flag blocks the queue: when the entry at the consumer index has it,
  serving completions fails with \<open>-EIO\<close> and leaves the consumer index where it is, so that
  every later call meets the same entry again and no later completion is ever delivered.
\<close>

lemma st_c2h_wb_error_blocks:
  assumes "rx_ok descq" and "ucast (wrb_wb_pidx (q_desc_wrb_wb descq)) \<noteq> q_cidx_wrb descq"
    and "ucast (wrb_wb_pidx (q_desc_wrb_wb descq)) < q_rngsz_wrb descq"
    and "\<not> q_st_c2h_wrb_udd_en descq"
    and "entry_err (the (q_desc_wrb descq) ! unat (q_cidx_wrb descq))"
  shows "descq_st_c2h_wb E vf xdev descq e =
    (Inl EIO, xdev, descq\<lparr>q_pidx_wrb := ucast (wrb_wb_pidx (q_desc_wrb_wb descq))\<rparr>, e)"
proof -
  define d where d: "d = descq\<lparr>q_pidx_wrb := ucast (wrb_wb_pidx (q_desc_wrb_wb descq))\<rparr>"
  note pre = st_c2h_wb_loop [OF assms(1,3) d]
  have "unat (wrb_budget d) \<noteq> 0"
  proof
    assume "unat (wrb_budget d) = 0"
    then have "unat (q_cidx_wrb d) mod unat (q_rngsz_wrb d) = unat (ucast (wrb_wb_pidx (q_desc_wrb_wb descq)) :: u32)"
      using pre(5) by simp
    then have "unat (q_cidx_wrb descq) = unat (ucast (wrb_wb_pidx (q_desc_wrb_wb descq)) :: u32)"
      using assms(1) by (auto simp: d rx_ok_def word_less_nat_alt)
    then show False
      using assms(2) by (simp add: word_unat_eq_iff)
  qed
  then obtain n where n: "unat (wrb_budget d) = Suc n"
    by (cases "unat (wrb_budget d)") auto
  obtain wrbs where w: "q_desc_wrb descq = Some wrbs" "q_desc_wrb_cur descq = unat (q_cidx_wrb descq)"
    "unat (q_cidx_wrb descq) < length wrbs"
    using assms(1) by (auto simp: rx_ok_def word_less_nat_alt)
  have "wrb_loop E (Suc n) (q_pidx d) d e = (Inl EIO, d, e)"
    using w assms(4,5) by (simp add: d entry_udd_def entry_err_def Let_def)
  then show ?thesis
    using n w by (simp add: descq_st_c2h_wb_def Let_def d)
qed

section \<open>Concrete runs\<close>

text \<open>
  A receive queue of four slots; the device has written two entries, of 5000 and 100 bytes
  (\<open>sample_rx_queue\<close>), or an entry with the error flag first (\<open>sample_rx_err\<close>).
\<close>

definition sample_entry :: "u32 \<Rightarrow> bool \<Rightarrow> u8 list" where
  "sample_entry len err =
     [ucast (push_bit 4 len) OR (if err then 4 else 0), ucast (drop_bit 4 len), ucast (drop_bit 12 len),
      0, 0, 0, 0, 0]"

definition sample_rx_with :: "u8 list list \<Rightarrow> qdma_descq" where
  "sample_rx_with wrbs =
     (sample_queue (sample_conf True True)
        (Some (C2H_ring (map (\<lambda>i. \<lparr>c2h_dst_addr = 0x10000 * i\<rparr>) [1, 2, 3, 4]))))
       \<lparr>q_st_rx_fl := Some (map (\<lambda>i. \<lparr>fl_pg = Some (0x7000 * i), fl_dma_addr = 0x10000 * i, fl_len = 0\<rparr>)
          [1, 2, 3, 4]),
        q_desc_wrb := Some wrbs, q_rx_handler := True, q_work_list := [],
        q_desc_wrb_wb := \<lparr>wrb_wb_pidx = 2, wrb_wb_cidx = 0, wrb_wb_color_isr_status = 0\<rparr>\<rparr>"

definition sample_rx_queue :: qdma_descq where
  "sample_rx_queue =
     sample_rx_with [sample_entry 5000 False, sample_entry 100 False, sample_entry 0 False, sample_entry 0 False]"

definition sample_rx_err :: qdma_descq where
  "sample_rx_err =
     sample_rx_with [sample_entry 5000 True, sample_entry 100 False, sample_entry 0 False, sample_entry 0 False]"

lemma sample_rx_ok: "length wrbs = 4 \<Longrightarrow> rx_ok (sample_rx_with wrbs)"
  by (simp add: rx_ok_def fl_ring_ok_def sample_rx_with_def sample_queue_def sample_conf_def)

lemma sample_rx_fields:
  "wrb_wb_pidx (q_desc_wrb_wb (sample_rx_with wrbs)) = 2" "q_rngsz_wrb (sample_rx_with wrbs) = 4"
  "q_cidx_wrb (sample_rx_with wrbs) = 0" "\<not> q_st_c2h_wrb_udd_en (sample_rx_with wrbs)"
  "q_desc_wrb (sample_rx_with wrbs) = Some wrbs" "q_pidx (sample_rx_with wrbs) = 3"
  "qc_rngsz (q_conf (sample_rx_with wrbs)) = 4" "q_pend_list (sample_rx_with wrbs) = []"
  "rxq_dlen (q_rx_queue (sample_rx_with wrbs)) = 0" "rxq_rxs (q_rx_queue (sample_rx_with wrbs)) = []"
  "q_done (sample_rx_with wrbs) = []"
  by (simp_all add: sample_rx_with_def sample_queue_def sample_conf_def)

lemma sample_entry_words:
  "entry_bytes (sample_entry 5000 False) = 5000" "entry_bytes (sample_entry 100 False) = 100"
  "\<not> entry_err (sample_entry 5000 False)" "\<not> entry_err (sample_entry 100 False)"
  "entry_err (sample_entry 5000 True)"
  by (simp_all add: entry_bytes_def entry_err_def wrb_word0_def sample_entry_def)

theorem st_c2h_wb_ring_ok_witness:
  "rx_ok (fst (snd (snd (descq_st_c2h_wb ram_env False sample_xdev sample_rx_err (\<lambda>_. 0)))))"
proof -
  obtain rv x d e where run: "descq_st_c2h_wb ram_env False sample_xdev sample_rx_err (\<lambda>_. 0) = (rv, x, d, e)"
    by (metis surj_pair)
  then show ?thesis
    using st_c2h_wb_ring_ok [OF _ _ _ run] sample_rx_ok sample_rx_fields
    by (simp add: sample_rx_err_def sample_xdev_def)
qed

theorem st_c2h_wb_delivers_witness:
  "map (\<lambda>r. (rx_pg r, rx_offset r, rx_len r)) (rxq_rxs (q_rx_queue (fst (snd (snd
      (descq_st_c2h_wb ram_env False sample_xdev sample_rx_queue (\<lambda>_. 0)))))))
   = [(Some 0x1C000, 0, 4096), (Some 0x7000, 0, 904), (Some 0xE000, 0, 100)]"
proof -
  obtain rv x d e where run: "descq_st_c2h_wb ram_env False sample_xdev sample_rx_queue (\<lambda>_. 0) = (rv, x, d, e)"
    by (metis surj_pair)
  have budget: "unat (wrb_budget (sample_rx_queue\<lparr>q_pidx_wrb := ucast (wrb_wb_pidx (q_desc_wrb_wb sample_rx_queue))\<rparr>)) = 2"
    by (simp add: wrb_budget_def sample_rx_queue_def sample_rx_fields)
  have ents: "wrb_entries sample_rx_queue 2 = [sample_entry 5000 False, sample_entry 100 False]"
    by (simp add: wrb_entries_def sample_rx_queue_def sample_rx_fields upt_rec)
  have pages: "entry_pages (sample_entry 5000 False) = 2" "entry_pages (sample_entry 100 False) = 1"
    by (simp_all add: entry_pages_def sample_entry_words)
  have "page_lens (Suc (Suc 0)) 5000 = [4096, 904]" "page_lens (Suc 0) 100 = [100]"
    by simp_all
  then have lens: "page_lens 2 5000 = [4096, 904]" "page_lens 1 100 = [100]"
    by (simp_all only: numeral_2_eq_2 One_nat_def)
  have slots: "fl_page sample_rx_queue 3 = Some 0x1C000" "fl_page sample_rx_queue 4 = Some 0x7000"
    "fl_page sample_rx_queue 5 = Some 0xE000"
    by (simp_all add: fl_page_def sample_rx_queue_def sample_rx_with_def sample_queue_def sample_conf_def)
  have "kmalloc_ok ram_env" "rx_ok sample_rx_queue"
    by (simp_all add: kmalloc_ok_def sample_rx_queue_def sample_rx_ok)
  then have "rxq_rxs (q_rx_queue d) = rxq_rxs (q_rx_queue sample_rx_queue)
      @ rx_nodes (\<lambda>j. fl_page sample_rx_queue (unat (q_pidx sample_rx_queue) + j))
          (concat (map (\<lambda>x. page_lens (entry_pages x) (entry_bytes x)) [sample_entry 5000 False, sample_entry 100 False]))"
    using st_c2h_wb_delivers [OF _ _ _ _ _ _ _ run, of "[sample_entry 5000 False, sample_entry 100 False]"]
      budget ents sample_entry_words sample_rx_fields pages
    by (simp add: sample_rx_queue_def sample_xdev_def)
  then show ?thesis
    using run slots by (simp add: pages sample_entry_words lens) (simp add: sample_rx_queue_def sample_rx_fields)
qed

lemma st_c2h_wb_error_blocks_witness:
  "fst (descq_st_c2h_wb ram_env False sample_xdev sample_rx_err (\<lambda>_. 0)) = Inl EIO"
  using st_c2h_wb_error_blocks [of sample_rx_err ram_env False sample_xdev "\<lambda>_. 0"]
  by (simp add: sample_rx_err_def sample_rx_ok sample_rx_fields sample_entry_words)

lemma check_rx_completes_in_order_witness:
  "q_done (check_rx_request_completed
      (sample_mm\<lparr>q_pend_list := [sample_req 10], q_work_list := [], q_rx_queue := sample_rxq\<lparr>rxq_dlen := 20\<rparr>\<rparr>))
   = [req_finished (sample_req 10)]"
proof -
  let ?q = "sample_mm\<lparr>q_pend_list := [sample_req 10], q_work_list := [], q_rx_queue := sample_rxq\<lparr>rxq_dlen := 20\<rparr>\<rparr>"
  have "reqs_ok ?q" "q_done ?q = []"
    by (simp_all add: reqs_ok_def sample_simps)
  moreover have "reads_served 20 [sample_req 10] = 1"
    by (simp add: sample_req_def)
  ultimately show ?thesis
    using check_rx_completes_in_order [of ?q 1] by simp
qed

end
