(* ===== verification/Qdma_Context.thy ===== *)
theory Qdma_Context
  imports Qdma_Types Qdma_Samples
begin

text \<open>
  The queue and interrupt contexts (\<open>libqdma/qdma_context.c\<close>): building the context words
  from the configuration of a queue, and, for the physical function, clearing, programming
  and reading them through the indirect interface of \<open>Qdma_Regs\<close>.
\<close>

section \<open>Context layouts (qdma_regs.h)\<close>

definition S_DESC_CTXT_W1_F_QEN :: nat where
  [simp]: "S_DESC_CTXT_W1_F_QEN = 0"

definition S_DESC_CTXT_W1_F_FCRD_EN :: nat where
  [simp]: "S_DESC_CTXT_W1_F_FCRD_EN = 1"

definition S_DESC_CTXT_W1_F_WBI_CHK :: nat where
  [simp]: "S_DESC_CTXT_W1_F_WBI_CHK = 2"

definition S_DESC_CTXT_W1_F_WB_ACC_EN :: nat where
  [simp]: "S_DESC_CTXT_W1_F_WB_ACC_EN = 3"

definition V_DESC_CTXT_W1_FUNC_ID :: "u32 \<Rightarrow> u32" where
  [simp]: "V_DESC_CTXT_W1_FUNC_ID x = push_bit 4 x"

definition V_DESC_CTXT_W1_DSC_SZ :: "u32 \<Rightarrow> u32" where
  [simp]: "V_DESC_CTXT_W1_DSC_SZ x = push_bit 16 x"

definition S_DESC_CTXT_W1_F_MM_CHN :: nat where
  [simp]: "S_DESC_CTXT_W1_F_MM_CHN = 19"

definition S_DESC_CTXT_W1_F_WBK_EN :: nat where
  [simp]: "S_DESC_CTXT_W1_F_WBK_EN = 20"

definition S_DESC_CTXT_W1_F_IRQ_EN :: nat where
  [simp]: "S_DESC_CTXT_W1_F_IRQ_EN = 21"

definition S_WRB_CTXT_W0_F_EN_STAT_DESC :: nat where
  [simp]: "S_WRB_CTXT_W0_F_EN_STAT_DESC = 0"

definition S_WRB_CTXT_W0_F_EN_INT :: nat where
  [simp]: "S_WRB_CTXT_W0_F_EN_INT = 1"

definition V_WRB_CTXT_W0_TRIG_MODE :: "u32 \<Rightarrow> u32" where
  [simp]: "V_WRB_CTXT_W0_TRIG_MODE x = push_bit 2 x"

definition V_WRB_CTXT_W0_FNC_ID :: "u32 \<Rightarrow> u32" where
  [simp]: "V_WRB_CTXT_W0_FNC_ID x = push_bit 5 (x AND 0xFF)"

definition S_WRB_CTXT_W0_F_COLOR :: nat where
  [simp]: "S_WRB_CTXT_W0_F_COLOR = 23"

definition M_WRB_CTXT_W0_BADDR_64 :: u64 where
  [simp]: "M_WRB_CTXT_W0_BADDR_64 = 0xF"

definition L_WRB_CTXT_W0_BADDR_64 :: nat where
  [simp]: "L_WRB_CTXT_W0_BADDR_64 = 4"

definition V_WRB_CTXT_W0_BADDR_64 :: "u32 \<Rightarrow> u32" where
  [simp]: "V_WRB_CTXT_W0_BADDR_64 x = push_bit 28 (x AND 0xF)"

definition M_WRB_CTXT_W2_BADDR_64 :: u64 where
  [simp]: "M_WRB_CTXT_W2_BADDR_64 = 0x3FFFFF"

definition V_WRB_CTXT_W2_BADDR_64 :: "u32 \<Rightarrow> u32" where
  [simp]: "V_WRB_CTXT_W2_BADDR_64 x = push_bit 0 (x AND 0x3FFFFF)"

definition V_WRB_CTXT_W2_DESC_SIZE :: "u32 \<Rightarrow> u32" where
  [simp]: "V_WRB_CTXT_W2_DESC_SIZE x = push_bit 22 x"

definition S_WRB_CTXT_W3_F_VALID :: nat where
  [simp]: "S_WRB_CTXT_W3_F_VALID = 24"

definition V_PFTCH_W0_FNC_ID :: "u32 \<Rightarrow> u32" where
  [simp]: "V_PFTCH_W0_FNC_ID x = push_bit 5 (x AND 0xFF)"

definition S_PFTCH_W0_F_EN_PFTCH :: nat where
  [simp]: "S_PFTCH_W0_F_EN_PFTCH = 27"

definition S_PFTCH_W1_F_VALID :: nat where
  [simp]: "S_PFTCH_W1_F_VALID = 13"

definition S_INT_COAL_W0_F_VALID :: nat where
  [simp]: "S_INT_COAL_W0_F_VALID = 0"

definition V_INT_COAL_W0_VEC_ID :: "u32 \<Rightarrow> u32" where
  [simp]: "V_INT_COAL_W0_VEC_ID x = push_bit 1 x"

definition M_INT_COAL_W0_BADDR_64 :: u64 where
  [simp]: "M_INT_COAL_W0_BADDR_64 = 0x7FFFFF"

definition V_INT_COAL_W0_BADDR_64 :: "u32 \<Rightarrow> u32" where
  [simp]: "V_INT_COAL_W0_BADDR_64 x = push_bit 9 (x AND 0x7FFFFF)"

definition M_INT_COAL_W1_BADDR_64 :: u64 where
  [simp]: "M_INT_COAL_W1_BADDR_64 = 0x1FFFFFFF"

definition V_INT_COAL_W1_BADDR_64 :: "u32 \<Rightarrow> u32" where
  [simp]: "V_INT_COAL_W1_BADDR_64 x = push_bit 0 (x AND 0x1FFFFFFF)"

section \<open>Building context words\<close>

text \<open>
  The buffers are lists of \<open>cnt\<close> words, as left after \<open>memset\<close> and the assignments.
\<close>

definition make_sw_context :: "xlnx_dma_dev \<Rightarrow> qdma_descq \<Rightarrow> nat \<Rightarrow> u32 list res" where
  "make_sw_context xdev descq cnt =
     (if cnt < 4 then Inl EINVAL
      else let d3 = ucast (PCI_DMA_H (q_desc_bus descq));
               d2 = ucast (PCI_DMA_L (q_desc_bus descq));
               d1 = push_bit S_DESC_CTXT_W1_F_QEN 1 OR push_bit S_DESC_CTXT_W1_F_WB_ACC_EN 1
                    OR push_bit S_DESC_CTXT_W1_F_WBI_CHK 1
                    OR V_DESC_CTXT_W1_FUNC_ID (ucast (x_func_id xdev))
                    OR push_bit S_DESC_CTXT_W1_F_WBK_EN 1
                    OR push_bit S_DESC_CTXT_W1_F_IRQ_EN (q_irq_en descq);
               d1 = (if \<not> qc_st (q_conf descq) then
                       d1 OR (V_DESC_CTXT_W1_DSC_SZ (desc_sz_num DESC_SZ_32B)
                              OR push_bit S_DESC_CTXT_W1_F_MM_CHN (ucast (q_channel descq)))
                     else if qc_c2h (q_conf descq) then
                       d1 OR (push_bit S_DESC_CTXT_W1_F_FCRD_EN 1
                              OR V_DESC_CTXT_W1_DSC_SZ (desc_sz_num DESC_SZ_8B))
                     else d1 OR V_DESC_CTXT_W1_DSC_SZ (desc_sz_num DESC_SZ_16B))
           in Inr ([0, d1, d2, d3] @ replicate (cnt - 4) 0))"

definition make_prefetch_context :: "xlnx_dma_dev \<Rightarrow> qdma_descq \<Rightarrow> nat \<Rightarrow> u32 list res" where
  "make_prefetch_context xdev descq cnt =
     (if cnt < 2 then Inl EINVAL
      else let d1 = push_bit S_PFTCH_W1_F_VALID 1;
               d0 = V_PFTCH_W0_FNC_ID (ucast (x_func_id xdev))
                    OR push_bit S_PFTCH_W0_F_EN_PFTCH (q_prefetch_en descq)
           in Inr ([d0, d1] @ replicate (cnt - 2) 0))"

definition make_wrb_context :: "xlnx_dma_dev \<Rightarrow> qdma_descq \<Rightarrow> nat \<Rightarrow> u32 list res" where
  "make_wrb_context xdev descq cnt =
     (if cnt < 4 then Inl EINVAL
      else let bus_64 = push_bit 26 (PCI_DMA_H (q_desc_wrb_bus descq))
                        OR drop_bit 6 (PCI_DMA_L (q_desc_wrb_bus descq));
               v = ucast (bus_64 AND M_WRB_CTXT_W0_BADDR_64);
               d0 = push_bit S_WRB_CTXT_W0_F_EN_STAT_DESC (q_wrb_stat_desc_en descq)
                    OR push_bit S_WRB_CTXT_W0_F_EN_INT (q_irq_en descq)
                    OR V_WRB_CTXT_W0_TRIG_MODE (trig_mode_num (q_wrb_trig_mode descq))
                    OR V_WRB_CTXT_W0_FNC_ID (ucast (x_func_id xdev))
                    OR push_bit S_WRB_CTXT_W0_F_COLOR 1
                    OR V_WRB_CTXT_W0_BADDR_64 v;
               d1 = ucast (drop_bit L_WRB_CTXT_W0_BADDR_64 bus_64 AND 0xFFFFFFFF);
               v = ucast (drop_bit (L_WRB_CTXT_W0_BADDR_64 + 32) bus_64 AND M_WRB_CTXT_W2_BADDR_64);
               d2 = V_WRB_CTXT_W2_BADDR_64 v
                    OR V_WRB_CTXT_W2_DESC_SIZE (desc_sz_num (q_st_c2h_wrb_desc_size descq));
               d3 = push_bit S_WRB_CTXT_W3_F_VALID 1
           in Inr ([d0, d1, d2, d3] @ replicate (cnt - 4) 0))"

text \<open>
  The interrupt contexts, two words per vector. An entry missing in \<open>intr_coal_list\<close> is an
  access outside the allocated array.
\<close>

definition intr_context_words :: "nat \<Rightarrow> intr_coal_conf \<Rightarrow> u32 list" where
  "intr_context_words i entry =
     (let bus_64 = push_bit 12 (PCI_DMA_H (ic_intr_ring_bus entry))
                   OR drop_bit 9 (PCI_DMA_L (ic_intr_ring_bus entry));
          v0 = ucast (bus_64 AND M_INT_COAL_W0_BADDR_64);
          v1 = ucast (bus_64 AND M_INT_COAL_W1_BADDR_64)
      in [push_bit S_INT_COAL_W0_F_VALID 1 OR V_INT_COAL_W0_VEC_ID (of_nat i)
            OR V_INT_COAL_W0_BADDR_64 v0,
          V_INT_COAL_W1_BADDR_64 v1])"

definition make_intr_context :: "xlnx_dma_dev \<Rightarrow> nat \<Rightarrow> u32 list res" where
  "make_intr_context xdev cnt =
     (if x_intr_coal_en xdev then Inr (replicate cnt 0)
      else if cnt < 2 * x_num_vecs xdev then Inl EINVAL
      else if length (x_intr_coal_list xdev) < x_num_vecs xdev then Inl OOPS
      else Inr (concat (map (\<lambda>i. intr_context_words i (x_intr_coal_list xdev ! i)) [0..<x_num_vecs xdev])
                @ replicate (cnt - 2 * x_num_vecs xdev) 0))"

section \<open>Programming contexts (physical function)\<close>

record hw_descq_context =
  ctx_sw :: "u32 list"
  ctx_prefetch :: "u32 list"
  ctx_wrb :: "u32 list"
  ctx_hw :: "u32 list"
  ctx_cr :: "u32 list"

text \<open>One call of \<open>hw_indirect_ctext_prog\<close> that returns no data.\<close>

definition ctext_op ::
  "'e env \<Rightarrow> u32 \<Rightarrow> ind_ctxt_cmd_op \<Rightarrow> ind_ctxt_cmd_sel \<Rightarrow> u32 list option \<Rightarrow> nat \<Rightarrow> bool
     \<Rightarrow> 'e \<Rightarrow> unit res \<times> 'e" where
  "ctext_op E qid_hw op sel data cnt verify e =
     (let ((rv, data'), e') = hw_indirect_ctext_prog E qid_hw op sel data cnt verify e in (rv, e'))"

definition qdma_descq_context_clear ::
  "'e env \<Rightarrow> u32 \<Rightarrow> bool \<Rightarrow> bool \<Rightarrow> 'e \<Rightarrow> unit res \<times> 'e" where
  "qdma_descq_context_clear E qid_hw st c2h e =
     res_then (ctext_op E qid_hw QDMA_CTXT_CMD_CLR
       (if c2h then QDMA_CTXT_SEL_SW_C2H else QDMA_CTXT_SEL_SW_H2C) None 0 False e) (\<lambda>e.
     res_then (ctext_op E qid_hw QDMA_CTXT_CMD_CLR
       (if c2h then QDMA_CTXT_SEL_HW_C2H else QDMA_CTXT_SEL_HW_H2C) None 0 False e) (\<lambda>e.
     res_then (ctext_op E qid_hw QDMA_CTXT_CMD_CLR
       (if c2h then QDMA_CTXT_SEL_CR_C2H else QDMA_CTXT_SEL_CR_H2C) None 0 False e) (\<lambda>e.
     if st \<and> c2h then
       res_then (ctext_op E qid_hw QDMA_CTXT_CMD_WR QDMA_CTXT_SEL_PFTCH
         (Some [0, 0, 0, 0]) 4 True e) (\<lambda>e.
       res_then (ctext_op E qid_hw QDMA_CTXT_CMD_CLR QDMA_CTXT_SEL_WRB None 0 False e) (\<lambda>e.
       (Inr (), e)))
     else (Inr (), e))))"

definition qdma_descq_context_program ::
  "'e env \<Rightarrow> u32 \<Rightarrow> bool \<Rightarrow> bool \<Rightarrow> hw_descq_context \<Rightarrow> 'e \<Rightarrow> unit res \<times> 'e" where
  "qdma_descq_context_program E qid_hw st c2h context e =
     res_then (qdma_descq_context_clear E qid_hw st c2h e) (\<lambda>e.
     res_then (ctext_op E qid_hw QDMA_CTXT_CMD_WR
       (if c2h then QDMA_CTXT_SEL_SW_C2H else QDMA_CTXT_SEL_SW_H2C)
       (Some (ctx_sw context)) 4 True e) (\<lambda>e.
     if \<not> st \<or> \<not> c2h then (Inr (), e)
     else
       res_then (ctext_op E qid_hw QDMA_CTXT_CMD_WR QDMA_CTXT_SEL_PFTCH
         (Some (ctx_prefetch context)) 2 True e) (\<lambda>e.
       res_then (ctext_op E qid_hw QDMA_CTXT_CMD_WR QDMA_CTXT_SEL_WRB
         (Some (ctx_wrb context)) 4 True e) (\<lambda>e.
       (Inr (), e)))))"

definition zero_context :: hw_descq_context where
  "zero_context = \<lparr>ctx_sw = replicate 4 0, ctx_prefetch = replicate 2 0, ctx_wrb = replicate 4 0,
     ctx_hw = replicate 2 0, ctx_cr = replicate 1 0\<rparr>"

text \<open>The three context builders are called for their effect on the buffer; their results are ignored.\<close>

definition make_context :: "xlnx_dma_dev \<Rightarrow> qdma_descq \<Rightarrow> hw_descq_context" where
  "make_context xdev descq =
     (let upd = (\<lambda>old r. case r of Inl _ \<Rightarrow> old | Inr d \<Rightarrow> d);
          c = zero_context\<lparr>ctx_sw := upd (ctx_sw zero_context) (make_sw_context xdev descq 4)\<rparr>
      in if qc_st (q_conf descq) \<and> qc_c2h (q_conf descq)
         then c\<lparr>ctx_prefetch := upd (ctx_prefetch c) (make_prefetch_context xdev descq 2),
                ctx_wrb := upd (ctx_wrb c) (make_wrb_context xdev descq 4)\<rparr>
         else c)"

definition qdma_descq_context_setup ::
  "'e env \<Rightarrow> xlnx_dma_dev \<Rightarrow> qdma_descq \<Rightarrow> 'e \<Rightarrow> unit res \<times> 'e" where
  "qdma_descq_context_setup E xdev descq e =
     (let e1 = (if q_irq_en descq \<noteq> 0
                then hw_prog_qid2vec E (q_qidx_hw descq) (qc_c2h (q_conf descq))
                       (of_nat (q_intr_id descq)) (x_intr_coal_en xdev) e
                else e)
      in res_then (qdma_descq_context_clear E (q_qidx_hw descq) (qc_st (q_conf descq))
                     (qc_c2h (q_conf descq)) e1)
           (qdma_descq_context_program E (q_qidx_hw descq) (qc_st (q_conf descq))
              (qc_c2h (q_conf descq)) (make_context xdev descq)))"

text \<open>
  Reading a context. The caller's structure is cleared first; when a read fails it holds what
  has been read up to then.
\<close>

definition ctext_rd ::
  "'e env \<Rightarrow> u32 \<Rightarrow> ind_ctxt_cmd_sel \<Rightarrow> nat \<Rightarrow> 'e \<Rightarrow> (unit res \<times> u32 list) \<times> 'e" where
  "ctext_rd E qid_hw sel cnt e =
     (let ((rv, data), e') =
            hw_indirect_ctext_prog E qid_hw QDMA_CTXT_CMD_RD sel (Some (replicate cnt 0)) cnt False e
      in ((rv, the data), e'))"

definition qdma_descq_context_read ::
  "'e env \<Rightarrow> u32 \<Rightarrow> bool \<Rightarrow> bool \<Rightarrow> 'e \<Rightarrow> (unit res \<times> hw_descq_context) \<times> 'e" where
  "qdma_descq_context_read E qid_hw st c2h e =
     (let ((rv, sw), e) = ctext_rd E qid_hw (if c2h then QDMA_CTXT_SEL_SW_C2H else QDMA_CTXT_SEL_SW_H2C) 4 e;
          c = zero_context\<lparr>ctx_sw := sw\<rparr>
      in if rv \<noteq> Inr () then ((rv, c), e)
      else let ((rv, hw), e) = ctext_rd E qid_hw (if c2h then QDMA_CTXT_SEL_HW_C2H else QDMA_CTXT_SEL_HW_H2C) 2 e;
          c = c\<lparr>ctx_hw := hw\<rparr>
      in if rv \<noteq> Inr () then ((rv, c), e)
      else let ((rv, cr), e) = ctext_rd E qid_hw (if c2h then QDMA_CTXT_SEL_CR_C2H else QDMA_CTXT_SEL_CR_H2C) 1 e;
          c = c\<lparr>ctx_cr := cr\<rparr>
      in if rv \<noteq> Inr () then ((rv, c), e)
      else if \<not> (st \<and> c2h) then ((Inr (), c), e)
      else let ((rv, wrb), e) = ctext_rd E qid_hw QDMA_CTXT_SEL_WRB 4 e; c = c\<lparr>ctx_wrb := wrb\<rparr>
      in if rv \<noteq> Inr () then ((rv, c), e)
      else let ((rv, pftch), e) = ctext_rd E qid_hw QDMA_CTXT_SEL_PFTCH 2 e; c = c\<lparr>ctx_prefetch := pftch\<rparr>
      in ((rv, c), e))"

text \<open>The interrupt contexts are programmed one vector after the other.\<close>

fun intr_context_loop :: "'e env \<Rightarrow> u32 list \<Rightarrow> nat list \<Rightarrow> 'e \<Rightarrow> unit res \<times> 'e" where
  "intr_context_loop E data [] e = (Inr (), e)"
| "intr_context_loop E data (i # is) e =
     res_then (ctext_op E 0 QDMA_CTXT_CMD_CLR QDMA_CTXT_SEL_COAL None 4 False e) (\<lambda>e.
     res_then (ctext_op E 0 QDMA_CTXT_CMD_WR QDMA_CTXT_SEL_COAL (Some (drop (2 * i) data)) 2 True e) (\<lambda>e.
     intr_context_loop E data is e))"

definition qdma_intr_context_setup :: "'e env \<Rightarrow> xlnx_dma_dev \<Rightarrow> 'e \<Rightarrow> unit res \<times> 'e" where
  "qdma_intr_context_setup E xdev e =
     (if \<not> x_intr_coal_en xdev then (Inr (), e)
      else case make_intr_context xdev (2 * XDEV_NUM_IRQ_MAX) of
             Inl err \<Rightarrow> (Inl err, e)
           | Inr data \<Rightarrow> intr_context_loop E data [0..<x_num_vecs xdev] e)"


section \<open>The words mean what was configured\<close>

lemma and_255_u8 [simp]: "(ucast (f :: u8) :: u32) AND 255 = ucast f"
  using ucast_u8_less [of 8 f] by (intro and_mask_eq [of _ 8]) simp_all

lemma PCI_DMA_split: "PCI_DMA_H a = drop_bit 32 a" "PCI_DMA_L a = take_bit 32 a"
  by (simp_all add: PCI_DMA_H_def PCI_DMA_L_def take_bit_eq_mask mask_numeral)

lemma and_take_bit_u64:
  "x AND 15 = take_bit 4 x" "x AND 0x3FFFFF = take_bit 22 x" "x AND 0xFFFFFFFF = take_bit 32 x" for x :: u64
  by (simp_all add: take_bit_eq_mask mask_numeral)

lemma and_take_bit_u32: "x AND 15 = take_bit 4 x" "x AND 0x3FFFFF = take_bit 22 x" for x :: u32
  by (simp_all add: take_bit_eq_mask mask_numeral)

lemma addr_join: "push_bit 32 (ucast (ucast (PCI_DMA_H a) :: u32)) OR ucast (ucast (PCI_DMA_L a) :: u32) = a"
proof (rule bit_word_eqI)
  fix n assume "n < LENGTH(64)"
  then show "bit (push_bit 32 (ucast (ucast (PCI_DMA_H a) :: u32)) OR
      ucast (ucast (PCI_DMA_L a) :: u32) :: u64) n = bit a n"
    by (cases "n < 32") (auto simp: PCI_DMA_split bit_simps)
qed

lemma wrb_bus: "push_bit 26 (PCI_DMA_H a) OR drop_bit 6 (PCI_DMA_L a) = drop_bit 6 a"
proof (rule bit_word_eqI)
  fix n assume "n < LENGTH(64)"
  moreover have "26 \<le> n \<Longrightarrow> 32 + (n - 26) = 6 + n"
    by simp
  ultimately show "bit (push_bit 26 (PCI_DMA_H a) OR drop_bit 6 (PCI_DMA_L a)) n = bit (drop_bit 6 a) n"
    by (cases "n < 26") (auto simp: PCI_DMA_split bit_simps)
qed

lemma wrb_addr_join:
  "ucast (ucast (take_bit 4 b) :: u32) OR push_bit 4 (ucast (ucast (take_bit 32 (drop_bit 4 b)) :: u32))
     OR push_bit 36 (ucast (ucast (take_bit 22 (drop_bit 36 b)) :: u32)) = b"
  if "b = drop_bit 6 a" for a b :: u64
proof (rule bit_word_eqI)
  fix n assume "n < LENGTH(64)"
  moreover have "4 \<le> n \<Longrightarrow> 4 + (n - 4) = n" "36 \<le> n \<Longrightarrow> 36 + (n - 36) = n"
    by simp_all
  moreover have "\<not> bit b n" if "58 \<le> n"
    using that \<open>b = drop_bit 6 a\<close> by (auto simp: bit_simps dest: bit_imp_le_length)
  ultimately show "bit (ucast (ucast (take_bit 4 b) :: u32)
      OR push_bit 4 (ucast (ucast (take_bit 32 (drop_bit 4 b)) :: u32))
      OR push_bit 36 (ucast (ucast (take_bit 22 (drop_bit 36 b)) :: u32)) :: u64) n = bit b n"
    by (cases "n < 4"; cases "n < 36"; cases "n < 58") (auto simp: bit_simps)
qed

lemma flag_and_1: "x < 2 \<Longrightarrow> x AND 1 = x" for x :: u32
  by (rule and_mask_eq [of _ 1]) simp_all

text \<open>
  The software context of a queue carries, at the places the hardware layout gives them, the
  full 64-bit bus address of the descriptor ring, the queue-enable, write-back and function
  fields, the interrupt enable flag, and the descriptor size that belongs to the kind of queue
  (32 bytes memory mapped, 8 bytes streaming card-to-host, 16 bytes streaming host-to-card).
\<close>

lemma sw_context_decode:
  assumes "q_irq_en descq < 2" and "q_channel descq < 2"
  shows "\<exists>w1 w2 w3. make_sw_context xdev descq 4 = Inr [0, w1, w2, w3]
    \<and> push_bit 32 (ucast w3) OR ucast w2 = q_desc_bus descq
    \<and> field 0 1 w1 = 1 \<and> field 3 1 w1 = 1 \<and> field 20 1 w1 = 1
    \<and> field 4 0xFF w1 = ucast (x_func_id xdev)
    \<and> field 21 1 w1 = q_irq_en descq
    \<and> field 16 3 w1 = (if \<not> qc_st (q_conf descq) then 2 else if qc_c2h (q_conf descq) then 0 else 1)
    \<and> field 1 1 w1 = (if qc_st (q_conf descq) \<and> qc_c2h (q_conf descq) then 1 else 0)"
proof -
  have ch: "(ucast (q_channel descq) :: u32) < 2"
    using assms(2) by (simp add: word_less_nat_alt)
  show ?thesis
    using assms(1) ch flag_and_1 [OF assms(1)] addr_join
    by (cases "qc_st (q_conf descq)"; cases "qc_c2h (q_conf descq)")
      (simp_all add: make_sw_context_def Let_def field_simps)
qed

text \<open>
  The write-back context of a streaming card-to-host queue carries the bus address of the
  completion ring, which is 64-byte aligned in hardware, without its low 6 bits, spread over
  three words (4, 32 and 22 bits); the address read back from the three fields is the
  configured one shifted right by 6. The function number, the trigger mode and the valid flag
  are in their fields.
\<close>

lemma wrb_context_decode:
  assumes "q_irq_en descq < 2" and "q_wrb_stat_desc_en descq < 2"
    and "desc_sz_num (q_st_c2h_wrb_desc_size descq) < 4"
  shows "\<exists>w0 w1 w2 w3. make_wrb_context xdev descq 4 = Inr [w0, w1, w2, w3]
    \<and> ucast (field 28 0xF w0) OR push_bit 4 (ucast w1) OR push_bit 36 (ucast (field 0 0x3FFFFF w2))
        = drop_bit 6 (q_desc_wrb_bus descq)
    \<and> field 5 0xFF w0 = ucast (x_func_id xdev)
    \<and> field 2 7 w0 = trig_mode_num (q_wrb_trig_mode descq)
    \<and> field 22 3 w2 = desc_sz_num (q_st_c2h_wrb_desc_size descq)
    \<and> field 24 1 w3 = 1"
proof -
  let ?b = "drop_bit 6 (q_desc_wrb_bus descq)"
  have trig: "trig_mode_num m < 8" "trig_mode_num m AND 7 = trig_mode_num m" for m
    by (cases m; simp)+
  have sz: "desc_sz_num (q_st_c2h_wrb_desc_size descq) AND 3 = desc_sz_num (q_st_c2h_wrb_desc_size descq)"
    using assms(3) by (intro and_mask_eq [of _ 2]) simp_all
  have v0: "(ucast (take_bit 4 ?b) :: u32) AND 15 = ucast (take_bit 4 ?b)"
    "(ucast (take_bit 22 (drop_bit 36 ?b)) :: u32) AND 0x3FFFFF = ucast (take_bit 22 (drop_bit 36 ?b))"
    by (rule bit_word_eqI; auto simp: and_take_bit_u32 bit_simps)+
  have v2: "(ucast (take_bit 22 (drop_bit 36 ?b)) :: u32) < 2 ^ 22"
    using word_and_le1 [of "ucast (take_bit 22 (drop_bit 36 ?b))" "0x3FFFFF :: u32"] v0(2)
    by (simp add: word_le_nat_alt word_less_nat_alt)
  show ?thesis
    using wrb_addr_join [OF refl, of "q_desc_wrb_bus descq"] trig sz v0 v2 assms
    by (simp add: make_wrb_context_def Let_def wrb_bus and_take_bit_u64 field_simps
        field_push_bits [of _ 3] del: push_bit_and)
qed


section \<open>Order of the context commands\<close>

text \<open>
  \<open>cmd_writes\<close> extracts from a log of register writes the words written to the command
  register. \<open>commands f cs\<close> says that \<open>f\<close>, whenever it succeeds, has issued exactly the commands
  \<open>cs\<close>; it composes along the error-checked sequences of the source.
\<close>

definition cmd_writes :: "(u32 \<times> u32) list \<Rightarrow> u32 list" where
  "cmd_writes l = map snd (filter (\<lambda>w. fst w = QDMA_REG_IND_CTXT_CMD) l)"

lemma cmd_writes_append [simp]: "cmd_writes (l @ m) = cmd_writes l @ cmd_writes m"
  by (simp add: cmd_writes_def)

definition commands ::
  "('e \<times> (u32 \<times> u32) list \<Rightarrow> unit res \<times> 'e \<times> (u32 \<times> u32) list) \<Rightarrow> u32 list \<Rightarrow> bool" where
  "commands f cs \<longleftrightarrow>
     (\<forall>e l e' l'. f (e, l) = (Inr (), e', l') \<longrightarrow> (\<exists>w. l' = l @ w \<and> cmd_writes w = cs))"

lemma commands_done: "commands (\<lambda>s. (Inr (), s)) []"
  by (simp add: commands_def cmd_writes_def)

lemma commands_then:
  assumes "commands f cs" and "commands g ds"
  shows "commands (\<lambda>s. res_then (f s) g) (cs @ ds)"
  unfolding commands_def
proof (intro allI impI)
  fix e l e' l' assume "res_then (f (e, l)) g = (Inr (), e', l')"
  then obtain e1 l1 where f: "f (e, l) = (Inr (), e1, l1)" and g: "g (e1, l1) = (Inr (), e', l')"
    by (auto simp: res_then_ok_iff)
  from f obtain w where "l1 = l @ w" "cmd_writes w = cs"
    using assms(1) unfolding commands_def by blast
  moreover from g obtain v where "l' = l1 @ v" "cmd_writes v = ds"
    using assms(2) unfolding commands_def by blast
  ultimately show "\<exists>w. l' = l @ w \<and> cmd_writes w = cs @ ds"
    by auto
qed

lemma commands_if: "(b \<Longrightarrow> commands f cs) \<Longrightarrow> (\<not> b \<Longrightarrow> commands g ds) \<Longrightarrow>
    commands (\<lambda>s. if b then f s else g s) (if b then cs else ds)"
  by (cases b) simp_all

lemma cmd_writes_setup:
  "cmd_writes (reg_list QDMA_REG_IND_CTXT_MASK_BASE (replicate 4 v)) = []"
  "length d = 4 \<Longrightarrow> cmd_writes (reg_list QDMA_REG_IND_CTXT_DATA_BASE d) = []"
proof -
  show "cmd_writes (reg_list QDMA_REG_IND_CTXT_MASK_BASE (replicate 4 v)) = []"
    by (simp add: cmd_writes_def replicate_numeral)
  assume "length d = 4"
  then obtain a b c x where "d = [a, b, c, x]"
    by (auto simp: eval_nat_numeral length_Suc_conv)
  then show "cmd_writes (reg_list QDMA_REG_IND_CTXT_DATA_BASE d) = []"
    by (simp add: cmd_writes_def)
qed

lemma ctext_setup_trace:
  "\<exists>w. ctext_setup (traced E) op data cnt (e, l) =
     (fst (ctext_setup E op data cnt e), snd (ctext_setup E op data cnt e), l @ w) \<and> cmd_writes w = []"
proof -
  have [simp]: "cmd_writes [] = []"
    by (simp add: cmd_writes_def)
  show ?thesis
    by (cases data)
      (auto simp: ctext_setup_def Let_def cmd_writes_setup simp del: QDMA_REG_IND_CTXT_MASK_BASE_def
        QDMA_REG_IND_CTXT_DATA_BASE_def)
qed

lemma ctext_verify_trace:
  "ctext_verify (traced E) qid sel data cnt (e, l) =
     (fst (ctext_verify E qid sel data cnt e), snd (ctext_verify E qid sel data cnt e),
      l @ [(QDMA_REG_IND_CTXT_CMD, ind_ctxt_cmd qid QDMA_CTXT_CMD_RD sel)])"
  by (auto simp: ctext_verify_def Let_def split: prod.splits sum.splits option.splits)

definition op_cmds :: "u32 \<Rightarrow> ind_ctxt_cmd_op \<Rightarrow> ind_ctxt_cmd_sel \<Rightarrow> bool \<Rightarrow> u32 list" where
  "op_cmds qid op sel verify =
     ind_ctxt_cmd qid op sel #
     (if op \<noteq> QDMA_CTXT_CMD_RD \<and> verify then [ind_ctxt_cmd qid QDMA_CTXT_CMD_RD sel] else [])"


lemma ctext_op_commands:
  "commands (ctext_op (traced E) qid op sel data cnt verify) (op_cmds qid op sel verify)"
  unfolding commands_def
proof (intro allI impI)
  fix e l e' l' assume run: "ctext_op (traced E) qid op sel data cnt verify (e, l) = (Inr (), e', l')"
  obtain w where w: "ctext_setup (traced E) op data cnt (e, l) =
      (fst (ctext_setup E op data cnt e), snd (ctext_setup E op data cnt e), l @ w)" "cmd_writes w = []"
    using ctext_setup_trace [of E op data cnt e l] by blast
  have "l' = l @ w @ map (Pair QDMA_REG_IND_CTXT_CMD) (op_cmds qid op sel verify)"
    using run w(1)
    by (auto simp: ctext_op_def hw_indirect_ctext_prog_def ctext_verify_trace op_cmds_def Let_def
        split: prod.splits sum.splits if_splits option.splits)
  moreover have "cmd_writes (map (Pair QDMA_REG_IND_CTXT_CMD) cs) = cs" for cs
    by (induction cs) (simp_all add: cmd_writes_def)
  ultimately show "\<exists>w. l' = l @ w \<and> cmd_writes w = op_cmds qid op sel verify"
    using w(2) by auto
qed

text \<open>The commands of a context clear and of a context programming.\<close>

definition clear_cmds :: "u32 \<Rightarrow> bool \<Rightarrow> bool \<Rightarrow> u32 list" where
  "clear_cmds qid st c2h =
     [ind_ctxt_cmd qid QDMA_CTXT_CMD_CLR (if c2h then QDMA_CTXT_SEL_SW_C2H else QDMA_CTXT_SEL_SW_H2C),
      ind_ctxt_cmd qid QDMA_CTXT_CMD_CLR (if c2h then QDMA_CTXT_SEL_HW_C2H else QDMA_CTXT_SEL_HW_H2C),
      ind_ctxt_cmd qid QDMA_CTXT_CMD_CLR (if c2h then QDMA_CTXT_SEL_CR_C2H else QDMA_CTXT_SEL_CR_H2C)]
     @ (if st \<and> c2h
        then [ind_ctxt_cmd qid QDMA_CTXT_CMD_WR QDMA_CTXT_SEL_PFTCH,
              ind_ctxt_cmd qid QDMA_CTXT_CMD_RD QDMA_CTXT_SEL_PFTCH,
              ind_ctxt_cmd qid QDMA_CTXT_CMD_CLR QDMA_CTXT_SEL_WRB]
        else [])"

definition write_cmds :: "u32 \<Rightarrow> bool \<Rightarrow> bool \<Rightarrow> u32 list" where
  "write_cmds qid st c2h =
     (let sw = (if c2h then QDMA_CTXT_SEL_SW_C2H else QDMA_CTXT_SEL_SW_H2C) in
      [ind_ctxt_cmd qid QDMA_CTXT_CMD_WR sw, ind_ctxt_cmd qid QDMA_CTXT_CMD_RD sw]
      @ (if st \<and> c2h
         then [ind_ctxt_cmd qid QDMA_CTXT_CMD_WR QDMA_CTXT_SEL_PFTCH,
               ind_ctxt_cmd qid QDMA_CTXT_CMD_RD QDMA_CTXT_SEL_PFTCH,
               ind_ctxt_cmd qid QDMA_CTXT_CMD_WR QDMA_CTXT_SEL_WRB,
               ind_ctxt_cmd qid QDMA_CTXT_CMD_RD QDMA_CTXT_SEL_WRB]
         else []))"

lemmas commands_intros = commands_then commands_if commands_done ctext_op_commands

lemma context_clear_commands:
  "commands (qdma_descq_context_clear (traced E) qid st c2h) (clear_cmds qid st c2h)"
proof -
  have "commands (qdma_descq_context_clear (traced E) qid st c2h)
    (op_cmds qid QDMA_CTXT_CMD_CLR (if c2h then QDMA_CTXT_SEL_SW_C2H else QDMA_CTXT_SEL_SW_H2C) False
     @ op_cmds qid QDMA_CTXT_CMD_CLR (if c2h then QDMA_CTXT_SEL_HW_C2H else QDMA_CTXT_SEL_HW_H2C) False
     @ op_cmds qid QDMA_CTXT_CMD_CLR (if c2h then QDMA_CTXT_SEL_CR_C2H else QDMA_CTXT_SEL_CR_H2C) False
     @ (if st \<and> c2h then op_cmds qid QDMA_CTXT_CMD_WR QDMA_CTXT_SEL_PFTCH True
          @ op_cmds qid QDMA_CTXT_CMD_CLR QDMA_CTXT_SEL_WRB False @ [] else []))"
    unfolding qdma_descq_context_clear_def [abs_def] by (intro commands_intros)
  then show ?thesis
    by (cases st; cases c2h) (simp_all add: clear_cmds_def op_cmds_def)
qed

lemma context_program_commands:
  "commands (qdma_descq_context_program (traced E) qid st c2h context)
     (clear_cmds qid st c2h @ write_cmds qid st c2h)"
proof -
  have "commands (qdma_descq_context_program (traced E) qid st c2h context)
    (clear_cmds qid st c2h
     @ op_cmds qid QDMA_CTXT_CMD_WR (if c2h then QDMA_CTXT_SEL_SW_C2H else QDMA_CTXT_SEL_SW_H2C) True
     @ (if \<not> st \<or> \<not> c2h then [] else op_cmds qid QDMA_CTXT_CMD_WR QDMA_CTXT_SEL_PFTCH True
          @ op_cmds qid QDMA_CTXT_CMD_WR QDMA_CTXT_SEL_WRB True @ []))"
    unfolding qdma_descq_context_program_def [abs_def]
    by (intro commands_intros context_clear_commands)
  then show ?thesis
    by (auto simp: write_cmds_def op_cmds_def Let_def)
qed

text \<open>
  C31: A successful set-up of a queue's contexts issues, for the hardware queue and nothing else,
  exactly this sequence of context commands: it clears all contexts of the queue's direction
  (twice: the set-up and the programming both do), writes the software context and reads it back,
  and, for a streaming card-to-host queue only, writes and reads back the prefetch and the
  write-back contexts, in this order.
\<close>

theorem context_setup_commands:
  assumes "qdma_descq_context_setup (traced E) xdev descq (e, []) = (Inr (), e', log)"
    and "qid = q_qidx_hw descq" and "st = qc_st (q_conf descq)" and "c2h = qc_c2h (q_conf descq)"
  shows "cmd_writes log = clear_cmds qid st c2h @ clear_cmds qid st c2h @ write_cmds qid st c2h"
proof -
  obtain e1 l1 where start: "(if q_irq_en descq \<noteq> 0
      then hw_prog_qid2vec (traced E) qid c2h (of_nat (q_intr_id descq)) (x_intr_coal_en xdev) (e, [])
      else (e, [])) = (e1, l1)" and "cmd_writes l1 = []"
    by (cases "q_irq_en descq = 0")
      (auto simp: hw_prog_qid2vec_def Let_def cmd_writes_def split: prod.splits)
  moreover have "commands (\<lambda>s. res_then (qdma_descq_context_clear (traced E) qid st c2h s)
      (qdma_descq_context_program (traced E) qid st c2h (make_context xdev descq)))
      (clear_cmds qid st c2h @ clear_cmds qid st c2h @ write_cmds qid st c2h)"
    by (intro commands_then context_clear_commands context_program_commands)
  moreover have "res_then (qdma_descq_context_clear (traced E) qid st c2h (e1, l1))
      (qdma_descq_context_program (traced E) qid st c2h (make_context xdev descq)) = (Inr (), e', log)"
    using assms(1) start unfolding assms(2-4) by (simp only: qdma_descq_context_setup_def Let_def)
  ultimately show ?thesis
    unfolding commands_def by fastforce
qed

section \<open>The interrupt contexts\<close>

text \<open>The writes of one vector's round of the loop, when the context words are \<open>w0\<close> and \<open>w1\<close>.\<close>

definition coal_writes :: "u32 \<Rightarrow> u32 \<Rightarrow> (u32 \<times> u32) list" where
  "coal_writes w0 w1 =
     (QDMA_REG_IND_CTXT_CMD, ind_ctxt_cmd 0 QDMA_CTXT_CMD_CLR QDMA_CTXT_SEL_COAL)
     # reg_list QDMA_REG_IND_CTXT_MASK_BASE (replicate 4 0xFFFFFFFF)
     @ reg_list QDMA_REG_IND_CTXT_DATA_BASE [w0, w1, 0, 0]
     @ [(QDMA_REG_IND_CTXT_CMD, ind_ctxt_cmd 0 QDMA_CTXT_CMD_WR QDMA_CTXT_SEL_COAL),
        (QDMA_REG_IND_CTXT_CMD, ind_ctxt_cmd 0 QDMA_CTXT_CMD_RD QDMA_CTXT_SEL_COAL)]"

lemma coal_clr_log:
  "ctext_op (traced E) 0 QDMA_CTXT_CMD_CLR QDMA_CTXT_SEL_COAL None 4 False (e, l) = (Inr (), e', l') \<Longrightarrow>
     l' = l @ [(QDMA_REG_IND_CTXT_CMD, ind_ctxt_cmd 0 QDMA_CTXT_CMD_CLR QDMA_CTXT_SEL_COAL)]"
  by (auto simp: ctext_op_def hw_indirect_ctext_prog_def ctext_setup_def Let_def
      split: prod.splits sum.splits)

lemma coal_wr_log:
  assumes "ctext_op (traced E) 0 QDMA_CTXT_CMD_WR QDMA_CTXT_SEL_COAL (Some (w0 # w1 # d)) 2 True (e, l)
    = (Inr (), e', l')"
  shows "l' = l @ tl (coal_writes w0 w1)"
  using assms
  by (auto simp: ctext_op_def hw_indirect_ctext_prog_def ctext_setup_wr ctext_verify_trace coal_writes_def
      Let_def replicate_numeral split: prod.splits sum.splits)

lemma intr_context_loop_log:
  assumes "intr_context_loop (traced E) data is (e, l) = (Inr (), e', l')"
    and "\<forall>i \<in> set is. drop (2 * i) data \<noteq> [] \<and> drop (2 * i + 1) data \<noteq> []"
  shows "l' = l @ concat (map (\<lambda>i. coal_writes (data ! (2 * i)) (data ! (2 * i + 1))) is)"
  using assms
proof (induction "is" arbitrary: e l)
  case (Cons i "is")
  have d: "drop (2 * i) data = data ! (2 * i) # data ! (2 * i + 1) # drop (2 * i + 2) data"
    using Cons.prems(2) by (simp add: Cons_nth_drop_Suc)
  from Cons.prems(1) obtain e1 l1 e2 l2 where
    "ctext_op (traced E) 0 QDMA_CTXT_CMD_CLR QDMA_CTXT_SEL_COAL None 4 False (e, l) = (Inr (), e1, l1)"
    "ctext_op (traced E) 0 QDMA_CTXT_CMD_WR QDMA_CTXT_SEL_COAL (Some (drop (2 * i) data)) 2 True (e1, l1)
       = (Inr (), e2, l2)"
    "intr_context_loop (traced E) data is (e2, l2) = (Inr (), e', l')"
    by (auto simp: res_then_ok_iff)
  then have "l2 = l @ coal_writes (data ! (2 * i)) (data ! (2 * i + 1))"
    and "l' = l2 @ concat (map (\<lambda>i. coal_writes (data ! (2 * i)) (data ! (2 * i + 1))) is)"
    using coal_clr_log coal_wr_log Cons.IH Cons.prems(2) unfolding d
    by (fastforce simp: coal_writes_def)+
  then show ?case
    by simp
qed simp

text \<open>
  With interrupt coalescing switched on, a successful set-up of the interrupt contexts clears
  and writes one context per vector, and every word it writes is zero: no context is marked
  valid and no ring address reaches the hardware. (The builder \<open>make_intr_context\<close> returns
  zeros exactly when coalescing is on; the words it computes otherwise are never used, since
  the set-up returns at once when coalescing is off.)
\<close>

lemma intr_context_all_zero:
  assumes "x_intr_coal_en xdev" and "x_num_vecs xdev \<le> XDEV_NUM_IRQ_MAX"
    and "qdma_intr_context_setup (traced E) xdev (e, []) = (Inr (), e', log)"
  shows "log = concat (replicate (x_num_vecs xdev) (coal_writes 0 0))"
proof -
  let ?z = "replicate (2 * XDEV_NUM_IRQ_MAX) (0 :: u32)"
  have "log = concat (map (\<lambda>i. coal_writes (?z ! (2 * i)) (?z ! (2 * i + 1))) [0..<x_num_vecs xdev])"
    using intr_context_loop_log [of E ?z "[0..<x_num_vecs xdev]" e "[]" e' log] assms
    by (auto simp: qdma_intr_context_setup_def make_intr_context_def)
  also have "\<dots> = concat (map (\<lambda>i. coal_writes 0 0) [0..<x_num_vecs xdev])"
    using assms(2) by (intro arg_cong [of _ _ concat] map_cong refl) (simp add: nth_replicate)
  finally show ?thesis
    by (simp add: map_replicate_const)
qed

section \<open>Concrete runs\<close>

lemmas ctext_run_simps =
  ctext_op_def hw_indirect_ctext_prog_def ctext_setup_def ctext_verify_def ind_ctxt_issue_def ind_ctxt_cmd_def
  res_then_def Let_def replicate_numeral read_regs_numeral

lemma ctx_sw_make_context: "\<exists>w1 w2 w3. ctx_sw (make_context xdev descq) = [0, w1, w2, w3]"
proof -
  have "\<exists>w1 w2 w3. make_sw_context xdev descq 4 = Inr [0, w1, w2, w3]"
    by (simp add: make_sw_context_def Let_def)
  then show ?thesis
    by (auto simp: make_context_def Let_def)
qed

definition sample_st_c2h :: qdma_descq where
  "sample_st_c2h = (sample_queue (sample_conf True True) None)\<lparr>q_desc_wrb_bus := 0x123456789ABCDE40\<rparr>"

lemma sw_context_decode_witness:
  "\<exists>w1 w2 w3. make_sw_context sample_xdev sample_mm 4 = Inr [0, w1, w2, w3]
    \<and> push_bit 32 (ucast w3) OR ucast w2 = (0x100000 :: u64) \<and> field 16 3 w1 = 2"
  using sw_context_decode [of sample_mm sample_xdev] by (auto simp: sample_simps)

lemma wrb_context_decode_witness:
  "\<exists>w0 w1 w2 w3. make_wrb_context sample_xdev sample_st_c2h 4 = Inr [w0, w1, w2, w3]
    \<and> ucast (field 28 0xF w0) OR push_bit 4 (ucast w1) OR push_bit 36 (ucast (field 0 0x3FFFFF w2))
        = (0x48D159E26AF379 :: u64) \<and> field 24 1 w3 = 1"
proof -
  have "drop_bit 6 (0x123456789ABCDE40 :: u64) = 0x48D159E26AF379"
    by simp
  then show ?thesis
    using wrb_context_decode [of sample_st_c2h sample_xdev]
    by (auto simp: sample_st_c2h_def sample_simps)
qed

theorem context_setup_commands_witness:
  "\<exists>e' log. qdma_descq_context_setup (traced ram_env) sample_xdev sample_mm (\<lambda>_. 0, []) = (Inr (), e', log)
     \<and> cmd_writes log = clear_cmds 0 False False @ clear_cmds 0 False False @ write_cmds 0 False False"
proof -
  let ?run = "qdma_descq_context_setup (traced ram_env) sample_xdev sample_mm (\<lambda>_. 0, [])"
  obtain w1 w2 w3 where "ctx_sw (make_context sample_xdev sample_mm) = [0, w1, w2, w3]"
    using ctx_sw_make_context [of sample_xdev sample_mm] by blast
  moreover have "q_irq_en sample_mm = 0" "q_qidx_hw sample_mm = 0"
    "\<not> qc_st (q_conf sample_mm)" "\<not> qc_c2h (q_conf sample_mm)"
    by (simp_all add: sample_simps)
  ultimately have "fst ?run = Inr ()"
    by (simp add: qdma_descq_context_setup_def qdma_descq_context_clear_def
        qdma_descq_context_program_def ctext_run_simps)
  then obtain e' log where run: "?run = (Inr (), e', log)"
    by (metis surj_pair prod.sel(1))
  show ?thesis
    using run context_setup_commands [OF run refl refl refl] by (simp add: sample_simps)
qed

lemma intr_context_all_zero_witness:
  "snd (snd (qdma_intr_context_setup (traced ram_env)
      (sample_xdev\<lparr>x_intr_coal_en := True, x_num_vecs := 1\<rparr>) (\<lambda>_. 0, []))) = coal_writes 0 0"
proof -
  let ?run = "qdma_intr_context_setup (traced ram_env)
      (sample_xdev\<lparr>x_intr_coal_en := True, x_num_vecs := 1\<rparr>) (\<lambda>_. 0, [])"
  have "fst ?run = Inr ()"
    by (simp add: qdma_intr_context_setup_def make_intr_context_def sample_xdev_def ctext_run_simps)
  then obtain e' log where run: "?run = (Inr (), e', log)"
    by (metis surj_pair prod.sel(1))
  show ?thesis
    using run intr_context_all_zero [OF _ _ run] by simp
qed

end
