(* ===== verification/Qdma_Intr.thy ===== *)
theory Qdma_Intr
  imports Qdma_Rx Qdma_Context
begin

text \<open>
  Interrupts (\<open>libqdma/qdma_intr.c\<close>): the vectors of the device, the rings of aggregated
  interrupts and the interrupt handler; and finding a queue by its number
  (\<open>qdma_device_get_descq_by_id\<close> of \<open>libqdma/qdma_device.c\<close>), which the handler and the queue
  functions share. A queue is given by its direction (card to host or not) and its index.
\<close>

section \<open>Finding a queue\<close>

definition descq_at :: "qdma_dev \<Rightarrow> bool \<times> nat \<Rightarrow> qdma_descq" where
  "descq_at qdev p = (if fst p then qd_c2h_descq qdev else qd_h2c_descq qdev) ! snd p"

text \<open>The device is a pointer that may be NULL; its private part is set once it is initialised.\<close>

definition qdma_device_get_descq_by_id ::
  "xlnx_dma_dev option \<Rightarrow> nat \<Rightarrow> bool \<Rightarrow> (bool \<times> nat) option res" where
  "qdma_device_get_descq_by_id dev idx ini =
     (case dev of
        None \<Rightarrow> Inr None
      | Some xdev \<Rightarrow>
          (case x_dev_priv xdev of
             None \<Rightarrow> Inl OOPS
           | Some qdev \<Rightarrow>
               let qmax = unat (qd_qmax qdev) in
               if idx \<ge> 2 * qmax then Inr None
               else let p = (if idx \<ge> qmax then (True, idx - qmax) else (False, idx))
                    in if ini \<and> \<not> q_enabled (descq_at qdev p) then Inr None else Inr (Some p)))"

section \<open>Interrupt rings\<close>

definition intr_ring_free :: "'e env \<Rightarrow> u16 \<Rightarrow> u64 \<Rightarrow> 'e \<Rightarrow> 'e" where
  "intr_ring_free E ring_sz desc_bus e = env_dma_free E (ucast ring_sz * 8) desc_bus e"

definition intr_ring_alloc :: "'e env \<Rightarrow> u16 \<Rightarrow> 'e \<Rightarrow> u64 option \<times> 'e" where
  "intr_ring_alloc E ring_sz e = env_dma_alloc E (ucast ring_sz * 8) e"

text \<open>Rings are freed from the last vector to the first.\<close>

definition intr_rings_free :: "'e env \<Rightarrow> intr_coal_conf list \<Rightarrow> 'e \<Rightarrow> 'e" where
  "intr_rings_free E ics e = fold (\<lambda>ic. intr_ring_free E (ic_intr_ring_size ic) (ic_intr_ring_bus ic)) (rev ics) e"

definition intr_ring_teardown :: "'e env \<Rightarrow> xlnx_dma_dev \<Rightarrow> 'e \<Rightarrow> unit res \<times> 'e" where
  "intr_ring_teardown E xdev e =
     (if length (x_intr_coal_list xdev) < x_num_vecs xdev then (Inl OOPS, e)
      else (Inr (), intr_rings_free E (take (x_num_vecs xdev) (x_intr_coal_list xdev)) e))"

datatype intr_ring_size_sel =
  INTR_RING_SZ_4KB | INTR_RING_SZ_8KB | INTR_RING_SZ_12KB | INTR_RING_SZ_16KB | INTR_RING_SZ_20KB
  | INTR_RING_SZ_24KB | INTR_RING_SZ_28KB | INTR_RING_SZ_32KB

primrec ring_entries :: "intr_ring_size_sel \<Rightarrow> u16" where
  "ring_entries INTR_RING_SZ_4KB = 512"
| "ring_entries INTR_RING_SZ_8KB = 1024"
| "ring_entries INTR_RING_SZ_12KB = 1536"
| "ring_entries INTR_RING_SZ_16KB = 2048"
| "ring_entries INTR_RING_SZ_20KB = 2560"
| "ring_entries INTR_RING_SZ_24KB = 3072"
| "ring_entries INTR_RING_SZ_28KB = 3584"
| "ring_entries INTR_RING_SZ_32KB = 4096"

definition XDEV_INTR_COAL_RING_SIZE :: intr_ring_size_sel where
  "XDEV_INTR_COAL_RING_SIZE = INTR_RING_SZ_4KB"

text \<open>The rings of the vectors with the given interrupt numbers, up to the first that fails.\<close>

fun intr_rings_alloc ::
  "'e env \<Rightarrow> u16 \<Rightarrow> nat list \<Rightarrow> 'e \<Rightarrow> bool \<times> intr_coal_conf list \<times> 'e" where
  "intr_rings_alloc E n [] e = (True, [], e)"
| "intr_rings_alloc E n (v # vs) e =
     (case intr_ring_alloc E n e of
        (None, e) \<Rightarrow> (False, [], e)
      | (Some bus, e) \<Rightarrow>
          let (ok, ics, e) = intr_rings_alloc E n vs e
          in (ok, \<lparr>ic_vec_id = of_nat v, ic_intr_ring_size = n, ic_intr_ring_bus = bus,
                   ic_intr_ring_base = replicate (unat n) \<lparr>ir_qid = 0, ir_coal_color = False\<rparr>,
                   ic_color = True, ic_pidx = 0, ic_cidx = 0\<rparr> # ics, e))"

definition intr_ring_setup ::
  "'e env \<Rightarrow> xlnx_dma_dev \<Rightarrow> intr_ring_size_sel \<Rightarrow> 'e \<Rightarrow> unit res \<times> xlnx_dma_dev \<times> 'e" where
  "intr_ring_setup E xdev ring_size e =
     (if dc_poll_mode (x_conf xdev) \<or> \<not> dc_indirect_intr_mode (x_conf xdev)
      then (Inr (), xdev\<lparr>x_intr_coal_en := False, x_intr_coal_list := []\<rparr>, e)
      else if x_num_vecs xdev \<noteq> 0 \<and> x_num_vecs xdev < unat (dc_qsets_max (x_conf xdev)) then
        let xdev = xdev\<lparr>x_intr_coal_en := True\<rparr>
        in case env_kmalloc E (40 * x_num_vecs xdev) e of
             (False, e) \<Rightarrow> (Inl ENOMEM, xdev, e)
           | (True, e) \<Rightarrow>
               (case intr_rings_alloc E (ring_entries ring_size) (take (x_num_vecs xdev) (x_msix xdev)) e of
                  (True, ics, e) \<Rightarrow> (Inr (), xdev\<lparr>x_intr_coal_list := ics\<rparr>, e)
                | (False, ics, e) \<Rightarrow> (Inl ENOMEM, xdev, intr_rings_free E ics e))
      else (Inr (), xdev\<lparr>x_intr_coal_en := False, x_intr_coal_list := []\<rparr>, e))"

section \<open>Vectors\<close>

text \<open>
  The kernel's MSI-X interface is a parameter: the number of vectors of the device, enabling a
  number of them (0 or an error, and their interrupt numbers), and requesting and freeing an
  interrupt. A negative vector count is an error that enabling reports; the model keeps no
  negative count.
\<close>

record 'e msix_if =
  msix_vec_count :: "'e \<Rightarrow> int \<times> 'e"
  msix_enable :: "int \<Rightarrow> 'e \<Rightarrow> (int \<times> nat list) \<times> 'e"
  msix_disable :: "'e \<Rightarrow> 'e"
  irq_request :: "nat \<Rightarrow> 'e \<Rightarrow> int \<times> 'e"
  irq_free :: "nat \<Rightarrow> 'e \<Rightarrow> 'e"

definition irqs_free :: "'e msix_if \<Rightarrow> nat list \<Rightarrow> 'e \<Rightarrow> 'e" where
  "irqs_free M vs e = fold (irq_free M) (rev vs) e"

definition intr_teardown :: "'e msix_if \<Rightarrow> xlnx_dma_dev \<Rightarrow> 'e \<Rightarrow> 'e" where
  "intr_teardown M xdev e =
     (let e = irqs_free M (take (x_num_vecs xdev) (x_msix xdev)) e
      in if x_num_vecs xdev \<noteq> 0 then msix_disable M e else e)"

text \<open>Requesting the interrupts: the result and those obtained before a failure.\<close>

fun irqs_request :: "'e msix_if \<Rightarrow> nat list \<Rightarrow> 'e \<Rightarrow> int \<times> nat list \<times> 'e" where
  "irqs_request M [] e = (0, [], e)"
| "irqs_request M (v # vs) e =
     (let (rv, e) = irq_request M v e
      in if rv \<noteq> 0 then (rv, [], e)
         else let (rv, got, e) = irqs_request M vs e in (rv, v # got, e))"

definition intr_setup :: "'e msix_if \<Rightarrow> xlnx_dma_dev \<Rightarrow> 'e \<Rightarrow> int \<times> xlnx_dma_dev \<times> 'e" where
  "intr_setup M xdev e =
     (if dc_poll_mode (x_conf xdev) then (0, xdev, e)
      else let (cnt, e) = msix_vec_count M e;
               xdev = xdev\<lparr>x_num_vecs := nat cnt\<rparr>
           in if cnt = 0 then (0, xdev, e)
              else let n = min cnt (int XDEV_NUM_IRQ_MAX);
                       xdev = xdev\<lparr>x_num_vecs := nat n,
                         x_intr_list := replicate (nat n) [] @ drop (nat n) (x_intr_list xdev)\<rparr>;
                       ((rv, vs), e) = msix_enable M n e;
                       xdev = xdev\<lparr>x_msix := vs\<rparr>
                   in if rv < 0 then (rv, xdev, e)
                      else let (rv, got, e) = irqs_request M (take (nat n) vs) e
                           in if rv \<noteq> 0 then (rv, xdev, msix_disable M (irqs_free M got e))
                              else (0, xdev\<lparr>x_flags := x_flags xdev OR XDEV_FLAG_IRQ\<rparr>, e))"

section \<open>The handler\<close>

text \<open>
  The handler schedules the work of queues; the result lists them. \<open>IRQ_EINVAL\<close> is the return of
  \<open>-EINVAL\<close> in the middle of the loop, which leaves the device lock taken.
\<close>

datatype irqreturn = IRQ_NONE | IRQ_HANDLED | IRQ_EINVAL

text \<open>
  The loop over the interrupt ring of a vector. \<open>bound\<close> is the C expression
  \<open>intr_ring_size - pidx\<close>, evaluated once since nothing in the loop changes it; reading past the ring memory
  is a fault.
\<close>

function irq_ring_loop ::
  "xlnx_dma_dev \<Rightarrow> qdma_intr_ring list \<Rightarrow> bool \<Rightarrow> u32 \<Rightarrow> u32
     \<Rightarrow> irqreturn res \<times> u32 \<times> (bool \<times> nat) list" where
  "irq_ring_loop xdev ring color bound counter =
     (if \<not> counter < bound then (Inr IRQ_HANDLED, counter, [])
      else if unat counter \<ge> length ring then (Inl OOPS, counter, [])
      else let entry = ring ! unat counter in
           if ir_coal_color entry \<noteq> color then (Inr IRQ_HANDLED, counter, [])
           else case qdma_device_get_descq_by_id (Some xdev) (unat (ir_qid entry)) False of
                  Inl err \<Rightarrow> (Inl err, counter, [])
                | Inr None \<Rightarrow> (Inr IRQ_EINVAL, counter, [])
                | Inr (Some p) \<Rightarrow>
                    let (rv, counter, ps) = irq_ring_loop xdev ring color bound (counter + 1)
                    in (rv, counter, p # ps))"
  by pat_completeness auto
termination
  by (relation "measure (\<lambda>(xdev, ring, color, bound, counter). length ring - unat counter)")
    (auto simp: unat_plus_one)

declare irq_ring_loop.simps [simp del]

definition irq_top ::
  "nat \<Rightarrow> xlnx_dma_dev \<Rightarrow> irqreturn res \<times> xlnx_dma_dev \<times> (bool \<times> nat) list" where
  "irq_top irq xdev =
     (case find (\<lambda>i. x_msix xdev ! i = irq) [0..<x_num_vecs xdev] of
        None \<Rightarrow> (Inr IRQ_NONE, xdev, [])
      | Some i \<Rightarrow>
          if x_intr_coal_en xdev then
            if length (x_intr_coal_list xdev) \<le> i then (Inl OOPS, xdev, [])
            else let ic = x_intr_coal_list xdev ! i in
                 if x_msix xdev ! i \<noteq> unat (ic_vec_id ic) then (Inr IRQ_HANDLED, xdev, [])
                 else case irq_ring_loop xdev (ic_intr_ring_base ic) (ic_color ic)
                             (ucast (ic_intr_ring_size ic) - ic_pidx ic) (ic_pidx ic) of
                        (rv, counter, ps) \<Rightarrow>
                          (rv, if rv = Inr IRQ_HANDLED
                               then xdev\<lparr>x_intr_coal_list := (x_intr_coal_list xdev)[i := ic\<lparr>ic_pidx := counter\<rparr>]\<rparr>
                               else xdev, ps)
          else (Inr IRQ_HANDLED, xdev, map (\<lambda>(c2h, i). (c2h, unat i)) (x_intr_list xdev ! i)))"

definition intr_work ::
  "'e env \<Rightarrow> bool \<Rightarrow> xlnx_dma_dev \<Rightarrow> qdma_descq \<Rightarrow> 'e \<Rightarrow> xlnx_dma_dev \<times> qdma_descq \<times> 'e" where
  "intr_work E vf xdev descq e = snd (qdma_descq_service_wb E vf xdev descq e)"

section \<open>Numbers of queues\<close>

text \<open>
  A queue number below twice the number of queue pairs names exactly one queue, the
  host-to-card queues first, and every other number is refused: whatever number comes in, no
  memory outside the two arrays is touched. With \<open>ini\<close>, only a queue that has been added is
  found.
\<close>

lemma get_descq_in_bounds:
  assumes "x_dev_priv xdev = Some qdev" and "qmax = unat (qd_qmax qdev)"
    and "length (qd_h2c_descq qdev) = qmax" and "length (qd_c2h_descq qdev) = qmax"
  shows "\<exists>r. qdma_device_get_descq_by_id (Some xdev) idx ini = Inr r
    \<and> (case r of
         Some (c2h, i) \<Rightarrow> i < length (if c2h then qd_c2h_descq qdev else qd_h2c_descq qdev)
           \<and> idx = (if c2h then qmax + i else i) \<and> (ini \<longrightarrow> q_enabled (descq_at qdev (c2h, i)))
       | None \<Rightarrow> 2 * qmax \<le> idx \<or> ini \<and> \<not> q_enabled (descq_at qdev (qmax \<le> idx, if qmax \<le> idx then idx - qmax else idx)))"
  using assms by (auto simp: qdma_device_get_descq_by_id_def Let_def)

section \<open>What an interrupt schedules\<close>

definition queue_pos :: "qdma_dev \<Rightarrow> nat \<Rightarrow> bool \<times> nat" where
  "queue_pos qdev idx =
     (let qmax = unat (qd_qmax qdev) in if qmax \<le> idx then (True, idx - qmax) else (False, idx))"

lemma irq_ring_loop_entries:
  assumes "x_dev_priv xdev = Some qdev" and "bound \<le> of_nat (length ring)" and "length ring < 2 ^ 32"
    and "\<forall>en \<in> set ring. unat (ir_qid en) < 2 * unat (qd_qmax qdev)"
  shows "irq_ring_loop xdev ring color bound counter =
    (let es = takeWhile (\<lambda>en. ir_coal_color en = color) (take (unat bound - unat counter) (drop (unat counter) ring))
     in (Inr IRQ_HANDLED, counter + of_nat (length es), map (\<lambda>en. queue_pos qdev (unat (ir_qid en))) es))"
  using assms
proof (induction xdev ring color bound counter rule: irq_ring_loop.induct)
  case (1 xdev ring color bound counter)
  have b: "unat bound \<le> length ring"
    using "1.prems"(2,3) by (simp add: word_le_nat_alt unsigned_of_nat take_bit_nat_eq_self)
  show ?case
  proof (cases "counter < bound")
    case False
    then show ?thesis
      by (subst irq_ring_loop.simps) (simp add: word_less_nat_alt Let_def)
  next
    case True
    then have c: "unat counter < unat bound" "unat counter < length ring"
      using b by (simp_all add: word_less_nat_alt)
    let ?en = "ring ! unat counter"
    have tk: "take (unat bound - unat counter) (drop (unat counter) ring) =
        ?en # take (unat bound - Suc (unat counter)) (drop (Suc (unat counter)) ring)"
      using c by (simp add: Cons_nth_drop_Suc [symmetric] take_Cons' )
    show ?thesis
    proof (cases "ir_coal_color ?en = color")
      case False
      then show ?thesis
        using True c by (subst irq_ring_loop.simps) (simp add: tk Let_def)
    next
      case same: True
      have "unat (ir_qid ?en) < 2 * unat (qd_qmax qdev)"
        using "1.prems"(4) c(2) by simp
      then have look: "qdma_device_get_descq_by_id (Some xdev) (unat (ir_qid ?en)) False =
          Inr (Some (queue_pos qdev (unat (ir_qid ?en))))"
        using "1.prems"(1) by (simp add: qdma_device_get_descq_by_id_def queue_pos_def Let_def)
      have suc: "unat (counter + 1) = Suc (unat counter)"
        using unat_plus_one [OF True] by simp
      have "irq_ring_loop xdev ring color bound (counter + 1) =
          (let es = takeWhile (\<lambda>en. ir_coal_color en = color)
              (take (unat bound - unat (counter + 1)) (drop (unat (counter + 1)) ring))
           in (Inr IRQ_HANDLED, counter + 1 + of_nat (length es), map (\<lambda>en. queue_pos qdev (unat (ir_qid en))) es))"
        using 1 True c same look by fastforce
      then show ?thesis
        using True c same look tk
        by (subst irq_ring_loop.simps) (simp add: suc Let_def)
    qed
  qed
qed

text \<open>
  With interrupt aggregation, an interrupt of a vector schedules the queues of the ring
  entries from the producer index on, in order, as long as their colour is the expected one, and
  moves the index behind them. It does not go to the end of the ring, though: the loop stops
  at \<open>ring size - producer index\<close>, so that from the middle of the ring on no entry is ever served.
\<close>

lemma irq_top_schedules:
  assumes "x_dev_priv xdev = Some qdev" and "x_intr_coal_en xdev"
    and "find (\<lambda>i. x_msix xdev ! i = irq) [0..<x_num_vecs xdev] = Some i"
    and "i < length (x_intr_coal_list xdev)" and "ic = x_intr_coal_list xdev ! i" and "unat (ic_vec_id ic) = irq"
    and "p = unat (ic_pidx ic)" and "n = unat (ic_intr_ring_size ic)" and "length (ic_intr_ring_base ic) = n"
    and "p \<le> n" and "\<forall>en \<in> set (ic_intr_ring_base ic). unat (ir_qid en) < 2 * unat (qd_qmax qdev)"
    and "es = takeWhile (\<lambda>en. ir_coal_color en = ic_color ic) (take (n - 2 * p) (drop p (ic_intr_ring_base ic)))"
  shows "irq_top irq xdev =
      (Inr IRQ_HANDLED,
       xdev\<lparr>x_intr_coal_list := (x_intr_coal_list xdev)[i := ic\<lparr>ic_pidx := of_nat (p + length es)\<rparr>]\<rparr>,
       map (\<lambda>en. queue_pos qdev (unat (ir_qid en))) es)
    \<and> (n \<le> 2 * p \<longrightarrow> es = [])"
proof -
  let ?bound = "ucast (ic_intr_ring_size ic) - ic_pidx ic"
  have n: "n < 2 ^ 16"
    using assms(8) unsigned_less [of "ic_intr_ring_size ic", where 'a = nat] by simp
  have "ic_pidx ic \<le> ucast (ic_intr_ring_size ic)"
    using assms(7,8,10) by (simp add: word_le_nat_alt)
  then have bound: "unat ?bound = n - p"
    using assms(7,8) by (simp add: unat_sub_le)
  then have bnd: "?bound \<le> of_nat (length (ic_intr_ring_base ic))"
    using n assms(9) by (simp add: word_le_nat_alt unsigned_of_nat take_bit_nat_eq_self)
  have len: "length (ic_intr_ring_base ic) < 2 ^ 32"
    using n assms(9) by simp
  have "n - p - p = n - 2 * p"
    by simp
  then have "irq_ring_loop xdev (ic_intr_ring_base ic) (ic_color ic) ?bound (ic_pidx ic) =
      (Inr IRQ_HANDLED, ic_pidx ic + of_nat (length es), map (\<lambda>en. queue_pos qdev (unat (ir_qid en))) es)"
    using irq_ring_loop_entries [OF assms(1) bnd len assms(11), of "ic_color ic" "ic_pidx ic"]
    by (simp only: bound assms(7) [symmetric] assms(12) [symmetric] Let_def)
  moreover have "x_msix xdev ! i = irq"
    using assms(3) by (auto simp: find_Some_iff)
  moreover have "ic_pidx ic + of_nat (length es) = of_nat (p + length es)"
    using assms(7) by simp
  ultimately have "irq_top irq xdev =
      (Inr IRQ_HANDLED,
       xdev\<lparr>x_intr_coal_list := (x_intr_coal_list xdev)[i := ic\<lparr>ic_pidx := of_nat (p + length es)\<rparr>]\<rparr>,
       map (\<lambda>en. queue_pos qdev (unat (ir_qid en))) es)"
    using assms(2,3,4,6) unfolding irq_top_def by (simp add: assms(5) [symmetric])
  moreover have "n \<le> 2 * p \<longrightarrow> es = []"
    using assms(12) by simp
  ultimately show ?thesis
    by blast
qed

section \<open>Concrete runs\<close>

definition sample_qdev :: qdma_dev where
  "sample_qdev = \<lparr>qd_init_qrange = False, qd_qmax = 1, qd_qbase = 0, qd_h2c_qcnt = 1, qd_c2h_qcnt = 0,
     qd_h2c_descq = [sample_mm], qd_c2h_descq = [sample_mm\<lparr>q_enabled := False\<rparr>]\<rparr>"

definition sample_coal :: intr_coal_conf where
  "sample_coal = \<lparr>ic_vec_id = 33, ic_intr_ring_size = 4, ic_intr_ring_bus = 0x1000,
     ic_intr_ring_base = map (\<lambda>(q, c). \<lparr>ir_qid = q, ir_coal_color = c\<rparr>)
       [(0, True), (1, True), (0, False), (0, False)],
     ic_color = True, ic_pidx = 0, ic_cidx = 0\<rparr>"

definition sample_irq_dev :: xlnx_dma_dev where
  "sample_irq_dev = sample_xdev\<lparr>x_dev_priv := Some sample_qdev, x_num_vecs := 2, x_msix := [32, 33],
     x_intr_coal_en := True, x_intr_coal_list := [sample_coal, sample_coal]\<rparr>"

lemma get_descq_in_bounds_witness:
  "\<exists>r. qdma_device_get_descq_by_id (Some sample_irq_dev) 1 True = Inr r
     \<and> (\<forall>i c2h. r = Some (c2h, i) \<longrightarrow> i < 1)"
proof -
  have "x_dev_priv sample_irq_dev = Some sample_qdev"
    by (simp add: sample_irq_dev_def)
  moreover have "1 = unat (qd_qmax sample_qdev)" and len: "length (qd_h2c_descq sample_qdev) = 1"
    "length (qd_c2h_descq sample_qdev) = 1"
    by (simp_all add: sample_qdev_def)
  ultimately obtain r where "qdma_device_get_descq_by_id (Some sample_irq_dev) 1 True = Inr r"
    "case r of Some (c2h, i) \<Rightarrow> i < length (if c2h then qd_c2h_descq sample_qdev else qd_h2c_descq sample_qdev)
       | None \<Rightarrow> True"
    using get_descq_in_bounds [of sample_irq_dev sample_qdev 1 1 True] by (fastforce split: option.splits)
  then show ?thesis
    using len by (intro exI [of _ r]) (auto split: if_splits)
qed

lemma irq_top_schedules_witness:
  "\<exists>xdev. irq_top 33 sample_irq_dev = (Inr IRQ_HANDLED, xdev, [(False, 0), (True, 0)])"
proof -
  let ?es = "[\<lparr>ir_qid = 0, ir_coal_color = True\<rparr>, \<lparr>ir_qid = 1, ir_coal_color = True\<rparr>]"
  have "find (\<lambda>i. x_msix sample_irq_dev ! i = 33) [0..<x_num_vecs sample_irq_dev] = Some 1"
    by (simp add: sample_irq_dev_def numeral_2_eq_2)
  moreover have "x_dev_priv sample_irq_dev = Some sample_qdev" "x_intr_coal_en sample_irq_dev"
    "1 < length (x_intr_coal_list sample_irq_dev)" "sample_coal = x_intr_coal_list sample_irq_dev ! 1"
    by (simp_all add: sample_irq_dev_def)
  moreover have "unat (ic_vec_id sample_coal) = 33" "0 = unat (ic_pidx sample_coal)"
    "4 = unat (ic_intr_ring_size sample_coal)" "length (ic_intr_ring_base sample_coal) = 4"
    "\<forall>en \<in> set (ic_intr_ring_base sample_coal). unat (ir_qid en) < 2 * unat (qd_qmax sample_qdev)"
    "?es = takeWhile (\<lambda>en. ir_coal_color en = ic_color sample_coal)
      (take (4 - 2 * 0) (drop 0 (ic_intr_ring_base sample_coal)))"
    by (simp_all add: sample_coal_def sample_qdev_def)
  ultimately have "irq_top 33 sample_irq_dev =
      (Inr IRQ_HANDLED, sample_irq_dev\<lparr>x_intr_coal_list := (x_intr_coal_list sample_irq_dev)
         [1 := sample_coal\<lparr>ic_pidx := of_nat (0 + length ?es)\<rparr>]\<rparr>,
       map (\<lambda>en. queue_pos sample_qdev (unat (ir_qid en))) ?es)"
    using irq_top_schedules [of sample_irq_dev sample_qdev 33 1 sample_coal 0 4 ?es] by blast
  then show ?thesis
    by (simp add: queue_pos_def sample_qdev_def)
qed

end
