(* ===== verification/Qdma_Descq.thy ===== *)
theory Qdma_Descq
  imports Qdma_Rx Qdma_Context Qdma_Submit "HOL-Library.Multiset"
begin

text \<open>
  Set-up and tear-down of a descriptor queue (\<open>libqdma/qdma_descq.c\<close>): its memory, its
  interrupt vector, its configuration and its programming into the hardware (physical
  function).
\<close>

section \<open>Rings\<close>

definition get_desc_size :: "qdma_descq \<Rightarrow> u32" where
  "get_desc_size descq = (if \<not> qc_st (q_conf descq) then 32 else if qc_c2h (q_conf descq) then 8 else 16)"

definition get_desc_wb_size :: "qdma_descq \<Rightarrow> u32" where
  "get_desc_wb_size descq = 8"

definition desc_ring_free :: "'e env \<Rightarrow> u32 \<Rightarrow> u32 \<Rightarrow> u32 \<Rightarrow> u64 \<Rightarrow> 'e \<Rightarrow> 'e" where
  "desc_ring_free E ring_sz desc_sz wb_sz desc_bus e =
     env_dma_free E (ring_sz * desc_sz + wb_sz) desc_bus e"

definition desc_ring_alloc :: "'e env \<Rightarrow> u32 \<Rightarrow> u32 \<Rightarrow> u32 \<Rightarrow> 'e \<Rightarrow> u64 option \<times> 'e" where
  "desc_ring_alloc E ring_sz desc_sz wb_sz e = env_dma_alloc E (ring_sz * desc_sz + wb_sz) e"

text \<open>The cleared ring of a queue, and the write-back areas behind the rings.\<close>

definition zero_ring :: "qdma_descq \<Rightarrow> desc_ring" where
  "zero_ring descq =
     (let n = unat (qc_rngsz (q_conf descq)) in
      if \<not> qc_st (q_conf descq) then MM_ring (replicate n zero_mm)
      else if qc_c2h (q_conf descq) then C2H_ring (replicate n zero_c2h)
      else H2C_ring (replicate n zero_h2c))"

definition zero_wb :: qdma_desc_wb where
  "zero_wb = \<lparr>wb_pidx = 0, wb_cidx = 0\<rparr>"

definition zero_wrb_wb :: qdma_c2h_wrb_wb where
  "zero_wrb_wb = \<lparr>wrb_wb_pidx = 0, wrb_wb_cidx = 0, wrb_wb_color_isr_status = 0\<rparr>"

section \<open>Interrupt vectors\<close>

definition desc_free_irq :: "xlnx_dma_dev \<Rightarrow> qdma_descq \<Rightarrow> xlnx_dma_dev" where
  "desc_free_irq xdev descq =
     (if x_num_vecs xdev = 0 then xdev
      else let cnt = x_intr_list_cnt xdev; v = q_intr_id descq in
           if cnt ! v \<noteq> 0 then xdev\<lparr>x_intr_list_cnt := cnt[v := cnt ! v - 1]\<rparr> else xdev)"

fun irq_scan :: "nat list \<Rightarrow> nat list \<Rightarrow> nat \<Rightarrow> nat \<Rightarrow> nat" where
  "irq_scan cnt [] low idx = idx"
| "irq_scan cnt (i # is) low idx =
     (let (low, idx) = (if cnt ! i < low then (cnt ! i, i) else (low, idx))
      in if low = 0 then idx else irq_scan cnt is low idx)"

definition desc_alloc_irq :: "xlnx_dma_dev \<Rightarrow> qdma_descq \<Rightarrow> xlnx_dma_dev \<times> qdma_descq" where
  "desc_alloc_irq xdev descq =
     (if x_num_vecs xdev = 0 then (xdev, descq)
      else let cnt = x_intr_list_cnt xdev;
               idx = irq_scan cnt [0..<x_num_vecs xdev] (cnt ! 0) 0
           in (xdev\<lparr>x_intr_list_cnt := cnt[idx := cnt ! idx + 1]\<rparr>, descq\<lparr>q_intr_id := idx\<rparr>))"

section \<open>Memory of a queue\<close>

text \<open>Pages still waiting in the receive queue; freeing a NULL page is a fault.\<close>

function rxq_free_resource :: "'e env \<Rightarrow> st_rx_queue \<Rightarrow> 'e \<Rightarrow> unit res \<times> st_rx_queue \<times> 'e" where
  "rxq_free_resource E rxq e =
     (case rx_pop rxq of
        (None, rxq) \<Rightarrow> (Inr (), rxq, e)
      | (Some rx, rxq) \<Rightarrow>
          (case rx_pg rx of
             None \<Rightarrow> (Inl OOPS, rxq, e)
           | Some pg \<Rightarrow> rxq_free_resource E rxq (env_free_page E pg e)))"
  by pat_completeness auto
termination
  by (relation "measure (\<lambda>(E, rxq, e). length (rxq_rxs rxq))")
    (auto simp: rx_pop_def split: list.splits)

declare rxq_free_resource.simps [simp del]

definition qdma_descq_free_resource :: "'e env \<Rightarrow> qdma_descq \<Rightarrow> 'e \<Rightarrow> unit res \<times> qdma_descq \<times> 'e" where
  "qdma_descq_free_resource E descq e =
     (let (descq, e) =
            (if q_desc descq \<noteq> None
             then (descq\<lparr>q_desc_wb := zero_wb, q_desc := None, q_desc_bus := 0\<rparr>,
                   desc_ring_free E (qc_rngsz (q_conf descq)) (get_desc_size descq)
                     (get_desc_wb_size descq) (q_desc_bus descq) e)
             else (descq, e));
          (descq, e) = (if q_st_rx_fl descq \<noteq> None then fl_free E descq e else (descq, e));
          (descq, e) =
            (if q_desc_wrb descq \<noteq> None
             then (descq\<lparr>q_desc_wrb_wb := zero_wrb_wb, q_desc_wrb := None, q_desc_wrb_bus := 0\<rparr>,
                   desc_ring_free E (q_rngsz_wrb descq) (of_nat (q_st_c2h_wrb_entry_len descq)) 8
                     (q_desc_wrb_bus descq) e)
             else (descq, e))
      in if rxq_dlen (q_rx_queue descq) \<noteq> 0
         then case rxq_free_resource E (q_rx_queue descq) e of
                (rv, rxq, e) \<Rightarrow> (rv, descq\<lparr>q_rx_queue := rxq\<rparr>, e)
         else (Inr (), descq, e))"

text \<open>The second half of the allocation, for streaming card-to-host queues.\<close>

definition alloc_c2h_resource :: "'e env \<Rightarrow> qdma_descq \<Rightarrow> 'e \<Rightarrow> bool \<times> qdma_descq \<times> 'e" where
  "alloc_c2h_resource E descq e =
     (case fl_fill E descq e of
        (Inl _, descq, e) \<Rightarrow> (False, descq, e)
      | (Inr _, descq, e) \<Rightarrow>
          let descq = descq\<lparr>q_desc := map_option (\<lambda>_. C2H_ring (map (\<lambda>fl. \<lparr>c2h_dst_addr = fl_dma_addr fl\<rparr>)
                              (the (q_st_rx_fl descq)))) (q_desc descq)\<rparr>
          in case desc_ring_alloc E (q_rngsz_wrb descq) (of_nat (q_st_c2h_wrb_entry_len descq)) 8 e of
               (None, e) \<Rightarrow> (False, descq, e)
             | (Some bus, e) \<Rightarrow>
                 (True,
                  descq\<lparr>q_desc_wrb := Some (replicate (unat (q_rngsz_wrb descq))
                            (replicate (q_st_c2h_wrb_entry_len descq) 0)),
                        q_desc_wrb_bus := bus, q_desc_wrb_wb := zero_wrb_wb, q_desc_wrb_cur := 0,
                        q_rx_handler := True, q_rx_queue := (q_rx_queue descq)\<lparr>rxq_dlen := 0\<rparr>\<rparr>, e))"

definition qdma_descq_alloc_resource ::
  "'e env \<Rightarrow> xlnx_dma_dev \<Rightarrow> qdma_descq \<Rightarrow> 'e \<Rightarrow> unit res \<times> xlnx_dma_dev \<times> qdma_descq \<times> 'e" where
  "qdma_descq_alloc_resource E xdev descq e =
     (let (ok, descq, e) =
            (case desc_ring_alloc E (qc_rngsz (q_conf descq)) (get_desc_size descq) (get_desc_wb_size descq) e of
               (None, e) \<Rightarrow> (False, descq\<lparr>q_desc := None\<rparr>, e)
             | (Some bus, e) \<Rightarrow>
                 let descq = descq\<lparr>q_desc := Some (zero_ring descq), q_desc_bus := bus, q_desc_wb := zero_wb\<rparr>
                 in if qc_st (q_conf descq) \<and> qc_c2h (q_conf descq) then alloc_c2h_resource E descq e
                    else (True, descq, e))
      in if ok then let (xdev, descq) = desc_alloc_irq xdev descq in (Inr (), xdev, descq, e)
         else case qdma_descq_free_resource E descq e of
                (rv, descq, e) \<Rightarrow> (if rv = Inl OOPS then Inl OOPS else Inl ENOMEM, xdev, descq, e))"

section \<open>Initialisation and configuration\<close>

definition zero_conf :: qdma_queue_conf where
  "zero_conf = \<lparr>qc_qidx = 0, qc_st = False, qc_c2h = False, qc_st_c2h_wrb_desc_size = 0, qc_name = [],
     qc_rngsz = 0\<rparr>"

definition zero_descq :: qdma_descq where
  "zero_descq =
     \<lparr>q_conf = zero_conf, q_channel = 0, q_enabled = False, q_inited = False, q_online = False,
      q_irq_en = 0, q_prefetch_en = 0, q_wrb_stat_desc_en = 0, q_wrb_trig_mode = TRIG_MODE_DISABLE,
      q_wrb_timer_idx = 0, q_qidx_hw = 0, q_intr_id = 0, q_wrkthp = None, q_wbthp = None, q_intr_list = LIST_INIT,
      q_work_list = [], q_pend_list = [], q_avail = 0, q_pidx = 0, q_cidx = 0,
      q_credit = 0, q_desc = None, q_desc_bus = 0, q_desc_wb = zero_wb,
      q_rx_queue = \<lparr>rxq_dlen = 0, rxq_udds = [], rxq_rxs = []\<rparr>, q_rngsz_wrb = 0,
      q_pidx_wrb = 0, q_cidx_wrb = 0, q_st_c2h_wrb_desc_size = DESC_SZ_8B,
      q_st_c2h_wrb_udd_en = False, q_st_c2h_wrb_entry_len = 0, q_st_rx_fl = None,
      q_desc_wrb_cur = 0, q_desc_wrb = None, q_desc_wrb_bus = 0, q_desc_wrb_wb = zero_wrb_wb,
      q_rx_handler = False, q_done = []\<rparr>"

definition qdma_descq_init :: "qdma_dev \<Rightarrow> nat \<Rightarrow> nat \<Rightarrow> qdma_descq" where
  "qdma_descq_init qdev idx_hw idx_sw =
     zero_descq\<lparr>q_channel := 0, q_qidx_hw := ucast (qd_qbase qdev) + of_nat idx_hw,
       q_conf := zero_conf\<lparr>qc_qidx := of_nat idx_sw\<rparr>\<rparr>"

text \<open>Casting the requested entry size, and the entry length that goes with it.\<close>

definition desc_sz_of :: "u8 \<Rightarrow> ctxt_desc_sz_sel" where
  "desc_sz_of n =
     (if n = 0 then DESC_SZ_8B else if n = 1 then DESC_SZ_16B else if n = 2 then DESC_SZ_32B
      else if n = 3 then DESC_SZ_RSV else DESC_SZ_OTHER n)"

text \<open>Decimal printing, as \<open>sprintf\<close> does it.\<close>

function nat_str :: "nat \<Rightarrow> string" where
  "nat_str n = (if n < 10 then [char_of (48 + n)] else nat_str (n div 10) @ [char_of (48 + n mod 10)])"
  by pat_completeness auto
termination
  by (relation "measure id") auto

declare nat_str.simps [simp del]

definition queue_name :: "bool \<Rightarrow> u8 \<Rightarrow> bool \<Rightarrow> bool \<Rightarrow> u16 \<Rightarrow> string" where
  "queue_name vf idx st c2h qidx =
     (if vf then ''qdmavf'' else ''qdma'') @ nat_str (unat idx) @ ''-'' @ (if st then ''ST'' else ''MM'')
     @ ''-'' @ (if c2h then ''C2H'' else ''H2C'') @ ''-'' @ nat_str (unat qidx)"

definition qdma_descq_config ::
  "bool \<Rightarrow> xlnx_dma_dev \<Rightarrow> qdma_descq \<Rightarrow> qdma_queue_conf \<Rightarrow> bool \<Rightarrow> qdma_descq" where
  "qdma_descq_config vf xdev descq qconf reconfig =
     (let sz = (if qc_c2h qconf \<and> qc_st qconf then desc_sz_of (qc_st_c2h_wrb_desc_size qconf) else DESC_SZ_RSV);
          udd_en = (qc_c2h qconf \<and> qc_st qconf);
          (udd_en, entry_len) =
            (case sz of
               DESC_SZ_8B \<Rightarrow> (udd_en, 8)
             | DESC_SZ_16B \<Rightarrow> (udd_en, 16)
             | DESC_SZ_32B \<Rightarrow> (udd_en, 32)
             | DESC_SZ_RSV \<Rightarrow> (False, 8)
             | DESC_SZ_OTHER _ \<Rightarrow> (False, 8));
          descq = descq\<lparr>q_conf := (q_conf descq)\<lparr>qc_rngsz := RNG_SZ_DFLT\<rparr>,
            q_rngsz_wrb := WRB_RNG_SZ_DFLT, q_avail := RNG_SZ_DFLT - 1, q_pidx := 0, q_cidx := 0,
            q_cidx_wrb := 0, q_pidx_wrb := 0, q_credit := 0,
            q_irq_en := (if x_num_vecs xdev \<noteq> 0 then 1 else 0), q_wrb_stat_desc_en := 1,
            q_wrb_trig_mode := TRIG_MODE_ANY, q_wrb_timer_idx := 0,
            q_prefetch_en := ucast (dc_pftch_en (x_conf xdev)),
            q_st_c2h_wrb_desc_size := sz, q_st_c2h_wrb_udd_en := udd_en,
            q_st_c2h_wrb_entry_len := entry_len\<rparr>
      in if reconfig then descq
         else let conf = (q_conf descq)\<lparr>qc_st := qc_st qconf, qc_c2h := qc_c2h qconf\<rparr>
              in descq\<lparr>q_conf := conf\<lparr>qc_name :=
                   queue_name vf (dc_idx (x_conf xdev)) (qc_st conf) (qc_c2h conf) (qc_qidx conf)\<rparr>\<rparr>)"

section \<open>Hardware\<close>

definition qdma_descq_prog_hw :: "'e env \<Rightarrow> xlnx_dma_dev \<Rightarrow> qdma_descq \<Rightarrow> 'e \<Rightarrow> unit res \<times> 'e" where
  "qdma_descq_prog_hw E xdev descq e =
     res_then (qdma_descq_context_setup E xdev descq e) (\<lambda>e.
       let e = (if qc_st (q_conf descq) \<and> qc_c2h (q_conf descq)
                then descq_pidx_update E False descq (qc_rngsz (q_conf descq) - 1)
                       (descq_wrb_cidx_update E False descq 0 e)
                else e)
       in (Inr (), intr_cidx_update E False descq 0 e))"

definition qdma_descq_cleanup ::
  "'e env \<Rightarrow> xlnx_dma_dev \<Rightarrow> qdma_descq \<Rightarrow> 'e \<Rightarrow> unit res \<times> xlnx_dma_dev \<times> qdma_descq \<times> 'e" where
  "qdma_descq_cleanup E xdev descq e =
     (let (descq, e) =
            (if q_inited descq
             then (descq\<lparr>q_inited := False, q_online := False\<rparr>,
                   snd (qdma_descq_context_clear E (q_qidx_hw descq) (qc_st (q_conf descq))
                          (qc_c2h (q_conf descq)) e))
             else (descq, e));
          xdev = desc_free_irq xdev descq
      in case qdma_descq_free_resource E descq e of (rv, descq, e) \<Rightarrow> (rv, xdev, descq, e))"

section \<open>The vector with the fewest queues\<close>

lemma irq_scan_least:
  assumes "idx < n" and "k \<le> n" and "low = cnt ! idx" and "\<forall>j<k. cnt ! idx \<le> cnt ! j"
    and "\<forall>j<idx. cnt ! idx < cnt ! j"
  shows "irq_scan cnt [k..<n] low idx < n
    \<and> (\<forall>j<n. cnt ! irq_scan cnt [k..<n] low idx \<le> cnt ! j)
    \<and> (\<forall>j<irq_scan cnt [k..<n] low idx. cnt ! irq_scan cnt [k..<n] low idx < cnt ! j)"
  using assms
proof (induction "n - k" arbitrary: k low idx)
  case 0
  then show ?case
    by simp
next
  case (Suc m)
  then have upt: "[k..<n] = k # [Suc k..<n]"
    by (simp add: upt_conv_Cons)
  define i where "i = (if cnt ! k < low then k else idx)"
  have new: "i < n" "\<forall>j<Suc k. cnt ! i \<le> cnt ! j" "\<forall>j<i. cnt ! i < cnt ! j"
    using Suc.prems Suc.hyps(2) unfolding i_def
    by (auto simp: less_Suc_eq intro: le_less_trans less_le_trans)
  have step: "irq_scan cnt [k..<n] low idx =
      (if cnt ! i = 0 then i else irq_scan cnt [Suc k..<n] (cnt ! i) i)"
    using Suc.prems(3) by (simp add: upt Let_def i_def)
  show ?case
  proof (cases "cnt ! i = 0")
    case True
    then show ?thesis
      using step new by simp
  next
    case False
    then show ?thesis
      using step Suc.hyps(1) [of "Suc k" i "cnt ! i"] Suc.hyps(2) new by simp
  qed
qed

text \<open>
  A queue gets the interrupt vector with the fewest queues, the first of them if there are
  several, and the count of that vector goes up by one; without vectors nothing changes.
\<close>

lemma alloc_irq_least_loaded:
  assumes "0 < x_num_vecs xdev" and "desc_alloc_irq xdev descq = (xdev', descq')"
    and "cnt = x_intr_list_cnt xdev" and "v = q_intr_id descq'"
  shows "v < x_num_vecs xdev \<and> (\<forall>j<x_num_vecs xdev. cnt ! v \<le> cnt ! j) \<and> (\<forall>j<v. cnt ! v < cnt ! j)
    \<and> xdev' = xdev\<lparr>x_intr_list_cnt := cnt[v := cnt ! v + 1]\<rparr> \<and> descq' = descq\<lparr>q_intr_id := v\<rparr>"
proof -
  have "v = irq_scan cnt [0..<x_num_vecs xdev] (cnt ! 0) 0"
    using assms by (auto simp: desc_alloc_irq_def Let_def)
  then show ?thesis
    using irq_scan_least [of 0 "x_num_vecs xdev" 0 "cnt ! 0" cnt] assms
    by (auto simp: desc_alloc_irq_def Let_def)
qed

lemma alloc_irq_least_loaded_witness:
  "q_intr_id (snd (desc_alloc_irq (sample_xdev\<lparr>x_num_vecs := 3, x_intr_list_cnt := [2, 1, 1]\<rparr>) sample_mm)) = 1"
proof -
  let ?x = "sample_xdev\<lparr>x_num_vecs := 3, x_intr_list_cnt := [2, 1, 1]\<rparr>"
  obtain x d where run: "desc_alloc_irq ?x sample_mm = (x, d)"
    by (metis surj_pair)
  have v: "q_intr_id d < 3" "\<forall>j<3. [2, 1, 1] ! q_intr_id d \<le> ([2, 1, 1] :: nat list) ! j"
    "\<forall>j<q_intr_id d. [2, 1, 1] ! q_intr_id d < ([2, 1, 1] :: nat list) ! j"
    using alloc_irq_least_loaded [OF _ run refl refl] by simp_all
  have "q_intr_id d \<noteq> 0"
    using v(2) [rule_format, of 1] by (cases "q_intr_id d") auto
  moreover have "q_intr_id d \<noteq> 2"
    using v(3) [rule_format, of 1] by auto
  ultimately have "q_intr_id d = 1"
    using v(1) by simp
  then show ?thesis
    using run by simp
qed

section \<open>Resources are balanced\<close>

text \<open>
  \<open>accounted E\<close> is the environment \<open>E\<close> with ghost accounts of what the driver holds: pages, DMA
  mappings and coherent buffers. Every answer is that of \<open>E\<close>.
\<close>

type_synonym 'e acc = "'e \<times> u64 multiset \<times> u64 multiset \<times> (u32 \<times> u64) multiset"

definition accounted :: "'e env \<Rightarrow> 'e acc env" where
  "accounted E = \<lparr>
     env_readl = (\<lambda>a (e, r). let (v, e') = env_readl E a e in (v, e', r)),
     env_writel = (\<lambda>a v (e, r). (env_writel E a v e, r)),
     env_udelay = (\<lambda>n (e, r). (env_udelay E n e, r)),
     env_kmalloc = (\<lambda>n (e, r). let (b, e') = env_kmalloc E n e in (b, e', r)),
     env_alloc_page = (\<lambda>(e, P, M, D). case env_alloc_page E e of
         (None, e') \<Rightarrow> (None, e', P, M, D) | (Some p, e') \<Rightarrow> (Some p, e', add_mset p P, M, D)),
     env_free_page = (\<lambda>p (e, P, M, D). (env_free_page E p e, P - {#p#}, M, D)),
     env_dma_map_page = (\<lambda>p (e, P, M, D). case env_dma_map_page E p e of
         (None, e') \<Rightarrow> (None, e', P, M, D) | (Some m, e') \<Rightarrow> (Some m, e', P, add_mset m M, D)),
     env_dma_unmap_page = (\<lambda>m (e, P, M, D). (env_dma_unmap_page E m e, P, M - {#m#}, D)),
     env_dma_alloc = (\<lambda>n (e, P, M, D). case env_dma_alloc E n e of
         (None, e') \<Rightarrow> (None, e', P, M, D) | (Some b, e') \<Rightarrow> (Some b, e', P, M, add_mset (n, b) D)),
     env_dma_free = (\<lambda>n b (e, P, M, D). (env_dma_free E n b e, P, M, D - {#(n, b)#}))\<rparr>"

text \<open>What the filled front of a free list accounts for.\<close>

definition fl_front :: "fl_desc list \<Rightarrow> fl_desc list" where
  "fl_front fls = takeWhile (\<lambda>fl. fl_pg fl \<noteq> None) fls"

definition fl_pages :: "fl_desc list \<Rightarrow> u64 multiset" where
  "fl_pages fls = mset (map (the \<circ> fl_pg) (fl_front fls))"

definition fl_maps :: "fl_desc list \<Rightarrow> u64 multiset" where
  "fl_maps fls = mset (map fl_dma_addr (fl_front fls))"

lemma fl_free_entries_acc:
  "\<exists>e'. fl_free_entries (accounted E) fls (e, P, M, D) = (e', P - fl_pages fls, M - fl_maps fls, D)"
proof (induction fls arbitrary: e P M)
  case (Cons fl fls)
  show ?case
  proof (cases "fl_pg fl")
    case (Some pg)
    then show ?thesis
      using Cons.IH [of "env_free_page E pg (env_dma_unmap_page E (fl_dma_addr fl) e)" "P - {#pg#}" "M - {#fl_dma_addr fl#}"]
      by (simp add: accounted_def fl_pages_def fl_maps_def fl_front_def)
  qed (simp add: fl_pages_def fl_maps_def fl_front_def)
qed (simp add: fl_pages_def fl_maps_def fl_front_def)

lemma fl_refill_entry_acc:
  assumes "fl_pg fl = None" and "fl_refill_entry (accounted E) fl (e, P, M, D) = (rv, fl', e', P', M', D')"
  shows "D' = D \<and> (if rv = Inr () then fl_pg fl' \<noteq> None \<and> P' = add_mset (the (fl_pg fl')) P
      \<and> M' = add_mset (fl_dma_addr fl') M else fl_pg fl' = None \<and> P' = P \<and> M' = M)"
  using assms
  by (auto simp: fl_refill_entry_def accounted_def Let_def split: prod.splits option.splits if_splits)

lemma fl_fill_entries_acc:
  assumes "\<forall>fl\<in>set fls. fl_pg fl = None"
    and "fl_fill_entries (accounted E) fls (e, P, M, D) = (rv, fls', e', P', M', D')"
  shows "D' = D \<and> P' = P + fl_pages fls' \<and> M' = M + fl_maps fls' \<and> length fls' = length fls
    \<and> (rv = Inr () \<longrightarrow> (\<forall>fl\<in>set fls'. fl_pg fl \<noteq> None))"
  using assms
proof (induction fls arbitrary: e P M D rv fls' e' P' M' D')
  case (Cons fl fls)
  obtain rv1 fl1 e1 P1 M1 D1 where rf:
    "fl_refill_entry (accounted E) (fl\<lparr>fl_pg := None\<rparr>) (e, P, M, D) = (rv1, fl1, e1, P1, M1, D1)"
    by (metis surj_pair)
  note acc = fl_refill_entry_acc [OF _ rf, simplified]
  show ?case
  proof (cases rv1)
    case (Inl err)
    then show ?thesis
      using Cons.prems rf acc by (auto simp: fl_pages_def fl_maps_def fl_front_def)
  next
    case (Inr u)
    obtain rv2 fls2 e2 P2 M2 D2 where rest: "fl_fill_entries (accounted E) fls (e1, P1, M1, D1) = (rv2, fls2, e2, P2, M2, D2)"
      by (metis surj_pair)
    then show ?thesis
      using Cons.prems rf acc Inr Cons.IH [OF _ rest]
      by (auto simp: fl_pages_def fl_maps_def fl_front_def)
  qed
qed (simp add: fl_pages_def fl_maps_def fl_front_def)

text \<open>A queue that holds no resources.\<close>

definition descq_clean :: "qdma_descq \<Rightarrow> bool" where
  "descq_clean descq \<longleftrightarrow> q_desc descq = None \<and> q_st_rx_fl descq = None \<and> q_desc_wrb descq = None
     \<and> rxq_dlen (q_rx_queue descq) = 0"

text \<open>What a queue holds, by its record.\<close>

definition held_dma :: "qdma_descq \<Rightarrow> (u32 \<times> u64) multiset" where
  "held_dma descq =
     (if q_desc descq = None then {#}
      else {#(qc_rngsz (q_conf descq) * get_desc_size descq + get_desc_wb_size descq, q_desc_bus descq)#})
     + (if q_desc_wrb descq = None then {#}
        else {#(q_rngsz_wrb descq * of_nat (q_st_c2h_wrb_entry_len descq) + 8, q_desc_wrb_bus descq)#})"

definition held_fl :: "qdma_descq \<Rightarrow> fl_desc list" where
  "held_fl descq = (case q_st_rx_fl descq of None \<Rightarrow> [] | Some fls \<Rightarrow> take (unat (qc_rngsz (q_conf descq))) fls)"

lemma free_resource_acc:
  assumes "rxq_dlen (q_rx_queue descq) = 0"
  shows "\<exists>e' descq'. qdma_descq_free_resource (accounted E) descq (e, P, M, D) =
      (Inr (), descq', e', P - fl_pages (held_fl descq), M - fl_maps (held_fl descq), D - held_dma descq)
    \<and> descq_clean descq'"
proof -
  have fl: "\<exists>e'. fl_free_entries (accounted E) fls (e, P, M, D) = (e', P - fl_pages fls, M - fl_maps fls, D)"
    for fls e P M and D :: "(u32 \<times> u64) multiset"
    by (rule fl_free_entries_acc)
  show ?thesis
  proof (cases "q_st_rx_fl descq")
    case None
    then show ?thesis
      using assms
      by (auto simp: qdma_descq_free_resource_def held_fl_def held_dma_def descq_clean_def fl_pages_def
          fl_maps_def fl_front_def desc_ring_free_def accounted_def get_desc_size_def get_desc_wb_size_def Let_def
          add_mset_commute)
  next
    case (Some fls)
    let ?d1 = "if q_desc descq = None then D else D - {#(qc_rngsz (q_conf descq) * get_desc_size descq
        + get_desc_wb_size descq, q_desc_bus descq)#}"
    let ?e1 = "if q_desc descq = None then e
      else env_dma_free E (qc_rngsz (q_conf descq) * get_desc_size descq + get_desc_wb_size descq) (q_desc_bus descq) e"
    obtain e' where e': "fl_free_entries (accounted E) (take (unat (qc_rngsz (q_conf descq))) fls) (?e1, P, M, ?d1) =
        (e', P - fl_pages (held_fl descq), M - fl_maps (held_fl descq), ?d1)"
      using fl [of _ ?e1 P M ?d1] Some by (auto simp: held_fl_def)
    have free: "env_dma_free (accounted E) n b (x, p, m, d) = (env_dma_free E n b x, p, m, d - {#(n, b)#})"
      for n b x p m and d :: "(u32 \<times> u64) multiset"
      by (simp add: accounted_def)
    show ?thesis
      using assms Some e'
      by (cases "q_desc descq"; cases "q_desc_wrb descq")
        (simp_all add: qdma_descq_free_resource_def held_dma_def descq_clean_def fl_free_def
          desc_ring_free_def free get_desc_size_def get_desc_wb_size_def Let_def add_mset_commute)
  qed
qed

text \<open>
  \<open>balanced descq base acc\<close>: the accounts are the base accounts plus exactly what the queue
  holds.
\<close>

definition balanced ::
  "qdma_descq \<Rightarrow> u64 multiset \<times> u64 multiset \<times> (u32 \<times> u64) multiset
     \<Rightarrow> u64 multiset \<times> u64 multiset \<times> (u32 \<times> u64) multiset \<Rightarrow> bool" where
  "balanced descq base acc \<longleftrightarrow>
     acc = (fst base + fl_pages (held_fl descq), fst (snd base) + fl_maps (held_fl descq),
            snd (snd base) + held_dma descq)
     \<and> rxq_dlen (q_rx_queue descq) = 0"

lemma free_balanced:
  assumes "balanced descq base acc"
  shows "\<exists>e' descq'. qdma_descq_free_resource (accounted E) descq (e, acc) = (Inr (), descq', e', base)
    \<and> descq_clean descq'"
proof -
  obtain P M D where acc: "acc = (P, M, D)"
    by (metis surj_pair)
  show ?thesis
    using free_resource_acc [of descq E e P M D] assms unfolding balanced_def acc by auto
qed

lemma fl_empty [simp]: "fl_pages [] = {#}" "fl_maps [] = {#}"
  by (simp_all add: fl_pages_def fl_maps_def fl_front_def)

lemma balanced_clean: "descq_clean descq \<Longrightarrow> balanced descq base base"
  by (simp add: balanced_def descq_clean_def held_fl_def held_dma_def)

lemma fl_fill_balanced:
  assumes "q_st_rx_fl descq = None" and "balanced descq base acc"
    and "fl_fill (accounted E) descq (e, acc) = (rv, descq', e', acc')"
  shows "balanced descq' base acc' \<and> (\<exists>x. descq' = descq\<lparr>q_st_rx_fl := x\<rparr>
    \<and> (rv = Inr () \<longrightarrow> map_option length x = Some (unat (qc_rngsz (q_conf descq)))))"
proof -
  obtain P M D where acc: "acc = (P, M, D)"
    by (metis surj_pair)
  let ?n = "unat (qc_rngsz (q_conf descq))"
  obtain ok e1 where km: "env_kmalloc (accounted E) (?n * 24) (e, acc) = (ok, e1, acc)"
    by (cases "env_kmalloc E (?n * 24) e") (simp add: accounted_def acc)
  obtain rv1 fls e2 P2 M2 D2 where fe:
    "fl_fill_entries (accounted E) (replicate ?n zero_fl) (e1, acc) = (rv1, fls, e2, P2, M2, D2)"
    by (metis surj_pair)
  have filled: "D2 = D" "P2 = P + fl_pages fls" "M2 = M + fl_maps fls" "length fls = ?n"
    using fl_fill_entries_acc [OF _ fe [unfolded acc]] by (simp_all add: zero_fl_def)
  obtain e3 where e3: "fl_free_entries (accounted E) fls (e2, P2, M2, D2) = (e3, P2 - fl_pages fls, M2 - fl_maps fls, D2)"
    using fl_free_entries_acc [of E fls e2 P2 M2 D2] by blast
  have held: "held_fl (descq\<lparr>q_st_rx_fl := Some fls\<rparr>) = fls" "held_fl descq = []"
    "held_dma (descq\<lparr>q_st_rx_fl := x\<rparr>) = held_dma descq" "held_fl (descq\<lparr>q_st_rx_fl := None\<rparr>) = []" for x
    using filled(4) assms(1) by (simp_all add: held_fl_def held_dma_def get_desc_size_def get_desc_wb_size_def)
  show ?thesis
  proof (cases "ok \<and> rv1 = Inr ()")
    case True
    then have "descq' = descq\<lparr>q_st_rx_fl := Some fls\<rparr>" "acc' = (P2, M2, D2)"
      using assms(3) km fe by (simp_all add: fl_fill_def Let_def)
    then show ?thesis
      using assms(2) held filled by (auto simp: balanced_def acc)
  next
    case False
    then have "rv \<noteq> Inr () \<and> descq' = descq\<lparr>q_st_rx_fl := None\<rparr> \<and> acc' = acc"
      using assms(1,3) km fe e3 filled acc
      by (cases ok; cases rv1) (auto simp: fl_fill_def fl_free_def Let_def)
    then show ?thesis
      using assms(2) held by (auto simp: balanced_def)
  qed
qed

lemma dma_alloc_acc:
  "desc_ring_alloc (accounted E) n d w (e, P, M, D) = (r, e', P', M', D') \<Longrightarrow>
   P' = P \<and> M' = M \<and> D' = (case r of None \<Rightarrow> D | Some b \<Rightarrow> add_mset (n * d + w, b) D)"
  by (auto simp: desc_ring_alloc_def accounted_def split: prod.splits option.splits)

lemma alloc_c2h_balanced:
  assumes "q_st_rx_fl descq = None" and "q_desc_wrb descq = None" and "q_desc descq \<noteq> None"
    and "balanced descq base acc"
    and "alloc_c2h_resource (accounted E) descq (e, acc) = (ok, descq', e', acc')"
  shows "balanced descq' base acc'"
proof -
  obtain rv descq1 e1 acc1 where ff: "fl_fill (accounted E) descq (e, acc) = (rv, descq1, e1, acc1)"
    by (metis surj_pair)
  note bal = fl_fill_balanced [OF assms(1,4) ff]
  show ?thesis
  proof (cases rv)
    case (Inl err)
    then show ?thesis
      using assms(5) ff bal by (simp add: alloc_c2h_resource_def)
  next
    case (Inr u)
    let ?d2 = "descq1\<lparr>q_desc := map_option (\<lambda>_. C2H_ring (map (\<lambda>fl. \<lparr>c2h_dst_addr = fl_dma_addr fl\<rparr>)
        (the (q_st_rx_fl descq1)))) (q_desc descq1)\<rparr>"
    obtain P M D where acc1: "acc1 = (P, M, D)"
      by (metis surj_pair)
    obtain r e2 P2 M2 D2 where al: "desc_ring_alloc (accounted E) (q_rngsz_wrb descq1)
        (of_nat (q_st_c2h_wrb_entry_len descq1)) 8 (e1, acc1) = (r, e2, P2, M2, D2)"
      by (metis surj_pair)
    note acc2 = dma_alloc_acc [OF al [unfolded acc1]]
    have wrb: "q_desc_wrb descq1 = None" "q_desc descq1 \<noteq> None"
      using bal assms(2,3) by auto
    have held: "held_fl ?d2 = held_fl descq1" "held_dma ?d2 = held_dma descq1"
      using wrb by (simp_all add: held_fl_def held_dma_def get_desc_size_def get_desc_wb_size_def split: option.split)
    show ?thesis
    proof (cases r)
      case None
      then have "descq' = ?d2" "acc' = acc1"
        using assms(5) ff Inr al acc2 acc1 by (simp_all add: alloc_c2h_resource_def Let_def)
      then show ?thesis
        using bal held by (simp add: balanced_def)
    next
      case (Some bus)
      define d3 where "d3 = ?d2\<lparr>q_desc_wrb := Some (replicate (unat (q_rngsz_wrb descq1))
            (replicate (q_st_c2h_wrb_entry_len descq1) 0)),
          q_desc_wrb_bus := bus, q_desc_wrb_wb := zero_wrb_wb, q_desc_wrb_cur := 0,
          q_rx_handler := True, q_rx_queue := (q_rx_queue descq1)\<lparr>rxq_dlen := 0\<rparr>\<rparr>"
      have d3: "descq' = d3" "acc' = (P2, M2, D2)"
        using assms(5) ff Inr al Some by (simp_all add: alloc_c2h_resource_def Let_def d3_def)
      have "held_fl d3 = held_fl descq1"
        by (simp add: d3_def held_fl_def split: option.split)
      moreover have "held_dma d3 = add_mset (q_rngsz_wrb descq1 * of_nat (q_st_c2h_wrb_entry_len descq1) + 8, bus) (held_dma descq1)"
        using wrb by (simp add: d3_def held_dma_def get_desc_size_def get_desc_wb_size_def)
      moreover have "rxq_dlen (q_rx_queue d3) = 0"
        by (simp add: d3_def)
      ultimately show ?thesis
        using bal acc2 Some acc1 d3 by (simp add: balanced_def)
    qed
  qed
qed

lemma desc_alloc_irq_form:
  assumes "desc_alloc_irq xdev descq = (xdev', descq')"
  shows "\<exists>v. descq' = descq\<lparr>q_intr_id := v\<rparr>"
proof (cases "x_num_vecs xdev = 0")
  case True
  then have "descq' = descq\<lparr>q_intr_id := q_intr_id descq\<rparr>"
    using assms by (simp add: desc_alloc_irq_def)
  then show ?thesis ..
next
  case False
  then show ?thesis
    using assms by (auto simp: desc_alloc_irq_def Let_def)
qed

lemma balanced_irq:
  assumes "desc_alloc_irq xdev descq = (xdev', descq')" and "balanced descq b a"
  shows "balanced descq' b a"
proof -
  obtain v where "descq' = descq\<lparr>q_intr_id := v\<rparr>"
    using desc_alloc_irq_form [OF assms(1)] ..
  moreover have "held_fl (descq\<lparr>q_intr_id := v\<rparr>) = held_fl descq"
    "held_dma (descq\<lparr>q_intr_id := v\<rparr>) = held_dma descq"
    by (simp_all add: held_fl_def held_dma_def get_desc_size_def get_desc_wb_size_def split: option.split)
  ultimately show ?thesis
    using assms(2) by (simp add: balanced_def)
qed

text \<open>The rings of a queue, up to the point where an interrupt vector is chosen.\<close>

lemma alloc_rings_balanced:
  assumes "descq_clean descq"
    and part: "(case desc_ring_alloc (accounted E) (qc_rngsz (q_conf descq)) (get_desc_size descq) (get_desc_wb_size descq) (e, acc) of
      (None, e) \<Rightarrow> (False, descq\<lparr>q_desc := None\<rparr>, e)
    | (Some bus, e) \<Rightarrow>
        let descq = descq\<lparr>q_desc := Some (zero_ring descq), q_desc_bus := bus, q_desc_wb := zero_wb\<rparr>
        in if qc_st (q_conf descq) \<and> qc_c2h (q_conf descq) then alloc_c2h_resource (accounted E) descq e
           else (True, descq, e)) = (ok, descq1, e1, acc1)"
  shows "balanced descq1 acc acc1"
proof -
  let ?al = "desc_ring_alloc (accounted E) (qc_rngsz (q_conf descq)) (get_desc_size descq) (get_desc_wb_size descq) (e, acc)"
  obtain P M D where acc: "acc = (P, M, D)"
    by (metis surj_pair)
  obtain r e0 P0 M0 D0 where al: "?al = (r, e0, P0, M0, D0)"
    by (metis surj_pair)
  note a = dma_alloc_acc [OF al [unfolded acc]]
  show ?thesis
  proof (cases r)
    case None
    then show ?thesis
      using part al a balanced_clean [OF assms(1)] acc assms(1) by (auto simp: descq_clean_def balanced_def held_fl_def held_dma_def)
  next
    case (Some bus)
    let ?d = "descq\<lparr>q_desc := Some (zero_ring descq), q_desc_bus := bus, q_desc_wb := zero_wb\<rparr>"
    have "balanced ?d acc (P0, M0, D0)"
      using a Some assms(1) acc
      by (simp add: balanced_def descq_clean_def held_fl_def held_dma_def get_desc_size_def get_desc_wb_size_def)
    then show ?thesis
      using part al Some alloc_c2h_balanced [of ?d acc "(P0, M0, D0)" E e0 ok descq1 e1 acc1] assms(1)
      by (auto simp: descq_clean_def Let_def split: if_splits)
  qed
qed

text \<open>
  C26: Allocating the resources of a queue that holds none is all or nothing, whatever the kernel
  answers: if it fails, with \<open>-ENOMEM\<close>, every page, DMA mapping and coherent buffer obtained on
  the way has been given back and the queue holds nothing; if it succeeds, freeing the queue's
  resources gives back exactly what was obtained.
\<close>

theorem alloc_resource_balanced:
  assumes "descq_clean descq"
    and "qdma_descq_alloc_resource (accounted E) xdev descq (e, acc) = (rv, xdev', descq', e', acc')"
  shows "(rv = Inl ENOMEM \<and> acc' = acc \<and> descq_clean descq' \<and> xdev' = xdev)
    \<or> (rv = Inr () \<and> (\<exists>d e''. qdma_descq_free_resource (accounted E) descq' (e', acc') = (Inr (), d, e'', acc)
         \<and> descq_clean d))"
proof -
  obtain ok descq1 e1 acc1 where part:
    "(case desc_ring_alloc (accounted E) (qc_rngsz (q_conf descq)) (get_desc_size descq) (get_desc_wb_size descq) (e, acc) of
      (None, e) \<Rightarrow> (False, descq\<lparr>q_desc := None\<rparr>, e)
    | (Some bus, e) \<Rightarrow>
        let descq = descq\<lparr>q_desc := Some (zero_ring descq), q_desc_bus := bus, q_desc_wb := zero_wb\<rparr>
        in if qc_st (q_conf descq) \<and> qc_c2h (q_conf descq) then alloc_c2h_resource (accounted E) descq e
           else (True, descq, e)) = (ok, descq1, e1, acc1)"
    by (rule prod_cases4)
  note bal = alloc_rings_balanced [OF assms(1) part]
  show ?thesis
  proof (cases ok)
    case True
    obtain x d where irq: "desc_alloc_irq xdev descq1 = (x, d)"
      by (metis surj_pair)
    then have "balanced d acc acc1"
      using bal by (rule balanced_irq)
    then show ?thesis
      using assms(2) part True irq free_balanced [of d acc acc1 E e1]
      by (auto simp: qdma_descq_alloc_resource_def)
  next
    case False
    obtain e2 d where "qdma_descq_free_resource (accounted E) descq1 (e1, acc1) = (Inr (), d, e2, acc)" "descq_clean d"
      using free_balanced [OF bal, of E e1] by blast
    then show ?thesis
      using assms(2) part False by (simp add: qdma_descq_alloc_resource_def)
  qed
qed

theorem alloc_resource_balanced_witness:
  "\<exists>d e. qdma_descq_alloc_resource (accounted (ram_env\<lparr>env_dma_alloc := (\<lambda>n r. (None, r))\<rparr>)) sample_xdev
      zero_descq (\<lambda>_. 0, {#5#}, {#}, {#}) = (Inl ENOMEM, sample_xdev, d, e, {#5#}, {#}, {#})"
proof -
  let ?E = "ram_env\<lparr>env_dma_alloc := (\<lambda>n r. (None, r))\<rparr>"
  obtain rv x d e acc where run: "qdma_descq_alloc_resource (accounted ?E) sample_xdev zero_descq
      (\<lambda>_. 0, {#5#}, {#}, {#}) = (rv, x, d, e, acc)"
    by (metis surj_pair)
  have "descq_clean zero_descq"
    by (simp add: descq_clean_def zero_descq_def)
  moreover have "rv \<noteq> Inr ()"
    using run
    by (auto simp: qdma_descq_alloc_resource_def desc_ring_alloc_def accounted_def ram_env_def
        split: prod.splits if_splits)
  ultimately show ?thesis
    using alloc_resource_balanced [of zero_descq ?E sample_xdev "\<lambda>_. 0" "({#5#}, {#}, {#})" rv x d e acc] run
    by auto
qed

section \<open>A freshly configured queue is consistent\<close>

lemma fl_fill_ring:
  assumes "fl_fill E descq e = (Inr (), descq', e')"
  shows "\<exists>fls. descq' = descq\<lparr>q_st_rx_fl := Some fls\<rparr> \<and> length fls = unat (qc_rngsz (q_conf descq))"
proof -
  have len: "fl_fill_entries E fls e = (rv, fls', e') \<Longrightarrow> length fls' = length fls" for fls e rv fls' e'
    by (induction fls arbitrary: e rv fls' e') (auto split: prod.splits sum.splits)
  show ?thesis
    using assms len by (auto simp: fl_fill_def Let_def split: prod.splits bool.splits sum.splits)
qed

lemma alloc_c2h_ring:
  assumes "alloc_c2h_resource E descq e = (True, descq', e')" and "q_desc descq \<noteq> None"
  shows "\<exists>fls bus dlen. descq' = descq\<lparr>q_st_rx_fl := Some fls,
      q_desc := Some (C2H_ring (map (\<lambda>fl. \<lparr>c2h_dst_addr = fl_dma_addr fl\<rparr>) fls)),
      q_desc_wrb := Some (replicate (unat (q_rngsz_wrb descq)) (replicate (q_st_c2h_wrb_entry_len descq) 0)),
      q_desc_wrb_bus := bus, q_desc_wrb_wb := zero_wrb_wb, q_desc_wrb_cur := 0, q_rx_handler := True,
      q_rx_queue := (q_rx_queue descq)\<lparr>rxq_dlen := 0\<rparr>\<rparr>
    \<and> length fls = unat (qc_rngsz (q_conf descq))"
  using assms fl_fill_ring [of E descq e]
  by (fastforce simp: alloc_c2h_resource_def Let_def split: prod.splits sum.splits option.splits)

text \<open>
  A queue that has been configured and whose resources could be allocated satisfies, before
  any request, the invariant of its kind: a streaming card-to-host queue that of the receive
  ring, any other queue that of the transmit ring, with an empty ring of 256 slots of which 255
  are free.
\<close>

lemma configured_queue_ok:
  assumes "q_work_list descq = []" and "q_pend_list descq = []"
    and "qdma_descq_alloc_resource E xdev (qdma_descq_config vf xdev descq qconf False) e = (Inr (), xdev', descq', e')"
  shows "(if qc_st qconf \<and> qc_c2h qconf then rx_ok descq' else tx_ok descq')
    \<and> qc_rngsz (q_conf descq') = 256 \<and> q_avail descq' = 255 \<and> q_pidx descq' = 0 \<and> q_cidx descq' = 0"
proof -
  let ?c = "qdma_descq_config vf xdev descq qconf False"
  have c: "qc_rngsz (q_conf ?c) = 256" "qc_st (q_conf ?c) = qc_st qconf" "qc_c2h (q_conf ?c) = qc_c2h qconf"
    "q_rngsz_wrb ?c = 256" "q_avail ?c = 255" "q_pidx ?c = 0" "q_cidx ?c = 0" "q_cidx_wrb ?c = 0"
    "q_credit ?c = 0" "q_work_list ?c = []" "q_pend_list ?c = []"
    using assms(1,2) by (simp_all add: qdma_descq_config_def Let_def case_prod_beta)
  obtain bus e1 where "desc_ring_alloc E 256 (get_desc_size ?c) (get_desc_wb_size ?c) e = (Some bus, e1)"
    using assms(3) c(1)
    by (cases "desc_ring_alloc E 256 (get_desc_size ?c) (get_desc_wb_size ?c) e"; cases "fst (desc_ring_alloc E 256 (get_desc_size ?c) (get_desc_wb_size ?c) e)")
      (auto simp: qdma_descq_alloc_resource_def Let_def split: prod.splits if_splits)
  moreover define q where "q = ?c\<lparr>q_desc := Some (zero_ring ?c), q_desc_bus := bus, q_desc_wb := zero_wb\<rparr>"
  ultimately obtain ok q1 e2 where part: "(if qc_st qconf \<and> qc_c2h qconf then alloc_c2h_resource E q e1 else (True, q, e1)) = (ok, q1, e2)"
    and irq: "ok" "desc_alloc_irq xdev q1 = (xdev', descq')"
    using assms(3) c
    by (auto simp: qdma_descq_alloc_resource_def Let_def split: prod.splits if_splits)
  obtain v where d: "descq' = q1\<lparr>q_intr_id := v\<rparr>"
    using desc_alloc_irq_form [OF irq(2)] ..
  show ?thesis
  proof (cases "qc_st qconf \<and> qc_c2h qconf")
    case True
    then obtain fls bus' where q1: "q1 = q\<lparr>q_st_rx_fl := Some fls,
        q_desc := Some (C2H_ring (map (\<lambda>fl. \<lparr>c2h_dst_addr = fl_dma_addr fl\<rparr>) fls)),
        q_desc_wrb := Some (replicate (unat (q_rngsz_wrb q)) (replicate (q_st_c2h_wrb_entry_len q) 0)),
        q_desc_wrb_bus := bus', q_desc_wrb_wb := zero_wrb_wb, q_desc_wrb_cur := 0, q_rx_handler := True,
        q_rx_queue := (q_rx_queue q)\<lparr>rxq_dlen := 0\<rparr>\<rparr>" "length fls = unat (qc_rngsz (q_conf q))"
      using alloc_c2h_ring [of E q e1 q1 e2] part irq(1) by (auto simp: q_def)
    then show ?thesis
      using True c unfolding d by (simp add: q_def rx_ok_def fl_ring_ok_def comp_def)
  next
    case False
    then show ?thesis
      using part c unfolding d
      by (auto simp: q_def tx_ok_def ring_ok_def ring_mem_ok_def credit_ok_def reqs_ok_def outstanding_def
          owed_def zero_ring_def Let_def)
  qed
qed

lemma configured_queue_ok_witness:
  "tx_ok (fst (snd (snd (qdma_descq_alloc_resource ram_env sample_xdev
      (qdma_descq_config False sample_xdev zero_descq (sample_conf False False) False) (\<lambda>_. 0)))))"
proof -
  let ?q = "qdma_descq_config False sample_xdev zero_descq (sample_conf False False) False"
  obtain rv x d e where run: "qdma_descq_alloc_resource ram_env sample_xdev ?q (\<lambda>_. 0) = (rv, x, d, e)"
    by (metis surj_pair)
  have "\<not> qc_st (q_conf ?q)"
    by (simp add: qdma_descq_config_def zero_descq_def sample_conf_def Let_def)
  then have "rv = Inr ()"
    using run
    by (auto simp: qdma_descq_alloc_resource_def desc_ring_alloc_def Let_def split: prod.splits if_splits)
  then show ?thesis
    using configured_queue_ok [of zero_descq ram_env sample_xdev False "sample_conf False False" "\<lambda>_. 0" x d e] run
    by (simp add: zero_descq_def sample_conf_def)
qed

section \<open>Queue names\<close>

definition str_nat :: "string \<Rightarrow> nat" where
  "str_nat s = foldl (\<lambda>a c. 10 * a + (of_char c - 48)) 0 s"

lemma str_nat_nat_str: "str_nat (nat_str n) = n"
proof (induction n rule: nat_str.induct)
  case (1 n)
  have digit: "of_char (char_of (48 + m) :: char) - 48 = m" if "m < 10" for m :: nat
    using that by (simp add: of_char_of)
  show ?case
  proof (cases "n < 10")
    case True
    then show ?thesis
      using digit [of n] by (subst nat_str.simps) (simp add: str_nat_def)
  next
    case False
    then show ?thesis
      using 1 digit [of "n mod 10"] by (subst nat_str.simps) (simp add: str_nat_def)
  qed
qed

lemma nat_str_no_dash: "CHR ''-'' \<notin> set (nat_str n)"
proof (induction n rule: nat_str.induct)
  case (1 n)
  have digit: "CHR ''-'' \<noteq> char_of (48 + m)" if "m < 10" for m :: nat
  proof
    assume "CHR ''-'' = char_of (48 + m)"
    then have "(of_char (CHR ''-'') :: nat) = of_char (char_of (48 + m) :: char)"
      by (rule arg_cong)
    then show False
      using that by (simp add: of_char_of)
  qed
  show ?case
  proof (cases "n < 10")
    case True
    then have "nat_str n = [char_of (48 + n)]"
      by (subst nat_str.simps) simp
    then show ?thesis
      using digit [OF True] by simp
  next
    case False
    then have "nat_str n = nat_str (n div 10) @ [char_of (48 + n mod 10)]"
      by (subst nat_str.simps) simp
    then show ?thesis
      using digit [of "n mod 10"] 1 [OF False] by simp
  qed
qed

lemma length_nat_str: "n < 10 ^ k \<Longrightarrow> 0 < k \<Longrightarrow> length (nat_str n) \<le> k"
proof (induction n arbitrary: k rule: nat_str.induct)
  case (1 n)
  show ?case
  proof (cases "n < 10")
    case True
    then show ?thesis
      using 1(3) by (subst nat_str.simps) simp
  next
    case False
    then obtain j where j: "k = Suc j" "0 < j"
      using 1(2,3) by (cases k; cases "k - 1") auto
    then have "n div 10 < 10 ^ j"
      using 1(2) by (simp add: less_mult_imp_div_less mult.commute)
    then show ?thesis
      using 1(1) [OF False, of j] False j by (subst nat_str.simps) simp
  qed
qed

lemma split_dash:
  "c \<notin> set a \<Longrightarrow> c \<notin> set b \<Longrightarrow> a @ c # x = b @ c # y \<longleftrightarrow> a = b \<and> x = y"
proof (induction a arbitrary: b)
  case Nil
  then show ?case
    by (cases b) auto
next
  case (Cons d a)
  then show ?case
    by (cases b) auto
qed

text \<open>
  The name of a queue identifies it: two queues with the same name have the same device
  index, mode, direction and queue index. And the name with its terminating NUL fits the 32
  bytes of \<open>qdma_queue_conf.name\<close>.
\<close>

theorem queue_name_unique:
  "(queue_name vf idx st c2h qidx = queue_name vf idx' st' c2h' qidx' \<longleftrightarrow>
      idx = idx' \<and> st = st' \<and> c2h = c2h' \<and> qidx = qidx')
   \<and> length (queue_name vf idx st c2h qidx) + 1 \<le> 32"
proof -
  have inj: "nat_str m = nat_str n \<longleftrightarrow> m = n" for m n
    by (metis str_nat_nat_str)
  have "queue_name vf idx st c2h qidx = queue_name vf idx' st' c2h' qidx' \<longleftrightarrow>
      nat_str (unat idx) = nat_str (unat idx')
      \<and> (if st then ''ST'' else ''MM'') = (if st' then ''ST'' else ''MM'')
      \<and> (if c2h then ''C2H'' else ''H2C'') = (if c2h' then ''C2H'' else ''H2C'')
      \<and> nat_str (unat qidx) = nat_str (unat qidx')"
    unfolding queue_name_def by (simp add: split_dash [OF nat_str_no_dash nat_str_no_dash])
  moreover have "length (nat_str (unat idx)) \<le> 3"
    using unsigned_less [of idx, where 'a = nat] by (intro length_nat_str) simp_all
  moreover have "length (nat_str (unat qidx)) \<le> 5"
    using unsigned_less [of qidx, where 'a = nat] by (intro length_nat_str) simp_all
  ultimately show ?thesis
    by (auto simp: inj word_unat_eq_iff queue_name_def)
qed

end
