(* ===== verification/Qdma_Device.thy ===== *)
theory Qdma_Device
  imports Qdma_Intr Qdma_Descq
begin

text \<open>
  The queues of a device (\<open>libqdma/qdma_device.c\<close>, physical function): creating the device's
  queue structures and claiming its range of hardware queues.
\<close>

section \<open>Access to the queues of a device\<close>

definition put_descq :: "qdma_dev \<Rightarrow> bool \<times> nat \<Rightarrow> qdma_descq \<Rightarrow> qdma_dev" where
  "put_descq qdev p descq =
     (if fst p then qdev\<lparr>qd_c2h_descq := (qd_c2h_descq qdev)[snd p := descq]\<rparr>
      else qdev\<lparr>qd_h2c_descq := (qd_h2c_descq qdev)[snd p := descq]\<rparr>)"

definition queue_at :: "xlnx_dma_dev \<Rightarrow> bool \<times> nat \<Rightarrow> qdma_descq" where
  "queue_at xdev p = descq_at (the (x_dev_priv xdev)) p"

definition put_queue :: "xlnx_dma_dev \<Rightarrow> bool \<times> nat \<Rightarrow> qdma_descq \<Rightarrow> xlnx_dma_dev" where
  "put_queue xdev p descq = xdev\<lparr>x_dev_priv := map_option (\<lambda>qdev. put_descq qdev p descq) (x_dev_priv xdev)\<rparr>"

definition upd_qdev :: "(qdma_dev \<Rightarrow> qdma_dev) \<Rightarrow> xlnx_dma_dev \<Rightarrow> xlnx_dma_dev" where
  "upd_qdev f xdev = xdev\<lparr>x_dev_priv := map_option f (x_dev_priv xdev)\<rparr>"

section \<open>Claiming queues\<close>

definition device_set_qrange :: "'e env \<Rightarrow> xlnx_dma_dev \<Rightarrow> qdma_dev \<Rightarrow> 'e \<Rightarrow> xlnx_dma_dev \<times> 'e" where
  "device_set_qrange E xdev qdev e =
     (upd_qdev (qd_init_qrange_update (\<lambda>_. True)) xdev,
      hw_set_fmap E (x_func_id xdev) (ucast (qd_qbase qdev)) (ucast (qd_qmax qdev)) e)"

definition qdma_device_prep_q_resource :: "'e env \<Rightarrow> xlnx_dma_dev \<Rightarrow> 'e \<Rightarrow> unit res \<times> xlnx_dma_dev \<times> 'e" where
  "qdma_device_prep_q_resource E xdev e =
     (case x_dev_priv xdev of
        None \<Rightarrow> (Inl OOPS, xdev, e)
      | Some qdev \<Rightarrow>
          if qd_init_qrange qdev then (Inr (), xdev, e)
          else let (xdev, e) = device_set_qrange E xdev qdev e
               in case intr_ring_setup E xdev XDEV_INTR_COAL_RING_SIZE e of
                    (Inl err, xdev, e) \<Rightarrow> (Inl err, xdev, e)
                  | (Inr _, xdev, e) \<Rightarrow>
                      if x_intr_coal_en xdev
                      then let (rv, e) = qdma_intr_context_setup E xdev e in (rv, xdev, e)
                      else (Inr (), xdev, e))"

section \<open>Initialisation\<close>

definition QDMA_REG_USER_BAR :: u32 where
  [simp]: "QDMA_REG_USER_BAR = 0x10C"

text \<open>
  The number of the user BAR: the last bit set in the field of the function. (There are two
  physical functions; the shift is undefined in C from function 6 on.)
\<close>

definition user_bar :: "u32 \<Rightarrow> u8 \<Rightarrow> int \<Rightarrow> int" where
  "user_bar v func_id old =
     foldl (\<lambda>bar i. if bit (drop_bit (6 * unat func_id) v AND 0x3F) i then int i else bar) old [0..<6]"

definition init_channels :: "'e env \<Rightarrow> (u32 \<Rightarrow> 'e \<Rightarrow> 'e) \<Rightarrow> u8 \<Rightarrow> 'e \<Rightarrow> 'e" where
  "init_channels E f n e = fold (\<lambda>i. f (of_nat i)) [0..<unat n] e"

definition new_qdev :: "u8 \<Rightarrow> nat \<Rightarrow> qdma_dev" where
  "new_qdev func_id qmax =
     (let qdev = \<lparr>qd_init_qrange = False, qd_qmax = of_nat qmax, qd_qbase = of_nat (unat func_id * qmax),
                  qd_h2c_qcnt = 0, qd_c2h_qcnt = 0, qd_h2c_descq = [], qd_c2h_descq = []\<rparr>;
          n = unat (qd_qmax qdev);
          qs = map (\<lambda>i. qdma_descq_init qdev i i) [0..<n] @ replicate (qmax - n) zero_descq
      in qdev\<lparr>qd_h2c_descq := qs, qd_c2h_descq := qs\<rparr>)"

definition device_id :: "'e env \<Rightarrow> bool \<Rightarrow> xlnx_dma_dev \<Rightarrow> 'e \<Rightarrow> xlnx_dma_dev \<times> 'e" where
  "device_id E vf xdev e =
     (if vf
      then (xdev\<lparr>x_conf := (x_conf xdev)\<lparr>dc_bar_num_user := 1\<rparr>, x_func_id := 0, x_func_id_parent := 0\<rparr>, e)
      else let (f, e) = env_readl E QDMA_REG_FUNC_ID e;
               xdev = xdev\<lparr>x_func_id := ucast f, x_func_id_parent := ucast f\<rparr>;
               (v, e) = env_readl E QDMA_REG_USER_BAR e
           in (xdev\<lparr>x_conf := (x_conf xdev)\<lparr>dc_bar_num_user :=
                 user_bar v (x_func_id xdev) (dc_bar_num_user (x_conf xdev))\<rparr>\<rparr>, e))"

text \<open>
  The memory of the device is requested in units of queue structures. A virtual function has
  number 0 at this point, so its first queue is 0 as well.
\<close>

definition qdma_device_init ::
  "'e env \<Rightarrow> bool \<Rightarrow> 'e msix_if \<Rightarrow> xlnx_dma_dev \<Rightarrow> 'e \<Rightarrow> unit res \<times> xlnx_dma_dev \<times> 'e" where
  "qdma_device_init E vf M xdev e =
     (let qmax = unat (dc_qsets_max (x_conf xdev));
          (xdev, e) = device_id E vf xdev e;
          (rv, xdev, e) = intr_setup M xdev e
      in if rv \<noteq> 0 then (Inl EINVAL, xdev, e)
         else if qmax = 0 then (Inl EINVAL, xdev, e)
         else case env_kmalloc E (qmax * 2) e of
                (False, e) \<Rightarrow> (Inl ENOMEM, xdev, intr_teardown M xdev e)
              | (True, e) \<Rightarrow>
                  let xdev = xdev\<lparr>x_dev_priv := Some (new_qdev (x_func_id xdev) qmax)\<rparr>;
                      e = (if \<not> vf \<and> x_func_id xdev = 0
                           then init_channels E (\<lambda>i. hw_mm_channel_enable E i False) (dc_c2h_channel_max (x_conf xdev))
                                  (init_channels E (\<lambda>i. hw_mm_channel_enable E i True) (dc_h2c_channel_max (x_conf xdev))
                                     (hw_set_global_csr E e))
                           else e)
                  in (Inr (), xdev, e))"

end
