(* ===== verification/Qdma_Worker.thy ===== *)
theory Qdma_Worker
  imports Qdma_Writeback
begin

text \<open>
  The submission worker (\<open>qdma_thread_wrk_pend\<close>, \<open>qdma_thread_wrk_proc\<close> and
  \<open>qdma_thread_wb_pend\<close> of \<open>libqdma/qdma_thread.c\<close>): it offers every request of the work
  list to the ring until the ring is full.
\<close>

section \<open>The worker\<close>

definition qdma_thread_wrk_pend :: "qdma_descq \<Rightarrow> nat" where
  "qdma_thread_wrk_pend descq =
     length (filter (\<lambda>cb. cb_offset cb < req_count cb \<and> q_avail descq \<noteq> 0) (q_work_list descq))"

definition qdma_thread_wb_pend :: "qdma_descq \<Rightarrow> bool" where
  "qdma_thread_wb_pend descq \<longleftrightarrow> q_pend_list descq \<noteq> []"

text \<open>
  The walk over the work list: each entry is named by its request, since the body updates or
  removes the entry it works on (and only that one). A request that fails is handed back with
  the error.
\<close>

fun wrk_loop ::
  "'e env \<Rightarrow> bool \<Rightarrow> qdma_descq \<Rightarrow> nat list \<Rightarrow> 'e \<Rightarrow> unit res \<times> qdma_descq \<times> 'e" where
  "wrk_loop E vf descq [] e = (Inr (), descq, e)"
| "wrk_loop E vf descq (r # rs) e =
     (case find (\<lambda>cb. rid cb = r) (q_work_list descq) of
        None \<Rightarrow> (Inl OOPS, descq, e)
      | Some cb \<Rightarrow>
          (case qdma_descq_proc_sgt_request E vf descq cb e of
             (rv, descq1, e1) \<Rightarrow>
               if rv = Inl OOPS then (Inl OOPS, descq1, e1)
               else let descq2 = (case rv of Inl err \<Rightarrow> qdma_sgt_req_done descq1 cb (Some err)
                                           | Inr _ \<Rightarrow> descq1)
                    in if q_avail descq2 = 0 then (Inr (), descq2, e1)
                       else wrk_loop E vf descq2 rs e1))"

definition qdma_thread_wrk_proc ::
  "'e env \<Rightarrow> bool \<Rightarrow> qdma_descq \<Rightarrow> 'e \<Rightarrow> unit res \<times> qdma_descq \<times> 'e" where
  "qdma_thread_wrk_proc E vf descq e = wrk_loop E vf descq (map rid (q_work_list descq)) e"

section \<open>Requests in units of the ring\<close>

text \<open>
  A request is well formed for a piece size when each of its entries is one piece, its byte
  count is that of the entries, and what has been programmed so far is a number of whole
  entries short of all. The requests the character device builds, one entry per page, are of
  this form.
\<close>

definition sg_sum :: "scatterlist list \<Rightarrow> nat" where
  "sg_sum sgs = sum_list (map (unat \<circ> sg_dma_len) sgs)"

lemma sg_sum_simps [simp]:
  "sg_sum [] = 0" "sg_sum (sg # sgs) = unat (sg_dma_len sg) + sg_sum sgs"
  "sg_sum (as @ bs) = sg_sum as + sg_sum bs"
  by (simp_all add: sg_sum_def)

definition req_wf :: "u32 \<Rightarrow> qdma_sg_req \<Rightarrow> bool" where
  "req_wf blen cb \<longleftrightarrow>
     (\<forall>sg\<in>set (req_sgt cb). 0 < sg_dma_len sg \<and> sg_dma_len sg \<le> blen)
     \<and> sg_sum (req_sgt cb) < 2 ^ 32 \<and> unat (req_count cb) = sg_sum (req_sgt cb)
     \<and> (\<exists>k<length (req_sgt cb). unat (cb_offset cb) = sg_sum (take k (req_sgt cb)))"

definition work_ok :: "qdma_descq \<Rightarrow> bool" where
  "work_ok descq \<longleftrightarrow> tx_ok descq \<and> (\<forall>cb\<in>set (q_work_list descq). req_wf (queue_blen descq) cb)"

lemma chunks_single:
  assumes "0 < len" and "len \<le> blen"
  shows "chunks blen addr len = [(addr, len)]"
proof -
  have "len \<noteq> 0" "blen \<noteq> 0" "min len blen = len"
    using assms by (auto simp: min_def)
  then show ?thesis
    by (subst chunks.simps) (simp add: Let_def chunks.simps [of blen _ 0])
qed

lemma sgs_chunks_single:
  "\<forall>sg\<in>set sgs. 0 < sg_dma_len sg \<and> sg_dma_len sg \<le> blen \<Longrightarrow>
     sgs_chunks blen sgs = map (\<lambda>sg. (sg_dma_address sg, sg_dma_len sg)) sgs"
  by (induction sgs) (simp_all add: chunks_single)

lemma sg_sum_take_less:
  "\<forall>sg\<in>set sgs. 0 < sg_dma_len sg \<Longrightarrow> k < m \<Longrightarrow> m \<le> length sgs \<Longrightarrow>
     sg_sum (take k sgs) < sg_sum (take m sgs)"
proof (induction sgs arbitrary: k m)
  case (Cons sg sgs)
  then show ?case
    by (cases k; cases m) (auto simp: word_less_nat_alt)
qed simp

lemma sg_sum_take_le: "sg_sum (take k sgs) \<le> sg_sum sgs"
proof -
  have "sg_sum sgs = sg_sum (take k sgs @ drop k sgs)"
    by simp
  then show ?thesis
    unfolding sg_sum_simps by simp
qed

lemma sgt_find_from_prefix:
  "\<forall>sg\<in>set sgs. 0 < sg_dma_len sg \<Longrightarrow> unat len + sg_sum sgs < 2 ^ 32 \<Longrightarrow>
   0 < k \<Longrightarrow> k \<le> length sgs \<Longrightarrow> unat off = unat len + sg_sum (take k sgs) \<Longrightarrow>
     sgt_find_from sgs i len off = Inr (i + k, 0)"
proof (induction sgs arbitrary: i len k)
  case (Cons sg sgs)
  obtain j where k: "k = Suc j"
    using Cons.prems(3) by (cases k) auto
  have l: "unat (len + sg_dma_len sg) = unat len + unat (sg_dma_len sg)"
    using Cons.prems(2) by (intro unat_add_small) simp
  show ?case
  proof (cases j)
    case 0
    then have "len + sg_dma_len sg = off"
      using Cons.prems(5) k l by (simp add: word_unat_eq_iff)
    then show ?thesis
      using k 0 by simp
  next
    case (Suc m)
    then have "sg_sum (take 0 sgs) < sg_sum (take j sgs)"
      using Cons.prems k by (intro sg_sum_take_less) auto
    then have less: "len + sg_dma_len sg < off"
      using Cons.prems(5) k l by (simp add: word_less_nat_alt)
    then have "\<not> off < len + sg_dma_len sg" "len + sg_dma_len sg \<noteq> off"
      by auto
    moreover have "sgt_find_from sgs (i + 1) (len + sg_dma_len sg) off = Inr (i + 1 + j, 0)"
      using Cons.prems k l Suc by (intro Cons.IH) auto
    ultimately show ?thesis
      using k by (simp add: Let_def)
  qed
qed simp

lemma req_wf_start:
  assumes "req_wf blen cb" and "k < length (req_sgt cb)"
    and "unat (cb_offset cb) = sg_sum (take k (req_sgt cb))"
  shows "req_start cb = Inr (k, 0)"
proof (cases "cb_offset cb = 0")
  case True
  then have "\<not> 0 < k"
    using assms sg_sum_take_less [of "req_sgt cb" 0 k] by (auto simp: req_wf_def)
  then show ?thesis
    using True by (simp add: req_start_def)
next
  case False
  then have "0 < k"
    using assms(3) by (cases k) (auto simp: unat_eq_zero)
  then have "sgt_find_offset (req_sgt cb) (cb_offset cb) = Inr (k, 0)"
    unfolding sgt_find_offset_def using assms sgt_find_from_prefix [of "req_sgt cb" 0 k "cb_offset cb" 0]
    by (auto simp: req_wf_def)
  then show ?thesis
    using False assms(2) by (simp add: req_start_def)
qed

lemma unat_chunks_len:
  "sg_sum sgs < 2 ^ 32 \<Longrightarrow>
     unat (chunks_len (map (\<lambda>sg. (sg_dma_address sg, sg_dma_len sg)) sgs)) = sg_sum sgs"
proof (induction sgs)
  case (Cons sg sgs)
  then show ?case
    using unat_add_small [of "sg_dma_len sg"] by simp
qed simp


section \<open>One request\<close>

lemma req_commit_work:
  assumes "reqs_ok descq" and "q_work_list descq = cb # cbs"
  shows "q_work_list (req_commit descq cb ring p n d) =
      (if cb_offset cb + d = req_count cb then cbs
       else cb\<lparr>cb_desc_nr := cb_desc_nr cb + n, cb_offset := cb_offset cb + d\<rparr> # cbs)"
    and "q_pend_list (req_commit descq cb ring p n d) =
      (if cb_offset cb + d = req_count cb
       then q_pend_list descq @ [cb\<lparr>cb_desc_nr := cb_desc_nr cb + n, cb_offset := cb_offset cb + d\<rparr>]
       else q_pend_list descq)"
    and "q_avail (req_commit descq cb ring p n d) = q_avail descq - n"
proof -
  have notin: "rid cb \<notin> rid ` set cbs"
    using assms by (auto simp: reqs_ok_def)
  show "q_work_list (req_commit descq cb ring p n d) =
      (if cb_offset cb + d = req_count cb then cbs
       else cb\<lparr>cb_desc_nr := cb_desc_nr cb + n, cb_offset := cb_offset cb + d\<rparr> # cbs)"
    using notin assms(2) list_del_req_notin [OF notin]
      update_req_notin [of "cb\<lparr>cb_desc_nr := cb_desc_nr cb + n, cb_offset := cb_offset cb + d\<rparr>" cbs]
    by (simp add: req_commit_def Let_def req_submitted_def)
      (simp add: list_del_req_def update_req_def)
qed (simp_all add: req_commit_def Let_def req_submitted_def)

text \<open>
  What programming requests leaves alone: everything the completion side works on. The
  outstanding descriptors can only become more.
\<close>

definition tx_frame :: "qdma_descq \<Rightarrow> qdma_descq \<Rightarrow> bool" where
  "tx_frame q q' \<longleftrightarrow>
     q_conf q' = q_conf q \<and> q_cidx q' = q_cidx q \<and> q_desc_wb q' = q_desc_wb q \<and> q_done q' = q_done q
     \<and> q_credit q' = q_credit q \<and> q_wrkthp q' = q_wrkthp q \<and> outstanding q \<le> outstanding q'"

lemma tx_frame_refl: "tx_frame q q"
  by (simp add: tx_frame_def)

lemma tx_frame_trans: "tx_frame a b \<Longrightarrow> tx_frame b c \<Longrightarrow> tx_frame a c"
  by (simp add: tx_frame_def)

definition pend_full :: "qdma_descq \<Rightarrow> bool" where
  "pend_full descq \<longleftrightarrow> (\<forall>cb\<in>set (q_pend_list descq). cb_offset cb = req_count cb)"

lemma req_commit_frame:
  fixes cs :: "(u64 \<times> u32) list"
  assumes "tx_ok descq" and "cb \<in> set (q_work_list descq)" and "length cs \<le> unat (q_avail descq)"
  shows "tx_frame descq (req_commit descq cb ring
    (of_nat ((unat (q_pidx descq) + length cs) mod unat (qc_rngsz (q_conf descq))))
    (of_nat (length cs)) d)"
  using req_commit_accounting(4) [OF assms, of ring d]
  by (simp add: tx_frame_def req_commit_def Let_def req_submitted_def)

text \<open>
  The entries a call programs for a well-formed request that stands at entry \<open>k\<close>: one piece
  per entry, and the offset after it is again a number of whole entries.
\<close>

definition wf_entries :: "qdma_descq \<Rightarrow> qdma_sg_req \<Rightarrow> nat \<Rightarrow> scatterlist list" where
  "wf_entries descq cb k = take (unat (q_avail descq)) (drop k (req_sgt cb))"

definition wf_pieces :: "qdma_descq \<Rightarrow> qdma_sg_req \<Rightarrow> nat \<Rightarrow> (u64 \<times> u32) list" where
  "wf_pieces descq cb k =
     map (\<lambda>sg. (sg_dma_address sg, sg_dma_len sg)) (wf_entries descq cb k)"

lemma length_wf_pieces:
  "length (wf_pieces descq cb k) = min (unat (q_avail descq)) (length (req_sgt cb) - k)"
  by (simp add: wf_pieces_def wf_entries_def min.commute)

lemma wf_pieces_req:
  assumes "req_wf (queue_blen descq) cb" and "k < length (req_sgt cb)" and "q_avail descq \<noteq> 0"
  shows "wf_pieces descq cb k = req_pieces (queue_blen descq) descq cb k"
    and "wf_pieces descq cb k \<noteq> []"
proof -
  have "\<forall>sg\<in>set (drop k (req_sgt cb)). 0 < sg_dma_len sg \<and> sg_dma_len sg \<le> queue_blen descq"
    using assms(1) by (auto simp: req_wf_def dest: in_set_dropD)
  then show "wf_pieces descq cb k = req_pieces (queue_blen descq) descq cb k"
    and "wf_pieces descq cb k \<noteq> []"
    using assms(2,3)
    by (auto simp: wf_pieces_def wf_entries_def req_pieces_def sgs_chunks_single take_map unat_eq_zero)
qed

lemma wf_pieces_offset:
  assumes "req_wf blen cb" and "unat (cb_offset cb) = sg_sum (take k (req_sgt cb))"
  shows "unat (cb_offset cb + chunks_len (wf_pieces descq cb k)) =
    sg_sum (take (k + length (wf_pieces descq cb k)) (req_sgt cb))"
proof -
  let ?m = "length (wf_pieces descq cb k)"
  have pre: "take (k + ?m) (req_sgt cb) = take k (req_sgt cb) @ wf_entries descq cb k"
    by (simp add: take_add wf_pieces_def wf_entries_def min_def)
  have tot: "sg_sum (take (k + ?m) (req_sgt cb)) \<le> sg_sum (req_sgt cb)" "sg_sum (req_sgt cb) < 2 ^ 32"
    using assms(1) sg_sum_take_le by (simp_all add: req_wf_def)
  have "unat (chunks_len (wf_pieces descq cb k)) = sg_sum (wf_entries descq cb k)"
    unfolding wf_pieces_def using tot pre by (intro unat_chunks_len) simp
  then show ?thesis
    using assms(2) pre tot by (subst unat_add_small) simp_all
qed

lemma proc_request_step:
  assumes ok: "work_ok descq" and work: "q_work_list descq = cb # cbs" and av: "q_avail descq \<noteq> 0"
  shows "\<exists>descq' e'. qdma_descq_proc_sgt_request E vf descq cb e = (Inr (), descq', e')
    \<and> work_ok descq' \<and> tx_frame descq descq' \<and> (pend_full descq \<longrightarrow> pend_full descq')
    \<and> (q_work_list descq' = cbs \<and> (\<exists>cb'. rid cb' = rid cb \<and> q_pend_list descq' = q_pend_list descq @ [cb'])
       \<or> q_avail descq' = 0 \<and> map rid (q_work_list descq') = map rid (cb # cbs)
         \<and> q_pend_list descq' = q_pend_list descq)"
proof -
  have tx: "tx_ok descq" "reqs_ok descq" and wf: "req_wf (queue_blen descq) cb"
    "\<forall>c\<in>set cbs. req_wf (queue_blen descq) c"
    using ok work by (simp_all add: work_ok_def tx_ok_def)
  obtain k where k: "k < length (req_sgt cb)" "unat (cb_offset cb) = sg_sum (take k (req_sgt cb))"
    using wf(1) by (auto simp: req_wf_def)
  let ?cs = "wf_pieces descq cb k" and ?l = "length (req_sgt cb)"
  let ?p = "of_nat ((unat (q_pidx descq) + length ?cs) mod unat (qc_rngsz (q_conf descq)))"
  obtain ring e' where run: "qdma_descq_proc_sgt_request E vf descq cb e =
      (Inr (), req_commit descq cb ring ?p (of_nat (length ?cs)) (chunks_len ?cs), e')"
    using proc_request_run [OF tx(1) req_wf_start [OF wf(1) k] wf_pieces_req [OF wf(1) k(1) av], of E vf e]
    by blast
  define descq' where "descq' = req_commit descq cb ring ?p (of_nat (length ?cs)) (chunks_len ?cs)"
  have tx': "tx_ok descq'" and blen: "queue_blen descq' = queue_blen descq"
    using proc_request_tx [OF tx(1) _ run] work by (simp_all add: descq'_def queue_blen_def)
  note run = run [folded descq'_def]
  have frame: "tx_frame descq descq'"
    unfolding descq'_def using tx(1) work length_wf_pieces [of descq cb k]
    by (intro req_commit_frame) auto
  note off = wf_pieces_offset [OF wf(1) k(2), of descq]
  note w = req_commit_work [OF tx(2) work, of ring ?p "of_nat (length ?cs)" "chunks_len ?cs", folded descq'_def]
  show ?thesis
  proof (cases "k + length ?cs = ?l")
    case True
    then have "cb_offset cb + chunks_len ?cs = req_count cb"
      using off wf(1) by (simp add: req_wf_def word_unat_eq_iff)
    then show ?thesis
      using run tx' w wf(2) blen frame by (auto simp: work_ok_def pend_full_def)
  next
    case False
    then have less: "k + length ?cs < ?l" "length ?cs = unat (q_avail descq)"
      using length_wf_pieces [of descq cb k] k(1) by auto
    then have "sg_sum (take (k + length ?cs) (req_sgt cb)) < sg_sum (take ?l (req_sgt cb))"
      using wf(1) by (intro sg_sum_take_less) (auto simp: req_wf_def)
    then have neq: "cb_offset cb + chunks_len ?cs \<noteq> req_count cb"
      using off wf(1) by (auto simp: req_wf_def)
    have "req_wf (queue_blen descq)
        (cb\<lparr>cb_desc_nr := cb_desc_nr cb + of_nat (length ?cs), cb_offset := cb_offset cb + chunks_len ?cs\<rparr>)"
      using wf(1) off less(1) by (auto simp: req_wf_def)
    moreover have "q_avail descq' = 0"
      using w(3) less(2) by simp
    ultimately show ?thesis
      using run tx' w(1,2) neq wf(2) blen frame by (auto simp: work_ok_def pend_full_def)
  qed
qed

section \<open>The worker loop\<close>

lemma wrk_loop_ok:
  "work_ok descq \<Longrightarrow> rs = map rid (q_work_list descq) \<Longrightarrow>
     \<exists>descq' e'. wrk_loop E vf descq rs e = (Inr (), descq', e') \<and> work_ok descq'
       \<and> tx_frame descq descq' \<and> (pend_full descq \<longrightarrow> pend_full descq')
       \<and> (q_work_list descq' = [] \<or> q_avail descq' = 0)
       \<and> map rid (q_pend_list descq' @ q_work_list descq') = map rid (q_pend_list descq @ q_work_list descq)"
proof (induction rs arbitrary: descq e)
  case Nil
  then show ?case
    by (simp add: tx_frame_refl)
next
  case (Cons r rs)
  then obtain cb cbs where work: "q_work_list descq = cb # cbs" "rid cb = r" "rs = map rid cbs"
    by (auto simp: Cons_eq_map_conv)
  have found: "find (\<lambda>c. rid c = r) (q_work_list descq) = Some cb"
    by (simp add: work)
  show ?case
  proof (cases "q_avail descq = 0")
    case True
    then have "qdma_descq_proc_sgt_request E vf descq cb e = (Inr (), descq, e)"
      using Cons.prems(1) by (auto simp: qdma_descq_proc_sgt_request_def descq_mm_proc_request_def
          descq_proc_st_h2c_request_def work_ok_def tx_ok_def ring_mem_ok_def
          split: option.splits desc_ring.splits)
    then show ?thesis
      using True Cons.prems(1) found tx_frame_refl by simp
  next
    case False
    obtain descq1 e1 where run: "qdma_descq_proc_sgt_request E vf descq cb e = (Inr (), descq1, e1)"
      and ok1: "work_ok descq1" and frame: "tx_frame descq descq1" "pend_full descq \<longrightarrow> pend_full descq1"
      and step: "q_work_list descq1 = cbs \<and> (\<exists>cb'. rid cb' = rid cb \<and> q_pend_list descq1 = q_pend_list descq @ [cb'])
       \<or> q_avail descq1 = 0 \<and> map rid (q_work_list descq1) = map rid (cb # cbs)
         \<and> q_pend_list descq1 = q_pend_list descq"
      using proc_request_step [OF Cons.prems(1) work(1) False, of E vf e] by blast
    show ?thesis
    proof (cases "q_avail descq1 = 0")
      case True
      then show ?thesis
        using found run ok1 step work frame by auto
    next
      case False
      then have "q_work_list descq1 = cbs" "map rid (q_pend_list descq1) = map rid (q_pend_list descq) @ [rid cb]"
        using step by auto
      then show ?thesis
        using found run False Cons.IH [OF ok1, of e1] work frame by (auto intro: tx_frame_trans)
    qed
  qed
qed

text \<open>
  C21: The submission worker never fails on well-formed requests and keeps the queue consistent.
  When it is done, either every request has been programmed or the ring is full; the requests
  are programmed in the order they were queued, none is lost and none is duplicated.
\<close>

theorem wrk_proc_ok:
  assumes "work_ok descq"
  shows "\<exists>descq' e'. qdma_thread_wrk_proc E vf descq e = (Inr (), descq', e') \<and> work_ok descq'
    \<and> (q_work_list descq' = [] \<or> q_avail descq' = 0)
    \<and> map rid (q_pend_list descq' @ q_work_list descq') = map rid (q_pend_list descq @ q_work_list descq)"
  unfolding qdma_thread_wrk_proc_def using wrk_loop_ok [OF assms refl, of E vf e] by blast

theorem wrk_proc_ok_witness:
  "\<exists>descq' e'. qdma_thread_wrk_proc ram_env False sample_h2c (\<lambda>_. 0) = (Inr (), descq', e')
     \<and> map rid (q_pend_list descq' @ q_work_list descq') = [1]"
proof -
  have "tx_ok sample_h2c"
    by (simp add: tx_ok_def ring_ok_def ring_mem_ok_def credit_ok_def reqs_ok_def owed_def
        outstanding_def sample_simps)
  moreover have "req_wf 4096 (sample_req 0)"
    by (simp add: req_wf_def sample_req_def exI [of _ 0])
  ultimately have "work_ok sample_h2c"
    by (simp add: work_ok_def queue_blen_def) (simp add: sample_h2c_def sample_queue_def sample_conf_def)
  from wrk_proc_ok [OF this, of ram_env False "\<lambda>_. 0"] show ?thesis
    by (auto simp: sample_h2c_def sample_queue_def sample_req_def)
qed

end
