(* ===== verification/Qdma_Thread.thy ===== *)
theory Qdma_Thread
  imports Qdma_Worker Qdma_Descq
begin

text \<open>
  The worker threads (\<open>libqdma/qdma_thread.c\<close>, \<open>libqdma/thread.c\<close>): starting and stopping them and
  assigning queues to them. A queue in a work list is named by the address of its PCI device,
  its direction and its index.
\<close>

section \<open>Threads\<close>

type_synonym qref = "nat \<times> bool \<times> u16"

text \<open>\<open>th_task\<close>: the kernel thread exists; \<open>th_ready\<close>: its work functions are installed.\<close>

record qdma_kthread =
  th_name :: string
  th_cpu :: u16
  th_id :: u16
  th_timeout :: u32
  th_task :: bool
  th_work_cnt :: u32
  th_work_list :: "qref list"
  th_ready :: bool

text \<open>The global variables of \<open>qdma_thread.c\<close>; without threads the arrays are NULL.\<close>

record qdma_threads =
  thread_cnt :: nat
  wrk_threads :: "qdma_kthread list"
  wb_threads :: "qdma_kthread list"

definition queue_ref :: "xlnx_dma_dev \<Rightarrow> qdma_descq \<Rightarrow> qref" where
  "queue_ref xdev descq = (dc_pdev (x_conf xdev), qc_c2h (q_conf descq), qc_qidx (q_conf descq))"

definition thread_add :: "qref \<Rightarrow> qdma_kthread \<Rightarrow> qdma_kthread" where
  "thread_add r thp = thp\<lparr>th_work_list := th_work_list thp @ [r], th_work_cnt := th_work_cnt thp + 1\<rparr>"

definition thread_del :: "qref \<Rightarrow> qdma_kthread \<Rightarrow> qdma_kthread" where
  "thread_del r thp = thp\<lparr>th_work_list := remove1 r (th_work_list thp), th_work_cnt := th_work_cnt thp - 1\<rparr>"

section \<open>Assigning queues\<close>

text \<open>
  The search for a thread: \<open>v\<close> is the load of the first thread throughout, since the code does
  not update it.
\<close>

fun thread_scan :: "u32 list \<Rightarrow> nat \<Rightarrow> nat option \<Rightarrow> u32 \<Rightarrow> nat option" where
  "thread_scan [] i idx v = idx"
| "thread_scan (c # cs) i idx v =
     (case idx of
        None \<Rightarrow> thread_scan cs (i + 1) (Some i) c
      | Some _ \<Rightarrow>
          if c = 0 then Some i
          else thread_scan cs (i + 1) (if c < v then Some i else idx) v)"

definition qdma_thread_add_work ::
  "qdma_threads \<Rightarrow> xlnx_dma_dev \<Rightarrow> qdma_descq \<Rightarrow> unit res \<times> qdma_threads \<times> xlnx_dma_dev \<times> qdma_descq" where
  "qdma_thread_add_work T xdev descq =
     (let r = queue_ref xdev descq in
      case thread_scan (map th_work_cnt (wrk_threads T)) 0 None 0 of
        None \<Rightarrow> (Inl OOPS, T, xdev, descq)
      | Some idx \<Rightarrow>
          let T = T\<lparr>wrk_threads := (wrk_threads T)[idx := thread_add r (wrk_threads T ! idx)]\<rparr>
          in if x_num_vecs xdev \<noteq> 0
             then (Inr (), T,
                   xdev\<lparr>x_intr_list := (x_intr_list xdev)
                     [q_intr_id descq := x_intr_list xdev ! q_intr_id descq @ [(qc_c2h (q_conf descq), qc_qidx (q_conf descq))]]\<rparr>,
                   descq\<lparr>q_intr_list := LIST_LINKED, q_wrkthp := Some idx, q_wbthp := None\<rparr>)
             else let j = thread_cnt T - idx - 1
                  in (Inr (), T\<lparr>wb_threads := (wb_threads T)[j := thread_add r (wb_threads T ! j)]\<rparr>, xdev,
                      descq\<lparr>q_wrkthp := Some idx, q_wbthp := Some j\<rparr>))"

definition qdma_thread_remove_work ::
  "qdma_threads \<Rightarrow> xlnx_dma_dev \<Rightarrow> qdma_descq \<Rightarrow> unit res \<times> qdma_threads \<times> xlnx_dma_dev \<times> qdma_descq" where
  "qdma_thread_remove_work T xdev descq =
     (let r = queue_ref xdev descq;
          T = (case q_wrkthp descq of
                 None \<Rightarrow> T
               | Some idx \<Rightarrow> T\<lparr>wrk_threads := (wrk_threads T)[idx := thread_del r (wrk_threads T ! idx)]\<rparr>)
      in case q_wbthp descq of
           Some j \<Rightarrow>
             (Inr (), T\<lparr>wb_threads := (wb_threads T)[j := thread_del r (wb_threads T ! j)]\<rparr>, xdev,
              descq\<lparr>q_wrkthp := None, q_wbthp := None\<rparr>)
         | None \<Rightarrow>
             if q_intr_list descq = LIST_POISON
             then (Inl OOPS, T, xdev, descq\<lparr>q_wrkthp := None, q_wbthp := None\<rparr>)
             else (Inr (), T,
                   xdev\<lparr>x_intr_list := map (removeAll (qc_c2h (q_conf descq), qc_qidx (q_conf descq))) (x_intr_list xdev)\<rparr>,
                   descq\<lparr>q_intr_list := LIST_POISON, q_wrkthp := None, q_wbthp := None\<rparr>))"

section \<open>Starting and stopping threads\<close>

definition zero_kthread :: qdma_kthread where
  "zero_kthread = \<lparr>th_name = [], th_cpu = 0, th_id = 0, th_timeout = 0, th_task = False, th_work_cnt = 0,
     th_work_list = [], th_ready = False\<rparr>"

text \<open>
  The name goes into a field of 16 bytes, behind which the CPU number lies: \<open>sprintf\<close> and the
  closing NUL of a longer name overwrite its two bytes (and the identifier behind it, which is
  set afterwards).
\<close>

definition THREAD_NAME_LEN :: nat where
  [simp]: "THREAD_NAME_LEN = 16"

definition thread_name :: "bool \<Rightarrow> string \<Rightarrow> nat \<Rightarrow> string" where
  "thread_name vf name i = name @ (if vf then ''_vf_'' else []) @ nat_str i"

definition store_name :: "string \<Rightarrow> qdma_kthread \<Rightarrow> qdma_kthread" where
  "store_name n thp =
     (let bytes = map (of_char :: char \<Rightarrow> u8) n @ [0];
          lo = (if length bytes > THREAD_NAME_LEN then bytes ! THREAD_NAME_LEN else ucast (th_cpu thp));
          hi = (if length bytes > THREAD_NAME_LEN + 1 then bytes ! (THREAD_NAME_LEN + 1)
                else ucast (drop_bit 8 (th_cpu thp)))
      in thp\<lparr>th_name := take THREAD_NAME_LEN n, th_cpu := push_bit 8 (ucast hi) OR ucast lo\<rparr>)"

text \<open>\<open>create\<close> says whether the kernel can create the thread; \<open>rv\<close> is the result of \<open>kthread_stop\<close>.\<close>

definition qdma_kthread_start ::
  "bool \<Rightarrow> bool \<Rightarrow> qdma_kthread \<Rightarrow> string \<Rightarrow> nat \<Rightarrow> unit res \<times> qdma_kthread" where
  "qdma_kthread_start vf create thp name i =
     (if th_task thp then (Inl EINVAL, thp)
      else let thp = (store_name (thread_name vf name i) thp)\<lparr>th_id := of_nat i, th_work_list := []\<rparr>
           in if create then (Inr (), thp\<lparr>th_task := True\<rparr>) else (Inl EFAULT, thp))"

definition qdma_kthread_stop :: "int \<Rightarrow> qdma_kthread \<Rightarrow> unit res \<times> qdma_kthread" where
  "qdma_kthread_stop rv thp =
     (if \<not> th_task thp then (Inr (), thp)
      else if rv < 0 then (Inl (Other rv), thp)
      else (Inr (), thp\<lparr>th_task := False\<rparr>))"

text \<open>
  Creating the threads: \<open>cpus\<close> online processors, \<open>alloc\<close> whether the array can be allocated,
  \<open>create_wrk\<close> and \<open>create_wb\<close> whether the kernel creates the thread with that number. A failure
  to start a submission thread is ignored.
\<close>

definition start_wrk :: "bool \<Rightarrow> (nat \<Rightarrow> bool) \<Rightarrow> nat \<Rightarrow> qdma_kthread" where
  "start_wrk vf create i =
     (snd (qdma_kthread_start vf (create i) (zero_kthread\<lparr>th_cpu := of_nat i, th_timeout := 0\<rparr>)
        ''qdma_wrk_th'' i))\<lparr>th_ready := True\<rparr>"

primrec start_wbs :: "bool \<Rightarrow> (nat \<Rightarrow> bool) \<Rightarrow> nat list \<Rightarrow> qdma_kthread list res" where
  "start_wbs vf create [] = Inr []"
| "start_wbs vf create (i # is) =
     (case qdma_kthread_start vf (create i) (zero_kthread\<lparr>th_cpu := of_nat i, th_timeout := 5\<rparr>) ''qdma_wb_th'' i of
        (Inl err, thp) \<Rightarrow> Inl err
      | (Inr _, thp) \<Rightarrow>
          (case start_wbs vf create is of
             Inl err \<Rightarrow> Inl err
           | Inr thps \<Rightarrow> Inr (thp\<lparr>th_ready := True\<rparr> # thps)))"

definition qdma_threads_create ::
  "bool \<Rightarrow> nat \<Rightarrow> bool \<Rightarrow> (nat \<Rightarrow> bool) \<Rightarrow> (nat \<Rightarrow> bool) \<Rightarrow> qdma_threads \<Rightarrow> unit res \<times> qdma_threads" where
  "qdma_threads_create vf cpus alloc create_wrk create_wb T =
     (if thread_cnt T \<noteq> 0 then (Inr (), T)
      else let T = T\<lparr>thread_cnt := cpus\<rparr>
           in if \<not> alloc then (Inl ENOMEM, T\<lparr>wrk_threads := []\<rparr>)
              else case start_wbs vf create_wb [0..<cpus] of
                     Inl err \<Rightarrow> (Inl err, T\<lparr>thread_cnt := 0, wrk_threads := [], wb_threads := []\<rparr>)
                   | Inr wbs \<Rightarrow> (Inr (), T\<lparr>wrk_threads := map (start_wrk vf create_wrk) [0..<cpus], wb_threads := wbs\<rparr>))"

definition qdma_threads_destroy :: "qdma_threads \<Rightarrow> qdma_threads" where
  "qdma_threads_destroy T =
     (if thread_cnt T = 0 then T else T\<lparr>thread_cnt := 0, wrk_threads := [], wb_threads := []\<rparr>)"

text \<open>
  One round of a thread: it goes to sleep first unless some queue has work, and then processes
  every queue of its list. \<open>pending\<close> and \<open>proc\<close> are its two work functions, on the state \<open>'s\<close>.
\<close>

definition xthread_work_pending :: "(qref \<Rightarrow> 's \<Rightarrow> bool) \<Rightarrow> qdma_kthread \<Rightarrow> 's \<Rightarrow> bool" where
  "xthread_work_pending pending thp s \<longleftrightarrow>
     th_work_list thp \<noteq> [] \<and> list_ex (\<lambda>r. th_ready thp \<and> pending r s) (th_work_list thp)"

definition xthread_round :: "(qref \<Rightarrow> 's \<Rightarrow> 's) \<Rightarrow> qdma_kthread \<Rightarrow> 's \<Rightarrow> 's" where
  "xthread_round proc thp s = fold proc (th_work_list thp) s"

definition qdma_thread_wb_proc ::
  "'e env \<Rightarrow> bool \<Rightarrow> xlnx_dma_dev \<Rightarrow> qdma_descq \<Rightarrow> 'e \<Rightarrow> unit res \<times> xlnx_dma_dev \<times> qdma_descq \<times> 'e" where
  "qdma_thread_wb_proc E vf xdev descq e =
     (case qdma_descq_service_wb E vf xdev descq e of (rv, s) \<Rightarrow> (if rv = Inl OOPS then Inl OOPS else Inr (), s))"

section \<open>The chosen thread\<close>

lemma thread_scan_rest:
  assumes "length pre = i" and "i \<noteq> 0" and "v = pre ! 0" and "j < i" and "pre ! j \<le> v"
    and "\<forall>k<i. 0 < k \<longrightarrow> pre ! k \<noteq> 0" and "j \<noteq> 0 \<longrightarrow> pre ! j < v"
  shows "\<exists>k. thread_scan cs i (Some j) v = Some k \<and> k < length (pre @ cs) \<and> (pre @ cs) ! k \<le> v
    \<and> (0 \<in> set (pre @ cs) \<longrightarrow> (pre @ cs) ! k = 0)"
  using assms
proof (induction cs arbitrary: pre i j)
  case Nil
  have "0 \<in> set pre \<longrightarrow> pre ! j = 0"
  proof
    assume "0 \<in> set pre"
    then have "pre ! 0 = 0"
      using Nil.prems(1,6) by (metis in_set_conv_nth neq0_conv)
    then show "pre ! j = 0"
      using Nil.prems(3,5) by simp
  qed
  then show ?case
    using Nil.prems by auto
next
  case (Cons c cs)
  show ?case
  proof (cases "c = 0")
    case True
    then show ?thesis
      using Cons.prems(1) by (intro exI [of _ i]) (auto simp: nth_append)
  next
    case False
    let ?j = "if c < v then i else j"
    have "thread_scan (c # cs) i (Some j) v = thread_scan cs (i + 1) (Some ?j) v"
      using False by simp
    moreover have "\<exists>k. thread_scan cs (i + 1) (Some ?j) v = Some k \<and> k < length ((pre @ [c]) @ cs)
        \<and> ((pre @ [c]) @ cs) ! k \<le> v \<and> (0 \<in> set ((pre @ [c]) @ cs) \<longrightarrow> ((pre @ [c]) @ cs) ! k = 0)"
      using Cons.prems False by (intro Cons.IH) (auto simp: nth_append less_Suc_eq)
    ultimately show ?thesis
      by simp
  qed
qed

text \<open>The choice is not the thread with the least load: only idle threads are looked for.\<close>

lemma thread_scan_choice:
  assumes "cs \<noteq> []"
  shows "\<exists>k. thread_scan cs 0 None v = Some k \<and> k < length cs \<and> cs ! k \<le> cs ! 0 \<and> (0 \<in> set cs \<longrightarrow> cs ! k = 0)"
proof -
  obtain c cs' where cs: "cs = c # cs'"
    using assms by (cases cs) auto
  show ?thesis
    using thread_scan_rest [of "[c]" 1 c 0 cs'] by (simp add: cs)
qed

lemma thread_scan_not_least: "thread_scan [3, 1, 2] 0 None 0 = Some 2"
  by simp

section \<open>Adding and removing a queue\<close>

definition threads_ok :: "qdma_threads \<Rightarrow> bool" where
  "threads_ok T \<longleftrightarrow> 0 < thread_cnt T \<and> length (wrk_threads T) = thread_cnt T \<and> length (wb_threads T) = thread_cnt T"

lemma thread_del_add: "r \<notin> set (th_work_list thp) \<Longrightarrow> thread_del r (thread_add r thp) = thp"
  by (simp add: thread_del_def thread_add_def remove1_append)

text \<open>
  A queue that is added to the workers goes to exactly one submission thread, an idle one if
  there is any and never one with more queues than the first, and to one completion thread
  (without interrupts) or to the list of its interrupt vector (with interrupts); removing it again
  restores the lists and the counts of all threads and of all vectors.
\<close>

lemma thread_add_remove:
  assumes "threads_ok T" and "qdma_thread_add_work T xdev descq = (rv, T1, xdev1, descq1)"
    and "r = queue_ref xdev descq"
    and "\<forall>thp \<in> set (wrk_threads T) \<union> set (wb_threads T). r \<notin> set (th_work_list thp)"
    and "\<forall>l \<in> set (x_intr_list xdev). (qc_c2h (q_conf descq), qc_qidx (q_conf descq)) \<notin> set l"
    and "x_num_vecs xdev \<noteq> 0 \<longrightarrow> q_intr_id descq < length (x_intr_list xdev)"
  shows "rv = Inr ()
    \<and> (\<exists>k. q_wrkthp descq1 = Some k \<and> k < thread_cnt T
         \<and> th_work_cnt (wrk_threads T ! k) \<le> th_work_cnt (wrk_threads T ! 0)
         \<and> (0 \<in> set (map th_work_cnt (wrk_threads T)) \<longrightarrow> th_work_cnt (wrk_threads T ! k) = 0)
         \<and> wrk_threads T1 = (wrk_threads T)[k := thread_add r (wrk_threads T ! k)])
    \<and> (\<exists>descq2. qdma_thread_remove_work T1 xdev1 descq1 = (Inr (), T, xdev, descq2)
         \<and> q_wrkthp descq2 = None \<and> q_wbthp descq2 = None)"
proof -
  let ?cs = "map th_work_cnt (wrk_threads T)"
  have "?cs \<noteq> []"
    using assms(1) by (auto simp: threads_ok_def)
  from thread_scan_choice [OF this, of 0] obtain k where k: "thread_scan ?cs 0 None 0 = Some k" "k < thread_cnt T"
    "th_work_cnt (wrk_threads T ! k) \<le> th_work_cnt (wrk_threads T ! 0)"
    "0 \<in> set ?cs \<longrightarrow> th_work_cnt (wrk_threads T ! k) = 0"
    using assms(1) by (auto simp: threads_ok_def nth_map)
  have len: "length (wrk_threads T) = thread_cnt T" "length (wb_threads T) = thread_cnt T"
    using assms(1) by (simp_all add: threads_ok_def)
  let ?j = "thread_cnt T - k - 1"
  have j: "?j < thread_cnt T"
    using k(2) by simp
  have notin: "r \<notin> set (th_work_list (wrk_threads T ! k))" "r \<notin> set (th_work_list (wb_threads T ! ?j))"
    using assms(4) k(2) j len by (metis UnCI nth_mem)+
  have ref: "queue_ref x (descq\<lparr>q_wrkthp := a, q_wbthp := b\<rparr>) = r"
    "queue_ref x (descq\<lparr>q_intr_list := n, q_wrkthp := a, q_wbthp := b\<rparr>) = r"
    if "x_conf x = x_conf xdev" for x a b n
    using that by (simp_all add: assms(3) queue_ref_def)
  have vec: "map (removeAll y) (ls[i := ls ! i @ [y]]) = ls" if "\<forall>l \<in> set ls. y \<notin> set l" "i < length ls"
    for y :: "bool \<times> u16" and ls i
    using that by (intro nth_equalityI) (auto simp: nth_list_update removeAll_id)
  show ?thesis
  proof (cases "x_num_vecs xdev = 0")
    case True
    then show ?thesis
      using assms(2) k j len notin ref
      by (auto simp: qdma_thread_add_work_def qdma_thread_remove_work_def Let_def assms(3) [symmetric] thread_del_add)
  next
    case False
    then show ?thesis
      using assms(2,5,6) k len notin ref vec
      by (auto simp: qdma_thread_add_work_def qdma_thread_remove_work_def Let_def assms(3) [symmetric] thread_del_add)
  qed
qed

definition sample_threads :: qdma_threads where
  "sample_threads = \<lparr>thread_cnt = 2, wrk_threads = [zero_kthread, zero_kthread\<lparr>th_work_cnt := 1, th_work_list := [(1, True, 5)]\<rparr>],
     wb_threads = [zero_kthread, zero_kthread]\<rparr>"

lemma thread_add_remove_witness:
  "\<exists>rv T1 xdev1 descq1 descq2. qdma_thread_add_work sample_threads sample_xdev sample_mm = (rv, T1, xdev1, descq1)
     \<and> qdma_thread_remove_work T1 xdev1 descq1 = (Inr (), sample_threads, sample_xdev, descq2)"
proof -
  obtain rv T1 x1 d1 where run: "qdma_thread_add_work sample_threads sample_xdev sample_mm = (rv, T1, x1, d1)"
    by (metis surj_pair)
  have "threads_ok sample_threads"
    by (simp add: threads_ok_def sample_threads_def)
  moreover have "\<forall>thp \<in> set (wrk_threads sample_threads) \<union> set (wb_threads sample_threads).
      queue_ref sample_xdev sample_mm \<notin> set (th_work_list thp)"
    by (auto simp: sample_threads_def zero_kthread_def queue_ref_def sample_simps sample_xdev_def)
  moreover have "\<forall>l \<in> set (x_intr_list sample_xdev). (qc_c2h (q_conf sample_mm), qc_qidx (q_conf sample_mm)) \<notin> set l"
    "x_num_vecs sample_xdev = 0"
    by (simp_all add: sample_xdev_def)
  ultimately show ?thesis
    using thread_add_remove [OF _ run refl] run by auto
qed

section \<open>Thread names\<close>

lemma store_name_fits:
  assumes "length n + 1 \<le> THREAD_NAME_LEN"
  shows "store_name n thp = thp\<lparr>th_name := n\<rparr>"
proof -
  have "push_bit 8 (ucast (ucast (drop_bit 8 c) :: u8)) OR ucast (ucast c :: u8) = (c :: u16)" for c
  proof (rule bit_word_eqI)
    fix k assume "k < LENGTH(16)"
    then show "bit (push_bit 8 (ucast (ucast (drop_bit 8 c) :: u8)) OR ucast (ucast c :: u8) :: u16) k = bit c k"
      by (cases "k < 8") (auto simp: bit_simps)
  qed
  then show ?thesis
    using assms by (simp add: store_name_def Let_def)
qed

text \<open>
  In the physical function the names of the threads of up to 10000 processors fit their field,
  so that each thread is bound to the processor it was created for. In the virtual function they
  do not: already the NUL behind the name of a submission thread with a number below 10 overwrites
  the processor number, and all these threads are bound to processor 0.
\<close>

lemma thread_name_bounds:
  assumes "i < 10000" and "j < 10" and "\<not> th_task thp" and "name = ''qdma_wrk_th'' \<or> name = ''qdma_wb_th''"
  shows "length (thread_name False name i) + 1 \<le> THREAD_NAME_LEN
    \<and> th_cpu (snd (qdma_kthread_start False create thp name i)) = th_cpu thp
    \<and> length (thread_name True ''qdma_wrk_th'' j) = THREAD_NAME_LEN
    \<and> th_cpu (snd (qdma_kthread_start True create (thp\<lparr>th_cpu := of_nat j\<rparr>) ''qdma_wrk_th'' j)) = 0"
proof -
  have "length (nat_str i) \<le> 4"
    using assms(1) by (intro length_nat_str) simp_all
  then have fits: "length (thread_name False name i) + 1 \<le> THREAD_NAME_LEN"
    using assms(4) by (auto simp: thread_name_def)
  have str: "nat_str j = [char_of (48 + j)]"
    using assms(2) by (subst nat_str.simps) simp
  have "drop_bit 8 (of_nat j :: u16) = 0"
    using assms(2) by (simp add: less_Suc_eq numeral_eq_Suc) (elim disjE; simp)
  then have "th_cpu (store_name (thread_name True ''qdma_wrk_th'' j) (thp\<lparr>th_cpu := of_nat j\<rparr>)) = 0"
    by (simp add: store_name_def thread_name_def str Let_def nth_append)
  moreover have "th_cpu (store_name (thread_name False name i) thp) = th_cpu thp"
    by (simp add: store_name_fits [OF fits])
  ultimately show ?thesis
    using fits assms(3) by (simp add: qdma_kthread_start_def Let_def thread_name_def str)
qed

lemma thread_name_bounds_witness:
  "th_cpu (snd (qdma_kthread_start False True (zero_kthread\<lparr>th_cpu := 7\<rparr>) ''qdma_wrk_th'' 7)) = 7
   \<and> th_cpu (snd (qdma_kthread_start True True (zero_kthread\<lparr>th_cpu := 7\<rparr>) ''qdma_wrk_th'' 7)) = 0"
  using thread_name_bounds [of 7 7 "zero_kthread\<lparr>th_cpu := 7\<rparr>" "''qdma_wrk_th''" True]
  by (simp add: zero_kthread_def)

end
