(* ===== verification/Qdma_Export.thy ===== *)
theory Qdma_Export
  imports Qdma_Device Qdma_Thread
begin

text \<open>
  The queue functions of the library (\<open>libqdma/libqdma_export.c\<close>, physical function): adding,
  configuring, starting, stopping and removing a queue, submitting requests, and the clean-up of
  a device (\<open>qdma_device_cleanup\<close> of \<open>libqdma/qdma_device.c\<close>). The state is the device and the
  worker threads. The text buffers for messages to the user are not represented.
\<close>

record qsys =
  s_xdev :: xlnx_dma_dev
  s_thr :: qdma_threads

section \<open>Adding and configuring a queue\<close>

definition QDMA_QUEUE_IDX_INVALID :: u16 where
  [simp]: "QDMA_QUEUE_IDX_INVALID = 0xFFFF"

definition qdma_queue_get_config :: "xlnx_dma_dev option \<Rightarrow> nat \<Rightarrow> qdma_queue_conf option res" where
  "qdma_queue_get_config dev i =
     (case qdma_device_get_descq_by_id dev i False of
        Inl err \<Rightarrow> Inl err
      | Inr None \<Rightarrow> Inr None
      | Inr (Some p) \<Rightarrow> Inr (Some (q_conf (queue_at (the dev) p))))"

definition add_qcnt :: "bool \<Rightarrow> u16 \<Rightarrow> qdma_dev \<Rightarrow> qdma_dev" where
  "add_qcnt c2h n qdev =
     (if c2h then qdev\<lparr>qd_c2h_qcnt := qd_c2h_qcnt qdev + n\<rparr> else qdev\<lparr>qd_h2c_qcnt := qd_h2c_qcnt qdev + n\<rparr>)"

text \<open>The slot a new queue takes: the requested one, or the first that is free.\<close>

definition queue_slot :: "qdma_descq list \<Rightarrow> u16 \<Rightarrow> u16 \<Rightarrow> nat res" where
  "queue_slot qs qmax qidx =
     (if qidx = QDMA_QUEUE_IDX_INVALID
      then case find (\<lambda>i. \<not> q_enabled (qs ! i)) [0..<unat qmax] of None \<Rightarrow> Inl EAGAIN | Some i \<Rightarrow> Inr i
      else if q_enabled (qs ! unat qidx) then Inl EINVAL else Inr (unat qidx))"

text \<open>
  The result is the handle of the new queue and its configuration. The check for a NULL handle
  releases a lock that is not held.
\<close>

definition qdma_queue_add ::
  "'e env \<Rightarrow> bool \<Rightarrow> qsys \<Rightarrow> qdma_queue_conf \<Rightarrow> bool \<Rightarrow> 'e
     \<Rightarrow> (nat \<times> qdma_queue_conf) res \<times> qsys \<times> 'e" where
  "qdma_queue_add E vf S qconf qhndl_null e =
     (case qdma_device_prep_q_resource E (s_xdev S) e of
        (Inl err, xdev, e) \<Rightarrow> (Inl err, S\<lparr>s_xdev := xdev\<rparr>, e)
      | (Inr _, xdev, e) \<Rightarrow>
          let S = S\<lparr>s_xdev := xdev\<rparr>;
              qdev = the (x_dev_priv xdev);
              c2h = qc_c2h qconf;
              qmax = qd_qmax qdev;
              qs = (if c2h then qd_c2h_descq qdev else qd_h2c_descq qdev)
          in if qhndl_null then (Inl EINVAL, S, e)
             else if (if c2h then qd_c2h_qcnt qdev else qd_h2c_qcnt qdev) \<ge> qmax then (Inl EAGAIN, S, e)
             else if qc_qidx qconf \<noteq> QDMA_QUEUE_IDX_INVALID \<and> qc_qidx qconf \<ge> qmax then (Inl EINVAL, S, e)
             else case queue_slot qs qmax (qc_qidx qconf) of
                    Inl err \<Rightarrow> (Inl err, S, e)
                  | Inr i \<Rightarrow>
                      let xdev = upd_qdev (add_qcnt c2h 1) xdev;
                          descq = qdma_descq_config vf xdev ((queue_at xdev (c2h, i))\<lparr>q_enabled := True\<rparr>) qconf False
                      in (Inr (unat (qc_qidx (q_conf descq)) + (if qc_c2h (q_conf descq) then unat qmax else 0), q_conf descq),
                          S\<lparr>s_xdev := put_queue xdev (c2h, i) descq\<rparr>, e))"

definition qdma_queue_config :: "bool \<Rightarrow> qsys \<Rightarrow> nat \<Rightarrow> qdma_queue_conf \<Rightarrow> unit res \<times> qsys" where
  "qdma_queue_config vf S qid qconf =
     (case qdma_device_get_descq_by_id (Some (s_xdev S)) qid False of
        Inl err \<Rightarrow> (Inl err, S)
      | Inr None \<Rightarrow> (Inl EINVAL, S)
      | Inr (Some p) \<Rightarrow>
          let descq = queue_at (s_xdev S) p in
          if q_enabled descq then (Inl EINVAL, S)
          else let xdev = upd_qdev (add_qcnt (qc_c2h qconf) 1) (s_xdev S)
               in (Inr (), S\<lparr>s_xdev :=
                     put_queue xdev p (qdma_descq_config vf xdev (descq\<lparr>q_enabled := True\<rparr>) qconf False)\<rparr>))"

section \<open>Starting, stopping and removing a queue\<close>

text \<open>Giving up the hardware context, whether or not that works, and the memory of a queue.\<close>

definition queue_release :: "'e env \<Rightarrow> qdma_descq \<Rightarrow> 'e \<Rightarrow> unit res \<times> qdma_descq \<times> 'e" where
  "queue_release E descq e =
     qdma_descq_free_resource E descq
       (snd (qdma_descq_context_clear E (q_qidx_hw descq) (qc_st (q_conf descq)) (qc_c2h (q_conf descq)) e))"

definition queue_start_fail ::
  "'e env \<Rightarrow> qsys \<Rightarrow> bool \<times> nat \<Rightarrow> errno \<Rightarrow> xlnx_dma_dev \<Rightarrow> qdma_descq \<Rightarrow> 'e \<Rightarrow> unit res \<times> qsys \<times> 'e" where
  "queue_start_fail E S p err xdev descq e =
     (case queue_release E descq e of
        (rv, descq, e) \<Rightarrow>
          (if rv = Inl OOPS then Inl OOPS else Inl err,
           S\<lparr>s_xdev := put_queue xdev p (descq\<lparr>q_inited := False\<rparr>)\<rparr>, e))"

definition qdma_queue_start :: "'e env \<Rightarrow> qsys \<Rightarrow> nat \<Rightarrow> 'e \<Rightarrow> unit res \<times> qsys \<times> 'e" where
  "qdma_queue_start E S i e =
     (case qdma_device_get_descq_by_id (Some (s_xdev S)) i True of
        Inl err \<Rightarrow> (Inl err, S, e)
      | Inr None \<Rightarrow> (Inl EINVAL, S, e)
      | Inr (Some p) \<Rightarrow>
          let xdev = s_xdev S; descq = queue_at xdev p in
          if \<not> q_enabled descq \<or> q_inited descq \<or> q_online descq then (Inl EINVAL, S, e)
          else case qdma_descq_alloc_resource E xdev descq e of
                 (Inl err, xdev, descq, e) \<Rightarrow> queue_start_fail E S p err xdev descq e
               | (Inr _, xdev, descq, e) \<Rightarrow>
                   let descq = descq\<lparr>q_inited := True\<rparr>
                   in case qdma_descq_prog_hw E xdev descq e of
                        (Inl err, e) \<Rightarrow> queue_start_fail E S p err xdev descq e
                      | (Inr _, e) \<Rightarrow>
                          (case qdma_thread_add_work (s_thr S) xdev (descq\<lparr>q_online := True\<rparr>) of
                             (rv, T, xdev, descq) \<Rightarrow>
                               (rv, S\<lparr>s_xdev := put_queue xdev p descq, s_thr := T\<rparr>, e)))"

definition qdma_queue_stop :: "'e env \<Rightarrow> qsys \<Rightarrow> nat \<Rightarrow> 'e \<Rightarrow> unit res \<times> qsys \<times> 'e" where
  "qdma_queue_stop E S i e =
     (case qdma_device_get_descq_by_id (Some (s_xdev S)) i True of
        Inl err \<Rightarrow> (Inl err, S, e)
      | Inr None \<Rightarrow> (Inl EINVAL, S, e)
      | Inr (Some p) \<Rightarrow>
          (case qdma_thread_remove_work (s_thr S) (s_xdev S) (queue_at (s_xdev S) p) of
             (Inl err, T, xdev, descq) \<Rightarrow> (Inl err, S\<lparr>s_xdev := put_queue xdev p descq, s_thr := T\<rparr>, e)
           | (Inr _, T, xdev, descq) \<Rightarrow>
               (case queue_release E descq e of
                  (rv, descq, e) \<Rightarrow>
                    (rv, S\<lparr>s_xdev := put_queue xdev p (descq\<lparr>q_online := False, q_inited := False\<rparr>), s_thr := T\<rparr>, e))))"

definition qdma_queue_remove :: "'e env \<Rightarrow> qsys \<Rightarrow> nat \<Rightarrow> 'e \<Rightarrow> unit res \<times> qsys \<times> 'e" where
  "qdma_queue_remove E S i e =
     (case qdma_device_get_descq_by_id (Some (s_xdev S)) i True of
        Inl err \<Rightarrow> (Inl err, S, e)
      | Inr None \<Rightarrow> (Inl EINVAL, S, e)
      | Inr (Some p) \<Rightarrow>
          let descq = (queue_at (s_xdev S) p)\<lparr>q_inited := False, q_online := False\<rparr>
          in case qdma_descq_cleanup E (s_xdev S) descq e of
               (rv, xdev, descq, e) \<Rightarrow>
                 (rv, S\<lparr>s_xdev := upd_qdev (add_qcnt (qc_c2h (q_conf descq)) (- 1))
                          (put_queue xdev p (descq\<lparr>q_enabled := False\<rparr>))\<rparr>, e))"

section \<open>What the operations leave alone\<close>

text \<open>The part of a queue that says where it is in its life.\<close>

definition same_life :: "qdma_descq \<Rightarrow> qdma_descq \<Rightarrow> bool" where
  "same_life d d' \<longleftrightarrow> q_conf d' = q_conf d \<and> q_enabled d' = q_enabled d \<and> q_inited d' = q_inited d
     \<and> q_online d' = q_online d"

lemma same_life_trans: "same_life a b \<Longrightarrow> same_life b c \<Longrightarrow> same_life a c"
  by (simp add: same_life_def)

lemma fl_free_life: "fl_free E d e = (d', e') \<Longrightarrow> same_life d d'"
  by (auto simp: fl_free_def same_life_def Let_def split: option.splits prod.splits)

lemma free_resource_life:
  assumes "qdma_descq_free_resource E d e = (rv, d', e')"
  shows "same_life d d'"
  using assms fl_free_life
  by (fastforce simp: qdma_descq_free_resource_def same_life_def Let_def split: prod.splits if_splits)

lemma release_life: "queue_release E d e = (rv, d', e') \<Longrightarrow> same_life d d'"
  unfolding queue_release_def by (rule free_resource_life)

lemma fl_fill_life: "fl_fill E d e = (rv, d', e') \<Longrightarrow> same_life d d'"
  by (auto simp: fl_fill_def same_life_def Let_def dest!: fl_free_life
      split: option.splits prod.splits bool.splits sum.splits)

lemma alloc_c2h_life: "alloc_c2h_resource E d e = (ok, d', e') \<Longrightarrow> same_life d d'"
  using fl_fill_life [of E d e]
  by (fastforce simp: alloc_c2h_resource_def same_life_def Let_def split: prod.splits sum.splits option.splits)

lemma alloc_resource_life:
  assumes "qdma_descq_alloc_resource E xdev d e = (rv, xdev', d', e')"
  shows "same_life d d'" and "x_dev_priv xdev' = x_dev_priv xdev" and "x_conf xdev' = x_conf xdev"
proof -
  have irq: "same_life a b \<and> x_dev_priv x' = x_dev_priv xdev \<and> x_conf x' = x_conf xdev"
    if "desc_alloc_irq xdev a = (x', b)" for a b x'
    using that by (auto simp: desc_alloc_irq_def same_life_def Let_def split: if_splits)
  obtain ok d1 e1 where part: "(case desc_ring_alloc E (qc_rngsz (q_conf d)) (get_desc_size d) (get_desc_wb_size d) e of
      (None, e) \<Rightarrow> (False, d\<lparr>q_desc := None\<rparr>, e)
    | (Some bus, e) \<Rightarrow>
        let descq = d\<lparr>q_desc := Some (zero_ring d), q_desc_bus := bus, q_desc_wb := zero_wb\<rparr>
        in if qc_st (q_conf descq) \<and> qc_c2h (q_conf descq) then alloc_c2h_resource E descq e
           else (True, descq, e)) = (ok, d1, e1)"
    by (rule prod_cases3)
  have "same_life d d1"
    using part alloc_c2h_life
    by (fastforce simp: same_life_def Let_def split: prod.splits option.splits if_splits)
  then show "same_life d d'" and "x_dev_priv xdev' = x_dev_priv xdev" and "x_conf xdev' = x_conf xdev"
    using assms part irq [of d1] free_resource_life [of E d1 e1]
    by (auto simp: qdma_descq_alloc_resource_def intro: same_life_trans split: prod.splits if_splits)
qed

lemma add_work_life:
  "qdma_thread_add_work T xdev d = (rv, T', xdev', d') \<Longrightarrow>
     same_life d d' \<and> x_dev_priv xdev' = x_dev_priv xdev \<and> x_conf xdev' = x_conf xdev"
  by (auto simp: qdma_thread_add_work_def same_life_def Let_def split: option.splits if_splits)

lemma remove_work_life:
  "qdma_thread_remove_work T xdev d = (rv, T', xdev', d') \<Longrightarrow>
     same_life d d' \<and> x_dev_priv xdev' = x_dev_priv xdev \<and> x_conf xdev' = x_conf xdev"
  by (auto simp: qdma_thread_remove_work_def same_life_def Let_def split: option.splits if_splits)

lemma config_life:
  assumes "d' = qdma_descq_config vf xdev d qconf False"
  shows "q_enabled d' = q_enabled d" "q_inited d' = q_inited d" "q_online d' = q_online d"
    "qc_c2h (q_conf d') = qc_c2h qconf" "qc_st (q_conf d') = qc_st qconf" "qc_qidx (q_conf d') = qc_qidx (q_conf d)"
  by (simp_all add: assms qdma_descq_config_def Let_def case_prod_beta)

lemma cleanup_life:
  assumes "qdma_descq_cleanup E xdev d e = (rv, xdev', d', e')" and "\<not> q_inited d"
  shows "same_life d d'" and "x_dev_priv xdev' = x_dev_priv xdev" and "x_conf xdev' = x_conf xdev"
  using assms free_resource_life
  by (fastforce simp: qdma_descq_cleanup_def desc_free_irq_def Let_def split: prod.splits if_splits)+

section \<open>The life of the queues\<close>

text \<open>
  The invariant of a device: the counters of both directions are the numbers of queues that have
  been added, every queue knows its direction and index, and a queue is online only with its
  resources and has resources only if it has been added.
\<close>

definition queue_ok :: "bool \<Rightarrow> nat \<Rightarrow> qdma_descq \<Rightarrow> bool" where
  "queue_ok c2h i d \<longleftrightarrow> (q_enabled d \<longrightarrow> qc_c2h (q_conf d) = c2h) \<and> qc_qidx (q_conf d) = of_nat i
     \<and> (q_online d \<longrightarrow> q_inited d) \<and> (q_inited d \<longrightarrow> q_enabled d)"

definition queues_ok :: "bool \<Rightarrow> u16 \<Rightarrow> u16 \<Rightarrow> qdma_descq list \<Rightarrow> bool" where
  "queues_ok c2h qmax cnt qs \<longleftrightarrow> length qs = unat qmax \<and> unat cnt = length (filter q_enabled qs)
     \<and> (\<forall>i<length qs. queue_ok c2h i (qs ! i))"

definition qdev_ok :: "qdma_dev \<Rightarrow> bool" where
  "qdev_ok qdev \<longleftrightarrow> queues_ok False (qd_qmax qdev) (qd_h2c_qcnt qdev) (qd_h2c_descq qdev)
     \<and> queues_ok True (qd_qmax qdev) (qd_c2h_qcnt qdev) (qd_c2h_descq qdev)"

definition sys_ok :: "qsys \<Rightarrow> bool" where
  "sys_ok S \<longleftrightarrow> (\<exists>qdev. x_dev_priv (s_xdev S) = Some qdev \<and> qdev_ok qdev)"

lemma count_update:
  "i < length xs \<Longrightarrow> length (filter P (xs[i := d])) + of_bool (P (xs ! i)) = length (filter P xs) + of_bool (P d)"
proof (induction xs arbitrary: i)
  case (Cons x xs)
  then show ?case
    by (cases i) auto
qed simp

lemma queues_ok_update:
  assumes "queues_ok c2h qmax cnt qs" and "i < length qs" and "queue_ok c2h i d"
    and "unat cnt' + of_bool (q_enabled (qs ! i)) = unat cnt + of_bool (q_enabled d)"
  shows "queues_ok c2h qmax cnt' (qs[i := d])"
  using assms count_update [of i qs q_enabled d] by (auto simp: queues_ok_def nth_list_update)

lemma lookup_found:
  assumes "qdma_device_get_descq_by_id (Some xdev) i ini = Inr (Some p)" and "x_dev_priv xdev = Some qdev"
  shows "snd p < unat (qd_qmax qdev)" and "ini \<Longrightarrow> q_enabled (descq_at qdev p)"
    and "fst p \<longleftrightarrow> unat (qd_qmax qdev) \<le> i"
  using assms by (auto simp: qdma_device_get_descq_by_id_def Let_def split: if_splits)

lemma qdev_ok_queue:
  assumes "qdev_ok qdev" and "snd p < unat (qd_qmax qdev)"
  shows "queue_ok (fst p) (snd p) (descq_at qdev p)"
  using assms by (simp add: qdev_ok_def queues_ok_def descq_at_def)

text \<open>Replacing a queue that stays added, or stays out, and adding and removing one.\<close>

lemma qdev_ok_put:
  assumes "qdev_ok qdev" and "snd p < unat (qd_qmax qdev)" and "queue_ok (fst p) (snd p) d"
    and "q_enabled d = q_enabled (descq_at qdev p)"
  shows "qdev_ok (put_descq qdev p d)"
  using assms by (auto simp: qdev_ok_def put_descq_def descq_at_def queues_ok_def [of _ _ _ "qd_c2h_descq qdev"]
      queues_ok_def [of _ _ _ "qd_h2c_descq qdev"] intro!: queues_ok_update)

lemma unat_cnt_up: "unat (c :: u16) < unat (m :: u16) \<Longrightarrow> unat (c + 1) = unat c + 1"
  using unat_plus_one [of c m] by (simp add: word_less_nat_alt)

lemma unat_cnt_down: "0 < unat (c :: u16) \<Longrightarrow> unat (c - 1) + 1 = unat c"
proof -
  assume "0 < unat c"
  then have "1 \<le> c"
    by (simp add: word_le_nat_alt)
  then show ?thesis
    using unat_sub_le [of 1 c] \<open>0 < unat c\<close> by simp
qed

lemma qdev_ok_add:
  assumes "qdev_ok qdev" and "i < unat (qd_qmax qdev)" and "queue_ok c2h i d"
    and "\<not> q_enabled (descq_at qdev (c2h, i))" and "q_enabled d"
    and "unat (if c2h then qd_c2h_qcnt qdev else qd_h2c_qcnt qdev) < unat (qd_qmax qdev)"
  shows "qdev_ok (put_descq (add_qcnt c2h 1 qdev) (c2h, i) d)"
  using assms unat_cnt_up [of "qd_c2h_qcnt qdev"] unat_cnt_up [of "qd_h2c_qcnt qdev"]
  by (auto simp: qdev_ok_def put_descq_def add_qcnt_def descq_at_def queues_ok_def [of _ _ _ "qd_c2h_descq qdev"]
      queues_ok_def [of _ _ _ "qd_h2c_descq qdev"] split: if_splits intro!: queues_ok_update)

lemma enabled_count_pos:
  assumes "queues_ok c2h qmax cnt qs" and "i < length qs" and "q_enabled (qs ! i)"
  shows "0 < unat cnt"
  using assms by (auto simp: queues_ok_def length_greater_0_conv filter_empty_conv)

lemma qdev_ok_remove:
  assumes "qdev_ok qdev" and "i < unat (qd_qmax qdev)" and "queue_ok c2h i d"
    and "q_enabled (descq_at qdev (c2h, i))" and "\<not> q_enabled d"
  shows "qdev_ok (add_qcnt c2h (- 1) (put_descq qdev (c2h, i) d))"
proof -
  have ok: "queues_ok True (qd_qmax qdev) (qd_c2h_qcnt qdev) (qd_c2h_descq qdev)"
    "queues_ok False (qd_qmax qdev) (qd_h2c_qcnt qdev) (qd_h2c_descq qdev)"
    using assms(1) by (simp_all add: qdev_ok_def)
  then have "length (qd_c2h_descq qdev) = unat (qd_qmax qdev)" "length (qd_h2c_descq qdev) = unat (qd_qmax qdev)"
    by (simp_all add: queues_ok_def)
  then have "0 < unat (if c2h then qd_c2h_qcnt qdev else qd_h2c_qcnt qdev)"
    using assms(2,4) enabled_count_pos [OF ok(1), of i] enabled_count_pos [OF ok(2), of i]
    by (cases c2h) (simp_all add: descq_at_def)
  then show ?thesis
    using assms unat_cnt_down [of "qd_c2h_qcnt qdev"] unat_cnt_down [of "qd_h2c_qcnt qdev"]
    by (auto simp: qdev_ok_def put_descq_def add_qcnt_def descq_at_def queues_ok_def [of _ _ _ "qd_c2h_descq qdev"]
        queues_ok_def [of _ _ _ "qd_h2c_descq qdev"] split: if_splits intro!: queues_ok_update)
qed


text \<open>
  What a device is to a client: a number \<open>m\<close> of queues in each direction and the set \<open>A\<close> of the
  queues that have been added.
\<close>

definition added_queues :: "qdma_dev \<Rightarrow> (bool \<times> nat) set" where
  "added_queues qdev = {p. snd p < unat (qd_qmax qdev) \<and> q_enabled (descq_at qdev p)}"

definition sys_as :: "qsys \<Rightarrow> u16 \<Rightarrow> (bool \<times> nat) set \<Rightarrow> bool" where
  "sys_as S m A \<longleftrightarrow> (\<exists>qdev. x_dev_priv (s_xdev S) = Some qdev \<and> qdev_ok qdev \<and> qd_qmax qdev = m \<and> added_queues qdev = A)"

lemma sys_ok_as: "sys_ok S \<longleftrightarrow> (\<exists>m A. sys_as S m A)"
  by (auto simp: sys_ok_def sys_as_def)

lemma sys_okI: "sys_as S m A \<Longrightarrow> sys_ok S"
  by (auto simp: sys_ok_as)

lemma put_descq_at:
  assumes "qdev_ok qdev" and "snd p < unat (qd_qmax qdev)"
  shows "descq_at (put_descq qdev p d) r = (if r = p then d else descq_at qdev r)"
  using assms by (auto simp: qdev_ok_def queues_ok_def descq_at_def put_descq_def prod_eq_iff)

lemma added_put:
  assumes "qdev_ok qdev" and "snd p < unat (qd_qmax qdev)"
  shows "added_queues (put_descq qdev p d) = (if q_enabled d then insert p (added_queues qdev) else added_queues qdev - {p})"
  using assms put_descq_at [OF assms, of d] by (auto simp: added_queues_def put_descq_def)

lemma added_qcnt [simp]: "added_queues (add_qcnt c n qdev) = added_queues qdev"
  by (simp add: added_queues_def add_qcnt_def descq_at_def)

text \<open>
  The operations on queues, with any outcome. The one condition is on configurations: they name the
  direction of the queue they are given to, which \<open>qdma_queue_config\<close> itself does not check.
\<close>

inductive queue_step :: "'e env \<Rightarrow> bool \<Rightarrow> qsys \<times> 'e \<Rightarrow> qsys \<times> 'e \<Rightarrow> bool" for E :: "'e env" and vf where
  add: "qdma_queue_add E vf S qconf qhndl_null e = (rv, S', e') \<Longrightarrow> queue_step E vf (S, e) (S', e')"
| config: "qdma_queue_config vf S i qconf = (rv', S') \<Longrightarrow> x_dev_priv (s_xdev S) = Some qdev \<Longrightarrow>
    qc_c2h qconf \<longleftrightarrow> unat (qd_qmax qdev) \<le> i \<Longrightarrow> queue_step E vf (S, e) (S', e)"
| start: "qdma_queue_start E S i e = (rv', S', e') \<Longrightarrow> queue_step E vf (S, e) (S', e')"
| stop: "qdma_queue_stop E S i e = (rv', S', e') \<Longrightarrow> queue_step E vf (S, e) (S', e')"
| remove: "qdma_queue_remove E S i e = (rv', S', e') \<Longrightarrow> queue_step E vf (S, e) (S', e')"

inductive_cases queue_step_cases: "queue_step E vf (S, e) (S', e')"

lemma sys_ok_put:
  assumes "x_dev_priv (s_xdev S) = Some qdev" and "qdev_ok qdev" and "x_dev_priv xdev = Some qdev"
    and "snd p < unat (qd_qmax qdev)" and "queue_ok (fst p) (snd p) d" and "q_enabled d = q_enabled (descq_at qdev p)"
  shows "sys_as (S\<lparr>s_xdev := put_queue xdev p d\<rparr>) (qd_qmax qdev) (added_queues qdev)"
    and "sys_as (S\<lparr>s_xdev := put_queue xdev p d, s_thr := T\<rparr>) (qd_qmax qdev) (added_queues qdev)"
proof -
  have "q_enabled d \<longleftrightarrow> p \<in> added_queues qdev"
    using assms(4,6) by (simp add: added_queues_def)
  then have "added_queues (put_descq qdev p d) = added_queues qdev"
    using added_put [OF assms(2,4), of d] by (simp add: insert_absorb)
  moreover have "qdev_ok (put_descq qdev p d)"
    by (rule qdev_ok_put [OF assms(2,4-6)])
  moreover have "qd_qmax (put_descq qdev p d) = qd_qmax qdev"
    by (simp add: put_descq_def)
  ultimately show "sys_as (S\<lparr>s_xdev := put_queue xdev p d\<rparr>) (qd_qmax qdev) (added_queues qdev)"
    and "sys_as (S\<lparr>s_xdev := put_queue xdev p d, s_thr := T\<rparr>) (qd_qmax qdev) (added_queues qdev)"
    using assms(3) by (simp_all add: sys_as_def put_queue_def)
qed

lemma queue_ok_life:
  assumes "same_life a b" and "queue_ok c2h i a"
  shows "queue_ok c2h i b" and "queue_ok c2h i (b\<lparr>q_online := False, q_inited := False\<rparr>)"
    and "\<not> q_online a \<Longrightarrow> queue_ok c2h i (b\<lparr>q_inited := False\<rparr>)"
    and "q_enabled a \<Longrightarrow> queue_ok c2h i (b\<lparr>q_inited := True\<rparr>)"
  using assms by (auto simp: same_life_def queue_ok_def)

lemma sys_ok_lookup [consumes 1, case_names none found]:
  assumes "sys_as S m A"
  obtains err where "qdma_device_get_descq_by_id (Some (s_xdev S)) i ini \<in> {Inl err, Inr None}"
  | p qdev where "qdma_device_get_descq_by_id (Some (s_xdev S)) i ini = Inr (Some p)"
      "x_dev_priv (s_xdev S) = Some qdev" "qdev_ok qdev" "snd p < unat (qd_qmax qdev)"
      "queue_ok (fst p) (snd p) (descq_at qdev p)" "ini \<longrightarrow> q_enabled (descq_at qdev p)"
      "fst p \<longleftrightarrow> unat (qd_qmax qdev) \<le> i" "m = qd_qmax qdev" "A = added_queues qdev"
proof -
  obtain qdev where q: "x_dev_priv (s_xdev S) = Some qdev" "qdev_ok qdev" "m = qd_qmax qdev" "A = added_queues qdev"
    using assms by (auto simp: sys_as_def)
  show ?thesis
  proof (cases "\<exists>p. qdma_device_get_descq_by_id (Some (s_xdev S)) i ini = Inr (Some p)")
    case True
    then obtain p where p: "qdma_device_get_descq_by_id (Some (s_xdev S)) i ini = Inr (Some p)" ..
    note found = lookup_found [OF p q(1)]
    show ?thesis
      using that(2) [OF p q(1,2) found(1) qdev_ok_queue [OF q(2) found(1)]] found(2,3) q(3,4) by blast
  next
    case False
    then show ?thesis
      using that(1) by (cases "qdma_device_get_descq_by_id (Some (s_xdev S)) i ini"; cases "projr (qdma_device_get_descq_by_id (Some (s_xdev S)) i ini)") auto
  qed
qed

lemma stop_ok:
  assumes "sys_as S m A" and run: "qdma_queue_stop E S i e = (rv, S', e')"
  shows "sys_as S' m A"
  using assms(1)
proof (cases rule: sys_ok_lookup [of S m A i True])
  case (none err)
  then show ?thesis
    using assms by (auto simp: qdma_queue_stop_def)
next
  case (found p qdev)
  let ?d = "descq_at qdev p"
  obtain rv1 T1 x1 d1 where rw: "qdma_thread_remove_work (s_thr S) (s_xdev S) ?d = (rv1, T1, x1, d1)"
    by (rule prod_cases4)
  then have x1: "same_life ?d d1" "x_dev_priv x1 = Some qdev"
    using remove_work_life [OF rw] found(2) by simp_all
  obtain rv2 d2 e2 where rel: "queue_release E d1 e = (rv2, d2, e2)"
    by (rule prod_cases3)
  have life: "same_life ?d d2"
    by (rule same_life_trans [OF x1(1) release_life [OF rel]])
  have "S' = S\<lparr>s_xdev := put_queue x1 p d1, s_thr := T1\<rparr>
      \<or> S' = S\<lparr>s_xdev := put_queue x1 p (d2\<lparr>q_online := False, q_inited := False\<rparr>), s_thr := T1\<rparr>"
    using run found(1,2) rw rel by (cases rv1) (auto simp: qdma_queue_stop_def queue_at_def)
  then show ?thesis
    unfolding found(8,9) using queue_ok_life(1) [OF x1(1) found(5)] queue_ok_life(2) [OF life found(5)] found(1-7) x1 life
    by (auto intro!: sys_ok_put(2) simp: same_life_def)
qed

lemma start_ok:
  assumes "sys_as S m A" and run: "qdma_queue_start E S i e = (rv, S', e')"
  shows "sys_as S' m A"
  using assms(1)
proof (cases rule: sys_ok_lookup [of S m A i True])
  case (none err)
  then show ?thesis
    using assms by (auto simp: qdma_queue_start_def)
next
  case (found p qdev)
  let ?d = "descq_at qdev p"
  have en: "q_enabled ?d"
    using found(6) by simp
  have at: "queue_at (s_xdev S) p = ?d"
    using found(2) by (simp add: queue_at_def)
  show ?thesis
  proof (cases "q_inited ?d \<or> q_online ?d")
    case True
    then show ?thesis
      using run found(1) at assms(1) by (auto simp: qdma_queue_start_def)
  next
    case False
    obtain rv1 x1 d1 e1 where al: "qdma_descq_alloc_resource E (s_xdev S) ?d e = (rv1, x1, d1, e1)"
      by (rule prod_cases4)
    note life1 = alloc_resource_life [OF al]
    have x1: "x_dev_priv x1 = Some qdev"
      using life1(2) found(2) by simp
    have fail: "sys_as S2 m A" if "queue_start_fail E S p err x1 d e2 = (r, S2, e4)" "same_life ?d (d\<lparr>q_inited := False\<rparr>)"
      for err d e2 r S2 e4
    proof -
      obtain rv3 d3 e3 where rel: "queue_release E d e2 = (rv3, d3, e3)"
        by (rule prod_cases3)
      have "same_life ?d (d3\<lparr>q_inited := False\<rparr>)"
        using that(2) release_life [OF rel] False by (simp add: same_life_def)
      then show ?thesis
        unfolding found(8,9) using that(1) rel found(1-7) x1 queue_ok_life(1) [OF _ found(5)]
        by (auto simp: queue_start_fail_def same_life_def intro!: sys_ok_put(1))
    qed
    let ?d1 = "d1\<lparr>q_inited := True\<rparr>"
    obtain rv2 e2 where hw: "qdma_descq_prog_hw E x1 ?d1 e1 = (rv2, e2)"
      by (rule prod.exhaust)
    obtain rv3 T3 x3 d3 where aw: "qdma_thread_add_work (s_thr S) x1 (?d1\<lparr>q_online := True\<rparr>) = (rv3, T3, x3, d3)"
      by (rule prod_cases4)
    have "same_life (?d1\<lparr>q_online := True\<rparr>) d3" "x_dev_priv x3 = Some qdev"
      using add_work_life [OF aw] x1 by simp_all
    then have ok3: "sys_as (S\<lparr>s_xdev := put_queue x3 p d3, s_thr := T3\<rparr>) m A"
      unfolding found(8,9) using found(1-7) life1(1) en by (intro sys_ok_put(2)) (auto simp: same_life_def queue_ok_def)
    have "same_life ?d (d1\<lparr>q_inited := False\<rparr>)"
      using life1(1) False by (simp add: same_life_def)
    then show ?thesis
      using run found(1) at en False al hw aw ok3 fail [of _ d1 e1] fail [of _ ?d1 e2]
      by (auto simp: qdma_queue_start_def Let_def split: sum.splits)
  qed
qed

lemma remove_ok:
  assumes "sys_as S m A" and run: "qdma_queue_remove E S i e = (rv, S', e')"
  shows "sys_as S' m (case qdma_device_get_descq_by_id (Some (s_xdev S)) i True of Inr (Some p) \<Rightarrow> A - {p} | _ \<Rightarrow> A)"
  using assms(1)
proof (cases rule: sys_ok_lookup [of S m A i True])
  case (none err)
  then show ?thesis
    using assms by (auto simp: qdma_queue_remove_def)
next
  case (found p qdev)
  let ?d = "(descq_at qdev p)\<lparr>q_inited := False, q_online := False\<rparr>"
  obtain rv1 x1 d1 e1 where cl: "qdma_descq_cleanup E (s_xdev S) ?d e = (rv1, x1, d1, e1)"
    by (rule prod_cases4)
  note life = cleanup_life [OF cl]
  have c2h: "qc_c2h (q_conf d1) = fst p"
    using life(1) found(5,6) by (simp add: same_life_def queue_ok_def)
  have "queue_ok (fst p) (snd p) (d1\<lparr>q_enabled := False\<rparr>)"
    using life(1) found(5) by (simp add: same_life_def queue_ok_def)
  then have "qdev_ok (add_qcnt (fst p) (- 1) (put_descq qdev p (d1\<lparr>q_enabled := False\<rparr>)))"
    using qdev_ok_remove [of qdev "snd p" "fst p" "d1\<lparr>q_enabled := False\<rparr>"] found(3,4,6) by simp
  moreover have "S' = S\<lparr>s_xdev := upd_qdev (add_qcnt (fst p) (- 1)) (put_queue x1 p (d1\<lparr>q_enabled := False\<rparr>))\<rparr>"
    using run found(1,2) cl c2h by (simp add: qdma_queue_remove_def queue_at_def Let_def)
  moreover have "added_queues (put_descq qdev p (d1\<lparr>q_enabled := False\<rparr>)) = A - {p}"
    using added_put [OF found(3,4), of "d1\<lparr>q_enabled := False\<rparr>"] found(9) by simp
  moreover have "qd_qmax (add_qcnt (fst p) (- 1) (put_descq qdev p (d1\<lparr>q_enabled := False\<rparr>))) = m"
    using found(8) by (simp add: add_qcnt_def put_descq_def)
  ultimately show ?thesis
    using life(2) found(1,2) by (simp add: sys_as_def upd_qdev_def put_queue_def)
qed

text \<open>Claiming the queues touches the queue structures only in the flag that says it was done.\<close>

lemma ring_setup_dev:
  "intr_ring_setup E xdev sz e = (rv, xdev', e') \<Longrightarrow> x_dev_priv xdev' = x_dev_priv xdev"
  by (auto simp: intr_ring_setup_def Let_def split: prod.splits if_splits bool.splits)

lemma qdev_ok_init_qrange: "qdev_ok (qdev\<lparr>qd_init_qrange := b\<rparr>) = qdev_ok qdev"
  by (simp add: qdev_ok_def)

lemma added_init_qrange: "added_queues (qdev\<lparr>qd_init_qrange := b\<rparr>) = added_queues qdev"
  by (simp add: added_queues_def descq_at_def)

lemma prep_ok:
  assumes "sys_as S m A" and "qdma_device_prep_q_resource E (s_xdev S) e = (rv, xdev, e')"
  shows "sys_as (S\<lparr>s_xdev := xdev\<rparr>) m A"
  using assms qdev_ok_init_qrange added_init_qrange
  by (auto simp: sys_as_def qdma_device_prep_q_resource_def device_set_qrange_def upd_qdev_def Let_def
      dest!: ring_setup_dev split: prod.splits if_splits sum.splits)

lemma queue_slot_free:
  assumes "queue_slot qs qmax qidx = Inr i" and "qidx \<noteq> QDMA_QUEUE_IDX_INVALID \<longrightarrow> qidx < qmax"
  shows "i < unat qmax \<and> \<not> q_enabled (qs ! i)"
  using assms by (auto simp: queue_slot_def find_Some_iff word_less_nat_alt split: if_splits option.splits)

lemma queue_ok_config:
  assumes "queue_ok c2h i d" and "qc_c2h qconf = c2h"
  shows "queue_ok c2h i (qdma_descq_config vf xdev (d\<lparr>q_enabled := True\<rparr>) qconf False)"
  using assms config_life [OF refl, of vf xdev "d\<lparr>q_enabled := True\<rparr>" qconf] by (simp add: queue_ok_def)

lemma sys_ok_add:
  assumes "x_dev_priv (s_xdev S) = Some qdev" and "qdev_ok qdev" and "i < unat (qd_qmax qdev)"
    and "\<not> q_enabled (descq_at qdev (c2h, i))" and "qc_c2h qconf = c2h"
    and "unat (if c2h then qd_c2h_qcnt qdev else qd_h2c_qcnt qdev) < unat (qd_qmax qdev)"
  shows "sys_as (S\<lparr>s_xdev := put_queue (upd_qdev (add_qcnt c2h 1) (s_xdev S)) (c2h, i)
           (qdma_descq_config vf xdev ((descq_at qdev (c2h, i))\<lparr>q_enabled := True\<rparr>) qconf False)\<rparr>)
         (qd_qmax qdev) (insert (c2h, i) (added_queues qdev))"
proof -
  let ?d = "qdma_descq_config vf xdev ((descq_at qdev (c2h, i))\<lparr>q_enabled := True\<rparr>) qconf False"
  have "queue_ok c2h i ?d"
    using qdev_ok_queue [of qdev "(c2h, i)"] assms(2,3,5) by (intro queue_ok_config) simp_all
  moreover have "q_enabled ?d"
    using config_life(1) [OF refl, of vf xdev "(descq_at qdev (c2h, i))\<lparr>q_enabled := True\<rparr>" qconf] by simp
  ultimately have "qdev_ok (put_descq (add_qcnt c2h 1 qdev) (c2h, i) ?d)"
      "added_queues (put_descq qdev (c2h, i) ?d) = insert (c2h, i) (added_queues qdev)"
    using assms added_put [of qdev "(c2h, i)" ?d] by (simp_all add: qdev_ok_add)
  moreover have "put_descq (add_qcnt c2h 1 qdev) (c2h, i) ?d = add_qcnt c2h 1 (put_descq qdev (c2h, i) ?d)"
    by (simp add: put_descq_def add_qcnt_def)
  moreover have "qd_qmax (add_qcnt c2h 1 (put_descq qdev (c2h, i) ?d)) = qd_qmax qdev"
    by (simp add: put_descq_def add_qcnt_def)
  ultimately show ?thesis
    using assms(1) by (simp add: sys_as_def put_queue_def upd_qdev_def)
qed

lemma add_qcnt_queue: "descq_at (add_qcnt c n qdev) p = descq_at qdev p"
  by (simp add: descq_at_def add_qcnt_def)

lemma add_ok:
  assumes "sys_as S m A" and run: "qdma_queue_add E vf S qconf qhndl_null e = (rv, S', e')"
  shows "case rv of Inl _ \<Rightarrow> sys_as S' m A
    | Inr (h, qc) \<Rightarrow> \<exists>i<unat m. (qc_c2h qconf, i) \<notin> A \<and> sys_as S' m (insert (qc_c2h qconf, i) A)
        \<and> qc_c2h qc = qc_c2h qconf \<and> qc_st qc = qc_st qconf \<and> qc_qidx qc = of_nat i \<and> h = i + (if qc_c2h qc then unat m else 0)
        \<and> (qc_qidx qconf \<noteq> QDMA_QUEUE_IDX_INVALID \<longrightarrow> i = unat (qc_qidx qconf))"
proof -
  obtain r xdev e1 where prep: "qdma_device_prep_q_resource E (s_xdev S) e = (r, xdev, e1)"
    by (rule prod_cases3)
  let ?S = "S\<lparr>s_xdev := xdev\<rparr>" and ?c = "qc_c2h qconf"
  have ok: "sys_as ?S m A"
    by (rule prep_ok [OF assms(1) prep])
  then obtain qdev where q: "x_dev_priv xdev = Some qdev" "qdev_ok qdev" "m = qd_qmax qdev" "A = added_queues qdev"
    by (auto simp: sys_as_def)
  let ?qs = "if ?c then qd_c2h_descq qdev else qd_h2c_descq qdev"
    and ?d = "\<lambda>i. qdma_descq_config vf (upd_qdev (add_qcnt ?c 1) xdev) ((descq_at qdev (?c, i))\<lparr>q_enabled := True\<rparr>) qconf False"
  consider err where "rv = Inl err" "S' = ?S"
    | i where "queue_slot ?qs (qd_qmax qdev) (qc_qidx qconf) = Inr i"
      "qc_qidx qconf \<noteq> QDMA_QUEUE_IDX_INVALID \<longrightarrow> qc_qidx qconf < qd_qmax qdev"
      "(if ?c then qd_c2h_qcnt qdev else qd_h2c_qcnt qdev) < qd_qmax qdev"
      "S' = ?S\<lparr>s_xdev := put_queue (upd_qdev (add_qcnt ?c 1) xdev) (?c, i) (?d i)\<rparr>"
      "rv = Inr (unat (qc_qidx (q_conf (?d i))) + (if qc_c2h (q_conf (?d i)) then unat (qd_qmax qdev) else 0), q_conf (?d i))"
    using run prep q(1)
    by (auto simp: qdma_queue_add_def Let_def queue_at_def upd_qdev_def add_qcnt_queue not_le
        split: sum.splits if_splits simp del: QDMA_QUEUE_IDX_INVALID_def)
  then show ?thesis
  proof cases
    case 1
    then show ?thesis
      using ok by simp
  next
    case (2 i)
    note free = queue_slot_free [OF 2(1,2)]
    have at: "?qs ! i = descq_at qdev (?c, i)"
      by (simp add: descq_at_def)
    have "qc_qidx (q_conf (?d i)) = of_nat i"
      using qdev_ok_queue [OF q(2), of "(?c, i)"] free config_life(6) [OF refl] by (simp add: queue_ok_def)
    moreover have "unat (of_nat i :: u16) = i"
      using free unsigned_less [where 'a = nat, of "qd_qmax qdev"] by (simp add: unat_of_nat take_bit_nat_eq_self)
    moreover have "qc_qidx qconf \<noteq> QDMA_QUEUE_IDX_INVALID \<longrightarrow> i = unat (qc_qidx qconf)"
      using 2(1) by (auto simp: queue_slot_def split: if_splits simp del: QDMA_QUEUE_IDX_INVALID_def)
    moreover have "sys_as S' m (insert (?c, i) A)"
      using sys_ok_add [of ?S qdev i ?c qconf] q free 2(3,4) at by (simp add: word_less_nat_alt)
    ultimately show ?thesis
      using 2(5) q(3,4) free at config_life(4,5) [OF refl] by (auto simp: added_queues_def)
  qed
qed

lemma qcnt_below:
  assumes "qdev_ok qdev" and "i < unat (qd_qmax qdev)" and "\<not> q_enabled (descq_at qdev (c2h, i))"
  shows "unat (if c2h then qd_c2h_qcnt qdev else qd_h2c_qcnt qdev) < unat (qd_qmax qdev)"
proof -
  have "length (filter q_enabled qs) < length qs" if "i < length qs" "\<not> q_enabled (qs ! i)" for qs
    using that by (intro length_filter_less) simp_all
  from this [of "qd_c2h_descq qdev"] this [of "qd_h2c_descq qdev"] show ?thesis
    using assms by (auto simp: qdev_ok_def queues_ok_def descq_at_def split: if_splits)
qed

lemma config_ok:
  assumes "sys_as S m A" and run: "qdma_queue_config vf S i qconf = (rv, S')"
    and "x_dev_priv (s_xdev S) = Some qdev" and "qc_c2h qconf \<longleftrightarrow> unat (qd_qmax qdev) \<le> i"
  shows "sys_ok S'"
  using assms(1)
proof (cases rule: sys_ok_lookup [of S m A i False])
  case (none err)
  then show ?thesis
    using assms by (auto simp: qdma_queue_config_def intro: sys_okI)
next
  case (found p qdev')
  have q: "qdev' = qdev" "p = (qc_c2h qconf, snd p)"
    using found(2,7) assms(3,4) by (simp_all add: prod_eq_iff)
  show ?thesis
  proof (cases "q_enabled (descq_at qdev p)")
    case True
    then show ?thesis
      using run found(1,2) q assms(1) by (auto simp: qdma_queue_config_def queue_at_def intro: sys_okI)
  next
    case False
    obtain j where j: "p = (qc_c2h qconf, j)"
      using q(2) by blast
    show ?thesis
      using run found(1-4) q(1) j False sys_ok_add [of S qdev j "qc_c2h qconf" qconf]
        qcnt_below [of qdev j "qc_c2h qconf"]
      by (auto simp: qdma_queue_config_def queue_at_def Let_def intro: sys_okI)
  qed
qed

lemma queue_step_ok:
  assumes "queue_step E vf s t" and "sys_ok (fst s)"
  shows "sys_ok (fst t)"
  using assms(1)
proof cases
  case (add S qconf qhndl_null e rv S' e')
  obtain m A where "sys_as S m A"
    using assms(2) add(1) by (auto simp: sys_ok_as)
  from add_ok [OF this add(3)] show ?thesis
    using add(2) by (auto split: sum.splits intro: sys_okI)
qed (use assms(2) in \<open>auto simp: sys_ok_as dest: config_ok [unfolded sys_ok_as] start_ok stop_ok remove_ok\<close>)

interpretation life: machine "queue_step E vf" "\<lambda>s. sys_ok (fst s)"
  by unfold_locales (rule queue_step_ok)

lemma new_qdev_ok:
  assumes "qmax < 2 ^ 16"
  shows "qdev_ok (new_qdev f qmax)"
proof -
  have "unat (of_nat qmax :: u16) = qmax"
    using assms by (simp add: unat_of_nat take_bit_nat_eq_self)
  moreover have "\<not> q_enabled (qdma_descq_init qdev i j)" "queue_ok c2h j (qdma_descq_init qdev i j)" for qdev i j c2h
    by (simp_all add: qdma_descq_init_def zero_descq_def queue_ok_def)
  ultimately show ?thesis
    by (simp add: qdev_ok_def queues_ok_def new_qdev_def Let_def)
qed

lemma device_init_dev:
  assumes "qdma_device_init E vf M xdev e = (Inr (), xdev', e')"
  shows "\<exists>f. x_dev_priv xdev' = Some (new_qdev f (unat (dc_qsets_max (x_conf xdev))))"
  using assms by (auto simp: qdma_device_init_def Let_def case_prod_beta split: prod.splits bool.splits if_splits)

text \<open>
  C17: From the initialisation of a device with fewer than 65536 queues on, whatever queues are
  added, started, stopped and removed, successfully or not, and whatever configurations are given to
  queues as long as they name the direction the queue has: the two counters of the
  device are the numbers of queues in use, so neither exceeds the number of queues; no queue is
  online without its resources or has resources without being in use; and every queue in use is
  found at its own index and in its own direction. (\<open>qdma_queue_config\<close> does not check the direction.
  A configuration that turns it around is not among the steps: after it the claim is false, since the
  queue is counted in the direction of the configuration; see \<open>config_counts_other_direction\<close>.)
\<close>

theorem queue_life_invariant:
  assumes "qdma_device_init E False M xdev0 e0 = (Inr (), xdev, e)" and "unat (dc_qsets_max (x_conf xdev0)) < 2 ^ 16"
    and "(queue_step E False)\<^sup>*\<^sup>* (\<lparr>s_xdev = xdev, s_thr = T\<rparr>, e) (S, e')"
  shows "\<exists>qdev. x_dev_priv (s_xdev S) = Some qdev
    \<and> unat (qd_h2c_qcnt qdev) = length (filter q_enabled (qd_h2c_descq qdev))
    \<and> unat (qd_c2h_qcnt qdev) = length (filter q_enabled (qd_c2h_descq qdev))
    \<and> qd_h2c_qcnt qdev \<le> qd_qmax qdev \<and> qd_c2h_qcnt qdev \<le> qd_qmax qdev
    \<and> (\<forall>c2h i. i < unat (qd_qmax qdev) \<longrightarrow> (let d = descq_at qdev (c2h, i) in
         (q_online d \<longrightarrow> q_inited d) \<and> (q_inited d \<longrightarrow> q_enabled d)
         \<and> qc_qidx (q_conf d) = of_nat i \<and> (q_enabled d \<longrightarrow> qc_c2h (q_conf d) = c2h)))"
proof -
  have "sys_ok \<lparr>s_xdev = xdev, s_thr = T\<rparr>"
    using device_init_dev [OF assms(1)] new_qdev_ok [OF assms(2)] by (auto simp: sys_ok_def)
  then have "sys_ok S"
    using life.reach_inv [OF assms(3)] by simp
  then obtain qdev where q: "x_dev_priv (s_xdev S) = Some qdev" "qdev_ok qdev"
    by (auto simp: sys_ok_def)
  have "qd_h2c_qcnt qdev \<le> qd_qmax qdev" "qd_c2h_qcnt qdev \<le> qd_qmax qdev"
    using q(2) length_filter_le [of q_enabled "qd_h2c_descq qdev"] length_filter_le [of q_enabled "qd_c2h_descq qdev"]
    by (simp_all add: qdev_ok_def queues_ok_def word_le_nat_alt)
  moreover have "queue_ok c2h i (descq_at qdev (c2h, i))" if "i < unat (qd_qmax qdev)" for c2h i
    using qdev_ok_queue [OF q(2), of "(c2h, i)"] that by simp
  ultimately show ?thesis
    using q by (auto simp: qdev_ok_def queues_ok_def queue_ok_def Let_def)
qed

section \<open>Removing a queue that is running\<close>

lemma traced_free [simp]:
  "env_free_page (traced E) p (e, l) = (env_free_page E p e, l)"
  "env_dma_unmap_page (traced E) m (e, l) = (env_dma_unmap_page E m e, l)"
  "env_dma_free (traced E) n m (e, l) = (env_dma_free E n m e, l)"
  by (simp_all add: traced_def)

lemma fl_free_entries_quiet: "snd (fl_free_entries (traced E) fls (e, l)) = l"
  by (induction fls arbitrary: e) (auto split: option.split)

lemma rxq_free_quiet:
  "rxq_free_resource (traced E) rxq (e, l) = (rv, rxq', e', l') \<Longrightarrow> l' = l"
proof (induction "length (rxq_rxs rxq)" arbitrary: rxq e)
  case 0
  then show ?case
    by (simp add: rxq_free_resource.simps [of _ rxq] rx_pop_def)
next
  case (Suc n)
  then obtain rx rxs where rxs: "rxq_rxs rxq = rx # rxs"
    by (metis length_Suc_conv)
  show ?case
    using Suc.hyps(1) [of "snd (rx_pop rxq)"] Suc.hyps(2) Suc.prems rxs
    by (auto simp: rxq_free_resource.simps [of _ rxq] rx_pop_def split: option.splits)
qed

lemma free_resource_quiet: "snd (snd (snd (qdma_descq_free_resource (traced E) d x))) = snd x"
proof -
  have fl: "snd (snd (fl_free (traced E) d x)) = snd x" for d x
    by (cases x) (simp add: fl_free_def fl_free_entries_quiet split: option.split)
  have ring: "snd (desc_ring_free (traced E) a b c bus x) = snd x" for a b c bus x
    by (cases x) (simp add: desc_ring_free_def)
  have rxq: "snd (snd (snd (rxq_free_resource (traced E) rxq x))) = snd x" for rxq x
    using rxq_free_quiet [of E rxq "fst x" "snd x"]
    by (cases "rxq_free_resource (traced E) rxq x") auto
  show ?thesis
    by (simp add: qdma_descq_free_resource_def Let_def case_prod_beta fl ring rxq)
qed

text \<open>
  Removing a queue that is running takes it out of use and clears its state flags, but it
  does not give up what \<open>qdma_queue_start\<close> set up for it: the worker threads keep the queue
  in their lists, and not one register is written, so its hardware contexts stay programmed.
  (\<open>inited\<close> is reset before \<open>qdma_descq_cleanup\<close>, which clears the contexts only when it is set.)
\<close>

lemma remove_leaves_hardware:
  assumes "qdma_device_get_descq_by_id (Some (s_xdev S)) i True = Inr (Some p)"
    and "x_dev_priv (s_xdev S) = Some qdev" and "snd p < length (if fst p then qd_c2h_descq qdev else qd_h2c_descq qdev)"
    and "qdma_queue_remove (traced E) S i (e, l) = (rv, S', e', l')"
  shows "s_thr S' = s_thr S \<and> l' = l \<and> \<not> q_enabled (queue_at (s_xdev S') p)
    \<and> \<not> q_inited (queue_at (s_xdev S') p) \<and> \<not> q_online (queue_at (s_xdev S') p)"
proof -
  let ?d = "(queue_at (s_xdev S) p)\<lparr>q_inited := False, q_online := False\<rparr>"
  obtain rv1 x1 d1 e1 l1 where cl: "qdma_descq_cleanup (traced E) (s_xdev S) ?d (e, l) = (rv1, x1, d1, e1, l1)"
    by (metis surj_pair)
  have "l1 = l"
    using cl free_resource_quiet [of E ?d "(e, l)"] by (auto simp: qdma_descq_cleanup_def split: prod.splits)
  moreover have S': "l' = l1"
    "S' = S\<lparr>s_xdev := upd_qdev (add_qcnt (qc_c2h (q_conf d1)) (- 1)) (put_queue x1 p (d1\<lparr>q_enabled := False\<rparr>))\<rparr>"
    using assms(1,4) cl by (simp_all add: qdma_queue_remove_def Let_def)
  moreover have "queue_at (s_xdev S') p = d1\<lparr>q_enabled := False\<rparr>"
    using S'(2) cleanup_life(2) [OF cl] assms(2,3)
    by (simp add: queue_at_def upd_qdev_def put_queue_def put_descq_def add_qcnt_def descq_at_def split: if_splits)
  ultimately show ?thesis
    using cleanup_life(1) [OF cl] by (simp add: same_life_def)
qed

section \<open>Witnesses\<close>

definition sample_msix :: "'e msix_if" where
  "sample_msix = \<lparr>msix_vec_count = Pair 1, msix_enable = (\<lambda>n. Pair (0, [0])), msix_disable = id,
     irq_request = (\<lambda>v. Pair 0), irq_free = (\<lambda>v. id)\<rparr>"

definition sample_dev :: xlnx_dma_dev where
  "sample_dev = sample_xdev\<lparr>x_conf := (x_conf sample_xdev)\<lparr>dc_qsets_max := 2\<rparr>\<rparr>"

definition sample_init :: "unit res \<times> xlnx_dma_dev \<times> (u32 \<Rightarrow> u32)" where
  "sample_init = qdma_device_init ram_env False sample_msix sample_dev (\<lambda>_. 0)"

definition sample_sys :: qsys where
  "sample_sys = \<lparr>s_xdev = fst (snd sample_init), s_thr = sample_threads\<rparr>"

definition sample_added :: "(nat \<times> qdma_queue_conf) res \<times> qsys \<times> (u32 \<Rightarrow> u32)" where
  "sample_added = qdma_queue_add ram_env False sample_sys (sample_conf False True) False (snd (snd sample_init))"

lemma sample_runs:
  "fst sample_init = Inr ()"
  "map_option qd_c2h_qcnt (x_dev_priv (s_xdev (fst (snd sample_added)))) = Some 1"
  by code_simp+

text \<open>Queue 0, to the card, given a configuration from the card: it is in use and the counter of its direction is 0.\<close>

lemma config_counts_other_direction:
  "case qdma_queue_config False sample_sys 0 (sample_conf False True) of (rv, S) \<Rightarrow>
     rv = Inr () \<and> (case x_dev_priv (s_xdev S) of None \<Rightarrow> False
       | Some qdev \<Rightarrow> length (filter q_enabled (qd_h2c_descq qdev)) = 1 \<and> qd_h2c_qcnt qdev = 0 \<and> qd_c2h_qcnt qdev = 1)"
  by code_simp

theorem queue_life_invariant_witness:
  "\<exists>qdev. x_dev_priv (s_xdev (fst (snd sample_added))) = Some qdev \<and> qd_c2h_qcnt qdev = 1
     \<and> length (filter q_enabled (qd_c2h_descq qdev)) = 1"
proof -
  obtain rv S e where add: "sample_added = (rv, S, e)"
    by (rule prod_cases3)
  have "qdma_device_init ram_env False sample_msix sample_dev (\<lambda>_. 0) = (Inr (), s_xdev sample_sys, snd (snd sample_init))"
    using sample_runs(1) by (simp add: sample_sys_def sample_init_def prod_eq_iff)
  moreover have "unat (dc_qsets_max (x_conf sample_dev)) < 2 ^ 16"
    by (simp add: sample_dev_def)
  moreover have "(queue_step ram_env False)\<^sup>*\<^sup>* (\<lparr>s_xdev = s_xdev sample_sys, s_thr = sample_threads\<rparr>, snd (snd sample_init)) (S, e)"
    using add queue_step.add [of ram_env False sample_sys "sample_conf False True" False "snd (snd sample_init)" rv S e]
    by (auto simp: sample_added_def sample_sys_def)
  ultimately show ?thesis
    using queue_life_invariant [of ram_env sample_msix sample_dev "\<lambda>_. 0" "s_xdev sample_sys" "snd (snd sample_init)"
        sample_threads S e] sample_runs(2) by (auto simp: add)
qed

definition sample_running :: qsys where
  "sample_running = (let S = fst (snd sample_added) in S\<lparr>s_xdev := put_queue (s_xdev S) (True, 0) sample_h2c\<rparr>)"

lemma remove_leaves_hardware_witness:
  "\<exists>rv S' e'. qdma_queue_remove (traced ram_env) sample_running 2 (\<lambda>_. 0, []) = (rv, S', e', [])
     \<and> q_online (queue_at (s_xdev sample_running) (True, 0)) \<and> \<not> q_enabled (queue_at (s_xdev S') (True, 0))
     \<and> s_thr S' = s_thr sample_running"
proof -
  obtain rv S' e' l' where run: "qdma_queue_remove (traced ram_env) sample_running 2 (\<lambda>_. 0, []) = (rv, S', e', l')"
    by (metis surj_pair)
  obtain qdev where q: "x_dev_priv (s_xdev sample_running) = Some qdev" "length (qd_c2h_descq qdev) = 2"
  proof -
    have "map_option (\<lambda>qdev. length (qd_c2h_descq qdev)) (x_dev_priv (s_xdev sample_running)) = Some 2"
      by code_simp
    then show ?thesis
      using that by auto
  qed
  moreover have "qdma_device_get_descq_by_id (Some (s_xdev sample_running)) 2 True = Inr (Some (True, 0))"
    "q_online (queue_at (s_xdev sample_running) (True, 0))"
    by code_simp+
  ultimately show ?thesis
    using remove_leaves_hardware [of sample_running 2 "(True, 0)" qdev ram_env "\<lambda>_. 0" "[]" rv S' e' l'] run by auto
qed

end
