(* ===== verification/Qdma_Tx_Machine.thy ===== *)
theory Qdma_Tx_Machine
  imports Qdma_Worker
begin

text \<open>
  The life of a transmit queue as a state machine: requests are queued, the submission worker
  runs, the device consumes descriptors and reports a consumer index, and the write-back is
  served, in any order and any number of times. The state carries the identities of all
  requests queued so far, in order. The contract of the device is \<open>hw_wb_ok\<close>: the index it
  reports lies between the driver's consumer and producer index. The requests have the form \<open>req_wf\<close>
  that the character device gives them: entries that are not empty and fit one descriptor, and a
  byte count that is theirs; the library does not check this.
\<close>

section \<open>Steps\<close>

type_synonym tx_state = "qdma_descq \<times> nat list"

inductive tx_step :: "'e env \<Rightarrow> bool \<Rightarrow> tx_state \<Rightarrow> tx_state \<Rightarrow> bool" for E :: "'e env" and vf where
  queue_request:
    "req_wf (queue_blen q) cb \<Longrightarrow> cb_desc_nr cb = 0 \<Longrightarrow> rid cb \<notin> set subs \<Longrightarrow>
     tx_step E vf (q, subs) (q\<lparr>q_work_list := q_work_list q @ [cb]\<rparr>, subs @ [rid cb])"
| worker:
    "qdma_thread_wrk_proc E vf q e = (rv, q', e') \<Longrightarrow> tx_step E vf (q, subs) (q', subs)"
| device:
    "hw_wb_ok (q\<lparr>q_desc_wb := wb\<rparr>) \<Longrightarrow> tx_step E vf (q, subs) (q\<lparr>q_desc_wb := wb\<rparr>, subs)"
| writeback:
    "descq_mm_n_h2c_wb E vf xdev q e = (rv, xdev', q', e') \<Longrightarrow> rv \<noteq> Inl OOPS \<Longrightarrow>
     tx_step E vf (q, subs) (q', subs)"

inductive_cases tx_step_cases: "tx_step E vf (q, subs) t"

section \<open>The invariant\<close>

text \<open>
  Besides the queue invariants: the requests queued so far are, in order, those done, those
  pending and those still to be programmed; everything pending is programmed completely; and
  every request handed back is complete and without error.
\<close>

definition done_clean :: "qdma_descq \<Rightarrow> bool" where
  "done_clean q \<longleftrightarrow>
     (\<forall>cb\<in>set (q_done q). cb_done cb \<and> cb_status cb = None \<and> cb_offset cb = req_count cb)"

definition tx_inv :: "tx_state \<Rightarrow> bool" where
  "tx_inv s \<longleftrightarrow>
     (case s of (q, subs) \<Rightarrow>
        work_ok q \<and> hw_wb_ok q \<and> pend_full q \<and> done_clean q
        \<and> subs = map rid (q_done q @ q_pend_list q @ q_work_list q))"

lemma work_ok_queue:
  assumes "work_ok q" and "req_wf (queue_blen q) cb" and "cb_desc_nr cb = 0"
    and "rid cb \<notin> rid ` set (q_work_list q @ q_pend_list q)"
  shows "work_ok (q\<lparr>q_work_list := q_work_list q @ [cb]\<rparr>)"
proof -
  let ?q = "q\<lparr>q_work_list := q_work_list q @ [cb]\<rparr>"
  have "outstanding ?q = outstanding q" "queue_blen ?q = queue_blen q"
    by (simp_all add: outstanding_def queue_blen_def)
  then show ?thesis
    using assms ring_mem_ok_cong [of ?q q]
    by (auto simp: work_ok_def tx_ok_def ring_ok_def credit_ok_def owed_def reqs_ok_def)
qed

lemma hw_wb_ok_frame: "hw_wb_ok q \<Longrightarrow> tx_frame q q' \<Longrightarrow> hw_wb_ok q'"
  by (auto simp: hw_wb_ok_def tx_frame_def Let_def)

lemma wrk_proc_inv:
  assumes "tx_inv (q, subs)" and "qdma_thread_wrk_proc E vf q e = (rv, q', e')"
  shows "tx_inv (q', subs)"
proof -
  have inv: "work_ok q" "hw_wb_ok q" "pend_full q" "done_clean q"
    "subs = map rid (q_done q @ q_pend_list q @ q_work_list q)"
    using assms(1) by (simp_all add: tx_inv_def)
  have "work_ok q'" "tx_frame q q'" "pend_full q'"
    "map rid (q_pend_list q' @ q_work_list q') = map rid (q_pend_list q @ q_work_list q)"
    using wrk_loop_ok [OF inv(1) refl, of E vf e] assms(2) inv(3)
    by (auto simp: qdma_thread_wrk_proc_def)
  moreover have "q_done q' = q_done q"
    using \<open>tx_frame q q'\<close> by (simp add: tx_frame_def)
  ultimately show ?thesis
    using inv hw_wb_ok_frame [OF inv(2)] by (auto simp: tx_inv_def done_clean_def)
qed

text \<open>What serving a write-back does to the queue, as one equation.\<close>

lemma mm_n_h2c_wb_run:
  assumes "reqs_ok q" and "descq_mm_n_h2c_wb E vf xdev q e = (rv, xdev', q', e')" and "rv \<noteq> Inl OOPS"
  shows "q' = q \<or> (\<exists>cr q1 fin rest c.
    descq_wb_credit q (ucast (wb_cidx (q_desc_wb q))) = (cr, q1)
    \<and> settle (cr + q_credit q) (q_pend_list q) = (fin, rest, c)
    \<and> q' = q1\<lparr>q_pend_list := rest, q_done := q_done q @ map req_finished fin, q_credit := c\<rparr>
    \<and> q_cidx q1 = ucast (wb_cidx (q_desc_wb q)) \<and> q_conf q1 = q_conf q
    \<and> q_desc_wb q1 = q_desc_wb q \<and> q_work_list q1 = q_work_list q)"
proof -
  obtain cr q1 where cr: "descq_wb_credit q (ucast (wb_cidx (q_desc_wb q))) = (cr, q1)"
    by (metis surj_pair)
  then have same: "q_pend_list q1 = q_pend_list q" "q_work_list q1 = q_work_list q"
    "q_done q1 = q_done q" "q_credit q1 = q_credit q" "q_conf q1 = q_conf q"
    "q_desc_wb q1 = q_desc_wb q" "q_cidx q1 = ucast (wb_cidx (q_desc_wb q))"
    by (auto simp: descq_wb_credit_def Let_def split: if_splits)
  have "reqs_ok q1"
    using assms(1) by (simp add: reqs_ok_def same)
  obtain fin rest c where st: "settle (cr + q_credit q) (q_pend_list q) = (fin, rest, c)"
    by (metis surj_pair)
  have "q' = q \<or> q' = req_update_pend q1 cr"
    using assms(2,3) cr by (auto simp: descq_mm_n_h2c_wb_def Let_def split: if_splits prod.splits)
  then show ?thesis
    using req_update_pend_settle [OF \<open>reqs_ok q1\<close>, of cr] cr st same by auto
qed

lemma settle_sets:
  "settle credit cbs = (fin, rest, c) \<Longrightarrow> \<forall>cb\<in>set cbs. cb_offset cb = req_count cb \<Longrightarrow>
     \<forall>cb\<in>set (fin @ rest). cb_offset cb = req_count cb"
  by (induction credit cbs arbitrary: fin rest c rule: settle.induct)
    (auto simp: Let_def split: if_splits prod.splits)

lemma writeback_inv:
  assumes "tx_inv (q, subs)" and "descq_mm_n_h2c_wb E vf xdev q e = (rv, xdev', q', e')"
    and "rv \<noteq> Inl OOPS"
  shows "tx_inv (q', subs)"
proof -
  have inv: "work_ok q" "tx_ok q" "reqs_ok q" "hw_wb_ok q" "pend_full q" "done_clean q"
    "subs = map rid (q_done q @ q_pend_list q @ q_work_list q)"
    using assms(1) by (simp_all add: tx_inv_def work_ok_def tx_ok_def)
  have tx: "tx_ok q'"
    using mm_n_h2c_wb_tx [OF inv(2,4) assms(2,3)] .
  consider "q' = q" | cr q1 fin rest c where
      "descq_wb_credit q (ucast (wb_cidx (q_desc_wb q))) = (cr, q1)"
      "settle (cr + q_credit q) (q_pend_list q) = (fin, rest, c)"
      "q' = q1\<lparr>q_pend_list := rest, q_done := q_done q @ map req_finished fin, q_credit := c\<rparr>"
      "q_cidx q1 = ucast (wb_cidx (q_desc_wb q))" "q_conf q1 = q_conf q" "q_desc_wb q1 = q_desc_wb q"
      "q_work_list q1 = q_work_list q"
    using mm_n_h2c_wb_run [OF inv(3) assms(2,3)] by blast
  then show ?thesis
  proof cases
    case 1
    then show ?thesis
      using assms(1) by simp
  next
    case 2
    have "work_ok q'"
      using tx inv(1) 2 by (simp add: work_ok_def queue_blen_def)
    moreover have "hw_wb_ok q'"
      using inv(4) 2 by (simp add: hw_wb_ok_def Let_def)
    moreover have "pend_full q'" "done_clean q'"
      using settle_sets [OF 2(2)] inv(5,6) 2(3)
      by (auto simp: pend_full_def done_clean_def req_finished_def)
    moreover have "subs = map rid (q_done q' @ q_pend_list q' @ q_work_list q')"
      using settle_rids [OF 2(2)] inv(7) 2(3,7) by (simp add: req_finished_def o_def)
    ultimately show ?thesis
      by (simp add: tx_inv_def)
  qed
qed

lemma tx_step_inv:
  assumes "tx_step E vf s t" and "tx_inv s"
  shows "tx_inv t"
  using assms
proof cases
  case (queue_request q cb subs)
  then have "rid cb \<notin> rid ` set (q_work_list q @ q_pend_list q)"
    using assms(2) by (auto simp: tx_inv_def)
  then show ?thesis
    using queue_request assms(2) work_ok_queue [of q cb]
    by (auto simp: tx_inv_def hw_wb_ok_def pend_full_def done_clean_def Let_def outstanding_def)
next
  case (worker q e rv q' e' subs)
  then show ?thesis
    using wrk_proc_inv [of q subs E vf e rv q' e'] assms(2) by simp
next
  case (device wb q subs)
  moreover have "outstanding (q\<lparr>q_desc_wb := wb\<rparr>) = outstanding q"
    "queue_blen (q\<lparr>q_desc_wb := wb\<rparr>) = queue_blen q"
    by (simp_all add: outstanding_def queue_blen_def)
  ultimately show ?thesis
    using assms(2) ring_mem_ok_cong [of "q\<lparr>q_desc_wb := wb\<rparr>" q]
    by (simp add: tx_inv_def work_ok_def tx_ok_def ring_ok_def credit_ok_def owed_def reqs_ok_def
        pend_full_def done_clean_def)
next
  case (writeback xdev q e rv xdev' q' e' subs)
  then show ?thesis
    using writeback_inv [of q subs E vf xdev e rv xdev' q' e'] assms(2) by simp
qed

interpretation tx: machine "tx_step E vf" tx_inv
  by unfold_locales (rule tx_step_inv)

section \<open>A request that times out\<close>

text \<open>
  A blocking submitter that gives up takes its request off the list it is on
  (\<open>qdma_sg_req_submit\<close>), whether or not the device still works on its descriptors.
\<close>

definition req_timed_out :: "qdma_descq \<Rightarrow> qdma_sg_req \<Rightarrow> qdma_descq" where
  "req_timed_out descq cb =
     descq\<lparr>q_work_list := list_del_req (rid cb) (q_work_list descq),
           q_pend_list := list_del_req (rid cb) (q_pend_list descq)\<rparr>"

text \<open>
  C40: After a pending request has timed out, the descriptors it left in the ring are credited
  to the request behind it: that request is reported as finished, without error, when the
  device has consumed as many descriptors as it has, although these were the descriptors of
  the request that timed out.
\<close>

theorem timeout_credits_next:
  assumes "reqs_ok q" and "q_pend_list q = [cb1, cb2]" and "q_credit q = 0"
    and "0 < cb_desc_nr cb2" and "cb_desc_nr cb2 \<le> cb_desc_nr cb1"
  shows "q_done (req_update_pend (req_timed_out q cb1) (cb_desc_nr cb2)) = q_done q @ [req_finished cb2]
    \<and> (cb_desc_nr cb2 < cb_desc_nr cb1 \<longrightarrow> q_done (req_update_pend q (cb_desc_nr cb2)) = q_done q)"
proof -
  have "rid cb1 \<noteq> rid cb2" "rid cb1 \<notin> rid ` set (q_work_list q)"
    using assms(1,2) by (auto simp: reqs_ok_def)
  then have q1: "req_timed_out q cb1 = q\<lparr>q_pend_list := [cb2]\<rparr>"
    using assms(2) list_del_req_notin by (simp add: req_timed_out_def) (simp add: list_del_req_def)
  have "reqs_ok (q\<lparr>q_pend_list := [cb2]\<rparr>)"
    using assms(1,2) by (auto simp: reqs_ok_def)
  then show ?thesis
    using assms req_update_pend_settle [of q "cb_desc_nr cb2"]
    by (auto simp: q1 req_update_pend_settle)
qed

section \<open>Concrete runs\<close>

definition sample_idle :: qdma_descq where
  "sample_idle = sample_mm\<lparr>q_work_list := []\<rparr>"

lemma sample_idle_ok: "work_ok sample_idle" "hw_wb_ok sample_idle"
  by (simp_all add: work_ok_def tx_ok_def ring_ok_def ring_mem_ok_def credit_ok_def reqs_ok_def
      owed_def outstanding_def hw_wb_ok_def Let_def sample_idle_def sample_simps)

theorem timeout_credits_next_witness:
  "q_done (req_update_pend (req_timed_out
       (sample_idle\<lparr>q_pend_list := [sample_req 4608\<lparr>cb_desc_nr := 2\<rparr>,
                                 sample_req 4608\<lparr>rid := 2, cb_desc_nr := 1\<rparr>]\<rparr>)
       (sample_req 4608\<lparr>cb_desc_nr := 2\<rparr>)) 1) = [req_finished (sample_req 4608\<lparr>rid := 2, cb_desc_nr := 1\<rparr>)]"
  using timeout_credits_next [of "sample_idle\<lparr>q_pend_list := [sample_req 4608\<lparr>cb_desc_nr := 2\<rparr>,
      sample_req 4608\<lparr>rid := 2, cb_desc_nr := 1\<rparr>]\<rparr>"]
  by (simp add: reqs_ok_def sample_idle_def sample_simps)

end
