(* ===== verification/Qdma_Io.thy ===== *)
theory Qdma_Io
  imports Qdma_Export Qdma_Tx_Machine
begin

text \<open>
  Submitting a request to a queue and waiting for it (\<open>qdma_sg_req_submit\<close> and
  \<open>qdma_sg_req_submit_st_c2h\<close> of \<open>libqdma/libqdma_export.c\<close>), the dump of a queue's contexts that
  a read request that timed out performs, the clean-up of a device (\<open>qdma_device_cleanup\<close> of
  \<open>libqdma/qdma_device.c\<close>), and the start and end of the library.

  What other threads do while a submitter sleeps is a parameter \<open>world\<close>, a function on the state
  of the library and the environment: nothing is assumed about it here. A request whose control
  block has \<open>done\<close> set is on the list \<open>q_done\<close> of its queue. The text a dump prints is not
  represented, only the registers it reads.
\<close>

section \<open>The kernel's mapping of scatter lists\<close>

text \<open>
  \<open>pci_map_sg\<close> gives the mapped entries, or \<open>None\<close> for 0; the first argument is the direction
  (\<open>DMA_FROM_DEVICE\<close> when true).
\<close>

record 'e sg_if =
  sg_map :: "bool \<Rightarrow> scatterlist list \<Rightarrow> 'e \<Rightarrow> scatterlist list option \<times> 'e"
  sg_unmap :: "bool \<Rightarrow> scatterlist list \<Rightarrow> 'e \<Rightarrow> 'e"

definition clear_cb :: "qdma_sg_req \<Rightarrow> qdma_sg_req" where
  "clear_cb req = req\<lparr>cb_desc_nr := 0, cb_offset := 0, cb_done := False, cb_status := None\<rparr>"

lemma clear_cb_simps [simp]:
  "rid (clear_cb req) = rid req" "req_count (clear_cb req) = req_count req" "req_sgt (clear_cb req) = req_sgt req"
  "(clear_cb req)\<lparr>req_sgt := req_sgt req\<rparr> = clear_cb req" "cb_desc_nr (clear_cb req) = 0"
  "req_dma_mapped (clear_cb req) = req_dma_mapped req" "req_fp_done (clear_cb req) = req_fp_done req"
  by (simp_all add: clear_cb_def)

definition req_done_of :: "qdma_descq \<Rightarrow> qdma_sg_req \<Rightarrow> qdma_sg_req option" where
  "req_done_of descq req = find (\<lambda>cb. rid cb = rid req) (q_done descq)"

definition upd_queue :: "(qdma_descq \<Rightarrow> qdma_descq) \<Rightarrow> bool \<times> nat \<Rightarrow> qsys \<Rightarrow> qsys" where
  "upd_queue f p S = S\<lparr>s_xdev := put_queue (s_xdev S) p (f (queue_at (s_xdev S) p))\<rparr>"

section \<open>Dumping a queue\<close>

definition qdma_queue_dump :: "'e env \<Rightarrow> qsys \<Rightarrow> nat \<Rightarrow> bool \<Rightarrow> 'e \<Rightarrow> hw_descq_context res \<times> 'e" where
  "qdma_queue_dump E S i buf e =
     (case qdma_device_get_descq_by_id (Some (s_xdev S)) i False of
        Inl err \<Rightarrow> (Inl err, e)
      | Inr None \<Rightarrow> (Inl EINVAL, e)
      | Inr (Some p) \<Rightarrow>
          if \<not> buf then (Inl EINVAL, e)
          else let descq = queue_at (s_xdev S) p;
                   ((rv, ctxt), e) = qdma_descq_context_read E (q_qidx_hw descq) (qc_st (q_conf descq)) (qc_c2h (q_conf descq)) e
               in (case rv of Inl err \<Rightarrow> Inl err | Inr _ \<Rightarrow> Inr ctxt, e))"

section \<open>Reading from a streaming queue\<close>

text \<open>
  The result: the bytes read and their number, whether the lock of the receive queue is still
  held, the system and the environment. The list of such a request is not mapped: the length of
  an entry is its \<open>length\<close>, for which the model uses the same field as for the mapped length.
\<close>

definition rx_copy_data ::
  "'e env \<Rightarrow> (u64 \<Rightarrow> nat \<Rightarrow> u8) \<Rightarrow> bool \<times> nat \<Rightarrow> qdma_sg_req \<Rightarrow> qsys \<Rightarrow> 'e
     \<Rightarrow> (u32 \<times> u8 list list) res \<times> bool \<times> qsys \<times> 'e" where
  "rx_copy_data E page p req S e =
     (case qdma_descq_rxq_read E page (queue_at (s_xdev S) p) (map sg_dma_len (req_sgt req)) e of
        (rv, locked, descq, e) \<Rightarrow> (rv, locked, S\<lparr>s_xdev := put_queue (s_xdev S) p descq\<rparr>, e))"

definition qdma_sg_req_submit_st_c2h ::
  "'e env \<Rightarrow> (u64 \<Rightarrow> nat \<Rightarrow> u8) \<Rightarrow> (qsys \<times> 'e \<Rightarrow> qsys \<times> 'e) \<Rightarrow> bool \<times> nat \<Rightarrow> qdma_sg_req \<Rightarrow> qsys \<Rightarrow> 'e
     \<Rightarrow> (u32 \<times> u8 list list) res \<times> bool \<times> qsys \<times> 'e" where
  "qdma_sg_req_submit_st_c2h E page world p req S e =
     (let descq = queue_at (s_xdev S) p;
          avail = rxq_dlen (q_rx_queue descq)
      in if req_count req \<le> avail then rx_copy_data E page p (req\<lparr>cb_offset := req_count req\<rparr>) S e
         else if \<not> q_online descq then (Inl EINVAL, False, S, e)
         else let req = req\<lparr>cb_offset := req_count req - avail\<rparr>;
                  S = upd_queue (\<lambda>d. d\<lparr>q_pend_list := q_pend_list d @ [req]\<rparr>) p S
              in if req_fp_done req then (Inr (0, []), False, S, e)
                 else let (S, e) = world (S, e)
                      in if req_done_of (queue_at (s_xdev S) p) req \<noteq> None then rx_copy_data E page p req S e
                         else let descq = queue_at (s_xdev S) p;
                                  (buf, e) = env_kmalloc E 2048 e;
                                  qmax = unat (qd_qmax (the (x_dev_priv (s_xdev S))));
                                  e = snd (qdma_queue_dump E S (unat (qc_qidx (q_conf descq)) + qmax) buf e);
                                  S = upd_queue (\<lambda>d. req_timed_out d req) p S
                              in rx_copy_data E page p req S e)"

section \<open>Submitting a request\<close>

text \<open>Waking the worker of a queue reads through \<open>wrkthp\<close>: a NULL pointer there is a fault.\<close>

definition sg_req_wait ::
  "(qsys \<times> 'e \<Rightarrow> qsys \<times> 'e) \<Rightarrow> bool \<times> nat \<Rightarrow> qdma_sg_req \<Rightarrow> qsys \<Rightarrow> 'e \<Rightarrow> u32 res \<times> qsys \<times> 'e" where
  "sg_req_wait world p req S e =
     (let (S, e) = world (S, e)
      in case req_done_of (queue_at (s_xdev S) p) req of
           None \<Rightarrow> (Inl EIO, upd_queue (\<lambda>d. req_timed_out d req) p S, e)
         | Some cb \<Rightarrow> (if cb_status cb \<noteq> None \<or> cb_offset cb = 0 then Inl EIO else Inr (cb_offset cb), S, e))"

definition qdma_sg_req_submit ::
  "'e env \<Rightarrow> 'e sg_if \<Rightarrow> (u64 \<Rightarrow> nat \<Rightarrow> u8) \<Rightarrow> (qsys \<times> 'e \<Rightarrow> qsys \<times> 'e) \<Rightarrow> nat \<Rightarrow> qdma_sg_req \<Rightarrow> qsys \<Rightarrow> 'e
     \<Rightarrow> (u32 \<times> u8 list list) res \<times> bool \<times> qsys \<times> 'e" where
  "qdma_sg_req_submit E K page world i req S e =
     (case qdma_device_get_descq_by_id (Some (s_xdev S)) i True of
        Inl err \<Rightarrow> (Inl err, False, S, e)
      | Inr None \<Rightarrow> (Inl EINVAL, False, S, e)
      | Inr (Some p) \<Rightarrow>
          let descq = queue_at (s_xdev S) p; c2h = qc_c2h (q_conf descq) in
          if (req_write req \<and> c2h) \<or> (\<not> req_write req \<and> \<not> c2h) then (Inl EINVAL, False, S, e)
          else let req = clear_cb req in
          if qc_st (q_conf descq) \<and> c2h then qdma_sg_req_submit_st_c2h E page world p req S e
          else case (if req_dma_mapped req then (Some (req_sgt req), e) else sg_map K c2h (req_sgt req) e) of
                 (None, e) \<Rightarrow> (Inl EIO, False, S, e)
               | (Some sgl, e) \<Rightarrow>
                   if \<not> q_online descq then (Inl EINVAL, False, S, e)
                   else let cb = req\<lparr>req_sgt := sgl\<rparr>;
                            S = upd_queue (\<lambda>d. d\<lparr>q_work_list := q_work_list d @ [cb]\<rparr>) p S
                        in if q_wrkthp descq = None then (Inl OOPS, False, S, e)
                           else if req_fp_done req then (Inr (0, []), False, S, e)
                           else let (rv, S, e) = sg_req_wait world p cb S e;
                                    e = (if req_dma_mapped req then e else sg_unmap K c2h (req_sgt req) e)
                                in (case rv of Inl err \<Rightarrow> Inl err | Inr n \<Rightarrow> Inr (n, []), False, S, e))"

section \<open>Cleaning up a device\<close>

text \<open>
  The two loops over the queues. A fault (\<open>Inl OOPS\<close>: a list entry removed twice, a page freed
  through NULL) ends the run.
\<close>

definition seq_res :: "('s \<Rightarrow> unit res \<times> 's) \<Rightarrow> unit res \<times> 's \<Rightarrow> unit res \<times> 's" where
  "seq_res f = (\<lambda>(rv, s). if rv = Inl OOPS then (rv, s) else f s)"

definition stop_enabled :: "'e env \<Rightarrow> bool \<Rightarrow> nat \<Rightarrow> qsys \<times> 'e \<Rightarrow> unit res \<times> qsys \<times> 'e" where
  "stop_enabled E c2h i = (\<lambda>(S, e).
     (case x_dev_priv (s_xdev S) of
        None \<Rightarrow> (Inl OOPS, S, e)
      | Some qdev \<Rightarrow>
          if q_enabled (descq_at qdev (c2h, i))
          then qdma_queue_stop E S (if c2h then i + unat (qd_qmax qdev) else i) e
          else (Inr (), S, e)))"

definition cleanup_queue :: "'e env \<Rightarrow> bool \<Rightarrow> nat \<Rightarrow> qsys \<times> 'e \<Rightarrow> unit res \<times> qsys \<times> 'e" where
  "cleanup_queue E c2h i = (\<lambda>(S, e).
     (case qdma_descq_cleanup E (s_xdev S) (queue_at (s_xdev S) (c2h, i)) e of
        (rv, xdev, descq, e) \<Rightarrow> (rv, S\<lparr>s_xdev := put_queue xdev (c2h, i) descq\<rparr>, e)))"

definition for_queues ::
  "(bool \<Rightarrow> nat \<Rightarrow> qsys \<times> 'e \<Rightarrow> unit res \<times> qsys \<times> 'e) \<Rightarrow> nat \<Rightarrow> qsys \<times> 'e \<Rightarrow> unit res \<times> qsys \<times> 'e" where
  "for_queues f n s =
     fold (\<lambda>i. seq_res (f True i)) [0..<n] (fold (\<lambda>i. seq_res (f False i)) [0..<n] (Inr (), s))"

text \<open>
  The second argument of the channel functions is a \<open>bool\<close>: \<open>DMA_TO_DEVICE\<close> (1) and
  \<open>DMA_FROM_DEVICE\<close> (2) are both true.
\<close>

definition stop_channels :: "'e env \<Rightarrow> bool \<Rightarrow> xlnx_dma_dev \<Rightarrow> 'e \<Rightarrow> 'e" where
  "stop_channels E vf xdev e =
     (if \<not> vf \<and> x_func_id xdev = 0
      then init_channels E (\<lambda>i. hw_mm_channel_disable E i True) (dc_c2h_channel_max (x_conf xdev))
             (init_channels E (\<lambda>i. hw_mm_channel_disable E i True) (dc_h2c_channel_max (x_conf xdev)) e)
      else e)"

definition qdma_device_cleanup ::
  "'e env \<Rightarrow> bool \<Rightarrow> 'e msix_if \<Rightarrow> qsys \<Rightarrow> 'e \<Rightarrow> unit res \<times> qsys \<times> 'e" where
  "qdma_device_cleanup E vf M S e =
     (case x_dev_priv (s_xdev S) of
        None \<Rightarrow> (Inr (), S, e)
      | Some qdev \<Rightarrow>
          let n = unat (qd_qmax qdev) in
          case for_queues (stop_enabled E) n (S, e) of
            (Inl OOPS, S, e) \<Rightarrow> (Inl OOPS, S, e)
          | (_, S, e) \<Rightarrow>
              let xdev = s_xdev S;
                  e = intr_teardown M xdev e;
                  (rv, e) = (if x_intr_coal_en xdev then intr_ring_teardown E xdev e else (Inr (), e))
              in if rv = Inl OOPS then (rv, S, e)
                 else let (rv, S, e) = for_queues (cleanup_queue E) n (S, stop_channels E vf xdev e)
                      in if rv = Inl OOPS then (rv, S, e)
                         else (Inr (), S\<lparr>s_xdev := (s_xdev S)\<lparr>x_dev_priv := None\<rparr>\<rparr>, e))"

section \<open>Start and end of the library\<close>

definition QDMA_REQ_OPAQUE_SIZE :: nat where
  [simp]: "QDMA_REQ_OPAQUE_SIZE = 64"

text \<open>The size of a control block depends on the kernel; the result of \<open>qdma_threads_create\<close> is not used.\<close>

definition libqdma_init ::
  "nat \<Rightarrow> bool \<Rightarrow> nat \<Rightarrow> bool \<Rightarrow> (nat \<Rightarrow> bool) \<Rightarrow> (nat \<Rightarrow> bool) \<Rightarrow> qdma_threads \<Rightarrow> unit res \<times> qdma_threads" where
  "libqdma_init cb_size vf cpus alloc create_wrk create_wb T =
     (if cb_size > QDMA_REQ_OPAQUE_SIZE then (Inl (Other (- 1)), T)
      else (Inr (), snd (qdma_threads_create vf cpus alloc create_wrk create_wb T)))"

definition libqdma_exit :: "qdma_threads \<Rightarrow> qdma_threads" where
  "libqdma_exit T = qdma_threads_destroy T"

section \<open>What a blocking submission returns\<close>

text \<open>A request keeps its number of bytes through every step of a transmit queue.\<close>

definition count_of :: "nat \<Rightarrow> u32 \<Rightarrow> qdma_descq \<Rightarrow> bool" where
  "count_of r c q \<longleftrightarrow> (\<forall>cb\<in>set (q_done q @ q_pend_list q @ q_work_list q). rid cb = r \<longrightarrow> req_count cb = c)"

lemma commit_count:
  assumes "count_of r c q" and "cb \<in> set (q_work_list q)"
  shows "count_of r c (req_commit q cb ring pidx n k)"
  using assms by (auto simp: count_of_def req_commit_def req_submitted_def update_req_def list_del_req_def Let_def)

lemma proc_request_count:
  assumes "count_of r c q" and "cb \<in> set (q_work_list q)" and "qdma_descq_proc_sgt_request E vf q cb e = (rv, q', e')"
  shows "count_of r c q'"
proof -
  have "q' = q \<or> (\<exists>ring pidx n k. q' = req_commit q cb ring pidx n k)"
    using assms(3)
    by (auto simp: qdma_descq_proc_sgt_request_def descq_mm_proc_request_def descq_proc_st_h2c_request_def Let_def
        split: if_splits sum.splits option.splits desc_ring.splits prod.splits)
  then show ?thesis
    using assms(1) commit_count [OF assms(1,2)] by auto
qed

lemma req_done_count:
  assumes "count_of r c q" and "rid cb = r \<longrightarrow> req_count cb = c"
  shows "count_of r c (qdma_sgt_req_done q cb err)"
  using assms by (auto simp: count_of_def qdma_sgt_req_done_def list_del_req_def Let_def)

lemma wrk_loop_count:
  "count_of r c q \<Longrightarrow> wrk_loop E vf q rs e = (rv, q', e') \<Longrightarrow> count_of r c q'"
proof (induction E vf q rs e arbitrary: rv q' e' rule: wrk_loop.induct)
  case (2 E vf q a rs e)
  show ?case
  proof (cases "find (\<lambda>cb. rid cb = a) (q_work_list q)")
    case None
    then show ?thesis
      using "2.prems" by simp
  next
    case (Some cb)
    then have cb: "cb \<in> set (q_work_list q)"
      by (auto simp: find_Some_iff)
    obtain rv1 q1 e1 where run: "qdma_descq_proc_sgt_request E vf q cb e = (rv1, q1, e1)"
      by (rule prod_cases3)
    let ?q2 = "case rv1 of Inl err \<Rightarrow> qdma_sgt_req_done q1 cb (Some err) | Inr _ \<Rightarrow> q1"
    have q1: "count_of r c q1"
      using proc_request_count [OF "2.prems"(1) cb run] .
    moreover have "rid cb = r \<longrightarrow> req_count cb = c"
      using "2.prems"(1) cb by (simp add: count_of_def)
    ultimately have q2: "count_of r c ?q2"
      by (simp add: req_done_count split: sum.split)
    show ?thesis
      using "2.prems"(2) "2.IH" [OF Some run [symmetric] refl _ refl _ q2] Some run q1 q2
      by (auto simp: Let_def split: if_splits)
  qed
qed simp

lemma settle_count:
  "settle credit cbs = (fin, rest, k) \<Longrightarrow> \<forall>cb\<in>set cbs. rid cb = r \<longrightarrow> req_count cb = c \<Longrightarrow>
     \<forall>cb\<in>set (fin @ rest). rid cb = r \<longrightarrow> req_count cb = c"
  by (induction credit cbs arbitrary: fin rest k rule: settle.induct)
    (auto simp: Let_def split: if_splits prod.splits)

lemma writeback_count:
  assumes "count_of r c q" and "settle k (q_pend_list q) = (fin, rest, k')" and "q_work_list q1 = q_work_list q"
  shows "count_of r c (q1\<lparr>q_pend_list := rest, q_done := q_done q @ map req_finished fin, q_credit := k'\<rparr>)"
proof -
  have "\<forall>cb\<in>set (fin @ rest). rid cb = r \<longrightarrow> req_count cb = c"
    by (rule settle_count [OF assms(2)]) (use assms(1) in \<open>simp add: count_of_def\<close>)
  then show ?thesis
    using assms(1,3) by (auto simp: count_of_def req_finished_def)
qed

lemma tx_step_count:
  assumes "tx_step E vf s t" and "tx_inv s \<and> r \<in> set (snd s) \<and> count_of r c (fst s)"
  shows "tx_inv t \<and> r \<in> set (snd t) \<and> count_of r c (fst t)"
  using assms
proof cases
  case (queue_request q cb subs)
  then have "rid cb \<noteq> r"
    using assms(2) by auto
  then show ?thesis
    using queue_request assms tx_step_inv [OF assms(1)] by (auto simp: count_of_def)
next
  case (worker q e rv q' e' subs)
  then show ?thesis
    using assms(2) tx_step_inv [OF assms(1)] wrk_loop_count by (fastforce simp: qdma_thread_wrk_proc_def)
next
  case (device wb q subs)
  then show ?thesis
    using assms(2) tx_step_inv [OF assms(1)] by (auto simp: count_of_def)
next
  case (writeback xdev q e rv xdev' q' e' subs)
  then have "reqs_ok q"
    using assms(2) by (simp add: tx_inv_def work_ok_def tx_ok_def)
  then have "count_of r c q'"
    using writeback_count mm_n_h2c_wb_run [OF _ writeback(3,4)] assms(2) writeback(1) by auto
  then show ?thesis
    using assms(2) tx_step_inv [OF assms(1)] writeback by simp
qed

interpretation counted: machine "tx_step E vf" "\<lambda>s. tx_inv s \<and> r \<in> set (snd s) \<and> count_of r c (fst s)"
  by unfold_locales (rule tx_step_count)

lemma put_queue_at:
  assumes "x_dev_priv xdev = Some qdev" and "snd p < length (if fst p then qd_c2h_descq qdev else qd_h2c_descq qdev)"
  shows "queue_at (put_queue xdev p d) p = d"
  using assms by (simp add: queue_at_def put_queue_def put_descq_def descq_at_def split: if_splits)

lemma submit_no_worker:
  assumes "qdma_device_get_descq_by_id (Some (s_xdev S)) i True = Inr (Some p)" "queue_at (s_xdev S) p = q" "q_wrkthp q = None"
    and "q_online q" "req_write req \<longleftrightarrow> \<not> qc_c2h (q_conf q)" "\<not> (qc_st (q_conf q) \<and> qc_c2h (q_conf q))"
    and "(if req_dma_mapped req then (Some (req_sgt req), e) else sg_map K (qc_c2h (q_conf q)) (req_sgt req) e) = (Some sgl, e1)"
  shows "qdma_sg_req_submit E K page world i req S e =
    (Inl OOPS, False, upd_queue (\<lambda>d. d\<lparr>q_work_list := q_work_list d @ [(clear_cb req)\<lparr>req_sgt := sgl\<rparr>]\<rparr>) p S, e1)"
  using assms by (cases "req_dma_mapped req") (auto simp: qdma_sg_req_submit_def Let_def)

lemma submit_result:
  assumes q: "qdma_device_get_descq_by_id (Some (s_xdev S)) i True = Inr (Some p)" "x_dev_priv (s_xdev S) = Some qdev"
      "snd p < length (if fst p then qd_c2h_descq qdev else qd_h2c_descq qdev)" "queue_at (s_xdev S) p = q"
    and thread: "q_wrkthp q \<noteq> None"
    and run: "q_online q" "req_write req \<longleftrightarrow> \<not> qc_c2h (q_conf q)" "\<not> (qc_st (q_conf q) \<and> qc_c2h (q_conf q))"
    and req: "\<not> req_fp_done req" "req_count req \<noteq> 0" "rid req \<notin> set subs"
    and dma: "(if req_dma_mapped req then (Some (req_sgt req), e) else sg_map K (qc_c2h (q_conf q)) (req_sgt req) e) = (Some sgl, e1)"
    and cb: "cb = (clear_cb req)\<lparr>req_sgt := sgl\<rparr>" "req_wf (queue_blen q) cb"
    and inv: "tx_inv (q, subs)"
    and world: "world (upd_queue (\<lambda>d. d\<lparr>q_work_list := q_work_list d @ [cb]\<rparr>) p S, e1) = (S2, e2)"
      "x_dev_priv (s_xdev S2) = Some qdev2" "snd p < length (if fst p then qd_c2h_descq qdev2 else qd_h2c_descq qdev2)"
      "(tx_step E vf)\<^sup>*\<^sup>* (q\<lparr>q_work_list := q_work_list q @ [cb]\<rparr>, subs @ [rid req]) (queue_at (s_xdev S2) p, subs2)"
    and e3: "e3 = (if req_dma_mapped req then e2 else sg_unmap K (qc_c2h (q_conf q)) (req_sgt req) e2)"
  shows "if rid req \<in> rid ` set (q_done (queue_at (s_xdev S2) p))
    then qdma_sg_req_submit E K page world i req S e = (Inr (req_count req, []), False, S2, e3)
    else \<exists>S3. qdma_sg_req_submit E K page world i req S e = (Inl EIO, False, S3, e3)
      \<and> rid req \<notin> rid ` set (q_work_list (queue_at (s_xdev S3) p) @ q_pend_list (queue_at (s_xdev S3) p))"
proof -
  let ?q2 = "queue_at (s_xdev S2) p"
  let ?q1 = "q\<lparr>q_work_list := q_work_list q @ [cb]\<rparr>"
  have id: "rid cb = rid req" "req_count cb = req_count req" "cb_desc_nr cb = 0"
    using cb(1) by simp_all
  have "tx_inv (?q1, subs @ [rid req])"
    using tx_step_inv [OF tx_step.queue_request [OF cb(2), of subs] inv] req(3) id by simp
  moreover have "count_of (rid req) (req_count req) ?q1"
    using inv req(3) id by (auto simp: count_of_def tx_inv_def image_iff)
  ultimately have "tx_inv (?q2, subs2)" "count_of (rid req) (req_count req) ?q2"
    using counted.reach_inv [OF world(4), of "rid req" "req_count req"] by simp_all
  then have clean: "cb_status c = None \<and> cb_offset c = req_count req" if "c \<in> set (q_done ?q2)" "rid c = rid req" for c
    using that by (auto simp: tx_inv_def done_clean_def count_of_def)
  have done_of: "case req_done_of ?q2 cb of None \<Rightarrow> rid req \<notin> rid ` set (q_done ?q2)
      | Some c \<Rightarrow> c \<in> set (q_done ?q2) \<and> rid c = rid req \<and> rid req \<in> rid ` set (q_done ?q2)"
    using id(1) by (auto simp: req_done_of_def find_None_iff find_Some_iff image_iff split: option.split) (metis nth_mem)
  have wait: "qdma_sg_req_submit E K page world i req S e =
      (case req_done_of ?q2 cb of None \<Rightarrow> (Inl EIO, False, upd_queue (\<lambda>d. req_timed_out d cb) p S2, e3)
       | Some c \<Rightarrow> (Inr (req_count req, []), False, S2, e3))"
    using q(1,4) thread run req(1-2) world(1) clean done_of dma e3 cb(1)
    by (auto simp: qdma_sg_req_submit_def sg_req_wait_def Let_def upd_queue_def split: option.split)
  have "queue_at (s_xdev (upd_queue (\<lambda>d. req_timed_out d cb) p S2)) p = req_timed_out ?q2 cb"
    using put_queue_at [OF world(2,3)] by (simp add: upd_queue_def)
  then show ?thesis
    using wait done_of id(1) by (auto simp: req_timed_out_def list_del_req_def split: option.splits)
qed

text \<open>
  C2: A blocking request to a memory-mapped or host-to-card queue that is running, in a
  consistent state. Let the worker, the device and the write-backs do what they do, in any
  order, while the submitter sleeps. When the request has been completed by then the
  submitter gets its full byte count; when it has not, the submitter gets \<open>-EIO\<close> and the
  request is on no list of the queue any more. Nothing else can be returned. (A queue that has
  no worker thread faults when the submitter wakes the worker.)
\<close>

theorem blocking_submit_result:
  assumes q: "qdma_device_get_descq_by_id (Some (s_xdev S)) i True = Inr (Some p)" "x_dev_priv (s_xdev S) = Some qdev"
      "snd p < length (if fst p then qd_c2h_descq qdev else qd_h2c_descq qdev)" "queue_at (s_xdev S) p = q"
    and run: "q_online q" "req_write req \<longleftrightarrow> \<not> qc_c2h (q_conf q)" "\<not> (qc_st (q_conf q) \<and> qc_c2h (q_conf q))"
    and req: "req_dma_mapped req" "\<not> req_fp_done req" "req_count req \<noteq> 0"
      "req_wf (queue_blen q) (clear_cb req)" "rid req \<notin> set subs"
    and inv: "tx_inv (q, subs)"
    and world: "world (upd_queue (\<lambda>d. d\<lparr>q_work_list := q_work_list d @ [clear_cb req]\<rparr>) p S, e) = (S2, e2)"
      "x_dev_priv (s_xdev S2) = Some qdev2" "snd p < length (if fst p then qd_c2h_descq qdev2 else qd_h2c_descq qdev2)"
      "(tx_step E vf)\<^sup>*\<^sup>* (q\<lparr>q_work_list := q_work_list q @ [clear_cb req]\<rparr>, subs @ [rid req]) (queue_at (s_xdev S2) p, subs2)"
  shows "if q_wrkthp q = None
    then qdma_sg_req_submit E K page world i req S e =
      (Inl OOPS, False, upd_queue (\<lambda>d. d\<lparr>q_work_list := q_work_list d @ [clear_cb req]\<rparr>) p S, e)
    else if rid req \<in> rid ` set (q_done (queue_at (s_xdev S2) p))
    then qdma_sg_req_submit E K page world i req S e = (Inr (req_count req, []), False, S2, e2)
    else \<exists>S3. qdma_sg_req_submit E K page world i req S e = (Inl EIO, False, S3, e2)
      \<and> rid req \<notin> rid ` set (q_work_list (queue_at (s_xdev S3) p) @ q_pend_list (queue_at (s_xdev S3) p))"
proof (cases "q_wrkthp q = None")
  case True
  then show ?thesis
    using submit_no_worker [OF q(1,4) _ run, of e K "req_sgt req" e E page world] req(1) by simp
next
  case False
  show ?thesis
    unfolding if_not_P [OF False]
    by (rule submit_result [OF q False run req(2,3,5) _ _ _ inv, of e K "req_sgt req" e "clear_cb req"]) (use req(1,4) world in simp_all)
qed

section \<open>A concrete submission\<close>

definition sample_reply :: "qdma_descq \<Rightarrow> qdma_descq \<times> qdma_descq \<times> qdma_descq" where
  "sample_reply q =
     (let q1 = fst (snd (qdma_thread_wrk_proc ram_env False q (\<lambda>_. 0)));
          q2 = q1\<lparr>q_desc_wb := (q_desc_wb q1)\<lparr>wb_cidx := ucast (q_pidx q1)\<rparr>\<rparr>
      in (q1, q2, fst (snd (snd (descq_mm_n_h2c_wb ram_env False sample_xdev q2 (\<lambda>_. 0))))))"

definition sample_io_sys :: qsys where
  "sample_io_sys = sample_sys\<lparr>s_xdev := put_queue (s_xdev sample_sys) (False, 0) sample_idle\<rparr>"

definition sample_world :: "qsys \<times> 'e \<Rightarrow> qsys \<times> 'e" where
  "sample_world = (\<lambda>(S, e). (upd_queue (\<lambda>d. snd (snd (sample_reply d))) (False, 0) S, e))"

text \<open>A request of the sample's id on the sample queue is carried out, when its run is as it should be.\<close>

definition sample_served :: "qdma_sg_req \<Rightarrow> bool" where
  "sample_served cb \<longleftrightarrow>
     (let (q1, q2, q3) = sample_reply (sample_idle\<lparr>q_work_list := [cb]\<rparr>)
      in hw_wb_ok q2 \<and> map rid (q_done q3) = [1] \<and> fst (descq_mm_n_h2c_wb ram_env False sample_xdev q2 (\<lambda>_. 0)) \<noteq> Inl OOPS)"

lemma sample_req_served: "sample_served (sample_req 0)"
  by code_simp

lemma sample_cb: "clear_cb (sample_req 0) = sample_req 0"
  by (simp add: clear_cb_def sample_req_def)

lemma sample_io_facts:
  "q_online sample_idle" "q_wrkthp sample_idle = Some 0" "\<not> qc_c2h (q_conf sample_idle)" "q_work_list sample_idle = []"
  "req_write (sample_req 0)" "req_dma_mapped (sample_req 0)" "\<not> req_fp_done (sample_req 0)"
  "req_count (sample_req 0) = 4608" "rid (sample_req 0) = 1"
  by (simp_all add: sample_idle_def sample_simps)

lemma sample_io_queue:
  "qdma_device_get_descq_by_id (Some (s_xdev sample_io_sys)) 0 True = Inr (Some (False, 0))"
  "map_option (\<lambda>qdev. length (qd_h2c_descq qdev)) (x_dev_priv (s_xdev sample_io_sys)) = Some 2"
  by code_simp+

definition sample_sg :: "'e sg_if" where
  "sample_sg = \<lparr>sg_map = (\<lambda>c2h sgl. Pair (Some sgl)), sg_unmap = (\<lambda>c2h sgl. id)\<rparr>"

lemma sample_idle_inv: "tx_inv (sample_idle, [])"
  using sample_idle_ok by (simp add: tx_inv_def pend_full_def done_clean_def sample_idle_def sample_simps)

lemma sample_tx_run:
  assumes "sample_served cb"
  shows "(tx_step ram_env False)\<^sup>*\<^sup>* (sample_idle\<lparr>q_work_list := [cb]\<rparr>, [1])
      (snd (snd (sample_reply (sample_idle\<lparr>q_work_list := [cb]\<rparr>))), [1])"
    and "1 \<in> rid ` set (q_done (snd (snd (sample_reply (sample_idle\<lparr>q_work_list := [cb]\<rparr>)))))"
proof -
  let ?q = "sample_idle\<lparr>q_work_list := [cb]\<rparr>"
  obtain q1 q2 q3 where r: "sample_reply ?q = (q1, q2, q3)"
    by (rule prod_cases3)
  then have q: "q1 = fst (snd (qdma_thread_wrk_proc ram_env False ?q (\<lambda>_. 0)))"
    "q2 = q1\<lparr>q_desc_wb := (q_desc_wb q1)\<lparr>wb_cidx := ucast (q_pidx q1)\<rparr>\<rparr>"
    "q3 = fst (snd (snd (descq_mm_n_h2c_wb ram_env False sample_xdev q2 (\<lambda>_. 0))))"
    by (auto simp: sample_reply_def Let_def)
  have ok: "hw_wb_ok q2" "map rid (q_done q3) = [1]" "fst (descq_mm_n_h2c_wb ram_env False sample_xdev q2 (\<lambda>_. 0)) \<noteq> Inl OOPS"
    using assms r by (simp_all add: sample_served_def)
  have "tx_step ram_env False (?q, [1]) (q1, [1])"
    using q(1) tx_step.worker [of ram_env False ?q "\<lambda>_. 0"] by (metis prod.collapse)
  moreover have "tx_step ram_env False (q1, [1]) (q2, [1])"
    using tx_step.device [of _ q1] ok(1) q(2) by simp
  moreover have "tx_step ram_env False (q2, [1]) (q3, [1])"
    using tx_step.writeback [of ram_env False sample_xdev q2 "\<lambda>_. 0"] ok(3) q(3)
    by (metis fst_conv snd_conv prod.collapse)
  ultimately show "(tx_step ram_env False)\<^sup>*\<^sup>* (?q, [1]) (snd (snd (sample_reply ?q)), [1])"
    using r by (auto intro: converse_rtranclp_into_rtranclp)
  show "1 \<in> rid ` set (q_done (snd (snd (sample_reply ?q))))"
    using ok(2) r by (metis list.set_intros(1) list.set_map snd_conv)
qed

lemma sample_world_run:
  fixes e :: 'e
  obtains qdev S2 qdev2 where "x_dev_priv (s_xdev sample_io_sys) = Some qdev" "0 < length (qd_h2c_descq qdev)"
    "queue_at (s_xdev sample_io_sys) (False, 0) = sample_idle"
    "sample_world (upd_queue (\<lambda>d. d\<lparr>q_work_list := q_work_list d @ [cb]\<rparr>) (False, 0) sample_io_sys, e) = (S2, e)"
    "queue_at (s_xdev S2) (False, 0) = snd (snd (sample_reply (sample_idle\<lparr>q_work_list := [cb]\<rparr>)))"
    "x_dev_priv (s_xdev S2) = Some qdev2" "0 < length (qd_h2c_descq qdev2)"
proof -
  let ?p = "(False, 0 :: nat)" and ?q = "sample_idle\<lparr>q_work_list := [cb]\<rparr>"
  obtain qdev where dev: "x_dev_priv (s_xdev sample_io_sys) = Some qdev" "length (qd_h2c_descq qdev) = 2"
    using sample_io_queue(2) by auto
  have at: "queue_at (s_xdev sample_io_sys) ?p = sample_idle"
    using dev by (auto simp: sample_io_sys_def put_queue_def queue_at_def put_descq_def descq_at_def)
  define S1 where "S1 = upd_queue (\<lambda>d. d\<lparr>q_work_list := q_work_list d @ [cb]\<rparr>) ?p sample_io_sys"
  have S1: "queue_at (s_xdev S1) ?p = ?q" "\<exists>qdev. x_dev_priv (s_xdev S1) = Some qdev \<and> length (qd_h2c_descq qdev) = 2"
    using dev at put_queue_at [OF dev(1), of ?p]
    by (simp_all add: S1_def upd_queue_def put_queue_def put_descq_def sample_idle_def)
  then obtain qdev1 where dev1: "x_dev_priv (s_xdev S1) = Some qdev1" "length (qd_h2c_descq qdev1) = 2"
    by blast
  define S2 where "S2 = upd_queue (\<lambda>d. snd (snd (sample_reply d))) ?p S1"
  have S2: "queue_at (s_xdev S2) ?p = snd (snd (sample_reply ?q))"
    "x_dev_priv (s_xdev S2) = Some (put_descq qdev1 ?p (snd (snd (sample_reply ?q))))"
    using put_queue_at [OF dev1(1), of ?p] dev1 S1(1) by (simp_all add: S2_def upd_queue_def put_queue_def)
  show thesis
    by (rule that [OF dev(1) _ at _ S2]) (use dev dev1 in \<open>simp_all add: sample_world_def S1_def S2_def put_descq_def\<close>)
qed

theorem blocking_submit_result_witness:
  "\<exists>S2. qdma_sg_req_submit ram_env sample_sg (\<lambda>_ _. 0) sample_world 0 (sample_req 0) sample_io_sys (\<lambda>_. 0) =
     (Inr (4608, []), False, S2, \<lambda>_. 0)"
proof -
  obtain qdev S2 qdev2 where w: "x_dev_priv (s_xdev sample_io_sys) = Some qdev" "0 < length (qd_h2c_descq qdev)"
    "queue_at (s_xdev sample_io_sys) (False, 0) = sample_idle"
    "sample_world (upd_queue (\<lambda>d. d\<lparr>q_work_list := q_work_list d @ [sample_req 0]\<rparr>) (False, 0) sample_io_sys, \<lambda>_ :: u32. 0 :: u32) = (S2, \<lambda>_. 0)"
    "queue_at (s_xdev S2) (False, 0) = snd (snd (sample_reply (sample_idle\<lparr>q_work_list := [sample_req 0]\<rparr>)))"
    "x_dev_priv (s_xdev S2) = Some qdev2" "0 < length (qd_h2c_descq qdev2)"
    by (rule sample_world_run [of "sample_req 0" "\<lambda>_. 0"])
  have wf: "req_wf (queue_blen sample_idle) (sample_req 0)"
    by (simp add: req_wf_def queue_blen_def sample_idle_def sample_simps word_le_nat_alt exI [of _ 0])
  note run = sample_tx_run [OF sample_req_served]
  show ?thesis
    using blocking_submit_result [of sample_io_sys 0 "(False, 0)" qdev sample_idle "sample_req 0" "[]" sample_world "\<lambda>_. 0" S2 "\<lambda>_. 0"
        qdev2 ram_env False "[1]" sample_sg "\<lambda>_ _. 0"]
      sample_io_queue(1) w wf sample_idle_inv run
    by (auto simp: sample_cb sample_io_facts)
qed

end
