(* ===== verification/Qdma_Mbox.thy ===== *)
theory Qdma_Mbox
  imports Qdma_Context
begin

text \<open>
  The mailbox between a physical function and its virtual functions: the messages
  (\<open>libqdma/qdma_mbox.h\<close>) and their transport over the mailbox registers (\<open>mbox_send\<close>,
  \<open>mbox_read\<close>, \<open>qdma_mbox_send_msg\<close> of \<open>libqdma/qdma_mbox.c\<close>). A message is the list of its 16
  words, the member \<open>raw\<close> of the union \<open>mbox_msg\<close>; the other members are views of these words,
  with the bit-field layout of the x86 ABI (first field in the low bits). The first argument
  \<open>vf\<close> of an operation tells which of the two builds of the driver it belongs to.
\<close>

section \<open>Registers\<close>

definition MBOX_BASE :: "bool \<Rightarrow> u32" where
  [simp]: "MBOX_BASE vf = (if vf then 0x1000 else 0x2400)"

definition MBOX_FN_STATUS :: u32 where
  [simp]: "MBOX_FN_STATUS = 0x0"

definition F_MBOX_FN_STATUS_IN_MSG :: u32 where
  [simp]: "F_MBOX_FN_STATUS_IN_MSG = 0x1"

definition F_MBOX_FN_STATUS_OUT_MSG :: u32 where
  [simp]: "F_MBOX_FN_STATUS_OUT_MSG = push_bit 1 1"

definition F_MBOX_FN_STATUS_ACK :: u32 where
  [simp]: "F_MBOX_FN_STATUS_ACK = push_bit 2 1"

definition G_MBOX_FN_STATUS_SRC :: "u32 \<Rightarrow> u32" where
  [simp]: "G_MBOX_FN_STATUS_SRC x = drop_bit 4 x AND 0xFF"

definition MBOX_FN_CMD :: u32 where
  [simp]: "MBOX_FN_CMD = 0x4"

definition F_MBOX_FN_CMD_SND :: u32 where
  [simp]: "F_MBOX_FN_CMD_SND = 1"

definition F_MBOX_FN_CMD_RCV :: u32 where
  [simp]: "F_MBOX_FN_CMD_RCV = push_bit 1 1"

definition MBOX_FN_TARGET :: u32 where
  [simp]: "MBOX_FN_TARGET = 0xC"

definition V_MBOX_FN_TARGET_ID :: "u32 \<Rightarrow> u32" where
  [simp]: "V_MBOX_FN_TARGET_ID x = x AND 0xFF"

definition MBOX_PF_ACK_BASE :: u32 where
  [simp]: "MBOX_PF_ACK_BASE = 0x20"

definition MBOX_PF_ACK_STEP :: u32 where
  [simp]: "MBOX_PF_ACK_STEP = 4"

definition MBOX_PF_ACK_COUNT :: nat where
  [simp]: "MBOX_PF_ACK_COUNT = 8"

definition MBOX_IN_MSG_BASE :: u32 where
  [simp]: "MBOX_IN_MSG_BASE = 0x40"

definition MBOX_OUT_MSG_BASE :: u32 where
  [simp]: "MBOX_OUT_MSG_BASE = 0x80"

definition MBOX_MSG_REG_MAX :: nat where
  [simp]: "MBOX_MSG_REG_MAX = 16"

section \<open>Messages\<close>

type_synonym mbox_msg = "u32 list"

datatype mbox_msg_op =
  MBOX_OP_HELLO | MBOX_OP_BYE | MBOX_OP_RESET | MBOX_OP_FMAP | MBOX_OP_INTR_CTXT
  | MBOX_OP_QCTXT_WRT | MBOX_OP_QCTXT_RD | MBOX_OP_QCTXT_CLR

primrec op_num :: "mbox_msg_op \<Rightarrow> 4 word" where
  "op_num MBOX_OP_HELLO = 1"
| "op_num MBOX_OP_BYE = 2"
| "op_num MBOX_OP_RESET = 3"
| "op_num MBOX_OP_FMAP = 4"
| "op_num MBOX_OP_INTR_CTXT = 5"
| "op_num MBOX_OP_QCTXT_WRT = 6"
| "op_num MBOX_OP_QCTXT_RD = 7"
| "op_num MBOX_OP_QCTXT_CLR = 8"

definition mbox_op :: "4 word \<Rightarrow> mbox_msg_op option" where
  "mbox_op n = find (\<lambda>op. op_num op = n)
     [MBOX_OP_HELLO, MBOX_OP_BYE, MBOX_OP_RESET, MBOX_OP_FMAP, MBOX_OP_INTR_CTXT,
      MBOX_OP_QCTXT_WRT, MBOX_OP_QCTXT_RD, MBOX_OP_QCTXT_CLR]"

text \<open>Status codes; a handler reports them negated, in the signed byte of the header.\<close>

definition MBOX_STATUS_GOOD :: u8 where
  [simp]: "MBOX_STATUS_GOOD = 0"

definition MBOX_STATUS_ERR :: u8 where
  [simp]: "MBOX_STATUS_ERR = 1"

definition MBOX_STATUS_EINVAL :: u8 where
  [simp]: "MBOX_STATUS_EINVAL = 2"

subsection \<open>The header word\<close>

record mbox_msg_hdr =
  hdr_op :: "4 word"
  hdr_sent :: bool
  hdr_rcv :: bool
  hdr_ack :: bool
  hdr_wait :: bool
  hdr_src :: u8
  hdr_dst :: u8
  hdr_status :: u8

definition hdr_word :: "mbox_msg_hdr \<Rightarrow> u32" where
  "hdr_word h =
     ucast (hdr_op h) OR push_bit 4 (of_bool (hdr_sent h)) OR push_bit 5 (of_bool (hdr_rcv h))
     OR push_bit 6 (of_bool (hdr_ack h)) OR push_bit 7 (of_bool (hdr_wait h))
     OR push_bit 8 (ucast (hdr_src h)) OR push_bit 16 (ucast (hdr_dst h)) OR push_bit 24 (ucast (hdr_status h))"

definition hdr_of :: "u32 \<Rightarrow> mbox_msg_hdr" where
  "hdr_of w =
     \<lparr>hdr_op = ucast w, hdr_sent = bit w 4, hdr_rcv = bit w 5, hdr_ack = bit w 6, hdr_wait = bit w 7,
      hdr_src = ucast (drop_bit 8 w), hdr_dst = ucast (drop_bit 16 w), hdr_status = ucast (drop_bit 24 w)\<rparr>"

definition msg_hdr :: "mbox_msg \<Rightarrow> mbox_msg_hdr" where
  "msg_hdr m = hdr_of (m ! 0)"

definition upd_hdr :: "(mbox_msg_hdr \<Rightarrow> mbox_msg_hdr) \<Rightarrow> mbox_msg \<Rightarrow> mbox_msg" where
  "upd_hdr f m = m[0 := hdr_word (f (msg_hdr m))]"

subsection \<open>The bodies\<close>

definition fmap_qbase :: "mbox_msg \<Rightarrow> u32" where
  "fmap_qbase m = m ! 1"

definition fmap_qmax :: "mbox_msg \<Rightarrow> u32" where
  "fmap_qmax m = m ! 2"

text \<open>
  The queue context message: its flag word with the queue number, and the context in words 2 to
  14. (The interrupt fields of \<open>mbox_msg_qctxt\<close> are never used.)
\<close>

record mbox_msg_qctxt =
  qx_clear :: bool
  qx_verify :: bool
  qx_c2h :: bool
  qx_st :: bool
  qx_qid :: u16

definition qctxt_word :: "mbox_msg_qctxt \<Rightarrow> u32" where
  "qctxt_word q =
     of_bool (qx_clear q) OR push_bit 1 (of_bool (qx_verify q)) OR push_bit 2 (of_bool (qx_c2h q))
     OR push_bit 3 (of_bool (qx_st q)) OR push_bit 16 (ucast (qx_qid q))"

definition msg_qctxt :: "mbox_msg \<Rightarrow> mbox_msg_qctxt" where
  "msg_qctxt m =
     \<lparr>qx_clear = bit (m ! 1) 0, qx_verify = bit (m ! 1) 1, qx_c2h = bit (m ! 1) 2,
      qx_st = bit (m ! 1) 3, qx_qid = ucast (drop_bit 16 (m ! 1))\<rparr>"

definition context_words :: "hw_descq_context \<Rightarrow> u32 list" where
  "context_words c = ctx_sw c @ ctx_prefetch c @ ctx_wrb c @ ctx_hw c @ ctx_cr c"

definition msg_context :: "mbox_msg \<Rightarrow> hw_descq_context" where
  "msg_context m =
     \<lparr>ctx_sw = take 4 (drop 2 m), ctx_prefetch = take 2 (drop 6 m), ctx_wrb = take 4 (drop 8 m),
      ctx_hw = take 2 (drop 12 m), ctx_cr = take 1 (drop 14 m)\<rparr>"

definition put_context :: "hw_descq_context \<Rightarrow> mbox_msg \<Rightarrow> mbox_msg" where
  "put_context c m = take 2 m @ context_words c @ drop (2 + length (context_words c)) m"

definition zero_msg :: mbox_msg where
  "zero_msg = replicate MBOX_MSG_REG_MAX 0"

section \<open>Transport\<close>

definition pf_mbox_clear_func_ack :: "'e env \<Rightarrow> u8 \<Rightarrow> 'e \<Rightarrow> 'e" where
  "pf_mbox_clear_func_ack E func_id e =
     env_writel E (MBOX_BASE False + MBOX_PF_ACK_BASE + of_nat (unat func_id div 32) * MBOX_PF_ACK_STEP)
       (push_bit (unat func_id mod 32) 1) e"

text \<open>The result carries the caller's message, whose \<open>sent\<close> flag changes.\<close>

definition mbox_send :: "'e env \<Rightarrow> bool \<Rightarrow> mbox_msg \<Rightarrow> bool \<Rightarrow> 'e \<Rightarrow> (unit res \<times> mbox_msg) \<times> 'e" where
  "mbox_send E vf m wait e =
     (let m = upd_hdr (hdr_sent_update (\<lambda>_. False)) m;
          fn_id = hdr_dst (msg_hdr m);
          status = MBOX_BASE vf + MBOX_FN_STATUS;
          e = (if vf then e
               else env_writel E (MBOX_BASE vf + MBOX_FN_TARGET) (V_MBOX_FN_TARGET_ID (ucast fn_id)) e);
          (busy, e) =
            (if wait
             then case hw_monitor_reg E status F_MBOX_FN_STATUS_OUT_MSG 0 100 (5000 * 1000) e of
                    (Inl _, e) \<Rightarrow> (True, snd (env_readl E status e))
                  | (Inr _, e) \<Rightarrow> (False, e)
             else (False, e))
      in if busy then ((Inl EAGAIN, m), e)
         else let (v, e) = env_readl E status e in
              if v AND F_MBOX_FN_STATUS_OUT_MSG \<noteq> 0 then ((Inl EAGAIN, m), e)
              else let e = write_regs E (MBOX_BASE vf + MBOX_OUT_MSG_BASE) m e;
                       e = (if vf then e else pf_mbox_clear_func_ack E fn_id e);
                       e = env_writel E (MBOX_BASE vf + MBOX_FN_CMD) F_MBOX_FN_CMD_SND e
                   in ((Inr (), upd_hdr (hdr_sent_update (\<lambda>_. True)) m), e))"

definition mbox_read :: "'e env \<Rightarrow> bool \<Rightarrow> mbox_msg \<Rightarrow> bool \<Rightarrow> 'e \<Rightarrow> (unit res \<times> mbox_msg) \<times> 'e" where
  "mbox_read E vf m wait e =
     (let m = upd_hdr (hdr_rcv_update (\<lambda>_. False)) m;
          status = MBOX_BASE vf + MBOX_FN_STATUS;
          (none, e) =
            (if wait
             then case hw_monitor_reg E status F_MBOX_FN_STATUS_IN_MSG F_MBOX_FN_STATUS_IN_MSG 1000 (5000 * 1000) e of
                    (Inl _, e) \<Rightarrow> (True, e)
                  | (Inr _, e) \<Rightarrow> (False, e)
             else (False, e))
      in if none then ((Inl EAGAIN, m), e)
         else let (v, e) = env_readl E status e in
              if v = 0xffffffff \<or> v AND F_MBOX_FN_STATUS_IN_MSG = 0 then ((Inl EAGAIN, m), e)
              else let from_id = G_MBOX_FN_STATUS_SRC v;
                       e = (if vf then e else env_writel E (MBOX_BASE vf + MBOX_FN_TARGET) from_id e);
                       (m, e) = read_regs E (MBOX_BASE vf + MBOX_IN_MSG_BASE) MBOX_MSG_REG_MAX e;
                       m = (if vf then m else upd_hdr (hdr_src_update (\<lambda>_. ucast from_id)) m);
                       e = env_writel E (MBOX_BASE vf + MBOX_FN_CMD) F_MBOX_FN_CMD_RCV e
                   in ((Inr (), m), e))"

text \<open>
  A request and its reply. \<open>reply\<close> tells what the mailbox handler has stored in \<open>m_req\<close> when the
  wait ends, by the reply or after five seconds; it starts from the cleared buffer.
\<close>

definition status_res :: "u8 \<Rightarrow> int res" where
  "status_res s = (if sint s < 0 then Inl (Status (sint s)) else Inr (sint s))"

definition qdma_mbox_send_msg ::
  "'e env \<Rightarrow> bool \<Rightarrow> (mbox_msg \<Rightarrow> 'e \<Rightarrow> mbox_msg \<times> 'e) \<Rightarrow> mbox_msg \<Rightarrow> bool \<Rightarrow> 'e
     \<Rightarrow> (int res \<times> mbox_msg) \<times> 'e" where
  "qdma_mbox_send_msg E vf reply m wait_resp e =
     (let m = upd_hdr (\<lambda>h. if wait_resp then h\<lparr>hdr_ack := False, hdr_wait := True\<rparr>
                           else h\<lparr>hdr_wait := False\<rparr>) m
      in case mbox_send E vf m True e of
           ((Inl err, m), e) \<Rightarrow> ((Inl err, m), e)
         | ((Inr _, m), e) \<Rightarrow>
             if \<not> wait_resp then ((Inr 0, m), e)
             else let (m_req, e) = reply zero_msg e; hdr = msg_hdr m_req in
                  if hdr_op hdr = hdr_op (msg_hdr m) \<and> hdr_ack hdr
                  then ((status_res (hdr_status hdr), m_req), e)
                  else ((Inl ETIME, m), e))"

section \<open>Messages and their words\<close>

lemma hdr_of_word [simp]: "hdr_of (hdr_word h) = h"
proof -
  have "hdr_op (hdr_of (hdr_word h)) = hdr_op h"
    by (rule bit_word_eqI) (auto simp: hdr_of_def hdr_word_def bit_simps dest: bit_imp_le_length)
  moreover have "hdr_src (hdr_of (hdr_word h)) = hdr_src h"
    by (rule bit_word_eqI) (auto simp: hdr_of_def hdr_word_def bit_simps dest: bit_imp_le_length)
  moreover have "hdr_dst (hdr_of (hdr_word h)) = hdr_dst h"
    by (rule bit_word_eqI) (auto simp: hdr_of_def hdr_word_def bit_simps dest: bit_imp_le_length)
  moreover have "hdr_status (hdr_of (hdr_word h)) = hdr_status h"
    by (rule bit_word_eqI) (auto simp: hdr_of_def hdr_word_def bit_simps dest: bit_imp_le_length)
  moreover have "hdr_sent (hdr_of (hdr_word h)) = hdr_sent h" "hdr_rcv (hdr_of (hdr_word h)) = hdr_rcv h"
    "hdr_ack (hdr_of (hdr_word h)) = hdr_ack h" "hdr_wait (hdr_of (hdr_word h)) = hdr_wait h"
    by (auto simp: hdr_of_def hdr_word_def bit_simps dest: bit_imp_le_length)
  ultimately show ?thesis
    by simp
qed

lemma hdr_word_of [simp]: "hdr_word (hdr_of w) = w"
proof (rule bit_word_eqI)
  fix n assume "n < LENGTH(32)"
  then consider "n < 4" | "n = 4" | "n = 5" | "n = 6" | "n = 7" | "8 \<le> n \<and> n < 16" | "16 \<le> n \<and> n < 24"
    | "24 \<le> n \<and> n < 32"
    by fastforce
  then show "bit (hdr_word (hdr_of w)) n = bit w n"
    by cases (auto simp: hdr_of_def hdr_word_def bit_simps)
qed


lemma msg_hdr_upd [simp]: "m \<noteq> [] \<Longrightarrow> msg_hdr (upd_hdr f m) = f (msg_hdr m)"
  by (simp add: msg_hdr_def upd_hdr_def)

lemma upd_hdr_simps [simp]:
  "length (upd_hdr f m) = length m" "upd_hdr f m = [] \<longleftrightarrow> m = []"
  "0 < i \<Longrightarrow> upd_hdr f m ! i = m ! i" "0 < n \<Longrightarrow> drop n (upd_hdr f m) = drop n m"
  by (simp_all add: upd_hdr_def)

lemma upd_hdr_upd [simp]: "upd_hdr f (upd_hdr g m) = upd_hdr (f \<circ> g) m"
  by (cases m) (simp_all add: upd_hdr_def msg_hdr_def)

lemma upd_hdr_id: "upd_hdr id m = m" "upd_hdr (\<lambda>h. h) m = m"
  by (cases m; simp add: upd_hdr_def msg_hdr_def)+

lemma length_zero_msg [simp]: "length zero_msg = 16"
  by (simp add: zero_msg_def)

lemma msg_context_upd [simp]: "msg_context (upd_hdr f m) = msg_context m"
  by (simp add: msg_context_def)

lemma msg_qctxt_upd [simp]: "msg_qctxt (upd_hdr f m) = msg_qctxt m"
  by (simp add: msg_qctxt_def)

lemma msg_qctxt_word: "m ! 1 = qctxt_word q \<Longrightarrow> msg_qctxt m = q"
proof -
  assume "m ! 1 = qctxt_word q"
  then have word: "msg_qctxt m = (let w = qctxt_word q in
      \<lparr>qx_clear = bit w 0, qx_verify = bit w 1, qx_c2h = bit w 2, qx_st = bit w 3,
       qx_qid = ucast (drop_bit 16 w)\<rparr>)"
    by (simp only: msg_qctxt_def Let_def)
  have "qx_qid (msg_qctxt m) = qx_qid q"
    by (rule bit_word_eqI) (auto simp: word qctxt_word_def bit_simps)
  moreover have "qx_clear (msg_qctxt m) = qx_clear q" "qx_verify (msg_qctxt m) = qx_verify q"
    "qx_c2h (msg_qctxt m) = qx_c2h q" "qx_st (msg_qctxt m) = qx_st q"
    by (auto simp: word qctxt_word_def bit_simps)
  ultimately show ?thesis
    by simp
qed

text \<open>A context of the sizes of \<open>hw_descq_context\<close>.\<close>

definition context_ok :: "hw_descq_context \<Rightarrow> bool" where
  "context_ok c \<longleftrightarrow> length (ctx_sw c) = 4 \<and> length (ctx_prefetch c) = 2 \<and> length (ctx_wrb c) = 4
     \<and> length (ctx_hw c) = 2 \<and> length (ctx_cr c) = 1"

lemma put_context_ok:
  assumes "context_ok c" and "length m = 16"
  shows "length (put_context c m) = 16" and "msg_context (put_context c m) = c"
    and "put_context c m ! 0 = m ! 0" and "put_context c m ! 1 = m ! 1"
    and "msg_hdr (put_context c m) = msg_hdr m" and "msg_qctxt (put_context c m) = msg_qctxt m"
proof -
  have len: "length (context_words c) = 13"
    using assms(1) by (simp add: context_ok_def context_words_def)
  show "length (put_context c m) = 16"
    using len assms(2) by (simp add: put_context_def)
  show nth: "put_context c m ! 0 = m ! 0" "put_context c m ! 1 = m ! 1"
    using assms(2) by (simp_all add: put_context_def nth_append)
  then show "msg_hdr (put_context c m) = msg_hdr m" and "msg_qctxt (put_context c m) = msg_qctxt m"
    by (simp_all add: msg_hdr_def msg_qctxt_def)
  show "msg_context (put_context c m) = c"
    using assms by (simp add: put_context_def context_words_def msg_context_def context_ok_def)
qed

section \<open>What goes over the registers\<close>

lemma length_mbox_read: "mbox_read E vf m wait e = ((Inr (), m'), e') \<Longrightarrow> length m' = 16"
proof -
  have "read_regs E reg 16 e = (ms, e'') \<Longrightarrow> length ms = 16" for reg e ms e''
    by (metis fst_conv length_read_regs)
  then show "mbox_read E vf m wait e = ((Inr (), m'), e') \<Longrightarrow> length m' = 16"
    by (auto simp: mbox_read_def Let_def split: prod.splits sum.splits if_splits)
qed

text \<open>
  A message that is sent goes out as its sixteen words, in order and with the \<open>sent\<close> flag
  still clear, between the selection of its destination and the clearing of that function's
  acknowledgement (both only in the physical function), and the send command is the last
  write. A message that is not sent, because the outgoing buffer is busy, fails with \<open>-EAGAIN\<close>
  and leaves the outgoing registers alone.
\<close>

theorem mbox_send_writes:
  assumes "m \<noteq> []"
    and "mbox_send (traced E) vf m wait (e, []) = ((rv, m'), e', log)"
    and "dst = hdr_dst (msg_hdr m)"
  shows "(rv = Inr () \<and> m' = upd_hdr (hdr_sent_update (\<lambda>_. True)) m
      \<and> log = (if vf then [] else [(0x240C, ucast dst)])
          @ reg_list (MBOX_BASE vf + MBOX_OUT_MSG_BASE) (upd_hdr (hdr_sent_update (\<lambda>_. False)) m)
          @ (if vf then [] else [(0x2420 + of_nat (unat dst div 32) * 4, push_bit (unat dst mod 32) 1)])
          @ [(MBOX_BASE vf + MBOX_FN_CMD, F_MBOX_FN_CMD_SND)])
    \<or> (rv = Inl EAGAIN \<and> m' = upd_hdr (hdr_sent_update (\<lambda>_. False)) m
      \<and> log = (if vf then [] else [(0x240C, ucast dst)]))"
  using assms
  by (auto simp: mbox_send_def pf_mbox_clear_func_ack_def Let_def comp_def
      split: prod.splits sum.splits if_splits)

theorem mbox_send_writes_witness:
  "\<exists>m' e' log. mbox_send (traced ram_env) True zero_msg False (\<lambda>_. 0, []) = ((Inr (), m'), e', log)
     \<and> last log = (0x1004, 1)"
proof -
  obtain rv m' e' log where run:
    "mbox_send (traced ram_env) True zero_msg False (\<lambda>_. 0, []) = ((rv, m'), e', log)"
    by (metis surj_pair)
  moreover have "rv = Inr ()"
    using run by (auto simp: mbox_send_def Let_def)
  moreover have "zero_msg \<noteq> []"
    by (simp add: zero_msg_def)
  ultimately show ?thesis
    using mbox_send_writes [of zero_msg ram_env True False "\<lambda>_. 0" rv m' e' log] by auto
qed

end
