(* ===== verification/Qdma_Sriov.thy ===== *)
theory Qdma_Sriov
  imports Qdma_Types Qdma_Samples
begin

text \<open>
  The virtual functions of a physical function (\<open>libqdma/qdma_sriov.c\<close>, the part of the
  physical function): switching SR-IOV on and off and the table of the virtual functions that
  have announced themselves. The locale \<open>vf_registry\<close> states what the mailbox relies on.
\<close>

section \<open>Switching SR-IOV on and off\<close>

definition QDMA_PF_MAX :: nat where
  [simp]: "QDMA_PF_MAX = 2"

definition QDMA_VF_MAX :: nat where
  [simp]: "QDMA_VF_MAX = 252"

definition QDMA_FUNC_ID_INVALID :: u16 where
  [simp]: "QDMA_FUNC_ID_INVALID = of_nat (QDMA_PF_MAX + QDMA_VF_MAX)"

text \<open>
  The kernel's SR-IOV interface is a parameter: the number of virtual functions that exist,
  creating them (0 or an error code) and removing them.
\<close>

record 'e pci_iov =
  pci_num_vf :: "'e \<Rightarrow> int"
  pci_enable_sriov :: "int \<Rightarrow> 'e \<Rightarrow> int \<times> 'e"
  pci_disable_sriov :: "'e \<Rightarrow> 'e"

definition xdev_sriov_disable :: "'e pci_iov \<Rightarrow> xlnx_dma_dev \<Rightarrow> 'e \<Rightarrow> xlnx_dma_dev \<times> 'e" where
  "xdev_sriov_disable P xdev e =
     (xdev\<lparr>x_vf_info := None, x_vf_count := 0\<rparr>, pci_disable_sriov P e)"

text \<open>
  \<open>junk\<close> is the old content of the memory that \<open>kmalloc\<close> returns: only the function number of a
  slot is initialised. \<open>vf_count\<close> is a byte, so that it keeps the number of functions modulo 256.
\<close>

definition xdev_sriov_enable ::
  "'e env \<Rightarrow> 'e pci_iov \<Rightarrow> (nat \<Rightarrow> qdma_vf_info) \<Rightarrow> xlnx_dma_dev \<Rightarrow> int \<Rightarrow> 'e
     \<Rightarrow> int res \<times> xlnx_dma_dev \<times> 'e" where
  "xdev_sriov_enable E P junk xdev num_vfs e =
     (if pci_num_vf P e \<noteq> 0 then (Inr (pci_num_vf P e), xdev, e)
      else case env_kmalloc E (nat (num_vfs * 8 mod 2 ^ 64)) e of
             (False, e) \<Rightarrow> (Inl ENOMEM, xdev, e)
           | (True, e) \<Rightarrow>
               let vf = map (\<lambda>i. (junk i)\<lparr>vf_func_id := QDMA_FUNC_ID_INVALID\<rparr>) [0..<nat num_vfs];
                   xdev = xdev\<lparr>x_vf_count := of_int num_vfs, x_vf_info := Some vf\<rparr>;
                   (rv, e) = pci_enable_sriov P num_vfs e
               in if rv \<noteq> 0 then let (xdev, e) = xdev_sriov_disable P xdev e in (Inr 0, xdev, e)
                  else (Inr num_vfs, xdev, e))"

text \<open>\<open>hndl_ok\<close> is the result of \<open>xdev_check_hndl\<close>.\<close>

definition qdma_device_sriov_config ::
  "'e env \<Rightarrow> 'e pci_iov \<Rightarrow> (nat \<Rightarrow> qdma_vf_info) \<Rightarrow> unit res \<Rightarrow> xlnx_dma_dev option \<Rightarrow> int \<Rightarrow> 'e
     \<Rightarrow> int res \<times> xlnx_dma_dev option \<times> 'e" where
  "qdma_device_sriov_config E P junk hndl_ok dev num_vfs e =
     (case dev of
        None \<Rightarrow> (Inl EINVAL, dev, e)
      | Some xdev \<Rightarrow>
          (case hndl_ok of
             Inl err \<Rightarrow> (Inl err, dev, e)
           | Inr _ \<Rightarrow>
               if num_vfs = 0 then
                 let (xdev, e) = xdev_sriov_disable P xdev e in (Inr 0, Some xdev, e)
               else case xdev_sriov_enable E P junk xdev num_vfs e of
                      (Inl err, xdev, e) \<Rightarrow> (Inl err, Some xdev, e)
                    | (Inr _, xdev, e) \<Rightarrow> (Inr (uint (x_vf_count xdev)), Some xdev, e)))"

section \<open>The table of virtual functions\<close>

text \<open>The slots a loop from 0 to \<open>vf_count\<close> visits, and writing them back.\<close>

definition vf_slots :: "xlnx_dma_dev \<Rightarrow> qdma_vf_info list" where
  "vf_slots xdev =
     (case x_vf_info xdev of None \<Rightarrow> [] | Some vf \<Rightarrow> take (unat (x_vf_count xdev)) vf)"

definition set_vf_slots :: "xlnx_dma_dev \<Rightarrow> qdma_vf_info list \<Rightarrow> xlnx_dma_dev" where
  "set_vf_slots xdev vs = xdev\<lparr>x_vf_info := map_option (\<lambda>vf. vs @ drop (length vs) vf) (x_vf_info xdev)\<rparr>"

definition offline_slot :: "u8 \<Rightarrow> qdma_vf_info \<Rightarrow> qdma_vf_info" where
  "offline_slot func_id v =
     (if vf_func_id v = ucast func_id
      then v\<lparr>vf_func_id := QDMA_FUNC_ID_INVALID, vf_qbase := 0, vf_qmax := 0\<rparr> else v)"

definition xdev_sriov_vf_offline :: "xlnx_dma_dev \<Rightarrow> u8 \<Rightarrow> xlnx_dma_dev" where
  "xdev_sriov_vf_offline xdev func_id =
     set_vf_slots xdev (map (offline_slot func_id) (vf_slots xdev))"

primrec online_scan :: "u8 \<Rightarrow> qdma_vf_info list \<Rightarrow> qdma_vf_info list option" where
  "online_scan func_id [] = None"
| "online_scan func_id (v # vs) =
     (if vf_func_id v = QDMA_FUNC_ID_INVALID then Some (v\<lparr>vf_func_id := ucast func_id\<rparr> # vs)
      else map_option (Cons v) (online_scan func_id vs))"

definition xdev_sriov_vf_online :: "xlnx_dma_dev \<Rightarrow> u8 \<Rightarrow> unit res \<times> xlnx_dma_dev" where
  "xdev_sriov_vf_online xdev func_id =
     (case online_scan func_id (vf_slots xdev) of
        Some vs \<Rightarrow> (Inr (), set_vf_slots xdev vs)
      | None \<Rightarrow> (Inl EINVAL, xdev))"

primrec fmap_scan :: "u8 \<Rightarrow> u16 \<Rightarrow> u16 \<Rightarrow> qdma_vf_info list \<Rightarrow> qdma_vf_info list option" where
  "fmap_scan func_id qbase qmax [] = None"
| "fmap_scan func_id qbase qmax (v # vs) =
     (if vf_func_id v = ucast func_id then Some (v\<lparr>vf_qbase := qbase, vf_qmax := qmax\<rparr> # vs)
      else map_option (Cons v) (fmap_scan func_id qbase qmax vs))"

definition xdev_sriov_vf_fmap :: "xlnx_dma_dev \<Rightarrow> u8 \<Rightarrow> u16 \<Rightarrow> u16 \<Rightarrow> unit res \<times> xlnx_dma_dev" where
  "xdev_sriov_vf_fmap xdev func_id qbase qmax =
     (case fmap_scan func_id qbase qmax (vf_slots xdev) of
        Some vs \<Rightarrow> (Inr (), set_vf_slots xdev vs)
      | None \<Rightarrow> (Inl EINVAL, xdev))"

section \<open>The registry the table implements\<close>

text \<open>
  What a user of the table relies on: a partial map from functions to queue ranges, and a
  number of free slots. \<open>valid f\<close> says that \<open>f\<close> is a number a function can have.
\<close>

locale vf_registry =
  fixes ok :: "'s \<Rightarrow> bool" and valid :: "'f \<Rightarrow> bool"
    and lookup :: "'s \<Rightarrow> 'f \<Rightarrow> 'r option" and room :: "'s \<Rightarrow> nat"
    and online :: "'f \<Rightarrow> 's \<Rightarrow> 's option" and offline :: "'f \<Rightarrow> 's \<Rightarrow> 's"
    and fmap :: "'f \<Rightarrow> 'r \<Rightarrow> 's \<Rightarrow> 's option"
  assumes online_full: "ok s \<Longrightarrow> room s = 0 \<Longrightarrow> online f s = None"
    and online_room: "ok s \<Longrightarrow> valid f \<Longrightarrow> lookup s f = None \<Longrightarrow> 0 < room s \<Longrightarrow>
      \<exists>s'. online f s = Some s' \<and> ok s' \<and> room s' = room s - 1 \<and> (\<exists>r. lookup s' = (lookup s)(f \<mapsto> r))"
    and offline_lookup: "ok s \<Longrightarrow> valid f \<Longrightarrow> ok (offline f s) \<and> lookup (offline f s) = (lookup s)(f := None)"
    and offline_room: "ok s \<Longrightarrow> valid f \<Longrightarrow>
      room (offline f s) = room s + (if lookup s f = None then 0 else 1)"
    and fmap_known: "ok s \<Longrightarrow> valid f \<Longrightarrow> lookup s f \<noteq> None \<Longrightarrow>
      \<exists>s'. fmap f r s = Some s' \<and> ok s' \<and> room s' = room s \<and> lookup s' = (lookup s)(f \<mapsto> r)"
    and fmap_unknown: "ok s \<Longrightarrow> valid f \<Longrightarrow> lookup s f = None \<Longrightarrow> fmap f r s = None"
begin

text \<open>A function that announces itself and then asks for queues gets them, and only it changes.\<close>

lemma hello_fmap:
  assumes "ok s" "valid f" "lookup s f = None" "0 < room s"
  shows "\<exists>s1 s2. online f s = Some s1 \<and> fmap f r s1 = Some s2 \<and> ok s2 \<and> lookup s2 = (lookup s)(f \<mapsto> r)"
proof -
  obtain s1 q where s1: "online f s = Some s1" "ok s1" "lookup s1 = (lookup s)(f \<mapsto> q)"
    using online_room [OF assms] by blast
  moreover obtain s2 where "fmap f r s1 = Some s2" "ok s2" "lookup s2 = (lookup s1)(f \<mapsto> r)"
    using fmap_known [of s1 f r] s1 assms(2) by auto
  ultimately show ?thesis
    by auto
qed

lemma hello_bye:
  assumes "ok s" "valid f" "lookup s f = None" "0 < room s"
  shows "\<exists>s1. online f s = Some s1 \<and> lookup (offline f s1) = lookup s \<and> room (offline f s1) = room s"
proof -
  obtain s1 q where s1: "online f s = Some s1" "ok s1" "lookup s1 = (lookup s)(f \<mapsto> q)" "room s1 = room s - 1"
    using online_room [OF assms] by blast
  then have "lookup (offline f s1) = lookup s"
    using offline_lookup [of s1 f] assms(2,3) by (auto simp: fun_upd_idem)
  moreover have "room (offline f s1) = room s"
    using offline_room [of s1 f] s1 assms(2,4) by simp
  ultimately show ?thesis
    using s1(1) by blast
qed

end

text \<open>The table as a partial map; the range of a function is its queue base and count.\<close>

definition vf_find :: "qdma_vf_info list \<Rightarrow> u8 \<Rightarrow> (u16 \<times> u16) option" where
  "vf_find vs f = map_option (\<lambda>v. (vf_qbase v, vf_qmax v)) (find (\<lambda>v. vf_func_id v = ucast f) vs)"

definition vf_free :: "qdma_vf_info list \<Rightarrow> nat" where
  "vf_free vs = length (filter (\<lambda>v. vf_func_id v = QDMA_FUNC_ID_INVALID) vs)"

definition vf_ids :: "qdma_vf_info list \<Rightarrow> u16 list" where
  "vf_ids vs = filter (\<lambda>i. i \<noteq> QDMA_FUNC_ID_INVALID) (map vf_func_id vs)"

definition vf_valid :: "u8 \<Rightarrow> bool" where
  "vf_valid f \<longleftrightarrow> (ucast f :: u16) \<noteq> QDMA_FUNC_ID_INVALID"

text \<open>A free slot carries the invalid number, which is no function.\<close>

definition vf_lookup :: "qdma_vf_info list \<Rightarrow> u8 \<Rightarrow> (u16 \<times> u16) option" where
  "vf_lookup vs f = (if vf_valid f then vf_find vs f else None)"

lemma ucast_u8_u16_eq [simp]: "(ucast (f :: u8) :: u16) = ucast g \<longleftrightarrow> f = g"
proof -
  have "unat (ucast f :: u16) = unat f" for f :: u8
    by (simp add: unsigned_ucast_eq take_bit_nat_eq_self_iff order_less_le_trans [OF unsigned_less])
  then show ?thesis
    by (metis unsigned_word_eqI)
qed

lemma vf_find_simps [simp]:
  "vf_find [] f = None"
  "vf_find (v # vs) f = (if vf_func_id v = ucast f then Some (vf_qbase v, vf_qmax v) else vf_find vs f)"
  by (simp_all add: vf_find_def)

lemma vf_find_None: "vf_find vs f = None \<longleftrightarrow> (ucast f :: u16) \<notin> vf_func_id ` set vs"
  by (induction vs) auto

lemma vf_free_simps [simp]:
  "vf_free [] = 0"
  "vf_free (v # vs) = (if vf_func_id v = QDMA_FUNC_ID_INVALID then 1 else 0) + vf_free vs"
  by (simp_all add: vf_free_def)

lemma vf_ids_simps [simp]:
  "vf_ids [] = []"
  "vf_ids (v # vs) = (if vf_func_id v = QDMA_FUNC_ID_INVALID then [] else [vf_func_id v]) @ vf_ids vs"
  by (simp_all add: vf_ids_def)

lemma set_vf_ids: "set (vf_ids vs) = vf_func_id ` set vs - {QDMA_FUNC_ID_INVALID}"
  by (auto simp: vf_ids_def)


lemma online_scan_full: "vf_free vs = 0 \<Longrightarrow> online_scan f vs = None"
  by (induction vs) (auto split: if_splits)

lemma online_scan_room:
  assumes "vf_valid f" and "vf_find vs f = None" and "0 < vf_free vs"
  shows "\<exists>vs' r. online_scan f vs = Some vs' \<and> length vs' = length vs \<and> vf_free vs' = vf_free vs - 1
    \<and> (\<forall>g. vf_valid g \<longrightarrow> vf_find vs' g = (if g = f then Some r else vf_find vs g))
    \<and> (distinct (vf_ids vs) \<longrightarrow> distinct (vf_ids vs')) \<and> set (vf_ids vs') \<subseteq> insert (ucast f) (set (vf_ids vs))"
  using assms(2,3)
proof (induction vs)
  case (Cons v vs)
  have valid: "vf_valid g \<Longrightarrow> (ucast g :: u16) \<noteq> QDMA_FUNC_ID_INVALID" for g
    by (simp add: vf_valid_def)
  show ?case
  proof (cases "vf_func_id v = QDMA_FUNC_ID_INVALID")
    case True
    have "(ucast f :: u16) \<notin> set (vf_ids vs)"
      using Cons.prems(1) by (auto simp: set_vf_ids vf_find_None [symmetric] split: if_splits)
    then show ?thesis
      using True assms(1) valid Cons.prems
      by (intro exI [of _ "v\<lparr>vf_func_id := ucast f\<rparr> # vs"] exI [of _ "(vf_qbase v, vf_qmax v)"])
        (auto simp: vf_valid_def simp del: QDMA_FUNC_ID_INVALID_def)
  next
    case False
    then have prems: "vf_find vs f = None" "0 < vf_free vs" and v: "vf_func_id v \<noteq> ucast f"
      using Cons.prems by (simp_all split: if_splits)
    obtain vs' r where "online_scan f vs = Some vs'" "length vs' = length vs" "vf_free vs' = vf_free vs - 1"
      "\<forall>g. vf_valid g \<longrightarrow> vf_find vs' g = (if g = f then Some r else vf_find vs g)"
      "distinct (vf_ids vs) \<longrightarrow> distinct (vf_ids vs')" "set (vf_ids vs') \<subseteq> insert (ucast f) (set (vf_ids vs))"
      using Cons.IH [OF prems] by blast
    then show ?thesis
      using False v
      by (intro exI [of _ "v # vs'"] exI [of _ r])
        (auto simp del: QDMA_FUNC_ID_INVALID_def)
  qed
qed simp

lemma offline_find:
  "vf_valid f \<Longrightarrow> vf_valid g \<Longrightarrow>
     vf_find (map (offline_slot f) vs) g = (if g = f then None else vf_find vs g)"
  by (induction vs) (auto simp: offline_slot_def vf_valid_def simp del: QDMA_FUNC_ID_INVALID_def)

lemma offline_ids:
  "vf_valid f \<Longrightarrow> vf_ids (map (offline_slot f) vs) = filter (\<lambda>i. i \<noteq> ucast f) (vf_ids vs)"
  by (induction vs) (auto simp: offline_slot_def vf_valid_def simp del: QDMA_FUNC_ID_INVALID_def)

lemma offline_free:
  "vf_valid f \<Longrightarrow> distinct (vf_ids vs) \<Longrightarrow>
     vf_free (map (offline_slot f) vs) = vf_free vs + (if ucast f \<in> set (vf_ids vs) then 1 else 0)"
  by (induction vs) (auto simp: offline_slot_def vf_valid_def simp del: QDMA_FUNC_ID_INVALID_def)

lemma vf_find_ids: "vf_valid f \<Longrightarrow> vf_find vs f = None \<longleftrightarrow> ucast f \<notin> set (vf_ids vs)"
  by (auto simp: vf_find_None set_vf_ids vf_valid_def)

lemma fmap_scan_unknown: "vf_find vs f = None \<Longrightarrow> fmap_scan f b m vs = None"
  by (induction vs) (auto split: if_splits)

lemma fmap_scan_known:
  "vf_find vs f \<noteq> None \<Longrightarrow> \<exists>vs'. fmap_scan f b m vs = Some vs' \<and> map vf_func_id vs' = map vf_func_id vs
     \<and> (\<forall>g. vf_find vs' g = (if g = f then Some (b, m) else vf_find vs g))"
  by (induction vs) (auto split: if_splits)

lemma vf_ids_cong: "map vf_func_id vs' = map vf_func_id vs \<Longrightarrow> vf_ids vs' = vf_ids vs"
  by (simp add: vf_ids_def)

lemma vf_free_cong: "map vf_func_id vs' = map vf_func_id vs \<Longrightarrow> vf_free vs' = vf_free vs"
proof -
  have "vf_free vs = length (filter (\<lambda>i. i = QDMA_FUNC_ID_INVALID) (map vf_func_id vs))" for vs
    by (induction vs) simp_all
  then show "map vf_func_id vs' = map vf_func_id vs \<Longrightarrow> vf_free vs' = vf_free vs"
    by (simp only:)
qed

interpretation vft: vf_registry "\<lambda>vs. distinct (vf_ids vs)" vf_valid vf_lookup vf_free online_scan
  "\<lambda>f. map (offline_slot f)" "\<lambda>f (b, m). fmap_scan f b m"
proof unfold_locales
  fix s f
  assume a: "distinct (vf_ids s)" "vf_valid f" "vf_lookup s f = None" "0 < vf_free s"
  then obtain vs' r where "online_scan f s = Some vs'" "vf_free vs' = vf_free s - 1" "distinct (vf_ids vs')"
    "\<forall>g. vf_valid g \<longrightarrow> vf_find vs' g = (if g = f then Some r else vf_find s g)"
    using online_scan_room [of f s] by (auto simp: vf_lookup_def)
  then show "\<exists>s'. online_scan f s = Some s' \<and> distinct (vf_ids s') \<and> vf_free s' = vf_free s - 1
      \<and> (\<exists>r. vf_lookup s' = (vf_lookup s)(f \<mapsto> r))"
    using a(2) by (intro exI [of _ vs'] conjI exI [of _ r] ext) (auto simp: vf_lookup_def)
next
  fix s f and r :: "u16 \<times> u16"
  assume a: "distinct (vf_ids s)" "vf_valid f" "vf_lookup s f \<noteq> None"
  obtain b m where r: "r = (b, m)"
    by (cases r)
  obtain vs' where vs': "fmap_scan f b m s = Some vs'" "map vf_func_id vs' = map vf_func_id s"
    "\<forall>g. vf_find vs' g = (if g = f then Some (b, m) else vf_find s g)"
    using fmap_scan_known [of s f b m] a by (auto simp: vf_lookup_def)
  have "vf_ids vs' = vf_ids s" "vf_free vs' = vf_free s"
    by (rule vf_ids_cong [OF vs'(2)], rule vf_free_cong [OF vs'(2)])
  with vs'(1,3) show "\<exists>s'. (case r of (b, m) \<Rightarrow> fmap_scan f b m) s = Some s' \<and> distinct (vf_ids s')
      \<and> vf_free s' = vf_free s \<and> vf_lookup s' = (vf_lookup s)(f \<mapsto> r)"
    using a r by (intro exI [of _ vs'] conjI ext) (auto simp: vf_lookup_def)
next
  fix s f
  assume "distinct (vf_ids s)" "vf_valid f"
  then show "vf_free (map (offline_slot f) s) = vf_free s + (if vf_lookup s f = None then 0 else 1)"
    by (simp add: offline_free vf_lookup_def vf_find_ids)
qed (auto simp: vf_lookup_def online_scan_full offline_find offline_ids fmap_scan_unknown)

section \<open>The operations of the device\<close>

definition vf_map :: "xlnx_dma_dev \<Rightarrow> u8 \<Rightarrow> (u16 \<times> u16) option" where
  "vf_map xdev = vf_lookup (vf_slots xdev)"

definition vf_table_ok :: "xlnx_dma_dev \<Rightarrow> bool" where
  "vf_table_ok xdev \<longleftrightarrow> distinct (vf_ids (vf_slots xdev))"

lemma vf_slots_set:
  "length vs = length (vf_slots xdev) \<Longrightarrow> vf_slots (set_vf_slots xdev vs) = vs"
  by (auto simp: vf_slots_def set_vf_slots_def min_def split: option.splits)

lemma scan_lengths:
  "online_scan f vs = Some vs' \<Longrightarrow> length vs' = length vs"
  "fmap_scan f b m vs = Some vs' \<Longrightarrow> length vs' = length vs"
  by (induction vs arbitrary: vs') (auto split: if_splits)

text \<open>
  C25: The table of virtual functions is a partial map from functions to queue ranges with a fixed
  number of places: a function that is not in the table yet is entered as long as a place is free and refused with
  \<open>-EINVAL\<close> otherwise, taking a function offline removes it, a queue range is recorded for a
  function that has announced itself and refused with \<open>-EINVAL\<close> for any other, and no operation
  touches the entry of another function. (A function that announces itself a second time takes a
  second place; this is outside of the claim.)
\<close>

theorem vf_table_refines_map:
  assumes "vf_table_ok xdev" and "vf_valid f"
  shows "(vf_free (vf_slots xdev) = 0 \<longrightarrow> xdev_sriov_vf_online xdev f = (Inl EINVAL, xdev))
    \<and> (vf_map xdev f = None \<and> 0 < vf_free (vf_slots xdev) \<longrightarrow>
        (\<exists>xdev' r. xdev_sriov_vf_online xdev f = (Inr (), xdev') \<and> vf_table_ok xdev'
           \<and> vf_map xdev' = (vf_map xdev)(f \<mapsto> r)))
    \<and> vf_table_ok (xdev_sriov_vf_offline xdev f)
    \<and> vf_map (xdev_sriov_vf_offline xdev f) = (vf_map xdev)(f := None)
    \<and> (vf_map xdev f = None \<longrightarrow> xdev_sriov_vf_fmap xdev f qbase qmax = (Inl EINVAL, xdev))
    \<and> (vf_map xdev f \<noteq> None \<longrightarrow>
        (\<exists>xdev'. xdev_sriov_vf_fmap xdev f qbase qmax = (Inr (), xdev') \<and> vf_table_ok xdev'
           \<and> vf_map xdev' = (vf_map xdev)(f \<mapsto> (qbase, qmax))))"
proof (intro conjI impI)
  let ?vs = "vf_slots xdev"
  note ok = assms(1) [unfolded vf_table_ok_def]
  show "xdev_sriov_vf_online xdev f = (Inl EINVAL, xdev)" if "vf_free ?vs = 0"
    using vft.online_full [OF ok that] by (simp add: xdev_sriov_vf_online_def)
  show "\<exists>xdev' r. xdev_sriov_vf_online xdev f = (Inr (), xdev') \<and> vf_table_ok xdev'
      \<and> vf_map xdev' = (vf_map xdev)(f \<mapsto> r)" if "vf_map xdev f = None \<and> 0 < vf_free ?vs"
    using vft.online_room [OF ok assms(2)] that vf_slots_set [OF scan_lengths(1), of f xdev]
    by (fastforce simp: xdev_sriov_vf_online_def vf_map_def vf_table_ok_def)
  have "vf_slots (xdev_sriov_vf_offline xdev f) = map (offline_slot f) ?vs"
    by (simp add: xdev_sriov_vf_offline_def vf_slots_set)
  then show "vf_table_ok (xdev_sriov_vf_offline xdev f)"
    and "vf_map (xdev_sriov_vf_offline xdev f) = (vf_map xdev)(f := None)"
    using vft.offline_lookup [OF ok assms(2)] by (simp_all add: vf_table_ok_def vf_map_def)
  show "xdev_sriov_vf_fmap xdev f qbase qmax = (Inl EINVAL, xdev)" if "vf_map xdev f = None"
    using vft.fmap_unknown [OF ok assms(2), of "(qbase, qmax)"] that
    by (simp add: xdev_sriov_vf_fmap_def vf_map_def)
  show "\<exists>xdev'. xdev_sriov_vf_fmap xdev f qbase qmax = (Inr (), xdev') \<and> vf_table_ok xdev'
      \<and> vf_map xdev' = (vf_map xdev)(f \<mapsto> (qbase, qmax))" if "vf_map xdev f \<noteq> None"
    using vft.fmap_known [OF ok assms(2), of "(qbase, qmax)"] that
      vf_slots_set [OF scan_lengths(2), of f qbase qmax xdev]
    by (fastforce simp: xdev_sriov_vf_fmap_def vf_map_def vf_table_ok_def)
qed

definition sample_pf :: xlnx_dma_dev where
  "sample_pf = sample_xdev\<lparr>x_vf_count := 2, x_vf_info :=
     Some [\<lparr>vf_func_id = 3, vf_qbase = 72, vf_qmax = 8\<rparr>, \<lparr>vf_func_id = 254, vf_qbase = 0, vf_qmax = 0\<rparr>]\<rparr>"

theorem vf_table_refines_map_witness:
  "(\<exists>xdev' r. xdev_sriov_vf_online sample_pf 5 = (Inr (), xdev') \<and> vf_map xdev' = (vf_map sample_pf)(5 \<mapsto> r))
   \<and> xdev_sriov_vf_fmap sample_pf 5 88 8 = (Inl EINVAL, sample_pf)"
proof -
  have "vf_slots sample_pf =
      [\<lparr>vf_func_id = 3, vf_qbase = 72, vf_qmax = 8\<rparr>, \<lparr>vf_func_id = 254, vf_qbase = 0, vf_qmax = 0\<rparr>]"
    by (simp add: sample_pf_def sample_xdev_def vf_slots_def)
  then have "vf_table_ok sample_pf" "vf_valid 5" "vf_map sample_pf 5 = None" "0 < vf_free (vf_slots sample_pf)"
    by (simp_all add: vf_table_ok_def vf_valid_def vf_map_def vf_lookup_def)
  then show ?thesis
    using vf_table_refines_map [of sample_pf 5 88 8] by blast
qed

end
