(* ===== verification/Qdma_Keeps.thy ===== *)
theory Qdma_Keeps
  imports Qdma_Context
begin

text \<open>
  What every register access and every delay keeps, every operation on registers and contexts
  keeps: the generic lemmas behind statements on how the state of the device changes while the
  driver works on something else.
\<close>

text \<open>
  A property of the device that every register access and every delay keeps is kept by the
  operations built from them.
\<close>

definition env_keeps :: "'e env \<Rightarrow> ('e \<Rightarrow> bool) \<Rightarrow> bool" where
  "env_keeps E P \<longleftrightarrow> (\<forall>a e. P e \<longrightarrow> P (snd (env_readl E a e))) \<and> (\<forall>a v e. P e \<longrightarrow> P (env_writel E a v e))
     \<and> (\<forall>n e. P e \<longrightarrow> P (env_udelay E n e))"

named_theorems keeps \<open>operations that keep what register accesses and delays keep\<close>

lemma env_keeps_prim [keeps]:
  assumes "env_keeps E P" and "P e"
  shows "P (snd (env_readl E a e))" and "P (env_writel E a v e)" and "P (env_udelay E n e)"
  using assms by (simp_all add: env_keeps_def)

lemma write_regs_keeps [keeps]: "env_keeps E P \<Longrightarrow> P e \<Longrightarrow> P (write_regs E reg vs e)"
  by (induction vs arbitrary: reg e) (simp_all add: keeps)

lemma read_regs_keeps [keeps]: "env_keeps E P \<Longrightarrow> P e \<Longrightarrow> P (snd (read_regs E reg n e))"
  by (induction n arbitrary: reg e) (simp_all add: keeps Let_def case_prod_beta)

lemma poll_loop_keeps [keeps]:
  "env_keeps E P \<Longrightarrow> P e \<Longrightarrow> P (snd (poll_loop E reg msk v us count e))"
proof (induction E reg msk v us count e rule: poll_loop.induct)
  case (1 E reg msk v us count e)
  obtain r e1 where rd: "env_readl E reg e = (r, e1)"
    by (cases "env_readl E reg e")
  then have "P e1"
    using env_keeps_prim(1) [OF "1.prems", of reg] by simp
  then have "P e1" "P (env_udelay E us e1)"
    using "1.prems"(1) by (simp_all add: keeps)
  moreover have "r AND msk \<noteq> v \<Longrightarrow> count - 1 \<noteq> 0 \<Longrightarrow> P (snd (poll_loop E reg msk v us (count - 1) (env_udelay E us e1)))"
    using "1.IH" [OF refl, unfolded rd, OF refl _ refl refl] "1.prems"(1) calculation(2) by blast
  ultimately show ?case
    by (subst poll_loop.simps) (simp add: rd Let_def)
qed

lemma hw_monitor_reg_keeps [keeps]:
  "env_keeps E P \<Longrightarrow> P e \<Longrightarrow> P (snd (hw_monitor_reg E reg msk v us t e))"
  by (simp add: hw_monitor_reg_def keeps Let_def case_prod_beta)

lemma case_res_snd:
  "snd (case r of (Inl err, e) \<Rightarrow> f err e | (Inr x, e) \<Rightarrow> g x e) =
     (case fst r of Inl err \<Rightarrow> snd (f err (snd r)) | Inr x \<Rightarrow> snd (g x (snd r)))"
  by (cases r; cases "fst r") simp_all

lemma res_then_keeps [keeps]:
  "P (snd r) \<Longrightarrow> (\<And>e. P e \<Longrightarrow> P (snd (f e))) \<Longrightarrow> P (snd (res_then r f))"
  by (cases r; cases "fst r") simp_all

lemma ind_ctxt_issue_keeps [keeps]:
  "env_keeps E P \<Longrightarrow> P e \<Longrightarrow> P (snd (ind_ctxt_issue E qid op sel e))"
  by (simp add: ind_ctxt_issue_def keeps)

lemma ctext_setup_keeps [keeps]:
  "env_keeps E P \<Longrightarrow> P e \<Longrightarrow> P (snd (ctext_setup E op data cnt e))"
  by (simp add: ctext_setup_def keeps Let_def split: option.split)

lemma ctext_verify_keeps [keeps]:
  "env_keeps E P \<Longrightarrow> P e \<Longrightarrow> P (snd (ctext_verify E qid sel data cnt e))"
  by (simp add: ctext_verify_def keeps Let_def case_res_snd case_prod_beta split: option.split sum.split)

lemma ctext_prog_keeps [keeps]:
  "env_keeps E P \<Longrightarrow> P e \<Longrightarrow> P (snd (hw_indirect_ctext_prog E qid op sel data cnt verify e))"
  by (simp add: hw_indirect_ctext_prog_def keeps Let_def case_res_snd case_prod_beta split: option.split sum.split)

lemma ctext_op_keeps [keeps]:
  "env_keeps E P \<Longrightarrow> P e \<Longrightarrow> P (snd (ctext_op E qid op sel data cnt verify e))"
  "env_keeps E P \<Longrightarrow> P e \<Longrightarrow> P (snd (ctext_rd E qid sel cnt e))"
  by (simp_all add: ctext_op_def ctext_rd_def keeps Let_def case_prod_beta)

lemma context_ops_keep [keeps]:
  assumes "env_keeps E P" and "P e"
  shows "P (snd (qdma_descq_context_clear E qid st c2h e))"
    and "P (snd (qdma_descq_context_program E qid st c2h c e))"
    and "P (snd (qdma_descq_context_read E qid st c2h e))"
proof -
  have clr: "P (snd (qdma_descq_context_clear E qid st c2h e))" if "P e" for e
    using assms(1) that by (simp add: qdma_descq_context_clear_def keeps)
  then show "P (snd (qdma_descq_context_clear E qid st c2h e))"
    using assms(2) .
  show "P (snd (qdma_descq_context_program E qid st c2h c e))"
    using assms by (simp add: qdma_descq_context_program_def keeps clr)
  show "P (snd (qdma_descq_context_read E qid st c2h e))"
    using assms by (simp add: qdma_descq_context_read_def keeps Let_def case_prod_beta)
qed

end
