(* ===== verification/Qdma_Mbox_Pf.thy ===== *)
theory Qdma_Mbox_Pf
  imports Qdma_Mbox Qdma_Sriov Qdma_Keeps
begin

text \<open>
  The mailbox of a physical function (\<open>libqdma/qdma_mbox.c\<close>): handling the requests of the
  virtual functions and the polling timer.
\<close>

section \<open>Handling a message\<close>

definition QDMA_Q_PER_PF_MAX :: nat where
  [simp]: "QDMA_Q_PER_PF_MAX = 32"

definition QDMA_Q_PER_VF_MAX :: nat where
  [simp]: "QDMA_Q_PER_VF_MAX = 8"

text \<open>The first queue of a virtual function that leaves the choice to the physical function.\<close>

definition vf_qbase_default :: "u8 \<Rightarrow> u32" where
  "vf_qbase_default src =
     of_nat (QDMA_Q_PER_PF_MAX * QDMA_PF_MAX) + (ucast src - of_nat QDMA_PF_MAX) * of_nat QDMA_Q_PER_VF_MAX"

text \<open>
  \<open>status\<close> is the variable of the loop in \<open>qdma_mbox_proc\<close>, which no iteration resets. A failed
  operation sets it only if it is still zero.
\<close>

definition fail_status :: "'a res \<Rightarrow> u8 \<Rightarrow> u8" where
  "fail_status rv status =
     (case rv of Inl _ \<Rightarrow> if status = 0 then - MBOX_STATUS_ERR else status | Inr _ \<Rightarrow> status)"

definition pf_mbox_handle ::
  "'e env \<Rightarrow> xlnx_dma_dev \<Rightarrow> u8 \<Rightarrow> mbox_msg \<Rightarrow> 'e \<Rightarrow> u8 \<times> mbox_msg \<times> xlnx_dma_dev \<times> 'e" where
  "pf_mbox_handle E xdev status m e =
     (let src = hdr_src (msg_hdr m);
          qctxt = msg_qctxt m;
          qid = ucast (qx_qid qctxt)
      in case mbox_op (hdr_op (msg_hdr m)) of
           Some MBOX_OP_HELLO \<Rightarrow> (status, m, snd (xdev_sriov_vf_online xdev src), e)
         | Some MBOX_OP_BYE \<Rightarrow> (status, m, xdev_sriov_vf_offline xdev src, hw_set_fmap E src 0 0 e)
         | Some MBOX_OP_FMAP \<Rightarrow>
             let m = (if fmap_qbase m = 0 then m[1 := vf_qbase_default src] else m)
             in (status, m, snd (xdev_sriov_vf_fmap xdev src (ucast (fmap_qbase m)) (ucast (fmap_qmax m))),
                 hw_set_fmap E src (fmap_qbase m) (fmap_qmax m) e)
         | Some MBOX_OP_INTR_CTXT \<Rightarrow> (fail_status (Inl EINVAL :: unit res) status, m, xdev, e)
         | Some MBOX_OP_QCTXT_CLR \<Rightarrow>
             let (rv, e) = qdma_descq_context_clear E qid (qx_st qctxt) (qx_c2h qctxt) e
             in (fail_status rv status, m, xdev, e)
         | Some MBOX_OP_QCTXT_RD \<Rightarrow>
             let ((rv, c), e) = qdma_descq_context_read E qid (qx_st qctxt) (qx_c2h qctxt) e
             in (fail_status rv status, put_context c m, xdev, e)
         | Some MBOX_OP_QCTXT_WRT \<Rightarrow>
             let (rv, e) =
               res_then (qdma_descq_context_clear E qid (qx_st qctxt) (qx_c2h qctxt) e)
                 (qdma_descq_context_program E qid (qx_st qctxt) (qx_c2h qctxt) (msg_context m))
             in (fail_status rv status, m, xdev, e)
         | _ \<Rightarrow> (- MBOX_STATUS_EINVAL, m, xdev, e))"

definition mbox_reply :: "xlnx_dma_dev \<Rightarrow> u8 \<Rightarrow> mbox_msg \<Rightarrow> mbox_msg" where
  "mbox_reply xdev status m =
     upd_hdr (\<lambda>h. h\<lparr>hdr_dst := hdr_src h, hdr_src := x_func_id xdev, hdr_ack := True, hdr_status := status\<rparr>) m"

section \<open>The handler\<close>

definition xlnx_dma_device_flag_check :: "xlnx_dma_dev \<Rightarrow> u32 \<Rightarrow> bool" where
  "xlnx_dma_device_flag_check xdev f \<longleftrightarrow> x_flags xdev AND f \<noteq> 0"

primrec clear_ack_loop :: "'e env \<Rightarrow> nat \<Rightarrow> u32 \<Rightarrow> 'e \<Rightarrow> 'e" where
  "clear_ack_loop E 0 reg e = e"
| "clear_ack_loop E (Suc n) reg e =
     (let (v, e) = env_readl E reg e
      in clear_ack_loop E n (reg + MBOX_PF_ACK_STEP) (if v = 0 then e else env_writel E reg v e))"

definition pf_mbox_clear_ack :: "'e env \<Rightarrow> 'e \<Rightarrow> 'e" where
  "pf_mbox_clear_ack E e =
     (let (v, e) = env_readl E (MBOX_BASE False + MBOX_FN_STATUS) e
      in if v AND F_MBOX_FN_STATUS_ACK = 0 then e
         else clear_ack_loop E MBOX_PF_ACK_COUNT (MBOX_BASE False + MBOX_PF_ACK_BASE) e)"

text \<open>
  The loop over the waiting messages, which lasts as long as the device has one: \<open>None\<close> is a
  loop that does not end. \<open>m\<close> is the buffer on the stack.
\<close>

partial_function (option) pf_mbox_loop ::
  "'e env \<Rightarrow> xlnx_dma_dev \<Rightarrow> u8 \<Rightarrow> mbox_msg \<Rightarrow> 'e \<Rightarrow> (xlnx_dma_dev \<times> 'e) option" where
  "pf_mbox_loop E xdev status m e =
     (case mbox_read E False m False e of
        ((Inl _, m), e) \<Rightarrow> Some (xdev, e)
      | ((Inr _, m), e) \<Rightarrow>
          if hdr_ack (msg_hdr m) then pf_mbox_loop E xdev status m e
          else (case pf_mbox_handle E xdev status m e of
            (status, m, xdev, e) \<Rightarrow>
              (case mbox_send E False (mbox_reply xdev status m) True e of
                 ((Inl _, m), e) \<Rightarrow> Some (xdev, e)
               | ((Inr _, m), e) \<Rightarrow>
                   if xlnx_dma_device_flag_check xdev XDEV_FLAG_OFFLINE then Some (xdev, e)
                   else pf_mbox_loop E xdev status m e)))"

definition qdma_mbox_timer_start :: "xlnx_dma_dev \<Rightarrow> xlnx_dma_dev" where
  "qdma_mbox_timer_start xdev = xdev\<lparr>x_mbox_timer := True\<rparr>"

definition qdma_mbox_timer_stop :: "xlnx_dma_dev \<Rightarrow> xlnx_dma_dev" where
  "qdma_mbox_timer_stop xdev = xdev\<lparr>x_mbox_timer := False\<rparr>"

definition mbox_proc_end :: "xlnx_dma_dev \<Rightarrow> xlnx_dma_dev" where
  "mbox_proc_end xdev =
     (if xlnx_dma_device_flag_check xdev XDEV_FLAG_OFFLINE then qdma_mbox_timer_stop xdev
      else qdma_mbox_timer_start xdev)"

definition qdma_mbox_proc :: "'e env \<Rightarrow> mbox_msg \<Rightarrow> xlnx_dma_dev \<Rightarrow> 'e \<Rightarrow> (xlnx_dma_dev \<times> 'e) option" where
  "qdma_mbox_proc E m xdev e =
     (if dc_pdev (x_conf xdev) = 0 then Some (xdev, e)
      else case pf_mbox_loop E xdev MBOX_STATUS_GOOD m (pf_mbox_clear_ack E e) of
             None \<Rightarrow> None
           | Some (xdev, e) \<Rightarrow> Some (mbox_proc_end xdev, e))"

definition qdma_mbox_timer_init :: "'e env \<Rightarrow> bool \<Rightarrow> xlnx_dma_dev \<Rightarrow> 'e \<Rightarrow> xlnx_dma_dev \<times> 'e" where
  "qdma_mbox_timer_init E vf xdev e =
     (let e = (if vf
               then let (v, e) = env_readl E (MBOX_BASE vf + MBOX_FN_STATUS) e
                    in if v AND F_MBOX_FN_STATUS_IN_MSG = 0
                       then env_writel E (MBOX_BASE vf + MBOX_FN_CMD) F_MBOX_FN_CMD_RCV e else e
               else pf_mbox_clear_ack E e)
      in (xdev\<lparr>x_mbox_timer := False\<rparr>, e))"

section \<open>Replies\<close>

lemma mbox_op_num [simp]: "mbox_op (op_num op) = Some op"
  by (cases op) (simp_all add: mbox_op_def)

lemma mbox_op_Some: "mbox_op n = Some op \<longleftrightarrow> n = op_num op"
  by (cases op) (auto simp: mbox_op_def split: if_splits)

lemma context_read_ok:
  assumes "qdma_descq_context_read E qid st c2h e = ((rv, c), e')"
  shows "context_ok c"
proof -
  have rd: "length ws = cnt" if "ctext_rd E q sel cnt e = ((rv, ws), e')" for q sel cnt e rv ws e'
  proof -
    have "read_regs E reg n e = (ms, e'') \<Longrightarrow> length ms = n" for reg n e ms e''
      by (metis fst_conv length_read_regs)
    then show ?thesis
      using that
      by (auto simp: ctext_rd_def hw_indirect_ctext_prog_def Let_def
          split: prod.splits sum.splits if_splits)
  qed
  have z: "length (ctx_sw zero_context) = 4" "length (ctx_prefetch zero_context) = 2"
    "length (ctx_wrb zero_context) = 4" "length (ctx_hw zero_context) = 2" "length (ctx_cr zero_context) = 1"
    by (simp_all add: zero_context_def)
  show ?thesis
    using assms z
    by (auto simp: qdma_descq_context_read_def context_ok_def Let_def dest!: rd
        split: prod.splits if_splits)
qed

text \<open>
  C33: Whatever a virtual function asks for, the reply is a well-formed message that goes back to
  it: sixteen words, addressed to the sender of the request and coming from this function, with
  the operation and the \<open>wait\<close> flag of the request, marked as an acknowledgement and carrying
  the status of the handler. The queue selection of the request is returned unchanged, except
  for the queue base of a map request that left it open.
\<close>

theorem mbox_reply_wellformed:
  assumes "length m = 16" and "pf_mbox_handle E xdev status m e = (status', m', xdev', e')"
    and "r = mbox_reply xdev' status' m'" and "h = msg_hdr m"
  shows "length r = 16
    \<and> msg_hdr r = h\<lparr>hdr_dst := hdr_src h, hdr_src := x_func_id xdev, hdr_ack := True, hdr_status := status'\<rparr>
    \<and> (hdr_op h \<noteq> op_num MBOX_OP_FMAP \<or> fmap_qbase m \<noteq> 0 \<longrightarrow> r ! 1 = m ! 1)"
proof -
  have fid: "x_func_id (snd (xdev_sriov_vf_online x f)) = x_func_id x"
    "x_func_id (xdev_sriov_vf_offline x f) = x_func_id x"
    "x_func_id (snd (xdev_sriov_vf_fmap x f b n)) = x_func_id x" for x f b n
    by (simp_all add: xdev_sriov_vf_online_def xdev_sriov_vf_offline_def xdev_sriov_vf_fmap_def
        set_vf_slots_def split: option.split)
  have "length m' = 16 \<and> m' ! 0 = m ! 0 \<and> x_func_id xdev' = x_func_id xdev
      \<and> (hdr_op h \<noteq> op_num MBOX_OP_FMAP \<or> fmap_qbase m \<noteq> 0 \<longrightarrow> m' ! 1 = m ! 1)"
  proof (cases "mbox_op (hdr_op h)")
    case None
    then show ?thesis
      using assms by (auto simp: pf_mbox_handle_def Let_def)
  next
    case (Some op)
    then have "hdr_op h = op_num op"
      by (simp add: mbox_op_Some)
    moreover note put_context_ok(1,3,4) [OF context_read_ok assms(1)]
    ultimately show ?thesis
      using assms Some fid
      by (cases op) (auto simp: pf_mbox_handle_def Let_def fmap_qbase_def simp del: op_num.simps
          split: prod.splits if_splits)
  qed
  then show ?thesis
    using assms(3,4) by (cases m') (auto simp: mbox_reply_def msg_hdr_def upd_hdr_def)
qed

text \<open>
  A failure sticks: once a request has been answered with an error, every later request of
  the same run of the handler is carried out exactly as it would have been, but answered with an
  error, whether it succeeded or not (with the first error code, unless its operation is
  unknown). A virtual function then takes a queue context that was written for one that failed.
\<close>

lemma mbox_status_sticks:
  assumes "status \<noteq> 0" and "pf_mbox_handle E xdev 0 m e = (s, m', xdev', e')"
  shows "\<exists>s'. pf_mbox_handle E xdev status m e = (s', m', xdev', e')
    \<and> (s' = status \<or> s' = - MBOX_STATUS_EINVAL \<and> s = s') \<and> s' \<noteq> 0"
proof (cases "mbox_op (hdr_op (msg_hdr m))")
  case None
  then show ?thesis
    using assms by (auto simp: pf_mbox_handle_def Let_def)
next
  case (Some op)
  then show ?thesis
    using assms by (cases op) (auto simp: pf_mbox_handle_def fail_status_def Let_def
        split: prod.splits sum.splits)
qed

section \<open>Queue ranges\<close>

lemma unat_vf_qbase:
  assumes "2 \<le> f"
  shows "unat (vf_qbase_default f) = 64 + (unat f - 2) * 8"
proof -
  have f: "2 \<le> unat f" "unat f < 256"
    using assms unsigned_less [of f, where 'a = nat] by (simp_all add: word_le_nat_alt)
  have "vf_qbase_default f = of_nat (64 + (unat f - 2) * 8)"
  proof -
    have "(ucast f :: u32) = of_nat (unat f)"
      by simp
    then show ?thesis
      using f by (simp add: vf_qbase_default_def of_nat_diff)
  qed
  then have "unat (vf_qbase_default f) = take_bit 32 (64 + (unat f - 2) * 8)"
    by (simp only: unsigned_of_nat) simp
  then show ?thesis
    using f by (simp add: take_bit_nat_eq_self)
qed

text \<open>
  C35: The queues given out on request are kept apart as long as the function numbers are below
  250: the ranges of two virtual functions are disjoint, they start above the queues of the
  physical functions, and they end within the 2048 queues of the device, so that the function map
  register holds the range that was recorded. Function 250 and above, which the limits allow, get
  a base that does not fit the 11 bits of the register: function 250 is mapped to queue 0, the
  first queue of the first physical function, with one queue more than it asked for.
\<close>

theorem vf_queue_ranges:
  assumes "2 \<le> f" and "f < g" and "g < 250" and "n = unat (vf_qbase_default f)"
    and "hdr_op (msg_hdr m) = op_num MBOX_OP_FMAP" and "hdr_src (msg_hdr m) = f"
    and "fmap_qbase m = 0" and "fmap_qmax m = 8" and "length m = 16"
    and "hdr_op (msg_hdr k) = op_num MBOX_OP_FMAP" and "hdr_src (msg_hdr k) = 250"
    and "fmap_qbase k = 0" and "fmap_qmax k = 8" and "length k = 16"
  shows "QDMA_Q_PER_PF_MAX * QDMA_PF_MAX \<le> n \<and> n + 8 \<le> unat (vf_qbase_default g)
    \<and> unat (vf_qbase_default g) + 8 \<le> 2048
    \<and> (\<exists>w s m' x e'. pf_mbox_handle (traced E) xdev 0 m (e, []) = (s, m', x, e', [(0x400 + 4 * ucast f, w)])
         \<and> unat (field 0 0x7FF w) = n \<and> field 11 0xFFF w = 8 \<and> fmap_qbase m' = vf_qbase_default f)
    \<and> (\<exists>w s m' x e'. pf_mbox_handle (traced E) xdev 0 k (e, []) = (s, m', x, e', [(0x7E8, w)])
         \<and> field 0 0x7FF w = 0 \<and> field 11 0xFFF w = 9)"
proof -
  let ?word = "\<lambda>f. push_bit 0 (vf_qbase_default f) OR push_bit 11 8"
  have run: "\<exists>s m' x e'. pf_mbox_handle (traced E) xdev 0 l (e, []) =
      (s, m', x, e', [(0x400 + 4 * ucast i, ?word i)]) \<and> fmap_qbase m' = vf_qbase_default i"
    if "hdr_op (msg_hdr l) = op_num MBOX_OP_FMAP" "hdr_src (msg_hdr l) = i" "fmap_qbase l = 0" "fmap_qmax l = 8"
      "length l = 16" for l i
    using that by (auto simp: pf_mbox_handle_def hw_set_fmap_def Let_def fmap_qbase_def fmap_qmax_def mult.commute
        simp del: op_num.simps)
  have fg: "unat f < unat g" "unat g < 250" "2 \<le> unat f"
    using assms(1-3) by (simp_all add: word_less_nat_alt word_le_nat_alt)
  then have b: "n = 64 + (unat f - 2) * 8" "unat (vf_qbase_default g) = 64 + (unat g - 2) * 8"
    using assms(4) unat_vf_qbase [of f] unat_vf_qbase [of g] assms(1) by (simp_all add: word_le_nat_alt)
  then have "unat (vf_qbase_default f) < 2 ^ 11"
    using fg assms(4) by simp
  then have small: "vf_qbase_default f < 2 ^ 11"
    by (simp add: word_less_nat_alt)
  then have "vf_qbase_default f AND 0x7FF = vf_qbase_default f"
    by (intro and_mask_eq [of _ 11]) simp_all
  then have "unat (field 0 0x7FF (?word f)) = n" "field 11 0xFFF (?word f) = 8"
    using assms(4) small by (simp_all add: field_simps)
  moreover have "field 0 0x7FF (?word 250) = 0" "field 11 0xFFF (?word 250) = 9"
    by (simp_all add: vf_qbase_default_def field_def)
  ultimately show ?thesis
    using run [OF assms(5,6,7,8,9)] run [OF assms(10,11,12,13,14)] b fg by auto
qed

section \<open>The handler returns\<close>

text \<open>
  A device whose mailbox runs empty: \<open>\<mu>\<close> bounds the number of messages that wait, nothing the
  driver does brings a new one, receiving a message takes one away, and the status register
  shows no message when none waits.
\<close>

definition mailbox_drains :: "'e env \<Rightarrow> ('e \<Rightarrow> nat) \<Rightarrow> bool" where
  "mailbox_drains E \<mu> \<longleftrightarrow> (\<forall>k. env_keeps E (\<lambda>e. \<mu> e \<le> k))
     \<and> (\<forall>e. 0 < \<mu> e \<longrightarrow> \<mu> (env_writel E (MBOX_BASE False + MBOX_FN_CMD) F_MBOX_FN_CMD_RCV e) < \<mu> e)
     \<and> (\<forall>e. \<mu> e = 0 \<longrightarrow>
          fst (env_readl E (MBOX_BASE False + MBOX_FN_STATUS) e) AND F_MBOX_FN_STATUS_IN_MSG = 0)"

lemma clear_ack_keeps [keeps]: "env_keeps E P \<Longrightarrow> P e \<Longrightarrow> P (clear_ack_loop E n reg e)"
  by (induction n arbitrary: reg e) (simp_all add: keeps Let_def case_prod_beta)

lemma mbox_send_keeps [keeps]: "env_keeps E P \<Longrightarrow> P e \<Longrightarrow> P (snd (mbox_send E vf m wait e))"
  by (simp add: mbox_send_def pf_mbox_clear_func_ack_def keeps Let_def case_prod_beta split: sum.split)

lemma pf_mbox_handle_keeps [keeps]:
  "env_keeps E P \<Longrightarrow> P e \<Longrightarrow> P (snd (snd (snd (pf_mbox_handle E xdev status m e))))"
  by (simp add: pf_mbox_handle_def hw_set_fmap_def keeps Let_def case_prod_beta
      split: option.split mbox_msg_op.split)

lemma mbox_read_drains:
  assumes "mailbox_drains E \<mu>" and "mbox_read E False m False e = ((Inr x, m'), e')"
  shows "\<mu> e' < \<mu> e"
proof -
  let ?st = "MBOX_BASE False + MBOX_FN_STATUS"
  have keep: "env_keeps E (\<lambda>e. \<mu> e \<le> k)" for k
    using assms(1) by (simp add: mailbox_drains_def)
  obtain v e1 where rd: "env_readl E ?st e = (v, e1)"
    by (cases "env_readl E ?st e")
  then have "v AND F_MBOX_FN_STATUS_IN_MSG \<noteq> 0"
    using assms(2) by (auto simp: mbox_read_def Let_def split: if_splits)
  then have pos: "0 < \<mu> e"
    using assms(1) rd by (metis fst_conv mailbox_drains_def neq0_conv)
  define e2 where "e2 = snd (read_regs E (MBOX_BASE False + MBOX_IN_MSG_BASE) MBOX_MSG_REG_MAX
      (env_writel E (MBOX_BASE False + MBOX_FN_TARGET) (G_MBOX_FN_STATUS_SRC v) e1))"
  have "\<mu> e1 \<le> \<mu> e"
    using env_keeps_prim(1) [OF keep order_refl, of ?st e] rd by simp
  then have e2: "\<mu> e2 \<le> \<mu> e"
    unfolding e2_def by (intro read_regs_keeps [OF keep] env_keeps_prim [OF keep])
  have "e' = env_writel E (MBOX_BASE False + MBOX_FN_CMD) F_MBOX_FN_CMD_RCV e2"
    using assms(2) rd by (auto simp: mbox_read_def e2_def Let_def case_prod_beta split: if_splits)
  then show ?thesis
    using assms(1) e2 pos env_keeps_prim(2) [OF keep order_refl]
    unfolding mailbox_drains_def by (metis (no_types, lifting) le_zero_eq less_le_trans neq0_conv)
qed

lemma pf_mbox_loop_returns:
  assumes "mailbox_drains E \<mu>"
  shows "\<exists>r. pf_mbox_loop E xdev status m e = Some r"
proof (induction "\<mu> e" arbitrary: xdev status m e rule: less_induct)
  case less
  have keep: "env_keeps E (\<lambda>e. \<mu> e \<le> k)" for k
    using assms by (simp add: mailbox_drains_def)
  obtain rv m1 e1 where rd: "mbox_read E False m False e = ((rv, m1), e1)"
    by (metis surj_pair)
  show ?case
  proof (cases rv)
    case (Inl err)
    then show ?thesis
      by (subst pf_mbox_loop.simps) (simp add: rd)
  next
    case (Inr u)
    then have less1: "\<mu> e1 < \<mu> e"
      using mbox_read_drains [OF assms] rd by blast
    obtain s2 m2 x2 e2 where h: "pf_mbox_handle E xdev status m1 e1 = (s2, m2, x2, e2)"
      by (metis surj_pair)
    obtain rv3 m3 e3 where snd: "mbox_send E False (mbox_reply x2 s2 m2) True e2 = ((rv3, m3), e3)"
      by (metis surj_pair)
    have "\<mu> e2 \<le> \<mu> e1" "\<mu> e3 \<le> \<mu> e2"
      using pf_mbox_handle_keeps [OF keep order_refl, of xdev status m1 e1]
        mbox_send_keeps [OF keep order_refl, of False "mbox_reply x2 s2 m2" True e2] h snd by simp_all
    then have "\<exists>r. pf_mbox_loop E x2 s2 m3 e3 = Some r"
      using less1 by (intro less) simp
    then show ?thesis
      using less [OF less1, of xdev status m1] Inr h snd
      by (subst pf_mbox_loop.simps) (auto simp: rd split: sum.split)
  qed
qed

text \<open>
  C34: On a device whose mailbox runs empty the handler comes to an end, whatever the messages
  are and whether or not the replies can be delivered, and leaves the polling timer running
  exactly if the device is not offline.
\<close>

theorem mbox_proc_returns:
  assumes "mailbox_drains E \<mu>"
  shows "\<exists>xdev' e'. qdma_mbox_proc E m xdev e = Some (xdev', e')
    \<and> (dc_pdev (x_conf xdev) \<noteq> 0 \<longrightarrow> (x_mbox_timer xdev' \<longleftrightarrow> x_flags xdev' AND XDEV_FLAG_OFFLINE = 0))"
proof -
  obtain x e' where "pf_mbox_loop E xdev MBOX_STATUS_GOOD m (pf_mbox_clear_ack E e) = Some (x, e')"
    using pf_mbox_loop_returns [OF assms] by (metis surj_pair)
  then show ?thesis
    by (simp add: qdma_mbox_proc_def mbox_proc_end_def qdma_mbox_timer_start_def qdma_mbox_timer_stop_def
        xlnx_dma_device_flag_check_def)
qed

section \<open>Concrete runs\<close>

definition sample_msg :: "mbox_msg_op \<Rightarrow> u8 \<Rightarrow> mbox_msg" where
  "sample_msg op src =
     upd_hdr (\<lambda>_. \<lparr>hdr_op = op_num op, hdr_sent = False, hdr_rcv = False, hdr_ack = False, hdr_wait = True,
       hdr_src = src, hdr_dst = 0, hdr_status = 0\<rparr>) (zero_msg[2 := 8])"

lemma sample_msg_simps:
  "length (sample_msg op src) = 16" "hdr_op (msg_hdr (sample_msg op src)) = op_num op"
  "hdr_src (msg_hdr (sample_msg op src)) = src" "fmap_qbase (sample_msg op src) = 0"
  "fmap_qmax (sample_msg op src) = 8"
proof -
  have "zero_msg[2 := 8] \<noteq> []"
    by (simp add: zero_msg_def)
  then show "hdr_op (msg_hdr (sample_msg op src)) = op_num op" "hdr_src (msg_hdr (sample_msg op src)) = src"
    by (simp_all add: sample_msg_def)
qed (simp_all add: sample_msg_def fmap_qbase_def fmap_qmax_def zero_msg_def)

text \<open>A device with a number of empty messages and nothing else.\<close>

definition countdown_env :: "nat env" where
  "countdown_env = \<lparr>
     env_readl = (\<lambda>a n. (if a = 0x2400 \<and> n \<noteq> 0 then 1 else 0, n)),
     env_writel = (\<lambda>a v n. if a = 0x2404 \<and> v = 2 then n - 1 else n), env_udelay = (\<lambda>_ n. n),
     env_kmalloc = (\<lambda>_ n. (True, n)), env_alloc_page = (\<lambda>n. (Some 0x1000, n)),
     env_free_page = (\<lambda>_ n. n), env_dma_map_page = (\<lambda>p n. (Some p, n)),
     env_dma_unmap_page = (\<lambda>_ n. n), env_dma_alloc = (\<lambda>_ n. (Some 0x100000, n)),
     env_dma_free = (\<lambda>_ _ n. n)\<rparr>"

theorem mbox_proc_returns_witness:
  "\<exists>xdev' n. qdma_mbox_proc countdown_env zero_msg sample_pf 3 = Some (xdev', n)"
proof -
  have "mailbox_drains countdown_env id"
    by (auto simp: mailbox_drains_def env_keeps_def countdown_env_def)
  then show ?thesis
    using mbox_proc_returns [of countdown_env id zero_msg sample_pf 3] by blast
qed

theorem mbox_reply_wellformed_witness:
  "\<exists>s m x e. pf_mbox_handle ram_env sample_pf 0 (sample_msg MBOX_OP_FMAP 3) (\<lambda>_. 0) = (s, m, x, e)
     \<and> hdr_dst (msg_hdr (mbox_reply x s m)) = 3"
proof -
  obtain s m x e where run: "pf_mbox_handle ram_env sample_pf 0 (sample_msg MBOX_OP_FMAP 3) (\<lambda>_. 0) = (s, m, x, e)"
    by (metis surj_pair)
  show ?thesis
    using run mbox_reply_wellformed [OF sample_msg_simps(1) run refl refl] by (auto simp: sample_msg_simps)
qed

lemma mbox_status_sticks_witness:
  "\<exists>x e. pf_mbox_handle ram_env sample_pf 255 (sample_msg MBOX_OP_FMAP 3) (\<lambda>_. 0) =
     (255, (sample_msg MBOX_OP_FMAP 3)[1 := 72], x, e)"
proof -
  obtain s m x e where run: "pf_mbox_handle ram_env sample_pf 0 (sample_msg MBOX_OP_FMAP 3) (\<lambda>_. 0) = (s, m, x, e)"
    by (metis surj_pair)
  then have "s = 0" "m = (sample_msg MBOX_OP_FMAP 3)[1 := 72]"
    by (auto simp: pf_mbox_handle_def sample_msg_simps vf_qbase_default_def Let_def simp del: op_num.simps)
  then show ?thesis
    using mbox_status_sticks [OF _ run, of 255] by auto
qed

theorem vf_queue_ranges_witness:
  "unat (vf_qbase_default 2) + 8 \<le> unat (vf_qbase_default 249) \<and> unat (vf_qbase_default 249) + 8 \<le> 2048"
  using vf_queue_ranges [of 2 249 "unat (vf_qbase_default 2)" "sample_msg MBOX_OP_FMAP 2" "sample_msg MBOX_OP_FMAP 250"
      ram_env sample_pf "\<lambda>_. 0"] sample_msg_simps
  by simp

end
