(* ===== verification/Qdma_Mbox_Vf.thy ===== *)
theory Qdma_Mbox_Vf
  imports Qdma_Mbox_Pf
begin

text \<open>
  The virtual function build of the driver: the operations that a virtual function cannot do
  itself and asks its physical function for (\<open>qdma_context.c\<close>, \<open>qdma_sriov.c\<close> and
  \<open>qdma_device.c\<close> under \<open>__QDMA_VF__\<close>) and its side of the mailbox (\<open>qdma_mbox.c\<close>). The names of
  the functions that exist in both builds end in \<open>_vf\<close>. As in \<open>qdma_mbox_send_msg\<close>, \<open>reply\<close> is
  what the handler has stored when a wait ends.
\<close>

section \<open>Requests\<close>

definition vf_msg :: "xlnx_dma_dev \<Rightarrow> mbox_msg_op \<Rightarrow> mbox_msg" where
  "vf_msg xdev op =
     upd_hdr (\<lambda>h. h\<lparr>hdr_op := op_num op, hdr_src := x_func_id xdev, hdr_dst := x_func_id_parent xdev\<rparr>) zero_msg"

text \<open>What is left to do after \<open>qdma_mbox_send_msg\<close> has returned.\<close>

definition reply_res :: "int res \<Rightarrow> mbox_msg \<Rightarrow> int res" where
  "reply_res rv m =
     (case rv of
        Inl err \<Rightarrow> Inl err
      | Inr _ \<Rightarrow> if hdr_ack (msg_hdr m) then status_res (hdr_status (msg_hdr m)) else Inl EINVAL)"

definition qdma_descq_context_clear_vf ::
  "'e env \<Rightarrow> (mbox_msg \<Rightarrow> 'e \<Rightarrow> mbox_msg \<times> 'e) \<Rightarrow> xlnx_dma_dev \<Rightarrow> u32 \<Rightarrow> bool \<Rightarrow> bool \<Rightarrow> 'e
     \<Rightarrow> int res \<times> 'e" where
  "qdma_descq_context_clear_vf E reply xdev qid_hw st c2h e =
     (let m = (vf_msg xdev MBOX_OP_QCTXT_CLR)[1 := qctxt_word
                \<lparr>qx_clear = False, qx_verify = False, qx_c2h = c2h, qx_st = st, qx_qid = ucast qid_hw\<rparr>];
          ((rv, m), e) = qdma_mbox_send_msg E True reply m True e
      in (reply_res rv m, e))"

definition qdma_descq_context_read_vf ::
  "'e env \<Rightarrow> (mbox_msg \<Rightarrow> 'e \<Rightarrow> mbox_msg \<times> 'e) \<Rightarrow> xlnx_dma_dev \<Rightarrow> u32 \<Rightarrow> bool \<Rightarrow> bool
     \<Rightarrow> hw_descq_context \<Rightarrow> 'e \<Rightarrow> (int res \<times> hw_descq_context) \<times> 'e" where
  "qdma_descq_context_read_vf E reply xdev qid_hw st c2h context e =
     (let m = (vf_msg xdev MBOX_OP_QCTXT_RD)[1 := qctxt_word
                \<lparr>qx_clear = False, qx_verify = False, qx_c2h = c2h, qx_st = st, qx_qid = ucast qid_hw\<rparr>];
          ((rv, m), e) = qdma_mbox_send_msg E True reply m True e
      in case reply_res rv m of
           Inl err \<Rightarrow> ((Inl err, context), e)
         | Inr s \<Rightarrow> if s \<noteq> 0 then ((Inr s, context), e) else ((Inr 0, msg_context m), e))"

definition setup_msg :: "xlnx_dma_dev \<Rightarrow> qdma_descq \<Rightarrow> mbox_msg" where
  "setup_msg xdev descq =
     put_context (make_context xdev descq)
       ((vf_msg xdev MBOX_OP_QCTXT_WRT)[1 := qctxt_word
          \<lparr>qx_clear = True, qx_verify = True, qx_c2h = qc_c2h (q_conf descq), qx_st = qc_st (q_conf descq),
           qx_qid = ucast (q_qidx_hw descq)\<rparr>])"

definition qdma_descq_context_setup_vf ::
  "'e env \<Rightarrow> (mbox_msg \<Rightarrow> 'e \<Rightarrow> mbox_msg \<times> 'e) \<Rightarrow> xlnx_dma_dev \<Rightarrow> qdma_descq \<Rightarrow> 'e \<Rightarrow> int res \<times> 'e" where
  "qdma_descq_context_setup_vf E reply xdev descq e =
     (let ((rv, m), e) = qdma_mbox_send_msg E True reply (setup_msg xdev descq) True e
      in (reply_res rv m, e))"

text \<open>
  The interrupt contexts, in messages of up to seven vectors. The loop variables are those of
  the code; \<open>copy\<close> counts vectors, but is the number of words that are copied.
\<close>

definition MBOX_INTR_CTXT_VEC_MAX :: u8 where
  [simp]: "MBOX_INTR_CTXT_VEC_MAX = 7"

definition intr_ctxt_msg :: "xlnx_dma_dev \<Rightarrow> u32 list \<Rightarrow> nat \<Rightarrow> u8 \<Rightarrow> mbox_msg" where
  "intr_ctxt_msg xdev data i copy =
     (let w = take (unat copy) (drop (2 * i) data);
          m = (vf_msg xdev MBOX_OP_INTR_CTXT)
                [1 := 1 OR push_bit 16 (ucast (of_nat i :: u8)) OR push_bit 24 (ucast copy)]
      in take 2 m @ w @ drop (2 + length w) m)"

partial_function (option) intr_ctxt_loop ::
  "'e env \<Rightarrow> (mbox_msg \<Rightarrow> 'e \<Rightarrow> mbox_msg \<times> 'e) \<Rightarrow> xlnx_dma_dev \<Rightarrow> u32 list \<Rightarrow> nat \<Rightarrow> 'e
     \<Rightarrow> (int res \<times> 'e) option" where
  "intr_ctxt_loop E reply xdev data i e =
     (let copy = min (of_nat (x_num_vecs xdev - i)) MBOX_INTR_CTXT_VEC_MAX;
          ((rv, m), e) = qdma_mbox_send_msg E True reply (intr_ctxt_msg xdev data i copy) True e
      in case reply_res rv m of
           Inl err \<Rightarrow> Some (Inl err, e)
         | Inr s \<Rightarrow>
             if s \<noteq> 0 then Some (Inr s, e)
             else if i + unat copy < x_num_vecs xdev then intr_ctxt_loop E reply xdev data (i + unat copy) e
             else Some (Inr 0, e))"

definition qdma_intr_context_setup_vf ::
  "'e env \<Rightarrow> (mbox_msg \<Rightarrow> 'e \<Rightarrow> mbox_msg \<times> 'e) \<Rightarrow> xlnx_dma_dev \<Rightarrow> 'e \<Rightarrow> (int res \<times> 'e) option" where
  "qdma_intr_context_setup_vf E reply xdev e =
     (if \<not> x_intr_coal_en xdev then Some (Inr 0, e)
      else case make_intr_context xdev (2 * XDEV_NUM_IRQ_MAX) of
             Inl err \<Rightarrow> Some (Inl err, e)
           | Inr data \<Rightarrow> intr_ctxt_loop E reply xdev data 0 e)"

text \<open>Announcing the function and taking leave; neither waits for a reply.\<close>

definition hello_msg :: "mbox_msg_op \<Rightarrow> mbox_msg" where
  "hello_msg op = upd_hdr (hdr_op_update (\<lambda>_. op_num op)) zero_msg"

definition xdev_sriov_vf_online_vf ::
  "'e env \<Rightarrow> (mbox_msg \<Rightarrow> 'e \<Rightarrow> mbox_msg \<times> 'e) \<Rightarrow> 'e \<Rightarrow> int res \<times> 'e" where
  "xdev_sriov_vf_online_vf E reply e =
     (case qdma_mbox_send_msg E True reply (hello_msg MBOX_OP_HELLO) False e of
        ((Inl err, m), e) \<Rightarrow> (Inl err, e) | ((Inr _, m), e) \<Rightarrow> (Inr 0, e))"

definition xdev_sriov_vf_offline_vf ::
  "'e env \<Rightarrow> (mbox_msg \<Rightarrow> 'e \<Rightarrow> mbox_msg \<times> 'e) \<Rightarrow> 'e \<Rightarrow> int res \<times> 'e" where
  "xdev_sriov_vf_offline_vf E reply e =
     (case qdma_mbox_send_msg E True reply (hello_msg MBOX_OP_BYE) False e of
        ((Inl err, m), e) \<Rightarrow> (Inl err, e) | ((Inr _, m), e) \<Rightarrow> (Inr 0, e))"

text \<open>Asking for queues; the numbers of the queues move up by the base that is granted.\<close>

definition shift_queues :: "u16 \<Rightarrow> u16 \<Rightarrow> qdma_descq list \<Rightarrow> qdma_descq list" where
  "shift_queues qbase qmax qs =
     map (\<lambda>descq. descq\<lparr>q_qidx_hw := q_qidx_hw descq + ucast qbase\<rparr>) (take (unat qmax) qs) @ drop (unat qmax) qs"

definition device_set_qrange_vf ::
  "'e env \<Rightarrow> (mbox_msg \<Rightarrow> 'e \<Rightarrow> mbox_msg \<times> 'e) \<Rightarrow> xlnx_dma_dev \<Rightarrow> qdma_dev \<Rightarrow> 'e
     \<Rightarrow> unit res \<times> xlnx_dma_dev \<times> qdma_dev \<times> 'e" where
  "device_set_qrange_vf E reply xdev qdev e =
     (let m = (hello_msg MBOX_OP_FMAP)[1 := ucast (qd_qbase qdev), 2 := ucast (qd_qmax qdev)]
      in case qdma_mbox_send_msg E True reply m True e of
           ((Inl err, m), e) \<Rightarrow> (Inl err, xdev, qdev, e)
         | ((Inr _, m), e) \<Rightarrow>
             let qbase = ucast (fmap_qbase m); qmax = qd_qmax qdev
             in (Inr (), xdev\<lparr>x_func_id := hdr_dst (msg_hdr m), x_func_id_parent := hdr_src (msg_hdr m)\<rparr>,
                 qdev\<lparr>qd_qbase := qbase, qd_h2c_descq := shift_queues qbase qmax (qd_h2c_descq qdev),
                      qd_c2h_descq := shift_queues qbase qmax (qd_c2h_descq qdev), qd_init_qrange := True\<rparr>, e))"

section \<open>The handler\<close>

text \<open>An acknowledgement tells the function its number and, if somebody waits, is handed over.\<close>

definition vf_mbox_ack :: "xlnx_dma_dev \<Rightarrow> mbox_msg \<Rightarrow> xlnx_dma_dev" where
  "vf_mbox_ack xdev m =
     (let h = msg_hdr m;
          xdev = (if x_func_id xdev = 0
                  then xdev\<lparr>x_func_id := hdr_dst h, x_func_id_parent := hdr_src h\<rparr> else xdev)
      in if hdr_wait h then xdev\<lparr>x_m_req := m\<rparr> else xdev)"

partial_function (option) vf_mbox_loop ::
  "'e env \<Rightarrow> xlnx_dma_dev \<Rightarrow> u8 \<Rightarrow> 'e \<Rightarrow> (xlnx_dma_dev \<times> 'e) option" where
  "vf_mbox_loop E xdev status e =
     (case mbox_read E True (x_m_resp xdev) False e of
        ((Inl _, m), e) \<Rightarrow> Some (xdev\<lparr>x_m_resp := m\<rparr>, e)
      | ((Inr _, m), e) \<Rightarrow>
          if hdr_ack (msg_hdr m) then vf_mbox_loop E (vf_mbox_ack (xdev\<lparr>x_m_resp := m\<rparr>) m) status e
          else let status = (if mbox_op (hdr_op (msg_hdr m)) = Some MBOX_OP_RESET then status
                             else - MBOX_STATUS_EINVAL)
               in case mbox_send E True (mbox_reply xdev status m) True e of
                    ((Inl _, m), e) \<Rightarrow> Some (xdev\<lparr>x_m_resp := m\<rparr>, e)
                  | ((Inr _, m), e) \<Rightarrow>
                      if xlnx_dma_device_flag_check xdev XDEV_FLAG_OFFLINE then Some (xdev\<lparr>x_m_resp := m\<rparr>, e)
                      else vf_mbox_loop E (xdev\<lparr>x_m_resp := m\<rparr>) status e)"

definition qdma_mbox_proc_vf :: "'e env \<Rightarrow> xlnx_dma_dev \<Rightarrow> 'e \<Rightarrow> (xlnx_dma_dev \<times> 'e) option" where
  "qdma_mbox_proc_vf E xdev e =
     (if dc_pdev (x_conf xdev) = 0 then Some (xdev, e)
      else case vf_mbox_loop E xdev MBOX_STATUS_GOOD e of
             None \<Rightarrow> None
           | Some (xdev, e) \<Rightarrow> Some (mbox_proc_end xdev, e))"

section \<open>A context set up through the mailbox\<close>

text \<open>
  A message as the physical function gets it: the words \<open>mbox_send\<close> puts into the registers, with
  the sender as the hardware reports it.
\<close>

definition delivered :: "u8 \<Rightarrow> mbox_msg \<Rightarrow> mbox_msg" where
  "delivered f m = upd_hdr (\<lambda>h. h\<lparr>hdr_sent := False, hdr_src := f\<rparr>) m"

lemma make_context_ok: "context_ok (make_context xdev descq)"
  by (auto simp: make_context_def context_ok_def zero_context_def make_sw_context_def make_prefetch_context_def
      make_wrb_context_def Let_def)

lemma length_vf_msg [simp]: "length (vf_msg xdev op) = 16"
  by (simp add: vf_msg_def)

lemma msg_hdr_vf_msg: "hdr_op (msg_hdr (vf_msg xdev op)) = op_num op" "vf_msg xdev op \<noteq> []"
proof -
  have "zero_msg \<noteq> []"
    by (simp add: zero_msg_def)
  then show "hdr_op (msg_hdr (vf_msg xdev op)) = op_num op" "vf_msg xdev op \<noteq> []"
    by (simp_all add: vf_msg_def)
qed

lemma setup_msg_content:
  assumes "m = upd_hdr f (setup_msg xdev descq)" and "\<And>h. hdr_op (f h) = hdr_op h"
  shows "length m = 16" and "hdr_op (msg_hdr m) = op_num MBOX_OP_QCTXT_WRT"
    and "msg_context m = make_context xdev descq"
    and "msg_qctxt m = \<lparr>qx_clear = True, qx_verify = True, qx_c2h = qc_c2h (q_conf descq),
           qx_st = qc_st (q_conf descq), qx_qid = ucast (q_qidx_hw descq)\<rparr>"
proof -
  let ?q = "\<lparr>qx_clear = True, qx_verify = True, qx_c2h = qc_c2h (q_conf descq),
    qx_st = qc_st (q_conf descq), qx_qid = ucast (q_qidx_hw descq)\<rparr>"
  let ?m = "(vf_msg xdev MBOX_OP_QCTXT_WRT)[1 := qctxt_word ?q]"
  have len: "length ?m = 16" and q: "?m ! 1 = qctxt_word ?q"
    by simp_all
  have hdr: "msg_hdr ?m = msg_hdr (vf_msg xdev MBOX_OP_QCTXT_WRT)"
    by (simp add: msg_hdr_def)
  note p = put_context_ok [OF make_context_ok [of xdev descq] len]
  have "setup_msg xdev descq = put_context (make_context xdev descq) ?m"
    by (simp add: setup_msg_def)
  moreover from this have "setup_msg xdev descq \<noteq> []"
    using p(1) by force
  ultimately show "length m = 16" and "hdr_op (msg_hdr m) = op_num MBOX_OP_QCTXT_WRT"
    and "msg_context m = make_context xdev descq" and "msg_qctxt m = ?q"
    using p hdr msg_hdr_vf_msg msg_qctxt_word [OF q] by (simp_all add: assms del: op_num.simps)
qed

lemma ucast_u16_roundtrip: "unat q < 2 ^ 16 \<Longrightarrow> (ucast (ucast q :: u16) :: u32) = q" for q :: u32
proof (rule bit_word_eqI)
  fix n assume "unat q < 2 ^ 16" "n < LENGTH(32)"
  then have "q < 2 ^ 16"
    by (simp add: word_less_nat_alt)
  then have "16 \<le> n \<Longrightarrow> \<not> bit q n"
    by (rule bit_less_exp)
  then show "bit (ucast (ucast q :: u16) :: u32) n = bit q n"
    using \<open>n < LENGTH(32)\<close> by (cases "n < 16") (auto simp: bit_simps)
qed

text \<open>
  C23: Setting up the contexts of a queue through the mailbox is the same as setting them up
  directly: the physical function that handles the request of a virtual function performs, on
  its device, exactly the register accesses that the physical function build would perform for
  the same queue, and answers with a status that is zero exactly if they succeed; when that
  answer arrives, the virtual function returns 0 or the negative status. This is for a queue without
  interrupt, whose vector need not be mapped, with a number that fits the message, and for a
  handler that starts with status 0: a status left from an earlier message of the same run stays
  and is outside of this.
\<close>

theorem vf_context_setup_equivalent:
  assumes "q_irq_en descq = 0" and "unat (q_qidx_hw descq) < 2 ^ 16"
    and "qdma_descq_context_setup E xdev descq e = (rv, e')"
    and "sent = upd_hdr (\<lambda>h. h\<lparr>hdr_ack := False, hdr_wait := True\<rparr>) (setup_msg xdev descq)"
    and "mbox_send V True sent True v = ((Inr (), m1), v1)"
    and "reply zero_msg v1 = (mbox_reply pf (fail_status rv 0) (delivered f sent), v2)"
  shows "pf_mbox_handle E pf 0 (delivered f sent) e = (fail_status rv 0, delivered f sent, pf, e')
    \<and> qdma_descq_context_setup_vf V reply xdev descq v =
      (case rv of Inr _ \<Rightarrow> Inr 0 | Inl _ \<Rightarrow> Inl (Status (- 1)), v2)"
proof (rule conjI)
  let ?d = "delivered f sent"
  have d: "?d = upd_hdr (\<lambda>h. h\<lparr>hdr_ack := False, hdr_wait := True, hdr_sent := False, hdr_src := f\<rparr>)
      (setup_msg xdev descq)"
    by (simp add: delivered_def assms(4) comp_def)
  note content = setup_msg_content [OF d, simplified]
  show "pf_mbox_handle E pf 0 ?d e = (fail_status rv 0, ?d, pf, e')"
    using assms(1-3) content ucast_u16_roundtrip [OF assms(2)]
    by (auto simp: pf_mbox_handle_def qdma_descq_context_setup_def Let_def mbox_op_def split: prod.splits)
  have "m1 = upd_hdr (hdr_sent_update (\<lambda>_. True)) sent"
    using assms(5) by (auto simp: mbox_send_def Let_def comp_def split: prod.splits if_splits)
  then have m1: "m1 = upd_hdr (\<lambda>h. h\<lparr>hdr_ack := False, hdr_wait := True, hdr_sent := True\<rparr>) (setup_msg xdev descq)"
    by (simp add: assms(4) comp_def)
  have op: "hdr_op (msg_hdr m1) = op_num MBOX_OP_QCTXT_WRT"
    by (rule setup_msg_content(2) [OF m1]) simp
  have ne: "?d \<noteq> []"
    using content(1) by force
  define r where "r = mbox_reply pf (fail_status rv 0) ?d"
  have r: "hdr_op (msg_hdr r) = hdr_op (msg_hdr m1)" "hdr_ack (msg_hdr r)"
    "hdr_status (msg_hdr r) = fail_status rv 0"
    using ne op content(2) by (simp_all add: r_def mbox_reply_def)
  have "fail_status rv 0 = (case rv of Inl _ \<Rightarrow> 255 | Inr _ \<Rightarrow> 0)" and "sint (255 :: u8) = - 1"
    by (simp_all add: fail_status_def split: sum.split)
  then show "qdma_descq_context_setup_vf V reply xdev descq v =
      (case rv of Inr _ \<Rightarrow> Inr 0 | Inl _ \<Rightarrow> Inl (Status (- 1)), v2)"
    using assms(4-6) r unfolding r_def [symmetric]
    by (auto simp: qdma_descq_context_setup_vf_def qdma_mbox_send_msg_def reply_res_def status_res_def Let_def
        split: sum.split)
qed

theorem vf_context_setup_equivalent_witness:
  "\<exists>reply v2. qdma_descq_context_setup_vf ram_env reply sample_xdev sample_mm (\<lambda>_. 0) = (Inr 0, v2)"
proof -
  let ?sent = "upd_hdr (\<lambda>h. h\<lparr>hdr_ack := False, hdr_wait := True\<rparr>) (setup_msg sample_xdev sample_mm)"
  define reply where "reply = (\<lambda>(z :: mbox_msg) (v :: u32 \<Rightarrow> u32).
      (mbox_reply sample_pf (fail_status (Inr () :: unit res) 0) (delivered 3 ?sent), v))"
  obtain w1 w2 w3 where "ctx_sw (make_context sample_xdev sample_mm) = [0, w1, w2, w3]"
    using ctx_sw_make_context [of sample_xdev sample_mm] by blast
  moreover have q: "q_irq_en sample_mm = 0" "q_qidx_hw sample_mm = 0"
    "\<not> qc_st (q_conf sample_mm)" "\<not> qc_c2h (q_conf sample_mm)"
    by (simp_all add: sample_simps)
  ultimately have "fst (qdma_descq_context_setup ram_env sample_xdev sample_mm (\<lambda>_. 0)) = Inr ()"
    by (simp add: qdma_descq_context_setup_def qdma_descq_context_clear_def
        qdma_descq_context_program_def ctext_run_simps)
  then obtain e' where run: "qdma_descq_context_setup ram_env sample_xdev sample_mm (\<lambda>_. 0) = (Inr (), e')"
    by (metis prod.collapse)
  have "fst (fst (mbox_send ram_env True ?sent True (\<lambda>_. 0))) = Inr ()"
    by (simp add: mbox_send_def Let_def)
  then obtain m1 v1 where snt: "mbox_send ram_env True ?sent True (\<lambda>_. 0) = ((Inr (), m1), v1)"
    by (metis prod.collapse)
  show ?thesis
    using vf_context_setup_equivalent [OF q(1) _ run refl snt, of reply sample_pf 3 v1] q(2)
    by (auto simp: reply_def)
qed

end
