(* ===== verification/Qdma_Xdev.thy ===== *)
theory Qdma_Xdev
  imports Qdma_Io Qdma_Mbox_Vf
begin

text \<open>
  The devices of the driver (\<open>libqdma/xdev.c\<close>): the list of open devices and the look-ups in it,
  mapping the BARs, opening and closing a device, access to its registers by handle, and the
  flags of a device (\<open>libqdma/xdev.h\<close>). A device in the list is its address (the handle), its
  structure and its mapped BARs; the register window \<open>regs\<close> of a device is the environment the
  operations on it run in. The kernel's PCI interface is a parameter. The structure of a device
  that is being set up is written back into the list when \<open>qdma_device_open\<close> returns.
\<close>

section \<open>Flags\<close>

definition xdev_flag_set :: "u32 \<Rightarrow> xlnx_dma_dev \<Rightarrow> xlnx_dma_dev" where
  "xdev_flag_set f xdev = xdev\<lparr>x_flags := x_flags xdev OR f\<rparr>"

definition xdev_flag_clear :: "u32 \<Rightarrow> xlnx_dma_dev \<Rightarrow> xlnx_dma_dev" where
  "xdev_flag_clear f xdev = xdev\<lparr>x_flags := x_flags xdev AND NOT f\<rparr>"

text \<open>The second result counts the releases of the lock: one too many when the flag was set.\<close>

definition xlnx_dma_device_flag_test_n_set :: "u32 \<Rightarrow> xlnx_dma_dev \<Rightarrow> bool \<times> nat \<times> xlnx_dma_dev" where
  "xlnx_dma_device_flag_test_n_set f xdev =
     (if x_flags xdev AND f \<noteq> 0 then (True, 2, xdev)
      else (False, 1, xdev\<lparr>x_flags := x_flags xdev OR f\<rparr>))"

section \<open>The list of devices\<close>

record dev_node =
  n_hndl :: nat
  n_xdev :: xlnx_dma_dev
  n_bar :: "u64 option list"

abbreviation n_pdev :: "dev_node \<Rightarrow> nat" where
  "n_pdev n \<equiv> dc_pdev (x_conf (n_xdev n))"

abbreviation n_idx :: "dev_node \<Rightarrow> u8" where
  "n_idx n \<equiv> dc_idx (x_conf (n_xdev n))"

text \<open>
  The entry at the head of an empty list, and behind the last one, is the list head itself,
  read as a device: the model has no value for it (\<open>None\<close>).
\<close>

definition xdev_list_first :: "dev_node list \<Rightarrow> dev_node option" where
  "xdev_list_first l = (case l of [] \<Rightarrow> None | n # _ \<Rightarrow> Some n)"

fun xdev_list_next :: "dev_node list \<Rightarrow> nat \<Rightarrow> dev_node option" where
  "xdev_list_next [] h = None"
| "xdev_list_next (n # l) h = (if n_hndl n = h then xdev_list_first l else xdev_list_next l h)"

text \<open>The index of a device is a byte: it wraps after 255.\<close>

definition xdev_list_add :: "dev_node \<Rightarrow> dev_node list \<Rightarrow> dev_node list" where
  "xdev_list_add n l =
     (let idx = (if l = [] then 0 else n_idx (last l) + 1);
          xdev = (n_xdev n)\<lparr>x_conf := (x_conf (n_xdev n))\<lparr>dc_idx := idx\<rparr>\<rparr>
      in l @ [n\<lparr>n_xdev := xdev\<rparr>])"

definition xdev_list_remove :: "nat \<Rightarrow> dev_node list \<Rightarrow> dev_node list" where
  "xdev_list_remove h l = filter (\<lambda>n. n_hndl n \<noteq> h) l"

definition xdev_find_by_pdev :: "nat \<Rightarrow> dev_node list \<Rightarrow> dev_node option" where
  "xdev_find_by_pdev pdev l = find (\<lambda>n. n_pdev n = pdev) l"

definition xdev_find_by_idx :: "int \<Rightarrow> dev_node list \<Rightarrow> dev_node option" where
  "xdev_find_by_idx idx l = find (\<lambda>n. uint (n_idx n) = idx) l"

definition xdev_check_hndl :: "nat \<Rightarrow> nat \<Rightarrow> dev_node list \<Rightarrow> unit res" where
  "xdev_check_hndl pdev hndl l =
     (if pdev = 0 then Inl EINVAL
      else case xdev_find_by_pdev pdev l of
             None \<Rightarrow> Inl EINVAL
           | Some n \<Rightarrow> if n_hndl n \<noteq> hndl then Inl EINVAL else if n_pdev n \<noteq> pdev then Inl EINVAL else Inr ())"

section \<open>The BARs\<close>

text \<open>
  The PCI interface of the kernel. Return values are the integers of the C functions, 0 for
  success; \<open>pci_resource_len\<close> is the length of a BAR after its conversion to \<open>int\<close>; \<open>pcie_set_devctl\<close>
  sets bits of the device control register; \<open>bar_readl\<close> reads the first register of a mapped BAR;
  \<open>xdev_kzalloc\<close> gives the address of a zeroed device structure.
\<close>

definition XDMA_MAX_BARS :: nat where
  [simp]: "XDMA_MAX_BARS = 6"

definition XDMA_MAX_BAR_LEN_MAPPED :: int where
  [simp]: "XDMA_MAX_BAR_LEN_MAPPED = 0x4000000"

record 'e pci_if =
  pci_request_regions :: "'e \<Rightarrow> int \<times> 'e"
  pci_release_regions :: "'e \<Rightarrow> 'e"
  pci_enable_device :: "'e \<Rightarrow> int \<times> 'e"
  pci_disable_device :: "'e \<Rightarrow> 'e"
  pci_set_master :: "'e \<Rightarrow> 'e"
  pcie_set_devctl :: "u16 \<Rightarrow> 'e \<Rightarrow> 'e"
  pci_set_dma_mask :: "nat \<Rightarrow> 'e \<Rightarrow> int \<times> 'e"
  pci_set_consistent_dma_mask :: "nat \<Rightarrow> 'e \<Rightarrow> 'e"
  pci_resource_len :: "nat \<Rightarrow> 'e \<Rightarrow> int"
  pci_iomap :: "nat \<Rightarrow> int \<Rightarrow> 'e \<Rightarrow> u64 option \<times> 'e"
  pci_iounmap :: "u64 \<Rightarrow> 'e \<Rightarrow> 'e"
  bar_readl :: "u64 \<Rightarrow> 'e \<Rightarrow> u32 \<times> 'e"
  xdev_kzalloc :: "'e \<Rightarrow> nat option \<times> 'e"

primrec unmap_loop :: "'e pci_if \<Rightarrow> u64 option list \<Rightarrow> 'e \<Rightarrow> 'e" where
  "unmap_loop P [] e = e"
| "unmap_loop P (b # bs) e = unmap_loop P bs (case b of None \<Rightarrow> e | Some a \<Rightarrow> pci_iounmap P a e)"

definition xdev_unmap_bars :: "'e pci_if \<Rightarrow> dev_node \<Rightarrow> 'e \<Rightarrow> dev_node \<times> 'e" where
  "xdev_unmap_bars P n e = (n\<lparr>n_bar := replicate XDMA_MAX_BARS None\<rparr>, unmap_loop P (n_bar n) e)"

text \<open>The loop over the BARs from number \<open>i\<close> on: the configuration BAR so far, and the BARs mapped.\<close>

primrec map_loop ::
  "'e pci_if \<Rightarrow> nat list \<Rightarrow> int \<Rightarrow> 'e \<Rightarrow> (int \<times> u64 option list) \<times> 'e" where
  "map_loop P [] cfg e = ((cfg, []), e)"
| "map_loop P (i # is) cfg e =
     (case pci_iomap P i (min (pci_resource_len P i e) XDMA_MAX_BAR_LEN_MAPPED) e of
        (None, e) \<Rightarrow> ((cfg, replicate (length (i # is)) None), e)
      | (Some a, e) \<Rightarrow>
          let (cfg, e) =
                (if cfg < 0
                 then let (v, e) = bar_readl P a e
                      in (if v AND 0xFFFF0000 = 0x1FD30000 then int i else cfg, e)
                 else (cfg, e));
              ((cfg, bars), e) = map_loop P is cfg e
          in ((cfg, Some a # bars), e))"

definition set_bar_config :: "int \<Rightarrow> dev_node \<Rightarrow> dev_node" where
  "set_bar_config b n =
     n\<lparr>n_xdev := (n_xdev n)\<lparr>x_conf := (x_conf (n_xdev n))\<lparr>dc_bar_num_config := b\<rparr>\<rparr>\<rparr>"

definition xdev_map_bars :: "'e pci_if \<Rightarrow> bool \<Rightarrow> dev_node \<Rightarrow> 'e \<Rightarrow> unit res \<times> dev_node \<times> 'e" where
  "xdev_map_bars P vf n e =
     (let ((cfg, bars), e) = map_loop P [0..<XDMA_MAX_BARS] (if vf then 0 else - 1) e;
          n = (set_bar_config cfg n)\<lparr>n_bar := bars\<rparr>
      in if cfg < 0 then let (n, e) = xdev_unmap_bars P n e in (Inl EINVAL, n, e)
         else (Inr (), n, e))"

section \<open>Opening and closing a device\<close>

definition xdev_alloc :: "'e pci_if \<Rightarrow> qdma_dev_conf \<Rightarrow> 'e \<Rightarrow> dev_node option \<times> 'e" where
  "xdev_alloc P conf e =
     (case xdev_kzalloc P e of
        (None, e) \<Rightarrow> (None, e)
      | (Some h, e) \<Rightarrow>
          (Some \<lparr>n_hndl = h, n_xdev =
             \<lparr>x_conf = conf\<lparr>dc_bar_num_config := - 1, dc_bar_num_user := - 1\<rparr>, x_flags = 0, x_func_id = 0,
              x_func_id_parent = 0, x_vf_count = 0, x_vf_info = None, x_mbox_timer = False,
              x_m_req = zero_msg, x_m_resp = zero_msg, x_num_vecs = 0, x_msix = [],
              x_intr_list = replicate XDEV_NUM_IRQ_MAX [], x_intr_list_cnt = replicate XDEV_NUM_IRQ_MAX 0,
              x_dev_priv = None, x_intr_coal_en = False, x_intr_coal_list = []\<rparr>,
             n_bar = replicate XDMA_MAX_BARS None\<rparr>, e))"

definition pci_dma_mask_set :: "'e pci_if \<Rightarrow> 'e \<Rightarrow> unit res \<times> 'e" where
  "pci_dma_mask_set P e =
     (case pci_set_dma_mask P 64 e of
        (rv, e) \<Rightarrow>
          if rv = 0 then (Inr (), pci_set_consistent_dma_mask P 32 e)
          else case pci_set_dma_mask P 32 e of
                 (rv, e) \<Rightarrow> if rv = 0 then (Inr (), pci_set_consistent_dma_mask P 32 e) else (Inl EINVAL, e))"

definition PCI_EXP_DEVCTL_RELAX_EN :: u16 where
  [simp]: "PCI_EXP_DEVCTL_RELAX_EN = 0x0010"

definition pci_enable_relaxed_ordering :: "'e pci_if \<Rightarrow> 'e \<Rightarrow> 'e" where
  "pci_enable_relaxed_ordering P e = pcie_set_devctl P PCI_EXP_DEVCTL_RELAX_EN e"

definition pci_setup :: "'e pci_if \<Rightarrow> 'e \<Rightarrow> unit res \<times> 'e" where
  "pci_setup P e =
     (case pci_request_regions P e of
        (rv, e) \<Rightarrow>
          if rv \<noteq> 0 then (Inl (Other rv), e)
          else case pci_enable_device P e of
                 (rv, e) \<Rightarrow>
                   if rv \<noteq> 0 then (Inl (Other rv), pci_release_regions P e)
                   else case pci_dma_mask_set P (pci_set_master P (pci_enable_relaxed_ordering P e)) of
                          (Inl err, e) \<Rightarrow> (Inl err, pci_release_regions P (pci_disable_device P e))
                        | (Inr _, e) \<Rightarrow> (Inr (), e))"

definition dev_conf_name :: "string \<Rightarrow> dev_node \<Rightarrow> dev_node" where
  "dev_conf_name bdf n =
     (let xdev = n_xdev n;
          name = ''qdma'' @ nat_str (unat (n_idx n)) @ ''-p'' @ bdf
      in n\<lparr>n_xdev := xdev\<lparr>x_conf := (x_conf xdev)\<lparr>dc_name := name\<rparr>\<rparr>\<rparr>)"

text \<open>
  The system: the devices and the worker threads. The result of \<open>qdma_device_open\<close>: the return
  value, the handle (0 for none) and the configuration as it is handed back. \<open>reply\<close> answers
  messages of a virtual function, \<open>junk\<close> is uninitialised memory, \<open>bdf\<close> the kernel's name of the
  PCI device.
\<close>

record drv_sys =
  d_list :: "dev_node list"
  d_thr :: qdma_threads

definition device_undo :: "'e pci_if \<Rightarrow> dev_node \<Rightarrow> 'e \<Rightarrow> 'e" where
  "device_undo P n e = pci_release_regions P (pci_disable_device P (snd (xdev_unmap_bars P n e)))"

definition device_online ::
  "'e env \<Rightarrow> bool \<Rightarrow> 'e pci_iov \<Rightarrow> (mbox_msg \<Rightarrow> 'e \<Rightarrow> mbox_msg \<times> 'e) \<Rightarrow> (nat \<Rightarrow> qdma_vf_info) \<Rightarrow> xlnx_dma_dev \<Rightarrow> 'e
     \<Rightarrow> xlnx_dma_dev \<times> 'e" where
  "device_online E vf I reply junk xdev e =
     (let xdev = xdev_flag_clear XDEV_FLAG_OFFLINE xdev;
          (xdev, e) = qdma_mbox_timer_init E vf xdev e;
          xdev = qdma_mbox_timer_start xdev
      in if vf then (xdev, snd (xdev_sriov_vf_online_vf E reply e))
         else if dc_vf_max (x_conf xdev) \<noteq> 0
         then snd (xdev_sriov_enable E I junk xdev (uint (dc_vf_max (x_conf xdev))) e)
         else (xdev, e))"

text \<open>From the list with the new device at its end: the BARs, the queues, and going online.\<close>

definition device_bring_up ::
  "'e env \<Rightarrow> bool \<Rightarrow> 'e pci_if \<Rightarrow> 'e msix_if \<Rightarrow> 'e pci_iov \<Rightarrow> (mbox_msg \<Rightarrow> 'e \<Rightarrow> mbox_msg \<times> 'e)
     \<Rightarrow> (nat \<Rightarrow> qdma_vf_info) \<Rightarrow> qdma_dev_conf \<Rightarrow> drv_sys \<Rightarrow> dev_node list \<Rightarrow> dev_node \<Rightarrow> 'e
     \<Rightarrow> (unit res \<times> nat \<times> qdma_dev_conf) \<times> drv_sys \<times> 'e" where
  "device_bring_up E vf P M I reply junk conf D l n e =
     (case xdev_map_bars P vf n e of
        (Inl err, n, e) \<Rightarrow>
          ((Inl err, 0, conf), D\<lparr>d_list := xdev_list_remove (n_hndl n) l\<rparr>, device_undo P n e)
      | (Inr _, n, e) \<Rightarrow>
          (case qdma_device_init E vf M (n_xdev n) e of
             (Inl err, xdev, e) \<Rightarrow>
               (case qdma_device_cleanup E vf M \<lparr>s_xdev = xdev, s_thr = d_thr D\<rparr> e of
                  (rv, S, e) \<Rightarrow>
                    ((if rv = Inl OOPS then rv else Inl err, 0, conf),
                     D\<lparr>d_list := xdev_list_remove (n_hndl n) l, d_thr := s_thr S\<rparr>, device_undo P n e))
           | (Inr _, xdev, e) \<Rightarrow>
               let (xdev', e) = device_online E vf I reply junk xdev e
               in ((Inr (), n_hndl n, x_conf xdev), D\<lparr>d_list := butlast l @ [n\<lparr>n_xdev := xdev'\<rparr>]\<rparr>, e)))"

definition qdma_device_open ::
  "'e env \<Rightarrow> bool \<Rightarrow> 'e pci_if \<Rightarrow> 'e msix_if \<Rightarrow> 'e pci_iov \<Rightarrow> (mbox_msg \<Rightarrow> 'e \<Rightarrow> mbox_msg \<times> 'e)
     \<Rightarrow> (nat \<Rightarrow> qdma_vf_info) \<Rightarrow> string \<Rightarrow> qdma_dev_conf \<Rightarrow> drv_sys \<Rightarrow> 'e
     \<Rightarrow> (unit res \<times> nat \<times> qdma_dev_conf) \<times> drv_sys \<times> 'e" where
  "qdma_device_open E vf P M I reply junk bdf conf D e =
     (let conf = conf\<lparr>dc_bar_num_config := - 1, dc_bar_num_user := - 1\<rparr> in
      if dc_pdev conf = 0 then ((Inl EINVAL, 0, conf), D, e)
      else if xdev_find_by_pdev (dc_pdev conf) (d_list D) \<noteq> None then ((Inl EINVAL, 0, conf), D, e)
      else case pci_setup P e of
        (Inl err, e) \<Rightarrow> ((Inl err, 0, conf), D, e)
      | (Inr _, e) \<Rightarrow>
        (case xdev_alloc P conf e of
           (None, e) \<Rightarrow> ((Inr (), 0, conf), D, pci_release_regions P (pci_disable_device P e))
         | (Some n, e) \<Rightarrow>
             let l = xdev_list_add (n\<lparr>n_xdev := xdev_flag_set XDEV_FLAG_OFFLINE (n_xdev n)\<rparr>) (d_list D)
             in device_bring_up E vf P M I reply junk conf D l (dev_conf_name bdf (last l)) e))"

definition qdma_device_close ::
  "'e env \<Rightarrow> bool \<Rightarrow> 'e pci_if \<Rightarrow> 'e msix_if \<Rightarrow> 'e pci_iov \<Rightarrow> (mbox_msg \<Rightarrow> 'e \<Rightarrow> mbox_msg \<times> 'e)
     \<Rightarrow> nat \<Rightarrow> nat \<Rightarrow> drv_sys \<Rightarrow> 'e \<Rightarrow> unit res \<times> drv_sys \<times> 'e" where
  "qdma_device_close E vf P M I reply pdev hndl D e =
     (if hndl = 0 then (Inr (), D, e)
      else case xdev_check_hndl pdev hndl (d_list D) of
        Inl err \<Rightarrow> (Inr (), D, e)
      | Inr _ \<Rightarrow>
          let n = the (xdev_find_by_pdev pdev (d_list D));
              (xdev, e) = (if vf then (n_xdev n, snd (xdev_sriov_vf_offline_vf E reply e))
                           else xdev_sriov_disable I (n_xdev n) e)
          in case qdma_device_cleanup E vf M \<lparr>s_xdev = xdev, s_thr = d_thr D\<rparr> e of
               (rv, S, e) \<Rightarrow>
                 if rv = Inl OOPS then (rv, D\<lparr>d_thr := s_thr S\<rparr>, e)
                 else let (n, e) = xdev_unmap_bars P (n\<lparr>n_xdev := qdma_mbox_timer_stop (s_xdev S)\<rparr>) e
                      in (Inr (), D\<lparr>d_list := xdev_list_remove hndl (d_list D), d_thr := s_thr S\<rparr>,
                          pci_disable_device P (pci_release_regions P e)))"

section \<open>Access by handle\<close>

text \<open>A handle is dereferenced before it is checked; a handle that is no device is a fault.\<close>

definition dev_at :: "nat \<Rightarrow> dev_node list \<Rightarrow> dev_node option" where
  "dev_at hndl l = find (\<lambda>n. n_hndl n = hndl) l"

definition qdma_device_get_config :: "nat \<Rightarrow> dev_node list \<Rightarrow> qdma_dev_conf option res" where
  "qdma_device_get_config hndl l =
     (case dev_at hndl l of
        None \<Rightarrow> Inl OOPS
      | Some n \<Rightarrow>
          (case xdev_check_hndl (n_pdev n) hndl l of Inl err \<Rightarrow> Inr None | Inr _ \<Rightarrow> Inr (Some (x_conf (n_xdev n)))))"

definition qdma_device_read_config_register ::
  "'e env \<Rightarrow> nat \<Rightarrow> u32 \<Rightarrow> dev_node list \<Rightarrow> 'e \<Rightarrow> u32 res \<times> 'e" where
  "qdma_device_read_config_register E hndl reg_addr l e =
     (case dev_at hndl l of
        None \<Rightarrow> (Inl OOPS, e)
      | Some n \<Rightarrow>
          (case xdev_check_hndl (n_pdev n) hndl l of
             Inl err \<Rightarrow> (Inr (- 22), e)
           | Inr _ \<Rightarrow> let (v, e) = env_readl E reg_addr e in (Inr v, e)))"

definition qdma_device_write_config_register ::
  "'e env \<Rightarrow> nat \<Rightarrow> u32 \<Rightarrow> u32 \<Rightarrow> dev_node list \<Rightarrow> 'e \<Rightarrow> unit res \<times> 'e" where
  "qdma_device_write_config_register E hndl reg_addr v l e =
     (case dev_at hndl l of
        None \<Rightarrow> (Inl OOPS, e)
      | Some n \<Rightarrow>
          (case xdev_check_hndl (n_pdev n) hndl l of
             Inl err \<Rightarrow> (Inr (), e)
           | Inr _ \<Rightarrow> (Inr (), env_writel E reg_addr v e)))"

section \<open>The list identifies the devices\<close>

definition xlist_ok :: "dev_node list \<Rightarrow> bool" where
  "xlist_ok l \<longleftrightarrow> sorted_wrt (<) (map n_idx l) \<and> distinct (map n_pdev l) \<and> distinct (map n_hndl l)
     \<and> 0 \<notin> set (map n_pdev l)"

text \<open>What setting up a device keeps of its identity.\<close>

definition same_dev :: "xlnx_dma_dev \<Rightarrow> xlnx_dma_dev \<Rightarrow> bool" where
  "same_dev x y \<longleftrightarrow> dc_idx (x_conf y) = dc_idx (x_conf x) \<and> dc_pdev (x_conf y) = dc_pdev (x_conf x)"

lemma intr_setup_conf: "x_conf (fst (snd (intr_setup M x e))) = x_conf x"
  by (simp add: intr_setup_def Let_def case_prod_beta)

lemma device_id_same: "same_dev x (fst (device_id E vf x e))"
  by (simp add: device_id_def same_dev_def Let_def case_prod_beta)

lemma device_init_same:
  assumes "qdma_device_init E vf M x e = (rv, y, e')"
  shows "same_dev x y"
proof -
  obtain x1 e1 where id: "device_id E vf x e = (x1, e1)"
    by (rule prod.exhaust)
  obtain r x2 e2 where su: "intr_setup M x1 e1 = (r, x2, e2)"
    by (rule prod_cases3)
  have "same_dev x x2"
    using device_id_same [of x E vf e] intr_setup_conf [of M x1 e1] id su by (simp add: same_dev_def)
  moreover have "x_conf y = x_conf x2"
    using assms id su by (auto simp: qdma_device_init_def Let_def split: prod.splits bool.splits if_splits)
  ultimately show ?thesis
    by (simp add: same_dev_def)
qed

lemma device_online_same: "same_dev x (fst (device_online E vf I reply junk x e))"
proof -
  have "x_conf (fst (snd (xdev_sriov_enable E I junk x n e))) = x_conf x" for x n e
    by (simp add: xdev_sriov_enable_def xdev_sriov_disable_def Let_def case_prod_beta split: prod.split bool.split)
  then show ?thesis
    by (simp add: device_online_def qdma_mbox_timer_init_def qdma_mbox_timer_start_def xdev_flag_clear_def
        same_dev_def Let_def case_prod_beta)
qed

lemma map_bars_same: "xdev_map_bars P vf n e = (rv, m, e') \<Longrightarrow> same_dev (n_xdev n) (n_xdev m) \<and> n_hndl m = n_hndl n"
  by (auto simp: xdev_map_bars_def xdev_unmap_bars_def set_bar_config_def same_dev_def Let_def case_prod_beta split: if_splits)

text \<open>The allocator never returns 0 or the address of a device that is open.\<close>

definition fresh_alloc :: "'e pci_if \<Rightarrow> dev_node list \<Rightarrow> bool" where
  "fresh_alloc P l \<longleftrightarrow> (\<forall>e h e'. xdev_kzalloc P e = (Some h, e') \<longrightarrow> h \<noteq> 0 \<and> h \<notin> n_hndl ` set l)"

text \<open>Opening a device leaves the list as it was, or adds the new device at its end.\<close>

lemma bring_up_list:
  assumes "device_bring_up E vf P M I reply junk conf D l n e = ((rv, hndl, conf'), D', e')"
    and "l = d_list D @ [m]" and "n_hndl n = n_hndl m" and "n_hndl m \<notin> n_hndl ` set (d_list D)"
  shows "hndl = 0 \<and> d_list D' = d_list D
    \<or> rv = Inr () \<and> (\<exists>k. d_list D' = d_list D @ [k] \<and> hndl = n_hndl n \<and> n_hndl k = n_hndl n \<and> same_dev (n_xdev n) (n_xdev k)
        \<and> dc_idx conf' = n_idx k)"
proof -
  obtain r1 n1 e1 where mb: "xdev_map_bars P vf n e = (r1, n1, e1)"
    by (rule prod_cases3)
  note same1 = map_bars_same [OF mb]
  then have gone: "xdev_list_remove (n_hndl n1) l = d_list D"
    using assms(2-4) by (auto simp: xdev_list_remove_def filter_id_conv image_iff)
  show ?thesis
  proof (cases r1)
    case (Inl err)
    then show ?thesis
      using assms(1) mb gone by (auto simp: device_bring_up_def)
  next
    case (Inr u)
    obtain r2 x2 e2 where ini: "qdma_device_init E vf M (n_xdev n1) e1 = (r2, x2, e2)"
      by (rule prod_cases3)
    have "same_dev (n_xdev n) (fst (device_online E vf I reply junk x2 e2))" "same_dev (n_xdev n) x2"
      using same1 device_init_same [OF ini] device_online_same [of x2 E vf I reply junk e2] by (simp_all add: same_dev_def)
    then show ?thesis
      using assms(1,2) mb Inr ini gone same1
      by (auto simp: device_bring_up_def Let_def same_dev_def split: sum.splits prod.splits)
  qed
qed

lemma device_open_list:
  assumes "qdma_device_open E vf P M I reply junk bdf conf D e = ((rv, hndl, conf'), D', e')"
    and "fresh_alloc P (d_list D)"
  shows "hndl = 0 \<and> d_list D' = d_list D
    \<or> rv = Inr () \<and> (\<exists>n. d_list D' = d_list D @ [n] \<and> hndl = n_hndl n \<and> n_hndl n \<noteq> 0 \<and> n_hndl n \<notin> n_hndl ` set (d_list D)
        \<and> n_pdev n = dc_pdev conf \<and> n_pdev n \<noteq> 0 \<and> n_pdev n \<notin> n_pdev ` set (d_list D) \<and> dc_idx conf' = n_idx n
        \<and> n_idx n = (if d_list D = [] then 0 else n_idx (last (d_list D)) + 1))"
proof (cases "hndl = 0 \<and> d_list D' = d_list D")
  case False
  let ?conf = "conf\<lparr>dc_bar_num_config := - 1, dc_bar_num_user := - 1\<rparr>"
  have pdev: "dc_pdev conf \<noteq> 0" "dc_pdev conf \<notin> n_pdev ` set (d_list D)"
    using assms(1) False
    by (auto simp: qdma_device_open_def Let_def xdev_find_by_pdev_def find_None_iff split: if_splits)
  obtain e1 e2 n where n: "xdev_alloc P ?conf e1 = (Some n, e2)" and up:
    "device_bring_up E vf P M I reply junk ?conf D
       (xdev_list_add (n\<lparr>n_xdev := xdev_flag_set XDEV_FLAG_OFFLINE (n_xdev n)\<rparr>) (d_list D))
       (dev_conf_name bdf (last (xdev_list_add (n\<lparr>n_xdev := xdev_flag_set XDEV_FLAG_OFFLINE (n_xdev n)\<rparr>) (d_list D)))) e2
     = ((rv, hndl, conf'), D', e')"
    using assms(1) False
    by (auto simp: qdma_device_open_def Let_def split: if_splits prod.splits sum.splits option.splits)
  have h: "n_hndl n \<notin> n_hndl ` set (d_list D)" "n_pdev n = dc_pdev conf" "n_hndl n \<noteq> 0"
    using n assms(2) by (fastforce simp: xdev_alloc_def fresh_alloc_def split: prod.splits option.splits)+
  obtain m where m: "xdev_list_add (n\<lparr>n_xdev := xdev_flag_set XDEV_FLAG_OFFLINE (n_xdev n)\<rparr>) (d_list D) = d_list D @ [m]"
    "n_hndl m = n_hndl n" "n_pdev m = n_pdev n" "n_idx m = (if d_list D = [] then 0 else n_idx (last (d_list D)) + 1)"
    by (auto simp: xdev_list_add_def Let_def xdev_flag_set_def)
  show ?thesis
    using bring_up_list [OF up [unfolded m(1) last_snoc] refl] False pdev h m(2-)
    by (auto simp: same_dev_def dev_conf_name_def Let_def)
qed simp

lemma xlist_ok_snoc:
  assumes "xlist_ok l" and "n_hndl n \<notin> n_hndl ` set l" and "n_pdev n \<noteq> 0" and "n_pdev n \<notin> n_pdev ` set l"
    and "n_idx n = (if l = [] then 0 else n_idx (last l) + 1)" and "l \<noteq> [] \<longrightarrow> n_idx (last l) < 255"
  shows "xlist_ok (l @ [n])"
proof -
  have "n_idx x < n_idx n" if "x \<in> set l" for x
  proof -
    have "l \<noteq> []"
      using that by auto
    then obtain k y where l: "l = k @ [y]"
      by (metis rev_exhaust)
    have "n_idx x \<le> n_idx (last l)"
      using assms(1) that by (auto simp: l xlist_ok_def sorted_wrt_append)
    also have "\<dots> < n_idx n"
      using assms(5,6) by (simp add: l word_less_nat_alt unat_plus_one [of _ 255])
    finally show ?thesis .
  qed
  then show ?thesis
    using assms(1-4) by (auto simp: xlist_ok_def sorted_wrt_append)
qed

lemma xlist_ok_filter: "xlist_ok l \<Longrightarrow> xlist_ok (filter P l)"
  by (auto simp: xlist_ok_def sorted_wrt_map intro: sorted_wrt_filter distinct_map_filter)

inductive dev_step :: "drv_sys \<times> 'e \<Rightarrow> drv_sys \<times> 'e \<Rightarrow> bool" where
  open_dev: "qdma_device_open E vf P M I reply junk bdf conf D e = (r, D', e') \<Longrightarrow>
     fresh_alloc P (d_list D) \<Longrightarrow>
     d_list D \<noteq> [] \<longrightarrow> n_idx (last (d_list D)) < 255 \<Longrightarrow> dev_step (D, e) (D', e')"
| close_dev: "qdma_device_close E vf P M I reply pdev hndl D e = (rv, D', e') \<Longrightarrow> dev_step (D, e) (D', e')"

lemma dev_step_ok:
  assumes "dev_step s t" and "xlist_ok (d_list (fst s))"
  shows "xlist_ok (d_list (fst t))"
  using assms
proof cases
  case (open_dev E vf P M I reply junk bdf conf D e r D' e')
  then show ?thesis
    using device_open_list [of E vf P M I reply junk bdf conf D e "fst r" "fst (snd r)" "snd (snd r)" D' e']
      assms(2) xlist_ok_snoc [of "d_list D"] by auto
next
  case (close_dev E vf P M I reply pdev hndl D e rv D' e')
  have "d_list D' = d_list D \<or> d_list D' = xdev_list_remove hndl (d_list D)"
    using close_dev(3) by (auto simp: qdma_device_close_def Let_def split: if_splits sum.splits prod.splits)
  then show ?thesis
    using assms(2) close_dev(1,2) xlist_ok_filter by (auto simp: xdev_list_remove_def)
qed

interpretation devs: machine dev_step "\<lambda>s. xlist_ok (d_list (fst s))"
  by unfold_locales (rule dev_step_ok)

lemma find_unique:
  assumes "n \<in> set l" and "\<And>m. m \<in> set l \<Longrightarrow> Q m \<longleftrightarrow> m = n"
  shows "find Q l = Some n"
  using assms by (induction l) auto

text \<open>
  C28: Whatever devices are opened and closed, successfully or not: every device in the list is
  found under its own index and under its own PCI device, and its handle passes the check for
  its PCI device and for no other. (Indices are bytes, taken from that of the last device: this
  holds as long as no device is opened behind one with index 255.)
\<close>

theorem device_table_identifies:
  assumes "dev_step\<^sup>*\<^sup>* (\<lparr>d_list = [], d_thr = T\<rparr>, e) (D, e')" and "n \<in> set (d_list D)"
  shows "xdev_find_by_idx (uint (n_idx n)) (d_list D) = Some n \<and> xdev_find_by_pdev (n_pdev n) (d_list D) = Some n
    \<and> (\<forall>pdev. xdev_check_hndl pdev (n_hndl n) (d_list D) = (if pdev = n_pdev n then Inr () else Inl EINVAL))"
proof -
  have ok: "xlist_ok (d_list D)"
    using devs.reach_inv [OF assms(1)] by (simp add: xlist_ok_def)
  then have inj: "inj_on n_pdev (set (d_list D))" "inj_on n_hndl (set (d_list D))" "inj_on n_idx (set (d_list D))"
    by (auto simp: xlist_ok_def distinct_map strict_sorted_iff)
  have idx: "xdev_find_by_idx (uint (n_idx n)) (d_list D) = Some n"
    unfolding xdev_find_by_idx_def using assms(2) inj(3) by (intro find_unique) (auto simp: inj_on_def word_uint_eq_iff)
  have pdev: "xdev_find_by_pdev (n_pdev m) (d_list D) = Some m" if "m \<in> set (d_list D)" for m
    unfolding xdev_find_by_pdev_def using that inj(1) by (intro find_unique) (auto simp: inj_on_def)
  have "xdev_check_hndl p (n_hndl n) (d_list D) = (if p = n_pdev n then Inr () else Inl EINVAL)" for p
  proof (cases "xdev_find_by_pdev p (d_list D)")
    case None
    then show ?thesis
      using pdev [OF assms(2)] ok assms(2) by (auto simp: xdev_check_hndl_def xlist_ok_def image_iff)
  next
    case (Some m)
    then have "m \<in> set (d_list D)" "n_pdev m = p"
      by (auto simp: xdev_find_by_pdev_def find_Some_iff)
    then show ?thesis
      using Some ok assms(2) inj(2) pdev [OF assms(2)]
      by (auto simp: xdev_check_hndl_def xlist_ok_def inj_on_def image_iff)
  qed
  then show ?thesis
    using idx pdev [OF assms(2)] by simp
qed

lemma index_wraps:
  assumes "n_idx (last (a # l)) = 255" and "n_idx a = 0"
  shows "xdev_find_by_idx 0 (xdev_list_add n (a # l)) = Some a \<and> n_idx (last (xdev_list_add n (a # l))) = 0"
  using assms by (simp add: xdev_list_add_def xdev_find_by_idx_def Let_def)

section \<open>A device that fails to open gives everything back\<close>

text \<open>
  What a driver holds of a PCI device: its regions, the device enabled, and its mapped BARs. The
  environment is extended by this account; only the PCI functions concerned change it.
\<close>

record pci_held =
  h_regions :: int
  h_enabled :: int
  h_bars :: "u64 multiset"

definition lift_env :: "'e env \<Rightarrow> ('e \<times> 'a) env" where
  "lift_env E = \<lparr>
     env_readl = (\<lambda>a (e, h). let (v, e') = env_readl E a e in (v, e', h)),
     env_writel = (\<lambda>a v (e, h). (env_writel E a v e, h)),
     env_udelay = (\<lambda>n (e, h). (env_udelay E n e, h)),
     env_kmalloc = (\<lambda>n (e, h). let (b, e') = env_kmalloc E n e in (b, e', h)),
     env_alloc_page = (\<lambda>(e, h). let (p, e') = env_alloc_page E e in (p, e', h)),
     env_free_page = (\<lambda>p (e, h). (env_free_page E p e, h)),
     env_dma_map_page = (\<lambda>p (e, h). let (m, e') = env_dma_map_page E p e in (m, e', h)),
     env_dma_unmap_page = (\<lambda>m (e, h). (env_dma_unmap_page E m e, h)),
     env_dma_alloc = (\<lambda>n (e, h). let (m, e') = env_dma_alloc E n e in (m, e', h)),
     env_dma_free = (\<lambda>n m (e, h). (env_dma_free E n m e, h))\<rparr>"

definition lift_msix :: "'e msix_if \<Rightarrow> ('e \<times> 'a) msix_if" where
  "lift_msix M = \<lparr>
     msix_vec_count = (\<lambda>(e, h). let (n, e') = msix_vec_count M e in (n, e', h)),
     msix_enable = (\<lambda>n (e, h). let (r, e') = msix_enable M n e in (r, e', h)),
     msix_disable = (\<lambda>(e, h). (msix_disable M e, h)),
     irq_request = (\<lambda>v (e, h). let (r, e') = irq_request M v e in (r, e', h)),
     irq_free = (\<lambda>v (e, h). (irq_free M v e, h))\<rparr>"

definition lift_iov :: "'e pci_iov \<Rightarrow> ('e \<times> 'a) pci_iov" where
  "lift_iov I = \<lparr>
     pci_num_vf = (\<lambda>(e, h). pci_num_vf I e),
     pci_enable_sriov = (\<lambda>n (e, h). let (r, e') = pci_enable_sriov I n e in (r, e', h)),
     pci_disable_sriov = (\<lambda>(e, h). (pci_disable_sriov I e, h))\<rparr>"

definition held_pci :: "'e pci_if \<Rightarrow> ('e \<times> pci_held) pci_if" where
  "held_pci P = \<lparr>
     pci_request_regions = (\<lambda>(e, h). let (r, e') = pci_request_regions P e
        in (r, e', if r = 0 then h\<lparr>h_regions := h_regions h + 1\<rparr> else h)),
     pci_release_regions = (\<lambda>(e, h). (pci_release_regions P e, h\<lparr>h_regions := h_regions h - 1\<rparr>)),
     pci_enable_device = (\<lambda>(e, h). let (r, e') = pci_enable_device P e
        in (r, e', if r = 0 then h\<lparr>h_enabled := h_enabled h + 1\<rparr> else h)),
     pci_disable_device = (\<lambda>(e, h). (pci_disable_device P e, h\<lparr>h_enabled := h_enabled h - 1\<rparr>)),
     pci_set_master = (\<lambda>(e, h). (pci_set_master P e, h)),
     pcie_set_devctl = (\<lambda>v (e, h). (pcie_set_devctl P v e, h)),
     pci_set_dma_mask = (\<lambda>n (e, h). let (r, e') = pci_set_dma_mask P n e in (r, e', h)),
     pci_set_consistent_dma_mask = (\<lambda>n (e, h). (pci_set_consistent_dma_mask P n e, h)),
     pci_resource_len = (\<lambda>i (e, h). pci_resource_len P i e),
     pci_iomap = (\<lambda>i n (e, h). let (r, e') = pci_iomap P i n e
        in (r, e', case r of None \<Rightarrow> h | Some a \<Rightarrow> h\<lparr>h_bars := add_mset a (h_bars h)\<rparr>)),
     pci_iounmap = (\<lambda>a (e, h). (pci_iounmap P a e, h\<lparr>h_bars := h_bars h - {#a#}\<rparr>)),
     bar_readl = (\<lambda>a (e, h). let (v, e') = bar_readl P a e in (v, e', h)),
     xdev_kzalloc = (\<lambda>(e, h). let (r, e') = xdev_kzalloc P e in (r, e', h))\<rparr>"

lemma lift_env_keeps [simp]:
  "snd (snd (env_readl (lift_env E) a x)) = snd x" "snd (env_writel (lift_env E) a v x) = snd x"
  "snd (snd (env_kmalloc (lift_env E) n x)) = snd x"
  by (cases x; simp add: lift_env_def split: prod.splits)+

lemma lift_write_regs [simp]: "snd (write_regs (lift_env E) reg vs x) = snd x"
  by (induction vs arbitrary: reg x) simp_all

lemma lift_msix_keeps [simp]:
  "snd (snd (msix_vec_count (lift_msix M) x)) = snd x" "snd (snd (msix_enable (lift_msix M) n x)) = snd x"
  "snd (msix_disable (lift_msix M) x) = snd x" "snd (snd (irq_request (lift_msix M) v x)) = snd x"
  "snd (irq_free (lift_msix M) v x) = snd x"
  by (cases x; simp add: lift_msix_def split: prod.splits)+

lemma irqs_free_keeps [simp]: "snd (irqs_free (lift_msix M) vs x) = snd x"
proof -
  have "snd (fold (irq_free (lift_msix M)) vs x) = snd x" for vs x
    by (induction vs arbitrary: x) simp_all
  then show ?thesis
    by (simp add: irqs_free_def)
qed

lemma irqs_request_keeps [simp]: "snd (snd (snd (irqs_request (lift_msix M) vs x))) = snd x"
  by (induction vs arbitrary: x) (simp_all add: Let_def case_prod_beta)

lemma intr_setup_keeps [simp]: "snd (snd (snd (intr_setup (lift_msix M) xdev x))) = snd x"
  by (simp add: intr_setup_def Let_def case_prod_beta)

lemma intr_teardown_keeps [simp]: "snd (intr_teardown (lift_msix M) xdev x) = snd x"
  by (simp add: intr_teardown_def Let_def)

lemma lift_init_keeps [simp]:
  "snd (hw_set_global_csr (lift_env E) x) = snd x"
  "snd (init_channels (lift_env E) (\<lambda>i. hw_mm_channel_enable (lift_env E) i b) n x) = snd x"
  "snd (snd (device_id (lift_env E) vf xdev x)) = snd x"
proof -
  show "snd (hw_set_global_csr (lift_env E) x) = snd x"
    by (simp add: hw_set_global_csr_def)
  have "snd (fold (\<lambda>i. hw_mm_channel_enable (lift_env E) (of_nat i) b) is x) = snd x" for "is" x
    by (induction "is" arbitrary: x) (simp_all add: hw_mm_channel_enable_def Let_def)
  then show "snd (init_channels (lift_env E) (\<lambda>i. hw_mm_channel_enable (lift_env E) i b) n x) = snd x"
    by (simp add: init_channels_def)
  show "snd (snd (device_id (lift_env E) vf xdev x)) = snd x"
    by (simp add: device_id_def Let_def case_prod_beta)
qed

lemma device_init_held:
  assumes "qdma_device_init (lift_env E) vf (lift_msix M) xdev x = (rv, y, x')"
  shows "snd x' = snd x" and "rv \<noteq> Inr () \<Longrightarrow> x_dev_priv y = x_dev_priv xdev"
proof -
  obtain x1 e1 where id: "device_id (lift_env E) vf xdev x = (x1, e1)"
    by (rule prod.exhaust)
  obtain r x2 e2 where su: "intr_setup (lift_msix M) x1 e1 = (r, x2, e2)"
    by (rule prod_cases3)
  obtain ok e3 where km: "env_kmalloc (lift_env E) (unat (dc_qsets_max (x_conf xdev)) * 2) e2 = (ok, e3)"
    by (rule prod.exhaust)
  have held: "snd e1 = snd x" "snd e2 = snd e1" "snd e3 = snd e2"
    using lift_init_keeps(3) [of E vf xdev x] intr_setup_keeps [of M x1 e1] id su
      lift_env_keeps(3) [of E "unat (dc_qsets_max (x_conf xdev)) * 2" e2] km by simp_all
  have "x_dev_priv x1 = x_dev_priv xdev"
    using id by (auto simp: device_id_def Let_def case_prod_beta split: if_splits)
  moreover have "x_dev_priv (fst (snd (intr_setup M x e))) = x_dev_priv x" for M x and e :: 'c
    by (simp add: intr_setup_def Let_def case_prod_beta)
  ultimately have "x_dev_priv x2 = x_dev_priv xdev"
    using su by (metis fst_conv snd_conv)
  then show "snd x' = snd x" and "rv \<noteq> Inr () \<Longrightarrow> x_dev_priv y = x_dev_priv xdev"
    using assms id su km held by (auto simp: qdma_device_init_def Let_def split: if_splits bool.splits)
qed

text \<open>The balance of the BARs, and of the steps before them.\<close>

abbreviation mapped :: "u64 option list \<Rightarrow> u64 multiset" where
  "mapped bars \<equiv> mset (map the (filter (\<lambda>b. b \<noteq> None) bars))"

lemma held_pci_simps [simp]:
  "pci_request_regions (held_pci P) (e, h) = (case pci_request_regions P e of
     (r, e') \<Rightarrow> (r, e', if r = 0 then h\<lparr>h_regions := h_regions h + 1\<rparr> else h))"
  "pci_release_regions (held_pci P) (e, h) = (pci_release_regions P e, h\<lparr>h_regions := h_regions h - 1\<rparr>)"
  "pci_enable_device (held_pci P) (e, h) = (case pci_enable_device P e of
     (r, e') \<Rightarrow> (r, e', if r = 0 then h\<lparr>h_enabled := h_enabled h + 1\<rparr> else h))"
  "pci_disable_device (held_pci P) (e, h) = (pci_disable_device P e, h\<lparr>h_enabled := h_enabled h - 1\<rparr>)"
  "pci_set_master (held_pci P) (e, h) = (pci_set_master P e, h)"
  "pcie_set_devctl (held_pci P) v (e, h) = (pcie_set_devctl P v e, h)"
  "pci_set_dma_mask (held_pci P) n (e, h) = (case pci_set_dma_mask P n e of (r, e') \<Rightarrow> (r, e', h))"
  "pci_set_consistent_dma_mask (held_pci P) n (e, h) = (pci_set_consistent_dma_mask P n e, h)"
  "pci_resource_len (held_pci P) i (e, h) = pci_resource_len P i e"
  "pci_iomap (held_pci P) i k (e, h) = (case pci_iomap P i k e of
     (r, e') \<Rightarrow> (r, e', case r of None \<Rightarrow> h | Some a \<Rightarrow> h\<lparr>h_bars := add_mset a (h_bars h)\<rparr>))"
  "pci_iounmap (held_pci P) a (e, h) = (pci_iounmap P a e, h\<lparr>h_bars := h_bars h - {#a#}\<rparr>)"
  "bar_readl (held_pci P) a (e, h) = (case bar_readl P a e of (v, e') \<Rightarrow> (v, e', h))"
  "xdev_kzalloc (held_pci P) (e, h) = (case xdev_kzalloc P e of (r, e') \<Rightarrow> (r, e', h))"
  by (simp_all add: held_pci_def)

lemma map_loop_held:
  "map_loop (held_pci P) is cfg (e, h) = ((cfg', bars), e', h') \<Longrightarrow> h' = h\<lparr>h_bars := h_bars h + mapped bars\<rparr>"
proof (induction "is" arbitrary: cfg e h cfg' bars e' h')
  case (Cons i "is")
  have none: "filter (\<lambda>b. b \<noteq> None) (replicate n None) = ([] :: u64 option list)" for n
    by (induction n) simp_all
  show ?case
    using Cons.prems none [of "length is"]
    by (auto simp: Let_def split: option.splits prod.splits if_splits dest!: Cons.IH)
qed simp

lemma unmap_loop_held:
  "snd (unmap_loop (held_pci P) bars (e, h)) = h\<lparr>h_bars := h_bars h - mapped bars\<rparr>"
  by (induction bars arbitrary: e h) (auto split: option.split)

lemma pci_setup_held:
  "pci_setup (held_pci P) (e, h) = (rv, e', h') \<Longrightarrow>
     h' = (if rv = Inr () then h\<lparr>h_regions := h_regions h + 1, h_enabled := h_enabled h + 1\<rparr> else h)"
  by (auto simp: pci_setup_def pci_dma_mask_set_def pci_enable_relaxed_ordering_def
      split: prod.splits if_splits sum.splits)

lemma map_bars_held:
  assumes "xdev_map_bars (held_pci P) vf n (e, h) = (rv, m, e', h')"
  shows "h' = h\<lparr>h_bars := h_bars h + mapped (n_bar m)\<rparr> \<and> (rv \<noteq> Inr () \<longrightarrow> mapped (n_bar m) = {#})
    \<and> x_dev_priv (n_xdev m) = x_dev_priv (n_xdev n)"
proof -
  obtain cfg bars e1 h1 where l: "map_loop (held_pci P) [0..<XDMA_MAX_BARS] (if vf then 0 else - 1) (e, h) = ((cfg, bars), e1, h1)"
    by (metis surj_pair)
  have none: "mapped (replicate k None) = {#}" for k
    by (induction k) simp_all
  show ?thesis
    using assms l map_loop_held [OF l] unmap_loop_held [of P bars e1 h1] none [of 6]
    by (auto simp: xdev_map_bars_def xdev_unmap_bars_def set_bar_config_def Let_def simp del: upt.simps XDMA_MAX_BARS_def
        split: if_splits)
qed

lemma lift_iov_keeps [simp]:
  "snd (snd (pci_enable_sriov (lift_iov I) k x)) = snd x" "snd (pci_disable_sriov (lift_iov I) x) = snd x"
  by (cases x; simp add: lift_iov_def split: prod.splits)+

lemma sriov_enable_held: "snd (snd (snd (xdev_sriov_enable (lift_env E) (lift_iov I) junk xdev k x))) = snd x"
proof -
  obtain ok y where km: "env_kmalloc (lift_env E) (nat (k * 8 mod 2 ^ 64)) x = (ok, y)"
    by (rule prod.exhaust)
  then have "snd y = snd x"
    using lift_env_keeps(3) [of E "nat (k * 8 mod 2 ^ 64)" x] by simp
  then show ?thesis
    using km by (simp add: xdev_sriov_enable_def xdev_sriov_disable_def Let_def case_prod_beta split: bool.split)
qed

lemma clear_ack_held: "snd (clear_ack_loop (lift_env E) n reg x) = snd x"
  by (induction n arbitrary: reg x) (simp_all add: Let_def case_prod_beta)

lemma device_online_held:
  "snd (snd (device_online (lift_env E) False (lift_iov I) reply junk xdev x)) = snd x"
  by (simp add: device_online_def qdma_mbox_timer_init_def pf_mbox_clear_ack_def clear_ack_held sriov_enable_held
      Let_def case_prod_beta)

lemma undo_held:
  "snd (device_undo (held_pci P) n (e, h)) =
     h\<lparr>h_regions := h_regions h - 1, h_enabled := h_enabled h - 1, h_bars := h_bars h - mapped (n_bar n)\<rparr>"
proof -
  obtain e1 h1 where u: "unmap_loop (held_pci P) (n_bar n) (e, h) = (e1, h1)"
    by (rule prod.exhaust)
  then have "h1 = h\<lparr>h_bars := h_bars h - mapped (n_bar n)\<rparr>"
    using unmap_loop_held [of P "n_bar n" e h] by simp
  then show ?thesis
    using u by (simp add: device_undo_def xdev_unmap_bars_def)
qed

lemma bring_up_held:
  assumes "device_bring_up (lift_env E) False (held_pci P) (lift_msix M) (lift_iov I) reply junk conf D l n (e, h)
      = ((rv, hndl, conf'), D', e', h')"
    and "x_dev_priv (n_xdev n) = None" and "n_hndl n \<noteq> 0"
  shows "if hndl = 0
    then h' = h\<lparr>h_regions := h_regions h - 1, h_enabled := h_enabled h - 1\<rparr> \<and> d_list D' = xdev_list_remove (n_hndl n) l
    else \<exists>k. h' = h\<lparr>h_bars := h_bars h + mapped (n_bar k)\<rparr> \<and> d_list D' = butlast l @ [k] \<and> n_hndl k = hndl \<and> rv = Inr ()"
proof -
  obtain r1 n1 e1 h1 where mb: "xdev_map_bars (held_pci P) False n (e, h) = (r1, n1, e1, h1)"
    by (metis surj_pair)
  note same1 = map_bars_same [OF mb] and held1 = map_bars_held [OF mb]
  obtain r2 x2 e2 h2 where ini: "qdma_device_init (lift_env E) False (lift_msix M) (n_xdev n1) (e1, h1) = (r2, x2, e2, h2)"
    by (metis surj_pair)
  note held2 = device_init_held [OF ini]
  have clean: "qdma_device_cleanup (lift_env E) False (lift_msix M) \<lparr>s_xdev = x2, s_thr = d_thr D\<rparr> (e2, h2)
      = (Inr (), \<lparr>s_xdev = x2, s_thr = d_thr D\<rparr>, e2, h2)" if "r2 \<noteq> Inr ()"
    using held2(2) [OF that] held1 assms(2) by (simp add: qdma_device_cleanup_def)
  obtain x3 e3 h3 where on: "device_online (lift_env E) False (lift_iov I) reply junk x2 (e2, h2) = (x3, e3, h3)"
    by (metis surj_pair)
  have "h3 = h2" "h2 = h1"
    using device_online_held [of E I reply junk x2 "(e2, h2)"] on held2(1) by simp_all
  then have undo: "snd (device_undo (held_pci P) n1 (e', h1)) = h\<lparr>h_regions := h_regions h - 1, h_enabled := h_enabled h - 1\<rparr>" for e'
    using held1 undo_held [of P n1 e' h1] by simp
  show ?thesis
  proof (cases "r1 = Inr () \<and> r2 = Inr ()")
    case True
    then show ?thesis
      using assms(1,3) mb ini on same1 held1 \<open>h3 = h2\<close> \<open>h2 = h1\<close> by (auto simp: device_bring_up_def)
  next
    case False
    then have "\<exists>e. device_undo (held_pci P) n1 (e, h1) = (e', h') \<and> hndl = 0 \<and> d_list D' = xdev_list_remove (n_hndl n) l"
      using assms(1) mb ini clean same1 \<open>h2 = h1\<close>
      by (cases r1; cases r2) (auto simp: device_bring_up_def)
    then show ?thesis
      using undo by (metis snd_conv)
  qed
qed

text \<open>
  C27: Opening a device is all or nothing: when no handle is handed out, the list of devices is as
  before and the PCI regions, the enabled device and every mapped BAR have been given back,
  whichever step failed; when a handle is handed out, the call reports success, the device is
  the new last entry of the list, and exactly the BARs recorded in it are mapped.
\<close>

theorem device_open_balanced:
  assumes "qdma_device_open (lift_env E) False (held_pci P) (lift_msix M) (lift_iov I) reply junk bdf conf D (e, h)
      = ((rv, hndl, conf'), D', e', h')"
    and "fresh_alloc (held_pci P) (d_list D)"
  shows "if hndl = 0 then d_list D' = d_list D \<and> h' = h
    else rv = Inr () \<and> (\<exists>n. d_list D' = d_list D @ [n] \<and> n_hndl n = hndl
      \<and> h' = h\<lparr>h_regions := h_regions h + 1, h_enabled := h_enabled h + 1, h_bars := h_bars h + mapped (n_bar n)\<rparr>)"
proof -
  let ?conf = "conf\<lparr>dc_bar_num_config := - 1, dc_bar_num_user := - 1\<rparr>"
  obtain r1 e1 h1 where su: "pci_setup (held_pci P) (e, h) = (r1, e1, h1)"
    by (rule prod_cases3)
  note held1 = pci_setup_held [OF su]
  obtain a e2 h2 where al: "xdev_alloc (held_pci P) ?conf (e1, h1) = (a, e2, h2)"
    by (rule prod_cases3)
  then have h2: "h2 = h1"
    by (auto simp: xdev_alloc_def split: prod.splits option.splits)
  have stop: ?thesis if "D' = D" "h' = h" "hndl = 0"
    using that by simp
  show ?thesis
  proof (cases "dc_pdev conf = 0 \<or> xdev_find_by_pdev (dc_pdev conf) (d_list D) \<noteq> None \<or> r1 \<noteq> Inr () \<or> a = None")
    case True
    then show ?thesis
      using assms(1) su al held1 h2 by (intro stop; cases r1) (auto simp: qdma_device_open_def Let_def split: if_splits)
  next
    case False
    then obtain n where a: "a = Some n"
      by blast
    let ?l = "xdev_list_add (n\<lparr>n_xdev := xdev_flag_set XDEV_FLAG_OFFLINE (n_xdev n)\<rparr>) (d_list D)"
    have n: "x_dev_priv (n_xdev n) = None" "n_hndl n \<noteq> 0" "n_hndl n \<notin> n_hndl ` set (d_list D)"
      using al a assms(2) by (fastforce simp: xdev_alloc_def fresh_alloc_def split: prod.splits option.splits)+
    obtain m where m: "?l = d_list D @ [m]" "n_hndl m = n_hndl n" "x_dev_priv (n_xdev m) = None"
      using n(1) by (auto simp: xdev_list_add_def xdev_flag_set_def Let_def)
    have up: "device_bring_up (lift_env E) False (held_pci P) (lift_msix M) (lift_iov I) reply junk ?conf D (d_list D @ [m])
        (dev_conf_name bdf m) (e2, h1) = ((rv, hndl, conf'), D', e', h')"
      using assms(1) False su al a m h2 by (cases r1) (auto simp: qdma_device_open_def Let_def)
    have "xdev_list_remove (n_hndl n) (d_list D @ [m]) = d_list D"
      using n(3) m(2) by (auto simp: xdev_list_remove_def filter_id_conv image_iff)
    then show ?thesis
      using bring_up_held [OF up] n(2) m(2,3) held1 False by (auto simp: dev_conf_name_def Let_def split: if_splits)
  qed
qed

section \<open>Concrete runs\<close>

definition sample_pci :: "u64 option \<Rightarrow> 'e pci_if" where
  "sample_pci bar = \<lparr>
     pci_request_regions = Pair 0, pci_release_regions = id, pci_enable_device = Pair 0, pci_disable_device = id,
     pci_set_master = id, pcie_set_devctl = (\<lambda>v. id), pci_set_dma_mask = (\<lambda>n. Pair 0),
     pci_set_consistent_dma_mask = (\<lambda>n. id), pci_resource_len = (\<lambda>i e. 4096), pci_iomap = (\<lambda>i n. Pair bar),
     pci_iounmap = (\<lambda>a. id), bar_readl = (\<lambda>a. Pair 0x1FD30000), xdev_kzalloc = Pair (Some 1)\<rparr>"

definition sample_iov :: "'e pci_iov" where
  "sample_iov = \<lparr>pci_num_vf = (\<lambda>e. 0), pci_enable_sriov = (\<lambda>n. Pair 0), pci_disable_sriov = id\<rparr>"

definition sample_open ::
  "u64 option \<Rightarrow> (unit res \<times> nat \<times> qdma_dev_conf) \<times> drv_sys \<times> (u32 \<Rightarrow> u32) \<times> pci_held" where
  "sample_open bar =
     qdma_device_open (lift_env ram_env) False (held_pci (sample_pci bar)) (lift_msix sample_msix) (lift_iov sample_iov) Pair
       (\<lambda>i. \<lparr>vf_func_id = 0, vf_qbase = 0, vf_qmax = 0\<rparr>) ''0000:01:00.0'' (x_conf sample_dev)
       \<lparr>d_list = [], d_thr = sample_threads\<rparr> (\<lambda>_. 0, \<lparr>h_regions = 0, h_enabled = 0, h_bars = {#}\<rparr>)"

lemma sample_open_none: "fst (snd (fst (sample_open None))) = 0"
  by code_simp

lemma sample_open_bars: "fst (snd (fst (sample_open (Some 0x4000)))) = 1"
  by code_simp

lemma sample_fresh: "fresh_alloc (held_pci (sample_pci bar)) (d_list \<lparr>d_list = [], d_thr = T\<rparr>)"
  by (simp add: fresh_alloc_def sample_pci_def)

theorem device_open_balanced_witness:
  "h_regions (snd (snd (snd (sample_open (Some 0x4000))))) = 1 \<and> snd (snd (snd (sample_open None)))
     = \<lparr>h_regions = 0, h_enabled = 0, h_bars = {#}\<rparr>"
proof -
  have balance: "if fst (snd (fst (sample_open bar))) = 0
      then snd (snd (snd (sample_open bar))) = \<lparr>h_regions = 0, h_enabled = 0, h_bars = {#}\<rparr>
      else h_regions (snd (snd (snd (sample_open bar)))) = 1" for bar
  proof -
    obtain rv hndl conf' D' e' h' where run: "sample_open bar = ((rv, hndl, conf'), D', e', h')"
      by (metis surj_pair)
    show ?thesis
      using device_open_balanced [OF run [unfolded sample_open_def] sample_fresh] run by (auto split: if_splits)
  qed
  show ?thesis
    using balance [of "Some 0x4000"] balance [of None] sample_open_none sample_open_bars by simp
qed

theorem device_table_identifies_witness:
  "\<exists>n. d_list (fst (snd (sample_open (Some 0x4000)))) = [n]
     \<and> xdev_find_by_idx (uint (n_idx n)) (d_list (fst (snd (sample_open (Some 0x4000))))) = Some n"
proof -
  obtain r D' e' where run: "sample_open (Some 0x4000) = (r, D', e')"
    by (rule prod_cases3)
  have len: "length (d_list (fst (snd (sample_open (Some 0x4000))))) = 1"
    by code_simp
  obtain n where n: "d_list D' = [n]"
    using len run by (auto simp: length_Suc_conv)
  have "dev_step (\<lparr>d_list = [], d_thr = sample_threads\<rparr>, (\<lambda>_. 0, \<lparr>h_regions = 0, h_enabled = 0, h_bars = {#}\<rparr>)) (D', e')"
    by (rule open_dev [OF run [unfolded sample_open_def] sample_fresh]) simp
  then show ?thesis
    using device_table_identifies [of sample_threads "(\<lambda>_. 0, \<lparr>h_regions = 0, h_enabled = 0, h_bars = {#}\<rparr>)" D' e' n] run n
    by auto
qed

end
