(* ===== verification/Qdma_Cdev.thy ===== *)
theory Qdma_Cdev
  imports Qdma_Xdev
begin

text \<open>
  The character device of a queue (\<open>drv/cdev.c\<close>, \<open>drv/cdev.h\<close>): pinning the pages of a user's
  buffer and describing them in a scatter list, the file operations, the creation of a device per
  queue and the numbers reserved for them.

  A page is its physical address. An entry of a scatter list that is not mapped yet holds the
  address of its first byte (page and offset) and its length. The state \<open>'s\<close> of the operations
  is that of the library and the environment of its device; it is the state the handle
  \<open>xcb->xpdev->dev_hndl\<close> stands for. A callback of a device is a function on the state, its
  first argument already supplied. The kernel's functions are parameters (\<open>uio_if\<close>,
  \<open>cdev_if\<close>). The text of messages to the user is not represented.
\<close>

section \<open>The kernel's interfaces\<close>

text \<open>
  \<open>uio_pin\<close> is \<open>get_user_pages_fast\<close>: the address, the number of pages wanted, the write flag;
  the pages it stored or a negative result. \<open>uio_sg_free\<close> gets the number of entries the table
  was allocated with (0 for a table that holds nothing).
\<close>

record 's uio_if =
  uio_sg_alloc :: "u32 \<Rightarrow> 's \<Rightarrow> bool \<times> 's"
  uio_sg_free :: "nat \<Rightarrow> 's \<Rightarrow> 's"
  uio_kcalloc :: "u32 \<Rightarrow> 's \<Rightarrow> bool \<times> 's"
  uio_kfree :: "'s \<Rightarrow> 's"
  uio_pin :: "u64 \<Rightarrow> u32 \<Rightarrow> bool \<Rightarrow> 's \<Rightarrow> u64 list res \<times> 's"
  uio_dirty :: "u64 \<Rightarrow> 's \<Rightarrow> 's"
  uio_put :: "u64 \<Rightarrow> 's \<Rightarrow> 's"
  uio_flush :: "u64 \<Rightarrow> 's \<Rightarrow> 's"

text \<open>\<open>alloc_chrdev_region\<close> gives the first number; \<open>class_create\<close> and \<open>device_create\<close> an error or none.\<close>

record 's cdev_if =
  cif_kzalloc :: "nat \<Rightarrow> 's \<Rightarrow> bool \<times> 's"
  cif_kfree :: "'s \<Rightarrow> 's"
  cif_add :: "u32 \<Rightarrow> 's \<Rightarrow> unit res \<times> 's"
  cif_del :: "u32 \<Rightarrow> 's \<Rightarrow> 's"
  cif_device_create :: "u32 \<Rightarrow> string \<Rightarrow> 's \<Rightarrow> unit res \<times> 's"
  cif_device_destroy :: "u32 \<Rightarrow> 's \<Rightarrow> 's"
  cif_alloc_region :: "u32 \<Rightarrow> 's \<Rightarrow> u32 res \<times> 's"
  cif_unregister_region :: "u32 \<Rightarrow> u32 \<Rightarrow> 's \<Rightarrow> 's"
  cif_class_create :: "'s \<Rightarrow> unit res \<times> 's"
  cif_class_destroy :: "'s \<Rightarrow> 's"

section \<open>Data (cdev.h)\<close>

definition QDMA_MINOR_MAX :: u32 where
  [simp]: "QDMA_MINOR_MAX = 255"

record qdma_cdev_cb =
  cdev_major :: u32
  cdev_minor_cnt :: u32

text \<open>What a read or write callback returns: the bytes, whether a lock is still held, the state.\<close>

type_synonym 's rw_fun = "nat \<Rightarrow> qdma_sg_req \<Rightarrow> 's \<Rightarrow> (u32 \<times> u8 list list) res \<times> bool \<times> 's"

record 's qdma_cdev =
  xc_minor :: u32
  xc_cdevno :: u32
  xc_sys_device :: bool
  xc_priv_data :: nat
  xc_fp_open_extra :: "('s \<Rightarrow> unit res \<times> 's) option"
  xc_fp_close_extra :: "('s \<Rightarrow> unit res \<times> 's) option"
  xc_fp_ioctl_extra :: "(u32 \<Rightarrow> u64 \<Rightarrow> 's \<Rightarrow> u64 res \<times> 's) option"
  xc_fp_rw :: "'s rw_fun option"
  xc_name :: string

record qdma_io_cb =
  io_buf :: u64
  io_len :: u64
  io_pages_nr :: u32
  io_sgt :: "scatterlist list"
  io_pages :: "u64 option list option"

text \<open>An open file: its device and its position, a signed 64 bit number.\<close>

record 's cfile =
  f_xcdev :: "'s qdma_cdev option"
  f_pos :: u64

section \<open>Open, close, seek, ioctl\<close>

definition cdev_gen_open :: "'s qdma_cdev \<Rightarrow> 's cfile \<Rightarrow> 's \<Rightarrow> unit res \<times> 's cfile \<times> 's" where
  "cdev_gen_open xcdev file s =
     (let file = file\<lparr>f_xcdev := Some xcdev\<rparr>
      in case xc_fp_open_extra xcdev of
           Some f \<Rightarrow> (let (rv, s) = f s in (rv, file, s))
         | None \<Rightarrow> (Inr (), file, s))"

definition cdev_gen_close :: "'s cfile \<Rightarrow> 's \<Rightarrow> unit res \<times> 's" where
  "cdev_gen_close file s =
     (case f_xcdev file of
        None \<Rightarrow> (Inl OOPS, s)
      | Some xcdev \<Rightarrow> (case xc_fp_close_extra xcdev of Some f \<Rightarrow> f s | None \<Rightarrow> (Inr (), s)))"

definition cdev_gen_llseek :: "'s cfile \<Rightarrow> u64 \<Rightarrow> int \<Rightarrow> u64 res \<times> 's cfile" where
  "cdev_gen_llseek file off whence =
     (let pos = (if whence = 0 then Some off
                 else if whence = 1 then Some (f_pos file + off)
                 else if whence = 2 then Some (0xFFFFFFFF + off)
                 else None)
      in case pos of
           None \<Rightarrow> (Inl EINVAL, file)
         | Some newpos \<Rightarrow> if newpos <s 0 then (Inl EINVAL, file) else (Inr newpos, file\<lparr>f_pos := newpos\<rparr>))"

definition cdev_gen_ioctl :: "'s cfile \<Rightarrow> u32 \<Rightarrow> u64 \<Rightarrow> 's \<Rightarrow> u64 res \<times> 's" where
  "cdev_gen_ioctl file cmd arg s =
     (case f_xcdev file of
        None \<Rightarrow> (Inl OOPS, s)
      | Some xcdev \<Rightarrow> (case xc_fp_ioctl_extra xcdev of Some f \<Rightarrow> f cmd arg s | None \<Rightarrow> (Inl EINVAL, s)))"

section \<open>The user's buffer as a scatter list\<close>

definition offset_in_page :: "u64 \<Rightarrow> u32" where
  "offset_in_page buf = ucast (buf AND 0xFFF)"

definition iocb_release :: "'s uio_if \<Rightarrow> qdma_io_cb \<Rightarrow> 's \<Rightarrow> qdma_io_cb \<times> 's" where
  "iocb_release U iocb s =
     (let s = uio_sg_free U (length (io_sgt iocb)) s;
          s = (if io_pages iocb \<noteq> None then uio_kfree U s else s)
      in (iocb\<lparr>io_sgt := [], io_pages := None, io_buf := 0\<rparr>, s))"

text \<open>The loop over the pages; reading behind the end of the array is a fault.\<close>

fun put_pages :: "'s uio_if \<Rightarrow> bool \<Rightarrow> u64 option list \<Rightarrow> u32 \<Rightarrow> 's \<Rightarrow> unit res \<times> 's" where
  "put_pages U write [] n s = (if n = 0 then (Inr (), s) else (Inl OOPS, s))"
| "put_pages U write (pg # pgs) n s =
     (if n = 0 then (Inr (), s)
      else case pg of
             None \<Rightarrow> (Inr (), s)
           | Some p \<Rightarrow> put_pages U write pgs (n - 1) (uio_put U p (if write then s else uio_dirty U p s)))"

definition unmap_user_buf :: "'s uio_if \<Rightarrow> qdma_io_cb \<Rightarrow> bool \<Rightarrow> 's \<Rightarrow> unit res \<times> qdma_io_cb \<times> 's" where
  "unmap_user_buf U iocb write s =
     (let s = uio_sg_free U (length (io_sgt iocb)) s;
          iocb = iocb\<lparr>io_sgt := []\<rparr>
      in case io_pages iocb of
           None \<Rightarrow> (Inr (), iocb, s)
         | Some pages \<Rightarrow>
             if io_pages_nr iocb = 0 then (Inr (), iocb, s)
             else let (rv, s) = put_pages U write pages (io_pages_nr iocb) s
                  in (rv, iocb\<lparr>io_pages_nr := 0\<rparr>, s))"

text \<open>The number of pages a buffer touches, computed in 64 bits and kept in 32.\<close>

definition buf_pages :: "u64 \<Rightarrow> u64 \<Rightarrow> u32" where
  "buf_pages buf len = ucast (drop_bit 12 ((buf + len + 0x1000 - 1) - (buf AND NOT 0xFFF)))"

fun dup_adjacent :: "u64 list \<Rightarrow> bool" where
  "dup_adjacent (p # q # ps) = (p = q \<or> dup_adjacent (q # ps))"
| "dup_adjacent _ = False"

definition sg_set_page :: "u64 \<Rightarrow> u32 \<Rightarrow> u32 \<Rightarrow> scatterlist" where
  "sg_set_page page nbytes offset = \<lparr>sg_dma_address = page + ucast offset, sg_dma_len = nbytes\<rparr>"

fun fill_sgl :: "u64 list \<Rightarrow> u64 \<Rightarrow> u64 \<Rightarrow> scatterlist list" where
  "fill_sgl [] buf len = []"
| "fill_sgl (page # pages) buf len =
     (let offset = offset_in_page buf;
          nbytes = min (0x1000 - offset) (ucast len)
      in sg_set_page page nbytes offset # fill_sgl pages (buf + ucast nbytes) (len - ucast nbytes))"

text \<open>
  The arms behind \<open>err_out\<close>: what was acquired is released and \<open>rv\<close> returned. The fields of the
  block are as the arm left them.
\<close>

definition map_err_out ::
  "'s uio_if \<Rightarrow> bool \<Rightarrow> errno \<Rightarrow> qdma_io_cb \<Rightarrow> 's \<Rightarrow> unit res \<times> qdma_io_cb \<times> 's" where
  "map_err_out U write err iocb s =
     (case unmap_user_buf U iocb write s of
        (Inl e, iocb, s) \<Rightarrow> (Inl e, iocb, s)
      | (Inr _, iocb, s) \<Rightarrow> (Inl err, iocb, s))"

definition map_user_buf_to_sgl ::
  "'s uio_if \<Rightarrow> qdma_io_cb \<Rightarrow> bool \<Rightarrow> 's \<Rightarrow> unit res \<times> qdma_io_cb \<times> 's" where
  "map_user_buf_to_sgl U iocb write s =
     (let buf = io_buf iocb; len = io_len iocb; pages_nr = buf_pages buf len in
      if pages_nr = 0 then (Inl EINVAL, iocb, s)
      else case uio_sg_alloc U pages_nr s of
        (False, s) \<Rightarrow> (Inl ENOMEM, iocb, s)
      | (True, s) \<Rightarrow>
        let iocb = iocb\<lparr>io_sgt := replicate (unat pages_nr) \<lparr>sg_dma_address = 0, sg_dma_len = 0\<rparr>\<rparr> in
        (case uio_kcalloc U pages_nr s of
           (False, s) \<Rightarrow> map_err_out U write ENOMEM (iocb\<lparr>io_pages := None\<rparr>) s
         | (True, s) \<Rightarrow>
           (case uio_pin U buf pages_nr True s of
              (Inl err, s) \<Rightarrow> map_err_out U write err (iocb\<lparr>io_pages := Some (replicate (unat pages_nr) None)\<rparr>) s
            | (Inr pgs, s) \<Rightarrow>
              let iocb = iocb\<lparr>io_pages := Some (map Some pgs @ replicate (unat pages_nr - length pgs) None)\<rparr> in
              if of_nat (length pgs) \<noteq> pages_nr then map_err_out U write EFAULT (iocb\<lparr>io_pages_nr := - 14\<rparr>) s
              else if dup_adjacent pgs then map_err_out U write EFAULT (iocb\<lparr>io_pages_nr := pages_nr\<rparr>) s
              else (Inr (), iocb\<lparr>io_sgt := fill_sgl pgs buf len, io_pages_nr := pages_nr\<rparr>, fold (uio_flush U) pgs s))))"

section \<open>Read and write\<close>

text \<open>The request is on the stack of the caller: \<open>r\<close> is its address.\<close>

definition rw_request :: "nat \<Rightarrow> qdma_io_cb \<Rightarrow> bool \<Rightarrow> u64 \<Rightarrow> u64 \<Rightarrow> qdma_sg_req" where
  "rw_request r iocb write pos cnt =
     \<lparr>rid = r, req_write = write, req_dma_mapped = False, req_ep_addr = pos, req_sgt = io_sgt iocb,
      req_count = ucast cnt, req_timeout_ms = 10 * 1000, req_fp_done = False,
      cb_desc_nr = 0, cb_offset = 0, cb_done = False, cb_status = None\<rparr>"

definition new_iocb :: "u64 \<Rightarrow> u64 \<Rightarrow> qdma_io_cb" where
  "new_iocb buf cnt = \<lparr>io_buf = buf, io_len = cnt, io_pages_nr = 0, io_sgt = [], io_pages = None\<rparr>"

definition cdev_gen_read_write ::
  "'s uio_if \<Rightarrow> nat \<Rightarrow> 's cfile \<Rightarrow> u64 \<Rightarrow> u64 \<Rightarrow> u64 \<Rightarrow> bool \<Rightarrow> 's
     \<Rightarrow> (u32 \<times> u8 list list) res \<times> bool \<times> 's" where
  "cdev_gen_read_write U r file buf cnt pos write s =
     (case f_xcdev file of
        None \<Rightarrow> (Inl EINVAL, False, s)
      | Some xcdev \<Rightarrow>
        (case xc_fp_rw xcdev of
           None \<Rightarrow> (Inl EINVAL, False, s)
         | Some fp_rw \<Rightarrow>
           (case map_user_buf_to_sgl U (new_iocb buf cnt) write s of
              (Inl err, iocb, s) \<Rightarrow> (Inl err, False, s)
            | (Inr _, iocb, s) \<Rightarrow>
              (case fp_rw (xc_priv_data xcdev) (rw_request r iocb write pos cnt) s of
                 (Inl OOPS, locked, s) \<Rightarrow> (Inl OOPS, locked, s)
               | (res, locked, s) \<Rightarrow>
                 (case unmap_user_buf U iocb write s of
                    (Inl err, iocb, s) \<Rightarrow> (Inl err, locked, s)
                  | (Inr _, iocb, s) \<Rightarrow> (res, locked, snd (iocb_release U iocb s)))))))"

definition cdev_gen_write where
  "cdev_gen_write U r file buf cnt pos s = cdev_gen_read_write U r file buf cnt pos True s"

definition cdev_gen_read where
  "cdev_gen_read U r file buf cnt pos s = cdev_gen_read_write U r file buf cnt pos False s"

section \<open>The device of a queue\<close>

definition MKDEV :: "u32 \<Rightarrow> u32 \<Rightarrow> u32" where
  "MKDEV major minor = push_bit 20 major OR minor"

definition MAJOR :: "u32 \<Rightarrow> u32" where
  "MAJOR dev = drop_bit 20 dev"

text \<open>The class of the driver's devices is the global \<open>qdma_class\<close>: whether it is not NULL.\<close>

definition qdma_cdev_destroy :: "'s cdev_if \<Rightarrow> bool \<Rightarrow> 'r qdma_cdev option \<Rightarrow> 's \<Rightarrow> 's" where
  "qdma_cdev_destroy C qdma_class xcdev s =
     (case xcdev of
        None \<Rightarrow> s
      | Some xc \<Rightarrow>
          let s = (if xc_sys_device xc then cif_device_destroy C (xc_cdevno xc) s else s)
          in cif_kfree C (cif_del C (xc_cdevno xc) s))"

definition qdma_cdev_create ::
  "'s cdev_if \<Rightarrow> bool \<Rightarrow> 'r rw_fun \<Rightarrow> qdma_cdev_cb \<Rightarrow> qdma_queue_conf \<Rightarrow> u32 \<Rightarrow> nat \<Rightarrow> 's
     \<Rightarrow> 'r qdma_cdev res \<times> 's" where
  "qdma_cdev_create C qdma_class submit xcb qconf minor qhndl s =
     (case cif_kzalloc C (length (qc_name qconf) + 1) s of
        (False, s) \<Rightarrow> (Inl ENOMEM, s)
      | (True, s) \<Rightarrow>
        let xcdev = \<lparr>xc_minor = minor, xc_cdevno = 0, xc_sys_device = False, xc_priv_data = qhndl,
              xc_fp_open_extra = None, xc_fp_close_extra = None, xc_fp_ioctl_extra = None, xc_fp_rw = None,
              xc_name = qc_name qconf\<rparr> in
        if cdev_minor_cnt xcb \<le>s xc_minor xcdev then (Inl ENOSPC, cif_kfree C s)
        else let xcdev = xcdev\<lparr>xc_cdevno := MKDEV (cdev_major xcb) minor\<rparr> in
        (case cif_add C (xc_cdevno xcdev) s of
           (Inl err, s) \<Rightarrow> (Inl err, cif_kfree C s)
         | (Inr _, s) \<Rightarrow>
           if qdma_class
           then (case cif_device_create C (xc_cdevno xcdev) (xc_name xcdev) s of
                   (Inl err, s) \<Rightarrow> (Inl err, cif_kfree C (cif_del C (xc_cdevno xcdev) s))
                 | (Inr _, s) \<Rightarrow> (Inr (xcdev\<lparr>xc_sys_device := True, xc_fp_rw := Some submit\<rparr>), s))
           else (Inr (xcdev\<lparr>xc_fp_rw := Some submit\<rparr>), s)))"

text \<open>The function a created device reads and writes with.\<close>

definition submit_fun ::
  "'e env \<Rightarrow> 'e sg_if \<Rightarrow> (u64 \<Rightarrow> nat \<Rightarrow> u8) \<Rightarrow> (qsys \<times> 'e \<Rightarrow> qsys \<times> 'e) \<Rightarrow> (qsys \<times> 'e) rw_fun" where
  "submit_fun E K page world i req s =
     (case s of (S, e) \<Rightarrow> case qdma_sg_req_submit E K page world i req S e of (rv, locked, S, e) \<Rightarrow> (rv, locked, S, e))"

section \<open>Numbers and the class\<close>

definition qdma_cdev_device_cleanup :: "'s cdev_if \<Rightarrow> qdma_cdev_cb \<Rightarrow> 's \<Rightarrow> qdma_cdev_cb \<times> 's" where
  "qdma_cdev_device_cleanup C xcb s =
     (if cdev_major xcb = 0 then (xcb, s)
      else (xcb\<lparr>cdev_major := 0\<rparr>, cif_unregister_region C (MKDEV (cdev_major xcb) 0) (cdev_minor_cnt xcb) s))"

definition qdma_cdev_device_init :: "'s cdev_if \<Rightarrow> qdma_cdev_cb \<Rightarrow> 's \<Rightarrow> unit res \<times> qdma_cdev_cb \<times> 's" where
  "qdma_cdev_device_init C xcb s =
     (let xcb = xcb\<lparr>cdev_minor_cnt := QDMA_MINOR_MAX\<rparr>
      in if cdev_major xcb \<noteq> 0 then (Inl EINVAL, xcb, s)
         else case cif_alloc_region C (cdev_minor_cnt xcb) s of
                (Inl err, s) \<Rightarrow> (Inl err, xcb, s)
              | (Inr dev, s) \<Rightarrow> (Inr (), xcb\<lparr>cdev_major := MAJOR dev\<rparr>, s))"

definition qdma_cdev_init :: "'s cdev_if \<Rightarrow> 's \<Rightarrow> unit res \<times> bool \<times> 's" where
  "qdma_cdev_init C s =
     (case cif_class_create C s of
        (Inl err, s) \<Rightarrow> (Inl (Other (- 1)), False, s)
      | (Inr _, s) \<Rightarrow> (Inr (), True, s))"

definition qdma_cdev_cleanup :: "'s cdev_if \<Rightarrow> bool \<Rightarrow> 's \<Rightarrow> 's" where
  "qdma_cdev_cleanup C qdma_class s = (if qdma_class then cif_class_destroy C s else s)"

section \<open>The scatter list describes the buffer\<close>

text \<open>
  The addresses of the bytes an entry stands for, and the physical address of a virtual one
  under a page table \<open>vm\<close> (virtual page number to physical page).
\<close>

definition sg_bytes :: "scatterlist \<Rightarrow> u64 list" where
  "sg_bytes sg = map (\<lambda>k. sg_dma_address sg + of_nat k) [0..<unat (sg_dma_len sg)]"

definition phys :: "(nat \<Rightarrow> u64) \<Rightarrow> nat \<Rightarrow> u64" where
  "phys vm v = vm (v div 4096) + of_nat (v mod 4096)"

text \<open>
  What is documented of \<open>get_user_pages_fast\<close>: it stores the pages from that of the address on,
  and at most as many as asked for.
\<close>

definition pins_pages :: "'s uio_if \<Rightarrow> (nat \<Rightarrow> u64) \<Rightarrow> bool" where
  "pins_pages U vm \<longleftrightarrow> (\<forall>buf n w s pgs s'. uio_pin U buf n w s = (Inr pgs, s') \<longrightarrow>
     pgs = map vm [unat buf div 4096 ..< unat buf div 4096 + length pgs])"

definition pins_at_most :: "'s uio_if \<Rightarrow> bool" where
  "pins_at_most U \<longleftrightarrow> (\<forall>buf n w s pgs s'. uio_pin U buf n w s = (Inr pgs, s') \<longrightarrow> length pgs \<le> unat n)"

lemma and_fff: "buf AND 0xFFF = take_bit 12 (buf :: u64)"
  by (simp add: take_bit_eq_mask mask_eq_exp_minus_1)

lemma unat_offset: "unat (offset_in_page buf) = unat buf mod 4096"
  by (simp add: offset_in_page_def and_fff unsigned_ucast_eq unsigned_take_bit_eq take_bit_take_bit)
    (simp add: take_bit_eq_mod)

lemma unat_buf_pages:
  assumes "unat len \<le> 0x7FFFF000"
  shows "unat (buf_pages buf len) = (unat buf mod 4096 + unat len + 4095) div 4096"
proof -
  have "buf = (buf AND NOT 0xFFF) + (buf AND 0xFFF)"
    using disjunctive_add [of "buf AND NOT 0xFFF" "buf AND 0xFFF"]
    by (simp add: bit_simps flip: bit.conj_disj_distrib)
  then have e: "(buf + len + 0x1000 - 1) - (buf AND NOT 0xFFF) = take_bit 12 buf + len + 0xFFF"
    by (simp add: algebra_simps flip: and_fff)
  have u: "unat (take_bit 12 buf) = unat buf mod 4096"
    by (simp add: take_bit_eq_mod unat_mod)
  have "unat (take_bit 12 buf + len + 0xFFF) = unat buf mod 4096 + unat len + 4095"
    using assms u by (simp add: unat_word_ariths)
  then show ?thesis
    using assms unfolding buf_pages_def e
    by (simp add: unsigned_ucast_eq drop_bit_eq_div take_bit_eq_mod unat_div)
qed

lemma sg_bytes_page:
  assumes "unat buf mod 4096 + unat n \<le> 4096"
  shows "sg_bytes (sg_set_page (vm (unat buf div 4096)) n (offset_in_page buf)) = map (phys vm) [unat buf..<unat buf + unat n]"
proof -
  have "phys vm (unat buf + k) = vm (unat buf div 4096) + of_nat (unat buf mod 4096) + of_nat k" if "k < unat n" for k
  proof -
    have "unat buf mod 4096 + k < 4096"
      using assms that by simp
    then have "(unat buf + k) div 4096 = unat buf div 4096" "(unat buf + k) mod 4096 = unat buf mod 4096 + k"
      by (simp_all add: div_add1_eq [of "unat buf" k] mod_add_eq [of "unat buf" 4096 k, symmetric])
    then show ?thesis
      by (simp add: phys_def)
  qed
  moreover have "ucast (offset_in_page buf) = (of_nat (unat buf mod 4096) :: u64)"
    by (metis unat_offset of_nat_unat)
  ultimately show ?thesis
    by (intro nth_equalityI) (simp_all add: sg_bytes_def sg_set_page_def)
qed

text \<open>One entry: it ends with the page or with the buffer.\<close>

lemma unat_len32: "unat len < 2 ^ 32 \<Longrightarrow> unat (ucast len :: u32) = unat len" for len :: u64
  by (simp add: unsigned_ucast_eq take_bit_eq_mod)

lemma page_piece:
  fixes len :: u64
  assumes "unat len < 2 ^ 32"
  shows "unat (min (0x1000 - offset_in_page buf) (ucast len)) = min (4096 - unat buf mod 4096) (unat len)"
proof -
  have "offset_in_page buf \<le> 0x1000"
    using unat_offset [of buf] by (simp add: word_le_nat_alt less_imp_le)
  then have "unat (0x1000 - offset_in_page buf) = 4096 - unat buf mod 4096"
    by (simp add: unat_sub unat_offset)
  moreover have "unat (ucast len :: u32) = unat len"
    by (rule unat_len32 [OF assms])
  ultimately show ?thesis
    by (simp add: min_def word_le_nat_alt)
qed

lemma next_page: "b + (4096 - b mod 4096) = 4096 * (b div 4096 + 1)" for b :: nat
proof -
  have "r < 4096 \<Longrightarrow> (4096 * q + r) + (4096 - r) = 4096 * (q + 1)" for q r :: nat
    by simp
  from this [of "b mod 4096" "b div 4096"] show ?thesis
    by simp
qed

lemma fill_sgl_bytes:
  assumes "0 < unat len" and "unat len < 2 ^ 32" and "unat buf + unat len < 2 ^ 64"
    and "n = (unat buf mod 4096 + unat len + 4095) div 4096"
  shows "concat (map sg_bytes (fill_sgl (map vm [unat buf div 4096 ..< unat buf div 4096 + n]) buf len))
      = map (phys vm) [unat buf ..< unat buf + unat len]
    \<and> (\<forall>sg\<in>set (fill_sgl (map vm [unat buf div 4096 ..< unat buf div 4096 + n]) buf len). 0 < sg_dma_len sg \<and> sg_dma_len sg \<le> 0x1000)"
  using assms
proof (induction n arbitrary: buf len)
  case 0
  then show ?case
    by simp
next
  case (Suc n)
  let ?o = "unat buf mod 4096" and ?nb = "min (0x1000 - offset_in_page buf) (ucast len) :: u32"
  have nb: "unat ?nb = min (4096 - ?o) (unat len)"
    by (rule page_piece [OF Suc.prems(2)])
  have o: "?o < 4096"
    by simp
  have w: "0 < ?nb" "?nb \<le> 0x1000"
    using nb o Suc.prems(1) by (simp_all add: word_less_nat_alt word_le_nat_alt)
  have unat64: "unat (ucast ?nb :: u64) = unat ?nb"
    using w(2) by (simp add: unsigned_ucast_eq take_bit_eq_mod word_le_nat_alt)
  have u: "unat (buf + ucast ?nb) = unat buf + unat ?nb" "unat (len - ucast ?nb) = unat len - unat ?nb"
    using nb Suc.prems(1,3) unat64 by (auto simp: unat_word_ariths unat_sub word_le_nat_alt min_def)
  have pages: "[unat buf div 4096 ..< unat buf div 4096 + Suc n] =
      unat buf div 4096 # [unat buf div 4096 + 1 ..< unat buf div 4096 + 1 + n]"
    by (simp add: upt_rec)
  have first: "sg_bytes (sg_set_page (vm (unat buf div 4096)) ?nb (offset_in_page buf)) = map (phys vm) [unat buf ..< unat buf + unat ?nb]"
    using nb by (intro sg_bytes_page) simp
  have entry: "sg_dma_len (sg_set_page pg ?nb f) = ?nb" for pg f
    by (simp add: sg_set_page_def)
  show ?case
  proof (cases "?o + unat len \<le> 4096")
    case True
    then have "n = 0" "unat ?nb = unat len"
      using Suc.prems(1,4) nb by (auto simp: min_def)
    then show ?thesis
      using pages first w entry by (simp add: Let_def)
  next
    case False
    then have k: "unat ?nb = 4096 - ?o"
      using nb by simp
    have s: "unat buf + unat ?nb = 4096 * (unat buf div 4096 + 1)"
      using k next_page by simp
    have b: "(unat buf + unat ?nb) mod 4096 = 0" "(unat buf + unat ?nb) div 4096 = unat buf div 4096 + 1"
      using s by simp_all
    have lt: "unat ?nb < unat len"
      using k False o by linarith
    have n: "n = (unat (buf + ucast ?nb) mod 4096 + unat (len - ucast ?nb) + 4095) div 4096"
      unfolding u b using Suc.prems(4) False k by linarith
    have sum: "unat (buf + ucast ?nb) + unat (len - ucast ?nb) = unat buf + unat len"
      unfolding u using lt by linarith
    have small: "0 < unat (len - ucast ?nb)" "unat (len - ucast ?nb) < 2 ^ 32"
      unfolding u using lt Suc.prems(2) by linarith+
    note rest = Suc.IH [OF small _ n, unfolded sum, OF Suc.prems(3), unfolded u b]
    have "[unat buf ..< unat buf + unat len] = [unat buf ..< unat buf + unat ?nb] @ [unat buf + unat ?nb ..< unat buf + unat len]"
      using upt_add_eq_append [of "unat buf" "unat buf + unat ?nb" "unat len - unat ?nb"] lt by simp
    then show ?thesis
      unfolding pages using first rest w entry by (simp add: Let_def)
  qed
qed

lemma map_success:
  assumes "map_user_buf_to_sgl U (new_iocb buf len) w s = (Inr (), iocb, s')"
  obtains pgs s1 s2 where "uio_pin U buf (buf_pages buf len) True s1 = (Inr pgs, s2)" "of_nat (length pgs) = buf_pages buf len"
    "buf_pages buf len \<noteq> 0" "io_sgt iocb = fill_sgl pgs buf len" "io_pages_nr iocb = buf_pages buf len"
    "io_pages iocb = Some (map Some pgs @ replicate (unat (buf_pages buf len) - length pgs) None)"
  using assms
  by (auto simp: map_user_buf_to_sgl_def map_err_out_def new_iocb_def Let_def
      split: if_splits prod.splits bool.splits sum.splits)

lemma sgl_of_buffer:
  assumes run: "map_user_buf_to_sgl U (new_iocb buf len) w s = (Inr (), iocb, s')"
    and user: "unat buf + unat len < 2 ^ 64" "0 < len" "len \<le> 0x7FFFF000"
    and pin: "pins_pages U vm" "pins_at_most U"
  shows "concat (map sg_bytes (io_sgt iocb)) = map (phys vm) [unat buf ..< unat buf + unat len]"
    and "\<forall>sg\<in>set (io_sgt iocb). 0 < sg_dma_len sg \<and> sg_dma_len sg \<le> 0x1000"
proof -
  obtain pgs s1 s2 where p: "uio_pin U buf (buf_pages buf len) True s1 = (Inr pgs, s2)" "of_nat (length pgs) = buf_pages buf len"
    "io_sgt iocb = fill_sgl pgs buf len"
    by (rule map_success [OF run])
  have "length pgs \<le> unat (buf_pages buf len)"
    using pin(2) p(1) unfolding pins_at_most_def by blast
  then have n: "length pgs = unat (buf_pages buf len)"
    using p(2) by (metis le_unat_uoi)
  have pgs: "pgs = map vm [unat buf div 4096 ..< unat buf div 4096 + length pgs]"
    using pin(1) p(1) unfolding pins_pages_def by blast
  have len: "0 < unat len" "unat len \<le> 0x7FFFF000"
    using user(2,3) by (simp_all add: word_less_nat_alt word_le_nat_alt)
  note cover = fill_sgl_bytes [OF len(1) _ user(1), of "length pgs" vm]
  show "concat (map sg_bytes (io_sgt iocb)) = map (phys vm) [unat buf ..< unat buf + unat len]"
    and "\<forall>sg\<in>set (io_sgt iocb). 0 < sg_dma_len sg \<and> sg_dma_len sg \<le> 0x1000"
    using cover len unat_buf_pages [OF len(2), of buf] p(3) n pgs by simp_all
qed

section \<open>What a read or a write holds\<close>

text \<open>
  The accounts of pinned pages, scatter tables and page arrays, added to an interface. A table
  freed twice counts once: the second time it holds nothing.
\<close>

record uio_held =
  uh_pins :: "u64 multiset"
  uh_tables :: int
  uh_arrays :: int

definition held_uio :: "'s uio_if \<Rightarrow> ('s \<times> uio_held) uio_if" where
  "held_uio U = \<lparr>
     uio_sg_alloc = (\<lambda>n (s, h). let (ok, s) = uio_sg_alloc U n s
        in (ok, s, if ok then h\<lparr>uh_tables := uh_tables h + 1\<rparr> else h)),
     uio_sg_free = (\<lambda>n (s, h). (uio_sg_free U n s, if n = 0 then h else h\<lparr>uh_tables := uh_tables h - 1\<rparr>)),
     uio_kcalloc = (\<lambda>n (s, h). let (ok, s) = uio_kcalloc U n s
        in (ok, s, if ok then h\<lparr>uh_arrays := uh_arrays h + 1\<rparr> else h)),
     uio_kfree = (\<lambda>(s, h). (uio_kfree U s, h\<lparr>uh_arrays := uh_arrays h - 1\<rparr>)),
     uio_pin = (\<lambda>buf n w (s, h). let (r, s) = uio_pin U buf n w s
        in (r, s, case r of Inl err \<Rightarrow> h | Inr pgs \<Rightarrow> h\<lparr>uh_pins := uh_pins h + mset pgs\<rparr>)),
     uio_dirty = (\<lambda>p (s, h). (uio_dirty U p s, h)),
     uio_put = (\<lambda>p (s, h). (uio_put U p s, h\<lparr>uh_pins := uh_pins h - {#p#}\<rparr>)),
     uio_flush = (\<lambda>p (s, h). (uio_flush U p s, h))\<rparr>"

definition lift_rw :: "'s rw_fun \<Rightarrow> ('s \<times> 'h) rw_fun" where
  "lift_rw f i req = (\<lambda>(s, h). case f i req s of (rv, locked, s) \<Rightarrow> (rv, locked, s, h))"

lemma held_put_pages:
  assumes "length pgs \<le> unat n" and "length pgs = unat n \<or> (\<exists>r. rest = None # r)"
  shows "\<exists>s'. put_pages (held_uio U) w (map Some pgs @ rest) n (s, h) = (Inr (), s', h\<lparr>uh_pins := uh_pins h - mset pgs\<rparr>)"
  using assms
proof (induction pgs arbitrary: n s h)
  case Nil
  then have "n = 0 \<or> (\<exists>r. rest = None # r)"
    by (auto simp: unat_eq_0)
  then show ?case
    by (cases rest) auto
next
  case (Cons p pgs)
  then have n: "n \<noteq> 0"
    by auto
  then have "unat (n - 1) = unat n - 1"
    by (rule unat_minus_one)
  note n = n this
  let ?s = "uio_put U p (if w then s else uio_dirty U p s)"
  have "uio_put (held_uio U) p (if w then (s, h) else uio_dirty (held_uio U) p (s, h)) = (?s, h\<lparr>uh_pins := uh_pins h - {#p#}\<rparr>)"
    by (simp add: held_uio_def)
  moreover have "length pgs \<le> unat (n - 1)" "length pgs = unat (n - 1) \<or> (\<exists>r. rest = None # r)"
    using Cons.prems n by auto
  ultimately show ?case
    using Cons.IH [of "n - 1" ?s "h\<lparr>uh_pins := uh_pins h - {#p#}\<rparr>"] n by simp
qed

lemma held_flush: "snd (fold (uio_flush (held_uio U)) pgs x) = snd x"
  by (induction pgs arbitrary: x) (auto simp: held_uio_def split: prod.splits)

lemma held_unmap:
  assumes "io_pages iocb = Some (map Some pgs @ rest)" and "length pgs \<le> unat (io_pages_nr iocb)" and "io_pages_nr iocb \<noteq> 0"
    and "length pgs = unat (io_pages_nr iocb) \<or> (\<exists>r. rest = None # r)" and "io_sgt iocb \<noteq> []"
  shows "\<exists>s'. unmap_user_buf (held_uio U) iocb w (s, h) = (Inr (), iocb\<lparr>io_sgt := [], io_pages_nr := 0\<rparr>, s',
    h\<lparr>uh_pins := uh_pins h - mset pgs, uh_tables := uh_tables h - 1\<rparr>)"
proof -
  let ?n = "length (io_sgt iocb)" and ?h = "h\<lparr>uh_tables := uh_tables h - 1\<rparr>"
  have "uio_sg_free (held_uio U) ?n (s, h) = (uio_sg_free U ?n s, ?h)"
    using assms(5) by (simp add: held_uio_def)
  then show ?thesis
    using assms(1,3) held_put_pages [OF assms(2,4), of U w "uio_sg_free U ?n s" ?h]
    by (auto simp: unmap_user_buf_def Let_def)
qed

text \<open>Mapping a buffer: everything is held, or only the array of pages.\<close>


definition mapping_iocb :: "u64 \<Rightarrow> u64 \<Rightarrow> u64 option list option \<Rightarrow> u32 \<Rightarrow> qdma_io_cb" where
  "mapping_iocb buf len pages n = (new_iocb buf len)\<lparr>
     io_sgt := replicate (unat (buf_pages buf len)) \<lparr>sg_dma_address = 0, sg_dma_len = 0\<rparr>, io_pages := pages, io_pages_nr := n\<rparr>"

lemma mapping_iocb_simps [simp]:
  "io_pages (mapping_iocb buf len pages n) = pages" "io_pages_nr (mapping_iocb buf len pages n) = n"
  "io_sgt (mapping_iocb buf len pages n) = [] \<longleftrightarrow> buf_pages buf len = 0"
  by (simp_all add: mapping_iocb_def unat_eq_0)

lemma held_map_run:
  assumes "uio_sg_alloc U (buf_pages buf len) s = (ok1, s1)" "uio_kcalloc U (buf_pages buf len) s1 = (ok2, s2)"
    "uio_pin U buf (buf_pages buf len) True s2 = (r, s3)"
  shows "map_user_buf_to_sgl (held_uio U) (new_iocb buf len) w (s, h) =
    (let n = buf_pages buf len; h1 = h\<lparr>uh_tables := uh_tables h + 1\<rparr>; h2 = h1\<lparr>uh_arrays := uh_arrays h + 1\<rparr> in
     if n = 0 then (Inl EINVAL, new_iocb buf len, s, h)
     else if \<not> ok1 then (Inl ENOMEM, new_iocb buf len, s1, h)
     else if \<not> ok2 then map_err_out (held_uio U) w ENOMEM (mapping_iocb buf len None 0) (s2, h1)
     else case r of
       Inl err \<Rightarrow> map_err_out (held_uio U) w err (mapping_iocb buf len (Some (replicate (unat n) None)) 0) (s3, h2)
     | Inr pgs \<Rightarrow>
         let pages = Some (map Some pgs @ replicate (unat n - length pgs) None);
             h3 = h2\<lparr>uh_pins := uh_pins h + mset pgs\<rparr> in
         if of_nat (length pgs) \<noteq> n then map_err_out (held_uio U) w EFAULT (mapping_iocb buf len pages (- 14)) (s3, h3)
         else if dup_adjacent pgs then map_err_out (held_uio U) w EFAULT (mapping_iocb buf len pages n) (s3, h3)
         else (Inr (), (mapping_iocb buf len pages n)\<lparr>io_sgt := fill_sgl pgs buf len\<rparr>,
               fold (uio_flush (held_uio U)) pgs (s3, h3)))"
proof -
  have "uio_sg_alloc (held_uio U) (buf_pages buf len) (s, h) = (ok1, s1, if ok1 then h\<lparr>uh_tables := uh_tables h + 1\<rparr> else h)"
    "uio_kcalloc (held_uio U) (buf_pages buf len) (s1, x) = (ok2, s2, if ok2 then x\<lparr>uh_arrays := uh_arrays x + 1\<rparr> else x)"
    "uio_pin (held_uio U) buf (buf_pages buf len) True (s2, x) =
      (r, s3, case r of Inl err \<Rightarrow> x | Inr pgs \<Rightarrow> x\<lparr>uh_pins := uh_pins x + mset pgs\<rparr>)" for x
    using assms by (simp_all add: held_uio_def)
  then show ?thesis
    by (simp add: map_user_buf_to_sgl_def mapping_iocb_def new_iocb_def Let_def split: sum.splits)
qed

lemma held_map_ok:
  assumes run: "map_user_buf_to_sgl (held_uio U) (new_iocb buf len) w (s, h) = (Inr (), iocb, s', h')"
    and pin: "pins_at_most U"
  obtains pgs where "io_pages iocb = Some (map Some pgs)" "length pgs = unat (io_pages_nr iocb)" "io_pages_nr iocb \<noteq> 0"
    "io_sgt iocb \<noteq> []"
    "h' = h\<lparr>uh_pins := uh_pins h + mset pgs, uh_tables := uh_tables h + 1, uh_arrays := uh_arrays h + 1\<rparr>"
proof -
  let ?n = "buf_pages buf len"
  obtain ok1 s1 ok2 s2 r s3 where k: "uio_sg_alloc U ?n s = (ok1, s1)" "uio_kcalloc U ?n s1 = (ok2, s2)"
    "uio_pin U buf ?n True s2 = (r, s3)"
    by (metis surj_pair)
  have err: "fst (map_err_out (held_uio U) w e i x) \<noteq> Inr ()" for e i x
    by (auto simp: map_err_out_def split: prod.split sum.split)
  have iocb: "?n \<noteq> 0 \<and> (\<exists>pgs. r = Inr pgs \<and> of_nat (length pgs) = ?n
      \<and> iocb = (mapping_iocb buf len (Some (map Some pgs @ replicate (unat ?n - length pgs) None)) ?n)\<lparr>io_sgt := fill_sgl pgs buf len\<rparr>
      \<and> (s', h') = fold (uio_flush (held_uio U)) pgs
          (s3, h\<lparr>uh_tables := uh_tables h + 1, uh_arrays := uh_arrays h + 1, uh_pins := uh_pins h + mset pgs\<rparr>))"
    using run err unfolding held_map_run [OF k] Let_def
    by (auto simp: Let_def split: if_splits sum.splits) (metis fst_conv)+
  then obtain pgs where p: "r = Inr pgs" "of_nat (length pgs) = ?n"
    "iocb = (mapping_iocb buf len (Some (map Some pgs @ replicate (unat ?n - length pgs) None)) ?n)\<lparr>io_sgt := fill_sgl pgs buf len\<rparr>"
    and h': "h' = h\<lparr>uh_tables := uh_tables h + 1, uh_arrays := uh_arrays h + 1, uh_pins := uh_pins h + mset pgs\<rparr>"
    using held_flush by (metis snd_conv)
  have "length pgs \<le> unat ?n"
    using pin k(3) p(1) unfolding pins_at_most_def by blast
  then have n: "length pgs = unat ?n"
    using p(2) by (metis le_unat_uoi)
  moreover have "fill_sgl pgs buf len \<noteq> []"
    using iocb n by (cases pgs) (auto simp: Let_def unat_eq_0)
  ultimately show thesis
    using that [of pgs] p(3) h' iocb by simp
qed

text \<open>A mapping that fails after the array was allocated keeps the array and nothing else.\<close>

lemma held_err_out:
  assumes "buf_pages buf len \<noteq> 0" and "length pgs \<le> unat n" and "length pgs = unat n \<or> (\<exists>r. rest = None # r)" and "n \<noteq> 0"
    and "map_err_out (held_uio U) w err (mapping_iocb buf len (Some (map Some pgs @ rest)) n) (s, h) = (rv, iocb, s', h')"
  shows "h' = h\<lparr>uh_pins := uh_pins h - mset pgs, uh_tables := uh_tables h - 1\<rparr> \<and> io_pages iocb \<noteq> None"
  using held_unmap [of "mapping_iocb buf len (Some (map Some pgs @ rest)) n" pgs rest U w s h] assms
  by (auto simp: map_err_out_def)

lemma held_err_out_none:
  assumes "buf_pages buf len \<noteq> 0"
    and "map_err_out (held_uio U) w err (mapping_iocb buf len pages 0) (s, h) = (rv, iocb, s', h')"
  shows "h' = h\<lparr>uh_tables := uh_tables h - 1\<rparr> \<and> io_pages iocb = pages"
  using assms
  by (auto simp: map_err_out_def unmap_user_buf_def held_uio_def Let_def split: option.splits)

lemma held_map_err:
  assumes run: "map_user_buf_to_sgl (held_uio U) (new_iocb buf len) w (s, h) = (Inl err, iocb, s', h')"
    and pin: "pins_at_most U" and user: "len \<le> 0x7FFFF000"
  shows "h' = h\<lparr>uh_arrays := uh_arrays h + (if io_pages iocb = None then 0 else 1)\<rparr>"
proof -
  let ?n = "buf_pages buf len"
  obtain ok1 s1 ok2 s2 r s3 where k: "uio_sg_alloc U ?n s = (ok1, s1)" "uio_kcalloc U ?n s1 = (ok2, s2)"
    "uio_pin U buf ?n True s2 = (r, s3)"
    by (metis surj_pair)
  note run = run [unfolded held_map_run [OF k] Let_def]
  consider "?n = 0 \<or> \<not> ok1" | "?n \<noteq> 0" ok1 "\<not> ok2 \<or> (\<exists>e. r = Inl e)" | pgs where "?n \<noteq> 0" ok1 ok2 "r = Inr pgs"
    by (cases r) auto
  then show ?thesis
  proof cases
    case 1
    then show ?thesis
      using run by (auto simp: new_iocb_def split: if_splits)
  next
    case 2
    then show ?thesis
      using run by (auto simp: dest!: held_err_out_none [OF 2(1)] split: if_splits)
  next
    case (3 pgs)
    have len: "length pgs \<le> unat ?n"
      using pin k(3) 3(4) unfolding pins_at_most_def by blast
    let ?m = "if of_nat (length pgs) = ?n then ?n else - 14" and ?rest = "replicate (unat ?n - length pgs) None"
    have "unat len \<le> 0x7FFFF000"
      using user by (simp add: word_le_nat_alt)
    then have small: "unat ?n \<le> 0x80001"
      using unat_buf_pages [of len buf] mod_less_divisor [of 4096 "unat buf"] by linarith
    have eq: "of_nat (length pgs) = ?n \<longleftrightarrow> length pgs = unat ?n"
      using len by (metis le_unat_uoi of_nat_unat ucast_id)
    have "length pgs = unat ?n \<or> (\<exists>r. ?rest = None # r)"
      using len by (cases "unat ?n - length pgs") auto
    then have m: "length pgs \<le> unat ?m" "?m \<noteq> 0" "length pgs = unat ?m \<or> (\<exists>r. ?rest = None # r)"
      using len small 3(1) eq by auto
    have "map_err_out (held_uio U) w EFAULT (mapping_iocb buf len (Some (map Some pgs @ ?rest)) ?m)
        (s3, h\<lparr>uh_tables := uh_tables h + 1, uh_arrays := uh_arrays h + 1, uh_pins := uh_pins h + mset pgs\<rparr>) = (Inl err, iocb, s', h')"
      using run 3 by (auto split: if_splits)
    from held_err_out [OF 3(1) m(1,3,2) this] show ?thesis
      by auto
  qed
qed


section \<open>Reading and writing through a file\<close>

text \<open>
  C5: A read or write through a character device leaves no page of the user pinned and no scatter
  table allocated, whatever the outcome: the buffer could not be pinned, wholly or in part, the
  queue refused the request, it failed or it succeeded. The array of pages is released too,
  with one exception: when the array was allocated and the mapping then failed, nothing frees it.
\<close>

theorem cdev_rw_releases:
  assumes "cdev_gen_read_write (held_uio U) r fp buf len pos w (s, h) = (rv, locked, s', h')"
    and "f_xcdev fp = Some xcdev" and "xc_fp_rw xcdev = Some (lift_rw f)" and "rv \<noteq> Inl OOPS"
    and "pins_at_most U" and "len \<le> 0x7FFFF000"
  shows "h' = (case map_user_buf_to_sgl (held_uio U) (new_iocb buf len) w (s, h) of
    (Inl err, iocb, _) \<Rightarrow> h\<lparr>uh_arrays := uh_arrays h + (if io_pages iocb = None then 0 else 1)\<rparr>
  | (Inr _, _) \<Rightarrow> h)"
proof -
  obtain rv1 iocb s1 h1 where map: "map_user_buf_to_sgl (held_uio U) (new_iocb buf len) w (s, h) = (rv1, iocb, s1, h1)"
    by (metis surj_pair)
  show ?thesis
  proof (cases rv1)
    case (Inl err)
    then show ?thesis
      using assms(1-3) map held_map_err [OF _ assms(5,6), of buf w s h err iocb s1 h1] by (simp add: cdev_gen_read_write_def)
  next
    case (Inr u)
    then obtain pgs where p: "io_pages iocb = Some (map Some pgs)" "length pgs = unat (io_pages_nr iocb)" "io_pages_nr iocb \<noteq> 0"
      "io_sgt iocb \<noteq> []" "h1 = h\<lparr>uh_pins := uh_pins h + mset pgs, uh_tables := uh_tables h + 1, uh_arrays := uh_arrays h + 1\<rparr>"
      using held_map_ok [OF _ assms(5)] map by (metis old.unit.exhaust)
    obtain res l s2 where rw: "f (xc_priv_data xcdev) (rw_request r iocb w pos len) s1 = (res, l, s2)"
      by (rule prod_cases3)
    obtain s3 where un: "unmap_user_buf (held_uio U) iocb w (s2, h1) = (Inr (), iocb\<lparr>io_sgt := [], io_pages_nr := 0\<rparr>, s3,
        h1\<lparr>uh_pins := uh_pins h1 - mset pgs, uh_tables := uh_tables h1 - 1\<rparr>)"
      using held_unmap [of iocb pgs "[]" U w s2 h1] p by auto
    have lift: "lift_rw f (xc_priv_data xcdev) (rw_request r iocb w pos len) (s1, h1) = (res, l, s2, h1)"
      using rw by (simp add: lift_rw_def)
    have "res \<noteq> Inl OOPS"
      using assms(1-4) map Inr lift by (auto simp: cdev_gen_read_write_def)
    moreover have "snd (iocb_release (held_uio U) (iocb\<lparr>io_sgt := [], io_pages_nr := 0\<rparr>) (x, y)) =
        (uio_kfree U (uio_sg_free U 0 x), y\<lparr>uh_arrays := uh_arrays y - 1\<rparr>)" for x y
      using p(1) by (simp add: iocb_release_def held_uio_def Let_def)
    ultimately have "h' = h"
      using assms(1-3) map Inr lift un p(5)
      by (auto simp: cdev_gen_read_write_def split: sum.splits errno.splits)
    then show ?thesis
      using map Inr by simp
  qed
qed

text \<open>The request a buffer becomes is one a queue can carry out: one entry per page.\<close>

lemma length_sg_bytes [simp]: "length (sg_bytes sg) = unat (sg_dma_len sg)"
  by (simp add: sg_bytes_def)

lemma sg_sum_bytes: "sg_sum sgl = length (concat (map sg_bytes sgl))"
  by (induction sgl) simp_all

lemma rw_request_wf:
  assumes run: "map_user_buf_to_sgl U (new_iocb buf len) w s = (Inr (), iocb, s')"
    and user: "unat buf + unat len < 2 ^ 64" "0 < len" "len \<le> 0x7FFFF000"
    and pin: "pins_pages U vm" "pins_at_most U"
    and dma: "map sg_dma_len sgl = map sg_dma_len (io_sgt iocb)"
  shows "req_wf 0x1000 ((clear_cb (rw_request r iocb w pos len))\<lparr>req_sgt := sgl\<rparr>)"
proof -
  note sgl = sgl_of_buffer [OF run user pin]
  have len: "0 < unat len" "unat len \<le> 0x7FFFF000"
    using user(2,3) by (simp_all add: word_less_nat_alt word_le_nat_alt)
  have n: "sg_sum sgl = unat len"
    using sgl(1) dma sg_sum_bytes [of "io_sgt iocb"] by (simp add: sg_sum_def flip: map_map)
  then have "sgl \<noteq> []"
    using len by auto
  moreover have "0 < sg_dma_len sg \<and> sg_dma_len sg \<le> 0x1000" if "sg \<in> set sgl" for sg
  proof -
    have "sg_dma_len sg \<in> set (map sg_dma_len (io_sgt iocb))"
      unfolding dma [symmetric] using that by simp
    then show ?thesis
      using sgl(2) by auto
  qed
  ultimately show ?thesis
    using n len unat_len32 [of len] by (auto simp: req_wf_def clear_cb_def rw_request_def intro!: exI [of _ 0])
qed

lemma page_le_blen: "0x1000 \<le> queue_blen q"
  by (simp add: queue_blen_def)

lemma put_pages_ok: "length pgs = unat n \<Longrightarrow> fst (put_pages U w (map Some pgs) n s) = Inr ()"
  by (induction pgs arbitrary: n s) (auto simp: unat_eq_0 unat_minus_one)

lemma unmap_ok:
  assumes "map_user_buf_to_sgl U (new_iocb buf len) w s = (Inr (), iocb, s')" and "pins_at_most U"
  shows "\<exists>iocb' x'. unmap_user_buf U iocb w x = (Inr (), iocb', x')"
proof -
  obtain pgs s1 s2 where p: "uio_pin U buf (buf_pages buf len) True s1 = (Inr pgs, s2)" "of_nat (length pgs) = buf_pages buf len"
    "io_pages_nr iocb = buf_pages buf len"
    "io_pages iocb = Some (map Some pgs @ replicate (unat (buf_pages buf len) - length pgs) None)"
    by (rule map_success [OF assms(1)])
  have "length pgs \<le> unat (buf_pages buf len)"
    using assms(2) p(1) unfolding pins_at_most_def by blast
  then have "length pgs = unat (buf_pages buf len)"
    using p(2) by (metis le_unat_uoi)
  then show ?thesis
    using p(3,4) put_pages_ok [of pgs "buf_pages buf len" U w]
    by (auto simp: unmap_user_buf_def Let_def split: prod.split) (metis fst_conv)
qed

text \<open>
  C3: A write to the character device of a host-to-card queue, or a read from that of a
  memory-mapped card-to-host queue, from the user's buffer to the user's result. Suppose the
  queue runs and is in a consistent state, the buffer could be pinned and its list mapped
  without merging entries. While the caller sleeps the worker, the device and the write-backs do
  what they do, in any order. Then the call returns the full number of bytes when the request
  has been completed by the time the caller wakes up, and \<open>-EIO\<close> when it has not. (On a queue that
  has no worker thread it faults.)
\<close>

theorem cdev_rw_result:
  assumes dev: "f_xcdev fp = Some xcdev" "xc_fp_rw xcdev = Some (submit_fun E K page world)"
    and user: "unat buf + unat len < 2 ^ 64" "0 < len" "len \<le> 0x7FFFF000"
    and pin: "pins_pages U vm" "pins_at_most U" "map_user_buf_to_sgl U (new_iocb buf len) w s = (Inr (), iocb, S, e)"
    and q: "qdma_device_get_descq_by_id (Some (s_xdev S)) (xc_priv_data xcdev) True = Inr (Some p)" "x_dev_priv (s_xdev S) = Some qdev"
      "snd p < length (if fst p then qd_c2h_descq qdev else qd_h2c_descq qdev)" "queue_at (s_xdev S) p = q"
    and run: "q_online q" "w \<longleftrightarrow> \<not> qc_c2h (q_conf q)" "\<not> (qc_st (q_conf q) \<and> qc_c2h (q_conf q))"
    and req: "req = rw_request r iocb w pos len" "r \<notin> set subs"
    and dma: "sg_map K (qc_c2h (q_conf q)) (io_sgt iocb) e = (Some sgl, e1)" "map sg_dma_len sgl = map sg_dma_len (io_sgt iocb)"
    and cb: "cb = (clear_cb req)\<lparr>req_sgt := sgl\<rparr>"
    and inv: "tx_inv (q, subs)"
    and world: "world (upd_queue (\<lambda>d. d\<lparr>q_work_list := q_work_list d @ [cb]\<rparr>) p S, e1) = (S2, e2)"
      "x_dev_priv (s_xdev S2) = Some qdev2" "snd p < length (if fst p then qd_c2h_descq qdev2 else qd_h2c_descq qdev2)"
      "(tx_step E vf)\<^sup>*\<^sup>* (q\<lparr>q_work_list := q_work_list q @ [cb]\<rparr>, subs @ [r]) (queue_at (s_xdev S2) p, subs2)"
  shows "fst (cdev_gen_read_write U r fp buf len pos w s) =
    (if q_wrkthp q = None then Inl OOPS
     else if r \<in> rid ` set (q_done (queue_at (s_xdev S2) p)) then Inr (ucast len, []) else Inl EIO)"
proof -
  have id: "rid req = r" "req_write req = w" "\<not> req_fp_done req" "\<not> req_dma_mapped req" "req_sgt req = io_sgt iocb"
    "req_count req = ucast len"
    using req(1) by (simp_all add: rw_request_def)
  have "req_wf 0x1000 cb"
    using rw_request_wf [OF pin(3) user pin(1,2) dma(2)] cb req(1) by simp
  then have wf: "req_wf (queue_blen q) cb"
    using page_le_blen [of q] by (auto simp: req_wf_def)
  have "unat len \<noteq> 0" "unat len < 2 ^ 32"
    using user(2,3) by (simp_all add: word_less_nat_alt word_le_nat_alt)
  then have n: "req_count req \<noteq> 0"
    unfolding id using unat_len32 [of len] by auto
  define r2 where "r2 = submit_fun E K page world (xc_priv_data xcdev) req (S, e)"
  have sub: "fst r2 = (if q_wrkthp q = None then Inl OOPS
      else if r \<in> rid ` set (q_done (queue_at (s_xdev S2) p)) then Inr (ucast len, []) else Inl EIO)"
    using submit_no_worker [OF q(1,4) _ run(1) _ run(3), of req e K sgl e1 E page world]
      submit_result [OF q _ run(1) _ run(3) _ n, of subs e K sgl e1 cb world S2 e2 qdev2 E vf subs2 _ page]
      id run(2) req(2) dma(1) cb wf inv world by (auto simp: r2_def submit_fun_def split: if_splits)
  obtain res l x where r2: "r2 = (res, l, x)"
    by (rule prod_cases3)
  obtain iocb' x' where "unmap_user_buf U iocb w x = (Inr (), iocb', x')"
    using unmap_ok [OF pin(3,2)] by blast
  then have "fst (cdev_gen_read_write U r fp buf len pos w s) = res"
    using dev pin(3) r2 req(1)
    by (auto simp: cdev_gen_read_write_def r2_def split: sum.splits errno.splits)
  then show ?thesis
    using sub r2 by simp
qed

text \<open>
  C4: The scatter list built for a user's buffer stands for the bytes of the buffer and nothing
  else: read entry by entry it gives the physical addresses of the virtual addresses from the
  first byte to the last, in order, wherever in a page the buffer starts and ends. (The kernel
  limits a transfer to 0x7FFFF000 bytes and a user's buffer to the user's part of the address
  space; \<open>vm\<close> is the page table the pages were looked up in.)
\<close>

theorem user_sgl_covers_buffer:
  assumes "map_user_buf_to_sgl U (new_iocb buf len) w s = (Inr (), iocb, s')"
    and "unat buf + unat len < 2 ^ 64" and "0 < len" and "len \<le> 0x7FFFF000"
    and "pins_pages U vm" and "pins_at_most U"
  shows "concat (map sg_bytes (io_sgt iocb)) = map (phys vm) [unat buf ..< unat buf + unat len]
    \<and> (\<forall>sg\<in>set (io_sgt iocb). 0 < sg_dma_len sg \<and> sg_dma_len sg \<le> 0x1000)"
  using sgl_of_buffer [OF assms] by blast

section \<open>Creating and destroying a device\<close>

text \<open>The accounts of structures, live device numbers and nodes of the class.\<close>

record cdev_held =
  ch_mem :: int
  ch_live :: "u32 multiset"
  ch_nodes :: "(u32 \<times> string) multiset"

definition held_cdev :: "'s cdev_if \<Rightarrow> ('s \<times> cdev_held) cdev_if" where
  "held_cdev C = \<lparr>
     cif_kzalloc = (\<lambda>n (s, h). let (ok, s) = cif_kzalloc C n s in (ok, s, if ok then h\<lparr>ch_mem := ch_mem h + 1\<rparr> else h)),
     cif_kfree = (\<lambda>(s, h). (cif_kfree C s, h\<lparr>ch_mem := ch_mem h - 1\<rparr>)),
     cif_add = (\<lambda>d (s, h). let (r, s) = cif_add C d s in (r, s, if r = Inr () then h\<lparr>ch_live := add_mset d (ch_live h)\<rparr> else h)),
     cif_del = (\<lambda>d (s, h). (cif_del C d s, h\<lparr>ch_live := ch_live h - {#d#}\<rparr>)),
     cif_device_create = (\<lambda>d nm (s, h). let (r, s) = cif_device_create C d nm s
        in (r, s, if r = Inr () then h\<lparr>ch_nodes := add_mset (d, nm) (ch_nodes h)\<rparr> else h)),
     cif_device_destroy = (\<lambda>d (s, h). (cif_device_destroy C d s, h\<lparr>ch_nodes := filter_mset (\<lambda>x. fst x \<noteq> d) (ch_nodes h)\<rparr>)),
     cif_alloc_region = (\<lambda>n (s, h). let (r, s) = cif_alloc_region C n s in (r, s, h)),
     cif_unregister_region = (\<lambda>d n (s, h). (cif_unregister_region C d n s, h)),
     cif_class_create = (\<lambda>(s, h). let (r, s) = cif_class_create C s in (r, s, h)),
     cif_class_destroy = (\<lambda>(s, h). (cif_class_destroy C s, h))\<rparr>"

text \<open>
  C6: Creating the character device of a queue is all or nothing. When it fails, whichever step
  failed, no memory, device number or node is kept. When it succeeds the minor number is one
  the driver reserved, the device carries the queue's handle and name and submits to the
  queue, it is live under one number, with a node of the queue's name when the driver has a
  class; and destroying it gives everything back.
\<close>

theorem cdev_create_all_or_nothing:
  assumes "qdma_cdev_create (held_cdev C) cls submit xcb qconf minor qhndl (s, h) = (rv, s', h')"
    and "\<forall>nm. (MKDEV (cdev_major xcb) minor, nm) \<notin># ch_nodes h"
  shows "case rv of Inl _ \<Rightarrow> h' = h
    | Inr xc \<Rightarrow> minor <s cdev_minor_cnt xcb \<and> xc_priv_data xc = qhndl \<and> xc_name xc = qc_name qconf \<and> xc_fp_rw xc = Some submit
      \<and> h' = \<lparr>ch_mem = ch_mem h + 1, ch_live = add_mset (MKDEV (cdev_major xcb) minor) (ch_live h),
          ch_nodes = (if cls then add_mset (MKDEV (cdev_major xcb) minor, qc_name qconf) (ch_nodes h) else ch_nodes h)\<rparr>
      \<and> snd (qdma_cdev_destroy (held_cdev C) cls (Some xc) (s', h')) = h"
proof -
  let ?d = "MKDEV (cdev_major xcb) minor"
  obtain ok s1 where a1: "cif_kzalloc C (length (qc_name qconf) + 1) s = (ok, s1)"
    by fastforce
  obtain r2 s2 where a2: "cif_add C ?d s1 = (r2, s2)"
    by fastforce
  obtain r3 s3 where a3: "cif_device_create C ?d (qc_name qconf) s2 = (r3, s3)"
    by fastforce
  have [simp]: "filter_mset (\<lambda>x. fst x \<noteq> ?d) (ch_nodes h) = ch_nodes h"
    using assms(2) by (auto simp: filter_mset_eq_conv)
  show ?thesis
    using assms(1) a1 a2 a3
    by (auto simp: qdma_cdev_create_def qdma_cdev_destroy_def held_cdev_def Let_def signed.not_le
        split: if_splits sum.splits)
qed

lemma mkdev_minor:
  assumes "minor < 2 ^ 20"
  shows "MKDEV major minor AND mask 20 = minor"
proof -
  have "take_bit 20 minor = minor"
    unfolding word_unat_eq_iff using assms by (simp add: word_less_nat_alt unsigned_take_bit_eq take_bit_nat_eq_self)
  then show ?thesis
    by (simp add: MKDEV_def flip: take_bit_eq_mask) (simp add: take_bit_or take_bit_push_bit)
qed

section \<open>Seeking\<close>

text \<open>
  A position that is accepted is not negative and becomes the position of the file; nothing is
  known of the end of the device: \<open>SEEK_END\<close> counts from 0xFFFFFFFF.
\<close>

lemma llseek_result:
  "cdev_gen_llseek file off whence = (rv, file') \<Longrightarrow>
     (case rv of Inl err \<Rightarrow> err = EINVAL \<and> file' = file
      | Inr newpos \<Rightarrow> 0 \<le>s newpos \<and> f_pos file' = newpos \<and> f_xcdev file' = f_xcdev file)"
  by (auto simp: cdev_gen_llseek_def Let_def signed.not_less split: if_splits)

section \<open>Concrete runs\<close>

text \<open>A kernel that grants everything, with a page table that scatters the pages; one that pins a page less.\<close>

definition sample_vm :: "nat \<Rightarrow> u64" where
  "sample_vm n = of_nat (n - 15) * 0x10000"

definition sample_uio :: "bool \<Rightarrow> 's uio_if" where
  "sample_uio short = \<lparr>
     uio_sg_alloc = (\<lambda>n s. (True, s)), uio_sg_free = (\<lambda>n s. s), uio_kcalloc = (\<lambda>n s. (True, s)), uio_kfree = (\<lambda>s. s),
     uio_pin = (\<lambda>buf n w s. (Inr (map sample_vm [unat buf div 4096 ..< unat buf div 4096 + (unat n - (if short then 1 else 0))]), s)),
     uio_dirty = (\<lambda>p s. s), uio_put = (\<lambda>p s. s), uio_flush = (\<lambda>p s. s)\<rparr>"

lemma sample_uio_pins: "pins_pages (sample_uio k) sample_vm" "pins_at_most (sample_uio k)"
  by (auto simp: pins_pages_def pins_at_most_def sample_uio_def)

definition sample_iocb :: qdma_io_cb where
  "sample_iocb = \<lparr>io_buf = 0x10000, io_len = 0x1200, io_pages_nr = 2,
     io_sgt = [\<lparr>sg_dma_address = 0x10000, sg_dma_len = 4096\<rparr>, \<lparr>sg_dma_address = 0x20000, sg_dma_len = 512\<rparr>],
     io_pages = Some [Some 0x10000, Some 0x20000]\<rparr>"

lemma sample_lists: "[16..<18] = [16, 17 :: nat]" "[16..<17] = [16 :: nat]" "replicate 2 x = [x, x]"
  by (simp_all add: numeral_2_eq_2)

lemma sample_pages: "buf_pages 0x10000 0x1200 = 2"
  by (simp add: buf_pages_def)

lemma sample_map: "map_user_buf_to_sgl (sample_uio False) (new_iocb 0x10000 0x1200) w s = (Inr (), sample_iocb, s)"
  by (simp add: map_user_buf_to_sgl_def new_iocb_def sample_pages sample_uio_def sample_vm_def sample_iocb_def
      offset_in_page_def sg_set_page_def Let_def sample_lists)

theorem user_sgl_covers_buffer_witness:
  "concat (map sg_bytes (io_sgt sample_iocb)) = map (phys sample_vm) [unat (0x10000 :: u64) ..< unat (0x10000 :: u64) + unat (0x1200 :: u64)]"
  by (rule user_sgl_covers_buffer [OF sample_map _ _ _ sample_uio_pins, THEN conjunct1]) simp_all

definition sample_file :: "'s rw_fun \<Rightarrow> 's cfile" where
  "sample_file f = \<lparr>f_xcdev = Some \<lparr>xc_minor = 0, xc_cdevno = 0, xc_sys_device = True, xc_priv_data = 0,
     xc_fp_open_extra = None, xc_fp_close_extra = None, xc_fp_ioctl_extra = None, xc_fp_rw = Some f, xc_name = ''q0''\<rparr>,
     f_pos = 0x8000\<rparr>"

definition sample_held :: uio_held where
  "sample_held = \<lparr>uh_pins = {#}, uh_tables = 0, uh_arrays = 0\<rparr>"

definition sample_rw :: "bool \<Rightarrow> (u32 \<times> u8 list list) res \<times> bool \<times> unit \<times> uio_held" where
  "sample_rw short = cdev_gen_read_write (held_uio (sample_uio short)) 1
     (sample_file (lift_rw (\<lambda>i req s. (Inr (req_count req, []), False, s)))) 0x10000 0x1200 0x8000 True ((), sample_held)"

lemma sample_short_map:
  "map_user_buf_to_sgl (held_uio (sample_uio True)) (new_iocb 0x10000 0x1200) True ((), sample_held) =
     (Inl EFAULT, \<lparr>io_buf = 0x10000, io_len = 0x1200, io_pages_nr = 0, io_sgt = [], io_pages = Some [Some 0x10000, None]\<rparr>,
      (), sample_held\<lparr>uh_arrays := 1\<rparr>)"
  by (simp add: map_user_buf_to_sgl_def map_err_out_def unmap_user_buf_def new_iocb_def sample_pages held_uio_def sample_uio_def
      sample_vm_def sample_held_def Let_def sample_lists del: mset_map mset_upt)

lemma sample_held_map:
  "map_user_buf_to_sgl (held_uio (sample_uio False)) (new_iocb 0x10000 0x1200) True ((), sample_held) =
     (Inr (), sample_iocb, (), \<lparr>uh_pins = {#0x10000, 0x20000#}, uh_tables = 1, uh_arrays = 1\<rparr>)"
  by (simp add: map_user_buf_to_sgl_def new_iocb_def sample_pages held_uio_def sample_uio_def sample_iocb_def sample_held_def
      sample_vm_def offset_in_page_def sg_set_page_def Let_def sample_lists del: mset_map mset_upt)

lemma sample_unmap: "\<exists>iocb x. unmap_user_buf (held_uio U) sample_iocb w (s, h) = (Inr (), iocb, x)"
  using held_unmap [of sample_iocb "[0x10000, 0x20000]" "[]" U w s h] by (auto simp: sample_iocb_def)

lemma sample_rw_ok: "fst (sample_rw False) = Inr (0x1200, [])" "fst (sample_rw True) = Inl EFAULT"
proof -
  obtain iocb x where "unmap_user_buf (held_uio (sample_uio False)) sample_iocb True
      ((), \<lparr>uh_pins = {#0x10000, 0x20000#}, uh_tables = 1, uh_arrays = 1\<rparr>) = (Inr (), iocb, x)"
    using sample_unmap [of "sample_uio False" True "()" "\<lparr>uh_pins = {#0x10000, 0x20000#}, uh_tables = 1, uh_arrays = 1\<rparr>"] by auto
  then show "fst (sample_rw False) = Inr (0x1200, [])"
    by (simp add: sample_rw_def cdev_gen_read_write_def sample_file_def sample_held_map lift_rw_def rw_request_def)
  show "fst (sample_rw True) = Inl EFAULT"
    by (simp add: sample_rw_def cdev_gen_read_write_def sample_file_def sample_short_map)
qed

text \<open>With all pages pinned nothing is kept; with one page less the array is.\<close>

theorem cdev_rw_releases_witness:
  "snd (snd (snd (sample_rw False))) = sample_held \<and> snd (snd (snd (sample_rw True))) = sample_held\<lparr>uh_arrays := 1\<rparr>"
proof -
  have *: "snd (snd (snd (sample_rw k))) = (case map_user_buf_to_sgl (held_uio (sample_uio k)) (new_iocb 0x10000 0x1200) True ((), sample_held) of
      (Inl err, iocb, _) \<Rightarrow> sample_held\<lparr>uh_arrays := uh_arrays sample_held + (if io_pages iocb = None then 0 else 1)\<rparr>
    | (Inr _, _) \<Rightarrow> sample_held)" if "fst (sample_rw k) \<noteq> Inl OOPS" for k
  proof -
    obtain rv l s h where run: "sample_rw k = (rv, l, s, h)"
      by (metis surj_pair)
    show ?thesis
      using cdev_rw_releases [OF run [unfolded sample_rw_def] _ _ _ sample_uio_pins(2)] that run by (simp add: sample_file_def)
  qed
  show ?thesis
    using * [of False] * [of True] sample_rw_ok by (simp add: sample_held_map sample_short_map) (simp add: sample_held_def)
qed

section \<open>A write from the user's buffer to the user's result\<close>

definition sample_write_cb :: qdma_sg_req where
  "sample_write_cb = (sample_req 0)\<lparr>req_dma_mapped := False, req_timeout_ms := 10000\<rparr>"

lemma sample_write_served: "sample_served sample_write_cb"
  by code_simp

lemma sample_write_request:
  "(clear_cb (rw_request 1 sample_iocb True 0x8000 0x1200))\<lparr>req_sgt := io_sgt sample_iocb\<rparr> = sample_write_cb"
  by (simp add: clear_cb_def rw_request_def sample_iocb_def sample_write_cb_def sample_req_def)

theorem cdev_rw_result_witness:
  "fst (cdev_gen_read_write (sample_uio False) 1 (sample_file (submit_fun ram_env sample_sg (\<lambda>_ _. 0) sample_world))
     0x10000 0x1200 0x8000 True (sample_io_sys, \<lambda>_. 0)) = Inr (0x1200, [])"
proof -
  obtain qdev S2 qdev2 where w: "x_dev_priv (s_xdev sample_io_sys) = Some qdev" "0 < length (qd_h2c_descq qdev)"
    "queue_at (s_xdev sample_io_sys) (False, 0) = sample_idle"
    "sample_world (upd_queue (\<lambda>d. d\<lparr>q_work_list := q_work_list d @ [sample_write_cb]\<rparr>) (False, 0) sample_io_sys, \<lambda>_ :: u32. 0 :: u32)
       = (S2, \<lambda>_. 0)"
    "queue_at (s_xdev S2) (False, 0) = snd (snd (sample_reply (sample_idle\<lparr>q_work_list := [sample_write_cb]\<rparr>)))"
    "x_dev_priv (s_xdev S2) = Some qdev2" "0 < length (qd_h2c_descq qdev2)"
    by (rule sample_world_run [of sample_write_cb "\<lambda>_. 0"])
  note run = sample_tx_run [OF sample_write_served]
  have "sg_map sample_sg c2h (io_sgt sample_iocb) e = (Some (io_sgt sample_iocb), e)" for c2h and e :: "u32 \<Rightarrow> u32"
    by (simp add: sample_sg_def)
  then show ?thesis
    using cdev_rw_result [OF _ _ _ _ _ sample_uio_pins sample_map, where fp = "sample_file (submit_fun ram_env sample_sg (\<lambda>_ _. 0) sample_world)"
        and K = sample_sg and E = ram_env and world = sample_world and page = "\<lambda>_ _. 0" and p = "(False, 0)" and qdev = qdev
        and q = sample_idle and S = sample_io_sys and e = "\<lambda>_. 0" and r = "1" and pos = "0x8000" and subs = "[]" and sgl = "io_sgt sample_iocb"
        and ?e1.0 = "\<lambda>_. 0" and cb = sample_write_cb and ?S2.0 = S2 and ?e2.0 = "\<lambda>_. 0" and ?qdev2.0 = qdev2 and vf = False and ?subs2.0 = "[1]"]
      sample_io_queue(1) w sample_idle_inv run sample_write_request
    by (auto simp: sample_file_def sample_io_facts)
qed

text \<open>A kernel that grants every device; the first number it hands out is that of major 240.\<close>

definition sample_cif :: "'s cdev_if" where
  "sample_cif = \<lparr>
     cif_kzalloc = (\<lambda>n s. (True, s)), cif_kfree = (\<lambda>s. s), cif_add = (\<lambda>d s. (Inr (), s)), cif_del = (\<lambda>d s. s),
     cif_device_create = (\<lambda>d nm s. (Inr (), s)), cif_device_destroy = (\<lambda>d s. s),
     cif_alloc_region = (\<lambda>n s. (Inr 0xF000000, s)), cif_unregister_region = (\<lambda>d n s. s),
     cif_class_create = (\<lambda>s. (Inr (), s)), cif_class_destroy = (\<lambda>s. s)\<rparr>"

definition sample_create :: "unit rw_fun \<Rightarrow> unit qdma_cdev res \<times> unit \<times> cdev_held" where
  "sample_create f = qdma_cdev_create (held_cdev sample_cif) True f \<lparr>cdev_major = 240, cdev_minor_cnt = 255\<rparr>
     (sample_conf False False) 3 3 ((), \<lparr>ch_mem = 0, ch_live = {#}, ch_nodes = {#}\<rparr>)"

lemma sample_create_ok: "isl (fst (sample_create f)) = False"
  by (simp add: sample_create_def qdma_cdev_create_def held_cdev_def sample_cif_def Let_def word_sle_eq)

theorem cdev_create_all_or_nothing_witness:
  "ch_live (snd (snd (sample_create (\<lambda>i req s. (Inl EIO, False, s))))) = {#MKDEV 240 3#}"
proof -
  obtain rv s h where run: "sample_create (\<lambda>i req s. (Inl EIO, False, s)) = (rv, s, h)"
    by (rule prod_cases3)
  moreover have "\<not> isl rv"
    using sample_create_ok run by (metis fst_conv)
  ultimately show ?thesis
    using cdev_create_all_or_nothing [OF run [unfolded sample_create_def]] by (cases rv) auto
qed

end
