(* ===== verification/Qdma_Mod.thy ===== *)
theory Qdma_Mod
  imports Qdma_Cdev
begin

text \<open>
  The kernel module (\<open>drv/qdma_mod.c\<close>, \<open>drv/qdma_mod.h\<close>): the list of attached devices, the table of
  the queues of a device with their character devices, probing and removing a device, SR-IOV
  configuration, PCI error handling, loading and unloading the module.

  A device structure \<open>xlnx_pci_dev\<close> is known by its address; \<open>drvdata\<close> is the pointer the kernel keeps
  per PCI device. The library's devices and threads are the state \<open>drv_sys\<close> of \<open>Qdma_Xdev\<close>; an
  operation on the queues of a device runs on the part of it that the device's handle names, and
  a handle that names no device is a fault. \<open>'s\<close> is the state the callbacks of the character
  devices run on. The size of a structure is given as its number of queue entries. The kernel's
  functions are parameters. Messages are not represented.
\<close>

section \<open>Data (qdma_mod.h)\<close>

record 's xlnx_qdata =
  xq_qhndl :: nat
  xq_xcdev :: "'s qdma_cdev option"

record 's xlnx_pci_dev =
  xp_addr :: nat
  xp_pdev :: nat
  xp_dev_hndl :: nat
  xp_cdev_cb :: qdma_cdev_cb
  xp_qmax :: u32
  xp_idx :: u32
  xp_qdata :: "'s xlnx_qdata list"

definition zero_qdata :: "'s xlnx_qdata" where
  "zero_qdata = \<lparr>xq_qhndl = 0, xq_xcdev = None\<rparr>"

record 's mod_sys =
  md_drv :: drv_sys
  md_list :: "'s xlnx_pci_dev list"
  md_drvdata :: "nat \<Rightarrow> nat option"
  md_class :: bool

text \<open>Memory, the PCI functions of the error handlers, and registration with the kernel.\<close>

record 'e mod_if =
  mi_kzalloc :: "nat \<Rightarrow> 'e \<Rightarrow> nat option \<times> 'e"
  mi_vmalloc :: "nat \<Rightarrow> 'e \<Rightarrow> nat option \<times> 'e"
  mi_vmalloc_addr :: "nat \<Rightarrow> bool"
  mi_kfree :: "nat \<Rightarrow> 'e \<Rightarrow> 'e"
  mi_vfree :: "nat \<Rightarrow> 'e \<Rightarrow> 'e"
  mi_disable_device :: "nat \<Rightarrow> 'e \<Rightarrow> 'e"
  mi_enable_device_mem :: "nat \<Rightarrow> 'e \<Rightarrow> bool \<times> 'e"
  mi_set_master :: "nat \<Rightarrow> 'e \<Rightarrow> 'e"
  mi_restore_state :: "nat \<Rightarrow> 'e \<Rightarrow> 'e"
  mi_save_state :: "nat \<Rightarrow> 'e \<Rightarrow> 'e"
  mi_cleanup_aer :: "nat \<Rightarrow> 'e \<Rightarrow> 'e"
  mi_genl_register :: "'e \<Rightarrow> unit res \<times> 'e"
  mi_genl_unregister :: "'e \<Rightarrow> 'e"
  mi_pci_register :: "'e \<Rightarrow> unit res \<times> 'e"
  mi_pci_unregister :: "'e \<Rightarrow> 'e"

definition with_device ::
  "nat \<Rightarrow> (qsys \<Rightarrow> 'e \<Rightarrow> 'r res \<times> qsys \<times> 'e) \<Rightarrow> drv_sys \<Rightarrow> 'e \<Rightarrow> 'r res \<times> drv_sys \<times> 'e" where
  "with_device hndl f D e =
     (case dev_at hndl (d_list D) of
        None \<Rightarrow> (Inl OOPS, D, e)
      | Some n \<Rightarrow>
          (case f \<lparr>s_xdev = n_xdev n, s_thr = d_thr D\<rparr> e of
             (rv, S, e) \<Rightarrow>
               (rv, D\<lparr>d_list := map (\<lambda>m. if n_hndl m = hndl then m\<lparr>n_xdev := s_xdev S\<rparr> else m) (d_list D),
                      d_thr := s_thr S\<rparr>, e)))"

section \<open>The list of devices\<close>

definition xpdev_list_remove :: "nat \<Rightarrow> 's xlnx_pci_dev list \<Rightarrow> 's xlnx_pci_dev list" where
  "xpdev_list_remove a l = filter (\<lambda>x. xp_addr x \<noteq> a) l"

definition xpdev_list_add :: "'s xlnx_pci_dev \<Rightarrow> 's xlnx_pci_dev list \<Rightarrow> 's xlnx_pci_dev list" where
  "xpdev_list_add x l = l @ [x]"

definition xpdev_find_by_idx :: "u32 \<Rightarrow> 's xlnx_pci_dev list \<Rightarrow> 's xlnx_pci_dev option" where
  "xpdev_find_by_idx idx l = find (\<lambda>x. xp_idx x = idx) l"

text \<open>Writing a structure through its pointer.\<close>

definition put_xpdev :: "'s xlnx_pci_dev \<Rightarrow> 's xlnx_pci_dev list \<Rightarrow> 's xlnx_pci_dev list" where
  "put_xpdev x l = map (\<lambda>y. if xp_addr y = xp_addr x then x else y) l"

section \<open>The queues of a device\<close>

definition xpdev_queue_get :: "'s xlnx_pci_dev \<Rightarrow> u32 \<Rightarrow> bool \<Rightarrow> bool \<Rightarrow> nat option" where
  "xpdev_queue_get xpdev qidx c2h check_qhndl =
     (if qidx \<ge> xp_qmax xpdev then None
      else let k = unat qidx + (if c2h then unat (xp_qmax xpdev) else 0);
               qdata = xp_qdata xpdev ! k
           in if check_qhndl \<and> xq_qhndl qdata = 0 \<and> xq_xcdev qdata = None then None else Some k)"

definition xpdev_queue_delete ::
  "'e env \<Rightarrow> 'e cdev_if \<Rightarrow> bool \<Rightarrow> 's xlnx_pci_dev \<Rightarrow> u32 \<Rightarrow> bool \<Rightarrow> drv_sys \<Rightarrow> 'e
     \<Rightarrow> unit res \<times> 's xlnx_pci_dev \<times> drv_sys \<times> 'e" where
  "xpdev_queue_delete E C cls xpdev qidx c2h D e =
     (case xpdev_queue_get xpdev qidx c2h True of
        None \<Rightarrow> (Inl EINVAL, xpdev, D, e)
      | Some k \<Rightarrow>
          let qdata = xp_qdata xpdev ! k;
              e = (if xq_xcdev qdata \<noteq> None then qdma_cdev_destroy C cls (xq_xcdev qdata) e else e);
              (rv, D, e) = (if xq_qhndl qdata \<noteq> unat QDMA_QUEUE_IDX_INVALID
                            then with_device (xp_dev_hndl xpdev) (\<lambda>S. qdma_queue_remove E S (xq_qhndl qdata)) D e
                            else (Inr (), D, e))
          in (rv, xpdev\<lparr>xp_qdata := (xp_qdata xpdev)[k := zero_qdata]\<rparr>, D, e))"

text \<open>
  The local variable \<open>xcdev\<close> is not initialised: when no device is created, the table gets the
  value \<open>stale\<close> it happens to have.
\<close>

definition xpdev_queue_add ::
  "'e env \<Rightarrow> bool \<Rightarrow> 'e cdev_if \<Rightarrow> bool \<Rightarrow> 's rw_fun \<Rightarrow> 's qdma_cdev option \<Rightarrow> 's xlnx_pci_dev \<Rightarrow> qdma_queue_conf
     \<Rightarrow> drv_sys \<Rightarrow> 'e \<Rightarrow> unit res \<times> 's xlnx_pci_dev \<times> drv_sys \<times> 'e" where
  "xpdev_queue_add E vf C cls submit stale xpdev qconf D e =
     (case with_device (xp_dev_hndl xpdev) (\<lambda>S. qdma_queue_add E vf S qconf False) D e of
        (Inl err, D, e) \<Rightarrow> (Inl err, xpdev, D, e)
      | (Inr (qhndl, qconf), D, e) \<Rightarrow>
          (case xpdev_queue_get xpdev (ucast (qc_qidx qconf)) (qc_c2h qconf) False of
             None \<Rightarrow> (Inr (), xpdev, D, e)
           | Some k \<Rightarrow>
               (case qdma_cdev_create C cls submit (xp_cdev_cb xpdev) qconf (of_nat qhndl) qhndl e of
                  (Inl err, e) \<Rightarrow>
                    (Inl err, xpdev\<lparr>xp_qdata := (xp_qdata xpdev)[k := \<lparr>xq_qhndl = qhndl, xq_xcdev = stale\<rparr>]\<rparr>, D, e)
                | (Inr xcdev, e) \<Rightarrow>
                    (Inr (), xpdev\<lparr>xp_qdata := (xp_qdata xpdev)[k := \<lparr>xq_qhndl = qhndl, xq_xcdev = Some xcdev\<rparr>]\<rparr>, D, e))))"

section \<open>Probing and removing a device\<close>

definition xpdev_free :: "'e mod_if \<Rightarrow> nat \<Rightarrow> 's mod_sys \<Rightarrow> 'e \<Rightarrow> 's mod_sys \<times> 'e" where
  "xpdev_free G p M e =
     (M\<lparr>md_list := xpdev_list_remove p (md_list M)\<rparr>, if mi_vmalloc_addr G p then mi_vfree G p e else mi_kfree G p e)"

definition xpdev_alloc ::
  "'e mod_if \<Rightarrow> nat \<Rightarrow> u32 \<Rightarrow> 's mod_sys \<Rightarrow> 'e \<Rightarrow> 's xlnx_pci_dev option \<times> 's mod_sys \<times> 'e" where
  "xpdev_alloc G pdev qmax M e =
     (let n = 2 * unat qmax;
          (p, e) = (case mi_kzalloc G n e of (None, e) \<Rightarrow> mi_vmalloc G n e | (Some p, e) \<Rightarrow> (Some p, e))
      in case p of
           None \<Rightarrow> (None, M, e)
         | Some p \<Rightarrow>
             let xpdev = \<lparr>xp_addr = p, xp_pdev = pdev, xp_dev_hndl = 0, xp_cdev_cb = \<lparr>cdev_major = 0, cdev_minor_cnt = 0\<rparr>,
                   xp_qmax = qmax, xp_idx = 0xFF, xp_qdata = replicate n zero_qdata\<rparr>
             in (Some xpdev, M\<lparr>md_list := xpdev_list_add xpdev (md_list M)\<rparr>, e))"

definition probe_conf :: "bool \<Rightarrow> u32 \<Rightarrow> u32 \<Rightarrow> u32 \<Rightarrow> nat \<Rightarrow> qdma_dev_conf" where
  "probe_conf vf poll_mode_en pftch_en ind_intr_mode pdev =
     \<lparr>dc_c2h_channel_max = 1, dc_h2c_channel_max = 1, dc_poll_mode = ((ucast poll_mode_en :: u8) \<noteq> 0), dc_pftch_en = ucast pftch_en,
      dc_indirect_intr_mode = ((ucast ind_intr_mode :: u8) \<noteq> 0), dc_vf_max = 0,
      dc_qsets_max = of_nat (if vf then QDMA_Q_PER_VF_MAX else QDMA_Q_PER_PF_MAX), dc_pdev = pdev, dc_name = [], dc_idx = 0,
      dc_bar_num_config = 0, dc_bar_num_user = 0\<rparr>"

text \<open>The arm behind \<open>close_device\<close>.\<close>

definition probe_undo ::
  "'e env \<Rightarrow> bool \<Rightarrow> 'e pci_if \<Rightarrow> 'e msix_if \<Rightarrow> 'e pci_iov \<Rightarrow> (mbox_msg \<Rightarrow> 'e \<Rightarrow> mbox_msg \<times> 'e) \<Rightarrow> 'e mod_if
     \<Rightarrow> nat \<Rightarrow> nat \<Rightarrow> errno \<Rightarrow> nat option \<Rightarrow> 's mod_sys \<Rightarrow> 'e \<Rightarrow> unit res \<times> 's mod_sys \<times> 'e" where
  "probe_undo E vf P X I reply G pdev hndl err p M e =
     (case qdma_device_close E vf P X I reply pdev hndl (md_drv M) e of
        (rv, D, e) \<Rightarrow>
          let M = M\<lparr>md_drv := D\<rparr> in
          if rv = Inl OOPS then (rv, M, e)
          else case p of
                 None \<Rightarrow> (Inl err, M, e)
               | Some p \<Rightarrow> (let (M, e) = xpdev_free G p M e in (Inl err, M, e)))"

definition probe_one ::
  "'e env \<Rightarrow> bool \<Rightarrow> 'e pci_if \<Rightarrow> 'e msix_if \<Rightarrow> 'e pci_iov \<Rightarrow> (mbox_msg \<Rightarrow> 'e \<Rightarrow> mbox_msg \<times> 'e)
     \<Rightarrow> (nat \<Rightarrow> qdma_vf_info) \<Rightarrow> string \<Rightarrow> 'e cdev_if \<Rightarrow> 'e mod_if \<Rightarrow> qdma_dev_conf \<Rightarrow> 's mod_sys \<Rightarrow> 'e
     \<Rightarrow> unit res \<times> 's mod_sys \<times> 'e" where
  "probe_one E vf P X I reply junk bdf C G conf M e =
     (let pdev = dc_pdev conf in
      case qdma_device_open E vf P X I reply junk bdf conf (md_drv M) e of
        ((Inl err, hndl, conf), D, e) \<Rightarrow> (Inl err, M\<lparr>md_drv := D\<rparr>, e)
      | ((Inr _, hndl, conf), D, e) \<Rightarrow>
          let M = M\<lparr>md_drv := D\<rparr> in
          (case xpdev_alloc G pdev (dc_qsets_max conf) M e of
             (None, M, e) \<Rightarrow> probe_undo E vf P X I reply G pdev hndl EINVAL None M e
           | (Some xpdev, M, e) \<Rightarrow>
               let xpdev = xpdev\<lparr>xp_dev_hndl := hndl, xp_idx := ucast (dc_idx conf)\<rparr> in
               (case qdma_cdev_device_init C (xp_cdev_cb xpdev) e of
                  (rv, xcb, e) \<Rightarrow>
                    let xpdev = xpdev\<lparr>xp_cdev_cb := xcb\<rparr>;
                        M = M\<lparr>md_list := put_xpdev xpdev (md_list M)\<rparr>
                    in case rv of
                         Inl err \<Rightarrow> probe_undo E vf P X I reply G pdev hndl err (Some (xp_addr xpdev)) M e
                       | Inr _ \<Rightarrow> (Inr (), M\<lparr>md_drvdata := (md_drvdata M)(pdev := Some (xp_addr xpdev))\<rparr>, e))))"

definition xpdev_device_cleanup :: "'e cdev_if \<Rightarrow> bool \<Rightarrow> 's xlnx_pci_dev \<Rightarrow> 'e \<Rightarrow> 's xlnx_pci_dev \<times> 'e" where
  "xpdev_device_cleanup C cls xpdev e =
     (xpdev\<lparr>xp_qdata := map (\<lambda>_. zero_qdata) (xp_qdata xpdev)\<rparr>,
      fold (\<lambda>qdata e. if xq_xcdev qdata \<noteq> None then qdma_cdev_destroy C cls (xq_xcdev qdata) e else e) (xp_qdata xpdev) e)"

text \<open>The device structure \<open>drvdata\<close> points to; a pointer to one that was freed is a fault.\<close>

definition drvdata :: "nat \<Rightarrow> 's mod_sys \<Rightarrow> 's xlnx_pci_dev option res" where
  "drvdata pdev M =
     (case md_drvdata M pdev of
        None \<Rightarrow> Inr None
      | Some p \<Rightarrow> (case find (\<lambda>x. xp_addr x = p) (md_list M) of None \<Rightarrow> Inl OOPS | Some x \<Rightarrow> Inr (Some x)))"

definition remove_one ::
  "'e env \<Rightarrow> bool \<Rightarrow> 'e pci_if \<Rightarrow> 'e msix_if \<Rightarrow> 'e pci_iov \<Rightarrow> (mbox_msg \<Rightarrow> 'e \<Rightarrow> mbox_msg \<times> 'e) \<Rightarrow> 'e cdev_if \<Rightarrow> 'e mod_if
     \<Rightarrow> nat \<Rightarrow> 's mod_sys \<Rightarrow> 'e \<Rightarrow> unit res \<times> 's mod_sys \<times> 'e" where
  "remove_one E vf P X I reply C G pdev M e =
     (case drvdata pdev M of
        Inl err \<Rightarrow> (Inl err, M, e)
      | Inr None \<Rightarrow> (Inr (), M, e)
      | Inr (Some xpdev) \<Rightarrow>
          let (xpdev, e) = xpdev_device_cleanup C (md_class M) xpdev e;
              M = M\<lparr>md_list := put_xpdev xpdev (md_list M)\<rparr>
          in case qdma_device_close E vf P X I reply pdev (xp_dev_hndl xpdev) (md_drv M) e of
               (rv, D, e) \<Rightarrow>
                 let M = M\<lparr>md_drv := D\<rparr> in
                 if rv = Inl OOPS then (rv, M, e)
                 else let (M, e) = xpdev_free G (xp_addr xpdev) M e
                      in (Inr (), M\<lparr>md_drvdata := (md_drvdata M)(pdev := None)\<rparr>, e))"

section \<open>SR-IOV and PCI errors\<close>

definition QDMA_VF_PER_PF_MAX :: int where
  [simp]: "QDMA_VF_PER_PF_MAX = 8"

definition sriov_config ::
  "'e env \<Rightarrow> 'e pci_iov \<Rightarrow> (nat \<Rightarrow> qdma_vf_info) \<Rightarrow> nat \<Rightarrow> int \<Rightarrow> 's mod_sys \<Rightarrow> 'e \<Rightarrow> int res \<times> 's mod_sys \<times> 'e" where
  "sriov_config E I junk pdev num_vfs M e =
     (case drvdata pdev M of
        Inl err \<Rightarrow> (Inl err, M, e)
      | Inr None \<Rightarrow> (Inl EINVAL, M, e)
      | Inr (Some xpdev) \<Rightarrow>
          let num_vfs = min num_vfs QDMA_VF_PER_PF_MAX;
              hndl = xp_dev_hndl xpdev; D = md_drv M;
              dev = map_option n_xdev (dev_at hndl (d_list D))
          in case qdma_device_sriov_config E I junk (xdev_check_hndl pdev hndl (d_list D)) dev num_vfs e of
               (rv, dev, e) \<Rightarrow>
                 (rv, M\<lparr>md_drv := D\<lparr>d_list := map (\<lambda>m. if n_hndl m = hndl \<and> dev \<noteq> None then m\<lparr>n_xdev := the dev\<rparr> else m) (d_list D)\<rparr>\<rparr>, e))"

datatype pci_channel_state = pci_channel_io_normal | pci_channel_io_frozen | pci_channel_io_perm_failure

datatype pci_ers_result = CAN_RECOVER | NEED_RESET | DISCONNECT | RECOVERED

definition qdma_error_detected :: "'e mod_if \<Rightarrow> nat \<Rightarrow> pci_channel_state \<Rightarrow> 'e \<Rightarrow> pci_ers_result \<times> 'e" where
  "qdma_error_detected G pdev state e =
     (case state of
        pci_channel_io_normal \<Rightarrow> (CAN_RECOVER, e)
      | pci_channel_io_frozen \<Rightarrow> (NEED_RESET, mi_disable_device G pdev e)
      | pci_channel_io_perm_failure \<Rightarrow> (DISCONNECT, e))"

definition qdma_slot_reset :: "'e mod_if \<Rightarrow> nat \<Rightarrow> 's mod_sys \<Rightarrow> 'e \<Rightarrow> pci_ers_result \<times> 'e" where
  "qdma_slot_reset G pdev M e =
     (if md_drvdata M pdev = None then (DISCONNECT, e)
      else case mi_enable_device_mem G pdev e of
             (True, e) \<Rightarrow> (DISCONNECT, e)
           | (False, e) \<Rightarrow> (RECOVERED, mi_save_state G pdev (mi_restore_state G pdev (mi_set_master G pdev e))))"

definition qdma_error_resume :: "'e mod_if \<Rightarrow> nat \<Rightarrow> 's mod_sys \<Rightarrow> 'e \<Rightarrow> 'e" where
  "qdma_error_resume G pdev M e = (if md_drvdata M pdev = None then e else mi_cleanup_aer G pdev e)"

section \<open>Loading and unloading\<close>

definition xlnx_nl_init :: "'e mod_if \<Rightarrow> 'e \<Rightarrow> unit res \<times> 'e" where
  "xlnx_nl_init G e = mi_genl_register G e"

definition xlnx_nl_exit :: "'e mod_if \<Rightarrow> 'e \<Rightarrow> 'e" where
  "xlnx_nl_exit G e = mi_genl_unregister G e"

text \<open>\<open>lib\<close> is \<open>libqdma_init\<close> with its arguments; a step that fails undoes none of those before it.\<close>

definition qdma_mod_init ::
  "(qdma_threads \<Rightarrow> unit res \<times> qdma_threads) \<Rightarrow> 'e cdev_if \<Rightarrow> 'e mod_if \<Rightarrow> 's mod_sys \<Rightarrow> 'e \<Rightarrow> unit res \<times> 's mod_sys \<times> 'e" where
  "qdma_mod_init lib C G M e =
     (case lib (d_thr (md_drv M)) of
        (Inl err, T) \<Rightarrow> (Inl err, M\<lparr>md_drv := (md_drv M)\<lparr>d_thr := T\<rparr>\<rparr>, e)
      | (Inr _, T) \<Rightarrow>
          let M = M\<lparr>md_drv := (md_drv M)\<lparr>d_thr := T\<rparr>\<rparr> in
          (case xlnx_nl_init G e of
             (Inl err, e) \<Rightarrow> (Inl err, M, e)
           | (Inr _, e) \<Rightarrow>
               (case qdma_cdev_init C e of
                  (rv, cls, e) \<Rightarrow>
                    let M = M\<lparr>md_class := cls\<rparr> in
                    (case rv of Inl err \<Rightarrow> (Inl err, M, e)
                     | Inr _ \<Rightarrow> (let (rv, e) = mi_pci_register G e in (rv, M, e))))))"

definition qdma_mod_exit :: "'e cdev_if \<Rightarrow> 'e mod_if \<Rightarrow> 's mod_sys \<Rightarrow> 'e \<Rightarrow> 's mod_sys \<times> 'e" where
  "qdma_mod_exit C G M e =
     (let e = mi_pci_unregister G e;
          e = xlnx_nl_exit G e;
          e = qdma_cdev_cleanup C (md_class M) e
      in (M\<lparr>md_drv := (md_drv M)\<lparr>d_thr := libqdma_exit (d_thr (md_drv M))\<rparr>\<rparr>, e))"

section \<open>The table and the queues agree\<close>

text \<open>
  The table of a device has a slot per queue; slot \<open>k\<close> stands for the queue \<open>k\<close> names to the library.
  A slot is in use exactly when its queue has been added, and its character device then submits
  to that queue.
\<close>

definition slot_queue :: "nat \<Rightarrow> nat \<Rightarrow> bool \<times> nat" where
  "slot_queue m k = (if k \<ge> m then (True, k - m) else (False, k))"

definition slot_ok :: "'s rw_fun \<Rightarrow> nat \<Rightarrow> bool \<Rightarrow> 's xlnx_qdata \<Rightarrow> bool" where
  "slot_ok submit k added s \<longleftrightarrow>
     (case xq_xcdev s of
        None \<Rightarrow> \<not> added \<and> xq_qhndl s = 0
      | Some c \<Rightarrow> added \<and> xq_qhndl s = k \<and> xc_priv_data c = k \<and> xc_minor c = of_nat k \<and> xc_fp_rw c = Some submit)"

definition table_ok :: "'s rw_fun \<Rightarrow> 's xlnx_pci_dev \<Rightarrow> drv_sys \<Rightarrow> bool" where
  "table_ok submit x D \<longleftrightarrow> (\<exists>n m A. dev_at (xp_dev_hndl x) (d_list D) = Some n
     \<and> sys_as \<lparr>s_xdev = n_xdev n, s_thr = d_thr D\<rparr> m A \<and> unat (xp_qmax x) = unat m
     \<and> 2 * unat m \<le> 255 \<and> cdev_minor_cnt (xp_cdev_cb x) = QDMA_MINOR_MAX \<and> length (xp_qdata x) = 2 * unat m
     \<and> (\<forall>k<2 * unat m. slot_ok submit k (slot_queue (unat m) k \<in> A) (xp_qdata x ! k)))"

text \<open>A kernel that grants memory, device numbers and nodes.\<close>

definition cdevs_granted :: "'e cdev_if \<Rightarrow> bool" where
  "cdevs_granted C \<longleftrightarrow> (\<forall>n d nm e. fst (cif_kzalloc C n e) \<and> fst (cif_add C d e) = Inr () \<and> fst (cif_device_create C d nm e) = Inr ())"

lemma dev_at_update:
  assumes "dev_at h l = Some n" and "n_hndl (f n) = h"
  shows "dev_at h (map (\<lambda>m. if n_hndl m = h then f m else m) l) = Some (f n)"
  using assms by (induction l) (auto simp: dev_at_def)

lemma with_device_run:
  assumes "dev_at h (d_list D) = Some n" and "f \<lparr>s_xdev = n_xdev n, s_thr = d_thr D\<rparr> e = (rv, S, e')"
  shows "\<exists>D'. with_device h f D e = (rv, D', e') \<and> d_thr D' = s_thr S \<and> dev_at h (d_list D') = Some (n\<lparr>n_xdev := s_xdev S\<rparr>)"
proof -
  have "n_hndl n = h"
    using assms(1) by (auto simp: dev_at_def find_Some_iff)
  then show ?thesis
    using assms dev_at_update [OF assms(1), of "\<lambda>m. m\<lparr>n_xdev := s_xdev S\<rparr>"] by (simp add: with_device_def)
qed

lemma sys_as_node: "sys_as S m A \<Longrightarrow> sys_as \<lparr>s_xdev = n_xdev (n\<lparr>n_xdev := s_xdev S\<rparr>), s_thr = T\<rparr> m A"
  by (simp add: sys_as_def)

lemma table_okI:
  assumes "dev_at (xp_dev_hndl x) (d_list D) = Some n" and "sys_as \<lparr>s_xdev = n_xdev n, s_thr = d_thr D\<rparr> m A"
    and "unat (xp_qmax x) = unat m" and "2 * unat m \<le> 255" and "cdev_minor_cnt (xp_cdev_cb x) = QDMA_MINOR_MAX"
    and "length (xp_qdata x) = 2 * unat m"
    and "\<And>k. k < 2 * unat m \<Longrightarrow> slot_ok submit k (slot_queue (unat m) k \<in> A) (xp_qdata x ! k)"
  shows "table_ok submit x D"
  using assms unfolding table_ok_def by blast

lemma table_okE:
  assumes "table_ok submit x D"
  obtains n m A where "dev_at (xp_dev_hndl x) (d_list D) = Some n" "sys_as \<lparr>s_xdev = n_xdev n, s_thr = d_thr D\<rparr> m A"
    "unat (xp_qmax x) = unat m" "2 * unat m \<le> 255" "cdev_minor_cnt (xp_cdev_cb x) = QDMA_MINOR_MAX" "length (xp_qdata x) = 2 * unat m"
    "\<And>k. k < 2 * unat m \<Longrightarrow> slot_ok submit k (slot_queue (unat m) k \<in> A) (xp_qdata x ! k)"
  using assms unfolding table_ok_def by blast

text \<open>Adding: the slot of the new queue gets the new device.\<close>

lemma create_granted:
  assumes "cdevs_granted C" and "h < 255" and "cdev_minor_cnt xcb = QDMA_MINOR_MAX"
  shows "\<exists>xc e'. qdma_cdev_create C cls submit xcb qconf (of_nat h) h e = (Inr xc, e')
    \<and> xc_priv_data xc = h \<and> xc_minor xc = of_nat h \<and> xc_fp_rw xc = Some submit"
proof -
  have "\<not> (255 :: u32) \<le>s of_nat h"
    using assms(2) by (simp add: word_sle_eq signed_of_nat signed_take_bit_int_eq_self)
  moreover obtain e1 where "cif_kzalloc C (length (qc_name qconf) + 1) e = (True, e1)"
    using assms(1) unfolding cdevs_granted_def by (metis prod.collapse)
  moreover obtain e2 where "cif_add C (MKDEV (cdev_major xcb) (of_nat h)) e1 = (Inr (), e2)"
    using assms(1) unfolding cdevs_granted_def by (metis prod.collapse)
  moreover obtain e3 where "cif_device_create C (MKDEV (cdev_major xcb) (of_nat h)) (qc_name qconf) e2 = (Inr (), e3)"
    using assms(1) unfolding cdevs_granted_def by (metis prod.collapse)
  ultimately show ?thesis
    using assms(3) by (simp add: qdma_cdev_create_def Let_def)
qed

lemma slot_of_queue:
  assumes "i < m" and "k < 2 * m"
  shows "slot_queue m k = (c2h, i) \<longleftrightarrow> k = i + (if c2h then m else 0)"
  using assms by (auto simp: slot_queue_def)

lemma queue_add_table:
  assumes ok: "table_ok submit x D" and run: "xpdev_queue_add E vf C cls submit stale x qconf D e = (rv, x', D', e')"
    and grant: "cdevs_granted C"
  shows "table_ok submit x' D'"
proof -
  obtain n m A where t: "dev_at (xp_dev_hndl x) (d_list D) = Some n" "sys_as \<lparr>s_xdev = n_xdev n, s_thr = d_thr D\<rparr> m A"
    "unat (xp_qmax x) = unat m" "2 * unat m \<le> 255" "cdev_minor_cnt (xp_cdev_cb x) = QDMA_MINOR_MAX" "length (xp_qdata x) = 2 * unat m"
    "\<And>k. k < 2 * unat m \<Longrightarrow> slot_ok submit k (slot_queue (unat m) k \<in> A) (xp_qdata x ! k)"
    using table_okE [OF ok] by metis
  obtain r S1 e1 where add: "qdma_queue_add E vf \<lparr>s_xdev = n_xdev n, s_thr = d_thr D\<rparr> qconf False e = (r, S1, e1)"
    by (rule prod_cases3)
  obtain D1 where D1: "with_device (xp_dev_hndl x) (\<lambda>S. qdma_queue_add E vf S qconf False) D e = (r, D1, e1)"
    "d_thr D1 = s_thr S1" "dev_at (xp_dev_hndl x) (d_list D1) = Some (n\<lparr>n_xdev := s_xdev S1\<rparr>)"
    using with_device_run [OF t(1), of "\<lambda>S. qdma_queue_add E vf S qconf False", OF add] by blast
  note as = add_ok [OF t(2) add]
  show ?thesis
  proof (cases r)
    case (Inl err)
    then show ?thesis
      using run D1 as t by (intro table_okI [of x' D' "n\<lparr>n_xdev := s_xdev S1\<rparr>" m A]) (auto simp: xpdev_queue_add_def intro: sys_as_node [simplified])
  next
    case (Inr hq)
    obtain h qc where hq: "hq = (h, qc)"
      by fastforce
    obtain i where i: "i < unat m" "sys_as S1 m (insert (qc_c2h qc, i) A)" "qc_qidx qc = of_nat i"
      "h = i + (if qc_c2h qc then unat m else 0)"
      using as unfolding Inr hq sum.case prod.case by metis
    have h: "h < 2 * unat m"
      using i by auto
    have qidx: "unat (ucast (qc_qidx qc) :: u32) = i"
      using i(1,3) t(4) by (simp add: unsigned_ucast_eq unat_of_nat take_bit_nat_eq_self)
    then have get: "xpdev_queue_get x (ucast (qc_qidx qc)) (qc_c2h qc) False = Some h"
      using i(1,4) t(3) by (simp add: xpdev_queue_get_def Let_def word_le_nat_alt)
    obtain xc e2 where cr: "qdma_cdev_create C cls submit (xp_cdev_cb x) qc (of_nat h) h e1 = (Inr xc, e2)"
      "xc_priv_data xc = h" "xc_minor xc = of_nat h" "xc_fp_rw xc = Some submit"
      using create_granted [OF grant _ t(5), of h cls submit qc e1] h t(4) by auto
    have slots: "slot_ok submit k (slot_queue (unat m) k \<in> insert (qc_c2h qc, i) A)
        ((xp_qdata x)[h := \<lparr>xq_qhndl = h, xq_xcdev = Some xc\<rparr>] ! k)" if "k < 2 * unat m" for k
      using t(6,7) cr(2-4) that slot_of_queue [OF i(1) that, of "qc_c2h qc"] i(4)
      by (cases "k = h") (auto simp: slot_ok_def)
    have new: "x' = x\<lparr>xp_qdata := (xp_qdata x)[h := \<lparr>xq_qhndl = h, xq_xcdev = Some xc\<rparr>]\<rparr>" "D' = D1"
      using run D1(1) Inr hq get cr(1) by (simp_all add: xpdev_queue_add_def)
    show ?thesis
      unfolding new
      by (rule table_okI [of _ _ "n\<lparr>n_xdev := s_xdev S1\<rparr>" m "insert (qc_c2h qc, i) A"])
        (use D1(3) sys_as_node [OF i(2), of n "d_thr D1"] t(3-6) slots in simp_all)
  qed
qed

text \<open>Deleting: the slot is emptied and the queue is removed.\<close>

lemma lookup_slot:
  assumes "sys_as S m A" and "k < 2 * unat m" and "slot_queue (unat m) k \<in> A"
  shows "qdma_device_get_descq_by_id (Some (s_xdev S)) k True = Inr (Some (slot_queue (unat m) k))"
  using assms by (auto simp: sys_as_def qdma_device_get_descq_by_id_def slot_queue_def added_queues_def Let_def)

lemma queue_delete_table:
  assumes ok: "table_ok submit x D" and run: "xpdev_queue_delete E C cls x qidx c2h D e = (rv, x', D', e')"
  shows "table_ok submit x' D'"
proof -
  obtain n m A where t: "dev_at (xp_dev_hndl x) (d_list D) = Some n" "sys_as \<lparr>s_xdev = n_xdev n, s_thr = d_thr D\<rparr> m A"
    "unat (xp_qmax x) = unat m" "2 * unat m \<le> 255" "cdev_minor_cnt (xp_cdev_cb x) = QDMA_MINOR_MAX" "length (xp_qdata x) = 2 * unat m"
    "\<And>k. k < 2 * unat m \<Longrightarrow> slot_ok submit k (slot_queue (unat m) k \<in> A) (xp_qdata x ! k)"
    using table_okE [OF ok] by metis
  show ?thesis
  proof (cases "xpdev_queue_get x qidx c2h True")
    case None
    then show ?thesis
      using run ok by (simp add: xpdev_queue_delete_def)
  next
    case (Some k)
    then have k: "k < 2 * unat m" "\<not> (xq_qhndl (xp_qdata x ! k) = 0 \<and> xq_xcdev (xp_qdata x ! k) = None)"
      using t(3) by (auto simp: xpdev_queue_get_def Let_def word_less_nat_alt not_le split: if_splits)
    then obtain c where c: "xq_xcdev (xp_qdata x ! k) = Some c" "slot_queue (unat m) k \<in> A" "xq_qhndl (xp_qdata x ! k) = k"
      using t(7) by (fastforce simp: slot_ok_def split: option.splits)
    define e0 where "e0 = qdma_cdev_destroy C cls (Some c) e"
    obtain r S1 e1 where rem: "qdma_queue_remove E \<lparr>s_xdev = n_xdev n, s_thr = d_thr D\<rparr> k e0 = (r, S1, e1)"
      by (rule prod_cases3)
    have as: "sys_as S1 m (A - {slot_queue (unat m) k})"
      using remove_ok [OF t(2) rem] lookup_slot [OF t(2) k(1) c(2)] by simp
    obtain D1 where D1: "with_device (xp_dev_hndl x) (\<lambda>S. qdma_queue_remove E S k) D e0 = (r, D1, e1)"
      "d_thr D1 = s_thr S1" "dev_at (xp_dev_hndl x) (d_list D1) = Some (n\<lparr>n_xdev := s_xdev S1\<rparr>)"
      using with_device_run [OF t(1), of "\<lambda>S. qdma_queue_remove E S k", OF rem] by blast
    have "k \<noteq> unat QDMA_QUEUE_IDX_INVALID"
      using k(1) t(4) by simp
    then have new: "x' = x\<lparr>xp_qdata := (xp_qdata x)[k := zero_qdata]\<rparr>" "D' = D1"
      using run Some c D1(1) by (simp_all add: xpdev_queue_delete_def e0_def [symmetric] Let_def)
    have slots: "slot_ok submit j (slot_queue (unat m) j \<in> A - {slot_queue (unat m) k}) ((xp_qdata x)[k := zero_qdata] ! j)"
      if "j < 2 * unat m" for j
    proof (cases "j = k")
      case True
      then show ?thesis
        using k(1) t(6) by (simp add: slot_ok_def zero_qdata_def)
    next
      case False
      then have "slot_queue (unat m) j \<noteq> slot_queue (unat m) k"
        by (auto simp: slot_queue_def split: if_splits)
      then show ?thesis
        using False t(7) that by simp
    qed
    show ?thesis
      unfolding new
      by (rule table_okI [of _ _ "n\<lparr>n_xdev := s_xdev S1\<rparr>" m "A - {slot_queue (unat m) k}"])
        (use D1(3) sys_as_node [OF as, of n "d_thr D1"] t(3-6) slots in simp_all)
  qed
qed

text \<open>Starting and stopping leave the set of added queues alone.\<close>

lemma with_device_table:
  assumes ok: "table_ok submit x D" and run: "with_device (xp_dev_hndl x) f D e = (rv, D', e')"
    and keep: "\<And>S m A r S' e1. sys_as S m A \<Longrightarrow> f S e = (r, S', e1) \<Longrightarrow> sys_as S' m A"
  shows "table_ok submit x D'"
proof -
  obtain n m A where t: "dev_at (xp_dev_hndl x) (d_list D) = Some n" "sys_as \<lparr>s_xdev = n_xdev n, s_thr = d_thr D\<rparr> m A"
    "unat (xp_qmax x) = unat m" "2 * unat m \<le> 255" "cdev_minor_cnt (xp_cdev_cb x) = QDMA_MINOR_MAX" "length (xp_qdata x) = 2 * unat m"
    "\<And>k. k < 2 * unat m \<Longrightarrow> slot_ok submit k (slot_queue (unat m) k \<in> A) (xp_qdata x ! k)"
    using table_okE [OF ok] by metis
  obtain r S1 e1 where fr: "f \<lparr>s_xdev = n_xdev n, s_thr = d_thr D\<rparr> e = (r, S1, e1)"
    by (rule prod_cases3)
  have "dev_at (xp_dev_hndl x) (d_list D') = Some (n\<lparr>n_xdev := s_xdev S1\<rparr>)"
    using with_device_run [OF t(1), of f e r S1 e1] fr run by auto
  then show ?thesis
    using t(3-7) sys_as_node [OF keep [OF t(2) fr], of n "d_thr D'"] by (intro table_okI [of x D' "n\<lparr>n_xdev := s_xdev S1\<rparr>"])
qed

inductive table_step ::
  "'e env \<Rightarrow> 'e cdev_if \<Rightarrow> 's rw_fun \<Rightarrow> 's xlnx_pci_dev \<times> drv_sys \<Rightarrow> 's xlnx_pci_dev \<times> drv_sys \<Rightarrow> bool"
  for E :: "'e env" and C submit where
  add: "xpdev_queue_add E vf C cls submit stale x qconf D e = (rv, x', D', e') \<Longrightarrow> table_step E C submit (x, D) (x', D')"
| del: "xpdev_queue_delete E C cls x qidx c2h D e = (rv, x', D', e') \<Longrightarrow> table_step E C submit (x, D) (x', D')"
| start: "with_device (xp_dev_hndl x) (\<lambda>S. qdma_queue_start E S i) D e = (rv, D', e') \<Longrightarrow> table_step E C submit (x, D) (x, D')"
| stop: "with_device (xp_dev_hndl x) (\<lambda>S. qdma_queue_stop E S i) D e = (rv, D', e') \<Longrightarrow> table_step E C submit (x, D) (x, D')"

lemma table_step_ok:
  assumes "table_step E C submit s t" and "cdevs_granted C \<and> table_ok submit (fst s) (snd s)"
  shows "cdevs_granted C \<and> table_ok submit (fst t) (snd t)"
  using assms(1)
proof cases
  case (add vf cls stale x qconf D e rv x' D' e')
  then show ?thesis
    using assms(2) queue_add_table [OF _ add(3)] by simp
next
  case (del cls x qidx c2h D e rv x' D' e')
  then show ?thesis
    using assms(2) queue_delete_table [OF _ del(3)] by simp
next
  case (start x i D e rv D' e')
  then show ?thesis
    using assms(2) with_device_table [OF _ start(3)] start_ok by fastforce
next
  case (stop x i D e rv D' e')
  then show ?thesis
    using assms(2) with_device_table [OF _ stop(3)] stop_ok by fastforce
qed

interpretation tab: machine "table_step E C submit" "\<lambda>s. cdevs_granted C \<and> table_ok submit (fst s) (snd s)"
  by unfold_locales (rule table_step_ok)

lemma new_sys_as:
  assumes "x_dev_priv (s_xdev S) = Some (new_qdev f q)" and "q < 2 ^ 16"
  shows "sys_as S (of_nat q) {}"
proof -
  have "added_queues (new_qdev f q) = {}"
    using assms(2) by (auto simp: added_queues_def descq_at_def new_qdev_def Let_def unat_of_nat take_bit_nat_eq_self
        qdma_descq_init_def zero_descq_def)
  then show ?thesis
    using assms(1) new_qdev_ok [OF assms(2), of f] by (simp add: sys_as_def new_qdev_def Let_def)
qed

lemma new_table_ok:
  assumes "dev_at (xp_dev_hndl x) (d_list D) = Some n" and "x_dev_priv (n_xdev n) = Some (new_qdev f (unat (xp_qmax x)))"
    and "2 * unat (xp_qmax x) \<le> 255" and "cdev_minor_cnt (xp_cdev_cb x) = QDMA_MINOR_MAX"
    and "xp_qdata x = replicate (2 * unat (xp_qmax x)) zero_qdata"
  shows "table_ok submit x D"
proof -
  let ?m = "of_nat (unat (xp_qmax x)) :: u16"
  have m: "unat ?m = unat (xp_qmax x)"
    using assms(3) by (simp add: unsigned_ucast_eq take_bit_eq_mod)
  have "sys_as \<lparr>s_xdev = n_xdev n, s_thr = d_thr D\<rparr> ?m {}"
    using assms(2,3) by (intro new_sys_as) simp_all
  then show ?thesis
    using assms(3-5) m by (intro table_okI [OF assms(1), of ?m "{}"]) (simp_all add: slot_ok_def zero_qdata_def)
qed

lemma table_ok_slots:
  assumes "table_ok submit x D" and "k < 2 * unat (xp_qmax x)"
  shows "\<exists>n qdev. dev_at (xp_dev_hndl x) (d_list D) = Some n \<and> x_dev_priv (n_xdev n) = Some qdev
    \<and> (case xq_xcdev (xp_qdata x ! k) of
         None \<Rightarrow> \<not> q_enabled (descq_at qdev (slot_queue (unat (xp_qmax x)) k))
       | Some c \<Rightarrow> q_enabled (descq_at qdev (slot_queue (unat (xp_qmax x)) k)) \<and> xc_fp_rw c = Some submit
           \<and> qdma_device_get_descq_by_id (Some (n_xdev n)) (xc_priv_data c) True = Inr (Some (slot_queue (unat (xp_qmax x)) k)))"
proof -
  obtain n m A where t: "dev_at (xp_dev_hndl x) (d_list D) = Some n" "sys_as \<lparr>s_xdev = n_xdev n, s_thr = d_thr D\<rparr> m A"
    "unat (xp_qmax x) = unat m" "\<And>k. k < 2 * unat m \<Longrightarrow> slot_ok submit k (slot_queue (unat m) k \<in> A) (xp_qdata x ! k)"
    using table_okE [OF assms(1)] by metis
  obtain qdev where q: "x_dev_priv (n_xdev n) = Some qdev" "qd_qmax qdev = m" "A = added_queues qdev"
    using t(2) by (auto simp: sys_as_def)
  have k: "k < 2 * unat m"
    using assms(2) t(3) by simp
  then have "snd (slot_queue (unat m) k) < unat m"
    by (auto simp: slot_queue_def)
  then show ?thesis
    using t(1,3) q t(4) [OF k] lookup_slot [OF t(2) k]
    by (auto simp: slot_ok_def added_queues_def split: option.splits)
qed

text \<open>
  The table the module keeps of the queues of a device and the queues of the library agree.
  Start from a device whose table is empty and whose queues are all unused, and let queues be
  added, deleted, started and stopped in any order, successfully or not, with a kernel that
  grants the character devices. Then a slot of the table has a character device exactly when
  the queue it stands for has been added, and reading or writing that device reaches exactly
  this queue.
\<close>

lemma table_matches_queues:
  assumes "(table_step E C submit)\<^sup>*\<^sup>* (x0, D0) (x, D)" and "cdevs_granted C"
    and "dev_at (xp_dev_hndl x0) (d_list D0) = Some n0" and "x_dev_priv (n_xdev n0) = Some (new_qdev f (unat (xp_qmax x0)))"
    and "2 * unat (xp_qmax x0) \<le> 255" and "cdev_minor_cnt (xp_cdev_cb x0) = QDMA_MINOR_MAX"
    and "xp_qdata x0 = replicate (2 * unat (xp_qmax x0)) zero_qdata" and "k < 2 * unat (xp_qmax x)"
  shows "\<exists>n qdev. dev_at (xp_dev_hndl x) (d_list D) = Some n \<and> x_dev_priv (n_xdev n) = Some qdev
    \<and> (case xq_xcdev (xp_qdata x ! k) of
         None \<Rightarrow> \<not> q_enabled (descq_at qdev (slot_queue (unat (xp_qmax x)) k))
       | Some c \<Rightarrow> q_enabled (descq_at qdev (slot_queue (unat (xp_qmax x)) k)) \<and> xc_fp_rw c = Some submit
           \<and> qdma_device_get_descq_by_id (Some (n_xdev n)) (xc_priv_data c) True = Inr (Some (slot_queue (unat (xp_qmax x)) k)))"
proof -
  have "table_ok submit x0 D0"
    using new_table_ok [OF assms(3-7)] .
  then show ?thesis
    using tab.reach_inv [OF assms(1)] assms(2) table_ok_slots [OF _ assms(8)] by simp
qed

section \<open>Attaching a device is all or nothing\<close>

text \<open>The allocator hands out an address no device structure has.\<close>

definition fresh_xpdev :: "'e mod_if \<Rightarrow> 's xlnx_pci_dev list \<Rightarrow> bool" where
  "fresh_xpdev G l \<longleftrightarrow> (\<forall>n e a e'. mi_kzalloc G n e = (Some a, e') \<or> mi_vmalloc G n e = (Some a, e') \<longrightarrow> a \<notin> xp_addr ` set l)"

lemma xpdev_alloc_run:
  assumes "xpdev_alloc G pdev qmax M e = (p, M', e')" and "fresh_xpdev G (md_list M)"
  shows "case p of None \<Rightarrow> M' = M
    | Some x \<Rightarrow> M' = M\<lparr>md_list := md_list M @ [x]\<rparr> \<and> xp_addr x \<notin> xp_addr ` set (md_list M) \<and> xp_pdev x = pdev
        \<and> xp_qmax x = qmax \<and> xp_cdev_cb x = \<lparr>cdev_major = 0, cdev_minor_cnt = 0\<rparr> \<and> xp_qdata x = replicate (2 * unat qmax) zero_qdata"
  using assms
  by (fastforce simp: xpdev_alloc_def xpdev_list_add_def fresh_xpdev_def Let_def split: prod.splits option.splits)

lemma put_last:
  assumes "xp_addr x = xp_addr y" and "xp_addr x \<notin> xp_addr ` set l"
  shows "put_xpdev y (l @ [x]) = l @ [y]" "xpdev_list_remove (xp_addr y) (l @ [z]) = (if xp_addr z = xp_addr y then l else l @ [z])"
  using assms by (auto simp: put_xpdev_def xpdev_list_remove_def image_iff intro!: map_idI filter_True)

text \<open>
  Closing a device that was just opened: the list is as before, provided the closing does not
  fault.
\<close>

lemma close_new:
  assumes "l = d_list D @ [n]" and "n_hndl n \<notin> n_hndl ` set (d_list D)" and "n_pdev n \<notin> n_pdev ` set (d_list D)" and "n_hndl n \<noteq> 0" "n_pdev n \<noteq> 0"
    and "d_list D1 = l" and "qdma_device_close E vf P X I reply (n_pdev n) (n_hndl n) D1 e = (rv, D', e')" and "rv \<noteq> Inl OOPS"
  shows "d_list D' = d_list D"
proof -
  have "xdev_find_by_pdev (n_pdev n) l = Some n"
    unfolding xdev_find_by_pdev_def using assms(1,3) by (intro find_unique) (auto simp: image_iff)
  then have "xdev_check_hndl (n_pdev n) (n_hndl n) l = Inr ()"
    using assms(5) by (simp add: xdev_check_hndl_def)
  moreover have "xdev_list_remove (n_hndl n) l = d_list D"
    using assms(1,2) by (auto simp: xdev_list_remove_def filter_id_conv image_iff)
  ultimately show ?thesis
    using assms(4-8) by (auto simp: qdma_device_close_def Let_def split: prod.splits if_splits)
qed

lemma probe_undo_run:
  assumes "probe_undo E vf P X I reply G pdev hndl err p M e = (rv, M', e')" and "rv \<noteq> Inl OOPS"
  shows "\<exists>D e1 r. qdma_device_close E vf P X I reply pdev hndl (md_drv M) e = (r, D, e1) \<and> r \<noteq> Inl OOPS \<and> rv = Inl err
    \<and> md_drv M' = D \<and> md_drvdata M' = md_drvdata M
    \<and> md_list M' = (case p of None \<Rightarrow> md_list M | Some a \<Rightarrow> xpdev_list_remove a (md_list M))"
  using assms by (auto simp: probe_undo_def xpdev_free_def Let_def split: prod.splits if_splits option.splits)

lemma probe_undo_list:
  assumes op: "qdma_device_open E vf P X I reply junk bdf conf D0 e = ((r1, hndl, conf'), D, e1)" and fresh: "fresh_alloc P (d_list D0)"
    and undo: "probe_undo E vf P X I reply G (dc_pdev conf) hndl err p M e2 = (rv, M', e')" and "md_drv M = D" and "rv \<noteq> Inl OOPS"
  shows "d_list (md_drv M') = d_list D0"
proof -
  obtain D3 e3 r where cl: "qdma_device_close E vf P X I reply (dc_pdev conf) hndl D e2 = (r, D3, e3)" "r \<noteq> Inl OOPS" "md_drv M' = D3"
    using probe_undo_run [OF undo assms(5)] assms(4) by auto
  show ?thesis
  proof (cases "hndl = 0 \<and> d_list D = d_list D0")
    case True
    then show ?thesis
      using cl by (auto simp: qdma_device_close_def)
  next
    case False
    then obtain n where n: "d_list D = d_list D0 @ [n]" "hndl = n_hndl n" "n_hndl n \<noteq> 0" "n_hndl n \<notin> n_hndl ` set (d_list D0)"
      "n_pdev n = dc_pdev conf" "n_pdev n \<noteq> 0" "n_pdev n \<notin> n_pdev ` set (d_list D0)"
      using device_open_list [OF op fresh] by metis
    show ?thesis
      using close_new [OF n(1,4,7,3,6) refl, of E vf P X I reply e2 r D3 e3] cl n(2,5) by simp
  qed
qed

text \<open>
  C16: Attaching a PCI device is all or nothing in the driver's lists. When probing fails, whatever
  step failed, the module's list, the library's list and the per-device pointers are as before;
  when it succeeds one structure has been added, for this PCI device, with an empty table, and
  the kernel's pointer leads to it. The structure names the device the library opened, unless
  the library opened none.
\<close>

theorem probe_all_or_nothing:
  assumes run: "probe_one E vf P X I reply junk bdf C G conf M e = (rv, M', e')" and "rv \<noteq> Inl OOPS"
    and fresh: "fresh_alloc P (d_list (md_drv M))" "fresh_xpdev G (md_list M)"
  shows "case rv of
      Inl _ \<Rightarrow> md_list M' = md_list M \<and> md_drvdata M' = md_drvdata M \<and> d_list (md_drv M') = d_list (md_drv M)
    | Inr _ \<Rightarrow> \<exists>x. md_list M' = md_list M @ [x] \<and> xp_pdev x = dc_pdev conf
        \<and> md_drvdata M' = (md_drvdata M)(dc_pdev conf := Some (xp_addr x))
        \<and> xp_qdata x = replicate (2 * unat (xp_qmax x)) zero_qdata
        \<and> (if xp_dev_hndl x = 0 then d_list (md_drv M') = d_list (md_drv M)
           else \<exists>n. d_list (md_drv M') = d_list (md_drv M) @ [n] \<and> n_hndl n = xp_dev_hndl x \<and> n_pdev n = xp_pdev x
             \<and> xp_idx x = ucast (n_idx n))"
proof -
  obtain r1 hndl conf' D e1 where op: "qdma_device_open E vf P X I reply junk bdf conf (md_drv M) e = ((r1, hndl, conf'), D, e1)"
    by (metis surj_pair)
  note open_list = device_open_list [OF op fresh(1)]
  let ?M = "M\<lparr>md_drv := D\<rparr>"
  obtain p M2 e2 where al: "xpdev_alloc G (dc_pdev conf) (dc_qsets_max conf') ?M e1 = (p, M2, e2)"
    by (rule prod_cases3)
  note alloc = xpdev_alloc_run [OF al]
  have undo: "d_list (md_drv M') = d_list (md_drv M)"
    if "probe_undo E vf P X I reply G (dc_pdev conf) hndl err q M1 e3 = (rv, M', e')" and "md_drv M1 = D" for err q M1 e3
    using probe_undo_list [OF op fresh(1) that assms(2)] .
  show ?thesis
  proof (cases r1)
    case (Inl err)
    then show ?thesis
      using run op open_list by (auto simp: probe_one_def Let_def)
  next
    case (Inr u)
    show ?thesis
    proof (cases p)
      case None
      then have "probe_undo E vf P X I reply G (dc_pdev conf) hndl EINVAL None ?M e2 = (rv, M', e')"
        using run op Inr al alloc fresh(2) by (simp add: probe_one_def Let_def)
      then show ?thesis
        using undo probe_undo_run [OF _ assms(2)] by fastforce
    next
      case (Some x)
      note x = alloc [unfolded Some option.case, simplified, OF fresh(2)]
      let ?x = "x\<lparr>xp_dev_hndl := hndl, xp_idx := ucast (dc_idx conf')\<rparr>"
      obtain r3 xcb e3 where ini: "qdma_cdev_device_init C (xp_cdev_cb x) e2 = (r3, xcb, e3)"
        by (rule prod_cases3)
      let ?y = "?x\<lparr>xp_cdev_cb := xcb\<rparr>"
      have put: "put_xpdev ?y (md_list M2) = md_list M @ [?y]" "xpdev_list_remove (xp_addr x) (md_list M @ [?y]) = md_list M"
        using x put_last [of x ?y "md_list M"] by simp_all
      show ?thesis
      proof (cases r3)
        case (Inl err)
        then have "probe_undo E vf P X I reply G (dc_pdev conf) hndl err (Some (xp_addr x)) (M2\<lparr>md_list := md_list M @ [?y]\<rparr>) e3 = (rv, M', e')"
          using run op Inr al Some ini put by (simp add: probe_one_def Let_def)
        then show ?thesis
          using undo probe_undo_run [OF _ assms(2)] x put by fastforce
      next
        case (Inr v)
        then have "rv = Inr ()" "M' = M2\<lparr>md_list := md_list M @ [?y], md_drvdata := (md_drvdata M2)(dc_pdev conf := Some (xp_addr x))\<rparr>"
          using run op \<open>r1 = Inr u\<close> al Some ini put by (simp_all add: probe_one_def Let_def)
        then show ?thesis
          using x open_list by auto
      qed
    qed
  qed
qed

section \<open>Errors\<close>

text \<open>
  When the library has no memory for a device it undoes everything and reports success all the
  same. Probing then goes on and succeeds: the driver is bound to a device with the handle 0,
  and the first look at the configuration of that device dereferences NULL.
\<close>

lemma probe_binds_no_device:
  assumes "dc_pdev conf \<noteq> 0" and "xdev_find_by_pdev (dc_pdev conf) (d_list (md_drv M)) = None"
    and "pci_setup P e = (Inr (), e1)" and "xdev_kzalloc P e1 = (None, e2)"
    and "mi_kzalloc G (2 * unat (dc_qsets_max conf)) (pci_release_regions P (pci_disable_device P e2)) = (Some a, e3)"
    and "cif_alloc_region C QDMA_MINOR_MAX e3 = (Inr dev, e4)" and "a \<notin> xp_addr ` set (md_list M)"
    and "0 \<notin> n_hndl ` set (d_list (md_drv M))"
  shows "\<exists>M'. probe_one E vf P X I reply junk bdf C G conf M e = (Inr (), M', e4)
    \<and> map xp_dev_hndl (md_list M') = map xp_dev_hndl (md_list M) @ [0]
    \<and> qdma_device_get_config (xp_dev_hndl (last (md_list M'))) (d_list (md_drv M')) = Inl OOPS"
proof -
  have op: "qdma_device_open E vf P X I reply junk bdf conf (md_drv M) e =
      ((Inr (), 0, conf\<lparr>dc_bar_num_config := - 1, dc_bar_num_user := - 1\<rparr>), md_drv M, pci_release_regions P (pci_disable_device P e2))"
    using assms(1-4) by (simp add: qdma_device_open_def xdev_alloc_def Let_def)
  have none: "dev_at 0 (d_list (md_drv M)) = None"
    using assms(8) by (auto simp: dev_at_def find_None_iff image_iff)
  have "put_xpdev y (md_list M @ [x]) = md_list M @ [y]" if "xp_addr x = a" "xp_addr y = a" for x y
    using put_last(1) [of x y "md_list M"] assms(7) that by simp
  then show ?thesis
    using op assms(5,6) none
    by (simp add: probe_one_def xpdev_alloc_def xpdev_list_add_def qdma_cdev_device_init_def qdma_device_get_config_def Let_def)
qed

text \<open>
  C38: When the character device of a new queue cannot be created, adding the queue reports the
  error but the queue stays added, and its slot gets the value an uninitialised pointer happens
  to have; deleting the queue then destroys whatever that points to.
\<close>

theorem queue_add_keeps_garbage:
  assumes "with_device (xp_dev_hndl x) (\<lambda>S. qdma_queue_add E vf S qconf False) D e = (Inr (h, qc), D1, e1)"
    and "qdma_cdev_create C cls submit (xp_cdev_cb x) qc (of_nat h) h e1 = (Inl err, e2)"
    and "ucast (qc_qidx qc) < xp_qmax x" and "k = unat (qc_qidx qc) + (if qc_c2h qc then unat (xp_qmax x) else 0)"
    and "length (xp_qdata x) = 2 * unat (xp_qmax x)"
  shows "\<exists>x'. xpdev_queue_add E vf C cls submit (Some junk) x qconf D e = (Inl err, x', D1, e2)
    \<and> xq_xcdev (xp_qdata x' ! k) = Some junk
    \<and> snd (snd (snd (xpdev_queue_delete E C cls x' (ucast (qc_qidx qc)) (qc_c2h qc) D1 e2)))
      = (let e3 = qdma_cdev_destroy C cls (Some junk) e2
         in if h = unat QDMA_QUEUE_IDX_INVALID then e3
            else snd (snd (with_device (xp_dev_hndl x) (\<lambda>S. qdma_queue_remove E S h) D1 e3)))"
proof -
  have u: "unat (ucast (qc_qidx qc) :: u32) = unat (qc_qidx qc)"
    using unsigned_less [where 'a = nat, of "qc_qidx qc"] by (simp add: unsigned_ucast_eq take_bit_eq_mod)
  then have k: "k < length (xp_qdata x)"
    using assms(3-5) by (auto simp: word_less_nat_alt)
  define x' where "x' = x\<lparr>xp_qdata := (xp_qdata x)[k := \<lparr>xq_qhndl = h, xq_xcdev = Some junk\<rparr>]\<rparr>"
  have slot: "xp_qdata x' ! k = \<lparr>xq_qhndl = h, xq_xcdev = Some junk\<rparr>" "xp_dev_hndl x' = xp_dev_hndl x" "xp_qmax x' = xp_qmax x"
    using k by (simp_all add: x'_def)
  have "xpdev_queue_get x (ucast (qc_qidx qc)) (qc_c2h qc) False = Some k"
    using assms(3,4) u by (simp add: xpdev_queue_get_def Let_def not_le)
  then have add: "xpdev_queue_add E vf C cls submit (Some junk) x qconf D e = (Inl err, x', D1, e2)"
    using assms(1,2) by (simp add: xpdev_queue_add_def x'_def)
  have "xpdev_queue_get x' (ucast (qc_qidx qc)) (qc_c2h qc) True = Some k"
    using assms(3) u slot(1) unfolding assms(4) by (cases "qc_c2h qc") (simp_all add: xpdev_queue_get_def Let_def not_le slot(3))
  then have "snd (snd (snd (xpdev_queue_delete E C cls x' (ucast (qc_qidx qc)) (qc_c2h qc) D1 e2)))
      = (let e3 = qdma_cdev_destroy C cls (Some junk) e2
         in if h = unat QDMA_QUEUE_IDX_INVALID then e3
            else snd (snd (with_device (xp_dev_hndl x) (\<lambda>S. qdma_queue_remove E S h) D1 e3)))"
    by (simp add: xpdev_queue_delete_def slot Let_def case_prod_beta)
  then show ?thesis
    using add slot(1) by auto
qed

section \<open>Concrete runs\<close>

text \<open>A device with two queues in each direction, and the run that adds the first one to the card.\<close>

definition sample_xpdev :: "unit xlnx_pci_dev" where
  "sample_xpdev = \<lparr>xp_addr = 5, xp_pdev = 1, xp_dev_hndl = 1, xp_cdev_cb = \<lparr>cdev_major = 240, cdev_minor_cnt = 255\<rparr>,
     xp_qmax = 2, xp_idx = 0, xp_qdata = replicate 4 zero_qdata\<rparr>"

definition sample_drv :: drv_sys where
  "sample_drv = \<lparr>d_list = [\<lparr>n_hndl = 1, n_xdev = s_xdev sample_sys, n_bar = []\<rparr>], d_thr = sample_threads\<rparr>"

definition sample_refuse :: "unit rw_fun" where
  "sample_refuse = (\<lambda>i req s. (Inl EIO, False, s))"

definition sample_queue_add ::
  "(u32 \<Rightarrow> u32) cdev_if \<Rightarrow> unit qdma_cdev option \<Rightarrow> unit res \<times> unit xlnx_pci_dev \<times> drv_sys \<times> (u32 \<Rightarrow> u32)" where
  "sample_queue_add C stale =
     xpdev_queue_add ram_env False C True sample_refuse stale sample_xpdev (sample_conf False True) sample_drv (snd (snd sample_init))"

lemma sample_queue_add_slot:
  "map_option xc_minor (xq_xcdev (xp_qdata (fst (snd (sample_queue_add sample_cif None))) ! 2)) = Some 2"
  "map_option xc_minor (xq_xcdev (xp_qdata (fst (snd (sample_queue_add sample_cif None))) ! 0)) = None"
  "xp_qmax (fst (snd (sample_queue_add sample_cif None))) = 2"
  "xp_dev_hndl (fst (snd (sample_queue_add sample_cif None))) = 1"
  by code_simp+

lemma sample_drv_new:
  "x_dev_priv (s_xdev sample_sys) = Some (new_qdev (x_func_id (s_xdev sample_sys)) 2)"
  by code_simp

lemma table_matches_queues_witness:
  "let (_, x, D, _) = sample_queue_add sample_cif None
   in case (dev_at 1 (d_list D)) of None \<Rightarrow> False
      | Some n \<Rightarrow> q_enabled (queue_at (n_xdev n) (True, 0)) \<and> \<not> q_enabled (queue_at (n_xdev n) (False, 0))"
proof -
  obtain rv x D e' where run: "sample_queue_add sample_cif None = (rv, x, D, e')"
    by (metis surj_pair)
  have step: "(table_step ram_env sample_cif sample_refuse)\<^sup>*\<^sup>* (sample_xpdev, sample_drv) (x, D)"
    using table_step.add [OF run [unfolded sample_queue_add_def]] by auto
  have grant: "cdevs_granted sample_cif"
    by (simp add: cdevs_granted_def sample_cif_def)
  have dev: "dev_at (xp_dev_hndl sample_xpdev) (d_list sample_drv) = Some \<lparr>n_hndl = 1, n_xdev = s_xdev sample_sys, n_bar = []\<rparr>"
    by (simp add: dev_at_def sample_xpdev_def sample_drv_def)
  have new: "x_dev_priv (n_xdev \<lparr>n_hndl = 1, n_xdev = s_xdev sample_sys, n_bar = []\<rparr>)
      = Some (new_qdev (x_func_id (s_xdev sample_sys)) (unat (xp_qmax sample_xpdev)))"
    using sample_drv_new by (simp add: sample_xpdev_def)
  have slots: "\<exists>n qdev. dev_at (xp_dev_hndl x) (d_list D) = Some n \<and> x_dev_priv (n_xdev n) = Some qdev
    \<and> q_enabled (descq_at qdev (slot_queue (unat (xp_qmax x)) k)) = (xq_xcdev (xp_qdata x ! k) \<noteq> None)" if k: "k < 2 * unat (xp_qmax x)" for k
  proof -
    obtain n qdev where "dev_at (xp_dev_hndl x) (d_list D) = Some n" "x_dev_priv (n_xdev n) = Some qdev"
      "case xq_xcdev (xp_qdata x ! k) of
         None \<Rightarrow> \<not> q_enabled (descq_at qdev (slot_queue (unat (xp_qmax x)) k))
       | Some c \<Rightarrow> q_enabled (descq_at qdev (slot_queue (unat (xp_qmax x)) k)) \<and> xc_fp_rw c = Some sample_refuse
           \<and> qdma_device_get_descq_by_id (Some (n_xdev n)) (xc_priv_data c) True = Inr (Some (slot_queue (unat (xp_qmax x)) k))"
      using table_matches_queues [OF step grant dev new _ _ _ k] by (auto simp: sample_xpdev_def)
    then show ?thesis
      by (cases "xq_xcdev (xp_qdata x ! k)") auto
  qed
  have x: "map_option xc_minor (xq_xcdev (xp_qdata x ! 2)) = Some 2" "xq_xcdev (xp_qdata x ! 0) = None" "xp_qmax x = 2" "xp_dev_hndl x = 1"
    using sample_queue_add_slot unfolding run by auto
  show ?thesis
    using slots [of 0] slots [of 2] x by (auto simp: run slot_queue_def queue_at_def split: option.splits)
qed

text \<open>The kernel's side: memory at address 7, registration granted.\<close>

definition sample_gif :: "'e mod_if" where
  "sample_gif = \<lparr>
     mi_kzalloc = (\<lambda>n. Pair (Some 7)), mi_vmalloc = (\<lambda>n. Pair (Some 7)), mi_vmalloc_addr = (\<lambda>a. False),
     mi_kfree = (\<lambda>a. id), mi_vfree = (\<lambda>a. id), mi_disable_device = (\<lambda>p. id), mi_enable_device_mem = (\<lambda>p. Pair False),
     mi_set_master = (\<lambda>p. id), mi_restore_state = (\<lambda>p. id), mi_save_state = (\<lambda>p. id), mi_cleanup_aer = (\<lambda>p. id),
     mi_genl_register = Pair (Inr ()), mi_genl_unregister = id, mi_pci_register = Pair (Inr ()), mi_pci_unregister = id\<rparr>"

definition sample_mod :: "unit mod_sys" where
  "sample_mod = \<lparr>md_drv = \<lparr>d_list = [], d_thr = sample_threads\<rparr>, md_list = [], md_drvdata = (\<lambda>_. None), md_class = True\<rparr>"

definition sample_probe :: "(u32 \<Rightarrow> u32) pci_if \<Rightarrow> u32 res \<Rightarrow> unit res \<times> unit mod_sys \<times> (u32 \<Rightarrow> u32)" where
  "sample_probe P region =
     probe_one ram_env False P sample_msix sample_iov Pair (\<lambda>i. \<lparr>vf_func_id = 0, vf_qbase = 0, vf_qmax = 0\<rparr>) ''0000:01:00.0''
       (sample_cif\<lparr>cif_alloc_region := (\<lambda>n. Pair region)\<rparr>) sample_gif (x_conf sample_dev) sample_mod (\<lambda>_. 0)"

lemma sample_probe_runs:
  "fst (sample_probe (sample_pci (Some 0x4000)) (Inr 0xF000000)) = Inr ()"
  "fst (sample_probe (sample_pci (Some 0x4000)) (Inl ENOMEM)) = Inl ENOMEM"
  by code_simp+

lemma sample_xpdev_fresh: "fresh_xpdev sample_gif (md_list sample_mod)"
  by (simp add: fresh_xpdev_def sample_mod_def)

lemma sample_pci_fresh: "fresh_alloc (sample_pci bar) (d_list (md_drv sample_mod))"
  by (simp add: fresh_alloc_def sample_pci_def sample_mod_def)

theorem probe_all_or_nothing_witness:
  "length (md_list (fst (snd (sample_probe (sample_pci (Some 0x4000)) (Inr 0xF000000))))) = 1
     \<and> md_list (fst (snd (sample_probe (sample_pci (Some 0x4000)) (Inl ENOMEM)))) = []"
proof -
  have res: "case rv of Inl _ \<Rightarrow> md_list M' = [] | Inr _ \<Rightarrow> length (md_list M') = 1"
    if run: "sample_probe (sample_pci (Some 0x4000)) region = (rv, M', e')" and "rv \<noteq> Inl OOPS" for rv M' e' region
    using probe_all_or_nothing [OF run [unfolded sample_probe_def] that(2) sample_pci_fresh sample_xpdev_fresh]
    by (auto simp: sample_mod_def split: sum.splits)
  obtain M1 e1 M2 e2 where "sample_probe (sample_pci (Some 0x4000)) (Inr 0xF000000) = (Inr (), M1, e1)"
    "sample_probe (sample_pci (Some 0x4000)) (Inl ENOMEM) = (Inl ENOMEM, M2, e2)"
    using sample_probe_runs by (metis prod.collapse)
  then show ?thesis
    using res [of "Inr 0xF000000" "Inr ()" M1 e1] res [of "Inl ENOMEM" "Inl ENOMEM" M2 e2] by simp
qed

lemma probe_binds_no_device_witness:
  "fst (sample_probe ((sample_pci None)\<lparr>xdev_kzalloc := Pair None\<rparr>) (Inr 0xF000000)) = Inr ()
     \<and> map xp_dev_hndl (md_list (fst (snd (sample_probe ((sample_pci None)\<lparr>xdev_kzalloc := Pair None\<rparr>) (Inr 0xF000000))))) = [0]"
proof -
  let ?P = "(sample_pci None)\<lparr>xdev_kzalloc := Pair None\<rparr> :: (u32 \<Rightarrow> u32) pci_if"
  let ?C = "sample_cif\<lparr>cif_alloc_region := (\<lambda>n. Pair (Inr 0xF000000))\<rparr> :: (u32 \<Rightarrow> u32) cdev_if"
  have su: "pci_setup ?P (\<lambda>_. 0) = (Inr (), \<lambda>_. 0)"
    by (simp add: pci_setup_def pci_dma_mask_set_def pci_enable_relaxed_ordering_def sample_pci_def Let_def)
  have al: "xdev_kzalloc ?P (\<lambda>_. 0) = (None, \<lambda>_. 0)"
    by simp
  have mk: "mi_kzalloc sample_gif n (pci_release_regions ?P (pci_disable_device ?P (\<lambda>_. 0))) = (Some 7, \<lambda>_. 0)" for n
    by (simp add: sample_gif_def sample_pci_def)
  have reg: "cif_alloc_region ?C QDMA_MINOR_MAX (\<lambda>_. 0) = (Inr 0xF000000, \<lambda>_. 0)"
    by simp
  have pd: "dc_pdev (x_conf sample_dev) \<noteq> 0"
    by (simp add: sample_dev_def sample_xdev_def)
  have none: "xdev_find_by_pdev p (d_list (md_drv sample_mod)) = None" "7 \<notin> xp_addr ` set (md_list sample_mod)"
    "0 \<notin> n_hndl ` set (d_list (md_drv sample_mod))" for p
    by (simp_all add: sample_mod_def xdev_find_by_pdev_def)
  obtain M' where "sample_probe ?P (Inr 0xF000000) = (Inr (), M', \<lambda>_. 0)"
    "map xp_dev_hndl (md_list M') = map xp_dev_hndl (md_list sample_mod) @ [0]"
    unfolding sample_probe_def using probe_binds_no_device [OF pd none(1) su al mk reg none(2,3)] by blast
  then show ?thesis
    by (simp add: sample_mod_def)
qed

text \<open>The stray pointer leads to some other character device.\<close>

definition sample_stray :: "unit qdma_cdev" where
  "sample_stray = \<lparr>xc_minor = 99, xc_cdevno = 99, xc_sys_device = True, xc_priv_data = 0,
     xc_fp_open_extra = None, xc_fp_close_extra = None, xc_fp_ioctl_extra = None, xc_fp_rw = None, xc_name = []\<rparr>"

lemma sample_added_run:
  "case fst (with_device 1 (\<lambda>S. qdma_queue_add ram_env False S (sample_conf False True) False) sample_drv (snd (snd sample_init))) of
     Inl _ \<Rightarrow> False | Inr (h, qc) \<Rightarrow> h = 2 \<and> qc_qidx qc = 0 \<and> qc_c2h qc"
  by code_simp

theorem queue_add_keeps_garbage_witness:
  "let (rv, x, _) = sample_queue_add (sample_cif\<lparr>cif_kzalloc := (\<lambda>n. Pair False)\<rparr>) (Some sample_stray)
   in rv = Inl ENOMEM \<and> xq_xcdev (xp_qdata x ! 2) = Some sample_stray"
proof -
  let ?C = "sample_cif\<lparr>cif_kzalloc := (\<lambda>n. Pair False)\<rparr> :: (u32 \<Rightarrow> u32) cdev_if"
  obtain r D1 e1 where "with_device 1 (\<lambda>S. qdma_queue_add ram_env False S (sample_conf False True) False) sample_drv (snd (snd sample_init))
      = (r, D1, e1)"
    by (rule prod_cases3)
  moreover from this obtain qc where qc: "r = Inr (2, qc)" "qc_qidx qc = 0" "qc_c2h qc"
    using sample_added_run by (auto split: sum.splits)
  ultimately have add: "with_device (xp_dev_hndl sample_xpdev) (\<lambda>S. qdma_queue_add ram_env False S (sample_conf False True) False)
      sample_drv (snd (snd sample_init)) = (Inr (2, qc), D1, e1)"
    by (simp add: sample_xpdev_def)
  have create: "qdma_cdev_create ?C True sample_refuse (xp_cdev_cb sample_xpdev) qc (of_nat 2) 2 e1 = (Inl ENOMEM, e1)"
    by (simp add: qdma_cdev_create_def sample_xpdev_def word_sle_eq)
  have less: "ucast (qc_qidx qc) < xp_qmax sample_xpdev" and len: "length (xp_qdata sample_xpdev) = 2 * unat (xp_qmax sample_xpdev)"
    and slot: "unat (qc_qidx qc) + (if qc_c2h qc then unat (xp_qmax sample_xpdev) else 0) = 2"
    using qc(2,3) by (simp_all add: sample_xpdev_def)
  obtain x' where "xpdev_queue_add ram_env False ?C True sample_refuse (Some sample_stray) sample_xpdev (sample_conf False True)
      sample_drv (snd (snd sample_init)) = (Inl ENOMEM, x', D1, e1)" "xq_xcdev (xp_qdata x' ! 2) = Some sample_stray"
    using queue_add_keeps_garbage [OF add create less refl len, of sample_stray] slot by metis
  then show ?thesis
    by (simp add: sample_queue_add_def)
qed

end
