(* ===== verification/Qdma_Dump.thy ===== *)
theory Qdma_Dump
  imports Qdma_Mod
begin

text \<open>
  The functions that print: the state of a queue and its descriptors and completions
  (\<open>qdma_descq.c\<close>), the queues of a device (\<open>libqdma_export.c\<close>), the devices (\<open>xdev.c\<close>, \<open>qdma_mod.c\<close>), a
  thread (\<open>thread.c\<close>).

  A text buffer is the string written to it so far. Nothing stops the code at the end of the
  buffer: a text that is not shorter than its buffer has been written past its end. The
  printing of a pointer (\<open>%p\<close>) and of memory (\<open>hex_dump_to_buffer\<close>, which gets the space left and
  stays within it) is the kernel's and a parameter, as are the names of PCI devices.
\<close>

section \<open>Printing\<close>

definition hex_digit :: "nat \<Rightarrow> char" where
  "hex_digit n = char_of (if n < 10 then 48 + n else 87 + n)"

function hex_str :: "nat \<Rightarrow> string" where
  "hex_str n = (if n < 16 then [hex_digit n] else hex_str (n div 16) @ [hex_digit (n mod 16)])"
  by pat_completeness auto
termination
  by (relation "measure id") auto

declare hex_str.simps [simp del]

text \<open>\<open>%02x\<close> and \<open>%08x\<close>.\<close>

definition hex_pad :: "nat \<Rightarrow> nat \<Rightarrow> string" where
  "hex_pad w n = (let s = hex_str n in replicate (w - length s) (CHR ''0'') @ s)"

definition TAB :: string where
  "TAB = [CHR 0x09]"

definition EOL :: string where
  "EOL = [CHR 0x0A]"

datatype dump_ptr = PTR_desc nat | PTR_desc_wb | PTR_wrb nat | PTR_wrb_wb | PTR_pg u64 | PTR_page u64

record dump_if =
  dp_ptr :: "dump_ptr \<Rightarrow> string"
  dp_hex :: "dump_ptr \<Rightarrow> nat \<Rightarrow> int \<Rightarrow> string"

section \<open>A queue (qdma_descq.c)\<close>

definition qdma_descq_dump_state :: "qdma_descq \<Rightarrow> string" where
  "qdma_descq_dump_state descq =
     ''ID 0x'' @ hex_str (unat (qc_qidx (q_conf descq))) @ '',0x'' @ hex_str (unat (q_qidx_hw descq)) @ '' ''
     @ qc_name (q_conf descq) @ '': ''
     @ (if q_online descq then ''online'' @ EOL
        else if q_inited descq then ''up'' @ EOL
        else if q_enabled descq then ''cfg'' @ [CHR 0x27] @ ''ed'' @ EOL
        else ''un-initialized'' @ EOL)"

definition thread_name :: "qdma_kthread list \<Rightarrow> nat option \<Rightarrow> string" where
  "thread_name ts p = (case p of None \<Rightarrow> ''?'' | Some k \<Rightarrow> th_name (ts ! k))"

text \<open>\<open>desc_wb\<close> and \<open>desc_wrb_wb\<close> lie behind the rings and are NULL when these are.\<close>

definition qdma_descq_dump :: "dump_if \<Rightarrow> qdma_threads \<Rightarrow> qdma_descq \<Rightarrow> bool \<Rightarrow> int \<Rightarrow> bool \<Rightarrow> string" where
  "qdma_descq_dump P T descq buf buflen detail =
     (if \<not> buf then []
      else let t = qdma_descq_dump_state descq in
      if \<not> q_enabled descq then t
      else let t = t @ TAB @ ''thp '' @ thread_name (wrk_threads T) (q_wrkthp descq) @ '', ''
                 @ thread_name (wb_threads T) (q_wbthp descq) @ '', desc 0x'' @ dp_ptr P (PTR_desc 0) @ ''/0x''
                 @ hex_str (unat (q_desc_bus descq)) @ '', '' @ nat_str (unat (qc_rngsz (q_conf descq))) @ EOL;
               t = (if qc_st (q_conf descq) \<and> qc_c2h (q_conf descq)
                    then t @ TAB @ ''wrb desc 0x'' @ dp_ptr P (PTR_wrb 0) @ ''/0x'' @ hex_str (unat (q_desc_wrb_bus descq)) @ '', ''
                         @ nat_str (unat (q_rngsz_wrb descq)) @ '', rxq 0x'' @ hex_str (unat (rxq_dlen (q_rx_queue descq)))
                    else t)
           in if \<not> detail then t
              else let t = (if q_desc descq \<noteq> None
                            then let t = t @ EOL @ TAB @ ''WB: 0x'' @ dp_ptr P PTR_desc_wb @ '', ''
                                 in t @ dp_hex P PTR_desc_wb 8 (buflen - int (length t)) @ EOL
                            else t)
                   in if q_desc_wrb descq \<noteq> None
                      then let t = t @ TAB @ ''WRB WB: 0x'' @ dp_ptr P PTR_wrb_wb @ '', ''
                           in t @ dp_hex P PTR_wrb_wb 8 (buflen - int (length t)) @ EOL
                      else t)"

text \<open>
  The descriptors from \<open>start\<close>. The pointer into the free list starts at its first entry, whatever
  \<open>start\<close> is; \<open>i < rngsz\<close> compares as unsigned.
\<close>

function desc_lines ::
  "dump_if \<Rightarrow> qdma_descq \<Rightarrow> int \<Rightarrow> u32 \<Rightarrow> u32 \<Rightarrow> nat \<Rightarrow> string \<Rightarrow> string" where
  "desc_lines P descq buflen end i k t =
     (if i <s end \<and> i < qc_rngsz (q_conf descq)
      then let t = t @ nat_str (unat i) @ '': 0x'' @ dp_ptr P (PTR_desc (unat i)) @ '' '';
               t = t @ dp_hex P (PTR_desc (unat i)) (unat (get_desc_size descq)) (buflen - int (length t));
               t = (case q_st_rx_fl descq of
                      None \<Rightarrow> t @ EOL
                    | Some fl \<Rightarrow> t @ '' fl pg 0x'' @ dp_ptr P (PTR_pg (case_option 0 id (fl_pg (fl ! k)))) @ '', 0x''
                               @ hex_str (unat (fl_dma_addr (fl ! k))) @ ''.'' @ EOL)
           in desc_lines P descq buflen end (i + 1) (k + 1) t
      else t)"
  by pat_completeness auto
termination
  by (relation "measure (\<lambda>(P, descq, buflen, end, i, k, t). unat (qc_rngsz (q_conf descq)) - unat i)")
    (auto simp: unat_plus_one word_less_nat_alt [symmetric], simp add: word_less_nat_alt)

declare desc_lines.simps [simp del]

definition qdma_descq_dump_desc :: "dump_if \<Rightarrow> qdma_descq \<Rightarrow> u32 \<Rightarrow> u32 \<Rightarrow> int \<Rightarrow> string res" where
  "qdma_descq_dump_desc P descq start end buflen =
     (if q_desc descq = None then Inr []
      else let t = desc_lines P descq buflen end start 0 [];
               t = t @ ''WB: 0x'' @ dp_ptr P PTR_desc_wb @ '' '';
               t = t @ dp_hex P PTR_desc_wb (unat (get_desc_wb_size descq)) (buflen - int (length t)) @ EOL
           in case q_st_rx_fl descq of
                None \<Rightarrow> Inl OOPS
              | Some fl \<Rightarrow>
                  (case fl_pg (fl ! 0) of
                     None \<Rightarrow> Inl OOPS
                   | Some pg \<Rightarrow>
                       let t = t @ ''data 0: 0x'' @ dp_ptr P (PTR_page pg) @ '' ''
                       in Inr (t @ dp_hex P (PTR_page pg) 128 (buflen - int (length t)) @ EOL)))"

text \<open>The loop advances the queue (\<open>wrb_next\<close>), not the pointer it prints.\<close>

function wrb_lines ::
  "dump_if \<Rightarrow> nat \<Rightarrow> int \<Rightarrow> u32 \<Rightarrow> u32 \<Rightarrow> qdma_descq \<Rightarrow> string \<Rightarrow> qdma_descq \<times> string" where
  "wrb_lines P wrb buflen end i descq t =
     (if i <s end \<and> i < q_rngsz_wrb descq
      then let t = t @ nat_str (unat i) @ '': 0x'' @ dp_ptr P (PTR_wrb wrb) @ '' '';
               t = t @ dp_hex P (PTR_wrb wrb) (q_st_c2h_wrb_entry_len descq) (buflen - int (length t)) @ EOL
           in wrb_lines P wrb buflen end (i + 1) (wrb_next descq) t
      else (descq, t))"
  by pat_completeness auto
termination
  by (relation "measure (\<lambda>(P, wrb, buflen, end, i, descq, t). unat (q_rngsz_wrb descq) - unat i)")
    (auto simp: unat_plus_one wrb_next_def Let_def word_less_nat_alt [symmetric], simp_all add: word_less_nat_alt)

declare wrb_lines.simps [simp del]

definition qdma_descq_dump_wrb :: "dump_if \<Rightarrow> qdma_descq \<Rightarrow> u32 \<Rightarrow> u32 \<Rightarrow> int \<Rightarrow> string \<times> qdma_descq" where
  "qdma_descq_dump_wrb P descq start end buflen =
     (if q_desc_wrb descq = None then ([], descq)
      else let (descq, t) = wrb_lines P (unat start) buflen end start descq [];
               t = t @ ''WB: 0x'' @ dp_ptr P PTR_wrb_wb @ '' '';
               t = t @ dp_hex P PTR_wrb_wb 8 (buflen - int (length t)) @ EOL
           in (t, descq))"

section \<open>The queues of a device (libqdma_export.c)\<close>

text \<open>The registers are read by \<open>qdma_queue_dump\<close> of \<open>Qdma_Io\<close>; this is the text it leaves in the buffer.\<close>

definition ctxt_words :: "string \<Rightarrow> nat list \<Rightarrow> u32 list \<Rightarrow> string" where
  "ctxt_words label is ws = TAB @ label @ concat (map (\<lambda>i. '' 0x'' @ hex_pad 8 (unat (ws ! i))) is) @ EOL"

definition queue_dump_text :: "dump_if \<Rightarrow> qsys \<Rightarrow> nat \<Rightarrow> int \<Rightarrow> hw_descq_context \<Rightarrow> string" where
  "queue_dump_text P S i buflen ctxt =
     (case qdma_device_get_descq_by_id (Some (s_xdev S)) i False of
        Inr (Some p) \<Rightarrow>
          let descq = queue_at (s_xdev S) p in
          qdma_descq_dump P (s_thr S) descq True buflen True
          @ ctxt_words ''SW CTXT:   '' [3, 2, 1, 0] (ctx_sw ctxt)
          @ ctxt_words ''HW CTXT:   '' [1, 0] (ctx_hw ctxt)
          @ ctxt_words ''CR CTXT:   '' [0] (ctx_cr ctxt)
          @ (if qc_c2h (q_conf descq) \<and> qc_st (q_conf descq)
             then ctxt_words ''WRB CTXT:  '' [3, 2, 1, 0] (ctx_wrb ctxt) @ ctxt_words ''PFTCH CTXT:'' [1, 0] (ctx_prefetch ctxt)
             else [])
      | _ \<Rightarrow> [])"

definition qdma_queue_dump_desc :: "dump_if \<Rightarrow> qsys \<Rightarrow> nat \<Rightarrow> u32 \<Rightarrow> u32 \<Rightarrow> int \<Rightarrow> string res" where
  "qdma_queue_dump_desc P S i start end buflen =
     (case qdma_device_get_descq_by_id (Some (s_xdev S)) i True of
        Inl err \<Rightarrow> Inl err
      | Inr None \<Rightarrow> Inl EINVAL
      | Inr (Some p) \<Rightarrow>
          let descq = queue_at (s_xdev S) p; t = qdma_descq_dump_state descq in
          if \<not> q_inited descq then Inr t
          else case qdma_descq_dump_desc P descq start end (buflen - int (length t)) of
                 Inl err \<Rightarrow> Inl err | Inr t' \<Rightarrow> Inr (t @ t'))"

definition qdma_queue_dump_wrb :: "dump_if \<Rightarrow> qsys \<Rightarrow> nat \<Rightarrow> u32 \<Rightarrow> u32 \<Rightarrow> int \<Rightarrow> string res \<times> qsys" where
  "qdma_queue_dump_wrb P S i start end buflen =
     (case qdma_device_get_descq_by_id (Some (s_xdev S)) i True of
        Inl err \<Rightarrow> (Inl err, S)
      | Inr None \<Rightarrow> (Inl EINVAL, S)
      | Inr (Some p) \<Rightarrow>
          let descq = queue_at (s_xdev S) p; t = qdma_descq_dump_state descq in
          if \<not> q_inited descq then (Inr t, S)
          else let (t', descq) = qdma_descq_dump_wrb P descq start end (buflen - int (length t))
               in (Inr (t @ t'), S\<lparr>s_xdev := put_queue (s_xdev S) p descq\<rparr>))"

text \<open>One loop over the queues of a direction.\<close>

fun queue_lines :: "dump_if \<Rightarrow> qdma_threads \<Rightarrow> bool \<Rightarrow> int \<Rightarrow> qdma_descq list \<Rightarrow> string \<Rightarrow> string" where
  "queue_lines P T buf buflen [] t = t"
| "queue_lines P T buf buflen (descq # ds) t =
     (let t = (if q_enabled descq then t @ qdma_descq_dump P T descq buf (buflen - int (length t)) False else t)
      in if buf \<and> int (length t) \<ge> buflen then t else queue_lines P T buf buflen ds t)"

definition qdma_queue_list :: "dump_if \<Rightarrow> qsys \<Rightarrow> bool \<Rightarrow> int \<Rightarrow> string res" where
  "qdma_queue_list P S buf buflen =
     (case x_dev_priv (s_xdev S) of
        None \<Rightarrow> Inl OOPS
      | Some qdev \<Rightarrow>
          let n = unat (qd_qmax qdev);
              t = (if buf \<and> buflen \<noteq> 0
                   then ''H2C Q: '' @ nat_str (unat (qd_h2c_qcnt qdev)) @ '', C2H Q: '' @ nat_str (unat (qd_c2h_qcnt qdev)) @ ''.'' @ EOL
                   else []);
              t1 = (if qd_h2c_qcnt qdev = 0 then t else queue_lines P (s_thr S) buf buflen (take n (qd_h2c_descq qdev)) t)
          in if qd_h2c_qcnt qdev \<noteq> 0 \<and> buf \<and> int (length t1) \<ge> buflen then Inr t1
             else if qd_c2h_qcnt qdev = 0 then Inr t1
             else Inr (queue_lines P (s_thr S) buf buflen (take n (qd_c2h_descq qdev)) t1))"

section \<open>Devices and threads\<close>

text \<open>\<open>bus\<close>, \<open>slot\<close> and \<open>func\<close> give the address of a PCI device.\<close>

fun xdev_list_dump ::
  "(nat \<Rightarrow> nat) \<Rightarrow> (nat \<Rightarrow> nat) \<Rightarrow> (nat \<Rightarrow> nat) \<Rightarrow> int \<Rightarrow> dev_node list \<Rightarrow> string \<Rightarrow> string" where
  "xdev_list_dump bus slot func buflen [] t = t"
| "xdev_list_dump bus slot func buflen (n # ns) t =
     (let t = t @ ''qdma'' @ nat_str (unat (n_idx n)) @ TAB @ hex_pad 2 (bus (n_pdev n)) @ '':'' @ hex_pad 2 (slot (n_pdev n)) @ ''.''
            @ hex_pad 2 (func (n_pdev n)) @ EOL
      in if int (length t) \<ge> buflen then t else xdev_list_dump bus slot func buflen ns t)"

definition xpdev_line :: "bool \<Rightarrow> (nat \<Rightarrow> string) \<Rightarrow> dev_node list \<Rightarrow> 's xlnx_pci_dev \<Rightarrow> string res" where
  "xpdev_line vf dev_name devs xpdev =
     (case qdma_device_get_config (xp_dev_hndl xpdev) devs of
        Inl err \<Rightarrow> Inl err
      | Inr None \<Rightarrow> Inr (''qdma'' @ nat_str (unat (xp_idx xpdev)) @ TAB @ '' ERR'' @ EOL)
      | Inr (Some conf) \<Rightarrow>
          Inr ((if vf then ''qdmavf'' else ''qdma'') @ nat_str (unat (xp_idx xpdev)) @ TAB @ dev_name (dc_pdev conf) @ TAB
               @ ''max QP: '' @ nat_str (unat (dc_qsets_max conf)) @ EOL))"

fun xpdev_lines :: "bool \<Rightarrow> (nat \<Rightarrow> string) \<Rightarrow> dev_node list \<Rightarrow> int \<Rightarrow> 's xlnx_pci_dev list \<Rightarrow> string \<Rightarrow> string res" where
  "xpdev_lines vf dev_name devs buflen [] t = Inr t"
| "xpdev_lines vf dev_name devs buflen (x # xs) t =
     (case xpdev_line vf dev_name devs x of
        Inl err \<Rightarrow> Inl err
      | Inr l \<Rightarrow> let t = t @ l in if int (length t) \<ge> buflen then Inr t else xpdev_lines vf dev_name devs buflen xs t)"

definition xpdev_list_dump :: "bool \<Rightarrow> (nat \<Rightarrow> string) \<Rightarrow> 's mod_sys \<Rightarrow> int \<Rightarrow> string res" where
  "xpdev_list_dump vf dev_name M buflen =
     (if buflen = 0 then Inr [] else xpdev_lines vf dev_name (d_list (md_drv M)) buflen (md_list M) [])"

definition qdma_kthread_dump :: "qdma_kthread \<Rightarrow> bool \<Rightarrow> int \<Rightarrow> string" where
  "qdma_kthread_dump thp buf buflen =
     (if \<not> buf \<or> buflen = 0 then []
      else th_name thp @ '', cpu '' @ nat_str (unat (th_cpu thp)) @ '', work '' @ nat_str (unat (th_work_cnt thp)) @ ''.'' @ EOL)"

section \<open>What the list of queues shows\<close>

lemma nat_str_16: "length (nat_str (unat w)) \<le> 5" for w :: u16
  using unsigned_less [where 'a = nat, of w] by (intro length_nat_str) simp_all

definition queue_line :: "dump_if \<Rightarrow> qdma_threads \<Rightarrow> qdma_descq \<Rightarrow> string" where
  "queue_line P T d = qdma_descq_dump P T d True 0 False"

lemma short_dump: "qdma_descq_dump P T d True n False = queue_line P T d"
  by (simp add: qdma_descq_dump_def queue_line_def Let_def)

lemma queue_lines_text:
  assumes "\<And>d. d \<in> set ds \<Longrightarrow> length (queue_line P T d) \<le> m" and "0 < m" and "int (length t) < n"
  shows "\<exists>u r. queue_lines P T True n ds t = t @ u \<and> concat (map (queue_line P T) (filter q_enabled ds)) = u @ r
    \<and> (r = [] \<or> n \<le> int (length (t @ u))) \<and> int (length (t @ u)) < n + int m"
  using assms
proof (induction ds arbitrary: t)
  case (Cons d ds)
  let ?t = "if q_enabled d then t @ queue_line P T d else t"
  have len: "int (length ?t) < n + int m"
    using Cons.prems(1) [of d] Cons.prems(2,3) by auto
  show ?case
  proof (cases "n \<le> int (length ?t)")
    case True
    then show ?thesis
      using len Cons.prems(3) by (auto simp: short_dump)
  next
    case False
    then obtain u r where "queue_lines P T True n ds ?t = ?t @ u" "concat (map (queue_line P T) (filter q_enabled ds)) = u @ r"
      "r = [] \<or> n \<le> int (length (?t @ u))" "int (length (?t @ u)) < n + int m"
      using Cons.IH [of ?t] Cons.prems by auto
    then show ?thesis
      using False by (intro exI [of _ "(if q_enabled d then queue_line P T d else []) @ u"] exI [of _ r]) (auto simp: short_dump)
  qed
qed auto

text \<open>
  C15: What the list of queues of a device shows: a line with the two counts and then the state
  of every queue that has been added, those to the card first, each exactly once and in order.
  When this text does not fit, what is written is a beginning of it. The function only looks at
  the size of the buffer after a queue has been printed: a text that does not fit is always
  written past the end of the buffer, by less than the text of one queue.
\<close>

theorem queue_list_text:
  assumes "x_dev_priv (s_xdev S) = Some qdev" and "qdev_ok qdev"
    and "\<And>d. d \<in> set (qd_h2c_descq qdev @ qd_c2h_descq qdev) \<Longrightarrow> length (queue_line P (s_thr S) d) \<le> m"
    and "full = ''H2C Q: '' @ nat_str (unat (qd_h2c_qcnt qdev)) @ '', C2H Q: '' @ nat_str (unat (qd_c2h_qcnt qdev)) @ ''.'' @ EOL
      @ concat (map (queue_line P (s_thr S)) (filter q_enabled (qd_h2c_descq qdev @ qd_c2h_descq qdev)))"
    and "0 < m" and "64 \<le> buflen"
  shows "\<exists>t r. qdma_queue_list P S True buflen = Inr t \<and> full = t @ r
    \<and> (if int (length full) < buflen then r = [] else buflen \<le> int (length t) \<and> int (length t) < buflen + int m)"
proof -
  let ?line = "queue_line P (s_thr S)"
  let ?h = "''H2C Q: '' @ nat_str (unat (qd_h2c_qcnt qdev)) @ '', C2H Q: '' @ nat_str (unat (qd_c2h_qcnt qdev)) @ ''.'' @ EOL"
  let ?H = "concat (map ?line (filter q_enabled (qd_h2c_descq qdev)))"
  let ?C = "concat (map ?line (filter q_enabled (qd_c2h_descq qdev)))"
  have cnt: "length (qd_h2c_descq qdev) = unat (qd_qmax qdev)" "length (qd_c2h_descq qdev) = unat (qd_qmax qdev)"
    "unat (qd_h2c_qcnt qdev) = length (filter q_enabled (qd_h2c_descq qdev))"
    "unat (qd_c2h_qcnt qdev) = length (filter q_enabled (qd_c2h_descq qdev))"
    using assms(2) by (simp_all add: qdev_ok_def queues_ok_def)
  have none: "qd_h2c_qcnt qdev = 0 \<Longrightarrow> ?H = []" "qd_c2h_qcnt qdev = 0 \<Longrightarrow> ?C = []"
    using cnt(3,4) by (metis unsigned_0 length_0_conv list.map(1) concat.simps(1))+
  have head: "int (length ?h) < buflen"
    using nat_str_16 [of "qd_h2c_qcnt qdev"] nat_str_16 [of "qd_c2h_qcnt qdev"] assms(6) by (simp add: EOL_def)
  let ?t1 = "if qd_h2c_qcnt qdev = 0 then ?h else queue_lines P (s_thr S) True buflen (qd_h2c_descq qdev) ?h"
  obtain u r where u: "?t1 = ?h @ u" "?H = u @ r" "r = [] \<or> buflen \<le> int (length (?h @ u))" "int (length (?h @ u)) < buflen + int m"
    using queue_lines_text [of "qd_h2c_descq qdev" P "s_thr S" m ?h buflen] assms(3,5) head none(1) by (cases "qd_h2c_qcnt qdev = 0") auto
  show ?thesis
  proof (cases "buflen \<le> int (length ?t1)")
    case True
    moreover from this have "qd_h2c_qcnt qdev \<noteq> 0"
      using head by auto
    ultimately show ?thesis
      using u assms(1,4,6) cnt(1) by (auto simp: qdma_queue_list_def Let_def)
  next
    case False
    then have r: "r = []"
      using u(1,3) by auto
    let ?t2 = "if qd_c2h_qcnt qdev = 0 then ?t1 else queue_lines P (s_thr S) True buflen (qd_c2h_descq qdev) ?t1"
    obtain v q where v: "?t2 = ?t1 @ v" "?C = v @ q" "q = [] \<or> buflen \<le> int (length (?t1 @ v))" "int (length (?t1 @ v)) < buflen + int m"
      using queue_lines_text [of "qd_c2h_descq qdev" P "s_thr S" m ?t1 buflen] assms(3,5) False none(2) by (cases "qd_c2h_qcnt qdev = 0") auto
    have "qdma_queue_list P S True buflen = Inr ?t2"
      using False assms(1,6) cnt(1,2) by (auto simp: qdma_queue_list_def Let_def)
    moreover have "full = ?t2 @ q"
      using assms(4) v(1,2) u(1,2) r by simp
    ultimately show ?thesis
      using v by (intro exI [of _ ?t2] exI [of _ q]) auto
  qed
qed

section \<open>Printing completions moves the queue\<close>

lemma sless_small:
  fixes a b :: u32
  assumes "unat a < 2 ^ 31" and "unat b < 2 ^ 31"
  shows "a <s b \<longleftrightarrow> a < b"
proof -
  have "sint w = uint w" if "unat w < 2 ^ 31" for w :: u32
  proof -
    have "uint w < 2 ^ 31"
      using that by (metis nat_less_iff nat_int of_nat_numeral of_nat_power uint_ge_0 unat_eq_nat_uint zless_nat_eq_int_zless)
    moreover have "- (2 ^ 31) \<le> uint w"
      by (rule order_trans [OF _ uint_ge_0]) simp
    ultimately show ?thesis
      unfolding sint_uint by (intro signed_take_bit_int_eq_self) simp_all
  qed
  then show ?thesis
    using assms by (simp add: word_sless_alt word_less_alt)
qed

lemma wrb_lines_next:
  assumes "wrb_lines P wrb n end i d t = (d', t')" and "wrb_pos_ok d" and "i \<le> end" and "end \<le> q_rngsz_wrb d"
    and "unat end < 2 ^ 31"
  shows "unat (q_cidx_wrb d') = (unat (q_cidx_wrb d) + (unat end - unat i)) mod unat (q_rngsz_wrb d) \<and> wrb_pos_ok d' \<and> rx_frame d d'
    \<and> q_rx_queue d' = q_rx_queue d"
  using assms
proof (induction P wrb n "end" i d t rule: wrb_lines.induct)
  case (1 P wrb n "end" i d t)
  note ok = wrb_next_ok [OF 1(3)]
  have small: "i <s end \<longleftrightarrow> i < end"
    using 1(4,6) by (intro sless_small) (auto simp: word_le_nat_alt)
  show ?case
  proof (cases "i < end")
    case True
    then have run: "i <s end \<and> i < q_rngsz_wrb d"
      using small 1(5) by auto
    have next_i: "unat (i + 1) = unat i + 1" "i + 1 \<le> end"
      using unat_plus_one [OF True] True by (simp_all add: word_le_nat_alt word_less_nat_alt)
    have rng: "q_rngsz_wrb (wrb_next d) = q_rngsz_wrb d"
      using ok(2) by (simp add: rx_frame_def)
    have "unat (q_cidx_wrb d') = (unat (q_cidx_wrb (wrb_next d)) + (unat end - unat (i + 1))) mod unat (q_rngsz_wrb (wrb_next d))
        \<and> wrb_pos_ok d' \<and> rx_frame (wrb_next d) d' \<and> q_rx_queue d' = q_rx_queue (wrb_next d)"
      using 1(1) [OF run refl refl _ ok(1) next_i(2) _ 1(6)] 1(2,5) run rng by (simp add: wrb_lines.simps [of P wrb n "end" i d t] Let_def)
    moreover have "Suc (unat (q_cidx_wrb d)) + (unat end - Suc (unat i)) = unat (q_cidx_wrb d) + (unat end - unat i)"
      using True by (simp add: word_less_nat_alt)
    ultimately show ?thesis
      using ok(4,5) next_i(1) rng rx_frame_trans [OF ok(2)] by (metis Suc_eq_plus1 mod_add_left_eq)
  next
    case False
    then have "i = end" "d' = d"
      using small 1(2,4) by (auto simp: wrb_lines.simps)
    then show ?thesis
      using 1(3) by (simp add: wrb_pos_ok_def word_less_nat_alt)
  qed
qed

text \<open>
  Printing the completion entries from \<open>start\<close> to \<open>end\<close> moves the running queue: its consumer
  position advances by the number of entries printed, as if the completions had been processed.
  The data they announce is not delivered.
\<close>

lemma dump_wrb_skips_completions:
  assumes "qdma_device_get_descq_by_id (Some (s_xdev S)) i True = Inr (Some p)"
    and "x_dev_priv (s_xdev S) = Some qdev" and "snd p < length (if fst p then qd_c2h_descq qdev else qd_h2c_descq qdev)"
    and "d = queue_at (s_xdev S) p" and "q_inited d" and "wrb_pos_ok d"
    and "start \<le> end" and "end \<le> q_rngsz_wrb d" and "unat end < 2 ^ 31"
    and "qdma_queue_dump_wrb P S i start end n = (rv, S')"
  shows "unat (q_cidx_wrb (queue_at (s_xdev S') p)) = (unat (q_cidx_wrb d) + (unat end - unat start)) mod unat (q_rngsz_wrb d)
    \<and> q_pidx_wrb (queue_at (s_xdev S') p) = q_pidx_wrb d \<and> q_rx_queue (queue_at (s_xdev S') p) = q_rx_queue d"
proof -
  obtain d1 t1 where w: "wrb_lines P (unat start) (n - int (length (qdma_descq_dump_state d))) end start d [] = (d1, t1)"
    by fastforce
  have "q_desc_wrb d \<noteq> None"
    using assms(6) by (auto simp: wrb_pos_ok_def)
  then have "s_xdev S' = put_queue (s_xdev S) p d1"
    using assms(1,5,10) w by (auto simp: qdma_queue_dump_wrb_def qdma_descq_dump_wrb_def Let_def assms(4) [symmetric])
  then show ?thesis
    using wrb_lines_next [OF w assms(6-9)] put_queue_at [OF assms(2,3), of d1] by (simp add: rx_frame_def)
qed

section \<open>Printing descriptors\<close>

text \<open>
  Printing the descriptors of a started queue succeeds exactly when the queue has a free list
  with a page in its first entry. Only card-to-host streaming queues have a free list: for every
  other queue the NULL pointer to it is dereferenced, whatever range is asked for.
\<close>

lemma dump_desc_faults:
  assumes "qdma_device_get_descq_by_id (Some (s_xdev S)) i True = Inr (Some p)" and "d = queue_at (s_xdev S) p"
    and "q_inited d" and "q_desc d \<noteq> None"
  shows "qdma_queue_dump_desc P S i start end n = Inl OOPS \<longleftrightarrow> q_st_rx_fl d = None \<or> (\<exists>fl. q_st_rx_fl d = Some fl \<and> fl_pg (fl ! 0) = None)"
  using assms by (auto simp: qdma_queue_dump_desc_def qdma_descq_dump_desc_def Let_def split: option.splits)

section \<open>Concrete runs\<close>

definition sample_dump :: dump_if where
  "sample_dump = \<lparr>dp_ptr = (\<lambda>p. ''12''), dp_hex = (\<lambda>p n space. [])\<rparr>"

definition sample_list_sys :: qsys where
  "sample_list_sys = fst (snd sample_added)"

definition sample_list_dev :: qdma_dev where
  "sample_list_dev = the (x_dev_priv (s_xdev sample_list_sys))"

definition sample_full :: string where
  "sample_full = ''H2C Q: '' @ nat_str (unat (qd_h2c_qcnt sample_list_dev)) @ '', C2H Q: '' @ nat_str (unat (qd_c2h_qcnt sample_list_dev))
     @ ''.'' @ EOL @ concat (map (queue_line sample_dump (s_thr sample_list_sys))
         (filter q_enabled (qd_h2c_descq sample_list_dev @ qd_c2h_descq sample_list_dev)))"

lemma sample_list_facts:
  "x_dev_priv (s_xdev sample_list_sys) \<noteq> None" "qdev_ok sample_list_dev"
  "list_all (\<lambda>d. length (queue_line sample_dump (s_thr sample_list_sys) d) \<le> 100) (qd_h2c_descq sample_list_dev @ qd_c2h_descq sample_list_dev)"
  "64 \<le> length sample_full" "length sample_full < 1024"
  by code_simp+

theorem queue_list_text_witness:
  "qdma_queue_list sample_dump sample_list_sys True 1024 = Inr sample_full
     \<and> (\<exists>t r. qdma_queue_list sample_dump sample_list_sys True 64 = Inr t \<and> sample_full = t @ r \<and> length t \<ge> 64)"
proof -
  have dev: "x_dev_priv (s_xdev sample_list_sys) = Some sample_list_dev"
    using sample_list_facts(1) by (auto simp: sample_list_dev_def)
  have lines: "length (queue_line sample_dump (s_thr sample_list_sys) d) \<le> 100"
    if "d \<in> set (qd_h2c_descq sample_list_dev @ qd_c2h_descq sample_list_dev)" for d
    using sample_list_facts(3) that by (auto simp: list_all_iff)
  note listed = queue_list_text [OF dev sample_list_facts(2) lines sample_full_def]
  show ?thesis
    using listed [of 1024] listed [of 64] sample_list_facts(4,5) by auto
qed

definition sample_wrb_sys :: qsys where
  "sample_wrb_sys = sample_sys\<lparr>s_xdev := put_queue (s_xdev sample_sys) (True, 0) (sample_rx_queue\<lparr>q_enabled := True, q_inited := True\<rparr>)\<rparr>"

lemma sample_wrb_facts:
  "qdma_device_get_descq_by_id (Some (s_xdev sample_wrb_sys)) 2 True = Inr (Some (True, 0))"
  "map_option (\<lambda>qdev. length (qd_c2h_descq qdev)) (x_dev_priv (s_xdev sample_wrb_sys)) = Some 2"
  "q_inited (queue_at (s_xdev sample_wrb_sys) (True, 0))" "wrb_pos_ok (queue_at (s_xdev sample_wrb_sys) (True, 0))"
  "q_cidx_wrb (queue_at (s_xdev sample_wrb_sys) (True, 0)) = 0" "q_rngsz_wrb (queue_at (s_xdev sample_wrb_sys) (True, 0)) = 4"
  by code_simp+

lemma dump_wrb_skips_completions_witness:
  "q_cidx_wrb (queue_at (s_xdev (snd (qdma_queue_dump_wrb sample_dump sample_wrb_sys 2 0 2 1024))) (True, 0)) = 2"
proof -
  obtain rv S' where run: "qdma_queue_dump_wrb sample_dump sample_wrb_sys 2 0 2 1024 = (rv, S')"
    by fastforce
  obtain qdev where q: "x_dev_priv (s_xdev sample_wrb_sys) = Some qdev" "length (qd_c2h_descq qdev) = 2"
    using sample_wrb_facts(2) by auto
  have pos: "snd (True, 0) < length (if fst (True, 0) then qd_c2h_descq qdev else qd_h2c_descq qdev)"
    using q(2) by simp
  have "unat (q_cidx_wrb (queue_at (s_xdev S') (True, 0))) = 2"
    using dump_wrb_skips_completions [OF sample_wrb_facts(1) q(1) pos refl sample_wrb_facts(3,4) _ _ _ run] sample_wrb_facts(5,6) by simp
  then show ?thesis
    by (simp add: run word_unat_eq_iff)
qed

lemma sample_running_facts:
  "qdma_device_get_descq_by_id (Some (s_xdev sample_running)) 2 True = Inr (Some (True, 0))"
  "q_inited (queue_at (s_xdev sample_running) (True, 0))" "q_desc (queue_at (s_xdev sample_running) (True, 0)) \<noteq> None"
  "q_st_rx_fl (queue_at (s_xdev sample_running) (True, 0)) = None"
  by code_simp+

lemma dump_desc_faults_witness: "qdma_queue_dump_desc sample_dump sample_running 2 0 1 1024 = Inl OOPS"
  using dump_desc_faults [OF sample_running_facts(1) refl sample_running_facts(2,3), of sample_dump 0 1 1024] sample_running_facts(4) by simp

end
