(* ===== verification/Qdma_Nl.thy ===== *)
theory Qdma_Nl
  imports Qdma_Dump
begin

text \<open>
  The netlink interface (\<open>drv/nl.c\<close>, \<open>include/nl.h\<close>): the requests by which user programs list devices
  and add, start, stop, delete and print queues.

  A request is its attributes; an attribute that is not there is a NULL pointer to the code. A
  reply is a message with a list of attributes. Generic netlink and memory are the record
  \<open>nl_if\<close>, on a state \<open>'n\<close> of their own beside the state \<open>'e\<close> of the device. A message that has been
  handed to \<open>genlmsg_unicast\<close> belongs to the kernel, whatever it returns. \<open>drv_if\<close> bundles the
  parameters of the theories below.
\<close>

section \<open>Messages (include/nl.h)\<close>

definition XNL_RESP_BUFLEN_MIN :: nat where
  "XNL_RESP_BUFLEN_MIN = 256"

definition XNL_RESP_BUFLEN_MAX :: nat where
  "XNL_RESP_BUFLEN_MAX = 1024"

definition XNL_ERR_BUFLEN :: nat where
  "XNL_ERR_BUFLEN = 64"

definition XNL_QIDX_INVALID :: u16 where
  [simp]: "XNL_QIDX_INVALID = 0xFFFF"

definition XNL_F_QMODE_ST :: u32 where
  [simp]: "XNL_F_QMODE_ST = 0x1"

definition XNL_F_QMODE_MM :: u32 where
  [simp]: "XNL_F_QMODE_MM = 0x2"

definition XNL_F_QDIR_H2C :: u32 where
  [simp]: "XNL_F_QDIR_H2C = 0x4"

definition XNL_F_QDIR_C2H :: u32 where
  [simp]: "XNL_F_QDIR_C2H = 0x8"

datatype xnl_attr_t =
  XNL_ATTR_GENMSG | XNL_ATTR_DRV_INFO
| XNL_ATTR_DEV_IDX | XNL_ATTR_PCI_BUS | XNL_ATTR_PCI_DEV | XNL_ATTR_PCI_FUNC
| XNL_ATTR_DEV_CFG_BAR | XNL_ATTR_DEV_USR_BAR | XNL_ATTR_DEV_QSET_MAX
| XNL_ATTR_REG_BAR_NUM | XNL_ATTR_REG_ADDR | XNL_ATTR_REG_VAL
| XNL_ATTR_QIDX | XNL_ATTR_QFLAG | XNL_ATTR_QRNGSZ | XNL_ATTR_QBUFSZ
| XNL_ATTR_WRB_DESC_SIZE | XNL_ATTR_RANGE_START | XNL_ATTR_RANGE_END

datatype xnl_op_t =
  XNL_CMD_DEV_LIST | XNL_CMD_DEV_INFO
| XNL_CMD_REG_DUMP | XNL_CMD_REG_RD | XNL_CMD_REG_WRT
| XNL_CMD_Q_LIST | XNL_CMD_Q_ADD | XNL_CMD_Q_START | XNL_CMD_Q_STOP | XNL_CMD_Q_DEL
| XNL_CMD_Q_DUMP | XNL_CMD_Q_DESC | XNL_CMD_Q_WRB

datatype nla = NLA_U32 u32 | NLA_STRING string

record sk_buff =
  skb_seq :: u32
  skb_cmd :: xnl_op_t
  skb_attrs :: "(xnl_attr_t \<times> nla) list"

record genl_info =
  gi_cmd :: xnl_op_t
  gi_snd_seq :: u32
  gi_snd_portid :: u32
  gi_attrs :: "xnl_attr_t \<Rightarrow> u32 option"

text \<open>
  Memory for messages and texts, whether an attribute fits, sending; the text the library left in
  the small reply buffer; the address of a PCI device.
\<close>

record 'n nl_if =
  nif_goodsize :: nat
  nif_genlmsg_new :: "nat \<Rightarrow> 'n \<Rightarrow> bool \<times> 'n"
  nif_genlmsg_put :: "sk_buff \<Rightarrow> 'n \<Rightarrow> bool \<times> 'n"
  nif_nlmsg_free :: "'n \<Rightarrow> 'n"
  nif_nla_put :: "sk_buff \<Rightarrow> xnl_attr_t \<Rightarrow> nla \<Rightarrow> 'n \<Rightarrow> bool \<times> 'n"
  nif_unicast :: "u32 \<Rightarrow> sk_buff \<Rightarrow> 'n \<Rightarrow> bool \<times> 'n"
  nif_kmalloc :: "nat \<Rightarrow> 'n \<Rightarrow> bool \<times> 'n"
  nif_kfree :: "'n \<Rightarrow> 'n"
  nif_text :: "'n \<Rightarrow> string"
  nif_pci_addr :: "nat \<Rightarrow> u32 \<times> u32 \<times> u32"

record ('e, 's) drv_if =
  lf_env :: "'e env"
  lf_vf :: bool
  lf_cdev :: "'e cdev_if"
  lf_submit :: "'s rw_fun"
  lf_stale :: "'s qdma_cdev option"
  lf_dump :: dump_if
  lf_dev_name :: "nat \<Rightarrow> string"

section \<open>Replies\<close>

definition xnl_msg_alloc :: "'n nl_if \<Rightarrow> xnl_op_t \<Rightarrow> nat \<Rightarrow> genl_info \<Rightarrow> 'n \<Rightarrow> sk_buff option \<times> 'n" where
  "xnl_msg_alloc N op min_sz info w =
     (let sz = (if min_sz < nif_goodsize N then nif_goodsize N else min_sz)
      in case nif_genlmsg_new N sz w of
           (False, w) \<Rightarrow> (None, w)
         | (True, w) \<Rightarrow>
             let skb = \<lparr>skb_seq = gi_snd_seq info + 1, skb_cmd = op, skb_attrs = []\<rparr>
             in case nif_genlmsg_put N skb w of
                  (False, w) \<Rightarrow> (None, nif_nlmsg_free N w)
                | (True, w) \<Rightarrow> (Some skb, w))"

definition xnl_msg_add_attr :: "'n nl_if \<Rightarrow> sk_buff \<Rightarrow> xnl_attr_t \<Rightarrow> nla \<Rightarrow> 'n \<Rightarrow> sk_buff res \<times> 'n" where
  "xnl_msg_add_attr N skb a v w =
     (case nif_nla_put N skb a v w of
        (False, w) \<Rightarrow> (Inl EINVAL, w)
      | (True, w) \<Rightarrow> (Inr (skb\<lparr>skb_attrs := skb_attrs skb @ [(a, v)]\<rparr>), w))"

definition xnl_msg_add_attr_str :: "'n nl_if \<Rightarrow> sk_buff \<Rightarrow> xnl_attr_t \<Rightarrow> string \<Rightarrow> 'n \<Rightarrow> sk_buff res \<times> 'n" where
  "xnl_msg_add_attr_str N skb a s w = xnl_msg_add_attr N skb a (NLA_STRING s) w"

definition xnl_msg_add_attr_uint :: "'n nl_if \<Rightarrow> sk_buff \<Rightarrow> xnl_attr_t \<Rightarrow> u32 \<Rightarrow> 'n \<Rightarrow> sk_buff res \<times> 'n" where
  "xnl_msg_add_attr_uint N skb a v w = xnl_msg_add_attr N skb a (NLA_U32 v) w"

definition xnl_msg_send :: "'n nl_if \<Rightarrow> sk_buff \<Rightarrow> genl_info \<Rightarrow> 'n \<Rightarrow> unit res \<times> 'n" where
  "xnl_msg_send N skb info w = (Inr (), snd (nif_unicast N (gi_snd_portid info) skb w))"

definition xnl_respond_buffer :: "'n nl_if \<Rightarrow> genl_info \<Rightarrow> string \<Rightarrow> nat \<Rightarrow> 'n \<Rightarrow> unit res \<times> 'n" where
  "xnl_respond_buffer N info buf buflen w =
     (case xnl_msg_alloc N (gi_cmd info) buflen info w of
        (None, w) \<Rightarrow> (Inl ENOMEM, w)
      | (Some skb, w) \<Rightarrow>
          (case xnl_msg_add_attr_str N skb XNL_ATTR_GENMSG buf w of
             (Inl err, w) \<Rightarrow> (Inl err, w)
           | (Inr skb, w) \<Rightarrow> xnl_msg_send N skb info w))"

definition xnl_mem_alloc :: "'n nl_if \<Rightarrow> nat \<Rightarrow> genl_info \<Rightarrow> 'n \<Rightarrow> bool \<times> 'n" where
  "xnl_mem_alloc N l info w =
     (case nif_kmalloc N l w of
        (True, w) \<Rightarrow> (True, w)
      | (False, w) \<Rightarrow> (False, snd (xnl_respond_buffer N info (''ERR! xnl OOM '' @ nat_str l @ ''.'' @ EOL) XNL_ERR_BUFLEN w)))"

section \<open>Reading a request\<close>

definition nla_get_u32 :: "genl_info \<Rightarrow> xnl_attr_t \<Rightarrow> u32 res" where
  "nla_get_u32 info a = (case gi_attrs info a of None \<Rightarrow> Inl OOPS | Some v \<Rightarrow> Inr v)"

definition xnl_rcv_check_xpdev ::
  "'n nl_if \<Rightarrow> genl_info \<Rightarrow> 's mod_sys \<Rightarrow> 'n \<Rightarrow> ('s xlnx_pci_dev \<times> qdma_dev_conf) option res \<times> 'n" where
  "xnl_rcv_check_xpdev N info M w =
     (case nla_get_u32 info XNL_ATTR_DEV_IDX of
        Inl err \<Rightarrow> (Inl err, w)
      | Inr idx \<Rightarrow>
          let respond = (\<lambda>s. (Inr None, snd (xnl_respond_buffer N info (''ERR! qdma '' @ nat_str (unat idx) @ '' '' @ s @ ''.'' @ EOL)
                                            XNL_ERR_BUFLEN w)))
          in case xpdev_find_by_idx idx (md_list M) of
               None \<Rightarrow> respond ''NO match''
             | Some xpdev \<Rightarrow>
                 (case qdma_device_get_config (xp_dev_hndl xpdev) (d_list (md_drv M)) of
                    Inl err \<Rightarrow> (Inl err, w)
                  | Inr None \<Rightarrow> respond ''ERR''
                  | Inr (Some conf) \<Rightarrow> (Inr (Some (xpdev, conf)), w)))"

definition qconf_get :: "'n nl_if \<Rightarrow> genl_info \<Rightarrow> 'n \<Rightarrow> qdma_queue_conf res \<times> 'n" where
  "qconf_get N info w =
     (case nla_get_u32 info XNL_ATTR_QFLAG of
        Inl err \<Rightarrow> (Inl err, w)
      | Inr f \<Rightarrow>
          let err_out = (\<lambda>s. (Inl EINVAL, snd (xnl_respond_buffer N info s XNL_RESP_BUFLEN_MIN w)))
          in if f AND XNL_F_QMODE_ST \<noteq> 0 \<and> f AND XNL_F_QMODE_MM \<noteq> 0 then err_out (''ERR! Both ST and MM mode set.'' @ EOL)
             else let f = (if f AND XNL_F_QMODE_ST = 0 \<and> f AND XNL_F_QMODE_MM = 0 then f OR XNL_F_QMODE_MM else f)
             in if f AND XNL_F_QDIR_H2C \<noteq> 0 \<and> f AND XNL_F_QDIR_C2H \<noteq> 0 then err_out (''ERR! Both H2C and C2H mode set.'' @ EOL)
                else let f = (if f AND XNL_F_QDIR_H2C = 0 \<and> f AND XNL_F_QDIR_C2H = 0 then f OR XNL_F_QDIR_H2C else f);
                         qconf = zero_conf\<lparr>qc_st := (f AND XNL_F_QMODE_ST \<noteq> 0), qc_c2h := (f AND XNL_F_QDIR_C2H \<noteq> 0)\<rparr>
                in case nla_get_u32 info XNL_ATTR_QIDX of
                     Inl err \<Rightarrow> (Inl err, w)
                   | Inr q \<Rightarrow>
                       let qconf = qconf\<lparr>qc_qidx := ucast q\<rparr>
                       in (Inr (if qc_qidx qconf = XNL_QIDX_INVALID then qconf\<lparr>qc_qidx := QDMA_QUEUE_IDX_INVALID\<rparr> else qconf), w))"

definition xnl_rcv_check_qidx ::
  "'n nl_if \<Rightarrow> genl_info \<Rightarrow> 's xlnx_pci_dev \<Rightarrow> qdma_queue_conf \<Rightarrow> 'n \<Rightarrow> 's xlnx_qdata option \<times> 'n" where
  "xnl_rcv_check_qidx N info xpdev qconf w =
     (case xpdev_queue_get xpdev (ucast (qc_qidx qconf)) (qc_c2h qconf) True of
        None \<Rightarrow> (None, snd (xnl_respond_buffer N info (''ERR! qidx '' @ nat_str (unat (qc_qidx qconf)) @ '' invalid.'' @ EOL)
                             XNL_ERR_BUFLEN w))
      | Some k \<Rightarrow> (Some (xp_qdata xpdev ! k), w))"

section \<open>Devices\<close>

text \<open>The end of the handlers with a large buffer: the text is sent, the buffer freed.\<close>

definition free_msg_buff :: "'n nl_if \<Rightarrow> genl_info \<Rightarrow> string res \<Rightarrow> 'n \<Rightarrow> unit res \<times> 'n" where
  "free_msg_buff N info t w =
     (case t of
        Inl err \<Rightarrow> (Inl err, if err = OOPS then w else nif_kfree N w)
      | Inr t \<Rightarrow> (let (rv, w) = xnl_respond_buffer N info t XNL_RESP_BUFLEN_MAX w in (rv, nif_kfree N w)))"

definition xnl_dev_list ::
  "('e, 's) drv_if \<Rightarrow> 'n nl_if \<Rightarrow> genl_info option \<Rightarrow> 's mod_sys \<Rightarrow> 'e \<Rightarrow> 'n \<Rightarrow> unit res \<times> 's mod_sys \<times> 'e \<times> 'n" where
  "xnl_dev_list A N info M e w =
     (case info of
        None \<Rightarrow> (Inl EINVAL, M, e, w)
      | Some info \<Rightarrow>
          (case xnl_mem_alloc N XNL_RESP_BUFLEN_MAX info w of
             (False, w) \<Rightarrow> (Inl ENOMEM, M, e, w)
           | (True, w) \<Rightarrow>
               let (rv, w) = free_msg_buff N info (xpdev_list_dump (lf_vf A) (lf_dev_name A) M (int XNL_RESP_BUFLEN_MAX)) w
               in (rv, M, e, w)))"

fun add_uints :: "'n nl_if \<Rightarrow> (xnl_attr_t \<times> u32) list \<Rightarrow> sk_buff \<Rightarrow> 'n \<Rightarrow> sk_buff res \<times> 'n" where
  "add_uints N [] skb w = (Inr skb, w)"
| "add_uints N ((a, v) # avs) skb w =
     (case xnl_msg_add_attr_uint N skb a v w of
        (Inl err, w) \<Rightarrow> (Inl err, w)
      | (Inr skb, w) \<Rightarrow> add_uints N avs skb w)"

definition xnl_dev_info ::
  "('e, 's) drv_if \<Rightarrow> 'n nl_if \<Rightarrow> genl_info option \<Rightarrow> 's mod_sys \<Rightarrow> 'e \<Rightarrow> 'n \<Rightarrow> unit res \<times> 's mod_sys \<times> 'e \<times> 'n" where
  "xnl_dev_info A N info M e w =
     (case info of
        None \<Rightarrow> (Inl EINVAL, M, e, w)
      | Some info \<Rightarrow>
          (case xnl_rcv_check_xpdev N info M w of
             (Inl err, w) \<Rightarrow> (Inl err, M, e, w)
           | (Inr None, w) \<Rightarrow> (Inl EINVAL, M, e, w)
           | (Inr (Some (xpdev, conf)), w) \<Rightarrow>
               (case xnl_msg_alloc N XNL_CMD_DEV_INFO 0 info w of
                  (None, w) \<Rightarrow> (Inl ENOMEM, M, e, w)
                | (Some skb, w) \<Rightarrow>
                    let (bus, slot, func) = nif_pci_addr N (xp_pdev xpdev)
                    in case add_uints N [(XNL_ATTR_PCI_BUS, bus), (XNL_ATTR_PCI_DEV, slot), (XNL_ATTR_PCI_FUNC, func),
                          (XNL_ATTR_DEV_CFG_BAR, word_of_int (dc_bar_num_config conf)),
                          (XNL_ATTR_DEV_USR_BAR, word_of_int (dc_bar_num_user conf)),
                          (XNL_ATTR_DEV_QSET_MAX, dc_qsets_max conf)] skb w of
                         (Inl err, w) \<Rightarrow> (Inl err, M, e, w)
                       | (Inr skb, w) \<Rightarrow> (let (rv, w) = xnl_msg_send N skb info w in (rv, M, e, w)))))"

section \<open>Queues\<close>

definition xnl_q_list ::
  "('e, 's) drv_if \<Rightarrow> 'n nl_if \<Rightarrow> genl_info option \<Rightarrow> 's mod_sys \<Rightarrow> 'e \<Rightarrow> 'n \<Rightarrow> unit res \<times> 's mod_sys \<times> 'e \<times> 'n" where
  "xnl_q_list A N info M e w =
     (case info of
        None \<Rightarrow> (Inr (), M, e, w)
      | Some info \<Rightarrow>
          (case xnl_rcv_check_xpdev N info M w of
             (Inl err, w) \<Rightarrow> (Inl err, M, e, w)
           | (Inr None, w) \<Rightarrow> (Inr (), M, e, w)
           | (Inr (Some (xpdev, conf)), w) \<Rightarrow>
               (case xnl_mem_alloc N XNL_RESP_BUFLEN_MAX info w of
                  (False, w) \<Rightarrow> (Inl ENOMEM, M, e, w)
                | (True, w) \<Rightarrow>
                    let (t, D, e) = with_device (xp_dev_hndl xpdev)
                                      (\<lambda>S e. (qdma_queue_list (lf_dump A) S True (int XNL_RESP_BUFLEN_MAX), S, e)) (md_drv M) e;
                        (rv, w) = free_msg_buff N info t w
                    in (rv, M, e, w))))"

definition xnl_q_add ::
  "('e, 's) drv_if \<Rightarrow> 'n nl_if \<Rightarrow> genl_info option \<Rightarrow> 's mod_sys \<Rightarrow> 'e \<Rightarrow> 'n \<Rightarrow> unit res \<times> 's mod_sys \<times> 'e \<times> 'n" where
  "xnl_q_add A N info M e w =
     (case info of
        None \<Rightarrow> (Inr (), M, e, w)
      | Some info \<Rightarrow>
          (case xnl_rcv_check_xpdev N info M w of
             (Inl err, w) \<Rightarrow> (Inl err, M, e, w)
           | (Inr None, w) \<Rightarrow> (Inr (), M, e, w)
           | (Inr (Some (xpdev, conf)), w) \<Rightarrow>
               (case qconf_get N info w of
                  (Inl err, w) \<Rightarrow> (Inl err, M, e, w)
                | (Inr qconf, w) \<Rightarrow>
                    (case (if qc_c2h qconf \<and> qc_st qconf
                           then map_sum id (\<lambda>v. qconf\<lparr>qc_st_c2h_wrb_desc_size := ucast v\<rparr>) (nla_get_u32 info XNL_ATTR_WRB_DESC_SIZE)
                           else Inr qconf) of
                       Inl err \<Rightarrow> (Inl err, M, e, w)
                     | Inr qconf \<Rightarrow>
                         (case xpdev_queue_add (lf_env A) (lf_vf A) (lf_cdev A) (md_class M) (lf_submit A) (lf_stale A) xpdev qconf (md_drv M) e of
                            (rv, xpdev, D, e) \<Rightarrow>
                              let M = M\<lparr>md_drv := D, md_list := put_xpdev xpdev (md_list M)\<rparr>
                              in case rv of
                                   Inl err \<Rightarrow> (Inl err, M, e, w)
                                 | Inr _ \<Rightarrow> (let (rv, w) = xnl_respond_buffer N info (nif_text N w) XNL_RESP_BUFLEN_MIN w in (rv, M, e, w)))))))"

text \<open>The device and the queue a request names: the beginning of the other handlers.\<close>

definition xnl_rcv_queue ::
  "'n nl_if \<Rightarrow> genl_info \<Rightarrow> 's mod_sys \<Rightarrow> 'n \<Rightarrow> ('s xlnx_pci_dev \<times> qdma_queue_conf) res \<times> 'n" where
  "xnl_rcv_queue N info M w =
     (case xnl_rcv_check_xpdev N info M w of
        (Inl err, w) \<Rightarrow> (Inl err, w)
      | (Inr None, w) \<Rightarrow> (Inl EINVAL, w)
      | (Inr (Some (xpdev, conf)), w) \<Rightarrow>
          (case qconf_get N info w of (Inl err, w) \<Rightarrow> (Inl err, w) | (Inr qconf, w) \<Rightarrow> (Inr (xpdev, qconf), w)))"

definition xnl_rcv_qdata ::
  "'n nl_if \<Rightarrow> genl_info \<Rightarrow> 's mod_sys \<Rightarrow> 'n \<Rightarrow> ('s xlnx_pci_dev \<times> 's xlnx_qdata) res \<times> 'n" where
  "xnl_rcv_qdata N info M w =
     (case xnl_rcv_queue N info M w of
        (Inl err, w) \<Rightarrow> (Inl err, w)
      | (Inr (xpdev, qconf), w) \<Rightarrow>
          (case xnl_rcv_check_qidx N info xpdev qconf w of
             (None, w) \<Rightarrow> (Inl EINVAL, w)
           | (Some qdata, w) \<Rightarrow> (Inr (xpdev, qdata), w)))"

definition xnl_q_start ::
  "('e, 's) drv_if \<Rightarrow> 'n nl_if \<Rightarrow> genl_info option \<Rightarrow> 's mod_sys \<Rightarrow> 'e \<Rightarrow> 'n \<Rightarrow> unit res \<times> 's mod_sys \<times> 'e \<times> 'n" where
  "xnl_q_start A N info M e w =
     (case info of
        None \<Rightarrow> (Inr (), M, e, w)
      | Some info \<Rightarrow>
          (case xnl_rcv_qdata N info M w of
             (Inl err, w) \<Rightarrow> (Inl err, M, e, w)
           | (Inr (xpdev, qdata), w) \<Rightarrow>
               (case with_device (xp_dev_hndl xpdev) (\<lambda>S. qdma_queue_start (lf_env A) S (xq_qhndl qdata)) (md_drv M) e of
                  (rv, D, e) \<Rightarrow>
                    let M = M\<lparr>md_drv := D\<rparr>
                    in case rv of
                         Inl err \<Rightarrow> (Inl err, M, e, w)
                       | Inr _ \<Rightarrow> (let (rv, w) = xnl_respond_buffer N info (nif_text N w) XNL_RESP_BUFLEN_MIN w in (rv, M, e, w)))))"

definition xnl_q_stop ::
  "('e, 's) drv_if \<Rightarrow> 'n nl_if \<Rightarrow> genl_info option \<Rightarrow> 's mod_sys \<Rightarrow> 'e \<Rightarrow> 'n \<Rightarrow> unit res \<times> 's mod_sys \<times> 'e \<times> 'n" where
  "xnl_q_stop A N info M e w =
     (case info of
        None \<Rightarrow> (Inr (), M, e, w)
      | Some info \<Rightarrow>
          (case xnl_rcv_qdata N info M w of
             (Inl err, w) \<Rightarrow> (Inl err, M, e, w)
           | (Inr (xpdev, qdata), w) \<Rightarrow>
               (case with_device (xp_dev_hndl xpdev) (\<lambda>S. qdma_queue_stop (lf_env A) S (xq_qhndl qdata)) (md_drv M) e of
                  (rv, D, e) \<Rightarrow>
                    let M = M\<lparr>md_drv := D\<rparr>
                    in case rv of
                         Inl err \<Rightarrow> (Inl err, M, e, w)
                       | Inr _ \<Rightarrow> (let (rv, w) = xnl_respond_buffer N info (nif_text N w) XNL_RESP_BUFLEN_MIN w in (rv, M, e, w)))))"

definition xnl_q_del ::
  "('e, 's) drv_if \<Rightarrow> 'n nl_if \<Rightarrow> genl_info option \<Rightarrow> 's mod_sys \<Rightarrow> 'e \<Rightarrow> 'n \<Rightarrow> unit res \<times> 's mod_sys \<times> 'e \<times> 'n" where
  "xnl_q_del A N info M e w =
     (case info of
        None \<Rightarrow> (Inr (), M, e, w)
      | Some info \<Rightarrow>
          (case xnl_rcv_queue N info M w of
             (Inl err, w) \<Rightarrow> (Inl err, M, e, w)
           | (Inr (xpdev, qconf), w) \<Rightarrow>
               (case xpdev_queue_delete (lf_env A) (lf_cdev A) (md_class M) xpdev (ucast (qc_qidx qconf)) (qc_c2h qconf) (md_drv M) e of
                  (rv, xpdev, D, e) \<Rightarrow>
                    let M = M\<lparr>md_drv := D, md_list := put_xpdev xpdev (md_list M)\<rparr>
                    in case rv of
                         Inl err \<Rightarrow> (Inl err, M, e, w)
                       | Inr _ \<Rightarrow> (let (rv, w) = xnl_respond_buffer N info (nif_text N w) XNL_RESP_BUFLEN_MIN w in (rv, M, e, w)))))"

definition xnl_q_dump ::
  "('e, 's) drv_if \<Rightarrow> 'n nl_if \<Rightarrow> genl_info option \<Rightarrow> 's mod_sys \<Rightarrow> 'e \<Rightarrow> 'n \<Rightarrow> unit res \<times> 's mod_sys \<times> 'e \<times> 'n" where
  "xnl_q_dump A N info M e w =
     (case info of
        None \<Rightarrow> (Inr (), M, e, w)
      | Some info \<Rightarrow>
          (case xnl_rcv_qdata N info M w of
             (Inl err, w) \<Rightarrow> (Inl err, M, e, w)
           | (Inr (xpdev, qdata), w) \<Rightarrow>
               (case xnl_mem_alloc N XNL_RESP_BUFLEN_MAX info w of
                  (False, w) \<Rightarrow> (Inl ENOMEM, M, e, w)
                | (True, w) \<Rightarrow>
                    let (t, D, e) = with_device (xp_dev_hndl xpdev)
                          (\<lambda>S e. let (rv, e) = qdma_queue_dump (lf_env A) S (xq_qhndl qdata) True e
                                 in (map_sum id (queue_dump_text (lf_dump A) S (xq_qhndl qdata) (int XNL_RESP_BUFLEN_MAX)) rv, S, e)) (md_drv M) e;
                        (rv, w) = free_msg_buff N info t w
                    in (rv, M, e, w))))"

text \<open>Without memory two messages are sent, one here and one by \<open>xnl_mem_alloc\<close>.\<close>

definition xnl_q_dump_desc ::
  "('e, 's) drv_if \<Rightarrow> 'n nl_if \<Rightarrow> genl_info option \<Rightarrow> 's mod_sys \<Rightarrow> 'e \<Rightarrow> 'n \<Rightarrow> unit res \<times> 's mod_sys \<times> 'e \<times> 'n" where
  "xnl_q_dump_desc A N info M e w =
     (case info of
        None \<Rightarrow> (Inr (), M, e, w)
      | Some info \<Rightarrow>
          (case (nla_get_u32 info XNL_ATTR_RANGE_START, nla_get_u32 info XNL_ATTR_RANGE_END) of
             (Inr v1, Inr v2) \<Rightarrow>
               (case xnl_rcv_qdata N info M w of
                  (Inl err, w) \<Rightarrow> (Inl err, M, e, w)
                | (Inr (xpdev, qdata), w) \<Rightarrow>
                    (case xnl_mem_alloc N XNL_RESP_BUFLEN_MAX info w of
                       (False, w) \<Rightarrow>
                         (Inl ENOMEM, M, e, snd (xnl_respond_buffer N info (''xnl_q_dump_desc OOM '' @ nat_str XNL_RESP_BUFLEN_MAX @ ''.'' @ EOL)
                                                   XNL_RESP_BUFLEN_MIN w))
                     | (True, w) \<Rightarrow>
                         let (t, D, e) = with_device (xp_dev_hndl xpdev)
                               (\<lambda>S e. (qdma_queue_dump_desc (lf_dump A) S (xq_qhndl qdata) v1 v2 (int XNL_RESP_BUFLEN_MAX), S, e)) (md_drv M) e;
                             (rv, w) = free_msg_buff N info t w
                         in (rv, M, e, w)))
           | _ \<Rightarrow> (Inl OOPS, M, e, w)))"

definition xnl_q_dump_wrb ::
  "('e, 's) drv_if \<Rightarrow> 'n nl_if \<Rightarrow> genl_info option \<Rightarrow> 's mod_sys \<Rightarrow> 'e \<Rightarrow> 'n \<Rightarrow> unit res \<times> 's mod_sys \<times> 'e \<times> 'n" where
  "xnl_q_dump_wrb A N info M e w =
     (case info of
        None \<Rightarrow> (Inr (), M, e, w)
      | Some info \<Rightarrow>
          (case (nla_get_u32 info XNL_ATTR_RANGE_START, nla_get_u32 info XNL_ATTR_RANGE_END) of
             (Inr v1, Inr v2) \<Rightarrow>
               (case xnl_rcv_qdata N info M w of
                  (Inl err, w) \<Rightarrow> (Inl err, M, e, w)
                | (Inr (xpdev, qdata), w) \<Rightarrow>
                    (case xnl_mem_alloc N XNL_RESP_BUFLEN_MAX info w of
                       (False, w) \<Rightarrow>
                         (Inl ENOMEM, M, e, snd (xnl_respond_buffer N info (''xnl_q_dump_wrb OOM '' @ nat_str XNL_RESP_BUFLEN_MAX @ ''.'' @ EOL)
                                                   XNL_RESP_BUFLEN_MIN w))
                     | (True, w) \<Rightarrow>
                         let (t, D, e) = with_device (xp_dev_hndl xpdev)
                               (\<lambda>S e. let (t, S) = qdma_queue_dump_wrb (lf_dump A) S (xq_qhndl qdata) v1 v2 (int XNL_RESP_BUFLEN_MAX)
                                      in (t, S, e)) (md_drv M) e;
                             (rv, w) = free_msg_buff N info t w
                         in (rv, M\<lparr>md_drv := D\<rparr>, e, w)))
           | _ \<Rightarrow> (Inl OOPS, M, e, w)))"

text \<open>The table of handlers.\<close>

fun xnl_ops ::
  "xnl_op_t \<Rightarrow> (('e, 's) drv_if \<Rightarrow> 'n nl_if \<Rightarrow> genl_info option \<Rightarrow> 's mod_sys \<Rightarrow> 'e \<Rightarrow> 'n \<Rightarrow> unit res \<times> 's mod_sys \<times> 'e \<times> 'n) option" where
  "xnl_ops XNL_CMD_DEV_LIST = Some xnl_dev_list"
| "xnl_ops XNL_CMD_DEV_INFO = Some xnl_dev_info"
| "xnl_ops XNL_CMD_Q_LIST = Some xnl_q_list"
| "xnl_ops XNL_CMD_Q_ADD = Some xnl_q_add"
| "xnl_ops XNL_CMD_Q_START = Some xnl_q_start"
| "xnl_ops XNL_CMD_Q_STOP = Some xnl_q_stop"
| "xnl_ops XNL_CMD_Q_DEL = Some xnl_q_del"
| "xnl_ops XNL_CMD_Q_DUMP = Some xnl_q_dump"
| "xnl_ops XNL_CMD_Q_DESC = Some xnl_q_dump_desc"
| "xnl_ops XNL_CMD_Q_WRB = Some xnl_q_dump_wrb"
| "xnl_ops _ = None"

section \<open>Requests keep the tables\<close>

text \<open>Every device of the module has a table that matches its queues.\<close>

definition tables_ok :: "'s rw_fun \<Rightarrow> 's mod_sys \<Rightarrow> bool" where
  "tables_ok submit M \<longleftrightarrow> distinct (map xp_addr (md_list M)) \<and> distinct (map xp_dev_hndl (md_list M))
     \<and> (\<forall>x\<in>set (md_list M). table_ok submit x (md_drv M))"

lemma with_device_other:
  assumes "with_device h f D e = (rv, D', e')" and "h' \<noteq> h"
  shows "dev_at h' (d_list D') = dev_at h' (d_list D)"
proof -
  have "dev_at h' (map (\<lambda>m. if n_hndl m = h then g m else m) l) = dev_at h' l" if "\<And>m. n_hndl (g m) = n_hndl m" for g l
    using assms(2) that by (induction l) (auto simp: dev_at_def)
  then show ?thesis
    using assms(1) by (auto simp: with_device_def split: option.splits prod.splits)
qed

lemma table_ok_dev_at: "dev_at (xp_dev_hndl x) (d_list D') = dev_at (xp_dev_hndl x) (d_list D) \<Longrightarrow> table_ok submit x D' = table_ok submit x D"
  by (simp add: table_ok_def sys_as_def)

lemma put_xpdev_image:
  assumes "xp_addr x' = xp_addr x" and "x \<in> set l" and "distinct (map xp_addr l)" and "g x' = g x"
  shows "map g (put_xpdev x' l) = map g l"
proof -
  have "y = x" if "y \<in> set l" "xp_addr y = xp_addr x" for y
    using assms(2,3) that by (auto simp: distinct_map inj_on_def)
  then show ?thesis
    using assms(1,4) by (auto simp: put_xpdev_def)
qed

lemma put_xpdev_same:
  assumes "x \<in> set l" and "distinct (map xp_addr l)"
  shows "put_xpdev x l = l"
  using put_xpdev_image [OF refl assms, of id] by simp

lemma tables_ok_update:
  assumes ok: "tables_ok submit M" and x: "x \<in> set (md_list M)" and new: "table_ok submit x' D'"
    and same: "xp_addr x' = xp_addr x" "xp_dev_hndl x' = xp_dev_hndl x"
    and other: "\<And>h. h \<noteq> xp_dev_hndl x \<Longrightarrow> dev_at h (d_list D') = dev_at h (d_list (md_drv M))"
  shows "tables_ok submit (M\<lparr>md_drv := D', md_list := put_xpdev x' (md_list M)\<rparr>)"
proof -
  have d: "distinct (map xp_addr (md_list M))" "distinct (map xp_dev_hndl (md_list M))"
    using ok by (simp_all add: tables_ok_def)
  have "table_ok submit y D'" if y: "y \<in> set (put_xpdev x' (md_list M))" for y
  proof (cases "xp_addr y = xp_addr x")
    case True
    then show ?thesis
      using y new same(1) by (auto simp: put_xpdev_def split: if_splits)
  next
    case False
    then have "y \<in> set (md_list M)" "xp_dev_hndl y \<noteq> xp_dev_hndl x"
      using y x d(2) same(1) by (auto simp: put_xpdev_def distinct_map inj_on_def split: if_splits)
    then show ?thesis
      using ok table_ok_dev_at [OF other] by (auto simp: tables_ok_def)
  qed
  then show ?thesis
    using d put_xpdev_image [OF same(1) x d(1), of xp_addr] put_xpdev_image [OF same(1) x d(1), of xp_dev_hndl] same
    by (simp add: tables_ok_def)
qed

lemma tables_ok_device:
  assumes "tables_ok submit M" and "x \<in> set (md_list M)" and "table_ok submit x D'"
    and "\<And>h. h \<noteq> xp_dev_hndl x \<Longrightarrow> dev_at h (d_list D') = dev_at h (d_list (md_drv M))"
  shows "tables_ok submit (M\<lparr>md_drv := D'\<rparr>)"
  using tables_ok_update [OF assms(1-3) refl refl assms(4)] put_xpdev_same [OF assms(2)] assms(1) by (simp add: tables_ok_def)

lemma queue_add_other:
  assumes "xpdev_queue_add E vf C cls submit stale x qconf D e = (rv, x', D', e')"
  shows "xp_addr x' = xp_addr x" "xp_dev_hndl x' = xp_dev_hndl x" "h \<noteq> xp_dev_hndl x \<Longrightarrow> dev_at h (d_list D') = dev_at h (d_list D)"
  using assms with_device_other
  by (fastforce simp: xpdev_queue_add_def split: prod.splits sum.splits option.splits)+

lemma queue_delete_other:
  assumes "xpdev_queue_delete E C cls x qidx c2h D e = (rv, x', D', e')"
  shows "xp_addr x' = xp_addr x" "xp_dev_hndl x' = xp_dev_hndl x" "h \<noteq> xp_dev_hndl x \<Longrightarrow> dev_at h (d_list D') = dev_at h (d_list D)"
  using assms with_device_other
  by (fastforce simp: xpdev_queue_delete_def Let_def split: prod.splits option.splits if_splits)+

lemma rcv_mem:
  "xnl_rcv_check_xpdev N info M w = (Inr (Some (x, conf)), w') \<Longrightarrow> x \<in> set (md_list M)"
  "xnl_rcv_queue N info M w = (Inr (x, qconf), w') \<Longrightarrow> x \<in> set (md_list M)"
  "xnl_rcv_qdata N info M w = (Inr (x, qdata), w') \<Longrightarrow> x \<in> set (md_list M)"
proof -
  show check: "xnl_rcv_check_xpdev N info M w = (Inr (Some (x, conf)), w') \<Longrightarrow> x \<in> set (md_list M)" for x conf w'
    by (auto simp: xnl_rcv_check_xpdev_def xpdev_find_by_idx_def Let_def find_Some_iff split: sum.splits option.splits)
  show queue: "xnl_rcv_queue N info M w = (Inr (x, qconf), w') \<Longrightarrow> x \<in> set (md_list M)" for qconf w'
    by (auto simp: xnl_rcv_queue_def split: sum.splits option.splits prod.splits dest: check)
  show "xnl_rcv_qdata N info M w = (Inr (x, qdata), w') \<Longrightarrow> x \<in> set (md_list M)"
    by (auto simp: xnl_rcv_qdata_def split: sum.splits option.splits prod.splits dest: queue)
qed

lemma wrb_lines_life: "wrb_lines P wrb n end i d t = (d', t') \<Longrightarrow> same_life d d'"
proof (induction P wrb n "end" i d t rule: wrb_lines.induct)
  case (1 P wrb n "end" i d t)
  have next_life: "same_life d (wrb_next d)"
    by (simp add: same_life_def wrb_next_def Let_def)
  show ?case
  proof (cases "i <s end \<and> i < q_rngsz_wrb d")
    case True
    then show ?thesis
      using same_life_trans [OF next_life 1(1) [OF True refl refl]] 1(2) by (simp add: wrb_lines.simps [of P wrb n "end" i d t] Let_def)
  next
    case False
    then show ?thesis
      using 1(2) by (auto simp: wrb_lines.simps [of P wrb n "end" i d t] same_life_def)
  qed
qed

lemma dump_wrb_ok:
  assumes "sys_as S m A" and run: "qdma_queue_dump_wrb P S i v1 v2 n = (t, S')"
  shows "sys_as S' m A"
  using assms(1)
proof (cases rule: sys_ok_lookup [of S m A i True])
  case (none err)
  then show ?thesis
    using assms by (auto simp: qdma_queue_dump_wrb_def)
next
  case (found p qdev)
  obtain t1 d1 where dw: "qdma_descq_dump_wrb P (descq_at qdev p) v1 v2 (n - int (length (qdma_descq_dump_state (descq_at qdev p)))) = (t1, d1)"
    by fastforce
  have life: "same_life (descq_at qdev p) d1"
    using dw by (auto simp: qdma_descq_dump_wrb_def Let_def same_life_def split: if_splits prod.splits dest!: wrb_lines_life)
  have "S' = S \<or> S' = S\<lparr>s_xdev := put_queue (s_xdev S) p d1\<rparr>"
    using run found(1,2) dw by (auto simp: qdma_queue_dump_wrb_def queue_at_def Let_def split: if_splits)
  then show ?thesis
    unfolding found(8,9) using assms(1) queue_ok_life(1) [OF life found(5)] found(1-9) life
    by (auto intro!: sys_ok_put(1) simp: same_life_def)
qed

inductive nl_step :: "('e, 's) drv_if \<Rightarrow> 'n nl_if \<Rightarrow> 's mod_sys \<Rightarrow> 's mod_sys \<Rightarrow> bool" for A :: "('e, 's) drv_if" and N :: "'n nl_if" where
  request: "xnl_ops cmd = Some f \<Longrightarrow> f A N info M e w = (rv, M', e', w') \<Longrightarrow> nl_step A N M M'"

text \<open>What a handler does to the module.\<close>

lemma q_add_frame:
  assumes "xnl_q_add A N info M e w = (rv, M', e', w')"
  shows "M' = M \<or> (\<exists>x qconf r x' D' e1. x \<in> set (md_list M)
    \<and> xpdev_queue_add (lf_env A) (lf_vf A) (lf_cdev A) (md_class M) (lf_submit A) (lf_stale A) x qconf (md_drv M) e = (r, x', D', e1)
    \<and> M' = M\<lparr>md_drv := D', md_list := put_xpdev x' (md_list M)\<rparr>)"
proof (cases info)
  case (Some i)
  then show ?thesis
    using assms rcv_mem(1) [of N i M w]
    by (fastforce simp: xnl_q_add_def Let_def split: prod.splits sum.splits option.splits)
qed (use assms in \<open>simp add: xnl_q_add_def\<close>)

lemma q_del_frame:
  assumes "xnl_q_del A N info M e w = (rv, M', e', w')"
  shows "M' = M \<or> (\<exists>x q c r x' D' e1. x \<in> set (md_list M)
    \<and> xpdev_queue_delete (lf_env A) (lf_cdev A) (md_class M) x q c (md_drv M) e = (r, x', D', e1)
    \<and> M' = M\<lparr>md_drv := D', md_list := put_xpdev x' (md_list M)\<rparr>)"
proof (cases info)
  case (Some i)
  then show ?thesis
    using assms rcv_mem(2) [of N i M w]
    by (fastforce simp: xnl_q_del_def Let_def split: prod.splits sum.splits)
qed (use assms in \<open>simp add: xnl_q_del_def\<close>)

lemma q_start_frame:
  assumes "xnl_q_start A N info M e w = (rv, M', e', w')"
  shows "M' = M \<or> (\<exists>x i r D' e1. x \<in> set (md_list M)
    \<and> with_device (xp_dev_hndl x) (\<lambda>S. qdma_queue_start (lf_env A) S i) (md_drv M) e = (r, D', e1) \<and> M' = M\<lparr>md_drv := D'\<rparr>)"
proof (cases info)
  case (Some i)
  then show ?thesis
    using assms rcv_mem(3) [of N i M w]
    by (fastforce simp: xnl_q_start_def Let_def split: prod.splits sum.splits)
qed (use assms in \<open>simp add: xnl_q_start_def\<close>)

lemma q_stop_frame:
  assumes "xnl_q_stop A N info M e w = (rv, M', e', w')"
  shows "M' = M \<or> (\<exists>x i r D' e1. x \<in> set (md_list M)
    \<and> with_device (xp_dev_hndl x) (\<lambda>S. qdma_queue_stop (lf_env A) S i) (md_drv M) e = (r, D', e1) \<and> M' = M\<lparr>md_drv := D'\<rparr>)"
proof (cases info)
  case (Some i)
  then show ?thesis
    using assms rcv_mem(3) [of N i M w]
    by (fastforce simp: xnl_q_stop_def Let_def split: prod.splits sum.splits)
qed (use assms in \<open>simp add: xnl_q_stop_def\<close>)

lemma q_dump_wrb_frame:
  assumes "xnl_q_dump_wrb A N info M e w = (rv, M', e', w')"
  shows "M' = M \<or> (\<exists>x i v1 v2 n r D' e1. x \<in> set (md_list M)
    \<and> with_device (xp_dev_hndl x) (\<lambda>S e. let (t, S) = qdma_queue_dump_wrb (lf_dump A) S i v1 v2 n in (t, S, e)) (md_drv M) e = (r, D', e1)
    \<and> M' = M\<lparr>md_drv := D'\<rparr>)"
proof (cases info)
  case (Some i)
  then show ?thesis
    using assms rcv_mem(3) [of N i M w]
    by (fastforce simp: xnl_q_dump_wrb_def Let_def split: prod.splits sum.splits bool.splits)
qed (use assms in \<open>simp add: xnl_q_dump_wrb_def\<close>)

lemma other_frames:
  "xnl_dev_list A N info M e w = (rv, M', e', w') \<Longrightarrow> M' = M"
  "xnl_dev_info A N info M e w = (rv, M', e', w') \<Longrightarrow> M' = M"
  "xnl_q_list A N info M e w = (rv, M', e', w') \<Longrightarrow> M' = M"
  "xnl_q_dump A N info M e w = (rv, M', e', w') \<Longrightarrow> M' = M"
  "xnl_q_dump_desc A N info M e w = (rv, M', e', w') \<Longrightarrow> M' = M"
  by (auto simp: xnl_dev_list_def xnl_dev_info_def xnl_q_list_def xnl_q_dump_def xnl_q_dump_desc_def Let_def
      split: prod.splits sum.splits option.splits bool.splits)

lemma device_step_tables:
  assumes "tables_ok submit M" and "x \<in> set (md_list M)" and run: "with_device (xp_dev_hndl x) f (md_drv M) e = (r, D', e1)"
    and "\<And>S m B r S' e1. sys_as S m B \<Longrightarrow> f S e = (r, S', e1) \<Longrightarrow> sys_as S' m B"
  shows "tables_ok submit (M\<lparr>md_drv := D'\<rparr>)"
  using assms(1,2) with_device_table [OF _ run] with_device_other [OF run] assms(4)
  by (intro tables_ok_device [of submit M x]) (auto simp: tables_ok_def)

lemma add_step_tables:
  assumes "tables_ok submit M" and "cdevs_granted C" and "x \<in> set (md_list M)"
    and run: "xpdev_queue_add E vf C cls submit stale x qconf (md_drv M) e = (r, x', D', e1)"
  shows "tables_ok submit (M\<lparr>md_drv := D', md_list := put_xpdev x' (md_list M)\<rparr>)"
  using assms(1-3) queue_add_table [OF _ run] queue_add_other [OF run]
  by (intro tables_ok_update [of submit M x]) (auto simp: tables_ok_def)

lemma del_step_tables:
  assumes "tables_ok submit M" and "x \<in> set (md_list M)"
    and run: "xpdev_queue_delete E C cls x q c (md_drv M) e = (r, x', D', e1)"
  shows "tables_ok submit (M\<lparr>md_drv := D', md_list := put_xpdev x' (md_list M)\<rparr>)"
  using assms(1,2) queue_delete_table [OF _ run] queue_delete_other [OF run]
  by (intro tables_ok_update [of submit M x]) (auto simp: tables_ok_def)

lemma start_step_tables:
  assumes "tables_ok submit M" and "x \<in> set (md_list M)"
    and run: "with_device (xp_dev_hndl x) (\<lambda>S. qdma_queue_start E S i) (md_drv M) e = (r, D', e1)"
  shows "tables_ok submit (M\<lparr>md_drv := D'\<rparr>)"
  by (rule device_step_tables [OF assms]) (rule start_ok)

lemma stop_step_tables:
  assumes "tables_ok submit M" and "x \<in> set (md_list M)"
    and run: "with_device (xp_dev_hndl x) (\<lambda>S. qdma_queue_stop E S i) (md_drv M) e = (r, D', e1)"
  shows "tables_ok submit (M\<lparr>md_drv := D'\<rparr>)"
  by (rule device_step_tables [OF assms]) (rule stop_ok)

lemma wrb_step_tables:
  assumes "tables_ok submit M" and "x \<in> set (md_list M)"
    and run: "with_device (xp_dev_hndl x) (\<lambda>S e. let (t, S) = qdma_queue_dump_wrb P S i v1 v2 n in (t, S, e)) (md_drv M) e = (r, D', e1)"
  shows "tables_ok submit (M\<lparr>md_drv := D'\<rparr>)"
proof (rule device_step_tables [OF assms])
  fix S m B r S' e2
  assume as: "sys_as S m B" and "(let (t, S) = qdma_queue_dump_wrb P S i v1 v2 n in (t, S, e)) = (r, S', e2)"
  then have "qdma_queue_dump_wrb P S i v1 v2 n = (r, S')"
    by (simp split: prod.splits)
  then show "sys_as S' m B"
    using dump_wrb_ok [OF as] by blast
qed

lemma handler_tables:
  assumes ok: "tables_ok (lf_submit A) M" and grant: "cdevs_granted (lf_cdev A)"
  shows "xnl_q_add A N info M e w = (rv, M', e', w') \<Longrightarrow> tables_ok (lf_submit A) M'"
    "xnl_q_del A N info M e w = (rv, M', e', w') \<Longrightarrow> tables_ok (lf_submit A) M'"
    "xnl_q_start A N info M e w = (rv, M', e', w') \<Longrightarrow> tables_ok (lf_submit A) M'"
    "xnl_q_stop A N info M e w = (rv, M', e', w') \<Longrightarrow> tables_ok (lf_submit A) M'"
    "xnl_q_dump_wrb A N info M e w = (rv, M', e', w') \<Longrightarrow> tables_ok (lf_submit A) M'"
  subgoal
    by (drule q_add_frame, elim disjE exE conjE) (simp add: ok, hypsubst, rule add_step_tables [OF ok grant])
  subgoal
    by (drule q_del_frame, elim disjE exE conjE) (simp add: ok, hypsubst, rule del_step_tables [OF ok])
  subgoal
    by (drule q_start_frame, elim disjE exE conjE) (simp add: ok, hypsubst, rule start_step_tables [OF ok])
  subgoal
    by (drule q_stop_frame, elim disjE exE conjE) (simp add: ok, hypsubst, rule stop_step_tables [OF ok])
  subgoal
    by (drule q_dump_wrb_frame, elim disjE exE conjE) (simp add: ok, hypsubst, rule wrb_step_tables [OF ok])
  done

lemma nl_step_ok:
  assumes "nl_step A N M M'" and "cdevs_granted (lf_cdev A) \<and> tables_ok (lf_submit A) M"
  shows "cdevs_granted (lf_cdev A) \<and> tables_ok (lf_submit A) M'"
  using assms(1)
proof cases
  case (request cmd f info e w rv e' w')
  have ok: "tables_ok (lf_submit A) M" and grant: "cdevs_granted (lf_cdev A)"
    using assms(2) by simp_all
  have "M' = M \<or> tables_ok (lf_submit A) M'"
    using request
    by (cases cmd) (auto dest: handler_tables [OF ok grant] other_frames)
  then show ?thesis
    using assms(2) by auto
qed

interpretation nl: machine "nl_step A N" "\<lambda>M. cdevs_granted (lf_cdev A) \<and> tables_ok (lf_submit A) M"
  by unfold_locales (rule nl_step_ok)

text \<open>
  C7: User programs cannot bring the tables of the module and the queues of the library out of
  step. Start with freshly attached devices and let any requests arrive, well-formed or not,
  granted or refused, for any device, with a kernel that grants character devices. Then for
  every device a slot of its table has a character device exactly when the queue the slot
  stands for has been added, and this character device reaches exactly this queue.
\<close>

theorem netlink_keeps_tables:
  assumes "(nl_step A N)\<^sup>*\<^sup>* M0 M" and "cdevs_granted (lf_cdev A)"
    and "distinct (map xp_addr (md_list M0))" and "distinct (map xp_dev_hndl (md_list M0))"
    and "\<And>x. x \<in> set (md_list M0) \<Longrightarrow> \<exists>n f. dev_at (xp_dev_hndl x) (d_list (md_drv M0)) = Some n
        \<and> x_dev_priv (n_xdev n) = Some (new_qdev f (unat (xp_qmax x))) \<and> 2 * unat (xp_qmax x) \<le> 255
        \<and> cdev_minor_cnt (xp_cdev_cb x) = QDMA_MINOR_MAX \<and> xp_qdata x = replicate (2 * unat (xp_qmax x)) zero_qdata"
    and "x \<in> set (md_list M)" and "k < 2 * unat (xp_qmax x)"
  shows "\<exists>n qdev. dev_at (xp_dev_hndl x) (d_list (md_drv M)) = Some n \<and> x_dev_priv (n_xdev n) = Some qdev
    \<and> (case xq_xcdev (xp_qdata x ! k) of
         None \<Rightarrow> \<not> q_enabled (descq_at qdev (slot_queue (unat (xp_qmax x)) k))
       | Some c \<Rightarrow> q_enabled (descq_at qdev (slot_queue (unat (xp_qmax x)) k)) \<and> xc_fp_rw c = Some (lf_submit A)
           \<and> qdma_device_get_descq_by_id (Some (n_xdev n)) (xc_priv_data c) True = Inr (Some (slot_queue (unat (xp_qmax x)) k)))"
proof -
  have "table_ok (lf_submit A) y (md_drv M0)" if "y \<in> set (md_list M0)" for y
    using assms(5) [OF that] new_table_ok by metis
  then have "tables_ok (lf_submit A) M0"
    using assms(3,4) by (simp add: tables_ok_def)
  then have "tables_ok (lf_submit A) M"
    using nl.reach_inv [OF assms(1)] assms(2) by simp
  then show ?thesis
    using assms(6,7) by (intro table_ok_slots) (simp_all add: tables_ok_def)
qed

section \<open>Every request is answered once\<close>

text \<open>Generic netlink with a log: the messages and buffers in use, and what was sent to whom.\<close>

record nl_log =
  lg_skbs :: int
  lg_bufs :: int
  lg_sent :: "(u32 \<times> sk_buff) list"

definition log_nl :: "'n nl_if \<Rightarrow> ('n \<times> nl_log) nl_if" where
  "log_nl N = \<lparr>
     nif_goodsize = nif_goodsize N,
     nif_genlmsg_new = (\<lambda>n (w, l). let (ok, w) = nif_genlmsg_new N n w in (ok, w, if ok then l\<lparr>lg_skbs := lg_skbs l + 1\<rparr> else l)),
     nif_genlmsg_put = (\<lambda>skb (w, l). let (ok, w) = nif_genlmsg_put N skb w in (ok, w, l)),
     nif_nlmsg_free = (\<lambda>(w, l). (nif_nlmsg_free N w, l\<lparr>lg_skbs := lg_skbs l - 1\<rparr>)),
     nif_nla_put = (\<lambda>skb a v (w, l). let (ok, w) = nif_nla_put N skb a v w in (ok, w, l)),
     nif_unicast = (\<lambda>port skb (w, l). let (ok, w) = nif_unicast N port skb w
        in (ok, w, l\<lparr>lg_skbs := lg_skbs l - 1, lg_sent := lg_sent l @ [(port, skb)]\<rparr>)),
     nif_kmalloc = (\<lambda>n (w, l). let (ok, w) = nif_kmalloc N n w in (ok, w, if ok then l\<lparr>lg_bufs := lg_bufs l + 1\<rparr> else l)),
     nif_kfree = (\<lambda>(w, l). (nif_kfree N w, l\<lparr>lg_bufs := lg_bufs l - 1\<rparr>)),
     nif_text = (\<lambda>(w, l). nif_text N w), nif_pci_addr = nif_pci_addr N\<rparr>"

text \<open>A kernel with memory, and messages large enough for what is put in them.\<close>

definition nl_grants :: "'n nl_if \<Rightarrow> bool" where
  "nl_grants N \<longleftrightarrow> (\<forall>n skb a v w. fst (nif_genlmsg_new N n w) \<and> fst (nif_genlmsg_put N skb w) \<and> fst (nif_nla_put N skb a v w)
     \<and> fst (nif_kmalloc N n w))"

definition sends :: "genl_info \<Rightarrow> nl_log \<Rightarrow> nl_log \<Rightarrow> nat \<Rightarrow> bool" where
  "sends info l l' n \<longleftrightarrow> (\<exists>ms. l' = l\<lparr>lg_sent := lg_sent l @ ms\<rparr> \<and> length ms = n
     \<and> (\<forall>(port, skb)\<in>set ms. port = gi_snd_portid info \<and> skb_seq skb = gi_snd_seq info + 1))"

lemma sends_refl [simp]: "sends info l l 0"
  by (simp add: sends_def)

lemma log_granted:
  assumes "nl_grants N"
  shows "nif_genlmsg_new (log_nl N) n (w, l) = (True, snd (nif_genlmsg_new N n w), l\<lparr>lg_skbs := lg_skbs l + 1\<rparr>)"
    "nif_genlmsg_put (log_nl N) skb (w, l) = (True, snd (nif_genlmsg_put N skb w), l)"
    "nif_nla_put (log_nl N) skb a v (w, l) = (True, snd (nif_nla_put N skb a v w), l)"
    "nif_kmalloc (log_nl N) n (w, l) = (True, snd (nif_kmalloc N n w), l\<lparr>lg_bufs := lg_bufs l + 1\<rparr>)"
    "snd (nif_unicast (log_nl N) port skb (w, l))
       = (snd (nif_unicast N port skb w), l\<lparr>lg_skbs := lg_skbs l - 1, lg_sent := lg_sent l @ [(port, skb)]\<rparr>)"
    "nif_kfree (log_nl N) (w, l) = (nif_kfree N w, l\<lparr>lg_bufs := lg_bufs l - 1\<rparr>)"
  using assms by (simp_all add: log_nl_def nl_grants_def case_prod_beta prod_eq_iff Let_def)

lemma msg_alloc_log:
  assumes "nl_grants N"
  shows "\<exists>w'. xnl_msg_alloc (log_nl N) op n info (w, l)
    = (Some \<lparr>skb_seq = gi_snd_seq info + 1, skb_cmd = op, skb_attrs = []\<rparr>, w', l\<lparr>lg_skbs := lg_skbs l + 1\<rparr>)"
  using assms by (simp add: xnl_msg_alloc_def log_granted Let_def)

lemma respond_log:
  assumes "nl_grants N"
  shows "\<exists>w'. xnl_respond_buffer (log_nl N) info s n (w, l)
    = (Inr (), w', l\<lparr>lg_sent := lg_sent l @ [(gi_snd_portid info,
        \<lparr>skb_seq = gi_snd_seq info + 1, skb_cmd = gi_cmd info, skb_attrs = [(XNL_ATTR_GENMSG, NLA_STRING s)]\<rparr>)]\<rparr>)"
proof -
  obtain w1 where "xnl_msg_alloc (log_nl N) (gi_cmd info) n info (w, l)
    = (Some \<lparr>skb_seq = gi_snd_seq info + 1, skb_cmd = gi_cmd info, skb_attrs = []\<rparr>, w1, l\<lparr>lg_skbs := lg_skbs l + 1\<rparr>)"
    using msg_alloc_log [OF assms] by blast
  then show ?thesis
    using assms by (simp add: xnl_respond_buffer_def xnl_msg_add_attr_str_def xnl_msg_add_attr_def xnl_msg_send_def log_granted)
qed

text \<open>The same as rules for the run of a handler.\<close>

lemma respond_sends:
  assumes "xnl_respond_buffer (log_nl N) info s n (w, l) = (rv, w', l')" and "nl_grants N"
  shows "rv = Inr () \<and> sends info l l' 1"
proof -
  obtain w1 where "xnl_respond_buffer (log_nl N) info s n (w, l) = (Inr (), w1, l\<lparr>lg_sent := lg_sent l @ [(gi_snd_portid info,
        \<lparr>skb_seq = gi_snd_seq info + 1, skb_cmd = gi_cmd info, skb_attrs = [(XNL_ATTR_GENMSG, NLA_STRING s)]\<rparr>)]\<rparr>)"
    using respond_log [OF assms(2)] by blast
  then show ?thesis
    using assms(1) by (auto simp: sends_def)
qed

lemma snd_respond_sends:
  assumes "snd (xnl_respond_buffer (log_nl N) info s n (w, l)) = (w', l')" and "nl_grants N"
  shows "sends info l l' 1"
  using respond_sends [of N info s n w l "fst (xnl_respond_buffer (log_nl N) info s n (w, l))" w' l'] assms by (metis prod.collapse)

lemma check_xpdev_sends:
  assumes "xnl_rcv_check_xpdev (log_nl N) info M (w, l) = (r, w', l')" and "nl_grants N"
  shows "case r of Inl err \<Rightarrow> err = OOPS | Inr None \<Rightarrow> sends info l l' 1 | Inr (Some _) \<Rightarrow> l' = l"
  using assms
  by (auto simp: xnl_rcv_check_xpdev_def nla_get_u32_def qdma_device_get_config_def Let_def dest: snd_respond_sends split: sum.splits option.splits)

lemma qconf_get_sends:
  assumes "qconf_get (log_nl N) info (w, l) = (r, w', l')" and "nl_grants N"
  shows "case r of Inl err \<Rightarrow> err = OOPS \<or> sends info l l' 1 | Inr _ \<Rightarrow> l' = l"
  using assms
  by (auto simp: qconf_get_def nla_get_u32_def Let_def dest: snd_respond_sends split: sum.splits option.splits if_splits)

lemma rcv_queue_sends:
  assumes "xnl_rcv_queue (log_nl N) info M (w, l) = (r, w', l')" and "nl_grants N"
  shows "case r of Inl err \<Rightarrow> err = OOPS \<or> sends info l l' 1 | Inr _ \<Rightarrow> l' = l"
  using assms
  by (auto simp: xnl_rcv_queue_def dest!: check_xpdev_sends [OF _ assms(2)] qconf_get_sends [OF _ assms(2)]
      split: sum.splits option.splits prod.splits)

lemma rcv_qdata_sends:
  assumes "xnl_rcv_qdata (log_nl N) info M (w, l) = (r, w', l')" and "nl_grants N"
  shows "case r of Inl err \<Rightarrow> err = OOPS \<or> sends info l l' 1 | Inr _ \<Rightarrow> l' = l"
  using assms
  by (auto simp: xnl_rcv_qdata_def xnl_rcv_check_qidx_def dest!: rcv_queue_sends [OF _ assms(2)] snd_respond_sends [OF _ assms(2)]
      split: sum.splits option.splits prod.splits)

definition answers :: "genl_info \<Rightarrow> unit res \<Rightarrow> nl_log \<Rightarrow> nl_log \<Rightarrow> bool" where
  "answers info rv l l' \<longleftrightarrow> rv = Inl OOPS \<or> sends info l l' 1 \<or> rv \<noteq> Inr () \<and> l' = l"

lemma log_bufs_id [simp]: "l\<lparr>lg_bufs := lg_bufs l\<rparr> = l"
  by simp

lemma mem_alloc_log:
  assumes "nl_grants N"
  shows "\<exists>w'. xnl_mem_alloc (log_nl N) n info (w, l) = (True, w', l\<lparr>lg_bufs := lg_bufs l + 1\<rparr>)"
  using assms by (simp add: xnl_mem_alloc_def log_granted)

lemma free_msg_answers:
  assumes "free_msg_buff (log_nl N) info t (w, l\<lparr>lg_bufs := lg_bufs l + 1\<rparr>) = (rv, w', l')" and "nl_grants N"
  shows "answers info rv l l'"
proof (cases t)
  case (Inl err)
  then show ?thesis
    using assms by (cases "err = OOPS") (auto simp: free_msg_buff_def answers_def log_granted)
next
  case (Inr s)
  obtain w1 where "xnl_respond_buffer (log_nl N) info s XNL_RESP_BUFLEN_MAX (w, l\<lparr>lg_bufs := lg_bufs l + 1\<rparr>)
    = (Inr (), w1, l\<lparr>lg_bufs := lg_bufs l + 1, lg_sent := lg_sent l @ [(gi_snd_portid info,
        \<lparr>skb_seq = gi_snd_seq info + 1, skb_cmd = gi_cmd info, skb_attrs = [(XNL_ATTR_GENMSG, NLA_STRING s)]\<rparr>)]\<rparr>)"
    using respond_log [OF assms(2), of info s XNL_RESP_BUFLEN_MAX w "l\<lparr>lg_bufs := lg_bufs l + 1\<rparr>"] by auto
  then show ?thesis
    using assms Inr by (auto simp: free_msg_buff_def answers_def log_granted sends_def)
qed

lemma mem_alloc_sends:
  "xnl_mem_alloc (log_nl N) n info (w, l) = (ok, w', l') \<Longrightarrow> nl_grants N \<Longrightarrow> ok \<and> l' = l\<lparr>lg_bufs := lg_bufs l + 1\<rparr>"
  using mem_alloc_log [of N n info w l] by auto

lemma add_uints_log:
  "nl_grants N \<Longrightarrow> \<exists>w' skb'. add_uints (log_nl N) avs skb (w, l) = (Inr skb', w', l) \<and> skb_seq skb' = skb_seq skb"
proof (induction avs arbitrary: skb w)
  case (Cons av avs)
  obtain a v where av: "av = (a, v)"
    by fastforce
  let ?skb = "skb\<lparr>skb_attrs := skb_attrs skb @ [(a, NLA_U32 v)]\<rparr>"
  show ?case
    using Cons.IH [OF Cons.prems, of ?skb "snd (nif_nla_put N skb a (NLA_U32 v) w)"] Cons.prems
    by (simp add: av xnl_msg_add_attr_uint_def xnl_msg_add_attr_def log_granted)
qed simp

lemma dev_info_answers:
  assumes "xnl_dev_info A (log_nl N) (Some info) M e (w, l) = (rv, M', e', w', l')" and "nl_grants N"
  shows "answers info rv l l'"
proof -
  obtain r w1 l1 where c: "xnl_rcv_check_xpdev (log_nl N) info M (w, l) = (r, w1, l1)"
    by (rule prod_cases3)
  show ?thesis
  proof (cases "\<exists>x conf. r = Inr (Some (x, conf))")
    case True
    then obtain x conf where r: "r = Inr (Some (x, conf))" "l1 = l"
      using check_xpdev_sends [OF c assms(2)] by auto
    obtain w2 where al: "xnl_msg_alloc (log_nl N) XNL_CMD_DEV_INFO 0 info (w1, l)
        = (Some \<lparr>skb_seq = gi_snd_seq info + 1, skb_cmd = XNL_CMD_DEV_INFO, skb_attrs = []\<rparr>, w2, l\<lparr>lg_skbs := lg_skbs l + 1\<rparr>)"
      using msg_alloc_log [OF assms(2)] by blast
    obtain bus slot func where pa: "nif_pci_addr (log_nl N) (xp_pdev x) = (bus, slot, func)"
      by (rule prod_cases3)
    let ?avs = "[(XNL_ATTR_PCI_BUS, bus), (XNL_ATTR_PCI_DEV, slot), (XNL_ATTR_PCI_FUNC, func),
        (XNL_ATTR_DEV_CFG_BAR, word_of_int (dc_bar_num_config conf)), (XNL_ATTR_DEV_USR_BAR, word_of_int (dc_bar_num_user conf)),
        (XNL_ATTR_DEV_QSET_MAX, dc_qsets_max conf)]"
    obtain w3 skb where au: "add_uints (log_nl N) ?avs \<lparr>skb_seq = gi_snd_seq info + 1, skb_cmd = XNL_CMD_DEV_INFO, skb_attrs = []\<rparr>
        (w2, l\<lparr>lg_skbs := lg_skbs l + 1\<rparr>) = (Inr skb, w3, l\<lparr>lg_skbs := lg_skbs l + 1\<rparr>)" "skb_seq skb = gi_snd_seq info + 1"
      using add_uints_log [OF assms(2), of ?avs] by fastforce
    show ?thesis
      using assms(1) c r al au pa
      by (auto simp: xnl_dev_info_def xnl_msg_send_def log_granted [OF assms(2)] answers_def sends_def Let_def simp del: add_uints.simps)
  next
    case False
    then show ?thesis
      using assms(1) c check_xpdev_sends [OF c assms(2)]
      by (auto simp: xnl_dev_info_def answers_def split: sum.splits option.splits)
  qed
qed

lemmas nl_sends = check_xpdev_sends qconf_get_sends rcv_queue_sends rcv_qdata_sends mem_alloc_sends respond_sends free_msg_answers

lemma handler_answers:
  assumes "nl_grants N"
  shows "xnl_dev_list A (log_nl N) (Some info) M e (w, l) = (rv, M', e', w', l') \<Longrightarrow> answers info rv l l'"
    "xnl_q_list A (log_nl N) (Some info) M e (w, l) = (rv, M', e', w', l') \<Longrightarrow> answers info rv l l'"
    "xnl_q_add A (log_nl N) (Some info) M e (w, l) = (rv, M', e', w', l') \<Longrightarrow> answers info rv l l'"
    "xnl_q_start A (log_nl N) (Some info) M e (w, l) = (rv, M', e', w', l') \<Longrightarrow> answers info rv l l'"
    "xnl_q_stop A (log_nl N) (Some info) M e (w, l) = (rv, M', e', w', l') \<Longrightarrow> answers info rv l l'"
    "xnl_q_del A (log_nl N) (Some info) M e (w, l) = (rv, M', e', w', l') \<Longrightarrow> answers info rv l l'"
    "xnl_q_dump A (log_nl N) (Some info) M e (w, l) = (rv, M', e', w', l') \<Longrightarrow> answers info rv l l'"
    "xnl_q_dump_desc A (log_nl N) (Some info) M e (w, l) = (rv, M', e', w', l') \<Longrightarrow> answers info rv l l'"
    "xnl_q_dump_wrb A (log_nl N) (Some info) M e (w, l) = (rv, M', e', w', l') \<Longrightarrow> answers info rv l l'"
  subgoal
    by (auto simp: xnl_dev_list_def Let_def answers_def [of _ "Inl _"] answers_def [of _ "Inr _"] dest!: nl_sends [OF _ assms] split: sum.splits option.splits prod.splits bool.splits)
  subgoal
    by (auto simp: xnl_q_list_def Let_def answers_def [of _ "Inl _"] answers_def [of _ "Inr _"] dest!: nl_sends [OF _ assms] split: sum.splits option.splits prod.splits bool.splits)
  subgoal
    by (auto simp: xnl_q_add_def Let_def answers_def [of _ "Inl _"] answers_def [of _ "Inr _"] dest!: nl_sends [OF _ assms] split: sum.splits option.splits prod.splits bool.splits)
  subgoal
    by (auto simp: xnl_q_start_def Let_def answers_def [of _ "Inl _"] answers_def [of _ "Inr _"] dest!: nl_sends [OF _ assms] split: sum.splits option.splits prod.splits bool.splits)
  subgoal
    by (auto simp: xnl_q_stop_def Let_def answers_def [of _ "Inl _"] answers_def [of _ "Inr _"] dest!: nl_sends [OF _ assms] split: sum.splits option.splits prod.splits bool.splits)
  subgoal
    by (auto simp: xnl_q_del_def Let_def answers_def [of _ "Inl _"] answers_def [of _ "Inr _"] dest!: nl_sends [OF _ assms] split: sum.splits option.splits prod.splits bool.splits)
  subgoal
    by (auto simp: xnl_q_dump_def Let_def answers_def [of _ "Inl _"] answers_def [of _ "Inr _"] dest!: nl_sends [OF _ assms] split: sum.splits option.splits prod.splits bool.splits)
  subgoal
    by (auto simp: xnl_q_dump_desc_def Let_def nla_get_u32_def answers_def [of _ "Inl _"] answers_def [of _ "Inr _"] dest!: nl_sends [OF _ assms] split: sum.splits option.splits prod.splits bool.splits)
  subgoal
    by (auto simp: xnl_q_dump_wrb_def Let_def nla_get_u32_def answers_def [of _ "Inl _"] answers_def [of _ "Inr _"] dest!: nl_sends [OF _ assms] split: sum.splits option.splits prod.splits bool.splits)
  done

text \<open>
  C8: Whatever a user asks, with a kernel that has memory: a handler that succeeds has sent exactly
  one message, and one that fails has sent one or none; every message goes to the sender of the
  request and carries the next sequence number. No message and no buffer is left behind.
  (A handler that dereferences NULL is excepted.)
\<close>

theorem netlink_answers_once:
  assumes "xnl_ops cmd = Some f" and "nl_grants N"
    and "f A (log_nl N) (Some info) M e (w, l) = (rv, M', e', w', l')" and "rv \<noteq> Inl OOPS"
  shows "\<exists>ms. l' = l\<lparr>lg_sent := lg_sent l @ ms\<rparr> \<and> length ms \<le> 1 \<and> (rv = Inr () \<longrightarrow> length ms = 1)
    \<and> (\<forall>(port, skb)\<in>set ms. port = gi_snd_portid info \<and> skb_seq skb = gi_snd_seq info + 1)"
proof -
  have "answers info rv l l'"
    using assms(1,3) by (cases cmd) (auto intro: handler_answers [OF assms(2)] dev_info_answers [OF _ assms(2)])
  then consider "sends info l l' 1" | "rv \<noteq> Inr ()" "l' = l"
    using assms(4) by (auto simp: answers_def)
  then show ?thesis
  proof cases
    case 1
    then show ?thesis
      by (auto simp: sends_def)
  next
    case 2
    then show ?thesis
      by (intro exI [of _ "[]"]) simp
  qed
qed

section \<open>Reading the configuration of a queue\<close>

lemma flag_bits:
  fixes f :: u32
  shows "f AND 1 = 0 \<longleftrightarrow> \<not> bit f 0" "f AND 2 = 0 \<longleftrightarrow> \<not> bit f 1" "f AND 4 = 0 \<longleftrightarrow> \<not> bit f 2" "f AND 8 = 0 \<longleftrightarrow> \<not> bit f 3"
    "bit (f OR 2) 0 = bit f 0" "bit (f OR 2) 2 = bit f 2" "bit (f OR 2) 3 = bit f 3" "bit (f OR 4) 0 = bit f 0" "bit (f OR 4) 3 = bit f 3"
  using and_exp_eq_0_iff_not_bit [of f 0] and_exp_eq_0_iff_not_bit [of f 1] and_exp_eq_0_iff_not_bit [of f 2] and_exp_eq_0_iff_not_bit [of f 3]
  by (simp_all add: bit_simps bit_or_iff)

text \<open>
  The configuration a request describes. Flags that ask for both modes or both directions
  are refused; no mode means memory-mapped, no direction means to the card; nothing else of the
  flags matters. The index is cut to 16 bits: a request for queue \<open>i + 65536\<close> is a request for
  queue \<open>i\<close>.
\<close>

lemma qconf_get_spec:
  assumes "gi_attrs info XNL_ATTR_QFLAG = Some f" and "gi_attrs info XNL_ATTR_QIDX = Some q"
  shows "fst (qconf_get N info w) =
    (if bit f 0 \<and> bit f 1 \<or> bit f 2 \<and> bit f 3 then Inl EINVAL
     else Inr \<lparr>qc_qidx = of_nat (unat q mod 65536), qc_st = bit f 0, qc_c2h = bit f 3, qc_st_c2h_wrb_desc_size = 0, qc_name = [], qc_rngsz = 0\<rparr>)"
proof -
  have "ucast q = (of_nat (unat q mod 65536) :: u16)"
    by (simp add: word_unat_eq_iff unsigned_ucast_eq unat_of_nat take_bit_eq_mod)
  then show ?thesis
    using assms by (simp add: qconf_get_def nla_get_u32_def Let_def flag_bits zero_conf_def)
qed

section \<open>Missing attributes\<close>

text \<open>
  A request without the attribute that names the device crashes the kernel, whatever it asks
  for except the list of the devices, in every state of the driver.
\<close>

lemma missing_device_faults:
  assumes "xnl_ops cmd = Some f" and "gi_attrs info XNL_ATTR_DEV_IDX = None" and "cmd \<noteq> XNL_CMD_DEV_LIST"
  shows "fst (f A N (Some info) M e w) = Inl OOPS"
  using assms
  by (cases cmd) (auto simp: xnl_dev_info_def xnl_q_list_def xnl_q_add_def xnl_q_start_def xnl_q_stop_def xnl_q_del_def xnl_q_dump_def
      xnl_q_dump_desc_def xnl_q_dump_wrb_def xnl_rcv_qdata_def xnl_rcv_queue_def xnl_rcv_check_xpdev_def nla_get_u32_def
      split: option.splits sum.splits)

section \<open>Concrete runs\<close>

definition sample_nl :: "nat nl_if" where
  "sample_nl = \<lparr>nif_goodsize = 3000, nif_genlmsg_new = (\<lambda>n. Pair True), nif_genlmsg_put = (\<lambda>skb. Pair True), nif_nlmsg_free = id,
     nif_nla_put = (\<lambda>skb a v. Pair True), nif_unicast = (\<lambda>p skb. Pair True), nif_kmalloc = (\<lambda>n. Pair True), nif_kfree = id,
     nif_text = (\<lambda>w. ''ok''), nif_pci_addr = (\<lambda>p. (1, 0, 0))\<rparr>"

definition sample_drv_if :: "(u32 \<Rightarrow> u32, unit) drv_if" where
  "sample_drv_if = \<lparr>lf_env = ram_env, lf_vf = False, lf_cdev = sample_cif, lf_submit = sample_refuse, lf_stale = None,
     lf_dump = sample_dump, lf_dev_name = (\<lambda>p. ''0000:01:00.0'')\<rparr>"

definition sample_nl_mod :: "unit mod_sys" where
  "sample_nl_mod = \<lparr>md_drv = sample_drv, md_list = [sample_xpdev], md_drvdata = (\<lambda>_. Some 5), md_class = True\<rparr>"

text \<open>Add the memory-mapped queue 0 from the card.\<close>

definition sample_add_info :: genl_info where
  "sample_add_info = \<lparr>gi_cmd = XNL_CMD_Q_ADD, gi_snd_seq = 7, gi_snd_portid = 99,
     gi_attrs = [XNL_ATTR_DEV_IDX \<mapsto> 0, XNL_ATTR_QFLAG \<mapsto> 0xA, XNL_ATTR_QIDX \<mapsto> 0]\<rparr>"

definition sample_nl_add :: "unit res \<times> unit mod_sys \<times> (u32 \<Rightarrow> u32) \<times> nat" where
  "sample_nl_add = xnl_q_add sample_drv_if sample_nl (Some sample_add_info) sample_nl_mod (snd (snd sample_init)) 0"

lemma sample_nl_add_slots:
  "case md_list (fst (snd sample_nl_add)) of
     [x] \<Rightarrow> xp_qmax x = 2 \<and> xp_dev_hndl x = 1 \<and> map_option xc_minor (xq_xcdev (xp_qdata x ! 2)) = Some 2
        \<and> map_option xc_minor (xq_xcdev (xp_qdata x ! 0)) = None
   | _ \<Rightarrow> False"
  by code_simp

lemma sample_granted: "cdevs_granted sample_cif" "nl_grants sample_nl"
  by (simp_all add: cdevs_granted_def sample_cif_def nl_grants_def sample_nl_def)

theorem netlink_keeps_tables_witness:
  "case dev_at 1 (d_list (md_drv (fst (snd sample_nl_add)))) of None \<Rightarrow> False
   | Some n \<Rightarrow> q_enabled (queue_at (n_xdev n) (True, 0)) \<and> \<not> q_enabled (queue_at (n_xdev n) (False, 0))"
proof -
  obtain rv M e w where run: "sample_nl_add = (rv, M, e, w)"
    by (metis surj_pair)
  have step: "(nl_step sample_drv_if sample_nl)\<^sup>*\<^sup>* sample_nl_mod M"
    using nl_step.request [of XNL_CMD_Q_ADD xnl_q_add, OF _ run [unfolded sample_nl_add_def]] by auto
  obtain x where x: "md_list M = [x]" "xp_qmax x = 2" "xp_dev_hndl x = 1" "xq_xcdev (xp_qdata x ! 2) \<noteq> None" "xq_xcdev (xp_qdata x ! 0) = None"
    using sample_nl_add_slots by (auto simp: run split: list.splits)
  have start: "\<exists>n f. dev_at (xp_dev_hndl y) (d_list (md_drv sample_nl_mod)) = Some n
        \<and> x_dev_priv (n_xdev n) = Some (new_qdev f (unat (xp_qmax y))) \<and> 2 * unat (xp_qmax y) \<le> 255
        \<and> cdev_minor_cnt (xp_cdev_cb y) = QDMA_MINOR_MAX \<and> xp_qdata y = replicate (2 * unat (xp_qmax y)) zero_qdata"
    if "y \<in> set (md_list sample_nl_mod)" for y
    using that sample_drv_new by (auto simp: sample_nl_mod_def sample_drv_def sample_xpdev_def dev_at_def)
  have slots: "\<exists>n qdev. dev_at 1 (d_list (md_drv M)) = Some n \<and> x_dev_priv (n_xdev n) = Some qdev
    \<and> q_enabled (descq_at qdev (slot_queue 2 k)) = (xq_xcdev (xp_qdata x ! k) \<noteq> None)" if "k < 4" for k
  proof -
    obtain n qdev where "dev_at (xp_dev_hndl x) (d_list (md_drv M)) = Some n" "x_dev_priv (n_xdev n) = Some qdev"
      "case xq_xcdev (xp_qdata x ! k) of
         None \<Rightarrow> \<not> q_enabled (descq_at qdev (slot_queue (unat (xp_qmax x)) k))
       | Some c \<Rightarrow> q_enabled (descq_at qdev (slot_queue (unat (xp_qmax x)) k)) \<and> xc_fp_rw c = Some (lf_submit sample_drv_if)
           \<and> qdma_device_get_descq_by_id (Some (n_xdev n)) (xc_priv_data c) True = Inr (Some (slot_queue (unat (xp_qmax x)) k))"
      using netlink_keeps_tables [OF step _ _ _ start, of x k] sample_granted(1) x \<open>k < 4\<close>
      by (auto simp: sample_drv_if_def sample_nl_mod_def)
    then show ?thesis
      using x(2,3) by (cases "xq_xcdev (xp_qdata x ! k)") auto
  qed
  show ?thesis
    using slots [of 0] slots [of 2] x by (auto simp: run slot_queue_def queue_at_def split: option.splits)
qed

definition sample_log :: nl_log where
  "sample_log = \<lparr>lg_skbs = 0, lg_bufs = 0, lg_sent = []\<rparr>"

definition sample_nl_log :: "unit res \<times> unit mod_sys \<times> (u32 \<Rightarrow> u32) \<times> nat \<times> nl_log" where
  "sample_nl_log = xnl_q_add sample_drv_if (log_nl sample_nl) (Some sample_add_info) sample_nl_mod (snd (snd sample_init)) (0, sample_log)"

lemma sample_nl_log_ok: "fst sample_nl_log = Inr ()"
  by code_simp

theorem netlink_answers_once_witness:
  "\<exists>skb. snd (snd (snd (snd sample_nl_log))) = \<lparr>lg_skbs = 0, lg_bufs = 0, lg_sent = [(99, skb)]\<rparr> \<and> skb_seq skb = 8"
proof -
  obtain rv M e w l where run: "sample_nl_log = (rv, M, e, w, l)"
    by (metis surj_pair)
  have rv: "rv = Inr ()"
    using sample_nl_log_ok unfolding run by simp
  obtain ms where "l = sample_log\<lparr>lg_sent := lg_sent sample_log @ ms\<rparr>" "length ms = 1"
    "\<forall>(port, skb)\<in>set ms. port = gi_snd_portid sample_add_info \<and> skb_seq skb = gi_snd_seq sample_add_info + 1"
    using netlink_answers_once [of XNL_CMD_Q_ADD xnl_q_add, OF _ sample_granted(2) run [unfolded sample_nl_log_def]] rv by auto
  then show ?thesis
    by (cases ms) (auto simp: run sample_log_def sample_add_info_def)
qed

lemma qconf_get_spec_witness:
  "fst (qconf_get sample_nl (sample_add_info\<lparr>gi_attrs := [XNL_ATTR_QFLAG \<mapsto> 9, XNL_ATTR_QIDX \<mapsto> 0x10003]\<rparr>) 0)
     = Inr \<lparr>qc_qidx = 3, qc_st = True, qc_c2h = True, qc_st_c2h_wrb_desc_size = 0, qc_name = [], qc_rngsz = 0\<rparr>"
  using qconf_get_spec [where N = sample_nl and w = 0 and f = 9 and q = "0x10003" and info = "sample_add_info\<lparr>gi_attrs := [XNL_ATTR_QFLAG \<mapsto> 9, XNL_ATTR_QIDX \<mapsto> 0x10003]\<rparr>"]
  by (simp add: bit_simps)

lemma missing_device_faults_witness:
  "fst (xnl_q_start sample_drv_if sample_nl (Some (sample_add_info\<lparr>gi_attrs := (\<lambda>_. None)\<rparr>)) sample_nl_mod (\<lambda>_. 0) 0) = Inl OOPS"
  by (rule missing_device_faults [of XNL_CMD_Q_START xnl_q_start]) simp_all

end
