(* ===== verification/Qdma_Cli_Parse.thy ===== *)
theory Qdma_Cli_Parse
  imports Qdma_Nl
begin

text \<open>
  The command line of the user program (\<open>user/cli/cmd_parse.c\<close>, \<open>user/cli/nl_user.h\<close>).

  The code walks over \<open>argv\<close> with an index; here a function gets the arguments from the current one
  on, and returns those that are left. The end of the list is the NULL pointer behind the last
  argument: comparing it with a string is a fault. Warnings are left out. \<open>strtoul\<close> and \<open>sscanf\<close> of
  the C library are written out.
\<close>

section \<open>Numbers\<close>

definition isspace :: "char \<Rightarrow> bool" where
  "isspace c \<longleftrightarrow> of_char c = (32 :: nat) \<or> 9 \<le> (of_char c :: nat) \<and> (of_char c :: nat) \<le> 13"

definition isdigit :: "char \<Rightarrow> bool" where
  "isdigit c \<longleftrightarrow> 48 \<le> (of_char c :: nat) \<and> (of_char c :: nat) \<le> 57"

definition digit_val :: "char \<Rightarrow> nat" where
  "digit_val c =
     (let n = of_char c :: nat
      in if 48 \<le> n \<and> n \<le> 57 then n - 48 else if 97 \<le> n \<and> n \<le> 102 then n - 87 else if 65 \<le> n \<and> n \<le> 70 then n - 55 else 99)"

definition str_val :: "nat \<Rightarrow> string \<Rightarrow> int" where
  "str_val base s = foldl (\<lambda>a c. a * int base + int (digit_val c)) 0 s"

text \<open>\<open>strtoul\<close> with an unsigned long of 64 bits: the value and what is left of the string.\<close>

definition number_base :: "nat \<Rightarrow> string \<Rightarrow> nat \<times> string" where
  "number_base base s =
     (if base \<noteq> 0 then (base, s)
      else case s of
             z # x # h # r \<Rightarrow>
               if z = CHR ''0'' \<and> (x = CHR ''x'' \<or> x = CHR ''X'') \<and> digit_val h < 16 then (16, h # r)
               else (if z = CHR ''0'' then 8 else 10, s)
           | z # r \<Rightarrow> (if z = CHR ''0'' then 8 else 10, s)
           | [] \<Rightarrow> (10, s))"

definition number_sign :: "string \<Rightarrow> bool \<times> string" where
  "number_sign s =
     (case s of [] \<Rightarrow> (False, []) | c # r \<Rightarrow> if c = CHR ''-'' then (True, r) else if c = CHR ''+'' then (False, r) else (False, s))"

definition strtoul :: "nat \<Rightarrow> string \<Rightarrow> u64 \<times> string" where
  "strtoul b s =
     (let (neg, t) = number_sign (dropWhile isspace s);
          (base, t) = number_base b t;
          ds = takeWhile (\<lambda>c. digit_val c < base) t;
          n = str_val base ds
      in if ds = [] then (0, s)
         else (if n \<ge> 2 ^ 64 then - 1 else if neg then - word_of_int n else word_of_int n, dropWhile (\<lambda>c. digit_val c < base) t))"

definition arg_read_int :: "string \<Rightarrow> u32 res" where
  "arg_read_int s = (let (v, p) = strtoul 0 s in if p \<noteq> [] then Inl EINVAL else Inr (ucast v))"

section \<open>The command (nl_user.h)\<close>

definition XCMD_REG_F_BAR_SET :: u32 where
  [simp]: "XCMD_REG_F_BAR_SET = 0x1"

definition XCMD_REG_F_REG_SET :: u32 where
  [simp]: "XCMD_REG_F_REG_SET = 0x2"

definition XCMD_REG_F_VAL_SET :: u32 where
  [simp]: "XCMD_REG_F_VAL_SET = 0x4"

record xcmd_reg =
  xr_sflags :: u32
  xr_bar :: u32
  xr_reg :: u32
  xr_val :: u32

record xcmd_q_parm =
  qp_sflags :: u32
  qp_flags :: u32
  qp_ringsz :: u32
  qp_bufsz :: u32
  qp_idx :: u32
  qp_range_start :: u32
  qp_range_end :: u32
  qp_entry_size :: u8

text \<open>The two members of the union are fields of their own: a command uses one of them.\<close>

record xcmd_info =
  xi_vf :: bool
  xi_op :: xnl_op_t
  xi_if_idx :: u8
  xi_config_bar :: u8
  xi_user_bar :: u8
  xi_qmax :: u16
  xi_reg :: xcmd_reg
  xi_qparm :: xcmd_q_parm
  xi_attr_mask :: u32
  xi_attrs :: "u32 list"
  xi_drv_str :: "u8 list"

definition zero_xcmd :: xcmd_info where
  "zero_xcmd = \<lparr>xi_vf = False, xi_op = XNL_CMD_DEV_LIST, xi_if_idx = 0, xi_config_bar = 0, xi_user_bar = 0, xi_qmax = 0,
     xi_reg = \<lparr>xr_sflags = 0, xr_bar = 0, xr_reg = 0, xr_val = 0\<rparr>,
     xi_qparm = \<lparr>qp_sflags = 0, qp_flags = 0, qp_ringsz = 0, qp_bufsz = 0, qp_idx = 0, qp_range_start = 0, qp_range_end = 0,
       qp_entry_size = 0\<rparr>,
     xi_attr_mask = 0, xi_attrs = replicate 19 0, xi_drv_str = replicate 128 0\<rparr>"

text \<open>\<open>1 << QPARM_...\<close>\<close>

datatype q_parm_type = QPARM_IDX | QPARM_MODE | QPARM_DIR | QPARM_RNGSZ | QPARM_BUFSZ | QPARM_CDEV | QPARM_DESC | QPARM_WRB | QPARM_WRBSZ

fun qparm_bit :: "q_parm_type \<Rightarrow> u32" where
  "qparm_bit QPARM_IDX = 0x1"
| "qparm_bit QPARM_MODE = 0x2"
| "qparm_bit QPARM_DIR = 0x4"
| "qparm_bit QPARM_RNGSZ = 0x8"
| "qparm_bit QPARM_BUFSZ = 0x10"
| "qparm_bit QPARM_CDEV = 0x20"
| "qparm_bit QPARM_DESC = 0x40"
| "qparm_bit QPARM_WRB = 0x80"
| "qparm_bit QPARM_WRBSZ = 0x100"

definition XNL_F_CDEV :: u32 where
  [simp]: "XNL_F_CDEV = 0x10"

section \<open>Names of devices\<close>

definition parse_ifname :: "string \<Rightarrow> xcmd_info \<Rightarrow> xcmd_info res" where
  "parse_ifname name xcmd =
     (let len = length name in
      if len \<ge> 10 then Inl EINVAL
      else if take 4 name \<noteq> ''qdma'' then Inl EINVAL
      else let (vf, pos) = (if len \<ge> 6 \<and> name ! 4 = CHR ''v'' \<and> name ! 5 = CHR ''f'' then (True, 6) else (False, 4))
           in if \<not> list_all isdigit (drop pos name) then Inl EINVAL
              else case arg_read_int (drop pos name) of
                     Inl err \<Rightarrow> Inl err
                   | Inr v \<Rightarrow> Inr (xcmd\<lparr>xi_vf := vf, xi_if_idx := ucast v\<rparr>))"

section \<open>Reading arguments\<close>

text \<open>\<open>get_next_arg\<close>: the arguments after the current one, if there are any.\<close>

definition get_next_arg :: "string list \<Rightarrow> (string \<times> string list) res" where
  "get_next_arg args = (case args of a # b # r \<Rightarrow> Inr (b, r) | _ \<Rightarrow> Inl EINVAL)"

definition next_arg_read_int :: "string list \<Rightarrow> (u32 \<times> string list) res" where
  "next_arg_read_int args =
     (case get_next_arg args of
        Inl err \<Rightarrow> Inl err
      | Inr (s, r) \<Rightarrow> (case arg_read_int s of Inl err \<Rightarrow> Inl err | Inr v \<Rightarrow> Inr (v, r)))"

text \<open>\<open>next_arg_read_pair\<close>, which nothing calls: a name and a number; without the optional pair no value is set.\<close>

definition next_arg_read_pair :: "string list \<Rightarrow> string \<Rightarrow> bool \<Rightarrow> (u32 option \<times> string list) res" where
  "next_arg_read_pair args s optional =
     (case args of
        a # b # c # r \<Rightarrow>
          if b = s then (case arg_read_int c of Inl err \<Rightarrow> Inl err | Inr v \<Rightarrow> Inr (Some v, c # r)) else Inl EINVAL
      | _ \<Rightarrow> if optional then Inr (None, args) else Inl EINVAL)"

text \<open>\<open>parse_reg_cmd\<close>: first the optional bar and the address.\<close>

definition reg_addr :: "string list \<Rightarrow> xcmd_reg \<Rightarrow> (xcmd_reg \<times> string list) res" where
  "reg_addr args regcmd =
     (case get_next_arg args of
        Inl err \<Rightarrow> Inl err
      | Inr (a, r) \<Rightarrow>
          (case (if a = ''bar''
                 then case next_arg_read_int (a # r) of
                        Inl err \<Rightarrow> Inl err
                      | Inr (v, r') \<Rightarrow>
                          (case r' of
                             [] \<Rightarrow> Inl EINVAL
                           | s # r'' \<Rightarrow> Inr (regcmd\<lparr>xr_bar := v, xr_sflags := xr_sflags regcmd OR XCMD_REG_F_BAR_SET\<rparr>, s, r''))
                 else Inr (regcmd, a, r)) of
             Inl err \<Rightarrow> Inl err
           | Inr (regcmd, s, r) \<Rightarrow>
               (case arg_read_int s of
                  Inl err \<Rightarrow> Inl err
                | Inr v \<Rightarrow> Inr (regcmd\<lparr>xr_reg := v, xr_sflags := xr_sflags regcmd OR XCMD_REG_F_REG_SET\<rparr>, r))))"

definition parse_reg_cmd :: "string list \<Rightarrow> xcmd_info \<Rightarrow> (xcmd_info \<times> string list) res" where
  "parse_reg_cmd args xcmd =
     (let regcmd = \<lparr>xr_sflags = 0, xr_bar = 0, xr_reg = 0, xr_val = 0\<rparr>; xcmd = xcmd\<lparr>xi_reg := regcmd\<rparr> in
      case args of
        [] \<Rightarrow> Inl OOPS
      | a # r \<Rightarrow>
          if a = ''dump'' then Inr (xcmd\<lparr>xi_op := XNL_CMD_REG_DUMP\<rparr>, r)
          else if a = ''read''
          then case reg_addr args regcmd of
                 Inl err \<Rightarrow> Inl err
               | Inr (regcmd, r) \<Rightarrow> Inr (xcmd\<lparr>xi_op := XNL_CMD_REG_RD, xi_reg := regcmd\<rparr>, r)
          else if a = ''write''
          then case reg_addr args regcmd of
                 Inl err \<Rightarrow> Inl err
               | Inr (regcmd, r) \<Rightarrow>
                   (case r of
                      [] \<Rightarrow> Inl EINVAL
                    | s # r \<Rightarrow>
                        (case arg_read_int s of
                           Inl err \<Rightarrow> Inl err
                         | Inr v \<Rightarrow> Inr (xcmd\<lparr>xi_op := XNL_CMD_REG_WRT,
                              xi_reg := regcmd\<lparr>xr_val := v, xr_sflags := xr_sflags regcmd OR XCMD_REG_F_VAL_SET\<rparr>\<rparr>, r)))
          else Inr (xcmd, args))"

text \<open>
  \<open>v2 < v1\<close> in \<open>read_range\<close> compares the two pointers. They point to \<open>range_end\<close> and \<open>range_start\<close> of one
  structure, in this order: the comparison is false.
\<close>

definition read_range :: "string list \<Rightarrow> (u32 \<times> u32 \<times> string list) res" where
  "read_range args =
     (case args of
        [] \<Rightarrow> Inl OOPS
      | s # r \<Rightarrow>
          (case arg_read_int s of
             Inl err \<Rightarrow> Inl err
           | Inr v1 \<Rightarrow>
               (case next_arg_read_int args of Inl err \<Rightarrow> Inl err | Inr (v2, r) \<Rightarrow> Inr (v1, v2, r))))"

section \<open>The parameters of a queue\<close>

text \<open>\<open>sscanf\<close> with \<open>%hhu\<close>: a text that is no number leaves the variable alone.\<close>

definition scan_u8 :: "string \<Rightarrow> u8 \<Rightarrow> u8" where
  "scan_u8 s v = (let (n, r) = strtoul 10 s in if r = s then v else ucast n)"

text \<open>The branches of the loop, with the arguments from the name of the parameter on.\<close>

definition qparm_int ::
  "(u32 \<Rightarrow> xcmd_q_parm) \<Rightarrow> q_parm_type \<Rightarrow> string list \<Rightarrow> (xcmd_q_parm \<times> u32 \<times> string list) res" where
  "qparm_int f qt args = (case next_arg_read_int args of Inl err \<Rightarrow> Inl err | Inr (v, r) \<Rightarrow> Inr (f v, qparm_bit qt, r))"

definition qparm_flag ::
  "string \<Rightarrow> u32 \<Rightarrow> string \<Rightarrow> u32 \<Rightarrow> q_parm_type \<Rightarrow> string list \<Rightarrow> xcmd_q_parm \<Rightarrow> (xcmd_q_parm \<times> u32 \<times> string list) res" where
  "qparm_flag n0 f0 n1 f1 qt args q =
     (case get_next_arg args of
        Inl err \<Rightarrow> Inl err
      | Inr (s, r) \<Rightarrow>
          if s = n0 then Inr (q\<lparr>qp_flags := qp_flags q OR f0\<rparr>, qparm_bit qt, r)
          else if s = n1 then Inr (q\<lparr>qp_flags := qp_flags q OR f1\<rparr>, qparm_bit qt, r)
          else Inl EINVAL)"

definition qparm_cdev :: "string list \<Rightarrow> xcmd_q_parm \<Rightarrow> (xcmd_q_parm \<times> u32 \<times> string list) res" where
  "qparm_cdev args q =
     (case next_arg_read_int args of
        Inl err \<Rightarrow> Inl err
      | Inr (v, r) \<Rightarrow>
          if v \<noteq> 0 \<and> v \<noteq> 1 then Inl EINVAL
          else Inr (if v \<noteq> 0 then q\<lparr>qp_flags := qp_flags q OR XNL_F_CDEV\<rparr> else q, qparm_bit QPARM_CDEV, r))"

definition qparm_range :: "q_parm_type \<Rightarrow> string list \<Rightarrow> xcmd_q_parm \<Rightarrow> (xcmd_q_parm \<times> u32 \<times> string list) res" where
  "qparm_range qt args q =
     (case get_next_arg args of
        Inl err \<Rightarrow> Inl err
      | Inr (s, r) \<Rightarrow>
          (case read_range (s # r) of
             Inl err \<Rightarrow> Inl err
           | Inr (v1, v2, r) \<Rightarrow> Inr (q\<lparr>qp_range_start := v1, qp_range_end := v2\<rparr>, qparm_bit qt, r)))"

definition qparm_wrbsz :: "string list \<Rightarrow> xcmd_q_parm \<Rightarrow> (xcmd_q_parm \<times> u32 \<times> string list) res" where
  "qparm_wrbsz args q =
     (case get_next_arg args of
        Inl err \<Rightarrow> Inl err
      | Inr (s, r) \<Rightarrow> Inr (q\<lparr>qp_entry_size := scan_u8 s (qp_entry_size q)\<rparr>, qparm_bit QPARM_WRBSZ, r))"

definition qparm_one :: "string list \<Rightarrow> xcmd_q_parm \<Rightarrow> (xcmd_q_parm \<times> u32 \<times> string list) res" where
  "qparm_one args q =
     (let a = hd args in
      if a = ''idx'' then qparm_int (\<lambda>v. q\<lparr>qp_idx := v\<rparr>) QPARM_IDX args
      else if a = ''mode'' then qparm_flag ''mm'' XNL_F_QMODE_MM ''st'' XNL_F_QMODE_ST QPARM_MODE args q
      else if a = ''dir'' then qparm_flag ''h2c'' XNL_F_QDIR_H2C ''c2h'' XNL_F_QDIR_C2H QPARM_DIR args q
      else if a = ''cdev'' then qparm_cdev args q
      else if a = ''bufsz'' then qparm_int (\<lambda>v. q\<lparr>qp_bufsz := v\<rparr>) QPARM_BUFSZ args
      else if a = ''ringsz'' then qparm_int (\<lambda>v. q\<lparr>qp_ringsz := v\<rparr>) QPARM_RNGSZ args
      else if a = ''desc'' then qparm_range QPARM_DESC args q
      else if a = ''wrb'' then qparm_range QPARM_WRB args q
      else if a = ''wrbsz'' then qparm_wrbsz args q
      else Inl EINVAL)"

text \<open>Every branch that goes on leaves fewer arguments, and none faults.\<close>

definition shortens :: "string list \<Rightarrow> ('a \<times> 'b \<times> string list) res \<Rightarrow> bool" where
  "shortens args rv \<longleftrightarrow> (case rv of Inl err \<Rightarrow> err \<noteq> OOPS | Inr (_, _, r) \<Rightarrow> length r < length args)"

lemma shortens_if: "shortens args x \<Longrightarrow> shortens args y \<Longrightarrow> shortens args (if c then x else y)"
  by simp

lemma arg_read_int_ok: "arg_read_int s \<noteq> Inl OOPS"
  by (simp add: arg_read_int_def split: prod.splits)

lemma get_next_arg_ok: "case get_next_arg args of Inl err \<Rightarrow> err \<noteq> OOPS | Inr (s, r) \<Rightarrow> length (s # r) < length args"
  by (auto simp: get_next_arg_def split: list.splits)

lemma next_int_ok: "case next_arg_read_int args of Inl err \<Rightarrow> err \<noteq> OOPS | Inr (v, r) \<Rightarrow> length r < length args"
  using get_next_arg_ok [of args] arg_read_int_ok by (fastforce simp: next_arg_read_int_def split: sum.splits prod.splits)

lemma read_range_ok: "shortens args (read_range args) \<or> args = []"
  using next_int_ok [of args] arg_read_int_ok
  by (fastforce simp: read_range_def shortens_def split: list.splits sum.splits prod.splits)

lemma qparm_branches_ok:
  "shortens args (qparm_int f qt args)" "shortens args (qparm_flag n0 f0 n1 f1 qt args q)" "shortens args (qparm_cdev args q)"
  "shortens args (qparm_range qt args q)" "shortens args (qparm_wrbsz args q)"
  using next_int_ok [of args] get_next_arg_ok [of args] read_range_ok
  by (fastforce simp: shortens_def qparm_int_def qparm_flag_def qparm_cdev_def qparm_range_def qparm_wrbsz_def split: sum.splits prod.splits)+

lemma qparm_one_ok: "shortens args (qparm_one args q)"
  unfolding qparm_one_def Let_def by (intro shortens_if qparm_branches_ok) (simp add: shortens_def)

function read_qparm_loop :: "string list \<Rightarrow> xcmd_q_parm \<Rightarrow> u32 \<Rightarrow> (xcmd_q_parm \<times> u32) res" where
  "read_qparm_loop [] q arg_set = Inr (q, arg_set)"
| "read_qparm_loop (a # r) q arg_set =
     (case qparm_one (a # r) q of
        Inl err \<Rightarrow> Inl err
      | Inr (q, b, r) \<Rightarrow> read_qparm_loop r q (arg_set OR b))"
  by pat_completeness auto
termination
proof (relation "measure (\<lambda>(args, q, s). length args)")
  fix a r q s b x y xa ya
  assume "qparm_one (a # r) q = Inr b" "(x, y) = b" "(xa, ya) = y"
  then show "((ya, x, s OR xa), a # r, q, s) \<in> measure (\<lambda>(args, q, s). length args)"
    using qparm_one_ok [of "a # r" q] by (auto simp: shortens_def)
qed simp

text \<open>
  After the loop. Among the parameters required at least one is found in the loop over their
  names when some are missing, so this is an error whatever \<open>mask\<close> is.
\<close>

definition qparm_missing :: "u32 \<Rightarrow> u32 \<Rightarrow> bool" where
  "qparm_missing arg_set required \<longleftrightarrow>
     arg_set AND required \<noteq> required \<and> list_ex (\<lambda>i. push_bit i 1 AND required \<noteq> 0) [0..<9]"

text \<open>The checks of mode and direction: not both values, and the first one is the default.\<close>

definition qparm_exclusive :: "q_parm_type \<Rightarrow> u32 \<Rightarrow> u32 \<Rightarrow> u32 \<Rightarrow> xcmd_q_parm \<Rightarrow> (u32 \<times> xcmd_q_parm) res" where
  "qparm_exclusive qt dflt other arg_set q =
     (if arg_set AND qparm_bit qt \<noteq> 0
      then let mask = dflt OR other in if qp_flags q AND mask = mask then Inl EINVAL else Inr (arg_set, q)
      else Inr (arg_set OR qparm_bit qt, q\<lparr>qp_flags := qp_flags q OR dflt\<rparr>))"

definition read_qparm :: "string list \<Rightarrow> xcmd_q_parm \<Rightarrow> u32 \<Rightarrow> xcmd_q_parm res" where
  "read_qparm args q required =
     (case read_qparm_loop args (q\<lparr>qp_idx := ucast XNL_QIDX_INVALID\<rparr>) 0 of
        Inl err \<Rightarrow> Inl err
      | Inr (q, arg_set) \<Rightarrow>
          if qparm_missing arg_set required then Inl EINVAL
          else case qparm_exclusive QPARM_MODE XNL_F_QMODE_MM XNL_F_QMODE_ST arg_set q of
                 Inl err \<Rightarrow> Inl err
               | Inr (arg_set, q) \<Rightarrow>
                   (case qparm_exclusive QPARM_DIR XNL_F_QDIR_H2C XNL_F_QDIR_C2H arg_set q of
                      Inl err \<Rightarrow> Inl err
                    | Inr (arg_set, q) \<Rightarrow> Inr (q\<lparr>qp_sflags := arg_set\<rparr>)))"

text \<open>
  \<open>flags & (C2H | ST) == (C2H | ST)\<close> groups as \<open>flags & 1\<close>: the size of a completion entry gets its
  default for every streaming queue. For an unknown command \<open>rv\<close> keeps the value \<open>junk\<close> it happens to
  have, and the command stays the first of the enumeration.
\<close>

definition add_defaults :: "xcmd_q_parm \<Rightarrow> xcmd_q_parm" where
  "add_defaults q =
     (if qp_flags q AND of_bool (XNL_F_QDIR_C2H OR XNL_F_QMODE_ST = XNL_F_QDIR_C2H OR XNL_F_QMODE_ST) \<noteq> 0
         \<and> qp_sflags q AND qparm_bit QPARM_WRBSZ = 0
      then q\<lparr>qp_entry_size := 3, qp_sflags := qp_sflags q OR qparm_bit QPARM_WRBSZ\<rparr> else q)"

definition parse_q_parms ::
  "xnl_op_t \<Rightarrow> u32 \<Rightarrow> string list \<Rightarrow> xcmd_info \<Rightarrow> xcmd_info res" where
  "parse_q_parms op required args xcmd =
     (case get_next_arg args of
        Inl err \<Rightarrow> Inl err
      | Inr (a, r) \<Rightarrow>
          (case read_qparm (a # r) (xi_qparm xcmd) required of
             Inl err \<Rightarrow> Inl err
           | Inr q \<Rightarrow> Inr (xcmd\<lparr>xi_op := op, xi_qparm := q\<rparr>)))"

definition parse_q_cmd :: "int \<Rightarrow> string list \<Rightarrow> string list \<Rightarrow> xcmd_info \<Rightarrow> (xcmd_info \<times> string list) res" where
  "parse_q_cmd junk argv args xcmd =
     (case args of
        [] \<Rightarrow> Inl OOPS
      | a # r \<Rightarrow>
          if a = ''list'' then Inr (xcmd\<lparr>xi_op := XNL_CMD_Q_LIST\<rparr>, r)
          else if a = ''add''
          then map_sum id (\<lambda>x. (x\<lparr>xi_qparm := add_defaults (xi_qparm x)\<rparr>, [])) (parse_q_parms XNL_CMD_Q_ADD 0 args xcmd)
          else if a = ''start'' then map_sum id (\<lambda>x. (x, [])) (parse_q_parms XNL_CMD_Q_START (qparm_bit QPARM_IDX) args xcmd)
          else if a = ''stop'' then map_sum id (\<lambda>x. (x, [])) (parse_q_parms XNL_CMD_Q_STOP (qparm_bit QPARM_IDX) args xcmd)
          else if a = ''del'' then map_sum id (\<lambda>x. (x, [])) (parse_q_parms XNL_CMD_Q_DEL (qparm_bit QPARM_IDX) args xcmd)
          else if a = ''dump''
          then case parse_q_parms XNL_CMD_Q_DUMP (qparm_bit QPARM_IDX) args xcmd of
                 Inl err \<Rightarrow> Inl err
               | Inr x \<Rightarrow>
                   let sflags = qp_sflags (xi_qparm x); mask = qparm_bit QPARM_DESC OR qparm_bit QPARM_WRB
                   in if sflags AND mask = mask then Inl EINVAL
                      else Inr (x\<lparr>xi_op := (if sflags AND qparm_bit QPARM_DESC \<noteq> 0 then XNL_CMD_Q_DESC
                                          else if sflags AND qparm_bit QPARM_WRB \<noteq> 0 then XNL_CMD_Q_WRB else XNL_CMD_Q_DUMP)\<rparr>, [])
          else if junk < 0 then Inl (Other junk) else Inr (xcmd, drop (nat junk) argv))"

definition parse_dev_cmd :: "string list \<Rightarrow> xcmd_info \<Rightarrow> (xcmd_info \<times> string list) res" where
  "parse_dev_cmd args xcmd =
     (case args of
        [] \<Rightarrow> Inl OOPS
      | a # r \<Rightarrow> if a = ''list'' then Inr (xcmd\<lparr>xi_op := XNL_CMD_DEV_LIST\<rparr>, r) else Inr (xcmd, args))"

text \<open>\<open>exit\<close> ends the program with a status.\<close>

datatype 'a outcome = Exits nat | Returns 'a

text \<open>The code behind the label \<open>done\<close>: no argument may be left.\<close>

definition parse_done :: "(xcmd_info \<times> string list) res \<Rightarrow> xcmd_info res" where
  "parse_done rv = (case rv of Inl err \<Rightarrow> Inl err | Inr (xcmd, rest) \<Rightarrow> if rest \<noteq> [] then Inl EINVAL else Inr xcmd)"

definition parse_args :: "int \<Rightarrow> string list \<Rightarrow> string \<Rightarrow> string list \<Rightarrow> xcmd_info \<Rightarrow> xcmd_info res" where
  "parse_args junk argv a r xcmd =
     (if a = ''dev'' then parse_done (parse_dev_cmd r xcmd)
      else case parse_ifname a xcmd of
             Inl err \<Rightarrow> Inl err
           | Inr xcmd \<Rightarrow>
               (case r of
                  [] \<Rightarrow> parse_done (Inr (xcmd\<lparr>xi_op := XNL_CMD_DEV_INFO\<rparr>, []))
                | s # r \<Rightarrow>
                    if s = ''reg'' then parse_done (parse_reg_cmd r xcmd)
                    else if s = ''q'' then parse_done (parse_q_cmd junk argv r xcmd)
                    else Inl EINVAL))"

definition parse_cmd :: "int \<Rightarrow> string list \<Rightarrow> xcmd_info res outcome" where
  "parse_cmd junk argv =
     (let xcmd = zero_xcmd in
      case argv of
        [] \<Rightarrow> Returns (Inl OOPS)
      | [p] \<Rightarrow> Exits 1
      | p # a # r \<Rightarrow>
          if r = [] \<and> a \<in> set [''?'', ''-h'', ''help'', ''--help''] then Exits 0
          else if r = [] \<and> a \<in> set [''-v'', ''--version''] then Exits 0
          else Returns (parse_args junk argv a r xcmd))"

section \<open>Where the parser reads past the arguments\<close>

lemma reg_addr_no_fault: "reg_addr args rc \<noteq> Inl OOPS"
  using get_next_arg_ok [of args] next_int_ok arg_read_int_ok
  by (fastforce simp: reg_addr_def split: sum.splits list.splits if_splits prod.splits)

lemma loop_no_fault: "read_qparm_loop args q s \<noteq> Inl OOPS"
proof (induction args q s rule: read_qparm_loop.induct)
  case (2 a r q s)
  then show ?case
    using qparm_one_ok [of "a # r" q] by (auto simp: shortens_def split: sum.splits)
qed simp

lemma read_qparm_no_fault: "read_qparm args q req \<noteq> Inl OOPS"
  using loop_no_fault [of args] by (auto simp: read_qparm_def qparm_exclusive_def Let_def split: sum.splits if_splits)

lemma parms_no_fault: "parse_q_parms op req args xcmd \<noteq> Inl OOPS"
  using get_next_arg_ok [of args] read_qparm_no_fault by (auto simp: parse_q_parms_def split: sum.splits)

lemma ifname_no_fault: "parse_ifname name xcmd \<noteq> Inl OOPS"
  using arg_read_int_ok by (auto simp: parse_ifname_def Let_def split: sum.splits)

lemma map_sum_fault: "map_sum id f x = Inl OOPS \<longleftrightarrow> x = Inl OOPS"
  by (cases x) auto

lemma cmds_fault:
  "parse_reg_cmd args xcmd = Inl OOPS \<longleftrightarrow> args = []"
  "parse_q_cmd junk argv args xcmd = Inl OOPS \<longleftrightarrow> args = []"
  "parse_dev_cmd args xcmd = Inl OOPS \<longleftrightarrow> args = []"
  subgoal
    using reg_addr_no_fault arg_read_int_ok by (auto simp: parse_reg_cmd_def Let_def split: list.splits sum.splits)
  subgoal
    using parms_no_fault by (cases args) (auto simp: parse_q_cmd_def Let_def map_sum_fault split: sum.splits)
  subgoal
    by (auto simp: parse_dev_cmd_def split: list.splits)
  done

lemma parse_done_fault: "parse_done rv = Inl OOPS \<longleftrightarrow> rv = Inl OOPS"
  by (cases rv) (auto simp: parse_done_def split: if_splits)

lemma parse_args_fault:
  "parse_args junk argv a r xcmd = Inl OOPS \<longleftrightarrow>
   (if a = ''dev'' then r = [] else (r = [''reg''] \<or> r = [''q'']) \<and> \<not> isl (parse_ifname a xcmd))"
proof (cases "a = ''dev''")
  case False
  show ?thesis
  proof (cases "parse_ifname a xcmd")
    case (Inr x)
    then show ?thesis
      using False by (cases r) (simp_all add: parse_args_def parse_done_fault cmds_fault)
  qed (use False ifname_no_fault [of a xcmd] in \<open>simp add: parse_args_def\<close>)
qed (simp add: parse_args_def parse_done_fault cmds_fault)

lemma parse_cmd_args: "r \<noteq> [] \<Longrightarrow> parse_cmd junk (p # a # r) = Returns (parse_args junk (p # a # r) a r zero_xcmd)"
  by (simp add: parse_cmd_def)

text \<open>
  C37: The parser reads past the arguments in three situations and in no other: when the arguments
  end after \<open>dev\<close>, after \<open>reg\<close> or after \<open>q\<close>, the last two behind a good name of a device. Then it
  compares NULL with a string.
\<close>

theorem parse_cmd_faults:
  assumes "argv \<noteq> []"
  shows "parse_cmd junk argv = Returns (Inl OOPS) \<longleftrightarrow>
    (\<exists>p a. argv = [p, ''dev''] \<or> (argv = [p, a, ''reg''] \<or> argv = [p, a, ''q'']) \<and> a \<noteq> ''dev'' \<and> \<not> isl (parse_ifname a zero_xcmd))"
proof (cases argv)
  case (Cons p r)
  show ?thesis
  proof (cases r)
    case Nil
    then show ?thesis
      using Cons by (simp add: parse_cmd_def)
  next
    case (Cons a s)
    have "parse_cmd junk argv = Returns (Inl OOPS) \<longleftrightarrow> parse_args junk argv a s zero_xcmd = Inl OOPS"
      using \<open>argv = p # r\<close> Cons by (cases "s = []") (auto simp: parse_cmd_def parse_args_fault)
    then show ?thesis
      using \<open>argv = p # r\<close> Cons unfolding parse_args_fault by (auto split: if_splits)
  qed
qed (use assms in simp)

section \<open>Decimal numbers are read back\<close>

lemma digit_char:
  fixes d :: nat
  assumes "d < 10"
  shows "digit_val (char_of (48 + d)) = d" "isdigit (char_of (48 + d))" "\<not> isspace (char_of (48 + d))"
    "char_of (48 + d) \<noteq> CHR ''-''" "char_of (48 + d) \<noteq> CHR ''+''" "char_of (48 + d) = CHR ''0'' \<longleftrightarrow> d = 0"
proof -
  have c: "(of_char (char_of (48 + d) :: char) :: nat) = 48 + d"
    using assms by (simp add: of_char_of)
  show "digit_val (char_of (48 + d)) = d" "isdigit (char_of (48 + d))" "\<not> isspace (char_of (48 + d))"
    using assms c by (simp_all add: digit_val_def isdigit_def isspace_def)
  have "char_of (48 + d) = x \<longleftrightarrow> 48 + d = of_char x" for x :: char
    using c by (metis char_of_char)
  then show "char_of (48 + d) \<noteq> CHR ''-''" "char_of (48 + d) \<noteq> CHR ''+''" "char_of (48 + d) = CHR ''0'' \<longleftrightarrow> d = 0"
    by simp_all
qed

lemma nat_str_last: "nat_str n = (if n < 10 then [] else nat_str (n div 10)) @ [char_of (48 + n mod 10)]"
  by (subst nat_str.simps) simp

lemma nat_str_digits: "c \<in> set (nat_str n) \<Longrightarrow> \<exists>d < (10 :: nat). c = char_of (48 + d)"
proof (induction n rule: nat_str.induct)
  case (1 n)
  then show ?case
    by (subst (asm) (2) nat_str_last) (auto split: if_splits intro: exI [of _ n] exI [of _ "n mod 10"])
qed

lemma nat_str_val: "str_val 10 (nat_str n) = int n"
proof (induction n rule: nat_str.induct)
  case (1 n)
  have "int (n div 10) * 10 + int (n mod 10) = int n"
    by presburger
  then show ?case
    using 1 by (subst nat_str_last) (auto simp: str_val_def digit_char)
qed

lemma nat_str_first: "\<exists>d < (10 :: nat). \<exists>r. nat_str n = char_of (48 + d) # r \<and> (d = 0 \<longleftrightarrow> n = 0) \<and> (n = 0 \<longrightarrow> r = [])"
proof (induction n rule: nat_str.induct)
  case (1 n)
  show ?case
  proof (cases "n < 10")
    case True
    then show ?thesis
      by (subst nat_str_last) auto
  next
    case False
    then show ?thesis
      using 1 by (subst nat_str_last) auto
  qed
qed

lemma nat_str_decimal: "c \<in> set (nat_str n) \<Longrightarrow> digit_val c < 10 \<and> isdigit c"
  using nat_str_digits by (metis digit_char(1,2))

lemma digits_all: "takeWhile (\<lambda>c. digit_val c < 10) (nat_str n) = nat_str n" "dropWhile (\<lambda>c. digit_val c < 10) (nat_str n) = []"
  by (simp_all add: takeWhile_eq_all_conv dropWhile_eq_Nil_conv nat_str_decimal)

lemma nat_str_sign: "number_sign (dropWhile isspace (nat_str n)) = (False, nat_str n)"
proof -
  obtain d r where *: "nat_str n = char_of (48 + d) # r" "d < (10 :: nat)"
    using nat_str_first by blast
  have "dropWhile isspace (nat_str n) = nat_str n"
    unfolding * using digit_char(3) [OF *(2)] by simp
  moreover have "number_sign (nat_str n) = (False, nat_str n)"
    unfolding * number_sign_def using digit_char(4,5) [OF *(2)] by simp
  ultimately show ?thesis
    by simp
qed

lemma nat_str_nonempty: "nat_str n \<noteq> []" "[] \<noteq> nat_str n"
  using nat_str_first [of n] by auto

lemma strtoul_decimal: "strtoul 10 (nat_str n) = (if n < 2 ^ 64 then of_nat n else - 1, [])"
proof -
  have "int n < 2 ^ 64 \<longleftrightarrow> n < 2 ^ 64"
    by (metis of_nat_less_iff of_nat_numeral of_nat_power)
  then show ?thesis
    using nat_str_nonempty [of n]
    by (simp add: strtoul_def nat_str_sign number_base_def digits_all nat_str_val not_le)
qed

lemma strtoul_auto: "strtoul 0 (nat_str n) = strtoul 10 (nat_str n)"
proof (cases "n = 0")
  case True
  have "nat_str 0 = ''0''"
    by code_simp
  then show ?thesis
    unfolding True by code_simp
next
  case False
  obtain d r where *: "nat_str n = char_of (48 + d) # r" "d < (10 :: nat)" "d \<noteq> 0"
    using nat_str_first [of n] False by blast
  then have "hd (nat_str n) \<noteq> CHR ''0''"
    using digit_char(6) [of d] by simp
  then have "number_base 0 (nat_str n) = number_base 10 (nat_str n)"
    using nat_str_nonempty [of n] by (auto simp: number_base_def split: list.splits)
  then show ?thesis
    by (simp add: strtoul_def nat_str_sign)
qed

lemma ucast_wide [simp]: "ucast (ucast v :: u64) = v" for v :: u32
  by (rule bit_word_eqI) (simp add: bit_simps)

lemma ucast_wide_byte [simp]: "ucast (ucast v :: u64) = v" for v :: u8
  by (rule bit_word_eqI) (simp add: bit_simps)

lemma arg_read_nat_str [simp]: "arg_read_int (nat_str (unat v)) = Inr v"
proof -
  have "unat v < 2 ^ 64"
    using unsigned_less [of v, where 'a = nat] by simp
  then show ?thesis
    by (simp add: arg_read_int_def strtoul_auto strtoul_decimal)
qed

lemma scan_nat_str [simp]: "scan_u8 (nat_str (unat v)) old = v"
proof -
  have "unat v < 2 ^ 64"
    using unsigned_less [of v, where 'a = nat] by simp
  then show ?thesis
    using nat_str_nonempty [of "unat v"] by (simp add: scan_u8_def strtoul_decimal)
qed

section \<open>Printing and reading parameters\<close>

text \<open>A parameter as a user thinks of it, how it is typed, and what it means.\<close>

datatype q_arg =
  ArgIdx u32 | ArgMode bool | ArgDir bool | ArgCdev bool | ArgBufsz u32 | ArgRingsz u32
| ArgDesc u32 u32 | ArgWrb u32 u32 | ArgWrbsz u8

definition num :: "u32 \<Rightarrow> string" where
  "num v = nat_str (unat v)"

fun print_arg :: "q_arg \<Rightarrow> string list" where
  "print_arg (ArgIdx v) = [''idx'', num v]"
| "print_arg (ArgMode st) = [''mode'', if st then ''st'' else ''mm'']"
| "print_arg (ArgDir c2h) = [''dir'', if c2h then ''c2h'' else ''h2c'']"
| "print_arg (ArgCdev b) = [''cdev'', num (of_bool b)]"
| "print_arg (ArgBufsz v) = [''bufsz'', num v]"
| "print_arg (ArgRingsz v) = [''ringsz'', num v]"
| "print_arg (ArgDesc v w) = [''desc'', num v, num w]"
| "print_arg (ArgWrb v w) = [''wrb'', num v, num w]"
| "print_arg (ArgWrbsz v) = [''wrbsz'', nat_str (unat v)]"

fun arg_type :: "q_arg \<Rightarrow> q_parm_type" where
  "arg_type (ArgIdx _) = QPARM_IDX"
| "arg_type (ArgMode _) = QPARM_MODE"
| "arg_type (ArgDir _) = QPARM_DIR"
| "arg_type (ArgCdev _) = QPARM_CDEV"
| "arg_type (ArgBufsz _) = QPARM_BUFSZ"
| "arg_type (ArgRingsz _) = QPARM_RNGSZ"
| "arg_type (ArgDesc _ _) = QPARM_DESC"
| "arg_type (ArgWrb _ _) = QPARM_WRB"
| "arg_type (ArgWrbsz _) = QPARM_WRBSZ"

fun apply_arg :: "q_arg \<Rightarrow> xcmd_q_parm \<Rightarrow> xcmd_q_parm" where
  "apply_arg (ArgIdx v) q = q\<lparr>qp_idx := v\<rparr>"
| "apply_arg (ArgMode st) q = q\<lparr>qp_flags := qp_flags q OR (if st then XNL_F_QMODE_ST else XNL_F_QMODE_MM)\<rparr>"
| "apply_arg (ArgDir c2h) q = q\<lparr>qp_flags := qp_flags q OR (if c2h then XNL_F_QDIR_C2H else XNL_F_QDIR_H2C)\<rparr>"
| "apply_arg (ArgCdev b) q = (if b then q\<lparr>qp_flags := qp_flags q OR XNL_F_CDEV\<rparr> else q)"
| "apply_arg (ArgBufsz v) q = q\<lparr>qp_bufsz := v\<rparr>"
| "apply_arg (ArgRingsz v) q = q\<lparr>qp_ringsz := v\<rparr>"
| "apply_arg (ArgDesc v w) q = q\<lparr>qp_range_start := v, qp_range_end := w\<rparr>"
| "apply_arg (ArgWrb v w) q = q\<lparr>qp_range_start := v, qp_range_end := w\<rparr>"
| "apply_arg (ArgWrbsz v) q = q\<lparr>qp_entry_size := v\<rparr>"

lemmas qparm_defs = qparm_one_def qparm_int_def qparm_flag_def qparm_cdev_def qparm_range_def qparm_wrbsz_def
  get_next_arg_def next_arg_read_int_def read_range_def num_def

lemma qparm_one_print: "qparm_one (print_arg x @ r) q = Inr (apply_arg x q, qparm_bit (arg_type x), r)"
  by (cases x) (simp_all add: qparm_defs)

definition arg_bits :: "q_arg list \<Rightarrow> u32" where
  "arg_bits xs = fold (\<lambda>x b. b OR qparm_bit (arg_type x)) xs 0"

lemma fold_arg_bits: "fold (\<lambda>x b. b OR qparm_bit (arg_type x)) xs s = s OR arg_bits xs"
proof (induction xs arbitrary: s)
  case (Cons x xs)
  have "arg_bits (x # xs) = qparm_bit (arg_type x) OR arg_bits xs"
    using Cons [of "qparm_bit (arg_type x)"] by (simp add: arg_bits_def)
  then show ?case
    using Cons by (simp add: or.assoc)
qed (simp add: arg_bits_def)

lemma loop_print:
  "read_qparm_loop (concat (map print_arg xs)) q s = Inr (fold apply_arg xs q, s OR arg_bits xs)"
proof (induction xs arbitrary: q s)
  case (Cons x xs)
  obtain a r where ne: "print_arg x = a # r"
    by (cases x) simp_all
  then have "read_qparm_loop (concat (map print_arg (x # xs))) q s =
    read_qparm_loop (concat (map print_arg xs)) (apply_arg x q) (s OR qparm_bit (arg_type x))"
    using qparm_one_print [of x "concat (map print_arg xs)" q] by simp
  also have "\<dots> = Inr (fold apply_arg (x # xs) q, s OR arg_bits (x # xs))"
    unfolding Cons by (simp flip: fold_arg_bits)
  finally show ?case .
qed (simp add: arg_bits_def)

text \<open>The values the parameters leave behind: of each kind the last one counts, flags add up.\<close>

definition last_of :: "(q_arg \<Rightarrow> 'a option) \<Rightarrow> 'a \<Rightarrow> q_arg list \<Rightarrow> 'a" where
  "last_of f d xs = last (d # List.map_filter f xs)"

definition flags_of :: "q_arg list \<Rightarrow> u32" where
  "flags_of xs = of_bool (ArgMode True \<in> set xs) OR (if ArgMode False \<in> set xs then 0x2 else 0)
     OR (if ArgDir False \<in> set xs then 0x4 else 0) OR (if ArgDir True \<in> set xs then 0x8 else 0)
     OR (if ArgCdev True \<in> set xs then 0x10 else 0)"

definition idx_of :: "u32 \<Rightarrow> q_arg list \<Rightarrow> u32" where
  "idx_of = last_of (\<lambda>x. case x of ArgIdx v \<Rightarrow> Some v | _ \<Rightarrow> None)"

definition bufsz_of :: "u32 \<Rightarrow> q_arg list \<Rightarrow> u32" where
  "bufsz_of = last_of (\<lambda>x. case x of ArgBufsz v \<Rightarrow> Some v | _ \<Rightarrow> None)"

definition ringsz_of :: "u32 \<Rightarrow> q_arg list \<Rightarrow> u32" where
  "ringsz_of = last_of (\<lambda>x. case x of ArgRingsz v \<Rightarrow> Some v | _ \<Rightarrow> None)"

definition range_of :: "u32 \<times> u32 \<Rightarrow> q_arg list \<Rightarrow> u32 \<times> u32" where
  "range_of = last_of (\<lambda>x. case x of ArgDesc v w \<Rightarrow> Some (v, w) | ArgWrb v w \<Rightarrow> Some (v, w) | _ \<Rightarrow> None)"

definition wrbsz_of :: "u8 \<Rightarrow> q_arg list \<Rightarrow> u8" where
  "wrbsz_of = last_of (\<lambda>x. case x of ArgWrbsz v \<Rightarrow> Some v | _ \<Rightarrow> None)"

lemma last_of_simps [simp]:
  "last_of f d [] = d" "last_of f d (x # xs) = last_of f (case f x of None \<Rightarrow> d | Some v \<Rightarrow> v) xs"
  by (auto simp: last_of_def List.map_filter_simps split: option.splits)

lemma flags_of_Cons: "flags_of (x # xs) = qp_flags (apply_arg x (q\<lparr>qp_flags := 0\<rparr>)) OR flags_of xs"
  by (cases x) (auto simp: flags_of_def)

lemma flags_apply: "qp_flags (apply_arg x q) = qp_flags q OR qp_flags (apply_arg x (q\<lparr>qp_flags := 0\<rparr>))"
  by (cases x) auto

lemma fold_apply_arg:
  "fold apply_arg xs q = \<lparr>qp_sflags = qp_sflags q, qp_flags = qp_flags q OR flags_of xs, qp_ringsz = ringsz_of (qp_ringsz q) xs,
     qp_bufsz = bufsz_of (qp_bufsz q) xs, qp_idx = idx_of (qp_idx q) xs,
     qp_range_start = fst (range_of (qp_range_start q, qp_range_end q) xs),
     qp_range_end = snd (range_of (qp_range_start q, qp_range_end q) xs), qp_entry_size = wrbsz_of (qp_entry_size q) xs\<rparr>"
proof (induction xs arbitrary: q)
  case Nil
  show ?case
    by (simp add: flags_of_def ringsz_of_def bufsz_of_def idx_of_def range_of_def wrbsz_of_def)
next
  case (Cons x xs)
  have "qp_flags (apply_arg x q) OR flags_of xs = qp_flags q OR flags_of (x # xs)"
    using flags_of_Cons [of x xs q] flags_apply [of x q] by (simp add: or.assoc)
  then show ?case
    using Cons by (cases x) (simp_all add: ringsz_of_def bufsz_of_def idx_of_def range_of_def wrbsz_of_def)
qed

text \<open>Which kinds of parameters were given.\<close>

lemma qparm_bit_disjoint: "qparm_bit s AND qparm_bit t = (if s = t then qparm_bit t else 0)"
  by (cases s; cases t) simp_all

lemma qparm_bit_nonzero: "qparm_bit t \<noteq> 0"
  by (cases t) simp_all

lemma arg_bits_and: "arg_bits xs AND qparm_bit t = (if t \<in> arg_type ` set xs then qparm_bit t else 0)"
proof (induction xs)
  case (Cons x xs)
  have "arg_bits (x # xs) = qparm_bit (arg_type x) OR arg_bits xs"
    using fold_arg_bits [of xs "qparm_bit (arg_type x)"] by (simp add: arg_bits_def)
  then show ?case
    using Cons by (auto simp: bit.conj_disj_distrib2 qparm_bit_disjoint)
qed (simp add: arg_bits_def)

lemma and_or_mask: "x AND (a OR b) = a OR b \<longleftrightarrow> x AND a = a \<and> x AND b = b" for x a b :: u32
proof
  assume *: "x AND (a OR b) = a OR b"
  have "x AND (a OR b) AND a = (a OR b) AND a" "x AND (a OR b) AND b = (a OR b) AND b"
    using arg_cong [OF *, of "\<lambda>w. w AND a"] arg_cong [OF *, of "\<lambda>w. w AND b"] by (simp_all add: and.assoc)
  moreover have "(a OR b) AND a = a" "(a OR b) AND b = b"
    by (rule bit_word_eqI; auto simp: bit_simps)+
  ultimately show "x AND a = a \<and> x AND b = b"
    by simp
qed (simp add: bit.conj_disj_distrib)

section \<open>A whole command about a queue\<close>

definition q_verbs :: "(string \<times> xnl_op_t) list" where
  "q_verbs = [(''add'', XNL_CMD_Q_ADD), (''start'', XNL_CMD_Q_START), (''stop'', XNL_CMD_Q_STOP), (''del'', XNL_CMD_Q_DEL),
     (''dump'', XNL_CMD_Q_DUMP)]"

definition dev_arg :: "bool \<Rightarrow> nat \<Rightarrow> string" where
  "dev_arg vf n = (if vf then ''qdmavf'' else ''qdma'') @ nat_str n"

text \<open>What makes the parameters of a command wrong.\<close>

definition q_args_bad :: "xnl_op_t \<Rightarrow> q_arg list \<Rightarrow> bool" where
  "q_args_bad op xs \<longleftrightarrow>
     op \<noteq> XNL_CMD_Q_ADD \<and> QPARM_IDX \<notin> arg_type ` set xs
     \<or> ArgMode True \<in> set xs \<and> ArgMode False \<in> set xs \<or> ArgDir True \<in> set xs \<and> ArgDir False \<in> set xs
     \<or> op = XNL_CMD_Q_DUMP \<and> QPARM_DESC \<in> arg_type ` set xs \<and> QPARM_WRB \<in> arg_type ` set xs"

definition q_parm_of :: "xnl_op_t \<Rightarrow> q_arg list \<Rightarrow> xcmd_q_parm" where
  "q_parm_of op xs =
     (let st = ArgMode True \<in> set xs; c2h = ArgDir True \<in> set xs;
          wrbsz = (op = XNL_CMD_Q_ADD \<and> st \<and> QPARM_WRBSZ \<notin> arg_type ` set xs)
      in \<lparr>qp_sflags = arg_bits xs OR 0x6 OR (if wrbsz then 0x100 else 0),
          qp_flags = (if st then XNL_F_QMODE_ST else XNL_F_QMODE_MM) OR (if c2h then XNL_F_QDIR_C2H else XNL_F_QDIR_H2C)
            OR (if ArgCdev True \<in> set xs then XNL_F_CDEV else 0),
          qp_ringsz = ringsz_of 0 xs, qp_bufsz = bufsz_of 0 xs, qp_idx = idx_of 0xFFFF xs,
          qp_range_start = fst (range_of (0, 0) xs), qp_range_end = snd (range_of (0, 0) xs),
          qp_entry_size = (if wrbsz then 3 else wrbsz_of 0 xs)\<rparr>)"

definition q_op_of :: "xnl_op_t \<Rightarrow> q_arg list \<Rightarrow> xnl_op_t" where
  "q_op_of op xs =
     (if op \<noteq> XNL_CMD_Q_DUMP then op
      else if QPARM_DESC \<in> arg_type ` set xs then XNL_CMD_Q_DESC
      else if QPARM_WRB \<in> arg_type ` set xs then XNL_CMD_Q_WRB else XNL_CMD_Q_DUMP)"

lemma given_mode: "QPARM_MODE \<in> arg_type ` set xs \<longleftrightarrow> ArgMode True \<in> set xs \<or> ArgMode False \<in> set xs"
proof
  assume "QPARM_MODE \<in> arg_type ` set xs"
  then obtain x where x: "x \<in> set xs" "QPARM_MODE = arg_type x"
    by blast
  obtain b where "x = ArgMode b"
    using x(2) by (cases rule: q_arg.exhaust [of x]) simp_all
  then show "ArgMode True \<in> set xs \<or> ArgMode False \<in> set xs"
    using x(1) by (cases b) simp_all
qed force

lemma given_dir: "QPARM_DIR \<in> arg_type ` set xs \<longleftrightarrow> ArgDir True \<in> set xs \<or> ArgDir False \<in> set xs"
proof
  assume "QPARM_DIR \<in> arg_type ` set xs"
  then obtain x where x: "x \<in> set xs" "QPARM_DIR = arg_type x"
    by blast
  obtain b where "x = ArgDir b"
    using x(2) by (cases rule: q_arg.exhaust [of x]) simp_all
  then show "ArgDir True \<in> set xs \<or> ArgDir False \<in> set xs"
    using x(1) by (cases b) simp_all
qed force

lemma dev_arg_head: "nat_str n ! 0 \<noteq> CHR ''v''"
proof -
  have "nat_str n ! 0 \<in> set (nat_str n)"
    using nat_str_nonempty [of n] by simp
  then have "isdigit (nat_str n ! 0)"
    using nat_str_decimal by blast
  then show ?thesis
    by (auto simp: isdigit_def)
qed

lemma parse_ifname_print:
  assumes "n < 256"
  shows "parse_ifname (dev_arg vf n) xcmd = Inr (xcmd\<lparr>xi_vf := vf, xi_if_idx := of_nat n\<rparr>)"
proof -
  have len: "length (nat_str n) \<le> 3"
    using assms by (intro length_nat_str) simp_all
  have digits: "list_all isdigit (nat_str n)"
    using nat_str_decimal by (auto simp: list_all_iff)
  have idx: "arg_read_int (nat_str n) = Inr (of_nat n)"
    using arg_read_nat_str [of "of_nat n"] assms by (simp add: unat_of_nat)
  have "ucast (of_nat n :: u32) = (of_nat n :: u8)"
    using assms by (simp add: word_unat_eq_iff unsigned_ucast_eq unat_of_nat take_bit_eq_mod)
  then show ?thesis
    using len digits idx dev_arg_head [of n]
    by (cases vf) (auto simp: parse_ifname_def dev_arg_def Let_def nth_append)
qed

lemmas arg_bits_tests =
  arg_bits_and [of _ QPARM_IDX, unfolded qparm_bit.simps] arg_bits_and [of _ QPARM_MODE, unfolded qparm_bit.simps]
  arg_bits_and [of _ QPARM_DIR, unfolded qparm_bit.simps] arg_bits_and [of _ QPARM_DESC, unfolded qparm_bit.simps]
  arg_bits_and [of _ QPARM_WRB, unfolded qparm_bit.simps] arg_bits_and [of _ QPARM_WRBSZ, unfolded qparm_bit.simps]

lemma or_absorb: "x OR a = x" if "x AND a = a" for x a :: u32
proof (rule bit_word_eqI)
  fix n
  have "bit (x AND a) n = bit a n"
    using that by simp
  then show "bit (x OR a) n = bit x n"
    by (auto simp: bit_simps)
qed

lemma missing_idx: "qparm_missing s 0 \<longleftrightarrow> False" "qparm_missing s 1 \<longleftrightarrow> s AND 1 \<noteq> 1"
  by (simp_all add: qparm_missing_def upt_conv_Cons)

lemma exclusive_mode:
  assumes "qp_flags q = flags_of xs"
  shows "qparm_exclusive QPARM_MODE XNL_F_QMODE_MM XNL_F_QMODE_ST (arg_bits xs) q =
    (if ArgMode True \<in> set xs \<and> ArgMode False \<in> set xs then Inl EINVAL
     else Inr (arg_bits xs OR 2, q\<lparr>qp_flags := flags_of xs OR (if ArgMode True \<in> set xs then 0 else 2)\<rparr>))"
proof -
  have absorb: "arg_bits xs OR 2 = arg_bits xs" if "QPARM_MODE \<in> arg_type ` set xs"
    using that by (simp add: or_absorb arg_bits_tests)
  have q: "q\<lparr>qp_flags := flags_of xs\<rparr> = q"
    using assms(1) by (metis xcmd_q_parm.surjective xcmd_q_parm.update_convs(2))
  show ?thesis
    using absorb q assms unfolding given_mode qparm_exclusive_def Let_def
    by (cases "ArgMode True \<in> set xs"; cases "ArgMode False \<in> set xs") (simp_all add: flags_of_def arg_bits_tests given_mode)
qed

lemma exclusive_dir:
  assumes "qp_flags q = flags_of xs OR m" and "m = 0 \<or> m = 2"
  shows "qparm_exclusive QPARM_DIR XNL_F_QDIR_H2C XNL_F_QDIR_C2H (arg_bits xs OR 2) q =
    (if ArgDir True \<in> set xs \<and> ArgDir False \<in> set xs then Inl EINVAL
     else Inr (arg_bits xs OR 6, q\<lparr>qp_flags := flags_of xs OR m OR (if ArgDir True \<in> set xs then 0 else 4)\<rparr>))"
proof -
  have six: "arg_bits xs OR 6 = (arg_bits xs OR 4) OR 2" "(arg_bits xs OR 2) OR 4 = arg_bits xs OR 6"
    by (simp_all add: or.assoc)
  have absorb: "arg_bits xs OR 2 = arg_bits xs OR 6" if "QPARM_DIR \<in> arg_type ` set xs"
    using that unfolding six(1) by (simp add: or_absorb [of _ 4] arg_bits_tests)
  have dir: "(arg_bits xs OR 2) AND 4 = arg_bits xs AND 4"
    by (simp add: bit.conj_disj_distrib2)
  have q: "q\<lparr>qp_flags := flags_of xs OR m\<rparr> = q"
    using assms(1) by (metis xcmd_q_parm.surjective xcmd_q_parm.update_convs(2))
  show ?thesis
    using absorb q assms dir six(2) unfolding given_dir qparm_exclusive_def Let_def
    by (elim disjE; cases "ArgDir True \<in> set xs"; cases "ArgDir False \<in> set xs")
       (simp_all add: flags_of_def arg_bits_tests given_dir)
qed

lemma read_qparm_print:
  "read_qparm (concat (map print_arg xs)) (xi_qparm zero_xcmd) (if op = XNL_CMD_Q_ADD then 0 else 1) =
    (if op \<noteq> XNL_CMD_Q_ADD \<and> QPARM_IDX \<notin> arg_type ` set xs \<or> ArgMode True \<in> set xs \<and> ArgMode False \<in> set xs
        \<or> ArgDir True \<in> set xs \<and> ArgDir False \<in> set xs
     then Inl EINVAL else Inr (q_parm_of XNL_CMD_Q_DUMP xs))"
proof -
  have missing: "qparm_missing (arg_bits xs) (if op = XNL_CMD_Q_ADD then 0 else 1)
      \<longleftrightarrow> op \<noteq> XNL_CMD_Q_ADD \<and> QPARM_IDX \<notin> arg_type ` set xs"
    by (simp add: missing_idx arg_bits_tests)
  have flags: "flags_of xs OR (if ArgMode True \<in> set xs then 0 else 2) OR (if ArgDir True \<in> set xs then 0 else 4) =
    qp_flags (q_parm_of XNL_CMD_Q_DUMP xs)"
    if "\<not> (ArgMode True \<in> set xs \<and> ArgMode False \<in> set xs)" "\<not> (ArgDir True \<in> set xs \<and> ArgDir False \<in> set xs)"
    using that by (auto simp: flags_of_def q_parm_of_def Let_def)
  show ?thesis
    by (simp add: read_qparm_def loop_print missing exclusive_mode exclusive_dir fold_apply_arg zero_xcmd_def flags
          del: XNL_F_QMODE_MM_def XNL_F_QMODE_ST_def XNL_F_QDIR_H2C_def XNL_F_QDIR_C2H_def)
       (simp add: q_parm_of_def)
qed

lemma parms_print:
  assumes "xi_qparm xcmd = xi_qparm zero_xcmd" and "xs \<noteq> []"
  shows "parse_q_parms op' (if op = XNL_CMD_Q_ADD then 0 else 1) (verb # concat (map print_arg xs)) xcmd =
    (if op \<noteq> XNL_CMD_Q_ADD \<and> QPARM_IDX \<notin> arg_type ` set xs \<or> ArgMode True \<in> set xs \<and> ArgMode False \<in> set xs
        \<or> ArgDir True \<in> set xs \<and> ArgDir False \<in> set xs
     then Inl EINVAL else Inr (xcmd\<lparr>xi_op := op', xi_qparm := q_parm_of XNL_CMD_Q_DUMP xs\<rparr>))"
proof -
  obtain a r where ar: "concat (map print_arg xs) = a # r"
    using assms(2) by (cases xs; cases "hd xs") auto
  show ?thesis
    using read_qparm_print [of xs op] assms(1) unfolding parse_q_parms_def ar
    by (simp add: get_next_arg_def)
qed

lemma defaults_print: "add_defaults (q_parm_of XNL_CMD_Q_DUMP xs) = q_parm_of XNL_CMD_Q_ADD xs"
proof -
  have "qp_flags (q_parm_of XNL_CMD_Q_DUMP xs) AND 1 \<noteq> 0 \<longleftrightarrow> ArgMode True \<in> set xs"
    by (auto simp: q_parm_of_def Let_def)
  moreover have "qp_sflags (q_parm_of XNL_CMD_Q_DUMP xs) AND 0x100 = 0 \<longleftrightarrow> QPARM_WRBSZ \<notin> arg_type ` set xs"
    by (simp add: q_parm_of_def Let_def bit.conj_disj_distrib2 arg_bits_tests)
  ultimately show ?thesis
    by (simp add: add_defaults_def) (simp add: q_parm_of_def Let_def or.assoc)
qed

lemma q_parm_of_other: "op \<noteq> XNL_CMD_Q_ADD \<Longrightarrow> op \<noteq> XNL_CMD_Q_DUMP \<Longrightarrow> q_parm_of op xs = q_parm_of XNL_CMD_Q_DUMP xs"
  by (simp add: q_parm_of_def)

lemma dump_flags:
  "qp_sflags (q_parm_of XNL_CMD_Q_DUMP xs) AND 0x40 \<noteq> 0 \<longleftrightarrow> QPARM_DESC \<in> arg_type ` set xs"
  "qp_sflags (q_parm_of XNL_CMD_Q_DUMP xs) AND 0x80 \<noteq> 0 \<longleftrightarrow> QPARM_WRB \<in> arg_type ` set xs"
  "qp_sflags (q_parm_of XNL_CMD_Q_DUMP xs) AND 0xC0 = 0xC0 \<longleftrightarrow> QPARM_DESC \<in> arg_type ` set xs \<and> QPARM_WRB \<in> arg_type ` set xs"
proof -
  have s: "qp_sflags (q_parm_of XNL_CMD_Q_DUMP xs) AND 0x40 = (if QPARM_DESC \<in> arg_type ` set xs then 0x40 else 0)"
    "qp_sflags (q_parm_of XNL_CMD_Q_DUMP xs) AND 0x80 = (if QPARM_WRB \<in> arg_type ` set xs then 0x80 else 0)"
    by (simp_all add: q_parm_of_def Let_def bit.conj_disj_distrib2 arg_bits_tests)
  show "qp_sflags (q_parm_of XNL_CMD_Q_DUMP xs) AND 0x40 \<noteq> 0 \<longleftrightarrow> QPARM_DESC \<in> arg_type ` set xs"
    "qp_sflags (q_parm_of XNL_CMD_Q_DUMP xs) AND 0x80 \<noteq> 0 \<longleftrightarrow> QPARM_WRB \<in> arg_type ` set xs"
    by (simp_all add: s)
  show "qp_sflags (q_parm_of XNL_CMD_Q_DUMP xs) AND 0xC0 = 0xC0 \<longleftrightarrow> QPARM_DESC \<in> arg_type ` set xs \<and> QPARM_WRB \<in> arg_type ` set xs"
    using and_or_mask [where x = "qp_sflags (q_parm_of XNL_CMD_Q_DUMP xs)" and a = "0x40" and b = "0x80"] by (simp add: s)
qed

lemma parse_q_cmd_print:
  assumes "xi_qparm xcmd = xi_qparm zero_xcmd" and "xs \<noteq> []" and "(verb, op) \<in> set q_verbs"
  shows "parse_q_cmd junk argv (verb # concat (map print_arg xs)) xcmd =
    (if q_args_bad op xs then Inl EINVAL else Inr (xcmd\<lparr>xi_op := q_op_of op xs, xi_qparm := q_parm_of op xs\<rparr>, []))"
proof -
  note parms = parms_print [OF assms(1,2), of _ XNL_CMD_Q_ADD, simplified if_True if_False simp_thms]
    parms_print [OF assms(1,2), of _ XNL_CMD_Q_DUMP, simplified]
  consider "verb = ''add''" "op = XNL_CMD_Q_ADD" | "verb = ''start''" "op = XNL_CMD_Q_START" | "verb = ''stop''" "op = XNL_CMD_Q_STOP"
    | "verb = ''del''" "op = XNL_CMD_Q_DEL" | "verb = ''dump''" "op = XNL_CMD_Q_DUMP"
    using assms(3) by (auto simp: q_verbs_def)
  then show ?thesis
  proof cases
    case 1
    then show ?thesis
      by (simp add: parse_q_cmd_def parms defaults_print q_args_bad_def q_op_of_def)
  next
    case 5
    then show ?thesis
      by (simp add: parse_q_cmd_def parms Let_def dump_flags q_args_bad_def q_op_of_def)
  qed (simp_all add: parse_q_cmd_def parms q_args_bad_def q_op_of_def q_parm_of_other)
qed

lemma q_cmd_reads:
  assumes "n < 256" and "(verb, op) \<in> set q_verbs" and "xs \<noteq> []"
  shows "parse_cmd junk (p # dev_arg vf n # ''q'' # verb # concat (map print_arg xs)) =
    Returns (if q_args_bad op xs then Inl EINVAL
             else Inr (zero_xcmd\<lparr>xi_vf := vf, xi_if_idx := of_nat n, xi_op := q_op_of op xs, xi_qparm := q_parm_of op xs\<rparr>))"
proof -
  have "dev_arg vf n \<noteq> ''dev''"
    by (simp add: dev_arg_def)
  then show ?thesis
    using assms
    by (simp add: parse_cmd_args parse_args_def parse_ifname_print parse_q_cmd_print parse_done_def)
qed

text \<open>
  C14: A command about a queue is read as it was typed. Type any parameters, in any order and any
  number, after \<open>add\<close>, \<open>start\<close>, \<open>stop\<close>, \<open>del\<close> or \<open>dump\<close>: the parser returns exactly what they say. The command is
  refused when the index is missing (except for \<open>add\<close>), when both modes or both directions are
  given, or when a dump asks for both rings. Otherwise of each kind of parameter the last value
  counts; mode and direction default to memory-mapped and to the card; a streaming queue gets completion
  entries of kind 3 unless a size was given; a dump turns into a dump of the ring asked for. What
  the uninitialised variable holds does not matter.
\<close>

theorem q_cmd_print_parse:
  assumes "n < 256" and "(verb, op) \<in> set q_verbs" and "xs \<noteq> []"
  shows "parse_cmd junk (p # dev_arg vf n # ''q'' # verb # concat (map print_arg xs)) =
    Returns (if q_args_bad op xs then Inl EINVAL
             else Inr (zero_xcmd\<lparr>xi_vf := vf, xi_if_idx := of_nat n, xi_op := q_op_of op xs, xi_qparm := q_parm_of op xs\<rparr>))"
  by (rule q_cmd_reads [OF assms])

section \<open>Register commands\<close>

lemma num_no_bar: "num v \<noteq> ''bar''"
proof
  assume "num v = ''bar''"
  then have "CHR ''b'' \<in> set (nat_str (unat v))"
    by (simp add: num_def)
  then show False
    using nat_str_decimal by (fastforce simp: isdigit_def)
qed

definition print_bar :: "u32 option \<Rightarrow> string list" where
  "print_bar b = (case b of None \<Rightarrow> [] | Some v \<Rightarrow> [''bar'', num v])"

lemma reg_addr_print:
  "reg_addr (verb # print_bar b @ num a # r) regcmd =
     Inr (regcmd\<lparr>xr_bar := (case b of None \<Rightarrow> xr_bar regcmd | Some v \<Rightarrow> v),
       xr_sflags := (if b = None then xr_sflags regcmd else xr_sflags regcmd OR 1) OR 2, xr_reg := a\<rparr>, r)"
  using num_no_bar [of a]
  by (cases b) (simp_all add: reg_addr_def print_bar_def get_next_arg_def next_arg_read_int_def num_def)

text \<open>A register command is read as it was typed: address, value and, when given, the bar.\<close>

lemma reg_cmd_print_parse:
  assumes "n < 256"
  shows "parse_cmd junk (p # dev_arg vf n # ''reg'' # ''read'' # print_bar b @ [num a]) =
      Returns (Inr (zero_xcmd\<lparr>xi_vf := vf, xi_if_idx := of_nat n, xi_op := XNL_CMD_REG_RD,
        xi_reg := \<lparr>xr_sflags = (if b = None then 2 else 3), xr_bar = (case b of None \<Rightarrow> 0 | Some v \<Rightarrow> v), xr_reg = a, xr_val = 0\<rparr>\<rparr>))"
    and "parse_cmd junk (p # dev_arg vf n # ''reg'' # ''write'' # print_bar b @ [num a, num v]) =
      Returns (Inr (zero_xcmd\<lparr>xi_vf := vf, xi_if_idx := of_nat n, xi_op := XNL_CMD_REG_WRT,
        xi_reg := \<lparr>xr_sflags = (if b = None then 6 else 7), xr_bar = (case b of None \<Rightarrow> 0 | Some v \<Rightarrow> v), xr_reg = a, xr_val = v\<rparr>\<rparr>))"
proof -
  have dev: "dev_arg vf n \<noteq> ''dev''"
    by (simp add: dev_arg_def)
  have ra: "reg_addr (w # print_bar b @ [num a]) \<lparr>xr_sflags = 0, xr_bar = 0, xr_reg = 0, xr_val = 0\<rparr> =
      Inr (\<lparr>xr_sflags = (if b = None then 2 else 3), xr_bar = (case b of None \<Rightarrow> 0 | Some v \<Rightarrow> v), xr_reg = a, xr_val = 0\<rparr>, [])"
    and wa: "reg_addr (w # print_bar b @ [num a, num v]) \<lparr>xr_sflags = 0, xr_bar = 0, xr_reg = 0, xr_val = 0\<rparr> =
      Inr (\<lparr>xr_sflags = (if b = None then 2 else 3), xr_bar = (case b of None \<Rightarrow> 0 | Some v \<Rightarrow> v), xr_reg = a, xr_val = 0\<rparr>, [num v])" for w
    by (cases b; simp add: reg_addr_print)+
  have num: "arg_read_int (num v) = Inr v"
    by (simp add: num_def)
  show "parse_cmd junk (p # dev_arg vf n # ''reg'' # ''read'' # print_bar b @ [num a]) =
      Returns (Inr (zero_xcmd\<lparr>xi_vf := vf, xi_if_idx := of_nat n, xi_op := XNL_CMD_REG_RD,
        xi_reg := \<lparr>xr_sflags = (if b = None then 2 else 3), xr_bar = (case b of None \<Rightarrow> 0 | Some v \<Rightarrow> v), xr_reg = a, xr_val = 0\<rparr>\<rparr>))"
    using assms dev by (simp add: parse_cmd_args parse_args_def parse_ifname_print parse_reg_cmd_def ra Let_def parse_done_def)
  show "parse_cmd junk (p # dev_arg vf n # ''reg'' # ''write'' # print_bar b @ [num a, num v]) =
      Returns (Inr (zero_xcmd\<lparr>xi_vf := vf, xi_if_idx := of_nat n, xi_op := XNL_CMD_REG_WRT,
        xi_reg := \<lparr>xr_sflags = (if b = None then 6 else 7), xr_bar = (case b of None \<Rightarrow> 0 | Some v \<Rightarrow> v), xr_reg = a, xr_val = v\<rparr>\<rparr>))"
    using assms dev by (simp add: parse_cmd_args parse_args_def parse_ifname_print parse_reg_cmd_def wa num Let_def parse_done_def)
qed

section \<open>Witnesses\<close>

lemma parse_cmd_faults_witness:
  "parse_cmd 0 [''dmactl'', ''qdma0'', ''q''] = Returns (Inl OOPS)"
proof -
  have "\<not> isl (parse_ifname ''qdma0'' zero_xcmd)"
    by code_simp
  then show ?thesis
    by (subst parse_cmd_faults) auto
qed

lemma q_cmd_print_parse_witness:
  "parse_cmd 0 (''dmactl'' # dev_arg False 2 # ''q'' # ''add'' # concat (map print_arg [ArgIdx 5, ArgMode True, ArgDir True])) =
    Returns (Inr (zero_xcmd\<lparr>xi_vf := False, xi_if_idx := 2, xi_op := XNL_CMD_Q_ADD,
      xi_qparm := q_parm_of XNL_CMD_Q_ADD [ArgIdx 5, ArgMode True, ArgDir True]\<rparr>))"
  by (subst q_cmd_print_parse [where op = XNL_CMD_Q_ADD]) (simp_all add: q_verbs_def q_args_bad_def q_op_of_def)

end
