(* ===== verification/Qdma_Cli_Regs.thy ===== *)
theory Qdma_Cli_Regs
  imports Qdma_Cli_Parse
begin

text \<open>
  Register commands of the user program (\<open>user/cli/regs.c\<close>, \<open>user/cli/reg_defs_qdma.c\<close>): it maps a bar
  of the device through the file system and reads, writes or prints registers.

  Opening, mapping and the accesses are the record \<open>bar_if\<close> on a state \<open>'k\<close>. A mapping covers whole
  pages; an access behind them is a fault. \<open>err\<close> ends the program with status 1. The host is
  little-endian, so \<open>le32toh\<close> and \<open>htole32\<close> change nothing. What the program prints is a list of
  texts.
\<close>

section \<open>Mapping a bar\<close>

record 'k bar_if =
  bi_open :: "string \<Rightarrow> bool \<Rightarrow> 'k \<Rightarrow> int \<times> 'k"
  bi_mmap :: "int \<Rightarrow> u32 \<Rightarrow> bool \<Rightarrow> 'k \<Rightarrow> bool \<times> 'k"
  bi_close :: "int \<Rightarrow> 'k \<Rightarrow> 'k"
  bi_munmap :: "u32 \<Rightarrow> 'k \<Rightarrow> 'k"
  bi_load :: "string \<Rightarrow> nat \<Rightarrow> 'k \<Rightarrow> u32 \<times> 'k"
  bi_store :: "string \<Rightarrow> nat \<Rightarrow> u32 \<Rightarrow> 'k \<Rightarrow> 'k"

record xdev_info =
  xd_bus :: u8
  xd_dev :: u8
  xd_func :: u8
  xd_config_bar :: u8
  xd_user_bar :: u8

definition get_syspath_bar_mmap :: "xdev_info \<Rightarrow> u8 \<Rightarrow> string" where
  "get_syspath_bar_mmap xdev bar =
     ''/sys/bus/pci/devices/0000:'' @ hex_pad 2 (unat (xd_bus xdev)) @ '':'' @ hex_pad 2 (unat (xd_dev xdev)) @ ''.''
     @ hex_str (unat (xd_func xdev)) @ ''/resource'' @ nat_str (unat bar)"

definition mmap_bar :: "'k bar_if \<Rightarrow> string \<Rightarrow> u32 \<Rightarrow> bool \<Rightarrow> 'k \<Rightarrow> bool \<times> 'k" where
  "mmap_bar B fname len wr k =
     (case bi_open B fname wr k of
        (fd, k) \<Rightarrow>
          if fd < 0 then (False, k)
          else case bi_mmap B fd len wr k of (ok, k) \<Rightarrow> (ok, bi_close B fd k))"

text \<open>The word with index \<open>i\<close> lies in the pages of a mapping of \<open>len\<close> bytes.\<close>

definition in_map :: "u32 \<Rightarrow> nat \<Rightarrow> bool" where
  "in_map len i \<longleftrightarrow> 4 * i + 4 \<le> (unat len + 4095) div 4096 * 4096"

section \<open>Reading and writing one register\<close>

definition reg_read_mmap :: "'k bar_if \<Rightarrow> xdev_info \<Rightarrow> u8 \<Rightarrow> u32 \<Rightarrow> 'k \<Rightarrow> u32 res outcome \<times> 'k" where
  "reg_read_mmap B xdev barno addr k =
     (let fname = get_syspath_bar_mmap xdev barno
      in case mmap_bar B fname (addr + 4) False k of
           (False, k) \<Rightarrow> (Exits 1, k)
         | (True, k) \<Rightarrow>
             if \<not> in_map (addr + 4) (unat (addr div 4)) then (Returns (Inl OOPS), k)
             else case bi_load B fname (unat (addr div 4)) k of
                    (val, k) \<Rightarrow> (Returns (Inr val), bi_munmap B (addr + 4) k))"

definition reg_write_mmap :: "'k bar_if \<Rightarrow> xdev_info \<Rightarrow> u8 \<Rightarrow> u32 \<Rightarrow> u32 \<Rightarrow> 'k \<Rightarrow> unit res outcome \<times> 'k" where
  "reg_write_mmap B xdev barno addr val k =
     (let fname = get_syspath_bar_mmap xdev barno
      in case mmap_bar B fname (addr + 4) True k of
           (False, k) \<Rightarrow> (Exits 1, k)
         | (True, k) \<Rightarrow>
             if \<not> in_map (addr + 4) (unat (addr div 4)) then (Returns (Inl OOPS), k)
             else (Returns (Inr ()), bi_munmap B (addr + 4) (bi_store B fname (unat (addr div 4)) val k)))"

section \<open>Printing the registers\<close>

record xreg_info =
  xreg_name :: string
  xreg_addr :: u32
  xreg_repeat :: u32
  xreg_step :: u32
  xreg_shift :: u8
  xreg_len :: u8

definition xreg :: "string \<Rightarrow> u32 \<Rightarrow> u32 \<Rightarrow> u32 \<Rightarrow> u8 \<Rightarrow> u8 \<Rightarrow> xreg_info" where
  "xreg name addr n step shift l =
     \<lparr>xreg_name = name, xreg_addr = addr, xreg_repeat = n, xreg_step = step, xreg_shift = shift, xreg_len = l\<rparr>"

text \<open>\<open>%#x\<close>, and texts filled up with blanks on the left and on the right.\<close>

definition alt_hex :: "nat \<Rightarrow> string" where
  "alt_hex n = (if n = 0 then ''0'' else ''0x'' @ hex_str n)"

definition pad_left :: "nat \<Rightarrow> string \<Rightarrow> string" where
  "pad_left n s = replicate (n - length s) (CHR '' '') @ s"

definition pad_right :: "nat \<Rightarrow> string \<Rightarrow> string" where
  "pad_right n s = s @ replicate (n - length s) (CHR '' '')"

definition reg_line :: "u32 \<Rightarrow> string \<Rightarrow> u32 \<Rightarrow> string" where
  "reg_line addr name val =
     ''['' @ pad_left 7 (alt_hex (unat addr)) @ ''] '' @ pad_right 47 name @ '' '' @ pad_right 10 (alt_hex (unat val)) @ '' ''
     @ nat_str (unat val) @ EOL"

definition field_line :: "xreg_info \<Rightarrow> u32 \<Rightarrow> string" where
  "field_line x val =
     (let v = drop_bit (unat (xreg_shift x)) val AND (push_bit (unat (xreg_len x)) 1 - 1)
      in ''    '' @ pad_left (if xreg_shift x < 10 then 3 else 2) (nat_str (unat (xreg_shift x) + unat (xreg_len x) - 1)) @ '':''
         @ nat_str (unat (xreg_shift x)) @ '' '' @ pad_right 47 (xreg_name x) @ '' '' @ pad_right 10 (alt_hex (unat v)) @ '' ''
         @ nat_str (unat v) @ EOL)"

definition reg_at :: "'k bar_if \<Rightarrow> string \<Rightarrow> u32 \<Rightarrow> u32 \<Rightarrow> 'k \<Rightarrow> u32 res \<times> 'k" where
  "reg_at B fname len addr k =
     (if in_map len (unat (addr div 4)) then map_prod Inr id (bi_load B fname (unat (addr div 4)) k) else (Inl OOPS, k))"

primrec dump_repeat ::
  "'k bar_if \<Rightarrow> string \<Rightarrow> u32 \<Rightarrow> string \<Rightarrow> u32 \<Rightarrow> nat \<Rightarrow> nat \<Rightarrow> u32 \<Rightarrow> 'k \<Rightarrow> string list res \<times> 'k" where
  "dump_repeat B fname len name step i 0 addr k = (Inr [], k)"
| "dump_repeat B fname len name step i (Suc n) addr k =
     (case reg_at B fname len addr k of
        (Inl err, k) \<Rightarrow> (Inl err, k)
      | (Inr val, k) \<Rightarrow>
          (case dump_repeat B fname len name step (Suc i) n (addr + step) k of
             (Inl err, k) \<Rightarrow> (Inl err, k)
           | (Inr t, k) \<Rightarrow> (Inr (reg_line addr (name @ ''_'' @ nat_str i) val # t), k)))"

definition dump_xreg :: "'k bar_if \<Rightarrow> string \<Rightarrow> u32 \<Rightarrow> xreg_info \<Rightarrow> 'k \<Rightarrow> string list res \<times> 'k" where
  "dump_xreg B fname len x k =
     (if xreg_len x = 0 \<and> xreg_repeat x \<noteq> 0
      then dump_repeat B fname len (xreg_name x) (if xreg_step x \<noteq> 0 then xreg_step x else 4) 0 (nat (sint (xreg_repeat x)))
             (xreg_addr x) k
      else case reg_at B fname len (xreg_addr x) k of
             (Inl err, k) \<Rightarrow> (Inl err, k)
           | (Inr val, k) \<Rightarrow>
               (Inr [if xreg_len x = 0 then reg_line (xreg_addr x) (xreg_name x) val else field_line x val], k))"

text \<open>The table ends at an entry without a name.\<close>

fun dump_xregs :: "'k bar_if \<Rightarrow> string \<Rightarrow> u32 \<Rightarrow> xreg_info list \<Rightarrow> 'k \<Rightarrow> string list res \<times> 'k" where
  "dump_xregs B fname len [] k = (Inl OOPS, k)"
| "dump_xregs B fname len (x # xs) k =
     (if xreg_name x = [] then (Inr [], k)
      else case dump_xreg B fname len x k of
             (Inl err, k) \<Rightarrow> (Inl err, k)
           | (Inr t, k) \<Rightarrow>
               (case dump_xregs B fname len xs k of (Inl err, k) \<Rightarrow> (Inl err, k) | (Inr t', k) \<Rightarrow> (Inr (t @ t'), k)))"

definition reg_dump_mmap ::
  "'k bar_if \<Rightarrow> xdev_info \<Rightarrow> u8 \<Rightarrow> xreg_info list \<Rightarrow> u32 \<Rightarrow> 'k \<Rightarrow> string list res outcome \<times> 'k" where
  "reg_dump_mmap B xdev barno xreg_list len k =
     (let fname = get_syspath_bar_mmap xdev barno
      in case mmap_bar B fname len False k of
           (False, k) \<Rightarrow> (Exits 1, k)
         | (True, k) \<Rightarrow>
             (case dump_xregs B fname len xreg_list k of
                (Inl err, k) \<Rightarrow> (Returns (Inl err), k)
              | (Inr t, k) \<Rightarrow> (Returns (Inr t), bi_munmap B len k)))"

section \<open>The tables (reg_defs_qdma.c)\<close>

definition qdma_config_bar_max_addr :: u32 where
  "qdma_config_bar_max_addr = 0xB400"

definition qdma_config_regs :: "xreg_info list" where
  "qdma_config_regs =
    [xreg ''GLBL_RNGSZ'' 0x204 16 0 0 0,
     xreg ''GLBL_SCRATCH'' 0x244 0 0 0 0,
     xreg ''GLBL_ERR_STAT'' 0x248 0 0 0 0,
     xreg ''GLBL_ERR_MASK'' 0x24C 0 0 0 0,
     xreg ''GLBL_WB_ACC'' 0x250 0 0 0 0,
     xreg ''GLBL_DSC_ERR_STS'' 0x254 0 0 0 0,
     xreg ''GLBL_DSC_ERR_MSK'' 0x258 0 0 0 0,
     xreg ''GLBL_DSC_ERR_LOG'' 0x25C 0 0 0 0,
     xreg ''GLBL_TRQ_ERR_STS'' 0x260 0 0 0 0,
     xreg ''GLBL_TRQ_ERR_MSK'' 0x264 0 0 0 0,
     xreg ''GLBL_TRQ_ERR_LOG'' 0x268 0 0 0 0,
     xreg ''TRQ_SEL_FMAP'' 0x400 2 0 0 0,
     xreg ''IND_CTXT_DATA'' 0x804 4 0 0 0,
     xreg ''IND_CTXT_MASK'' 0x814 4 0 0 0,
     xreg ''IND_CTXT_CMD'' 0x824 0 0 0 0,
     xreg ''IND_CAUSE'' 0x828 0 0 0 0,
     xreg ''IND_ENABLE'' 0x82C 0 0 0 0,
     xreg ''C2H_TIMER_CNT'' 0xA00 16 0 0 0,
     xreg ''C2H_CNT_THRESH'' 0xA40 16 0 0 0,
     xreg ''C2H_QID2VEC_MAP_QID'' 0xA80 0 0 0 0,
     xreg ''C2H_QID2VEC_MAP'' 0xA84 0 0 0 0,
     xreg ''C2H_STAT_S_AXIS_C2H_ACCEPTED'' 0xA88 0 0 0 0,
     xreg ''C2H_STAT_S_AXIS_WRB_ACCEPTED'' 0xA8C 0 0 0 0,
     xreg ''C2H_STAT_DESC_RSP_PKT_ACCEPTED'' 0xA90 0 0 0 0,
     xreg ''C2H_STAT_AXIS_PKG_CMP'' 0xA94 0 0 0 0,
     xreg ''C2H_STAT_DESC_RSP_ACCEPTED'' 0xA98 0 0 0 0,
     xreg ''C2H_STAT_DESC_RSP_CMP'' 0xA9C 0 0 0 0,
     xreg ''C2H_STAT_WRQ_OUT'' 0xAA0 0 0 0 0,
     xreg ''C2H_STAT_WPL_REN_ACCEPTED'' 0xAA4 0 0 0 0,
     xreg ''C2H_STAT_TOTAL_WRQ_LEN'' 0xAA8 0 0 0 0,
     xreg ''C2H_STAT_TOTAL_WPL_LEN'' 0xAAC 0 0 0 0,
     xreg ''C2H_BUF_SZ'' 0xAB0 16 0 0 0,
     xreg ''C2H_ERR_STAT'' 0xAF0 0 0 0 0,
     xreg ''C2H_ERR_MASK'' 0xAF4 0 0 0 0,
     xreg ''C2H_FATAL_ERR_STAT'' 0xAF8 0 0 0 0,
     xreg ''C2H_FATAL_ERR_MASK'' 0xAFC 0 0 0 0,
     xreg ''C2H_FATAL_ERR_ENABLE'' 0xB00 0 0 0 0,
     xreg ''C2H_ERR_INT'' 0xB04 0 0 0 0,
     xreg ''C2H_PFCH_CFG'' 0xB08 0 0 0 0,
     xreg ''C2H_INT_TIMER_TICK'' 0xB0C 0 0 0 0,
     xreg ''C2H_STAT_DESC_RSP_DROP_ACCEPTED'' 0xB10 0 0 0 0,
     xreg ''C2H_STAT_DESC_RSP_ERR_ACCEPTED'' 0xB14 0 0 0 0,
     xreg ''C2H_STAT_DESC_REQ'' 0xB18 0 0 0 0,
     xreg ''C2H_STAT_DEBUG_DMA_ENG_0'' 0xB1C 0 0 0 0,
     xreg ''C2H_STAT_DEBUG_DMA_ENG_1'' 0xB20 0 0 0 0,
     xreg ''C2H_STAT_DEBUG_DMA_ENG_2'' 0xB24 0 0 0 0,
     xreg ''C2H_STAT_DEBUG_DMA_ENG_3'' 0xB28 0 0 0 0,
     xreg ''C2H_DBG_PFCH_ERR_CTXT'' 0xB2C 0 0 0 0,
     xreg ''C2H_FIRST_ERR_QID'' 0xB30 0 0 0 0,
     xreg ''C2H_MM0_CONTROL'' 0x1004 0 0 0 0,
     xreg ''C2H_MM1_CONTROL'' 0x1104 0 0 0 0,
     xreg ''H2C_MM0_CONTROL'' 0x1204 0 0 0 0,
     xreg ''H2C_MM1_CONTROL'' 0x1304 0 0 0 0,
     xreg ''DMAP_SEL_INT_CIDX'' 0x6400 64 0x10 0 0,
     xreg ''DMAP_SEL_H2C_DSC_PIDX'' 0x6404 64 0x10 0 0,
     xreg ''DMAP_SEL_C2H_DSC_PIDX'' 0x6408 64 0x10 0 0,
     xreg ''DMAP_SEL_WRB_CIDX'' 0x640C 64 0x10 0 0,
     xreg [] 0 0 0 0 0]"

definition qdma_user_max_addr :: u32 where
  "qdma_user_max_addr = 0x24"

definition qdma_user_regs :: "xreg_info list" where
  "qdma_user_regs =
    [xreg ''ST_C2H_QID'' 0x0 0 0 0 0,
     xreg ''ST_C2H_PKTLEN'' 0x4 0 0 0 0,
     xreg ''ST_C2H_CONTROL'' 0x8 0 0 0 0,
     xreg ''ST_H2C_CONTROL'' 0xC 0 0 0 0,
     xreg ''ST_H2C_QID_MATCH'' 0x10 0 0 0 0,
     xreg ''ST_H2C_XFER_CNT'' 0x14 0 0 0 0,
     xreg ''ST_C2H_PKT_CNT'' 0x20 0 0 0 0,
     xreg ''ST_C2H_WRB_DATA'' 0x30 8 0 0 0,
     xreg ''ST_C2H_WRB_TYPE'' 0x50 0 0 0 0,
     xreg ''ST_SCRATCH_PAD'' 0x60 2 0 0 0,
     xreg [] 0 0 0 0 0]"

section \<open>The command\<close>

definition reg_text :: "xcmd_info \<Rightarrow> xdev_info \<Rightarrow> u32 \<Rightarrow> string" where
  "reg_text xcmd xdev barno =
     ''qdma'' @ nat_str (unat (xi_if_idx xcmd)) @ '', '' @ hex_pad 2 (unat (xd_bus xdev)) @ '':'' @ hex_pad 2 (unat (xd_dev xdev)) @ ''.''
     @ hex_pad 2 (unat (xd_func xdev)) @ '', bar#'' @ nat_str (unat barno)"

definition dump_title :: "xcmd_info \<Rightarrow> xdev_info \<Rightarrow> string list" where
  "dump_title xcmd xdev =
     (let line = replicate 80 (CHR ''#'') @ EOL
      in [line, ''###'' @ TAB @ TAB @ ''qdma'' @ nat_str (unat (xi_if_idx xcmd)) @ '', pci '' @ hex_pad 2 (unat (xd_bus xdev)) @ '':''
           @ hex_pad 2 (unat (xd_dev xdev)) @ ''.'' @ hex_pad 2 (unat (xd_func xdev)) @ '', reg dump'' @ EOL, line])"

definition reg_proc_dump :: "'k bar_if \<Rightarrow> xcmd_info \<Rightarrow> xdev_info \<Rightarrow> 'k \<Rightarrow> string list res outcome \<times> 'k" where
  "reg_proc_dump B xcmd xdev k =
     (case reg_dump_mmap B xdev (xd_user_bar xdev) qdma_user_regs qdma_user_max_addr k of
        (Exits n, k) \<Rightarrow> (Exits n, k)
      | (Returns (Inl err), k) \<Rightarrow> (Returns (Inl err), k)
      | (Returns (Inr t), k) \<Rightarrow>
          (case reg_dump_mmap B xdev (xd_config_bar xdev) qdma_config_regs qdma_config_bar_max_addr k of
             (Exits n, k) \<Rightarrow> (Exits n, k)
           | (Returns (Inl err), k) \<Rightarrow> (Returns (Inl err), k)
           | (Returns (Inr t'), k) \<Rightarrow>
               (Returns (Inr (dump_title xcmd xdev @ [EOL @ ''USER BAR #'' @ nat_str (unat (xd_user_bar xdev)) @ EOL] @ t
                  @ [EOL @ ''CONFIG BAR #'' @ nat_str (unat (xd_config_bar xdev)) @ EOL] @ t')), k)))"

text \<open>The bar is printed as it was typed, but passed on as an \<open>unsigned char\<close>.\<close>

definition reg_proc_rd :: "'k bar_if \<Rightarrow> xcmd_info \<Rightarrow> xdev_info \<Rightarrow> u32 \<Rightarrow> 'k \<Rightarrow> string list res outcome \<times> 'k" where
  "reg_proc_rd B xcmd xdev barno k =
     (let regcmd = xi_reg xcmd
      in case reg_read_mmap B xdev (ucast barno) (xr_reg regcmd) k of
           (Exits n, k) \<Rightarrow> (Exits n, k)
         | (Returns (Inl err), k) \<Rightarrow> (Returns (Inl err), k)
         | (Returns (Inr v), k) \<Rightarrow>
             (Returns (Inr [reg_text xcmd xdev barno @ '', 0x'' @ hex_str (unat (xr_reg regcmd)) @ '' = 0x'' @ hex_str (unat v)
                @ ''.'' @ EOL]), k))"

definition reg_proc_wrt :: "'k bar_if \<Rightarrow> xcmd_info \<Rightarrow> xdev_info \<Rightarrow> u32 \<Rightarrow> 'k \<Rightarrow> string list res outcome \<times> 'k" where
  "reg_proc_wrt B xcmd xdev barno k =
     (let regcmd = xi_reg xcmd
      in case reg_write_mmap B xdev (ucast barno) (xr_reg regcmd) (xr_val regcmd) k of
           (Exits n, k) \<Rightarrow> (Exits n, k)
         | (Returns (Inl err), k) \<Rightarrow> (Returns (Inl err), k)
         | (Returns (Inr _), k) \<Rightarrow>
             (case reg_read_mmap B xdev (ucast barno) (xr_reg regcmd) k of
                (Exits n, k) \<Rightarrow> (Exits n, k)
              | (Returns (Inl err), k) \<Rightarrow> (Returns (Inl err), k)
              | (Returns (Inr v), k) \<Rightarrow>
                  (Returns (Inr [reg_text xcmd xdev barno @ '', reg 0x'' @ hex_str (unat (xr_reg regcmd)) @ '' -> 0x''
                     @ hex_str (unat (xr_val regcmd)) @ '', read back 0x'' @ hex_str (unat v) @ ''.'' @ EOL]), k)))"

definition reg_proc_cmd :: "'k bar_if \<Rightarrow> xcmd_info \<Rightarrow> 'k \<Rightarrow> string list res outcome \<times> 'k" where
  "reg_proc_cmd B xcmd k =
     (let regcmd = xi_reg xcmd; mask = 0xF8 in
      if xi_attr_mask xcmd AND mask \<noteq> mask then (Returns (Inl EINVAL), k)
      else let at = (\<lambda>i. xi_attrs xcmd ! i);
               xdev = \<lparr>xd_bus = ucast (at 3), xd_dev = ucast (at 4), xd_func = ucast (at 5), xd_config_bar = ucast (at 6),
                 xd_user_bar = ucast (at 7)\<rparr>;
               barno = (if xr_sflags regcmd AND XCMD_REG_F_BAR_SET \<noteq> 0 then xr_bar regcmd else ucast (xd_config_bar xdev))
      in case xi_op xcmd of
           XNL_CMD_REG_RD \<Rightarrow> reg_proc_rd B xcmd xdev barno k
         | XNL_CMD_REG_WRT \<Rightarrow> reg_proc_wrt B xcmd xdev barno k
         | XNL_CMD_REG_DUMP \<Rightarrow> reg_proc_dump B xcmd xdev k
         | _ \<Rightarrow> (Returns (Inr []), k))"

section \<open>Where an access faults\<close>

lemma word_in_pages: "a < l \<Longrightarrow> 4 * (a div 4) + 4 \<le> (l + 4095) div 4096 * 4096" for a l :: nat
proof -
  assume "a < l"
  moreover have "l \<le> 4096 * ((l + 4095) div 4096)"
    using mult_div_mod_eq [of 4096 "l + 4095"] mod_less_divisor [of 4096 "l + 4095"] by linarith
  ultimately have "a div 4 < 1024 * ((l + 4095) div 4096)"
    by (simp add: less_mult_imp_div_less)
  then show ?thesis
    by linarith
qed

lemma unat_word_div: "unat (a div 4) = unat a div 4" for a :: u32
  by (simp add: unat_div)

lemma in_map_less: "a < len \<Longrightarrow> in_map len (unat (a div 4))" for a len :: u32
  unfolding in_map_def unat_word_div by (rule word_in_pages) (simp add: word_less_nat_alt)

lemma in_map_page:
  fixes a :: u32
  assumes "len \<noteq> 0" and "a < 0x1000"
  shows "in_map len (unat (a div 4))"
proof -
  have "1 \<le> unat len" "unat a < 4096"
    using assms by (simp_all add: Suc_le_eq unat_gt_0 word_less_nat_alt)
  then have "1 \<le> (unat len + 4095) div 4096" "unat a div 4 < 1024"
    by linarith+
  then show ?thesis
    unfolding in_map_def unat_word_div by linarith
qed

lemma in_map_self: "in_map (addr + 4) (unat (addr div 4)) \<longleftrightarrow> addr < 0xFFFFFFFC"
proof
  assume "addr < 0xFFFFFFFC"
  then have "unat addr < 0xFFFFFFFC"
    by (simp add: word_less_nat_alt)
  then have "unat (addr + 4) = unat addr + 4"
    by (subst unat_add_lem [THEN iffD1]) simp_all
  then show "in_map (addr + 4) (unat (addr div 4))"
    by (intro in_map_less) (simp add: word_less_nat_alt)
next
  assume *: "in_map (addr + 4) (unat (addr div 4))"
  show "addr < 0xFFFFFFFC"
  proof (rule ccontr)
    assume "\<not> addr < 0xFFFFFFFC"
    then have big: "0xFFFFFFFC \<le> unat addr" "unat addr < 4294967296"
      using unsigned_less [of addr, where 'a = nat] by (simp_all add: word_less_nat_alt)
    then obtain e where "unat addr = 0xFFFFFFFC + e"
      using le_Suc_ex by blast
    then have "unat addr + 4 = 4294967296 + e" "e < 4"
      using big(2) by linarith+
    then have "unat (addr + 4) < 4"
      by (simp add: unat_word_ariths)
    then have "(unat (addr + 4) + 4095) div 4096 \<le> 1"
      by linarith
    then show False
      using * big unfolding in_map_def unat_word_div by linarith
  qed
qed

lemma reg_read_value:
  assumes "mmap_bar B (get_syspath_bar_mmap xdev barno) (addr + 4) False k = (True, k')"
  shows "fst (reg_read_mmap B xdev barno addr k) =
    Returns (if addr < 0xFFFFFFFC then Inr (fst (bi_load B (get_syspath_bar_mmap xdev barno) (unat (addr div 4)) k')) else Inl OOPS)"
  using assms by (simp add: reg_read_mmap_def in_map_self split: prod.splits)

section \<open>The printed table\<close>

text \<open>The registers an entry stands for, and the text for a bar whose words are \<open>mem\<close>.\<close>

definition xreg_expand :: "xreg_info \<Rightarrow> (u32 \<times> string) list" where
  "xreg_expand x =
     (if xreg_repeat x = 0 then [(xreg_addr x, xreg_name x)]
      else map (\<lambda>i. (xreg_addr x + of_nat i * (if xreg_step x = 0 then 4 else xreg_step x), xreg_name x @ ''_'' @ nat_str i))
             [0..<unat (xreg_repeat x)])"

definition reg_lines :: "(nat \<Rightarrow> u32) \<Rightarrow> (u32 \<times> string) list \<Rightarrow> string list" where
  "reg_lines mem = map (\<lambda>(a, name). reg_line a name (mem (unat (a div 4))))"

definition plain_xreg :: "u32 \<Rightarrow> xreg_info \<Rightarrow> bool" where
  "plain_xreg len x \<longleftrightarrow> xreg_name x \<noteq> [] \<and> xreg_len x = 0 \<and> xreg_repeat x < 0x80000000 \<and>
     list_all (\<lambda>(a, name). in_map len (unat (a div 4))) (xreg_expand x)"

lemma dump_repeat_lines:
  assumes "\<And>i k. bi_load B fname i k = (mem i, k)"
    and "list_all (\<lambda>i. in_map len (unat ((addr + of_nat i * step) div 4))) [0..<n]"
  shows "dump_repeat B fname len name step j n addr k =
    (Inr (reg_lines mem (map (\<lambda>i. (addr + of_nat i * step, name @ ''_'' @ nat_str (j + i))) [0..<n])), k)"
  using assms(2)
proof (induction n arbitrary: addr j)
  case (Suc n)
  have "in_map len (unat ((addr + of_nat (Suc i) * step) div 4))" if "i < n" for i
    using Suc.prems that unfolding list_all_iff set_upt by (meson Suc_less_eq atLeastLessThan_iff zero_le)
  then have "list_all (\<lambda>i. in_map len (unat ((addr + step + of_nat i * step) div 4))) [0..<n]"
    by (simp add: list_all_iff algebra_simps)
  then have rest: "dump_repeat B fname len name step (Suc j) n (addr + step) k =
    (Inr (reg_lines mem (map (\<lambda>i. (addr + step + of_nat i * step, name @ ''_'' @ nat_str (Suc j + i))) [0..<n])), k)"
    by (rule Suc.IH)
  have first: "reg_at B fname len addr k = (Inr (mem (unat (addr div 4))), k)"
  proof -
    have "in_map len (unat ((addr + of_nat 0 * step) div 4))"
      using Suc.prems unfolding list_all_iff set_upt by (meson atLeastLessThan_iff zero_le zero_less_Suc)
    then show ?thesis
      using assms(1) by (simp add: reg_at_def)
  qed
  have "[0..<Suc n] = 0 # map Suc [0..<n]"
    by (simp add: upt_conv_Cons map_Suc_upt)
  then show ?case
    using first rest by (simp add: reg_lines_def o_def algebra_simps)
qed (simp add: reg_lines_def)

lemma dump_xreg_lines:
  assumes "\<And>i k. bi_load B fname i k = (mem i, k)" and "plain_xreg len x"
  shows "dump_xreg B fname len x k = (Inr (reg_lines mem (xreg_expand x)), k)"
proof -
  have "uint (xreg_repeat x) < 2 ^ 31"
    using assms(2) by (simp add: plain_xreg_def word_less_def)
  moreover have "- (2 ^ 31) \<le> uint (xreg_repeat x)"
    by (rule order_trans [OF _ uint_ge_0]) simp
  ultimately have "sint (xreg_repeat x) = uint (xreg_repeat x)"
    unfolding sint_uint by (intro signed_take_bit_int_eq_self) simp_all
  then have "nat (sint (xreg_repeat x)) = unat (xreg_repeat x)"
    by simp
  then show ?thesis
    using assms
    by (auto simp: dump_xreg_def xreg_expand_def plain_xreg_def dump_repeat_lines list_all_iff reg_at_def reg_lines_def split: if_splits)
qed


lemma dump_xregs_lines:
  assumes "\<And>i k. bi_load B fname i k = (mem i, k)" and "list_all (plain_xreg len) xs" and "xreg_name e = []"
  shows "dump_xregs B fname len (xs @ [e]) k = (Inr (reg_lines mem (concat (map xreg_expand xs))), k)"
  using assms(2)
proof (induction xs)
  case (Cons x xs)
  then show ?case
    using dump_xreg_lines [OF assms(1), of len x] by (simp add: plain_xreg_def reg_lines_def)
qed (simp add: assms(3) reg_lines_def)

text \<open>
  Both tables lie inside the pages that are mapped. The configuration registers lie inside the
  length that is asked for, too; the user registers do not: the length is 0x24, the last address 0x64.
\<close>

definition xreg_addrs :: "xreg_info \<Rightarrow> u32 list" where
  "xreg_addrs x =
     (if xreg_repeat x = 0 then [xreg_addr x]
      else map (\<lambda>i. xreg_addr x + of_nat i * (if xreg_step x = 0 then 4 else xreg_step x)) [0..<unat (xreg_repeat x)])"

lemma xreg_addrs: "map fst (xreg_expand x) = xreg_addrs x"
  by (simp add: xreg_expand_def xreg_addrs_def)

definition xregs_below :: "u32 \<Rightarrow> xreg_info list \<Rightarrow> bool" where
  "xregs_below lim =
     list_all (\<lambda>x. xreg_name x \<noteq> [] \<and> xreg_len x = 0 \<and> xreg_repeat x < 0x80000000 \<and> list_all (\<lambda>a. a < lim) (xreg_addrs x))"

lemma config_regs_below: "xregs_below qdma_config_bar_max_addr (butlast qdma_config_regs)"
  by code_simp

lemma user_regs_below: "xregs_below 0x1000 (butlast qdma_user_regs)" "\<not> xregs_below qdma_user_max_addr (butlast qdma_user_regs)"
  by code_simp+

lemma below_plain:
  assumes "xregs_below lim xs" and "lim \<le> len \<or> lim = 0x1000 \<and> len \<noteq> 0"
  shows "list_all (plain_xreg len) xs"
proof -
  have "in_map len (unat (a div 4))" if "a < lim" for a
    using that assms(2) by (auto intro: in_map_less in_map_page order.strict_trans2)
  then show ?thesis
    using assms(1) by (fastforce simp: xregs_below_def plain_xreg_def list_all_iff simp flip: xreg_addrs)
qed

lemma tables_split:
  "qdma_config_regs = butlast qdma_config_regs @ [xreg [] 0 0 0 0 0]" "qdma_user_regs = butlast qdma_user_regs @ [xreg [] 0 0 0 0 0]"
  by (simp_all add: qdma_config_regs_def qdma_user_regs_def)

definition bar_memory :: "'k bar_if \<Rightarrow> string \<Rightarrow> (nat \<Rightarrow> u32) \<Rightarrow> bool" where
  "bar_memory B fname mem \<longleftrightarrow> (\<forall>i k. bi_load B fname i k = (mem i, k))"

lemma table_lines:
  assumes "bar_memory B fname mem"
  shows "dump_xregs B fname qdma_config_bar_max_addr qdma_config_regs k =
      (Inr (reg_lines mem (concat (map xreg_expand (butlast qdma_config_regs)))), k)"
    and "dump_xregs B fname qdma_user_max_addr qdma_user_regs k =
      (Inr (reg_lines mem (concat (map xreg_expand (butlast qdma_user_regs)))), k)"
proof -
  have load: "bi_load B fname i k = (mem i, k)" for i k
    using assms by (simp add: bar_memory_def)
  have end': "xreg_name (xreg [] 0 0 0 0 0) = []"
    by (simp add: xreg_def)
  have c: "list_all (plain_xreg qdma_config_bar_max_addr) (butlast qdma_config_regs)"
    using config_regs_below by (rule below_plain) simp
  have u: "list_all (plain_xreg qdma_user_max_addr) (butlast qdma_user_regs)"
    using user_regs_below(1) by (rule below_plain) (simp add: qdma_user_max_addr_def)
  show "dump_xregs B fname qdma_config_bar_max_addr qdma_config_regs k =
      (Inr (reg_lines mem (concat (map xreg_expand (butlast qdma_config_regs)))), k)"
    using dump_xregs_lines [OF load c end', of k] tables_split(1) by simp
  show "dump_xregs B fname qdma_user_max_addr qdma_user_regs k =
      (Inr (reg_lines mem (concat (map xreg_expand (butlast qdma_user_regs)))), k)"
    using dump_xregs_lines [OF load u end', of k] tables_split(2) by simp
qed

text \<open>
  A dump prints every register of the two tables once, in their order, with the value it has: on
  a device whose bars hold the words \<open>memu\<close> and \<open>memc\<close>, when the bars can be mapped.
\<close>

lemma reg_dump_prints:
  assumes "bar_memory B (get_syspath_bar_mmap xdev (xd_user_bar xdev)) memu"
    and "bar_memory B (get_syspath_bar_mmap xdev (xd_config_bar xdev)) memc"
    and "\<And>f len k. fst (mmap_bar B f len False k)"
  shows "fst (reg_proc_dump B xcmd xdev k) =
    Returns (Inr (dump_title xcmd xdev
      @ [EOL @ ''USER BAR #'' @ nat_str (unat (xd_user_bar xdev)) @ EOL] @ reg_lines memu (concat (map xreg_expand (butlast qdma_user_regs)))
      @ [EOL @ ''CONFIG BAR #'' @ nat_str (unat (xd_config_bar xdev)) @ EOL]
      @ reg_lines memc (concat (map xreg_expand (butlast qdma_config_regs)))))"
proof -
  have map: "\<exists>k'. mmap_bar B f len False k = (True, k')" for f len k
    using assms(3) [of f len k] by (metis prod.collapse)
  obtain k1 where k1: "mmap_bar B (get_syspath_bar_mmap xdev (xd_user_bar xdev)) qdma_user_max_addr False k = (True, k1)"
    using map by blast
  obtain k2 where k2: "mmap_bar B (get_syspath_bar_mmap xdev (xd_config_bar xdev)) qdma_config_bar_max_addr False
      (bi_munmap B qdma_user_max_addr k1) = (True, k2)"
    using map by blast
  show ?thesis
    unfolding reg_proc_dump_def reg_dump_mmap_def Let_def
    by (simp add: k1 k2 table_lines(1) [OF assms(2)] table_lines(2) [OF assms(1)])
qed

section \<open>Files and mappings are given back\<close>

definition log_bar :: "'k bar_if \<Rightarrow> ('k \<times> int \<times> int) bar_if" where
  "log_bar B =
     \<lparr>bi_open = (\<lambda>f wr (k, fds, maps). case bi_open B f wr k of (fd, k) \<Rightarrow> (fd, k, if fd < 0 then fds else fds + 1, maps)),
      bi_mmap = (\<lambda>fd len wr (k, fds, maps). case bi_mmap B fd len wr k of (ok, k) \<Rightarrow> (ok, k, fds, if ok then maps + 1 else maps)),
      bi_close = (\<lambda>fd (k, fds, maps). (bi_close B fd k, fds - 1, maps)),
      bi_munmap = (\<lambda>len (k, fds, maps). (bi_munmap B len k, fds, maps - 1)),
      bi_load = (\<lambda>f i (k, fds, maps). case bi_load B f i k of (v, k) \<Rightarrow> (v, k, fds, maps)),
      bi_store = (\<lambda>f i v (k, fds, maps). (bi_store B f i v k, fds, maps))\<rparr>"

lemma mmap_bar_log:
  "snd (snd (mmap_bar (log_bar B) f len wr s)) =
     (fst (snd s), snd (snd s) + of_bool (fst (mmap_bar (log_bar B) f len wr s)))"
  by (cases s) (auto simp: mmap_bar_def log_bar_def split: prod.splits)

lemma reg_at_log: "snd (snd (reg_at (log_bar B) f len a s)) = snd s"
  by (cases s) (auto simp: reg_at_def log_bar_def split: prod.splits)

lemma dump_repeat_log: "snd (snd (dump_repeat (log_bar B) f len name step i n a s)) = snd s"
proof (induction n arbitrary: i a s)
  case (Suc n)
  then show ?case
    using reg_at_log [of B f len a s] by (auto split: prod.splits sum.splits) (metis snd_conv)+
qed simp

lemma dump_xreg_log: "snd (snd (dump_xreg (log_bar B) f len x s)) = snd s"
  using reg_at_log [of B f len "xreg_addr x" s]
  by (auto simp: dump_xreg_def dump_repeat_log split: prod.splits sum.splits)

lemma dump_xregs_log: "snd (snd (dump_xregs (log_bar B) f len xs s)) = snd s"
proof (induction xs arbitrary: s)
  case (Cons x xs)
  then show ?case
    using dump_xreg_log [of B f len x s] by (auto split: prod.splits sum.splits) (metis snd_conv)+
qed simp

text \<open>What one access leaves open when it returns a value: nothing.\<close>

definition gives_back :: "'a res outcome \<times> 'k \<times> int \<times> int \<Rightarrow> int \<times> int \<Rightarrow> bool" where
  "gives_back r n \<longleftrightarrow> (case fst r of Returns (Inr _) \<Rightarrow> snd (snd r) = n | _ \<Rightarrow> True)"

lemma munmap_log: "snd (bi_munmap (log_bar B) len s) = (fst (snd s), snd (snd s) - 1)"
  "snd (bi_store (log_bar B) f i v s) = snd s" "snd (snd (bi_load (log_bar B) f i s)) = snd s"
  by (cases s; simp add: log_bar_def split: prod.splits)+

lemma access_balanced:
  "gives_back (reg_read_mmap (log_bar B) xdev barno a s) (snd s)"
  "gives_back (reg_write_mmap (log_bar B) xdev barno a v s) (snd s)"
  "gives_back (reg_dump_mmap (log_bar B) xdev barno xs len s) (snd s)"
proof -
  let ?f = "get_syspath_bar_mmap xdev barno"
  obtain ok k where m: "mmap_bar (log_bar B) ?f (a + 4) False s = (ok, k)"
    by (metis surj_pair)
  then show "gives_back (reg_read_mmap (log_bar B) xdev barno a s) (snd s)"
    using mmap_bar_log [of B ?f "a + 4" False s] munmap_log(3) [of B ?f "unat (a div 4)" k]
    by (cases ok) (auto simp: gives_back_def reg_read_mmap_def munmap_log(1) split: prod.splits)
  obtain ok k where m: "mmap_bar (log_bar B) ?f (a + 4) True s = (ok, k)"
    by (metis surj_pair)
  then show "gives_back (reg_write_mmap (log_bar B) xdev barno a v s) (snd s)"
    using mmap_bar_log [of B ?f "a + 4" True s]
    by (cases ok) (auto simp: gives_back_def reg_write_mmap_def munmap_log split: prod.splits)
  obtain ok k where m: "mmap_bar (log_bar B) ?f len False s = (ok, k)"
    by (metis surj_pair)
  then show "gives_back (reg_dump_mmap (log_bar B) xdev barno xs len s) (snd s)"
    using mmap_bar_log [of B ?f len False s] dump_xregs_log [of B ?f len xs k]
    by (cases ok) (auto simp: gives_back_def reg_dump_mmap_def munmap_log split: prod.splits sum.splits)
qed

lemma gives_back_cases:
  assumes "gives_back r n" and "r = (Returns (Inr v), s)"
  shows "snd s = n"
  using assms by (simp add: gives_back_def)

text \<open>A register command that completes has closed every file it opened and undone every mapping.\<close>

lemma reg_proc_cmd_gives_back: "gives_back (reg_proc_cmd (log_bar B) xcmd s) (snd s)"
proof -
  note b = access_balanced [THEN gives_back_cases]
  have dump: "gives_back (reg_proc_dump (log_bar B) xcmd xdev s) (snd s)" for xdev
    unfolding reg_proc_dump_def
    by (auto simp: gives_back_def split: prod.splits outcome.splits sum.splits dest!: b)
  have rd: "gives_back (reg_proc_rd (log_bar B) xcmd xdev barno s) (snd s)" for xdev barno
    unfolding reg_proc_rd_def Let_def
    by (auto simp: gives_back_def split: prod.splits outcome.splits sum.splits dest!: b)
  have wrt: "gives_back (reg_proc_wrt (log_bar B) xcmd xdev barno s) (snd s)" for xdev barno
    unfolding reg_proc_wrt_def Let_def
    by (auto simp: gives_back_def split: prod.splits outcome.splits sum.splits dest!: b)
  have other: "gives_back (Returns (Inr []), s) (snd s)" "gives_back (Returns (Inl EINVAL), s) (snd s)"
    by (simp_all add: gives_back_def)
  show ?thesis
    unfolding reg_proc_cmd_def Let_def
    by (cases "xi_op xcmd") (simp_all add: dump rd wrt other)
qed

text \<open>
  A register write on a bar that behaves like memory: the value is stored at the word that was
  addressed and the program reads it back and prints it.
\<close>

lemma reg_write_read_back:
  assumes "mmap_bar B (get_syspath_bar_mmap xdev barno) (a + 4) True k = (True, k1)" and "a < 0xFFFFFFFC"
    and "reg_write_mmap B xdev barno a v k = (w, k2)"
    and "mmap_bar B (get_syspath_bar_mmap xdev barno) (a + 4) False k2 = (True, k3)"
    and "fst (bi_load B (get_syspath_bar_mmap xdev barno) (unat (a div 4)) k3) = v"
  shows "w = Returns (Inr ())" and "fst (reg_read_mmap B xdev barno a k2) = Returns (Inr v)"
  using assms by (auto simp: reg_write_mmap_def in_map_self reg_read_value)

end
