(* ===== verification/Qdma_Cli.thy ===== *)
theory Qdma_Cli
  imports Qdma_Cli_Regs
begin

text \<open>
  The user program (\<open>user/cli/nl_user.c\<close>): it sends the command to the kernel module in a netlink
  message and reads the reply.

  A message is its header and the bytes of its data; the host is little-endian. Sockets, memory,
  printing and the bars are the record \<open>sock_if\<close> on a state \<open>'k\<close>. Reading or writing outside the
  data is a fault. The loop over the attributes of a reply may run forever: its result is an
  option. \<open>perror\<close> and the texts on the error output are left out.
\<close>

section \<open>Bytes\<close>

definition bytes16 :: "u16 \<Rightarrow> u8 list" where
  "bytes16 v = [ucast v, ucast (drop_bit 8 v)]"

definition bytes32 :: "u32 \<Rightarrow> u8 list" where
  "bytes32 v = [ucast v, ucast (drop_bit 8 v), ucast (drop_bit 16 v), ucast (drop_bit 24 v)]"

definition get16 :: "u8 list \<Rightarrow> nat \<Rightarrow> u16" where
  "get16 b i = ucast (b ! i) OR push_bit 8 (ucast (b ! (i + 1)))"

definition get32 :: "u8 list \<Rightarrow> nat \<Rightarrow> u32" where
  "get32 b i = ucast (b ! i) OR push_bit 8 (ucast (b ! (i + 1))) OR push_bit 16 (ucast (b ! (i + 2))) OR push_bit 24 (ucast (b ! (i + 3)))"

definition put_bytes :: "u8 list \<Rightarrow> nat \<Rightarrow> u8 list \<Rightarrow> u8 list res" where
  "put_bytes b off bs = (if off + length bs \<le> length b then Inr (take off b @ bs @ drop (off + length bs) b) else Inl OOPS)"

definition byte_of_char :: "char \<Rightarrow> u8" where
  "byte_of_char c = of_char c"

definition char_of_byte :: "u8 \<Rightarrow> char" where
  "char_of_byte b = char_of (unat b)"

text \<open>The string that starts at an offset, up to the byte 0.\<close>

definition cstring_at :: "u8 list \<Rightarrow> nat \<Rightarrow> string option" where
  "cstring_at b off =
     (let r = drop off b in if 0 \<in> set r then Some (map char_of_byte (takeWhile (\<lambda>x. x \<noteq> 0) r)) else None)"

text \<open>\<open>strncpy\<close>: at most \<open>n\<close> bytes, filled up with 0; a fault when the source ends before.\<close>

definition strncpy_from :: "u8 list \<Rightarrow> nat \<Rightarrow> nat \<Rightarrow> u8 list option" where
  "strncpy_from b off n =
     (let r = drop off b; s = takeWhile (\<lambda>x. x \<noteq> 0) r
      in if 0 \<in> set r \<or> n \<le> length r then Some (take n (s @ replicate n 0)) else None)"

definition NLA_ALIGN :: "nat \<Rightarrow> nat" where
  "NLA_ALIGN n = (n + 3) div 4 * 4"

section \<open>Codes (include/nl.h)\<close>

fun attr_code :: "xnl_attr_t \<Rightarrow> u16" where
  "attr_code XNL_ATTR_GENMSG = 0"
| "attr_code XNL_ATTR_DRV_INFO = 1"
| "attr_code XNL_ATTR_DEV_IDX = 2"
| "attr_code XNL_ATTR_PCI_BUS = 3"
| "attr_code XNL_ATTR_PCI_DEV = 4"
| "attr_code XNL_ATTR_PCI_FUNC = 5"
| "attr_code XNL_ATTR_DEV_CFG_BAR = 6"
| "attr_code XNL_ATTR_DEV_USR_BAR = 7"
| "attr_code XNL_ATTR_DEV_QSET_MAX = 8"
| "attr_code XNL_ATTR_REG_BAR_NUM = 9"
| "attr_code XNL_ATTR_REG_ADDR = 10"
| "attr_code XNL_ATTR_REG_VAL = 11"
| "attr_code XNL_ATTR_QIDX = 12"
| "attr_code XNL_ATTR_QFLAG = 13"
| "attr_code XNL_ATTR_QRNGSZ = 14"
| "attr_code XNL_ATTR_QBUFSZ = 15"
| "attr_code XNL_ATTR_WRB_DESC_SIZE = 16"
| "attr_code XNL_ATTR_RANGE_START = 17"
| "attr_code XNL_ATTR_RANGE_END = 18"

fun op_code :: "xnl_op_t \<Rightarrow> u8" where
  "op_code XNL_CMD_DEV_LIST = 0"
| "op_code XNL_CMD_DEV_INFO = 1"
| "op_code XNL_CMD_REG_DUMP = 2"
| "op_code XNL_CMD_REG_RD = 3"
| "op_code XNL_CMD_REG_WRT = 4"
| "op_code XNL_CMD_Q_LIST = 5"
| "op_code XNL_CMD_Q_ADD = 6"
| "op_code XNL_CMD_Q_START = 7"
| "op_code XNL_CMD_Q_STOP = 8"
| "op_code XNL_CMD_Q_DEL = 9"
| "op_code XNL_CMD_Q_DUMP = 10"
| "op_code XNL_CMD_Q_DESC = 11"
| "op_code XNL_CMD_Q_WRB = 12"

section \<open>Sockets and messages\<close>

record xnl_cb =
  cb_fd :: int
  cb_family :: u16
  cb_snd_seq :: u32
  cb_rcv_seq :: u32

record xnl_hdr =
  nlmsg_len :: u32
  nlmsg_type :: u16
  nlmsg_flags :: u16
  nlmsg_seq :: u32
  nlmsg_pid :: u32
  gh_cmd :: u8
  gh_version :: u8

record xnl_gen_msg =
  xm_hdr :: xnl_hdr
  xm_data :: "u8 list"

text \<open>
  \<open>si_recv\<close> gives the number of bytes received, the header and the data behind it; the header is
  filled up with 0 when fewer bytes came.
\<close>

record 'k sock_if =
  si_malloc :: "nat \<Rightarrow> 'k \<Rightarrow> bool \<times> 'k"
  si_free :: "'k \<Rightarrow> 'k"
  si_socket :: "'k \<Rightarrow> int \<times> 'k"
  si_bind :: "int \<Rightarrow> 'k \<Rightarrow> int \<times> 'k"
  si_sendto :: "int \<Rightarrow> xnl_hdr \<Rightarrow> u8 list \<Rightarrow> 'k \<Rightarrow> int \<times> 'k"
  si_recv :: "int \<Rightarrow> nat \<Rightarrow> 'k \<Rightarrow> int \<times> xnl_hdr \<times> u8 list \<times> 'k"
  si_close :: "int \<Rightarrow> 'k \<Rightarrow> 'k"
  si_pid :: u32
  si_print :: "string \<Rightarrow> 'k \<Rightarrow> 'k"
  si_bar :: "'k bar_if"

definition zero_cb :: xnl_cb where
  "zero_cb = \<lparr>cb_fd = 0, cb_family = 0, cb_snd_seq = 0, cb_rcv_seq = 0\<rparr>"

definition zero_hdr :: xnl_hdr where
  "zero_hdr = \<lparr>nlmsg_len = 0, nlmsg_type = 0, nlmsg_flags = 0, nlmsg_seq = 0, nlmsg_pid = 0, gh_cmd = 0, gh_version = 0\<rparr>"

definition xnl_close :: "'k sock_if \<Rightarrow> xnl_cb \<Rightarrow> 'k \<Rightarrow> 'k" where
  "xnl_close S cb k = si_close S (cb_fd cb) k"

definition xnl_send :: "'k sock_if \<Rightarrow> xnl_cb \<Rightarrow> xnl_gen_msg \<Rightarrow> 'k \<Rightarrow> unit res \<times> xnl_cb \<times> 'k" where
  "xnl_send S cb msg k =
     (let hdr = (xm_hdr msg)\<lparr>nlmsg_seq := cb_snd_seq cb\<rparr>; cb = cb\<lparr>cb_snd_seq := cb_snd_seq cb + 1\<rparr>
      in case si_sendto S (cb_fd cb) hdr (take (unat (nlmsg_len hdr) - 20) (xm_data msg)) k of
           (rv, k) \<Rightarrow> (if word_of_int rv \<noteq> nlmsg_len hdr then Inl (Other (- 1)) else Inr (), cb, k))"

definition NLMSG_OK :: "xnl_hdr \<Rightarrow> int \<Rightarrow> bool" where
  "NLMSG_OK hdr rv \<longleftrightarrow> 16 \<le> rv \<and> 16 \<le> nlmsg_len hdr \<and> uint (nlmsg_len hdr) \<le> rv"

definition xnl_recv :: "'k sock_if \<Rightarrow> xnl_cb \<Rightarrow> nat \<Rightarrow> 'k \<Rightarrow> xnl_gen_msg res \<times> 'k" where
  "xnl_recv S cb dlen k =
     (case si_recv S (cb_fd cb) dlen k of
        (rv, hdr, bytes, k) \<Rightarrow>
          (if rv < 0 then Inl (Other (- 1))
           else if \<not> NLMSG_OK hdr rv \<and> rv \<le> 20 then Inl (Other (- 1))
           else if nlmsg_type hdr = 2 then Inl (Other (- 1))
           else Inr \<lparr>xm_hdr = hdr, xm_data = bytes @ replicate (dlen - length bytes) 0\<rparr>, k))"

definition xnl_msg_alloc_user :: "'k sock_if \<Rightarrow> nat \<Rightarrow> 'k \<Rightarrow> xnl_gen_msg option \<times> 'k" where
  "xnl_msg_alloc_user S dlen k =
     (case si_malloc S (20 + dlen) k of
        (False, k) \<Rightarrow> (None, k)
      | (True, k) \<Rightarrow> (Some \<lparr>xm_hdr = zero_hdr, xm_data = replicate dlen 0\<rparr>, k))"

definition XNL_NAME_PF :: string where
  "XNL_NAME_PF = ''xnl_pf''"

definition XNL_NAME_VF :: string where
  "XNL_NAME_VF = ''xnl_vf''"

text \<open>\<open>xnl_connect\<close>: the request for the number of the family, and reading it from the reply.\<close>

definition family_request :: "u32 \<Rightarrow> bool \<Rightarrow> xnl_gen_msg \<Rightarrow> xnl_gen_msg res" where
  "family_request pid vf msg =
     (let name = (if vf then XNL_NAME_VF else XNL_NAME_PF); nla_len = length name + 1 + 4
      in case put_bytes (xm_data msg) 0 (bytes16 (of_nat nla_len) @ bytes16 2 @ map byte_of_char name @ [0]) of
           Inl err \<Rightarrow> Inl err
         | Inr data \<Rightarrow>
             Inr \<lparr>xm_hdr = (xm_hdr msg)\<lparr>nlmsg_type := 0x10, nlmsg_flags := 1, nlmsg_pid := pid,
                    nlmsg_len := 20 + of_nat (NLA_ALIGN nla_len), gh_cmd := 3, gh_version := 1\<rparr>,
                  xm_data = data\<rparr>)"

definition read_family :: "u8 list \<Rightarrow> xnl_cb \<Rightarrow> xnl_cb res" where
  "read_family b cb =
     (if length b < 4 then Inl OOPS
      else let off = NLA_ALIGN (unat (get16 b 0))
      in if length b < off + 4 then Inl OOPS
         else if get16 b (off + 2) \<noteq> 1 then Inr cb
         else if length b < off + 6 then Inl OOPS
         else Inr (cb\<lparr>cb_family := get16 b (off + 4)\<rparr>))"

definition xnl_connect_msg :: "'k sock_if \<Rightarrow> xnl_cb \<Rightarrow> bool \<Rightarrow> xnl_gen_msg \<Rightarrow> 'k \<Rightarrow> unit res \<times> xnl_cb \<times> 'k" where
  "xnl_connect_msg S cb vf msg k =
     (case si_socket S k of
        (fd, k) \<Rightarrow>
          if fd < 0 then (Inl (Other fd), cb, k)
          else let cb = cb\<lparr>cb_fd := fd\<rparr>
          in case si_bind S fd k of
               (rv, k) \<Rightarrow>
                 if rv < 0 then (Inl (Other rv), cb, k)
                 else case family_request (si_pid S) vf msg of
                        Inl err \<Rightarrow> (Inl err, cb, k)
                      | Inr msg \<Rightarrow>
                          (case xnl_send S cb msg k of
                             (Inl err, cb, k) \<Rightarrow> (Inl err, cb, k)
                           | (Inr _, cb, k) \<Rightarrow>
                               (case xnl_recv S cb XNL_RESP_BUFLEN_MIN k of
                                  (Inl err, k) \<Rightarrow> (Inl err, cb, k)
                                | (Inr msg, k) \<Rightarrow>
                                    (case read_family (xm_data msg) cb of
                                       Inl err \<Rightarrow> (Inl err, cb, k)
                                     | Inr cb \<Rightarrow> (Inr (), cb, k)))))"

definition xnl_connect :: "'k sock_if \<Rightarrow> xnl_cb \<Rightarrow> bool \<Rightarrow> 'k \<Rightarrow> unit res \<times> xnl_cb \<times> 'k" where
  "xnl_connect S cb vf k =
     (case xnl_msg_alloc_user S XNL_RESP_BUFLEN_MIN k of
        (None, k) \<Rightarrow> (Inl ENOMEM, cb, k)
      | (Some msg, k) \<Rightarrow> (case xnl_connect_msg S cb vf msg k of (rv, cb, k) \<Rightarrow> (rv, cb, si_free S k)))"

section \<open>Building a request\<close>

definition xnl_msg_set_hdr :: "u32 \<Rightarrow> xnl_hdr \<Rightarrow> u16 \<Rightarrow> xnl_op_t \<Rightarrow> xnl_hdr" where
  "xnl_msg_set_hdr pid hdr family op =
     hdr\<lparr>nlmsg_len := 20, nlmsg_type := family, nlmsg_flags := 1, nlmsg_pid := pid, gh_cmd := op_code op\<rparr>"

definition xnl_send_op :: "'k sock_if \<Rightarrow> xnl_cb \<Rightarrow> xnl_op_t \<Rightarrow> 'k \<Rightarrow> unit res \<times> xnl_cb \<times> 'k" where
  "xnl_send_op S cb op k = xnl_send S cb \<lparr>xm_hdr = xnl_msg_set_hdr (si_pid S) zero_hdr (cb_family cb) op, xm_data = []\<rparr> k"

definition xnl_msg_add_int_attr :: "xnl_gen_msg \<Rightarrow> xnl_attr_t \<Rightarrow> u32 \<Rightarrow> xnl_gen_msg res" where
  "xnl_msg_add_int_attr msg a v =
     (case put_bytes (xm_data msg) (unat (nlmsg_len (xm_hdr msg)) - 20) (bytes16 8 @ bytes16 (attr_code a) @ bytes32 v) of
        Inl err \<Rightarrow> Inl err
      | Inr data \<Rightarrow> Inr \<lparr>xm_hdr = (xm_hdr msg)\<lparr>nlmsg_len := nlmsg_len (xm_hdr msg) + 8\<rparr>, xm_data = data\<rparr>)"

definition xnl_msg_add_str_attr :: "xnl_gen_msg \<Rightarrow> xnl_attr_t \<Rightarrow> string \<Rightarrow> xnl_gen_msg res" where
  "xnl_msg_add_str_attr msg a s =
     (let nla_len = of_nat (length s + 1 + 4) :: u16
      in case put_bytes (xm_data msg) (unat (nlmsg_len (xm_hdr msg)) - 20)
                (bytes16 nla_len @ bytes16 (attr_code a) @ map byte_of_char s @ [0]) of
           Inl err \<Rightarrow> Inl err
         | Inr data \<Rightarrow>
             Inr \<lparr>xm_hdr = (xm_hdr msg)\<lparr>nlmsg_len := nlmsg_len (xm_hdr msg) + of_nat (NLA_ALIGN (unat nla_len))\<rparr>, xm_data = data\<rparr>)"

text \<open>The attributes \<open>xnl_send_cmd\<close> adds, in their order.\<close>

definition req_attrs :: "xcmd_info \<Rightarrow> (xnl_attr_t \<times> u32) list" where
  "req_attrs xcmd =
     (let q = xi_qparm xcmd; base = [(XNL_ATTR_QIDX, qp_idx q), (XNL_ATTR_QFLAG, qp_flags q)]
      in (XNL_ATTR_DEV_IDX, ucast (xi_if_idx xcmd)) #
         (case xi_op xcmd of
            XNL_CMD_Q_ADD \<Rightarrow>
              base @ [(XNL_ATTR_QRNGSZ, qp_ringsz q), (XNL_ATTR_QBUFSZ, qp_bufsz q)]
              @ (if qp_sflags q AND qparm_bit QPARM_WRBSZ \<noteq> 0 then [(XNL_ATTR_WRB_DESC_SIZE, ucast (qp_entry_size q))] else [])
          | XNL_CMD_Q_START \<Rightarrow> base
          | XNL_CMD_Q_STOP \<Rightarrow> base
          | XNL_CMD_Q_DEL \<Rightarrow> base
          | XNL_CMD_Q_DUMP \<Rightarrow> base
          | XNL_CMD_Q_DESC \<Rightarrow> base @ [(XNL_ATTR_RANGE_START, qp_range_start q), (XNL_ATTR_RANGE_END, qp_range_end q)]
          | XNL_CMD_Q_WRB \<Rightarrow> base @ [(XNL_ATTR_RANGE_START, qp_range_start q), (XNL_ATTR_RANGE_END, qp_range_end q)]
          | _ \<Rightarrow> []))"

fun add_attrs :: "(xnl_attr_t \<times> u32) list \<Rightarrow> xnl_gen_msg \<Rightarrow> xnl_gen_msg res" where
  "add_attrs [] msg = Inr msg"
| "add_attrs ((a, v) # r) msg = (case xnl_msg_add_int_attr msg a v of Inl err \<Rightarrow> Inl err | Inr msg \<Rightarrow> add_attrs r msg)"

section \<open>Reading a reply\<close>

text \<open>One attribute at offset \<open>p\<close>: the command, the texts printed so far, the length of the attribute.\<close>

definition recv_attr :: "u8 list \<Rightarrow> nat \<Rightarrow> xcmd_info \<Rightarrow> string list \<Rightarrow> unit res \<times> xcmd_info \<times> string list \<times> nat" where
  "recv_attr b p xcmd out =
     (if length b < p + 4 then (Inl OOPS, xcmd, out, 0)
      else let len = NLA_ALIGN (unat (get16 b p)); t = unat (get16 b (p + 2))
      in if t \<ge> 19 then (Inl EINVAL, xcmd, out, len)
         else let xcmd = xcmd\<lparr>xi_attr_mask := xi_attr_mask xcmd OR push_bit t 1\<rparr>
         in if t = 0
            then case cstring_at b (p + 4) of
                   None \<Rightarrow> (Inl OOPS, xcmd, out, len)
                 | Some s \<Rightarrow> (Inr (), xcmd, out @ [EOL @ s @ EOL], len)
            else if t = 1
            then case strncpy_from b (p + 4) 128 of
                   None \<Rightarrow> (Inl OOPS, xcmd, out, len)
                 | Some s \<Rightarrow> (Inr (), xcmd\<lparr>xi_drv_str := s\<rparr>, out, len)
            else if length b < p + 8 then (Inl OOPS, xcmd, out, len)
            else (Inr (), xcmd\<lparr>xi_attrs := (xi_attrs xcmd)[t := get32 b (p + 4)]\<rparr>, out, len))"

partial_function (option) recv_loop ::
  "u8 list \<Rightarrow> nat \<Rightarrow> int \<Rightarrow> xcmd_info \<Rightarrow> string list \<Rightarrow> (unit res \<times> xcmd_info \<times> string list) option" where
  "recv_loop b p maxlen xcmd out =
     (if maxlen \<le> 0 then Some (Inr (), xcmd, out)
      else case recv_attr b p xcmd out of
             (Inl err, xcmd, out, len) \<Rightarrow> Some (Inl err, xcmd, out)
           | (Inr _, xcmd, out, len) \<Rightarrow> recv_loop b (p + len) (maxlen - int len) xcmd out)"

declare recv_loop.simps [code]

definition recv_attrs :: "xnl_gen_msg \<Rightarrow> xcmd_info \<Rightarrow> (unit res \<times> xcmd_info \<times> string list) option" where
  "recv_attrs msg xcmd = recv_loop (xm_data msg) 0 (sint (nlmsg_len (xm_hdr msg) - 20)) (xcmd\<lparr>xi_attr_mask := 0\<rparr>) []"

definition dev_info_text :: "xcmd_info \<Rightarrow> string" where
  "dev_info_text xcmd =
     ''qdma'' @ (if xi_vf xcmd then ''vf'' else []) @ nat_str (unat (xi_if_idx xcmd)) @ '':'' @ TAB @ hex_pad 2 (unat (xi_attrs xcmd ! 3)) @ '':''
     @ hex_pad 2 (unat (xi_attrs xcmd ! 4)) @ ''.'' @ hex_pad 2 (unat (xi_attrs xcmd ! 5)) @ TAB
     @ ''config bar: '' @ nat_str (unat (xi_config_bar xcmd)) @ '', user bar: '' @ nat_str (unat (xi_user_bar xcmd))
     @ '', max #. QP: '' @ nat_str (unat (xi_qmax xcmd)) @ EOL"

text \<open>What \<open>recv_attrs\<close> returns is not looked at; only a fault ends the program.\<close>

definition recv_nl_msg :: "xnl_gen_msg \<Rightarrow> xcmd_info \<Rightarrow> (unit res \<times> xcmd_info \<times> string list) option" where
  "recv_nl_msg msg xcmd =
     (case recv_attrs msg xcmd of
        None \<Rightarrow> None
      | Some (rv, xcmd, out) \<Rightarrow>
          Some (if rv = Inl OOPS then (rv, xcmd, out)
                else if gh_cmd (xm_hdr msg) = op_code XNL_CMD_DEV_INFO
                then let xcmd = xcmd\<lparr>xi_config_bar := ucast (xi_attrs xcmd ! 6), xi_user_bar := ucast (xi_attrs xcmd ! 7),
                           xi_qmax := ucast (xi_attrs xcmd ! 8)\<rparr>
                     in (Inr (), xcmd, out @ [dev_info_text xcmd])
                else (Inr (), xcmd, out)))"

section \<open>Sending a command\<close>

definition xnl_dlen :: "xnl_op_t \<Rightarrow> nat" where
  "xnl_dlen op =
     (if op \<in> set [XNL_CMD_DEV_LIST, XNL_CMD_Q_LIST, XNL_CMD_Q_DUMP, XNL_CMD_Q_DESC, XNL_CMD_Q_WRB] then XNL_RESP_BUFLEN_MAX
      else XNL_RESP_BUFLEN_MIN)"

definition xnl_send_msg ::
  "'k sock_if \<Rightarrow> xnl_cb \<Rightarrow> xcmd_info \<Rightarrow> xnl_gen_msg \<Rightarrow> 'k \<Rightarrow> (unit res \<times> xnl_cb \<times> xcmd_info \<times> 'k) option" where
  "xnl_send_msg S cb xcmd msg k =
     (case add_attrs (req_attrs xcmd) (msg\<lparr>xm_hdr := xnl_msg_set_hdr (si_pid S) (xm_hdr msg) (cb_family cb) (xi_op xcmd)\<rparr>) of
        Inl err \<Rightarrow> Some (Inl err, cb, xcmd, k)
      | Inr msg \<Rightarrow>
          (case xnl_send S cb msg k of
             (Inl err, cb, k) \<Rightarrow> Some (Inl err, cb, xcmd, k)
           | (Inr _, cb, k) \<Rightarrow>
               (case xnl_recv S cb (xnl_dlen (xi_op xcmd)) k of
                  (Inl err, k) \<Rightarrow> Some (Inl err, cb, xcmd, k)
                | (Inr msg, k) \<Rightarrow>
                    (case recv_nl_msg msg xcmd of
                       None \<Rightarrow> None
                     | Some (rv, xcmd, out) \<Rightarrow> Some (rv, cb, xcmd, fold (si_print S) out k)))))"

definition xnl_send_cmd :: "'k sock_if \<Rightarrow> xnl_cb \<Rightarrow> xcmd_info \<Rightarrow> 'k \<Rightarrow> (unit res \<times> xnl_cb \<times> xcmd_info \<times> 'k) option" where
  "xnl_send_cmd S cb xcmd k =
     (case xnl_msg_alloc_user S (xnl_dlen (xi_op xcmd)) k of
        (None, k) \<Rightarrow> Some (Inl ENOMEM, cb, xcmd, k)
      | (Some msg, k) \<Rightarrow>
          (case xnl_send_msg S cb xcmd msg k of None \<Rightarrow> None | Some (rv, cb, xcmd, k) \<Rightarrow> Some (rv, cb, xcmd, si_free S k)))"

section \<open>The program\<close>

text \<open>\<open>dev list\<close> on one of the two servers, up to the first \<open>xnl_close\<close>.\<close>

definition list_on :: "'k sock_if \<Rightarrow> bool \<Rightarrow> xcmd_info \<Rightarrow> 'k \<Rightarrow> (unit res \<times> xnl_cb \<times> xcmd_info \<times> 'k) option" where
  "list_on S vf xcmd k =
     (case (case xnl_connect S zero_cb vf k of
              (Inl err, cb, k) \<Rightarrow> Some (Inl err, cb, xcmd, k)
            | (Inr _, cb, k) \<Rightarrow> xnl_send_cmd S cb xcmd k) of
        None \<Rightarrow> None
      | Some (rv, cb, xcmd, k) \<Rightarrow> Some (rv, cb, xcmd, if rv = Inl OOPS then k else xnl_close S cb k))"

definition dev_list_cmd :: "'k sock_if \<Rightarrow> xcmd_info \<Rightarrow> 'k \<Rightarrow> (unit res outcome \<times> 'k) option" where
  "dev_list_cmd S xcmd k =
     (case list_on S False xcmd k of
        None \<Rightarrow> None
      | Some (rv, cb, xcmd, k) \<Rightarrow>
          if rv = Inl OOPS then Some (Returns rv, k)
          else case list_on S True xcmd k of
                 None \<Rightarrow> None
               | Some (rv, cb, xcmd, k) \<Rightarrow> Some (Returns rv, if rv = Inl OOPS then k else xnl_close S cb k))"

definition dev_cmd :: "'k sock_if \<Rightarrow> xnl_cb \<Rightarrow> xcmd_info \<Rightarrow> 'k \<Rightarrow> (unit res outcome \<times> xnl_cb \<times> 'k) option" where
  "dev_cmd S cb xcmd k =
     (case xnl_send_cmd S cb (xcmd\<lparr>xi_op := XNL_CMD_DEV_INFO\<rparr>) k of
        None \<Rightarrow> None
      | Some (Inl err, cb, _, k) \<Rightarrow> Some (Returns (Inl err), cb, k)
      | Some (Inr _, cb, x, k) \<Rightarrow>
          let xcmd = x\<lparr>xi_op := xi_op xcmd\<rparr>
          in if xi_op xcmd \<in> set [XNL_CMD_REG_DUMP, XNL_CMD_REG_RD, XNL_CMD_REG_WRT]
             then case reg_proc_cmd (si_bar S) xcmd k of
                    (Exits n, k) \<Rightarrow> Some (Exits n, cb, k)
                  | (Returns (Inl err), k) \<Rightarrow> Some (Returns (Inl err), cb, k)
                  | (Returns (Inr out), k) \<Rightarrow> Some (Returns (Inr ()), cb, fold (si_print S) out k)
             else case xnl_send_cmd S cb xcmd k of
                    None \<Rightarrow> None
                  | Some (rv, cb, _, k) \<Rightarrow> Some (Returns rv, cb, k))"

definition main :: "'k sock_if \<Rightarrow> int \<Rightarrow> string list \<Rightarrow> 'k \<Rightarrow> (unit res outcome \<times> 'k) option" where
  "main S junk argv k =
     (case parse_cmd junk argv of
        Exits n \<Rightarrow> Some (Exits n, k)
      | Returns (Inl err) \<Rightarrow> Some (Returns (Inl err), k)
      | Returns (Inr xcmd) \<Rightarrow>
          if xi_op xcmd = XNL_CMD_DEV_LIST then dev_list_cmd S xcmd k
          else case xnl_connect S zero_cb (xi_vf xcmd) k of
                 (Inl err, cb, k) \<Rightarrow> Some (Returns (Inl err), if err = OOPS then k else xnl_close S cb k)
               | (Inr _, cb, k) \<Rightarrow>
                   (case dev_cmd S cb xcmd k of
                      None \<Rightarrow> None
                    | Some (Exits n, cb, k) \<Rightarrow> Some (Exits n, k)
                    | Some (Returns rv, cb, k) \<Rightarrow> Some (Returns rv, if rv = Inl OOPS then k else xnl_close S cb k)))"

section \<open>Bytes are read back\<close>

lemma word16_split: "ucast (ucast v :: u8) OR push_bit 8 (ucast (ucast (drop_bit 8 v) :: u8)) = v" for v :: u16
  by (rule bit_word_eqI) (auto simp: bit_simps)

lemma word32_split:
  fixes v :: u32
  shows "ucast (ucast v :: u8) OR push_bit 8 (ucast (ucast (drop_bit 8 v) :: u8)) OR push_bit 16 (ucast (ucast (drop_bit 16 v) :: u8))
     OR push_bit 24 (ucast (ucast (drop_bit 24 v) :: u8)) = v" (is "?w = v")
proof (rule bit_word_eqI)
  fix n
  assume "n < LENGTH(32)"
  then show "bit ?w n = bit v n"
    by (cases "n < 8"; cases "n < 16"; cases "n < 24") (auto simp: bit_simps)
qed

lemma length_bytes [simp]: "length (bytes16 v) = 2" "length (bytes32 w) = 4"
  by (simp_all add: bytes16_def bytes32_def)

lemma get16_bytes: "get16 (pre @ bytes16 v @ post) (length pre) = v"
  by (simp add: get16_def bytes16_def nth_append word16_split)

lemma get32_bytes: "get32 (pre @ bytes32 v @ post) (length pre) = v"
  by (simp add: get32_def bytes32_def nth_append word32_split)

lemma unat_byte_of_char: "unat (byte_of_char c) = of_char c"
proof -
  have "(of_char c :: u8) = of_nat (of_char c)"
    by (simp only: of_nat_of_char)
  then show ?thesis
    unfolding byte_of_char_def by (simp only: unat_of_nat) simp
qed

lemma char_byte [simp]: "char_of_byte (byte_of_char c) = c"
  by (simp add: char_of_byte_def unat_byte_of_char)

lemma byte_of_char_zero: "byte_of_char c = 0 \<longleftrightarrow> c = CHR 0x00"
proof -
  have "byte_of_char c = 0 \<longleftrightarrow> (of_char c :: nat) = of_char (CHR 0x00)"
    by (simp add: word_unat_eq_iff unat_byte_of_char)
  also have "\<dots> \<longleftrightarrow> c = CHR 0x00"
    by (rule of_char_eq_iff)
  finally show ?thesis .
qed

section \<open>Attributes on the wire\<close>

text \<open>
  An attribute in a message: its length, its kind, the value, filled up to a multiple of four. These
  are the attributes the kernel module sends (a text or a number), and what the program makes of them.
\<close>

fun nla_bytes :: "xnl_attr_t \<times> nla \<Rightarrow> u8 list" where
  "nla_bytes (a, NLA_U32 v) = bytes16 8 @ bytes16 (attr_code a) @ bytes32 v"
| "nla_bytes (a, NLA_STRING s) =
     bytes16 (of_nat (length s + 5)) @ bytes16 (attr_code a) @ map byte_of_char s @ [0]
     @ replicate (NLA_ALIGN (length s + 5) - (length s + 5)) 0"

fun nla_ok :: "xnl_attr_t \<times> nla \<Rightarrow> bool" where
  "nla_ok (a, NLA_U32 v) \<longleftrightarrow> a \<noteq> XNL_ATTR_GENMSG \<and> a \<noteq> XNL_ATTR_DRV_INFO"
| "nla_ok (a, NLA_STRING s) \<longleftrightarrow> a = XNL_ATTR_GENMSG \<and> CHR 0x00 \<notin> set s \<and> length s + 5 < 65536"

fun nla_apply :: "xnl_attr_t \<times> nla \<Rightarrow> xcmd_info \<Rightarrow> xcmd_info" where
  "nla_apply (a, NLA_U32 v) x =
     x\<lparr>xi_attr_mask := xi_attr_mask x OR push_bit (unat (attr_code a)) 1, xi_attrs := (xi_attrs x)[unat (attr_code a) := v]\<rparr>"
| "nla_apply (a, NLA_STRING s) x = x\<lparr>xi_attr_mask := xi_attr_mask x OR push_bit (unat (attr_code a)) 1\<rparr>"

fun nla_text :: "xnl_attr_t \<times> nla \<Rightarrow> string list" where
  "nla_text (a, NLA_U32 v) = []"
| "nla_text (a, NLA_STRING s) = [EOL @ s @ EOL]"

lemma attr_code_small: "unat (attr_code a) < 19" "unat (attr_code a) = 0 \<longleftrightarrow> a = XNL_ATTR_GENMSG" "unat (attr_code a) = 1 \<longleftrightarrow> a = XNL_ATTR_DRV_INFO"
  by (cases a; simp)+

lemma align_ge: "n \<le> NLA_ALIGN n"
  unfolding NLA_ALIGN_def by presburger

lemma recv_attr_wire:
  assumes "nla_ok av"
  shows "recv_attr (pre @ nla_bytes av @ post) (length pre) x out = (Inr (), nla_apply av x, out @ nla_text av, length (nla_bytes av))"
proof (cases av)
  case (Pair a v)
  show ?thesis
  proof (cases v)
    case (NLA_U32 n)
    let ?b = "pre @ nla_bytes av @ post"
    have b: "?b = pre @ bytes16 8 @ bytes16 (attr_code a) @ bytes32 n @ post"
      by (simp add: Pair NLA_U32)
    have len: "get16 ?b (length pre) = 8"
      unfolding b by (rule get16_bytes)
    have ty: "get16 ?b (length pre + 2) = attr_code a"
      using get16_bytes [of "pre @ bytes16 8" "attr_code a" "bytes32 n @ post"] by (simp add: b)
    have val: "get32 ?b (length pre + 4) = n"
      using get32_bytes [of "pre @ bytes16 8 @ bytes16 (attr_code a)" n post] by (simp add: b)
    show ?thesis
      using assms attr_code_small [of a] unfolding recv_attr_def Let_def len ty val
      by (simp add: Pair NLA_U32 NLA_ALIGN_def)
  next
    case (NLA_STRING s)
    let ?b = "pre @ nla_bytes av @ post"
    let ?pad = "replicate (NLA_ALIGN (length s + 5) - (length s + 5)) 0"
    have ok: "a = XNL_ATTR_GENMSG" "CHR 0x00 \<notin> set s" "length s + 5 < 65536"
      using assms by (simp_all add: Pair NLA_STRING)
    have b: "?b = pre @ bytes16 (of_nat (length s + 5)) @ bytes16 (attr_code a) @ map byte_of_char s @ 0 # ?pad @ post"
      by (simp add: Pair NLA_STRING)
    have len: "unat (get16 ?b (length pre)) = length s + 5"
      unfolding b get16_bytes using ok(3) by (simp add: unat_of_nat del: of_nat_add of_nat_numeral)
    have ty: "get16 ?b (length pre + 2) = 0"
      using get16_bytes [of "pre @ bytes16 (of_nat (length s + 5))" "attr_code a"] by (simp add: b ok(1))
    have d: "drop (length pre + 4) ?b = map byte_of_char s @ 0 # ?pad @ post"
      by (simp add: b)
    have tw: "takeWhile (\<lambda>x. x \<noteq> 0) (map byte_of_char s @ 0 # ?pad @ post) = map byte_of_char s"
      using ok(2) by (subst takeWhile_append2) (auto simp: byte_of_char_zero)
    have str: "cstring_at ?b (length pre + 4) = Some s"
      unfolding cstring_at_def Let_def d tw by (simp add: o_def)
    have room: "\<not> length ?b < length pre + 4"
      by (simp add: b)
    have "recv_attr ?b (length pre) x out =
      (Inr (), x\<lparr>xi_attr_mask := xi_attr_mask x OR push_bit 0 1\<rparr>, out @ [EOL @ s @ EOL], NLA_ALIGN (length s + 5))"
      unfolding recv_attr_def Let_def len ty str using room by simp
    moreover have "length (nla_bytes av) = NLA_ALIGN (length s + 5)"
      using align_ge [of "length s + 5"] by (simp add: Pair NLA_STRING)
    ultimately show ?thesis
      by (simp add: Pair NLA_STRING ok(1))
  qed
qed

lemma nla_bytes_nonempty: "0 < length (nla_bytes av)"
  by (cases av rule: nla_bytes.cases) simp_all

lemma recv_loop_wire:
  assumes "\<forall>av\<in>set as. nla_ok av" and "0 \<le> m"
  shows "recv_loop (pre @ concat (map nla_bytes as) @ post) (length pre) (int (length (concat (map nla_bytes as))) + m) x out =
    recv_loop (pre @ concat (map nla_bytes as) @ post) (length pre + length (concat (map nla_bytes as))) m
      (fold nla_apply as x) (out @ concat (map nla_text as))"
  using assms(1)
proof (induction as arbitrary: pre x out)
  case (Cons av as)
  have pos: "\<not> int (length (concat (map nla_bytes (av # as)))) + m \<le> 0"
    using nla_bytes_nonempty [of av] assms(2) by (simp del: length_greater_0_conv)
  have "recv_loop (pre @ concat (map nla_bytes (av # as)) @ post) (length pre) (int (length (concat (map nla_bytes (av # as)))) + m) x out =
    recv_loop ((pre @ nla_bytes av) @ concat (map nla_bytes as) @ post) (length (pre @ nla_bytes av))
      (int (length (concat (map nla_bytes as))) + m) (nla_apply av x) (out @ nla_text av)"
    using recv_attr_wire [of av pre "concat (map nla_bytes as) @ post" x out] Cons.prems pos
    by (subst recv_loop.simps) simp
  then show ?case
    using Cons.IH [of "pre @ nla_bytes av" "nla_apply av x" "out @ nla_text av"] Cons.prems by (simp add: add.assoc)
qed simp

lemma recv_attrs_msg:
  assumes "\<forall>av\<in>set as. nla_ok av" and "xm_data msg = concat (map nla_bytes as) @ rest"
    and "nlmsg_len (xm_hdr msg) = 20 + of_nat (length (concat (map nla_bytes as)))" and "length (concat (map nla_bytes as)) < 0x80000000"
  shows "recv_attrs msg x = Some (Inr (), fold nla_apply as (x\<lparr>xi_attr_mask := 0\<rparr>), concat (map nla_text as))"
proof -
  have "sint (of_nat (length (concat (map nla_bytes as))) :: u32) = int (length (concat (map nla_bytes as)))"
    using assms(4) by (simp add: sint_uint uint_nat unat_of_nat signed_take_bit_int_eq_self)
  then show ?thesis
    using recv_loop_wire [OF assms(1), of 0 "[]" rest] assms(2,3)
    by (simp add: recv_attrs_def recv_loop.simps [of _ "length (concat (map nla_bytes as))" 0])
qed

text \<open>
  C32: Reading back a reply. For every list of attributes the kernel module can send (numbers, and
  texts without the byte 0), the program reads from the message exactly these values and prints exactly
  these texts, in their order, and comes to an end.
\<close>

theorem recv_attrs_wire:
  assumes "\<forall>av\<in>set as. nla_ok av" and "xm_data msg = concat (map nla_bytes as) @ rest"
    and "nlmsg_len (xm_hdr msg) = 20 + of_nat (length (concat (map nla_bytes as)))" and "length (concat (map nla_bytes as)) < 0x80000000"
  shows "recv_attrs msg x = Some (Inr (), fold nla_apply as (x\<lparr>xi_attr_mask := 0\<rparr>), concat (map nla_text as))"
  by (rule recv_attrs_msg [OF assms])

section \<open>An attribute without length\<close>

text \<open>Whether an attribute is read and its length do not depend on what was read before.\<close>

lemma recv_attr_indep:
  "fst (recv_attr b p x out) = fst (recv_attr b p y out')" "snd (snd (snd (recv_attr b p x out))) = snd (snd (snd (recv_attr b p y out')))"
  by (auto simp: recv_attr_def Let_def split: option.splits)

definition stuck_at :: "u8 list \<Rightarrow> nat \<Rightarrow> int \<Rightarrow> bool" where
  "stuck_at b p maxlen \<longleftrightarrow> 0 < maxlen \<and> fst (recv_attr b p zero_xcmd []) = Inr () \<and> get16 b p = 0"

lemma recv_attr_zero_len: "get16 b p = 0 \<Longrightarrow> snd (snd (snd (recv_attr b p x out))) = 0"
  by (auto simp: recv_attr_def Let_def NLA_ALIGN_def split: option.splits)

lemma stuck_step:
  assumes "stuck_at b p maxlen"
  obtains x' out' where "recv_attr b p x out = (Inr (), x', out', 0)"
proof -
  have "fst (recv_attr b p x out) = Inr ()" "snd (snd (snd (recv_attr b p x out))) = 0"
    using assms recv_attr_indep(1) [of b p x out zero_xcmd "[]"] by (simp_all add: stuck_at_def recv_attr_zero_len)
  then show ?thesis
    using that by (metis prod.collapse)
qed

lemma stuck_diverges:
  assumes "stuck_at b p maxlen"
  shows "recv_loop b p maxlen x out = None"
proof (rule ccontr)
  assume "recv_loop b p maxlen x out \<noteq> None"
  then obtain y where "recv_loop b p maxlen x out = Some y"
    by blast
  then have "\<not> stuck_at b p maxlen"
  proof (rule recv_loop.raw_induct [where P = "\<lambda>b p m x out y. \<not> stuck_at b p m", rotated])
    fix f b p m x out y
    assume IH: "\<And>b p m x out y. f b p m x out = Some y \<Longrightarrow> \<not> stuck_at b p m"
      and run: "(if m \<le> 0 then Some (Inr (), x, out)
         else case recv_attr b p x out of
                (Inl err, xcmd, out, len) \<Rightarrow> Some (Inl err, xcmd, out)
              | (Inr _, xcmd, out, len) \<Rightarrow> f b (p + len) (m - int len) xcmd out) = Some y"
    show "\<not> stuck_at b p m"
    proof
      assume stuck: "stuck_at b p m"
      then obtain x' out' where "recv_attr b p x out = (Inr (), x', out', 0)"
        by (rule stuck_step)
      then have "f b p m x' out' = Some y"
        using run stuck by (simp add: stuck_at_def)
      then show False
        using IH stuck by blast
    qed
  qed
  then show False
    using assms by blast
qed

text \<open>
  A reply whose header announces more than its attributes hold makes the program run forever: behind
  the attributes the buffer holds zeros, an attribute of length 0, over which the loop makes no
  progress. It keeps printing empty texts.
\<close>

lemma recv_attrs_diverges:
  assumes "\<forall>av\<in>set as. nla_ok av" and "xm_data msg = concat (map nla_bytes as) @ replicate (n + 5) 0"
    and "sint (nlmsg_len (xm_hdr msg) - 20) > int (length (concat (map nla_bytes as)))"
  shows "recv_attrs msg x = None"
proof -
  let ?b = "xm_data msg" and ?p = "length (concat (map nla_bytes as))"
  define m where "m = sint (nlmsg_len (xm_hdr msg) - 20) - int ?p"
  have m: "sint (nlmsg_len (xm_hdr msg) - 20) = int ?p + m" "0 < m"
    using assms(3) by (simp_all add: m_def)
  have z: "replicate (n + 5) (0 :: u8) = 0 # 0 # 0 # 0 # 0 # replicate n 0"
    by (simp add: numeral_eq_Suc)
  have g: "get16 ?b ?p = 0" "get16 ?b (?p + 2) = 0"
    unfolding assms(2) z by (simp_all add: get16_def nth_append)
  have "cstring_at ?b (?p + 4) = Some []"
    unfolding assms(2) z by (simp add: cstring_at_def)
  then have "stuck_at ?b ?p m"
    using m(2) g unfolding stuck_at_def recv_attr_def Let_def by (simp add: assms(2))
  then show ?thesis
    using recv_loop_wire [OF assms(1), of m "[]" "replicate (n + 5) 0"] m assms(2)
    by (simp add: recv_attrs_def stuck_diverges)
qed

section \<open>The bytes of a request\<close>

definition u32_attrs :: "(xnl_attr_t \<times> u32) list \<Rightarrow> u8 list" where
  "u32_attrs as = concat (map (\<lambda>(a, v). nla_bytes (a, NLA_U32 v)) as)"

lemma length_u32_attrs [simp]: "length (u32_attrs as) = 8 * length as"
  by (induction as) (auto simp: u32_attrs_def)

lemma add_attrs_bytes:
  assumes "nlmsg_len (xm_hdr msg) = 20 + of_nat n" and "n + 8 * length as \<le> length (xm_data msg)" and "length (xm_data msg) \<le> 1024"
  shows "add_attrs as msg =
    Inr \<lparr>xm_hdr = (xm_hdr msg)\<lparr>nlmsg_len := 20 + of_nat (n + 8 * length as)\<rparr>,
         xm_data = take n (xm_data msg) @ u32_attrs as @ drop (n + 8 * length as) (xm_data msg)\<rparr>"
  using assms
proof (induction as arbitrary: msg n)
  case Nil
  then show ?case
    by (simp add: u32_attrs_def)
next
  case (Cons av as)
  obtain a v where av: "av = (a, v)"
    by fastforce
  have off: "unat (nlmsg_len (xm_hdr msg)) - 20 = n"
    using Cons.prems by (simp add: unat_word_ariths unat_of_nat)
  let ?enc = "bytes16 8 @ bytes16 (attr_code a) @ bytes32 v"
  let ?data = "take n (xm_data msg) @ ?enc @ drop (n + 8) (xm_data msg)"
  let ?msg = "\<lparr>xm_hdr = (xm_hdr msg)\<lparr>nlmsg_len := nlmsg_len (xm_hdr msg) + 8\<rparr>, xm_data = ?data\<rparr>"
  have add: "xnl_msg_add_int_attr msg a v = Inr ?msg"
    using Cons.prems unfolding xnl_msg_add_int_attr_def off by (simp add: put_bytes_def)
  have "add_attrs as ?msg = Inr \<lparr>xm_hdr = (xm_hdr ?msg)\<lparr>nlmsg_len := 20 + of_nat (n + 8 + 8 * length as)\<rparr>,
         xm_data = take (n + 8) (xm_data ?msg) @ u32_attrs as @ drop (n + 8 + 8 * length as) (xm_data ?msg)\<rparr>"
    using Cons.prems by (intro Cons.IH) simp_all
  then show ?case
    using Cons.prems add by (simp add: av u32_attrs_def algebra_simps)
qed

lemma req_attrs_short: "length (req_attrs x) \<le> 6"
  by (simp add: req_attrs_def Let_def split: xnl_op_t.splits)

lemma request_bytes:
  "add_attrs (req_attrs x) \<lparr>xm_hdr = xnl_msg_set_hdr pid hdr family op, xm_data = replicate (xnl_dlen op') 0\<rparr> =
     Inr \<lparr>xm_hdr = (xnl_msg_set_hdr pid hdr family op)\<lparr>nlmsg_len := 20 + of_nat (8 * length (req_attrs x))\<rparr>,
          xm_data = u32_attrs (req_attrs x) @ replicate (xnl_dlen op' - 8 * length (req_attrs x)) 0\<rparr>"
proof -
  have "8 * length (req_attrs x) \<le> xnl_dlen op'" "xnl_dlen op' \<le> 1024"
    using req_attrs_short [of x] by (simp_all add: xnl_dlen_def XNL_RESP_BUFLEN_MIN_def XNL_RESP_BUFLEN_MAX_def)
  then show ?thesis
    by (subst add_attrs_bytes [where n = 0]) (simp_all add: xnl_msg_set_hdr_def)
qed

section \<open>What the program does to sockets and memory\<close>

text \<open>
  An interface that keeps a record: the sockets opened and closed, the messages sent, the bytes behind the
  headers of the messages received, the buffers in use. Otherwise it does what the interface below does.
\<close>

record cli_log =
  cl_opened :: "int list"
  cl_closed :: "int list"
  cl_sent :: "(xnl_hdr \<times> u8 list) list"
  cl_got :: "u8 list list"
  cl_bufs :: int

definition lift_bar :: "'k bar_if \<Rightarrow> ('k \<times> 'l) bar_if" where
  "lift_bar B =
     \<lparr>bi_open = (\<lambda>f wr (k, l). case bi_open B f wr k of (fd, k) \<Rightarrow> (fd, k, l)),
      bi_mmap = (\<lambda>fd len wr (k, l). case bi_mmap B fd len wr k of (ok, k) \<Rightarrow> (ok, k, l)),
      bi_close = (\<lambda>fd (k, l). (bi_close B fd k, l)),
      bi_munmap = (\<lambda>len (k, l). (bi_munmap B len k, l)),
      bi_load = (\<lambda>f i (k, l). case bi_load B f i k of (v, k) \<Rightarrow> (v, k, l)),
      bi_store = (\<lambda>f i v (k, l). (bi_store B f i v k, l))\<rparr>"

definition log_sock :: "'k sock_if \<Rightarrow> ('k \<times> cli_log) sock_if" where
  "log_sock S =
     \<lparr>si_malloc = (\<lambda>n (k, l). case si_malloc S n k of (ok, k) \<Rightarrow> (ok, k, l\<lparr>cl_bufs := cl_bufs l + of_bool ok\<rparr>)),
      si_free = (\<lambda>(k, l). (si_free S k, l\<lparr>cl_bufs := cl_bufs l - 1\<rparr>)),
      si_socket = (\<lambda>(k, l). case si_socket S k of (fd, k) \<Rightarrow> (fd, k, if fd < 0 then l else l\<lparr>cl_opened := cl_opened l @ [fd]\<rparr>)),
      si_bind = (\<lambda>fd (k, l). case si_bind S fd k of (rv, k) \<Rightarrow> (rv, k, l)),
      si_sendto = (\<lambda>fd hdr b (k, l). case si_sendto S fd hdr b k of (rv, k) \<Rightarrow> (rv, k, l\<lparr>cl_sent := cl_sent l @ [(hdr, b)]\<rparr>)),
      si_recv = (\<lambda>fd n (k, l). case si_recv S fd n k of (rv, hdr, b, k) \<Rightarrow> (rv, hdr, b, k, l\<lparr>cl_got := cl_got l @ [b]\<rparr>)),
      si_close = (\<lambda>fd (k, l). (si_close S fd k, l\<lparr>cl_closed := cl_closed l @ [fd]\<rparr>)),
      si_pid = si_pid S,
      si_print = (\<lambda>s (k, l). (si_print S s k, l)),
      si_bar = lift_bar (si_bar S)\<rparr>"

lemma send_log:
  assumes "xnl_send (log_sock S) cb msg (k, l) = (rv, cb', k', l')"
  shows "l' = l\<lparr>cl_sent := cl_sent l @ [((xm_hdr msg)\<lparr>nlmsg_seq := cb_snd_seq cb\<rparr>,
      take (unat (nlmsg_len (xm_hdr msg)) - 20) (xm_data msg))]\<rparr>"
    and "cb' = cb\<lparr>cb_snd_seq := cb_snd_seq cb + 1\<rparr>"
  using assms by (auto simp: xnl_send_def log_sock_def Let_def split: prod.splits)

lemma recv_log:
  assumes "xnl_recv (log_sock S) cb n (k, l) = (rv, k', l')"
  obtains b where "l' = l\<lparr>cl_got := cl_got l @ [b]\<rparr>" "\<forall>msg. rv = Inr msg \<longrightarrow> xm_data msg = b @ replicate (n - length b) 0"
  using assms by (auto simp: xnl_recv_def log_sock_def split: prod.splits if_splits)

lemma alloc_log:
  "xnl_msg_alloc_user (log_sock S) n (k, l) = (m, k', l') \<Longrightarrow>
     l' = l\<lparr>cl_bufs := cl_bufs l + of_bool (m \<noteq> None)\<rparr> \<and> (m = None \<or> m = Some \<lparr>xm_hdr = zero_hdr, xm_data = replicate n 0\<rparr>)"
  by (auto simp: xnl_msg_alloc_user_def log_sock_def split: prod.splits bool.splits)

lemma free_log [simp]: "si_free (log_sock S) (k, l) = (si_free S k, l\<lparr>cl_bufs := cl_bufs l - 1\<rparr>)"
  by (simp add: log_sock_def)

lemma print_log: "fold (si_print (log_sock S)) out (k, l) = (fold (si_print S) out k, l)"
  by (induction out arbitrary: k) (simp_all add: log_sock_def)

lemma close_log [simp]: "xnl_close (log_sock S) cb (k, l) = (si_close S (cb_fd cb) k, l\<lparr>cl_closed := cl_closed l @ [cb_fd cb]\<rparr>)"
  by (simp add: xnl_close_def log_sock_def)

text \<open>
  The question for a family, and how the kernel's answer to it starts: the attribute with the
  name, two bytes of padding included, then the attribute with the number.
\<close>

definition family_name :: "bool \<Rightarrow> u8 list" where
  "family_name vf = bytes16 11 @ bytes16 2 @ map byte_of_char (if vf then ''xnl_vf'' else ''xnl_pf'') @ [0, 0]"

definition family_msg :: "u32 \<Rightarrow> bool \<Rightarrow> u32 \<Rightarrow> xnl_hdr \<times> u8 list" where
  "family_msg pid vf seq =
     (\<lparr>nlmsg_len = 32, nlmsg_type = 0x10, nlmsg_flags = 1, nlmsg_seq = seq, nlmsg_pid = pid, gh_cmd = 3, gh_version = 1\<rparr>, family_name vf)"

definition family_reply :: "bool \<Rightarrow> u16 \<Rightarrow> u8 list" where
  "family_reply vf fam = family_name vf @ bytes16 6 @ bytes16 1 @ bytes16 fam"

lemma family_request_msg:
  assumes "family_request pid vf \<lparr>xm_hdr = zero_hdr, xm_data = replicate XNL_RESP_BUFLEN_MIN 0\<rparr> = rv"
  shows "\<exists>m. rv = Inr m \<and>
    ((xm_hdr m)\<lparr>nlmsg_seq := seq\<rparr>, take (unat (nlmsg_len (xm_hdr m)) - 20) (xm_data m)) = family_msg pid vf seq"
  using assms
  by (cases vf) (auto simp: family_request_def Let_def put_bytes_def family_msg_def family_name_def zero_hdr_def NLA_ALIGN_def
      XNL_NAME_PF_def XNL_NAME_VF_def XNL_RESP_BUFLEN_MIN_def bytes16_def)

lemma read_family_reply: "read_family (family_reply vf fam @ rest) cb = Inr (cb\<lparr>cb_family := fam\<rparr>)"
  by (cases vf) (simp_all add: read_family_def family_reply_def family_name_def bytes16_def get16_def NLA_ALIGN_def word16_split nth_append)

text \<open>
  Connecting: at most one socket is opened and at most one message sent, memory is given back. If it
  succeeds the message was the question for the family, and one answer was read.
\<close>

definition connects :: "u32 \<Rightarrow> bool \<Rightarrow> unit res \<Rightarrow> xnl_cb \<Rightarrow> xnl_cb \<Rightarrow> cli_log \<Rightarrow> cli_log \<Rightarrow> bool" where
  "connects pid vf rv cb cb' l l' \<longleftrightarrow>
     (\<exists>fs ms gs. l' = l\<lparr>cl_opened := cl_opened l @ fs, cl_sent := cl_sent l @ ms, cl_got := cl_got l @ gs\<rparr>
        \<and> (fs = [] \<and> cb_fd cb' = cb_fd cb \<and> rv \<noteq> Inr () \<or> fs = [cb_fd cb'])
        \<and> (rv = Inr () \<longrightarrow> ms = [family_msg pid vf (cb_snd_seq cb)] \<and> cb_snd_seq cb' = cb_snd_seq cb + 1
             \<and> (\<exists>b. gs = [b] \<and> (\<forall>fam rest. b = family_reply vf fam @ rest \<longrightarrow> cb_family cb' = fam))))"

lemma connects_fail: "connects pid vf (Inl err) cb cb l l"
  unfolding connects_def by (intro exI [of _ "[]"]) simp

lemma connects_open: "connects pid vf (Inl err) cb cb' l (l\<lparr>cl_opened := cl_opened l @ [cb_fd cb'], cl_sent := cl_sent l @ ms, cl_got := cl_got l @ gs\<rparr>)"
  unfolding connects_def by (intro exI [of _ "[cb_fd cb']"] exI [of _ ms] exI [of _ gs]) simp

lemma connects_answer:
  assumes "read_family (b @ pad) (cb\<lparr>cb_fd := fd, cb_snd_seq := cb_snd_seq cb + 1\<rparr>) = Inr cb'" and "cb_fd cb' = fd"
  shows "connects pid vf (Inr ()) cb cb' l
    (l\<lparr>cl_opened := cl_opened l @ [fd], cl_sent := cl_sent l @ [family_msg pid vf (cb_snd_seq cb)], cl_got := cl_got l @ [b]\<rparr>)"
proof -
  have "cb_family cb' = fam" if "b = family_reply vf fam @ rest" for fam rest
    using assms(1) that read_family_reply [of vf fam "rest @ pad"] by auto
  moreover have "cb_snd_seq cb' = cb_snd_seq cb + 1"
    using assms(1) by (auto simp: read_family_def Let_def split: if_splits)
  ultimately show ?thesis
    unfolding connects_def using assms(2)
    by (intro exI [of _ "[fd]"] exI [of _ "[family_msg pid vf (cb_snd_seq cb)]"] exI [of _ "[b]"]) auto
qed

lemma read_family_fd: "read_family b cb = Inr cb' \<Longrightarrow> cb_fd cb' = cb_fd cb"
  by (auto simp: read_family_def Let_def split: if_splits)

lemma connect_msg_log:
  assumes "xnl_connect_msg (log_sock S) cb vf \<lparr>xm_hdr = zero_hdr, xm_data = replicate XNL_RESP_BUFLEN_MIN 0\<rparr> (k, l) = (rv, cb', k', l')"
  shows "connects (si_pid S) vf rv cb cb' l l'"
proof -
  obtain fd k1 where so: "si_socket S k = (fd, k1)"
    by (metis surj_pair)
  obtain b k2 where bi: "si_bind S fd k1 = (b, k2)"
    by (metis surj_pair)
  let ?cb = "cb\<lparr>cb_fd := fd\<rparr>" and ?l = "l\<lparr>cl_opened := cl_opened l @ [fd]\<rparr>" and ?m = "family_msg (si_pid S) vf (cb_snd_seq cb)"
  have so': "si_socket (log_sock S) (k, l) = (fd, k1, if fd < 0 then l else ?l)"
    and bi': "si_bind (log_sock S) fd (k1, ?l) = (b, k2, ?l)" and pid: "si_pid (log_sock S) = si_pid S"
    by (simp_all add: log_sock_def so bi)
  have opened: "connects (si_pid S) vf (Inl err) cb c l
      (l\<lparr>cl_opened := cl_opened l @ [cb_fd c], cl_sent := cl_sent l @ ms, cl_got := cl_got l @ gs\<rparr>)" for err c ms gs
    by (rule connects_open)
  show ?thesis
  proof (cases "fd < 0 \<or> b < 0")
    case True
    then show ?thesis
      using assms connects_fail [of "si_pid S" vf "Other fd" cb l] opened [of "Other b" "?cb" "[]" "[]"] unfolding xnl_connect_msg_def
      by (auto simp: so' bi' split: if_splits)
  next
    case False
    obtain m where m: "family_request (si_pid S) vf \<lparr>xm_hdr = zero_hdr, xm_data = replicate XNL_RESP_BUFLEN_MIN 0\<rparr> = Inr m"
      "((xm_hdr m)\<lparr>nlmsg_seq := cb_snd_seq cb\<rparr>, take (unat (nlmsg_len (xm_hdr m)) - 20) (xm_data m)) = ?m"
      using family_request_msg [OF refl, of "si_pid S" vf "cb_snd_seq cb"] by blast
    obtain rv1 cb1 k3 l3 where se: "xnl_send (log_sock S) ?cb m (k2, ?l) = (rv1, cb1, k3, l3)"
      by (metis surj_pair)
    have l3: "l3 = ?l\<lparr>cl_sent := cl_sent l @ [?m]\<rparr>" and cb1: "cb1 = cb\<lparr>cb_fd := fd, cb_snd_seq := cb_snd_seq cb + 1\<rparr>"
      using send_log [OF se] m(2) by simp_all
    obtain rv2 k4 l4 where re: "xnl_recv (log_sock S) cb1 XNL_RESP_BUFLEN_MIN (k3, l3) = (rv2, k4, l4)"
      by (metis surj_pair)
    obtain g where g: "l4 = l3\<lparr>cl_got := cl_got l3 @ [g]\<rparr>"
      "\<forall>msg. rv2 = Inr msg \<longrightarrow> xm_data msg = g @ replicate (XNL_RESP_BUFLEN_MIN - length g) 0"
      by (rule recv_log [OF re])
    note run = assms [unfolded xnl_connect_msg_def so' pid, simplified False bi' m(1) se re]
    consider (sent) err where "rv = Inl err" "cb' = cb1" "l' = l3" | (got) err where "rv = Inl err" "cb' = cb1" "l' = l4"
      | (ok) msg where "rv = Inr ()" "l' = l4" "rv2 = Inr msg" "read_family (xm_data msg) cb1 = Inr cb'"
      using run False by (auto simp: bi' m(1) se re split: sum.splits if_splits)
    then show ?thesis
    proof cases
      case sent
      then show ?thesis
        using opened [of err cb1 "[]" "[?m]"] l3 cb1 by simp
    next
      case got
      then show ?thesis
        using opened [of err cb1 "[g]" "[?m]"] l3 cb1 g(1) by simp
    next
      case ok
      then show ?thesis
        using connects_answer [of g "replicate (XNL_RESP_BUFLEN_MIN - length g) 0" cb fd cb' "si_pid S" vf l] g l3 cb1
          read_family_fd [OF ok(4)] by simp
    qed
  qed
qed

lemma connect_log:
  assumes "xnl_connect (log_sock S) cb vf (k, l) = (rv, cb', k', l')"
  shows "connects (si_pid S) vf rv cb cb' l l'"
proof -
  obtain m k1 l1 where al: "xnl_msg_alloc_user (log_sock S) XNL_RESP_BUFLEN_MIN (k, l) = (m, k1, l1)"
    by (metis surj_pair)
  show ?thesis
  proof (cases m)
    case None
    then show ?thesis
      using assms alloc_log [OF al] connects_fail by (auto simp: xnl_connect_def al)
  next
    case (Some msg)
    have l1: "l1 = l\<lparr>cl_bufs := cl_bufs l + 1\<rparr>" "msg = \<lparr>xm_hdr = zero_hdr, xm_data = replicate XNL_RESP_BUFLEN_MIN 0\<rparr>"
      using alloc_log [OF al] Some by simp_all
    obtain rv1 cb1 k2 l2 where co: "xnl_connect_msg (log_sock S) cb vf msg (k1, l1) = (rv1, cb1, k2, l2)"
      by (metis surj_pair)
    have res: "rv = rv1" "cb' = cb1" "l' = l2\<lparr>cl_bufs := cl_bufs l2 - 1\<rparr>"
      using assms Some by (simp_all add: xnl_connect_def al co)
    have "connects (si_pid S) vf rv1 cb cb1 l1 l2"
      by (rule connect_msg_log [OF co [unfolded l1(2)]])
    then obtain fs ms gs where "l2 = l1\<lparr>cl_opened := cl_opened l1 @ fs, cl_sent := cl_sent l1 @ ms, cl_got := cl_got l1 @ gs\<rparr>"
      "fs = [] \<and> cb_fd cb1 = cb_fd cb \<and> rv1 \<noteq> Inr () \<or> fs = [cb_fd cb1]"
      "rv1 = Inr () \<longrightarrow> ms = [family_msg (si_pid S) vf (cb_snd_seq cb)] \<and> cb_snd_seq cb1 = cb_snd_seq cb + 1
         \<and> (\<exists>b. gs = [b] \<and> (\<forall>fam rest. b = family_reply vf fam @ rest \<longrightarrow> cb_family cb1 = fam))"
      unfolding connects_def by blast
    then show ?thesis
      unfolding connects_def using res l1(1) by (intro exI [of _ fs] exI [of _ ms] exI [of _ gs]) simp
  qed
qed

text \<open>Sending a command: the sockets stay as they are and memory is given back.\<close>

definition request_msg :: "u32 \<Rightarrow> xnl_cb \<Rightarrow> xcmd_info \<Rightarrow> xnl_hdr \<times> u8 list" where
  "request_msg pid cb x =
     ((xnl_msg_set_hdr pid zero_hdr (cb_family cb) (xi_op x))\<lparr>nlmsg_len := 20 + of_nat (8 * length (req_attrs x)), nlmsg_seq := cb_snd_seq cb\<rparr>,
      u32_attrs (req_attrs x))"

lemma recv_attr_keeps:
  "recv_attr b p x out = (rv, x', out', n) \<Longrightarrow>
     xi_qparm x' = xi_qparm x \<and> xi_reg x' = xi_reg x \<and> xi_if_idx x' = xi_if_idx x \<and> xi_op x' = xi_op x \<and> xi_vf x' = xi_vf x"
  by (auto simp: recv_attr_def Let_def split: if_splits option.splits)

lemma recv_loop_keeps:
  assumes "recv_loop b p m x out = Some (rv, x', out')"
  shows "xi_qparm x' = xi_qparm x \<and> xi_reg x' = xi_reg x \<and> xi_if_idx x' = xi_if_idx x \<and> xi_op x' = xi_op x \<and> xi_vf x' = xi_vf x"
proof -
  define K where "K x x' \<longleftrightarrow> xi_qparm x' = xi_qparm x \<and> xi_reg x' = xi_reg x \<and> xi_if_idx x' = xi_if_idx x \<and> xi_op x' = xi_op x \<and> xi_vf x' = xi_vf x"
    for x x' :: xcmd_info
  have "K x (fst (snd (rv, x', out')))"
    using assms
  proof (rule recv_loop.raw_induct [where P = "\<lambda>b p m x out y. K x (fst (snd y))", rotated])
    fix f b p m x out y
    assume IH: "\<And>b p m x out y. f b p m x out = Some y \<Longrightarrow> K x (fst (snd y))"
      and run: "(if m \<le> 0 then Some (Inr (), x, out)
         else case recv_attr b p x out of
                (Inl err, xcmd, out, len) \<Rightarrow> Some (Inl err, xcmd, out)
              | (Inr _, xcmd, out, len) \<Rightarrow> f b (p + len) (m - int len) xcmd out) = Some y"
    obtain rv x1 out1 n where ra: "recv_attr b p x out = (rv, x1, out1, n)"
      by (metis surj_pair)
    then have "K x x1"
      using recv_attr_keeps K_def by blast
    then show "K x (fst (snd y))"
      using run IH [of b "p + n" "m - int n" x1 out1 y]
      by (auto simp: ra K_def split: if_splits sum.splits)
  qed
  then show ?thesis
    by (simp add: K_def)
qed

lemma recv_nl_msg_keeps:
  assumes "recv_nl_msg msg x = Some (rv, x', out')"
  shows "xi_qparm x' = xi_qparm x" "xi_reg x' = xi_reg x" "xi_if_idx x' = xi_if_idx x" "xi_op x' = xi_op x" "xi_vf x' = xi_vf x"
  using assms recv_loop_keeps [of "xm_data msg" 0 "sint (nlmsg_len (xm_hdr msg) - 20)" "x\<lparr>xi_attr_mask := 0\<rparr>" "[]"]
  by (auto simp: recv_nl_msg_def recv_attrs_def Let_def split: option.splits if_splits)

lemma send_cmd_log:
  assumes "xnl_send_cmd (log_sock S) cb x (k, l) = Some (rv, cb', x', k', l')"
  shows "cb_fd cb' = cb_fd cb" and "\<exists>ms gs. l' = l\<lparr>cl_sent := cl_sent l @ ms, cl_got := cl_got l @ gs\<rparr>"
    and "rv = Inr () \<Longrightarrow> cb' = cb\<lparr>cb_snd_seq := cb_snd_seq cb + 1\<rparr>
      \<and> (\<exists>g. l' = l\<lparr>cl_sent := cl_sent l @ [request_msg (si_pid S) cb x], cl_got := cl_got l @ [g]\<rparr>)"
    and "xi_qparm x' = xi_qparm x \<and> xi_reg x' = xi_reg x \<and> xi_if_idx x' = xi_if_idx x \<and> xi_op x' = xi_op x \<and> xi_vf x' = xi_vf x"
proof -
  obtain m k1 l1 where al: "xnl_msg_alloc_user (log_sock S) (xnl_dlen (xi_op x)) (k, l) = (m, k1, l1)"
    by (metis surj_pair)
  have pid: "si_pid (log_sock S) = si_pid S"
    by (simp add: log_sock_def)
  have *: "cb_fd cb' = cb_fd cb \<and> (\<exists>ms gs. l' = l\<lparr>cl_sent := cl_sent l @ ms, cl_got := cl_got l @ gs\<rparr>
      \<and> (rv = Inr () \<longrightarrow> cb' = cb\<lparr>cb_snd_seq := cb_snd_seq cb + 1\<rparr> \<and> ms = [request_msg (si_pid S) cb x] \<and> length gs = 1))
    \<and> xi_qparm x' = xi_qparm x \<and> xi_reg x' = xi_reg x \<and> xi_if_idx x' = xi_if_idx x \<and> xi_op x' = xi_op x \<and> xi_vf x' = xi_vf x"
  proof (cases m)
    case None
    then show ?thesis
      using assms alloc_log [OF al] by (auto simp: xnl_send_cmd_def al intro!: exI [of _ "[]"])
  next
    case (Some msg)
    have msg: "msg = \<lparr>xm_hdr = zero_hdr, xm_data = replicate (xnl_dlen (xi_op x)) 0\<rparr>" and l1: "l1 = l\<lparr>cl_bufs := cl_bufs l + 1\<rparr>"
      using alloc_log [OF al] Some by simp_all
    define req where "req = \<lparr>xm_hdr = (xnl_msg_set_hdr (si_pid S) zero_hdr (cb_family cb) (xi_op x))\<lparr>nlmsg_len := 20 + of_nat (8 * length (req_attrs x))\<rparr>,
          xm_data = u32_attrs (req_attrs x) @ replicate (xnl_dlen (xi_op x) - 8 * length (req_attrs x)) 0\<rparr>"
    have len: "unat (nlmsg_len (xm_hdr req)) - 20 = 8 * length (req_attrs x)"
      using req_attrs_short [of x] by (simp add: req_def unat_word_ariths unat_of_nat)
    have add: "add_attrs (req_attrs x) (msg\<lparr>xm_hdr := xnl_msg_set_hdr (si_pid (log_sock S)) (xm_hdr msg) (cb_family cb) (xi_op x)\<rparr>) = Inr req"
      unfolding msg pid req_def by (simp add: request_bytes)
    obtain rv1 cb1 k2 l2 where se: "xnl_send (log_sock S) cb req (k1, l1) = (rv1, cb1, k2, l2)"
      by (metis surj_pair)
    have l2: "l2 = l1\<lparr>cl_sent := cl_sent l1 @ [request_msg (si_pid S) cb x]\<rparr>" and cb1: "cb1 = cb\<lparr>cb_snd_seq := cb_snd_seq cb + 1\<rparr>"
      using send_log [OF se] len by (simp_all add: request_msg_def req_def)
    obtain rv2 k3 l3 where re: "xnl_recv (log_sock S) cb1 (xnl_dlen (xi_op x)) (k2, l2) = (rv2, k3, l3)"
      by (metis surj_pair)
    obtain g where l3: "l3 = l2\<lparr>cl_got := cl_got l2 @ [g]\<rparr>"
      by (rule recv_log [OF re])
    have run: "(case xnl_send_msg (log_sock S) cb x msg (k1, l1) of None \<Rightarrow> None
        | Some (rv, cb, x, k) \<Rightarrow> Some (rv, cb, x, si_free (log_sock S) k)) = Some (rv, cb', x', k', l')"
      using assms Some by (simp add: xnl_send_cmd_def al)
    then obtain k4 l4 where sm: "xnl_send_msg (log_sock S) cb x msg (k1, l1) = Some (rv, cb', x', k4, l4)"
      and l': "l' = l4\<lparr>cl_bufs := cl_bufs l4 - 1\<rparr>"
      by (auto split: option.splits)
    have fin: "cb' = cb1 \<and> (l4 = l2 \<and> rv \<noteq> Inr () \<or> l4 = l3)
      \<and> xi_qparm x' = xi_qparm x \<and> xi_reg x' = xi_reg x \<and> xi_if_idx x' = xi_if_idx x \<and> xi_op x' = xi_op x \<and> xi_vf x' = xi_vf x"
      using sm unfolding xnl_send_msg_def add
      by (auto simp: se re print_log split: sum.splits option.splits dest: recv_nl_msg_keeps)
    define gs where "gs = (if l4 = l3 then [g] else [])"
    have "l' = l\<lparr>cl_sent := cl_sent l @ [request_msg (si_pid S) cb x], cl_got := cl_got l @ gs\<rparr>" "rv = Inr () \<longrightarrow> length gs = 1"
      using fin l1 l2 l3 l' by (auto simp: gs_def)
    then show ?thesis
      using fin cb1 by (intro conjI exI [of _ "[request_msg (si_pid S) cb x]"] exI [of _ gs]) simp_all
  qed
  then show "cb_fd cb' = cb_fd cb" "\<exists>ms gs. l' = l\<lparr>cl_sent := cl_sent l @ ms, cl_got := cl_got l @ gs\<rparr>"
    "rv = Inr () \<Longrightarrow> cb' = cb\<lparr>cb_snd_seq := cb_snd_seq cb + 1\<rparr>
      \<and> (\<exists>g. l' = l\<lparr>cl_sent := cl_sent l @ [request_msg (si_pid S) cb x], cl_got := cl_got l @ [g]\<rparr>)"
    "xi_qparm x' = xi_qparm x \<and> xi_reg x' = xi_reg x \<and> xi_if_idx x' = xi_if_idx x \<and> xi_op x' = xi_op x \<and> xi_vf x' = xi_vf x"
    by (auto simp: length_Suc_conv)
qed

section \<open>A run of the program\<close>

lemma request_msg_cong:
  "xi_qparm x = xi_qparm y \<Longrightarrow> xi_if_idx x = xi_if_idx y \<Longrightarrow> xi_op x = xi_op y \<Longrightarrow> request_msg pid cb x = request_msg pid cb y"
  by (simp add: request_msg_def req_attrs_def)

definition reg_ops :: "xnl_op_t list" where
  "reg_ops = [XNL_CMD_REG_DUMP, XNL_CMD_REG_RD, XNL_CMD_REG_WRT]"

lemma dev_cmd_log:
  assumes "dev_cmd (log_sock S) cb x (k, l) = Some (r, cb', k', l')" and "xi_op x \<notin> set reg_ops"
  shows "cb_fd cb' = cb_fd cb" and "\<exists>rv. r = Returns rv"
    and "\<exists>ms gs. l' = l\<lparr>cl_sent := cl_sent l @ ms, cl_got := cl_got l @ gs\<rparr> \<and> (r = Returns (Inr ()) \<longrightarrow>
      ms = [request_msg (si_pid S) cb (x\<lparr>xi_op := XNL_CMD_DEV_INFO\<rparr>), request_msg (si_pid S) (cb\<lparr>cb_snd_seq := cb_snd_seq cb + 1\<rparr>) x])"
proof -
  let ?info = "x\<lparr>xi_op := XNL_CMD_DEV_INFO\<rparr>" and ?cb = "cb\<lparr>cb_snd_seq := cb_snd_seq cb + 1\<rparr>"
  obtain rv1 cb1 x1 k1 l1 where s1: "xnl_send_cmd (log_sock S) cb ?info (k, l) = Some (rv1, cb1, x1, k1, l1)"
    using assms(1) by (auto simp: dev_cmd_def split: option.splits)
  obtain ms1 gs1 where l1: "l1 = l\<lparr>cl_sent := cl_sent l @ ms1, cl_got := cl_got l @ gs1\<rparr>"
    using send_cmd_log(2) [OF s1] by blast
  have "cb_fd cb' = cb_fd cb \<and> (\<exists>rv. r = Returns rv) \<and> (\<exists>ms gs. l' = l\<lparr>cl_sent := cl_sent l @ ms, cl_got := cl_got l @ gs\<rparr>
      \<and> (r = Returns (Inr ()) \<longrightarrow> ms = [request_msg (si_pid S) cb ?info, request_msg (si_pid S) ?cb x]))"
  proof (cases rv1)
    case (Inl err)
    then have "r = Returns (Inl err)" "cb' = cb1" "l' = l1"
      using assms(1) by (simp_all add: dev_cmd_def s1)
    then show ?thesis
      using send_cmd_log(1) [OF s1] l1 by blast
  next
    case (Inr u)
    let ?x = "x1\<lparr>xi_op := xi_op x\<rparr>"
    obtain rv2 cb2 x2 k2 where s2: "xnl_send_cmd (log_sock S) cb1 ?x (k1, l1) = Some (rv2, cb2, x2, k2, l')" and r: "r = Returns rv2" "cb' = cb2"
      using assms Inr by (auto simp: dev_cmd_def s1 reg_ops_def split: option.splits)
    have "request_msg (si_pid S) cb1 ?x = request_msg (si_pid S) cb1 x"
      using send_cmd_log(4) [OF s1] by (intro request_msg_cong) simp_all
    moreover obtain g where cb1: "cb1 = ?cb" "l1 = l\<lparr>cl_sent := cl_sent l @ [request_msg (si_pid S) cb ?info], cl_got := cl_got l @ [g]\<rparr>"
      using send_cmd_log(3) [OF s1] Inr by auto
    moreover obtain ms2 gs2 where l2: "l' = l1\<lparr>cl_sent := cl_sent l1 @ ms2, cl_got := cl_got l1 @ gs2\<rparr>"
      using send_cmd_log(2) [OF s2] by blast
    moreover have "ms2 = [request_msg (si_pid S) cb1 ?x]" if "rv2 = Inr ()"
      using send_cmd_log(3) [OF s2 that] l2 by (auto dest: arg_cong [where f = cl_sent])
    ultimately show ?thesis
      using send_cmd_log(1) [OF s2] r
      by (intro conjI exI [of _ "request_msg (si_pid S) cb ?info # ms2"] exI [of _ "g # gs2"]) simp_all
  qed
  then show "cb_fd cb' = cb_fd cb" "\<exists>rv. r = Returns rv"
    "\<exists>ms gs. l' = l\<lparr>cl_sent := cl_sent l @ ms, cl_got := cl_got l @ gs\<rparr> \<and> (r = Returns (Inr ()) \<longrightarrow>
      ms = [request_msg (si_pid S) cb ?info, request_msg (si_pid S) ?cb x])"
    by auto
qed

text \<open>The messages of a successful run, when the kernel's first answer gives the family \<open>fam\<close>.\<close>

definition run_msgs :: "u32 \<Rightarrow> u16 \<Rightarrow> xcmd_info \<Rightarrow> (xnl_hdr \<times> u8 list) list" where
  "run_msgs pid fam x =
     [family_msg pid (xi_vf x) 0,
      request_msg pid (zero_cb\<lparr>cb_family := fam, cb_snd_seq := 1\<rparr>) (x\<lparr>xi_op := XNL_CMD_DEV_INFO\<rparr>),
      request_msg pid (zero_cb\<lparr>cb_family := fam, cb_snd_seq := 2\<rparr>) x]"

lemma request_msg_cb: "cb_family cb = cb_family cb2 \<Longrightarrow> cb_snd_seq cb = cb_snd_seq cb2 \<Longrightarrow> request_msg pid cb x = request_msg pid cb2 x"
  by (simp add: request_msg_def)

lemma main_queue_steps:
  assumes "parse_cmd junk argv = Returns (Inr x)" and "xi_op x \<notin> set (XNL_CMD_DEV_LIST # reg_ops)"
    and "main (log_sock S) junk argv (k, \<lparr>cl_opened = [], cl_closed = [], cl_sent = [], cl_got = [], cl_bufs = 0\<rparr>) = Some (Returns rv, k', l')"
    and "rv \<noteq> Inl OOPS"
  shows "(\<exists>fd. cl_closed l' = [fd] \<and> (cl_opened l' = [fd] \<or> cl_opened l' = [] \<and> fd = 0)) \<and> cl_bufs l' = 0 \<and>
    (rv = Inr () \<longrightarrow> (\<exists>b gs fam. cl_got l' = b # gs \<and> cl_sent l' = run_msgs (si_pid S) fam x
       \<and> (\<forall>f rest. b = family_reply (xi_vf x) f @ rest \<longrightarrow> fam = f)))"
proof -
  let ?l = "\<lparr>cl_opened = [], cl_closed = [], cl_sent = [], cl_got = [], cl_bufs = 0\<rparr>"
  obtain rv1 cb k1 l1 where c: "xnl_connect (log_sock S) zero_cb (xi_vf x) (k, ?l) = (rv1, cb, k1, l1)"
    by (metis surj_pair)
  obtain fs ms gs where l1: "l1 = ?l\<lparr>cl_opened := fs, cl_sent := ms, cl_got := gs\<rparr>"
    and fs: "fs = [] \<and> cb_fd cb = 0 \<and> rv1 \<noteq> Inr () \<or> fs = [cb_fd cb]"
    and ms: "rv1 = Inr () \<longrightarrow> ms = [family_msg (si_pid S) (xi_vf x) 0] \<and> cb_snd_seq cb = 1
       \<and> (\<exists>b. gs = [b] \<and> (\<forall>fam rest. b = family_reply (xi_vf x) fam @ rest \<longrightarrow> cb_family cb = fam))"
    using connect_log [OF c] by (auto simp: connects_def zero_cb_def)
  show ?thesis
  proof (cases rv1)
    case (Inl err)
    then have "rv = Inl err" "l' = l1\<lparr>cl_closed := [cb_fd cb]\<rparr>"
      using assms l1 by (auto simp: main_def c split: if_splits)
    then show ?thesis
      using fs l1 by auto
  next
    case (Inr u)
    obtain r cb2 k2 l2 where d: "dev_cmd (log_sock S) cb x (k1, l1) = Some (r, cb2, k2, l2)"
      using assms(1,2,3) Inr by (auto simp: main_def c split: option.splits)
    have op: "xi_op x \<notin> set reg_ops"
      using assms(2) by simp
    obtain rv2 where r: "r = Returns rv2"
      using dev_cmd_log(2) [OF d op] by auto
    have res: "rv = rv2" "l' = l2\<lparr>cl_closed := cl_closed l2 @ [cb_fd cb2]\<rparr>"
      using assms Inr r by (auto simp: main_def c d split: if_splits)
    obtain ms' gs' where l2: "l2 = l1\<lparr>cl_sent := cl_sent l1 @ ms', cl_got := cl_got l1 @ gs'\<rparr>"
      "r = Returns (Inr ()) \<longrightarrow> ms' = [request_msg (si_pid S) cb (x\<lparr>xi_op := XNL_CMD_DEV_INFO\<rparr>),
         request_msg (si_pid S) (cb\<lparr>cb_snd_seq := cb_snd_seq cb + 1\<rparr>) x]"
      using dev_cmd_log(3) [OF d op] by blast
    obtain b where b: "ms = [family_msg (si_pid S) (xi_vf x) 0]" "cb_snd_seq cb = 1" "gs = [b]"
      "\<forall>fam rest. b = family_reply (xi_vf x) fam @ rest \<longrightarrow> cb_family cb = fam"
      using ms Inr by auto
    have req: "request_msg (si_pid S) cb y = request_msg (si_pid S) (zero_cb\<lparr>cb_family := cb_family cb, cb_snd_seq := 1\<rparr>) y"
      "request_msg (si_pid S) (cb\<lparr>cb_snd_seq := cb_snd_seq cb + 1\<rparr>) y =
         request_msg (si_pid S) (zero_cb\<lparr>cb_family := cb_family cb, cb_snd_seq := 2\<rparr>) y" for y
      by (rule request_msg_cb; simp add: b(2))+
    have "cl_sent l' = run_msgs (si_pid S) (cb_family cb) x" if "rv = Inr ()"
      using that res l2 r l1 b(1) req by (simp add: run_msgs_def)
    then show ?thesis
      using fs Inr l1 l2(1) res dev_cmd_log(1) [OF d op] b(3,4) by auto
  qed
qed

text \<open>
  C11: What the program does for a command about one device, whatever the kernel answers. It opens
  at most one socket and closes it, or, when there is none, closes descriptor 0. Memory is given
  back. When it succeeds it has sent exactly three messages, numbered 0, 1 and 2: the question for the
  family of the driver, by the name of the physical or of the virtual function as the command says;
  the question for the device; and the request with the attributes of the command as it was parsed. The last
  two carry the family the kernel named in its first answer, when that answer starts as the kernel's do.

  This is about runs that end with a result. Runs that fault, by reading behind a truncated reply, and runs
  that do not end, because a reply has an attribute of length 0 (\<open>recv_attrs_diverges\<close>), are not covered.
\<close>

theorem main_queue_run:
  assumes "parse_cmd junk argv = Returns (Inr x)" and "xi_op x \<notin> set (XNL_CMD_DEV_LIST # reg_ops)"
    and "main (log_sock S) junk argv (k, \<lparr>cl_opened = [], cl_closed = [], cl_sent = [], cl_got = [], cl_bufs = 0\<rparr>) = Some (Returns rv, k', l')"
    and "rv \<noteq> Inl OOPS"
  shows "(\<exists>fd. cl_closed l' = [fd] \<and> (cl_opened l' = [fd] \<or> cl_opened l' = [] \<and> fd = 0)) \<and> cl_bufs l' = 0
    \<and> (rv = Inr () \<longrightarrow> (\<exists>b gs fam. cl_got l' = b # gs \<and> cl_sent l' = run_msgs (si_pid S) fam x
         \<and> (\<forall>f rest. b = family_reply (xi_vf x) f @ rest \<longrightarrow> fam = f)))"
  using main_queue_steps [OF assms] .

section \<open>Listing the devices\<close>

lemma list_on_log:
  assumes "list_on (log_sock S) vf x (k, l) = Some (rv, cb, x', k', l')" and "rv \<noteq> Inl OOPS"
  shows "\<exists>fs ms gs. l' = l\<lparr>cl_opened := cl_opened l @ fs, cl_sent := cl_sent l @ ms, cl_got := cl_got l @ gs, cl_closed := cl_closed l @ [cb_fd cb]\<rparr>
    \<and> (fs = [] \<and> cb_fd cb = 0 \<or> fs = [cb_fd cb])"
proof -
  obtain rv1 cb1 k1 l1 where c: "xnl_connect (log_sock S) zero_cb vf (k, l) = (rv1, cb1, k1, l1)"
    by (metis surj_pair)
  obtain fs ms gs where l1: "l1 = l\<lparr>cl_opened := cl_opened l @ fs, cl_sent := cl_sent l @ ms, cl_got := cl_got l @ gs\<rparr>"
    and fs: "fs = [] \<and> cb_fd cb1 = 0 \<and> rv1 \<noteq> Inr () \<or> fs = [cb_fd cb1]"
    using connect_log [OF c] by (auto simp: connects_def zero_cb_def)
  show ?thesis
  proof (cases rv1)
    case (Inl err)
    then have "cb = cb1" "l' = l1\<lparr>cl_closed := cl_closed l1 @ [cb_fd cb]\<rparr>"
      using assms by (auto simp: list_on_def c split: if_splits)
    then show ?thesis
      using l1 fs by (intro exI [of _ fs] exI [of _ ms] exI [of _ gs]) auto
  next
    case (Inr u)
    then obtain k2 l2 where s: "xnl_send_cmd (log_sock S) cb1 x (k1, l1) = Some (rv, cb, x', k2, l2)"
      and l': "l' = l2\<lparr>cl_closed := cl_closed l2 @ [cb_fd cb]\<rparr>"
      using assms by (auto simp: list_on_def c split: option.splits)
    obtain ms' gs' where "l2 = l1\<lparr>cl_sent := cl_sent l1 @ ms', cl_got := cl_got l1 @ gs'\<rparr>"
      using send_cmd_log(2) [OF s] by blast
    then show ?thesis
      using l1 fs l' send_cmd_log(1) [OF s] Inr by (intro exI [of _ fs] exI [of _ "ms @ ms'"] exI [of _ "gs @ gs'"]) auto
  qed
qed

text \<open>
  Listing the devices asks both servers on sockets of their own, and closes the second socket twice:
  the second time the descriptor may already belong to somebody else.
\<close>

lemma dev_list_closes_twice:
  assumes "dev_list_cmd (log_sock S) x (k, l) = Some (Returns rv, k', l')" and "rv \<noteq> Inl OOPS"
  shows "\<exists>a b. cl_closed l' = cl_closed l @ [a, b, b]"
proof -
  obtain rv1 cb1 x1 k1 l1 where p: "list_on (log_sock S) False x (k, l) = Some (rv1, cb1, x1, k1, l1)" "rv1 \<noteq> Inl OOPS"
    using assms by (auto simp: dev_list_cmd_def split: option.splits if_splits)
  obtain cb2 x2 k2 l2 where v: "list_on (log_sock S) True x1 (k1, l1) = Some (rv, cb2, x2, k2, l2)"
    and l': "l' = l2\<lparr>cl_closed := cl_closed l2 @ [cb_fd cb2]\<rparr>"
    using assms p by (auto simp: dev_list_cmd_def split: option.splits if_splits)
  show ?thesis
    using list_on_log [OF p] list_on_log [OF v assms(2)] l' by auto
qed

section \<open>From the command line into the kernel\<close>

text \<open>
  What generic netlink does with the attributes of a message: it hands each of them to the module under
  its kind, the last one when there are several.
\<close>

definition nl_parses :: "(u8 list \<Rightarrow> xnl_attr_t \<Rightarrow> u32 option) \<Rightarrow> bool" where
  "nl_parses parse \<longleftrightarrow> (\<forall>as. parse (u32_attrs as) = map_of (rev as))"

lemma flags_bits:
  "bit (qp_flags (q_parm_of op xs)) 0 = (ArgMode True \<in> set xs)" "bit (qp_flags (q_parm_of op xs)) 1 = (ArgMode True \<notin> set xs)"
  "bit (qp_flags (q_parm_of op xs)) 2 = (ArgDir True \<notin> set xs)" "bit (qp_flags (q_parm_of op xs)) 3 = (ArgDir True \<in> set xs)"
  by (auto simp: q_parm_of_def Let_def bit_simps)

lemma req_attrs_queue:
  assumes "xi_op x \<in> {XNL_CMD_Q_ADD, XNL_CMD_Q_START, XNL_CMD_Q_STOP, XNL_CMD_Q_DEL, XNL_CMD_Q_DUMP, XNL_CMD_Q_DESC, XNL_CMD_Q_WRB}"
  shows "map_of (rev (req_attrs x)) XNL_ATTR_DEV_IDX = Some (ucast (xi_if_idx x))"
    and "map_of (rev (req_attrs x)) XNL_ATTR_QFLAG = Some (qp_flags (xi_qparm x))"
    and "map_of (rev (req_attrs x)) XNL_ATTR_QIDX = Some (qp_idx (xi_qparm x))"
  using assms by (elim insertE emptyE; simp add: req_attrs_def Let_def)+

lemma cli_request_reads:
  assumes "n < 256" and "(verb, op) \<in> set q_verbs" and "xs \<noteq> []" and "\<not> q_args_bad op xs" and "nl_parses parse"
    and "parse_cmd junk (p # dev_arg vf n # ''q'' # verb # concat (map print_arg xs)) = Returns (Inr x)"
    and "gi_attrs info = parse (snd (request_msg pid cb x))"
  shows "gh_cmd (fst (request_msg pid cb x)) = op_code (q_op_of op xs)"
    and "gi_attrs info XNL_ATTR_DEV_IDX = Some (of_nat n)"
    and "fst (qconf_get N info w) =
      Inr \<lparr>qc_qidx = of_nat (unat (idx_of 0xFFFF xs) mod 65536), qc_st = (ArgMode True \<in> set xs), qc_c2h = (ArgDir True \<in> set xs),
        qc_st_c2h_wrb_desc_size = 0, qc_name = [], qc_rngsz = 0\<rparr>"
    and "op = XNL_CMD_Q_ADD \<Longrightarrow> ArgMode True \<in> set xs \<Longrightarrow>
      gi_attrs info XNL_ATTR_WRB_DESC_SIZE = Some (ucast (if QPARM_WRBSZ \<in> arg_type ` set xs then wrbsz_of 0 xs else 3))"
proof -
  have x: "x = zero_xcmd\<lparr>xi_vf := vf, xi_if_idx := of_nat n, xi_op := q_op_of op xs, xi_qparm := q_parm_of op xs\<rparr>"
    using assms(6) q_cmd_reads [OF assms(1-3), of junk p vf] assms(4) by simp
  have attrs: "gi_attrs info = map_of (rev (req_attrs x))"
    using assms(5,7) by (simp add: request_msg_def nl_parses_def)
  have op: "q_op_of op xs \<in> {XNL_CMD_Q_ADD, XNL_CMD_Q_START, XNL_CMD_Q_STOP, XNL_CMD_Q_DEL, XNL_CMD_Q_DUMP, XNL_CMD_Q_DESC, XNL_CMD_Q_WRB}"
    using assms(2) by (auto simp: q_verbs_def q_op_of_def)
  have idx: "ucast (of_nat n :: u8) = (of_nat n :: u32)"
    using assms(1) by (simp add: word_unat_eq_iff unsigned_ucast_eq unat_of_nat take_bit_eq_mod)
  show "gh_cmd (fst (request_msg pid cb x)) = op_code (q_op_of op xs)"
    by (simp add: request_msg_def xnl_msg_set_hdr_def x)
  show "gi_attrs info XNL_ATTR_DEV_IDX = Some (of_nat n)"
    using req_attrs_queue(1) [of x] op idx by (simp add: attrs x)
  have qi: "qp_idx (q_parm_of op xs) = idx_of 0xFFFF xs"
    by (simp add: q_parm_of_def Let_def)
  have f: "gi_attrs info XNL_ATTR_QFLAG = Some (qp_flags (q_parm_of op xs))" "gi_attrs info XNL_ATTR_QIDX = Some (idx_of 0xFFFF xs)"
    using req_attrs_queue(2,3) [of x] op qi by (simp_all add: attrs x)
  show "fst (qconf_get N info w) =
      Inr \<lparr>qc_qidx = of_nat (unat (idx_of 0xFFFF xs) mod 65536), qc_st = (ArgMode True \<in> set xs), qc_c2h = (ArgDir True \<in> set xs),
        qc_st_c2h_wrb_desc_size = 0, qc_name = [], qc_rngsz = 0\<rparr>"
    unfolding qconf_get_spec [OF f] flags_bits by simp
  show "gi_attrs info XNL_ATTR_WRB_DESC_SIZE = Some (ucast (if QPARM_WRBSZ \<in> arg_type ` set xs then wrbsz_of 0 xs else 3))"
    if "op = XNL_CMD_Q_ADD" "ArgMode True \<in> set xs"
  proof -
    have s: "qp_sflags (q_parm_of XNL_CMD_Q_ADD xs) AND 0x100 \<noteq> 0"
      using that(2) by (cases "QPARM_WRBSZ \<in> arg_type ` set xs")
        (simp_all add: q_parm_of_def Let_def bit.conj_disj_distrib2 arg_bits_tests)
    have e: "qp_entry_size (q_parm_of XNL_CMD_Q_ADD xs) = (if QPARM_WRBSZ \<in> arg_type ` set xs then wrbsz_of 0 xs else 3)"
      using that(2) by (simp add: q_parm_of_def)
    show ?thesis
      unfolding attrs req_attrs_def x using s that(1) by (simp add: Let_def q_op_of_def e)
  qed
qed

text \<open>
  C9: From the command line into the kernel. A command about a queue, typed with any parameters
  that fit together, becomes a request from which the module reads the device, the command and the
  configuration of the queue that were typed: the index (cut to 16 bits), streaming or memory-mapped,
  and the direction. For a streaming queue that is added the size of a completion entry is there, as the
  module needs it.
\<close>

theorem cli_request_configures:
  assumes "n < 256" and "(verb, op) \<in> set q_verbs" and "xs \<noteq> []" and "\<not> q_args_bad op xs" and "nl_parses parse"
    and "parse_cmd junk (p # dev_arg vf n # ''q'' # verb # concat (map print_arg xs)) = Returns (Inr x)"
    and "gi_attrs info = parse (snd (request_msg pid cb x))"
  shows "gh_cmd (fst (request_msg pid cb x)) = op_code (q_op_of op xs)
    \<and> gi_attrs info XNL_ATTR_DEV_IDX = Some (of_nat n)
    \<and> fst (qconf_get N info w) =
        Inr \<lparr>qc_qidx = of_nat (unat (idx_of 0xFFFF xs) mod 65536), qc_st = (ArgMode True \<in> set xs), qc_c2h = (ArgDir True \<in> set xs),
          qc_st_c2h_wrb_desc_size = 0, qc_name = [], qc_rngsz = 0\<rparr>
    \<and> (op = XNL_CMD_Q_ADD \<and> ArgMode True \<in> set xs \<longrightarrow>
        gi_attrs info XNL_ATTR_WRB_DESC_SIZE = Some (ucast (if QPARM_WRBSZ \<in> arg_type ` set xs then wrbsz_of 0 xs else 3)))"
  using cli_request_reads(1,2,4) [OF assms] cli_request_reads(3) [OF assms, of N w] by simp

section \<open>From the kernel back to the program\<close>

lemma add_uints_attrs:
  "nl_grants N \<Longrightarrow> \<exists>w'. add_uints (log_nl N) avs skb (w, l) =
     (Inr (skb\<lparr>skb_attrs := skb_attrs skb @ map (\<lambda>(a, v). (a, NLA_U32 v)) avs\<rparr>), w', l)"
proof (induction avs arbitrary: skb w)
  case (Cons av avs)
  obtain a v where av: "av = (a, v)"
    by fastforce
  show ?case
    using Cons.IH [OF Cons.prems, of "skb\<lparr>skb_attrs := skb_attrs skb @ [(a, NLA_U32 v)]\<rparr>"] Cons.prems
    by (simp add: av xnl_msg_add_attr_uint_def xnl_msg_add_attr_def log_granted)
qed simp

definition dev_info_attrs :: "u32 \<times> u32 \<times> u32 \<Rightarrow> qdma_dev_conf \<Rightarrow> (xnl_attr_t \<times> u32) list" where
  "dev_info_attrs pci conf =
     (case pci of (bus, slot, func) \<Rightarrow>
        [(XNL_ATTR_PCI_BUS, bus), (XNL_ATTR_PCI_DEV, slot), (XNL_ATTR_PCI_FUNC, func),
         (XNL_ATTR_DEV_CFG_BAR, word_of_int (dc_bar_num_config conf)), (XNL_ATTR_DEV_USR_BAR, word_of_int (dc_bar_num_user conf)),
         (XNL_ATTR_DEV_QSET_MAX, dc_qsets_max conf)])"

lemma dev_info_sent:
  assumes "nl_grants N" and "xnl_rcv_check_xpdev (log_nl N) info M (w, l) = (Inr (Some (xpdev, conf)), w1, l1)"
    and "xnl_dev_info A (log_nl N) (Some info) M e (w, l) = (rv, M', e', w', l')"
  shows "lg_sent l' = lg_sent l @ [(gi_snd_portid info, \<lparr>skb_seq = gi_snd_seq info + 1, skb_cmd = XNL_CMD_DEV_INFO,
    skb_attrs = map (\<lambda>(a, v). (a, NLA_U32 v)) (dev_info_attrs (nif_pci_addr N (xp_pdev xpdev)) conf)\<rparr>)]"
proof -
  obtain bus slot func where pci: "nif_pci_addr N (xp_pdev xpdev) = (bus, slot, func)"
    by (metis surj_pair)
  have pci': "nif_pci_addr (log_nl N) = nif_pci_addr N"
    by (simp add: log_nl_def)
  let ?skb = "\<lparr>skb_seq = gi_snd_seq info + 1, skb_cmd = XNL_CMD_DEV_INFO, skb_attrs = []\<rparr>"
  let ?avs = "dev_info_attrs (bus, slot, func) conf"
  have l1: "l1 = l"
    using check_xpdev_sends [OF assms(2,1)] by simp
  obtain w2 where al: "xnl_msg_alloc (log_nl N) XNL_CMD_DEV_INFO 0 info (w1, l) = (Some ?skb, w2, l\<lparr>lg_skbs := lg_skbs l + 1\<rparr>)"
    using msg_alloc_log [OF assms(1)] by blast
  obtain w3 where au: "add_uints (log_nl N) ?avs ?skb (w2, l\<lparr>lg_skbs := lg_skbs l + 1\<rparr>) =
      (Inr (?skb\<lparr>skb_attrs := map (\<lambda>(a, v). (a, NLA_U32 v)) ?avs\<rparr>), w3, l\<lparr>lg_skbs := lg_skbs l + 1\<rparr>)"
    using add_uints_attrs [OF assms(1), of ?avs ?skb] by fastforce
  show ?thesis
    using assms(3) au
    by (auto simp: xnl_dev_info_def assms(2) [unfolded l1] al pci pci' xnl_msg_send_def log_granted [OF assms(1)] Let_def dev_info_attrs_def
        simp del: add_uints.simps)
qed

lemma ucast_of_int: "ucast (word_of_int i :: u32) = (word_of_int i :: u8)"
  by (rule bit_word_eqI) (simp add: bit_simps)

text \<open>
  C10: From the kernel back to the program. When the module answers the question for a device,
  and the message reaches the program as it was sent, the program ends up with the numbers of the two bars,
  the number of queues and the PCI address the module has for this device, prints them, and has all
  it needs for a register command.
\<close>

theorem dev_info_reaches_cli:
  assumes "nl_grants N" and "xnl_rcv_check_xpdev (log_nl N) info M (w, l) = (Inr (Some (xpdev, conf)), w1, l1)"
    and "xnl_dev_info A (log_nl N) (Some info) M e (w, l) = (rv, M', e', w', l')"
    and "lg_sent l' = lg_sent l @ [(port, skb)]"
    and "gh_cmd (xm_hdr msg) = op_code (skb_cmd skb)" and "xm_data msg = concat (map nla_bytes (skb_attrs skb)) @ rest"
    and "nlmsg_len (xm_hdr msg) = 20 + of_nat (length (concat (map nla_bytes (skb_attrs skb))))" and "length (xi_attrs x) = 19"
  shows "\<exists>x'. recv_nl_msg msg x = Some (Inr (), x', [dev_info_text x'])
    \<and> xi_config_bar x' = word_of_int (dc_bar_num_config conf) \<and> xi_user_bar x' = word_of_int (dc_bar_num_user conf)
    \<and> xi_qmax x' = ucast (dc_qsets_max conf)
    \<and> (xi_attrs x' ! 3, xi_attrs x' ! 4, xi_attrs x' ! 5) = nif_pci_addr N (xp_pdev xpdev)
    \<and> xi_attr_mask x' AND 0xF8 = 0xF8"
proof -
  obtain bus slot func where pci: "nif_pci_addr N (xp_pdev xpdev) = (bus, slot, func)"
    by (metis surj_pair)
  have skb: "skb = \<lparr>skb_seq = gi_snd_seq info + 1, skb_cmd = XNL_CMD_DEV_INFO,
    skb_attrs = map (\<lambda>(a, v). (a, NLA_U32 v)) (dev_info_attrs (bus, slot, func) conf)\<rparr>"
    using dev_info_sent [OF assms(1-3)] assms(4) pci by simp
  let ?as = "skb_attrs skb"
  have ok: "\<forall>av\<in>set ?as. nla_ok av"
    by (simp add: skb dev_info_attrs_def)
  have len: "length (concat (map nla_bytes ?as)) < 0x80000000"
    by (simp add: skb dev_info_attrs_def)
  have "recv_attrs msg x = Some (Inr (), fold nla_apply ?as (x\<lparr>xi_attr_mask := 0\<rparr>), concat (map nla_text ?as))"
    by (rule recv_attrs_msg [OF ok assms(6,7) len])
  then show ?thesis
    using assms(5,8) pci by (simp add: recv_nl_msg_def skb dev_info_attrs_def Let_def ucast_of_int)
qed

section \<open>Witnesses\<close>

lemma recv_attrs_wire_witness:
  "recv_attrs \<lparr>xm_hdr = zero_hdr\<lparr>nlmsg_len := 20 + of_nat (length (concat (map nla_bytes [(XNL_ATTR_GENMSG, NLA_STRING ''ok''), (XNL_ATTR_PCI_BUS, NLA_U32 7)])))\<rparr>,
       xm_data = concat (map nla_bytes [(XNL_ATTR_GENMSG, NLA_STRING ''ok''), (XNL_ATTR_PCI_BUS, NLA_U32 7)]) @ [0, 0]\<rparr> zero_xcmd =
   Some (Inr (), fold nla_apply [(XNL_ATTR_GENMSG, NLA_STRING ''ok''), (XNL_ATTR_PCI_BUS, NLA_U32 7)] (zero_xcmd\<lparr>xi_attr_mask := 0\<rparr>),
     [EOL @ ''ok'' @ EOL])"
  by (subst recv_attrs_wire [where as = "[(XNL_ATTR_GENMSG, NLA_STRING ''ok''), (XNL_ATTR_PCI_BUS, NLA_U32 7)]" and rest = "[0, 0]"])
     (simp_all add: NLA_ALIGN_def)

lemma recv_attrs_diverges_witness:
  "recv_attrs \<lparr>xm_hdr = zero_hdr\<lparr>nlmsg_len := 40\<rparr>, xm_data = concat (map nla_bytes [(XNL_ATTR_PCI_BUS, NLA_U32 7)]) @ replicate (100 + 5) 0\<rparr>
     zero_xcmd = None"
  by (rule recv_attrs_diverges [where as = "[(XNL_ATTR_PCI_BUS, NLA_U32 7)]" and n = 100]) simp_all

text \<open>A kernel that names the family and answers every request with an empty message.\<close>

definition sample_bar :: "nat bar_if" where
  "sample_bar = \<lparr>bi_open = (\<lambda>f wr. Pair 5), bi_mmap = (\<lambda>fd len wr. Pair True), bi_close = (\<lambda>fd. id), bi_munmap = (\<lambda>len. id),
     bi_load = (\<lambda>f i. Pair 0), bi_store = (\<lambda>f i v. id)\<rparr>"

definition sample_family :: "u8 list" where
  "sample_family = [11, 0, 2, 0, 0x78, 0x6E, 0x6C, 0x5F, 0x70, 0x66, 0, 0, 6, 0, 1, 0, 0x1C, 0, 0, 0]"

definition sample_sock :: "nat sock_if" where
  "sample_sock = \<lparr>si_malloc = (\<lambda>n. Pair True), si_free = id, si_socket = Pair 3, si_bind = (\<lambda>fd. Pair 0),
     si_sendto = (\<lambda>fd hdr b k. (uint (nlmsg_len hdr), k)),
     si_recv = (\<lambda>fd n k. if k = 0 then (40, zero_hdr\<lparr>nlmsg_len := 40\<rparr>, sample_family, 1) else (20, zero_hdr\<lparr>nlmsg_len := 20\<rparr>, [], k)),
     si_close = (\<lambda>fd. id), si_pid = 77, si_print = (\<lambda>s. id), si_bar = sample_bar\<rparr>"

definition sample_run :: "(unit res outcome \<times> nat \<times> cli_log) option" where
  "sample_run = main (log_sock sample_sock) 0 [''dmactl'', ''qdma0'', ''q'', ''list''] (0, \<lparr>cl_opened = [], cl_closed = [], cl_sent = [], cl_got = [], cl_bufs = 0\<rparr>)"

lemma sample_run_ok: "map_option (\<lambda>r. fst r = Returns (Inr ())) sample_run = Some True"
  by code_simp

lemma sample_run_reply: "case sample_run of Some (_, _, l) \<Rightarrow> take 1 (cl_got l) = [family_reply False 28 @ [0, 0]] | None \<Rightarrow> False"
  by code_simp

lemma main_queue_run_witness:
  "\<exists>k l x. sample_run = Some (Returns (Inr ()), k, l) \<and> cl_bufs l = 0 \<and> xi_op x = XNL_CMD_Q_LIST \<and> cl_sent l = run_msgs 77 28 x"
proof -
  obtain k l where run: "sample_run = Some (Returns (Inr ()), k, l)"
    using sample_run_ok by (cases sample_run) auto
  have "case parse_cmd 0 [''dmactl'', ''qdma0'', ''q'', ''list''] of Returns (Inr x) \<Rightarrow> xi_op x = XNL_CMD_Q_LIST \<and> \<not> xi_vf x | _ \<Rightarrow> False"
    by code_simp
  then obtain x where x: "parse_cmd 0 [''dmactl'', ''qdma0'', ''q'', ''list''] = Returns (Inr x)" "xi_op x = XNL_CMD_Q_LIST" "\<not> xi_vf x"
    by (auto split: outcome.splits sum.splits)
  have op: "xi_op x \<notin> set (XNL_CMD_DEV_LIST # reg_ops)"
    by (simp add: x(2) reg_ops_def)
  have pid: "si_pid sample_sock = 77"
    by (simp add: sample_sock_def)
  note result = main_queue_run [OF x(1) op run [unfolded sample_run_def], unfolded pid]
  obtain b gs fam where sent: "cl_got l = b # gs" "cl_sent l = run_msgs 77 fam x" "\<forall>f rest. b = family_reply False f @ rest \<longrightarrow> fam = f"
    using result x(3) by auto
  have "b = family_reply False 28 @ [0, 0]"
    using sample_run_reply by (simp add: run sent(1))
  then have "cl_sent l = run_msgs 77 28 x"
    using sent(2,3) by blast
  moreover have "cl_bufs l = 0"
    using result by simp
  ultimately show ?thesis
    using run x(2) by blast
qed

text \<open>A parser for attributes that are numbers.\<close>

fun sample_parse :: "u8 list \<Rightarrow> xnl_attr_t \<Rightarrow> u32 option" where
  "sample_parse (l0 # l1 # t0 # t1 # a # b # c # d # r) =
     (\<lambda>x. case sample_parse r x of Some v \<Rightarrow> Some v
          | None \<Rightarrow> if attr_code x = get16 [t0, t1] 0 then Some (get32 [a, b, c, d] 0) else None)"
| "sample_parse _ = (\<lambda>_. None)"

lemma attr_code_inj: "attr_code a = attr_code b \<longleftrightarrow> a = b"
  by (cases a; cases b; simp)

lemma sample_parses: "nl_parses sample_parse"
  unfolding nl_parses_def
proof
  fix as
  show "sample_parse (u32_attrs as) = map_of (rev as)"
  proof (induction as)
    case (Cons av as)
    obtain a v where av: "av = (a, v)"
      by fastforce
    have "get16 [ucast (attr_code a), ucast (drop_bit 8 (attr_code a))] 0 = attr_code a"
      and "get32 [ucast v, ucast (drop_bit 8 v), ucast (drop_bit 16 v), ucast (drop_bit 24 v)] 0 = v"
      by (simp_all add: get16_def get32_def word16_split word32_split)
    then show ?case
      using Cons by (auto simp: av u32_attrs_def bytes16_def bytes32_def attr_code_inj map_add_def split: option.splits)
  qed (simp add: u32_attrs_def)
qed

definition sample_typed :: "q_arg list" where
  "sample_typed = [ArgIdx 5, ArgMode True, ArgDir True]"

lemma cli_request_configures_witness:
  "\<exists>x. parse_cmd 0 (''dmactl'' # dev_arg False 2 # ''q'' # ''add'' # concat (map print_arg sample_typed)) = Returns (Inr x)
    \<and> fst (qconf_get sample_nl (sample_add_info\<lparr>gi_attrs := sample_parse (snd (request_msg 77 zero_cb x))\<rparr>) 0) =
      Inr \<lparr>qc_qidx = 5, qc_st = True, qc_c2h = True, qc_st_c2h_wrb_desc_size = 0, qc_name = [], qc_rngsz = 0\<rparr>"
proof -
  have verb: "(''add'', XNL_CMD_Q_ADD) \<in> set q_verbs" and ne: "sample_typed \<noteq> []" and ok: "\<not> q_args_bad XNL_CMD_Q_ADD sample_typed"
    by (simp_all add: q_verbs_def sample_typed_def q_args_bad_def)
  obtain x where x: "parse_cmd 0 (''dmactl'' # dev_arg False 2 # ''q'' # ''add'' # concat (map print_arg sample_typed)) = Returns (Inr x)"
    using q_cmd_reads [OF _ verb ne, of 2 0 "''dmactl''" False] ok by simp
  let ?info = "sample_add_info\<lparr>gi_attrs := sample_parse (snd (request_msg 77 zero_cb x))\<rparr>"
  have "gi_attrs ?info = sample_parse (snd (request_msg 77 zero_cb x))"
    by simp
  then show ?thesis
    using cli_request_configures [OF _ verb ne ok sample_parses x, of ?info 77 zero_cb sample_nl 0] x
    by (simp add: sample_typed_def idx_of_def)
qed

lemma sample_device_found:
  "case fst (xnl_rcv_check_xpdev (log_nl sample_nl) sample_add_info sample_nl_mod (0, sample_log)) of Inr (Some _) \<Rightarrow> True | _ \<Rightarrow> False"
  by code_simp

lemma dev_info_reaches_cli_witness:
  "\<exists>msg x'. recv_nl_msg msg zero_xcmd = Some (Inr (), x', [dev_info_text x']) \<and> (xi_attrs x' ! 3, xi_attrs x' ! 4, xi_attrs x' ! 5) = (1, 0, 0)
     \<and> xi_attr_mask x' AND 0xF8 = 0xF8"
proof -
  obtain xpdev conf w1 l1 where c: "xnl_rcv_check_xpdev (log_nl sample_nl) sample_add_info sample_nl_mod (0, sample_log) = (Inr (Some (xpdev, conf)), w1, l1)"
    using sample_device_found
    by (cases "xnl_rcv_check_xpdev (log_nl sample_nl) sample_add_info sample_nl_mod (0, sample_log)") (auto split: sum.splits option.splits)
  obtain rv M e w l where run: "xnl_dev_info sample_drv_if (log_nl sample_nl) (Some sample_add_info) sample_nl_mod (\<lambda>_. 0) (0, sample_log) = (rv, M, e, w, l)"
    by (metis surj_pair)
  obtain port skb where sent: "lg_sent l = lg_sent sample_log @ [(port, skb)]"
    using dev_info_sent [OF sample_granted(2) c run] by blast
  let ?bytes = "concat (map nla_bytes (skb_attrs skb))"
  let ?msg = "\<lparr>xm_hdr = zero_hdr\<lparr>nlmsg_len := 20 + of_nat (length ?bytes), gh_cmd := op_code (skb_cmd skb)\<rparr>, xm_data = ?bytes @ []\<rparr>"
  have "length (xi_attrs zero_xcmd) = 19"
    by (simp add: zero_xcmd_def)
  then have "\<exists>x'. recv_nl_msg ?msg zero_xcmd = Some (Inr (), x', [dev_info_text x'])
    \<and> xi_config_bar x' = word_of_int (dc_bar_num_config conf) \<and> xi_user_bar x' = word_of_int (dc_bar_num_user conf)
    \<and> xi_qmax x' = ucast (dc_qsets_max conf) \<and> (xi_attrs x' ! 3, xi_attrs x' ! 4, xi_attrs x' ! 5) = nif_pci_addr sample_nl (xp_pdev xpdev)
    \<and> xi_attr_mask x' AND 0xF8 = 0xF8"
    by (intro dev_info_reaches_cli [OF sample_granted(2) c run sent]) simp_all
  then show ?thesis
    by (metis (no_types, lifting) sample_nl_def nl_if.select_convs(10))
qed

end
