(* ===== verification/Qdma_Tools.thy ===== *)
theory Qdma_Tools
  imports Qdma_Cli
begin

text \<open>
  The test tools (\<open>tools/dma_utils.c\<close>, \<open>tools/dma_to_device.c\<close>, \<open>tools/dma_from_device.c\<close>): they move a
  buffer to or from the character device of a queue.

  Files, memory and the clock are the record \<open>file_if\<close> on a state \<open>'f\<close>. The options are given as
  \<open>getopt_long\<close> returns them, one after the other. Printing is left out, and with it the average
  in floating point; the total time it is computed from is there, without the limits of a \<open>long\<close>.

  Both programs do what they say on files that obey (\<open>dma_to_device_stores\<close>, \<open>dma_from_device_saves\<close>) and
  stay inside their buffer in any case (\<open>tools_never_fault\<close>).
\<close>

section \<open>Files\<close>

datatype open_mode = O_DEVICE | O_DEVICE_NONBLOCK | O_INPUT | O_OUTPUT

record 'f file_if =
  fi_open :: "string \<Rightarrow> open_mode \<Rightarrow> 'f \<Rightarrow> int \<times> 'f"
  fi_lseek :: "int \<Rightarrow> int \<Rightarrow> 'f \<Rightarrow> int \<times> 'f"
  fi_read :: "int \<Rightarrow> nat \<Rightarrow> 'f \<Rightarrow> int \<times> u8 list \<times> 'f"
  fi_write :: "int \<Rightarrow> u8 list \<Rightarrow> 'f \<Rightarrow> int \<times> 'f"
  fi_close :: "int \<Rightarrow> 'f \<Rightarrow> 'f"
  fi_memalign :: "u64 \<Rightarrow> 'f \<Rightarrow> u8 list option \<times> 'f"
  fi_free :: "'f \<Rightarrow> 'f"
  fi_clock :: "'f \<Rightarrow> (int \<times> int) \<times> 'f"

section \<open>Numbers and times (dma_utils.c)\<close>

text \<open>\<open>%lx\<close>: a sign, an optional prefix, digits.\<close>

definition scan_hex :: "string \<Rightarrow> u64 option" where
  "scan_hex s =
     (let (neg, t) = number_sign (dropWhile isspace s);
          t = (case t of
                 z # x # h # r \<Rightarrow> if z = CHR ''0'' \<and> (x = CHR ''x'' \<or> x = CHR ''X'') \<and> digit_val h < 16 then h # r else t
               | _ \<Rightarrow> t);
          ds = takeWhile (\<lambda>c. digit_val c < 16) t;
          n = str_val 16 ds
      in if ds = [] then None else Some (if n \<ge> 2 ^ 64 then - 1 else if neg then - word_of_int n else word_of_int n))"

text \<open>When neither form fits, \<open>value\<close> keeps the \<open>junk\<close> it happens to hold.\<close>

definition getopt_integer :: "u64 \<Rightarrow> string \<Rightarrow> u64" where
  "getopt_integer junk s =
     (case (if take 2 s = ''0x'' then scan_hex (drop 2 s) else None) of
        Some v \<Rightarrow> v
      | None \<Rightarrow> (let (v, r) = strtoul 10 s in if r = s then junk else v))"

definition timespec_check :: "int \<times> int \<Rightarrow> bool" where
  "timespec_check t \<longleftrightarrow> 0 \<le> snd t \<and> snd t < 1000000000"

definition timespec_sub :: "int \<times> int \<Rightarrow> int \<times> int \<Rightarrow> int \<times> int" where
  "timespec_sub t1 t2 =
     (if \<not> timespec_check t1 then t1
      else if \<not> timespec_check t2 then t1
      else let sec = fst t1 - fst t2; nsec = snd t1 - snd t2
      in if nsec \<ge> 1000000000 then (sec + 1, nsec - 1000000000)
         else if nsec < 0 then (sec - 1, nsec + 1000000000)
         else (sec, nsec))"

section \<open>Moving a buffer (dma_utils.c)\<close>

definition RW_MAX_SIZE :: u64 where
  "RW_MAX_SIZE = 0x7ffff000"

definition chunk :: "u64 \<Rightarrow> u64 \<Rightarrow> u64" where
  "chunk sz cnt = (let bytes = sz - cnt in if bytes > RW_MAX_SIZE then RW_MAX_SIZE else bytes)"

definition seek_to :: "'f file_if \<Rightarrow> int \<Rightarrow> u64 \<Rightarrow> 'f \<Rightarrow> unit res \<times> 'f" where
  "seek_to F fd offset f =
     (if offset = 0 then (Inr (), f)
      else case fi_lseek F fd (sint offset) f of
             (rc, f) \<Rightarrow> (if rc < 0 then Inl EIO else if rc \<noteq> sint offset then Inl EIO else Inr (), f))"

lemma chunk_props:
  assumes "cnt < sz"
  shows "0 < unat (chunk sz cnt)" and "unat cnt + unat (chunk sz cnt) \<le> unat sz"
    and "unat (cnt + chunk sz cnt) = unat cnt + unat (chunk sz cnt)"
proof -
  have le: "chunk sz cnt \<le> sz - cnt" and pos: "0 < chunk sz cnt"
    using assms by (auto simp: chunk_def Let_def RW_MAX_SIZE_def word_neq_0_conv [symmetric])
  have "unat (sz - cnt) = unat sz - unat cnt"
    using assms by (intro unat_sub) simp
  moreover have "unat cnt < unat sz" "unat (chunk sz cnt) \<le> unat (sz - cnt)"
    using assms le by (simp_all add: word_less_nat_alt word_le_nat_alt)
  ultimately show sum: "unat cnt + unat (chunk sz cnt) \<le> unat sz"
    by linarith
  show "0 < unat (chunk sz cnt)"
    using pos by (simp add: unat_gt_0 word_neq_0_conv)
  have "unat cnt + unat (chunk sz cnt) < 2 ^ 64"
    using sum unsigned_less [of sz, where 'a = nat] by simp
  then show "unat (cnt + chunk sz cnt) = unat cnt + unat (chunk sz cnt)"
    by (subst unat_add_lem [THEN iffD1]) simp_all
qed

text \<open>
  The two loops. \<open>mem\<close> is the memory that was allocated, \<open>off\<close> where the buffer starts in it. After the
  loop \<open>cnt\<close> equals \<open>sz\<close>; the code checks it once more.
\<close>

function read_loop :: "'f file_if \<Rightarrow> int \<Rightarrow> nat \<Rightarrow> u64 \<Rightarrow> u64 \<Rightarrow> u64 \<Rightarrow> u8 list \<Rightarrow> 'f \<Rightarrow> (u64 \<times> u8 list) res \<times> 'f" where
  "read_loop F fd off sz cnt offset mem f =
     (if \<not> cnt < sz then (if cnt \<noteq> sz then Inl EIO else Inr (cnt, mem), f)
      else let bytes = chunk sz cnt
      in case seek_to F fd offset f of
           (Inl err, f) \<Rightarrow> (Inl err, f)
         | (Inr _, f) \<Rightarrow>
             (case fi_read F fd (unat bytes) f of
                (rc, data, f) \<Rightarrow>
                  if rc < 0 then (Inl EIO, f)
                  else if word_of_int rc \<noteq> bytes then (Inl EIO, f)
                  else case put_bytes mem (off + unat cnt) data of
                         Inl err \<Rightarrow> (Inl err, f)
                       | Inr mem \<Rightarrow> read_loop F fd off sz (cnt + bytes) (offset + bytes) mem f))"
  by pat_completeness auto
termination
  by (relation "measure (\<lambda>(F, fd, off, sz, cnt, offset, mem, f). unat sz - unat cnt)")
     (auto simp: chunk_props word_less_nat_alt intro!: diff_less_mono2)

declare read_loop.simps [simp del]

definition read_to_buffer :: "'f file_if \<Rightarrow> int \<Rightarrow> u8 list \<Rightarrow> nat \<Rightarrow> u64 \<Rightarrow> u64 \<Rightarrow> 'f \<Rightarrow> (u64 \<times> u8 list) res \<times> 'f" where
  "read_to_buffer F fd mem off sz base f = read_loop F fd off sz 0 base mem f"

function write_loop :: "'f file_if \<Rightarrow> int \<Rightarrow> u8 list \<Rightarrow> nat \<Rightarrow> u64 \<Rightarrow> u64 \<Rightarrow> u64 \<Rightarrow> 'f \<Rightarrow> u64 res \<times> 'f" where
  "write_loop F fd mem off sz cnt offset f =
     (if \<not> cnt < sz then (if cnt \<noteq> sz then Inl EIO else Inr cnt, f)
      else let bytes = chunk sz cnt
      in case seek_to F fd offset f of
           (Inl err, f) \<Rightarrow> (Inl err, f)
         | (Inr _, f) \<Rightarrow>
             if length mem < off + unat cnt + unat bytes then (Inl OOPS, f)
             else case fi_write F fd (take (unat bytes) (drop (off + unat cnt) mem)) f of
                    (rc, f) \<Rightarrow>
                      if rc < 0 then (Inl EIO, f)
                      else if word_of_int rc \<noteq> bytes then (Inl EIO, f)
                      else write_loop F fd mem off sz (cnt + bytes) (offset + bytes) f)"
  by pat_completeness auto
termination
  by (relation "measure (\<lambda>(F, fd, mem, off, sz, cnt, offset, f). unat sz - unat cnt)")
     (auto simp: chunk_props word_less_nat_alt intro!: diff_less_mono2)

declare write_loop.simps [simp del]

definition write_from_buffer :: "'f file_if \<Rightarrow> int \<Rightarrow> u8 list \<Rightarrow> nat \<Rightarrow> u64 \<Rightarrow> u64 \<Rightarrow> 'f \<Rightarrow> u64 res \<times> 'f" where
  "write_from_buffer F fd mem off sz base f = write_loop F fd mem off sz 0 base f"

section \<open>The programs (dma_to_device.c, dma_from_device.c)\<close>

text \<open>What the loops return is a \<open>ssize_t\<close>: negative values are errors.\<close>

definition ssize :: "u64 res \<Rightarrow> u64 res" where
  "ssize rc = (case rc of Inl err \<Rightarrow> Inl err | Inr v \<Rightarrow> if sint v < 0 then Inl (Other (sint v)) else Inr v)"

definition open_file :: "'f file_if \<Rightarrow> string option \<Rightarrow> open_mode \<Rightarrow> 'f \<Rightarrow> int res \<times> 'f" where
  "open_file F name m f =
     (case name of
        None \<Rightarrow> (Inr (- 1), f)
      | Some n \<Rightarrow> (case fi_open F n m f of (fd, f) \<Rightarrow> (if fd < 0 then Inl EINVAL else Inr fd, f)))"

definition close_file :: "'f file_if \<Rightarrow> int \<Rightarrow> 'f \<Rightarrow> 'f" where
  "close_file F fd f = (if fd \<ge> 0 then fi_close F fd f else f)"

text \<open>A transfer between two readings of the clock.\<close>

definition timed :: "'f file_if \<Rightarrow> ('f \<Rightarrow> 'a res \<times> 'f) \<Rightarrow> int \<Rightarrow> 'f \<Rightarrow> ('a \<times> int) res \<times> 'f" where
  "timed F act total_time f =
     (case fi_clock F f of
        (t0, f) \<Rightarrow>
          (case act f of
             (Inl err, f) \<Rightarrow> (Inl err, f)
           | (Inr v, f) \<Rightarrow> (case fi_clock F f of (t1, f) \<Rightarrow> (Inr (v, total_time + snd (timespec_sub t1 t0)), f))))"

lemma unat_next: "i < c \<Longrightarrow> unat (i + 1) = Suc (unat i)" for i c :: u64
  using unsigned_less [of c, where 'a = nat] by (simp add: word_less_nat_alt unat_word_ariths)

function to_loop ::
  "'f file_if \<Rightarrow> int \<Rightarrow> int \<Rightarrow> u8 list \<Rightarrow> nat \<Rightarrow> u64 \<Rightarrow> u64 \<Rightarrow> u64 \<Rightarrow> u64 \<Rightarrow> int \<Rightarrow> 'f \<Rightarrow> int res \<times> 'f" where
  "to_loop F fpga_fd out_fd mem off sz addr cnt i total_time f =
     (if \<not> i < cnt then (Inr total_time, f)
      else case timed F (\<lambda>f. map_prod ssize id (write_from_buffer F fpga_fd mem off sz addr f)) total_time f of
             (Inl err, f) \<Rightarrow> (Inl err, f)
           | (Inr (_, total_time), f) \<Rightarrow>
               if out_fd < 0 then to_loop F fpga_fd out_fd mem off sz addr cnt (i + 1) total_time f
               else case map_prod ssize id (write_from_buffer F out_fd mem off sz (i * sz) f) of
                      (Inl err, f) \<Rightarrow> (Inl err, f)
                    | (Inr _, f) \<Rightarrow> to_loop F fpga_fd out_fd mem off sz addr cnt (i + 1) total_time f)"
  by pat_completeness auto
termination
  by (relation "measure (\<lambda>(F, a, b, mem, off, sz, addr, cnt, i, t, f). unat cnt - unat i)")
     (auto simp: word_less_nat_alt unat_next [OF iffD2 [OF word_less_nat_alt]] intro!: diff_less_mono2)

declare to_loop.simps [simp del]

definition read_ssize :: "(u64 \<times> u8 list) res \<Rightarrow> u8 list res" where
  "read_ssize rc = (case rc of Inl err \<Rightarrow> Inl err | Inr (v, mem) \<Rightarrow> map_sum id (\<lambda>_. mem) (ssize (Inr v)))"

function from_loop ::
  "'f file_if \<Rightarrow> int \<Rightarrow> int \<Rightarrow> bool \<Rightarrow> u8 list \<Rightarrow> nat \<Rightarrow> u64 \<Rightarrow> u64 \<Rightarrow> u64 \<Rightarrow> u64 \<Rightarrow> int \<Rightarrow> 'f \<Rightarrow> int res \<times> 'f" where
  "from_loop F fpga_fd out_fd no_write mem off sz addr cnt i total_time f =
     (if \<not> i < cnt then (Inr total_time, f)
      else case timed F (\<lambda>f. map_prod read_ssize id (read_to_buffer F fpga_fd mem off sz addr f)) total_time f of
             (Inl err, f) \<Rightarrow> (Inl err, f)
           | (Inr (mem, total_time), f) \<Rightarrow>
               if out_fd < 0 \<or> no_write then from_loop F fpga_fd out_fd no_write mem off sz addr cnt (i + 1) total_time f
               else case map_prod ssize id (write_from_buffer F out_fd mem off sz (i * sz) f) of
                      (Inl err, f) \<Rightarrow> (Inl err, f)
                    | (Inr _, f) \<Rightarrow> from_loop F fpga_fd out_fd no_write mem off sz addr cnt (i + 1) total_time f)"
  by pat_completeness auto
termination
  by (relation "measure (\<lambda>(F, a, b, nw, mem, off, sz, addr, cnt, i, t, f). unat cnt - unat i)")
     (auto simp: word_less_nat_alt unat_next [OF iffD2 [OF word_less_nat_alt]] intro!: diff_less_mono2)

declare from_loop.simps [simp del]

text \<open>
  \<open>test_dma\<close> between the files and the label \<open>out\<close>. The second result tells whether the buffer was
  allocated; a wild access ends the program.
\<close>

definition to_device_body ::
  "'f file_if \<Rightarrow> int \<Rightarrow> int \<Rightarrow> int \<Rightarrow> u64 \<Rightarrow> u64 \<Rightarrow> u64 \<Rightarrow> u64 \<Rightarrow> 'f \<Rightarrow> int res \<times> bool \<times> 'f" where
  "to_device_body F fpga_fd in_fd out_fd addr sz offset cnt f =
     (case fi_memalign F (sz + 4096) f of
        (None, f) \<Rightarrow> (Inl ENOMEM, False, f)
      | (Some mem, f) \<Rightarrow>
          (case (if in_fd \<ge> 0 then map_prod read_ssize id (read_to_buffer F in_fd mem (unat offset) sz 0 f) else (Inr mem, f)) of
             (Inl err, f) \<Rightarrow> (Inl err, True, f)
           | (Inr mem, f) \<Rightarrow>
               (case to_loop F fpga_fd out_fd mem (unat offset) sz addr cnt 0 0 f of (rv, f) \<Rightarrow> (rv, True, f))))"

definition from_device_body ::
  "'f file_if \<Rightarrow> int \<Rightarrow> int \<Rightarrow> bool \<Rightarrow> u64 \<Rightarrow> u64 \<Rightarrow> u64 \<Rightarrow> u64 \<Rightarrow> 'f \<Rightarrow> int res \<times> bool \<times> 'f" where
  "from_device_body F fpga_fd out_fd no_write addr sz offset cnt f =
     (case fi_memalign F (sz + 4096) f of
        (None, f) \<Rightarrow> (Inl ENOMEM, False, f)
      | (Some mem, f) \<Rightarrow>
          (case from_loop F fpga_fd out_fd no_write mem (unat offset) sz addr cnt 0 0 f of (rv, f) \<Rightarrow> (rv, True, f)))"

definition free_mem :: "'f file_if \<Rightarrow> bool \<Rightarrow> 'f \<Rightarrow> 'f" where
  "free_mem F allocated f = (if allocated then fi_free F f else f)"

record dma_opts =
  do_device :: string
  do_address :: u64
  do_size :: u64
  do_offset :: u64
  do_count :: u64
  do_infname :: "string option"
  do_ofname :: "string option"
  do_no_write :: bool

definition test_dma_to :: "'f file_if \<Rightarrow> dma_opts \<Rightarrow> 'f \<Rightarrow> int res \<times> 'f" where
  "test_dma_to F d f =
     (case fi_open F (do_device d) O_DEVICE f of
        (fpga_fd, f) \<Rightarrow>
          if fpga_fd < 0 then (Inl EINVAL, f)
          else case open_file F (do_infname d) O_INPUT f of
                 (Inl err, f) \<Rightarrow> (Inl err, fi_close F fpga_fd f)
               | (Inr in_fd, f) \<Rightarrow>
                   (case open_file F (do_ofname d) O_OUTPUT f of
                      (Inl err, f) \<Rightarrow> (Inl err, close_file F in_fd (fi_close F fpga_fd f))
                    | (Inr out_fd, f) \<Rightarrow>
                        (case to_device_body F fpga_fd in_fd out_fd (do_address d) (do_size d) (do_offset d) (do_count d) f of
                           (rv, allocated, f) \<Rightarrow>
                             if rv = Inl OOPS then (rv, f)
                             else (rv, free_mem F allocated (close_file F out_fd (close_file F in_fd (fi_close F fpga_fd f)))))))"

definition test_dma_from :: "'f file_if \<Rightarrow> dma_opts \<Rightarrow> 'f \<Rightarrow> int res \<times> 'f" where
  "test_dma_from F d f =
     (case fi_open F (do_device d) O_DEVICE_NONBLOCK f of
        (fpga_fd, f) \<Rightarrow>
          if fpga_fd < 0 then (Inl EINVAL, f)
          else case open_file F (do_ofname d) O_OUTPUT f of
                 (Inl err, f) \<Rightarrow> (Inl err, fi_close F fpga_fd f)
               | (Inr out_fd, f) \<Rightarrow>
                   (case from_device_body F fpga_fd out_fd (do_no_write d) (do_address d) (do_size d) (do_offset d) (do_count d) f of
                      (rv, allocated, f) \<Rightarrow>
                        if rv = Inl OOPS then (rv, f)
                        else (rv, free_mem F allocated (close_file F out_fd (fi_close F fpga_fd f)))))"

section \<open>Options\<close>

definition default_opts :: "string \<Rightarrow> dma_opts" where
  "default_opts device = \<lparr>do_device = device, do_address = 0, do_size = 32, do_offset = 0, do_count = 1, do_infname = None, do_ofname = None,
     do_no_write = False\<rparr>"

text \<open>The options both programs share; any other ends the program after the usage text.\<close>

definition common_opt :: "u64 \<Rightarrow> char \<Rightarrow> string \<Rightarrow> dma_opts \<Rightarrow> dma_opts option" where
  "common_opt junk c s d =
     (if c = CHR ''d'' then Some (d\<lparr>do_device := s\<rparr>)
      else if c = CHR ''a'' then Some (d\<lparr>do_address := getopt_integer junk s\<rparr>)
      else if c = CHR ''s'' then Some (d\<lparr>do_size := getopt_integer junk s\<rparr>)
      else if c = CHR ''o'' then Some (d\<lparr>do_offset := getopt_integer junk s AND 4095\<rparr>)
      else if c = CHR ''c'' then Some (d\<lparr>do_count := getopt_integer junk s\<rparr>)
      else if c = CHR ''v'' \<or> c = CHR 0x00 then Some d
      else None)"

definition to_opt :: "u64 \<Rightarrow> char \<Rightarrow> string \<Rightarrow> dma_opts \<Rightarrow> dma_opts option" where
  "to_opt junk c s d =
     (if c = CHR ''f'' then Some (d\<lparr>do_infname := Some s\<rparr>)
      else if c = CHR ''w'' then Some (d\<lparr>do_ofname := Some s\<rparr>)
      else common_opt junk c s d)"

definition from_opt :: "u64 \<Rightarrow> char \<Rightarrow> string \<Rightarrow> dma_opts \<Rightarrow> dma_opts option" where
  "from_opt junk c s d =
     (if c = CHR ''f'' then Some (d\<lparr>do_ofname := Some s\<rparr>)
      else if c = CHR ''x'' then Some (d\<lparr>do_no_write := True\<rparr>)
      else common_opt junk c s d)"

fun read_opts :: "(char \<Rightarrow> string \<Rightarrow> dma_opts \<Rightarrow> dma_opts option) \<Rightarrow> (char \<times> string) list \<Rightarrow> dma_opts \<Rightarrow> dma_opts option" where
  "read_opts opt [] d = Some d"
| "read_opts opt ((c, s) # r) d = (case opt c s d of None \<Rightarrow> None | Some d \<Rightarrow> read_opts opt r d)"

definition dma_to_device :: "'f file_if \<Rightarrow> u64 \<Rightarrow> (char \<times> string) list \<Rightarrow> 'f \<Rightarrow> int res outcome \<times> 'f" where
  "dma_to_device F junk opts f =
     (case read_opts (to_opt junk) opts (default_opts ''/dev/xdma0_h2c_0'') of
        None \<Rightarrow> (Exits 0, f)
      | Some d \<Rightarrow> map_prod Returns id (test_dma_to F d f))"

definition dma_from_device :: "'f file_if \<Rightarrow> u64 \<Rightarrow> (char \<times> string) list \<Rightarrow> 'f \<Rightarrow> int res outcome \<times> 'f" where
  "dma_from_device F junk opts f =
     (case read_opts (from_opt junk) opts (default_opts ''/dev/xdma0_c2h_0'') of
        None \<Rightarrow> (Exits 0, f)
      | Some d \<Rightarrow> map_prod Returns id (test_dma_from F d f))"

section \<open>Times\<close>

definition nanoseconds :: "int \<times> int \<Rightarrow> int" where
  "nanoseconds t = fst t * 1000000000 + snd t"

text \<open>The difference of two times is right and in normal form.\<close>

lemma timespec_sub_correct:
  assumes "timespec_check t1" and "timespec_check t2"
  shows "nanoseconds (timespec_sub t1 t2) = nanoseconds t1 - nanoseconds t2" and "timespec_check (timespec_sub t1 t2)"
  using assms by (auto simp: timespec_sub_def timespec_check_def nanoseconds_def Let_def algebra_simps)

section \<open>A memory behind a file\<close>

text \<open>
  What the loops rely on: a file shows a memory from a position on. A seek moves the position; a read
  or a write of at most \<open>RW_MAX_SIZE\<close> bytes is complete. Where it leaves the position is not said: an
  ordinary file advances it, the character device of the driver does not.
\<close>

definition put_mem :: "(u64 \<Rightarrow> u8) \<Rightarrow> u64 \<Rightarrow> u8 list \<Rightarrow> u64 \<Rightarrow> u8" where
  "put_mem m p bs = (\<lambda>a. if unat (a - p) < length bs then bs ! unat (a - p) else m a)"

definition get_mem :: "(u64 \<Rightarrow> u8) \<Rightarrow> u64 \<Rightarrow> nat \<Rightarrow> u8 list" where
  "get_mem m p n = map (\<lambda>i. m (p + of_nat i)) [0..<n]"

definition seeks :: "'f file_if \<Rightarrow> int \<Rightarrow> ('f \<Rightarrow> u64) \<Rightarrow> ('f \<Rightarrow> 'v) \<Rightarrow> bool" where
  "seeks F fd pos view \<longleftrightarrow>
     (\<forall>f off. 0 \<le> sint off \<longrightarrow> (case fi_lseek F fd (sint off) f of (rc, f') \<Rightarrow> rc = sint off \<and> pos f' = off \<and> view f' = view f))"

definition writes :: "'f file_if \<Rightarrow> int \<Rightarrow> ('f \<Rightarrow> u64) \<Rightarrow> ('f \<Rightarrow> u64 \<Rightarrow> u8) \<Rightarrow> ('f \<Rightarrow> 'v) \<Rightarrow> bool" where
  "writes F fd pos mem view \<longleftrightarrow>
     (\<forall>f bs. length bs \<le> unat RW_MAX_SIZE \<longrightarrow>
        (case fi_write F fd bs f of
           (rc, f') \<Rightarrow> rc = int (length bs) \<and> mem f' = put_mem (mem f) (pos f) bs \<and> view f' = view f))"

definition reads :: "'f file_if \<Rightarrow> int \<Rightarrow> ('f \<Rightarrow> u64) \<Rightarrow> ('f \<Rightarrow> u64 \<Rightarrow> u8) \<Rightarrow> ('f \<Rightarrow> 'v) \<Rightarrow> bool" where
  "reads F fd pos mem view \<longleftrightarrow>
     (\<forall>f n. n \<le> unat RW_MAX_SIZE \<longrightarrow>
        (case fi_read F fd n f of
           (rc, bs, f') \<Rightarrow> rc = int n \<and> bs = get_mem (mem f) (pos f) n \<and> mem f' = mem f \<and> view f' = view f))"

lemma unat_nat64: "n < 2 ^ 64 \<Longrightarrow> unat (of_nat n :: u64) = n"
  by (simp add: unat_of_nat)

lemma sint_nonneg64:
  fixes w :: u64
  assumes "unat w < 2 ^ 63"
  shows "0 \<le> sint w"
proof -
  have "int (unat w) < int (2 ^ 63)"
    using assms by (simp only: of_nat_less_iff)
  then have "uint w < 2 ^ 63"
    by simp
  moreover have "- (2 ^ 63) \<le> uint w"
    by (rule order_trans [OF _ uint_ge_0]) simp
  ultimately have "sint w = uint w"
    unfolding sint_uint by (intro signed_take_bit_int_eq_self) simp_all
  then show ?thesis
    by simp
qed

lemma take_split: "n \<le> m \<Longrightarrow> take m (drop k xs) = take n (drop k xs) @ take (m - n) (drop (k + n) xs)"
  by (metis add.commute drop_drop le_add_diff_inverse take_add)

lemma put_mem_append:
  assumes "length xs + length ys < 2 ^ 64"
  shows "put_mem (put_mem m p xs) (p + of_nat (length xs)) ys = put_mem m p (xs @ ys)"
proof
  fix a
  define d where "d = a - p"
  have shift: "a - (p + of_nat (length xs)) = d - of_nat (length xs)"
    by (simp add: d_def algebra_simps)
  have len: "unat (of_nat (length xs) :: u64) = length xs"
    using assms by (simp add: unat_nat64)
  show "put_mem (put_mem m p xs) (p + of_nat (length xs)) ys a = put_mem m p (xs @ ys) a"
  proof (cases "unat d < length xs")
    case True
    then have "unat (d - of_nat (length xs)) = unat d + 2 ^ 64 - length xs"
      using unat_sub_if' [of d "of_nat (length xs)"] len by simp
    then have "\<not> unat (d - of_nat (length xs)) < length ys"
      using assms by linarith
    then show ?thesis
      using True by (simp add: put_mem_def shift d_def [symmetric] nth_append)
  next
    case False
    then have "unat (d - of_nat (length xs)) = unat d - length xs"
      using unat_sub_if' [of d "of_nat (length xs)"] len by simp
    then show ?thesis
      using False by (auto simp: put_mem_def shift d_def [symmetric] nth_append)
  qed
qed

lemma put_mem_nil [simp]: "put_mem m p [] = m"
  by (simp add: put_mem_def)

lemma put_mem_again: "put_mem (put_mem m p bs) p bs = put_mem m p bs"
  by (auto simp: put_mem_def)

lemma get_put_mem: "length bs < 2 ^ 64 \<Longrightarrow> get_mem (put_mem m p bs) p (length bs) = bs"
  by (auto simp: get_mem_def put_mem_def unat_nat64 intro: nth_equalityI)

lemma length_get_mem [simp]: "length (get_mem m p n) = n"
  by (simp add: get_mem_def)

lemma get_mem_append: "get_mem m p (a + b) = get_mem m p a @ get_mem m (p + of_nat a) b"
  by (rule nth_equalityI) (auto simp: get_mem_def nth_append algebra_simps simp flip: of_nat_add)

lemma chunk_max: "unat (chunk sz cnt) \<le> unat RW_MAX_SIZE"
  by (auto simp: chunk_def Let_def word_le_nat_alt [symmetric])

lemma seek_run:
  assumes "seeks F fd pos view" and "unat offset < 2 ^ 63" and "offset \<noteq> 0 \<or> pos f = 0"
  obtains f' where "seek_to F fd offset f = (Inr (), f')" "pos f' = offset" "view f' = view f"
proof (cases "offset = 0")
  case True
  then show ?thesis
    using assms that by (simp add: seek_to_def)
next
  case False
  have "0 \<le> sint offset"
    using assms(2) by (rule sint_nonneg64)
  then show ?thesis
    using assms(1) False that by (fastforce simp: seek_to_def seeks_def split: prod.splits)
qed

lemma write_run:
  assumes "writes F fd pos mem view" and "length bs \<le> unat RW_MAX_SIZE"
  obtains f' where "fi_write F fd bs f = (int (length bs), f')" "mem f' = put_mem (mem f) (pos f) bs" "view f' = view f"
proof -
  obtain rc f' where run: "fi_write F fd bs f = (rc, f')"
    by fastforce
  then have "rc = int (length bs) \<and> mem f' = put_mem (mem f) (pos f) bs \<and> view f' = view f"
    using assms(1) [unfolded writes_def, rule_format, OF assms(2), of f] by simp
  then show ?thesis
    using that run by simp
qed

lemma read_run:
  assumes "reads F fd pos mem view" and "n \<le> unat RW_MAX_SIZE"
  obtains f' where "fi_read F fd n f = (int n, get_mem (mem f) (pos f) n, f')" "mem f' = mem f" "view f' = view f"
proof -
  obtain rc bs f' where run: "fi_read F fd n f = (rc, bs, f')"
    by (metis surj_pair)
  then have "rc = int n \<and> bs = get_mem (mem f) (pos f) n \<and> mem f' = mem f \<and> view f' = view f"
    using assms(1) [unfolded reads_def, rule_format, OF assms(2), of f] by simp
  then show ?thesis
    using that run by simp
qed

text \<open>One round of a loop that is not at its end, on a file that obeys.\<close>

lemma chunk_step:
  assumes "cnt < sz" and "unat base + unat sz < 2 ^ 63" and "offset = base + cnt"
  shows "unat offset = unat base + unat cnt" and "unat (chunk sz cnt) \<le> unat sz - unat cnt"
    and "offset + chunk sz cnt = base + (cnt + chunk sz cnt)" and "offset + chunk sz cnt \<noteq> 0"
    and "of_nat (unat (chunk sz cnt)) = chunk sz cnt"
proof -
  have lt: "unat cnt < unat sz"
    using assms(1) by (simp add: word_less_nat_alt)
  show off: "unat offset = unat base + unat cnt"
    using lt assms(2,3) by (simp add: unat_add_lem [THEN iffD1])
  show le: "unat (chunk sz cnt) \<le> unat sz - unat cnt"
    using chunk_props(2) [OF assms(1)] by simp
  show "offset + chunk sz cnt = base + (cnt + chunk sz cnt)"
    by (simp add: assms(3))
  have "unat (offset + chunk sz cnt) = unat offset + unat (chunk sz cnt)"
    using off le lt assms(2) by (subst unat_add_lem [THEN iffD1]) simp_all
  then show "offset + chunk sz cnt \<noteq> 0"
    using chunk_props(1) [OF assms(1)] by (metis add_is_0 unat_0 less_irrefl)
  show "of_nat (unat (chunk sz cnt)) = chunk sz cnt"
    by simp
qed

lemma write_loop_whole:
  assumes "seeks F fd pos (\<lambda>f. (mem f, view f))" and "writes F fd pos mem view" and "unat base + unat sz < 2 ^ 63" and "off + unat sz \<le> length bs"
    and "cnt \<le> sz" and "offset = base + cnt" and "offset \<noteq> 0 \<or> pos f = 0"
  shows "\<exists>f'. write_loop F fd bs off sz cnt offset f = (Inr sz, f') \<and>
           mem f' = put_mem (mem f) offset (take (unat sz - unat cnt) (drop (off + unat cnt) bs)) \<and> view f' = view f"
  using assms(5-)
proof (induction "unat sz - unat cnt" arbitrary: cnt offset f rule: less_induct)
  case less
  show ?case
  proof (cases "cnt < sz")
    case False
    then show ?thesis
      using less.prems(1) by (simp add: write_loop.simps)
  next
    case True
    let ?n = "chunk sz cnt"
    let ?part = "take (unat ?n) (drop (off + unat cnt) bs)"
    note step = chunk_step [OF True assms(3) less.prems(2)]
    note props = chunk_props [OF True]
    obtain f1 where seek: "seek_to F fd offset f = (Inr (), f1)" "pos f1 = offset" "mem f1 = mem f" "view f1 = view f"
      using seek_run [OF assms(1) _ less.prems(3)] step(1) props(2) assms(3) by auto
    have len: "length ?part = unat ?n"
      using props(2) assms(4) by simp
    obtain f2 where wr: "fi_write F fd ?part f1 = (int (unat ?n), f2)" "mem f2 = put_mem (mem f) offset ?part" "view f2 = view f"
      using write_run [OF assms(2), of ?part f1] seek len chunk_max [of sz cnt] by auto
    have fits: "off + unat cnt + unat ?n \<le> length bs"
      using props(2) assms(4) by simp
    have "write_loop F fd bs off sz cnt offset f = write_loop F fd bs off sz (cnt + ?n) (offset + ?n) f2"
      using True seek(1) wr(1) fits by (subst write_loop.simps) (simp add: Let_def not_less)
    moreover have le: "cnt + ?n \<le> sz" "unat sz - unat (cnt + ?n) < unat sz - unat cnt"
      using props by (simp_all add: word_le_nat_alt)
    moreover obtain f3 where "write_loop F fd bs off sz (cnt + ?n) (offset + ?n) f2 = (Inr sz, f3)"
      and "mem f3 = put_mem (mem f2) (offset + ?n) (take (unat sz - unat (cnt + ?n)) (drop (off + unat (cnt + ?n)) bs))" "view f3 = view f2"
      using less.hyps [OF _ _ step(3), of f2] step(4) props le by blast
    moreover have "take (unat sz - unat cnt) (drop (off + unat cnt) bs) =
        ?part @ take (unat sz - unat (cnt + ?n)) (drop (off + unat (cnt + ?n)) bs)"
      using take_split [of "unat ?n" "unat sz - unat cnt" "off + unat cnt" bs] props(2,3) by (simp add: add.assoc)
    moreover have "put_mem (put_mem (mem f) offset ?part) (offset + ?n) ys = put_mem (mem f) offset (?part @ ys)"
      if "length ys \<le> unat sz - unat (cnt + ?n)" for ys
      using put_mem_append [of ?part ys "mem f" offset] that len step(5) props(2,3) assms(3) by simp
    ultimately show ?thesis
      using wr(2,3) by simp
  qed
qed

lemma put_bytes_inside:
  "off + length bs \<le> length m \<Longrightarrow> put_bytes m off bs = Inr (take off m @ bs @ drop (off + length bs) m)"
  by (simp add: put_bytes_def)

lemma read_loop_whole:
  assumes "seeks F fd pos (\<lambda>f. (mem f, view f))" and "reads F fd pos mem view" and "unat base + unat sz < 2 ^ 63"
    and "off + unat sz \<le> length m" and "cnt \<le> sz" and "offset = base + cnt" and "offset \<noteq> 0 \<or> pos f = 0"
  shows "\<exists>f'. read_loop F fd off sz cnt offset m f =
             (Inr (sz, take (off + unat cnt) m @ get_mem (mem f) offset (unat sz - unat cnt) @ drop (off + unat sz) m), f') \<and>
           mem f' = mem f \<and> view f' = view f"
  using assms(4-)
proof (induction "unat sz - unat cnt" arbitrary: cnt offset m f rule: less_induct)
  case less
  show ?case
  proof (cases "cnt < sz")
    case False
    then show ?thesis
      using less.prems(2) by (simp add: read_loop.simps get_mem_def)
  next
    case True
    let ?n = "chunk sz cnt"
    let ?part = "get_mem (mem f) offset (unat ?n)"
    let ?m = "take (off + unat cnt) m @ ?part @ drop (off + unat cnt + unat ?n) m"
    note step = chunk_step [OF True assms(3) less.prems(3)]
    note props = chunk_props [OF True]
    obtain f1 where seek: "seek_to F fd offset f = (Inr (), f1)" "pos f1 = offset" "mem f1 = mem f" "view f1 = view f"
      using seek_run [OF assms(1) _ less.prems(4)] step(1) props(2) assms(3) by auto
    obtain f2 where rd: "fi_read F fd (unat ?n) f1 = (int (unat ?n), ?part, f2)" "mem f2 = mem f" "view f2 = view f"
      using read_run [OF assms(2) chunk_max, of sz cnt f1] seek by auto
    have fits: "off + unat cnt + length ?part \<le> length m"
      using props(2) less.prems(1) by simp
    have "read_loop F fd off sz cnt offset m f = read_loop F fd off sz (cnt + ?n) (offset + ?n) ?m f2"
      using True seek(1) rd(1) put_bytes_inside [OF fits] by (subst read_loop.simps) (simp add: Let_def)
    moreover have le: "cnt + ?n \<le> sz" "unat sz - unat (cnt + ?n) < unat sz - unat cnt" and room: "off + unat sz \<le> length ?m"
      using props fits less.prems(1) by (simp_all add: word_le_nat_alt)
    moreover obtain f3 where "read_loop F fd off sz (cnt + ?n) (offset + ?n) ?m f2 =
        (Inr (sz, take (off + unat (cnt + ?n)) ?m @ get_mem (mem f2) (offset + ?n) (unat sz - unat (cnt + ?n)) @ drop (off + unat sz) ?m), f3)"
      and "mem f3 = mem f2" "view f3 = view f2"
      using less.hyps [OF le(2) room le(1) step(3), of f2] step(4) by blast
    moreover have "take (off + unat (cnt + ?n)) ?m = take (off + unat cnt) m @ ?part" "drop (off + unat sz) ?m = drop (off + unat sz) m"
      using props fits by (simp_all add: add.commute)
    moreover have "get_mem (mem f) offset (unat sz - unat cnt) = ?part @ get_mem (mem f) (offset + ?n) (unat sz - unat (cnt + ?n))"
      using get_mem_append [of "mem f" offset "unat ?n" "unat sz - unat (cnt + ?n)"] props(2,3) step(5) by simp
    ultimately show ?thesis
      using rd(2,3) by simp
  qed
qed

lemma write_from_buffer_whole:
  assumes "seeks F fd pos (\<lambda>f. (mem f, view f))" and "writes F fd pos mem view" and "unat base + unat sz < 2 ^ 63"
    and "off + unat sz \<le> length bs" and "base \<noteq> 0 \<or> pos f = 0"
  obtains f' where "map_prod ssize id (write_from_buffer F fd bs off sz base f) = (Inr sz, f')"
    and "mem f' = put_mem (mem f) base (take (unat sz) (drop off bs))" and "view f' = view f"
  using write_loop_whole [OF assms(1-4), of 0 base f] assms(3,5) that sint_nonneg64 [of sz]
  by (force simp: write_from_buffer_def ssize_def)

lemma read_to_buffer_whole:
  assumes "seeks F fd pos (\<lambda>f. (mem f, view f))" and "reads F fd pos mem view" and "unat base + unat sz < 2 ^ 63"
    and "off + unat sz \<le> length m" and "base \<noteq> 0 \<or> pos f = 0"
  obtains f' where "map_prod read_ssize id (read_to_buffer F fd m off sz base f) =
      (Inr (take off m @ get_mem (mem f) base (unat sz) @ drop (off + unat sz) m), f')"
    and "mem f' = mem f" and "view f' = view f"
  using read_loop_whole [OF assms(1-4), of 0 base f] assms(3,5) that sint_nonneg64 [of sz]
  by (force simp: read_to_buffer_def read_ssize_def ssize_def)

section \<open>The programs on files that obey\<close>

text \<open>The clock, the allocator and closing a file leave a view of the state alone.\<close>

definition quiet :: "'f file_if \<Rightarrow> ('f \<Rightarrow> 'v) \<Rightarrow> bool" where
  "quiet F view \<longleftrightarrow>
     (\<forall>f. view (snd (fi_clock F f)) = view f) \<and> (\<forall>f. view (fi_free F f) = view f) \<and>
     (\<forall>fd f. view (fi_close F fd f) = view f)"

lemma quiet_sub: "quiet F (\<lambda>f. (v f, w f)) \<Longrightarrow> quiet F v"
  by (simp add: quiet_def)

lemma timed_run:
  assumes "act (snd (fi_clock F f)) = (Inr v, f')"
  shows "\<exists>t. timed F act tt f = (Inr (v, t), snd (fi_clock F f'))"
  using assms by (auto simp: timed_def split: prod.splits)

lemma quiet_out:
  "quiet F view \<Longrightarrow> view (free_mem F al (close_file F b (close_file F a (fi_close F c f)))) = view f"
  "quiet F view \<Longrightarrow> view (free_mem F al (close_file F a (fi_close F c f))) = view f"
  by (simp_all add: quiet_def free_mem_def close_file_def)

lemma to_loop_whole:
  assumes "seeks F fd pos mem" and "writes F fd pos mem (\<lambda>_. ())" and "quiet F (\<lambda>f. (mem f, pos f))"
    and "unat addr + unat sz < 2 ^ 63" and "off + unat sz \<le> length bs" and "out_fd < 0"
    and "addr \<noteq> 0 \<or> (unat cnt - unat i \<le> 1 \<and> pos f = 0)"
  shows "\<exists>t f'. to_loop F fd out_fd bs off sz addr cnt i tt f = (Inr t, f') \<and>
           mem f' = (if i < cnt then put_mem (mem f) addr (take (unat sz) (drop off bs)) else mem f)"
  using assms(7)
proof (induction "unat cnt - unat i" arbitrary: i tt f rule: less_induct)
  case less
  show ?case
  proof (cases "i < cnt")
    case False
    then show ?thesis
      by (simp add: to_loop.simps)
  next
    case True
    let ?bs = "take (unat sz) (drop off bs)"
    let ?f0 = "snd (fi_clock F f)"
    have seeks: "seeks F fd pos (\<lambda>f. (mem f, ()))"
      using assms(1) by (simp add: seeks_def)
    have f0: "mem ?f0 = mem f" "pos ?f0 = pos f"
      using assms(3) by (simp_all add: quiet_def)
    obtain f1 where w: "map_prod ssize id (write_from_buffer F fd bs off sz addr ?f0) = (Inr sz, f1)"
      "mem f1 = put_mem (mem f) addr ?bs"
      using write_from_buffer_whole [OF seeks assms(2,4,5), of ?f0] less.prems f0 by auto
    obtain t where t: "timed F (\<lambda>f. map_prod ssize id (write_from_buffer F fd bs off sz addr f)) tt f = (Inr (sz, t), snd (fi_clock F f1))"
      using timed_run [of "\<lambda>f. map_prod ssize id (write_from_buffer F fd bs off sz addr f)" F f sz f1 tt] w(1) by auto
    define f2 where "f2 = snd (fi_clock F f1)"
    have f2: "mem f2 = put_mem (mem f) addr ?bs"
      using assms(3) w(2) by (simp add: f2_def quiet_def)
    have "to_loop F fd out_fd bs off sz addr cnt i tt f = to_loop F fd out_fd bs off sz addr cnt (i + 1) t f2"
      using True t assms(6) by (subst to_loop.simps) (simp add: f2_def)
    moreover have succ: "unat (i + 1) = Suc (unat i)" "unat i < unat cnt"
      using unat_next [OF True] True by (simp_all add: word_less_nat_alt)
    have "\<exists>t' f'. to_loop F fd out_fd bs off sz addr cnt (i + 1) t f2 = (Inr t', f') \<and>
        mem f' = (if i + 1 < cnt then put_mem (mem f2) addr ?bs else mem f2)"
    proof (cases "addr = 0")
      case False
      then show ?thesis
        using less.hyps [of "i + 1" f2 t] succ by simp
    next
      case _: True
      then have "\<not> i + 1 < cnt"
        using less.prems succ by (auto simp: word_less_nat_alt)
      then show ?thesis
        by (simp add: to_loop.simps)
    qed
    ultimately show ?thesis
      using True f2 by (auto simp: put_mem_again)
  qed
qed

text \<open>Reading: round \<open>i\<close> stores the same bytes of the device at \<open>i * sz\<close> in the file.\<close>

lemma unat_mult64: "unat a * unat b < 2 ^ 64 \<Longrightarrow> unat (a * b) = unat a * unat b" for a b :: u64
  by (simp add: unat_mult_lem [THEN iffD1])

lemma from_round:
  assumes dev: "seeks F fd pos (\<lambda>f. (mem f, omem f, opos f))" "reads F fd pos mem (\<lambda>f. (omem f, opos f))"
    and out: "seeks F out_fd opos (\<lambda>f. (omem f, mem f))" "writes F out_fd opos omem mem" "0 \<le> out_fd" "\<not> no_write"
    and quiet: "quiet F (\<lambda>f. (mem f, omem f, pos f, opos f))"
    and fits: "unat addr + unat sz < 2 ^ 63" "unat (i * sz) + unat sz < 2 ^ 63" "off + unat sz \<le> length m"
    and start: "i < cnt" "addr \<noteq> 0 \<or> pos f = 0" "i * sz \<noteq> 0 \<or> opos f = 0"
  obtains t m' f' where
    "from_loop F fd out_fd no_write m off sz addr cnt i tt f = from_loop F fd out_fd no_write m' off sz addr cnt (i + 1) t f'"
    and "length m' = length m" and "mem f' = mem f" and "omem f' = put_mem (omem f) (i * sz) (get_mem (mem f) addr (unat sz))"
proof -
  let ?bs = "get_mem (mem f) addr (unat sz)"
  let ?m = "take off m @ ?bs @ drop (off + unat sz) m"
  let ?f0 = "snd (fi_clock F f)"
  have f0: "mem ?f0 = mem f" "pos ?f0 = pos f" "omem ?f0 = omem f" "opos ?f0 = opos f"
    using quiet by (simp_all add: quiet_def)
  obtain f1 where r: "map_prod read_ssize id (read_to_buffer F fd m off sz addr ?f0) = (Inr ?m, f1)"
    "mem f1 = mem f" "omem f1 = omem f" "opos f1 = opos f"
    using read_to_buffer_whole [OF dev fits(1,3), of ?f0] start(2) f0 by auto
  obtain t where t: "timed F (\<lambda>f. map_prod read_ssize id (read_to_buffer F fd m off sz addr f)) tt f = (Inr (?m, t), snd (fi_clock F f1))"
    using timed_run [of "\<lambda>f. map_prod read_ssize id (read_to_buffer F fd m off sz addr f)" F f ?m f1 tt] r(1) by auto
  define f2 where "f2 = snd (fi_clock F f1)"
  have f2: "mem f2 = mem f" "omem f2 = omem f" "opos f2 = opos f"
    using quiet r by (simp_all add: f2_def quiet_def)
  have room: "off + unat sz \<le> length ?m" and part: "take (unat sz) (drop off ?m) = ?bs"
    using fits(3) by simp_all
  obtain f3 where w: "map_prod ssize id (write_from_buffer F out_fd ?m off sz (i * sz) f2) = (Inr sz, f3)"
    "omem f3 = put_mem (omem f) (i * sz) ?bs" "mem f3 = mem f"
    using write_from_buffer_whole [OF out(1,2) fits(2) room, of f2] start(3) f2 part by auto
  have "from_loop F fd out_fd no_write m off sz addr cnt i tt f = from_loop F fd out_fd no_write ?m off sz addr cnt (i + 1) t f3"
    using start(1) t out(3,4) w(1) by (subst from_loop.simps) (simp add: f2_def)
  then show ?thesis
    using that w(2,3) fits(3) by simp
qed

lemma put_mem_rounds:
  fixes i sz :: u64
  assumes "n * unat sz < 2 ^ 63" and "0 < n" and "length bs = unat sz"
  shows "put_mem (put_mem m (i * sz) bs) ((i + 1) * sz) (concat (replicate (n - 1) bs)) = put_mem m (i * sz) (concat (replicate n bs))"
proof -
  have "length bs + length (concat (replicate (n - 1) bs)) = n * unat sz"
    using assms(2,3) by (simp add: length_concat sum_list_replicate flip: mult_Suc)
  then show ?thesis
    using put_mem_append [of bs "concat (replicate (n - 1) bs)" m "i * sz"] assms
    by (cases n) (simp_all add: algebra_simps)
qed

lemma from_loop_whole:
  assumes dev: "seeks F fd pos (\<lambda>f. (mem f, omem f, opos f))" "reads F fd pos mem (\<lambda>f. (omem f, opos f))"
    and out: "seeks F out_fd opos (\<lambda>f. (omem f, mem f))" "writes F out_fd opos omem mem" "0 \<le> out_fd" "\<not> no_write"
    and quiet: "quiet F (\<lambda>f. (mem f, omem f, pos f, opos f))"
    and fits: "unat addr + unat sz < 2 ^ 63" "unat cnt * unat sz < 2 ^ 63" "0 < unat sz"
    and "off + unat sz \<le> length m" and "i \<le> cnt" and "addr \<noteq> 0 \<or> (unat cnt - unat i \<le> 1 \<and> pos f = 0)" and "i \<noteq> 0 \<or> opos f = 0"
  shows "\<exists>t f'. from_loop F fd out_fd no_write m off sz addr cnt i tt f = (Inr t, f') \<and> mem f' = mem f \<and>
           omem f' = put_mem (omem f) (i * sz) (concat (replicate (unat cnt - unat i) (get_mem (mem f) addr (unat sz))))"
  using assms(11-)
proof (induction "unat cnt - unat i" arbitrary: i tt m f rule: less_induct)
  case less
  show ?case
  proof (cases "i < cnt")
    case False
    then show ?thesis
      using less.prems(2) by (simp add: from_loop.simps)
  next
    case True
    have succ: "unat (i + 1) = Suc (unat i)" "unat i < unat cnt"
      using unat_next [OF True] True by (simp_all add: word_less_nat_alt)
    have le: "Suc (unat i) * unat sz \<le> unat cnt * unat sz" "(unat cnt - unat i) * unat sz \<le> unat cnt * unat sz"
      using succ(2) by (simp_all add: mult_le_mono1 del: mult_Suc)
    then have at: "unat (i * sz) + unat sz < 2 ^ 63" "unat (i * sz) = unat i * unat sz"
      using fits(2) unat_mult64 [of i sz] by simp_all
    have left: "(unat cnt - unat i) * unat sz < 2 ^ 63"
      using le(2) fits(2) by (rule le_less_trans)
    have seekable: "i * sz \<noteq> 0 \<or> opos f = 0"
      using less.prems(4) at(2) fits(3) by (metis mult_is_0 unat_0 unat_eq_zero less_irrefl)
    have "addr \<noteq> 0 \<or> pos f = 0"
      using less.prems(3) by auto
    from from_round [OF dev out quiet fits(1) at(1) less.prems(1) True this seekable] obtain t m' f3 where
      step: "from_loop F fd out_fd no_write m off sz addr cnt i tt f = from_loop F fd out_fd no_write m' off sz addr cnt (i + 1) t f3"
      and f3: "length m' = length m" "mem f3 = mem f" "omem f3 = put_mem (omem f) (i * sz) (get_mem (mem f) addr (unat sz))" .
    have "\<exists>t' f'. from_loop F fd out_fd no_write m' off sz addr cnt (i + 1) t f3 = (Inr t', f') \<and> mem f' = mem f \<and>
        omem f' = put_mem (omem f3) ((i + 1) * sz) (concat (replicate (unat cnt - unat i - 1) (get_mem (mem f) addr (unat sz))))"
    proof (cases "i + 1 < cnt")
      case False
      then show ?thesis
        using succ f3(2) by (auto simp: from_loop.simps word_less_nat_alt)
    next
      case more: True
      have "i + 1 \<noteq> 0" "addr \<noteq> 0"
        using succ more less.prems(3) by (auto simp: word_less_nat_alt simp del: unat_0)
      then show ?thesis
        using less.hyps [of "i + 1" m' f3 t] less.prems(1) more succ f3(1,2) by auto
    qed
    then show ?thesis
      using step put_mem_rounds [OF left] succ(2) f3(3) by simp
  qed
qed

text \<open>The page offset of the buffer always fits the 4096 bytes that are allocated on top.\<close>

lemma common_opt_offset: "common_opt junk c s d = Some d' \<Longrightarrow> do_offset d \<le> 4095 \<Longrightarrow> do_offset d' \<le> 4095"
  by (auto simp: common_opt_def word_and_le1 split: if_splits)

lemma read_opts_keep:
  assumes "\<And>c s d d'. opt c s d = Some d' \<Longrightarrow> do_offset d \<le> 4095 \<Longrightarrow> do_offset d' \<le> 4095"
    and "read_opts opt opts d = Some d'" and "do_offset d \<le> 4095"
  shows "do_offset d' \<le> 4095"
  using assms(2-)
proof (induction opts arbitrary: d)
  case (Cons a opts)
  obtain c s where a: "a = (c, s)"
    by fastforce
  obtain d1 where "opt c s d = Some d1" "read_opts opt opts d1 = Some d'"
    using Cons.prems(1) a by (auto split: option.splits)
  then show ?case
    using Cons.IH assms(1) Cons.prems(2) by blast
qed simp

lemma opts_offset:
  "read_opts (to_opt junk) opts (default_opts dev) = Some d \<Longrightarrow> do_offset d \<le> 4095"
  "read_opts (from_opt junk) opts (default_opts dev) = Some d \<Longrightarrow> do_offset d \<le> 4095"
  by (erule read_opts_keep [rotated], simp add: default_opts_def,
      auto simp: to_opt_def from_opt_def split: if_splits dest: common_opt_offset)+

lemma buffer_room:
  fixes k sz :: u64
  assumes "k \<le> 4095" and "unat sz + 4096 < 2 ^ 64" and "length m = unat (sz + 4096)"
  shows "unat k + unat sz \<le> length m"
proof -
  have "unat (sz + 4096) = unat sz + 4096"
    using assms(2) by (subst unat_add_lem [THEN iffD1]) simp_all
  moreover have "unat k \<le> 4095"
    using assms(1) by (simp add: word_le_nat_alt)
  ultimately show ?thesis
    using assms(3) by simp
qed

text \<open>
  C12: \<open>dma_to_device -f data\<close>, with any other options but \<open>-w\<close>, on files that can be opened and read and
  written in full: the program succeeds, and the device memory holds the first \<open>size\<close> bytes of the
  file from \<open>address\<close> on and is otherwise as it was, whatever the page offset, also when the transfer is cut
  into pieces of \<open>RW_MAX_SIZE\<close> and when it is repeated. Address 0 is never sought, so repeating is
  only covered for other addresses.
\<close>

theorem dma_to_device_stores:
  assumes "read_opts (to_opt junk) opts (default_opts ''/dev/xdma0_h2c_0'') = Some d"
    and "do_infname d = Some infn" and "do_ofname d = None"
    and "fi_open F (do_device d) O_DEVICE f = (fd, f1)" and "0 \<le> fd"
    and "fi_open F infn O_INPUT f1 = (in_fd, f2)" and "0 \<le> in_fd"
    and "fi_memalign F (do_size d + 4096) f2 = (Some m, f3)" and "length m = unat (do_size d + 4096)"
    and "pos f3 = 0" and "in_pos f3 = 0"
    and "seeks F fd pos mem" and "writes F fd pos mem (\<lambda>_. ())"
    and "seeks F in_fd in_pos (\<lambda>f. (file f, mem f, pos f))" and "reads F in_fd in_pos file (\<lambda>f. (mem f, pos f))"
    and "quiet F (\<lambda>f. (mem f, pos f))"
    and "unat (do_address d) + unat (do_size d) < 2 ^ 63" and "0 < do_count d" and "do_address d \<noteq> 0 \<or> do_count d = 1"
  shows "\<exists>t f'. dma_to_device F junk opts f = (Returns (Inr t), f') \<and>
    mem f' = put_mem (mem f3) (do_address d) (get_mem (file f3) 0 (unat (do_size d)))"
proof -
  let ?off = "unat (do_offset d)" and ?sz = "do_size d"
  let ?bs = "get_mem (file f3) 0 (unat ?sz)"
  let ?m = "take ?off m @ ?bs @ drop (?off + unat ?sz) m"
  have small: "unat (0 :: u64) + unat ?sz < 2 ^ 63"
    using assms(17) by simp
  have room: "?off + unat ?sz \<le> length m"
    using buffer_room [OF opts_offset(1) [OF assms(1)] _ assms(9)] small by simp
  obtain f4 where rd: "map_prod read_ssize id (read_to_buffer F in_fd m ?off ?sz 0 f3) = (Inr ?m, f4)" "mem f4 = mem f3" "pos f4 = 0"
    using read_to_buffer_whole [OF assms(14,15) small room, of f3] assms(10,11) by auto
  have room2: "?off + unat ?sz \<le> length ?m" and part: "take (unat ?sz) (drop ?off ?m) = ?bs"
    using room by simp_all
  have one: "do_address d \<noteq> 0 \<or> unat (do_count d) - unat (0 :: u64) \<le> 1 \<and> pos f4 = 0"
    using assms(19) rd(3) by auto
  obtain t f5 where run: "to_loop F fd (- 1) ?m ?off ?sz (do_address d) (do_count d) 0 0 f4 = (Inr t, f5)"
    and mem: "mem f5 = put_mem (mem f3) (do_address d) ?bs"
    using to_loop_whole [OF assms(12,13,16,17) room2 _ one, of "- 1" 0] assms(18) rd(2) part by auto
  have "to_device_body F fd in_fd (- 1) (do_address d) ?sz (do_offset d) (do_count d) f2 = (Inr t, True, f5)"
    using assms(7,8) rd(1) run by (simp add: to_device_body_def)
  then have "dma_to_device F junk opts f = (Returns (Inr t), free_mem F True (close_file F (- 1) (close_file F in_fd (fi_close F fd f5))))"
    using assms(1-7) by (simp add: dma_to_device_def test_dma_to_def open_file_def)
  then show ?thesis
    using mem quiet_out(1) [OF quiet_sub [OF assms(16)]] by auto
qed

text \<open>
  C13: \<open>dma_from_device -f data\<close> saves every transfer: the file holds the \<open>size\<close> bytes of the device
  memory from \<open>address\<close> on, once per transfer, one after the other from its start, and the device memory is
  as it was. A second transfer from address 0 is again not covered.
\<close>

theorem dma_from_device_saves:
  assumes "read_opts (from_opt junk) opts (default_opts ''/dev/xdma0_c2h_0'') = Some d"
    and "do_ofname d = Some outn" and "\<not> do_no_write d"
    and "fi_open F (do_device d) O_DEVICE_NONBLOCK f = (fd, f1)" and "0 \<le> fd"
    and "fi_open F outn O_OUTPUT f1 = (out_fd, f2)" and "0 \<le> out_fd"
    and "fi_memalign F (do_size d + 4096) f2 = (Some m, f3)" and "length m = unat (do_size d + 4096)"
    and "pos f3 = 0" and "out_pos f3 = 0"
    and "seeks F fd pos (\<lambda>f. (mem f, file f, out_pos f))" and "reads F fd pos mem (\<lambda>f. (file f, out_pos f))"
    and "seeks F out_fd out_pos (\<lambda>f. (file f, mem f))" and "writes F out_fd out_pos file mem"
    and "quiet F (\<lambda>f. (mem f, file f, pos f, out_pos f))"
    and "unat (do_address d) + unat (do_size d) < 2 ^ 63" and "0 < unat (do_size d)"
    and "unat (do_count d) * unat (do_size d) < 2 ^ 63" and "do_address d \<noteq> 0 \<or> do_count d = 1"
  shows "\<exists>t f'. dma_from_device F junk opts f = (Returns (Inr t), f') \<and> mem f' = mem f3 \<and>
    file f' = put_mem (file f3) 0 (concat (replicate (unat (do_count d)) (get_mem (mem f3) (do_address d) (unat (do_size d)))))"
proof -
  have room: "unat (do_offset d) + unat (do_size d) \<le> length m"
    using buffer_room [OF opts_offset(2) [OF assms(1)] _ assms(9)] assms(17) by simp
  have one: "do_address d \<noteq> 0 \<or> unat (do_count d) - unat (0 :: u64) \<le> 1 \<and> pos f3 = 0"
    using assms(10,20) by auto
  obtain t f4 where run: "from_loop F fd out_fd (do_no_write d) m (unat (do_offset d)) (do_size d) (do_address d) (do_count d) 0 0 f3 = (Inr t, f4)"
    and view: "mem f4 = mem f3"
      "file f4 = put_mem (file f3) 0 (concat (replicate (unat (do_count d)) (get_mem (mem f3) (do_address d) (unat (do_size d)))))"
    using from_loop_whole [OF assms(12-15,7,3,16,17,19,18) room _ one, of 0] assms(11) by auto
  have "from_device_body F fd out_fd (do_no_write d) (do_address d) (do_size d) (do_offset d) (do_count d) f2 = (Inr t, True, f4)"
    using assms(8) run by (simp add: from_device_body_def)
  then have "dma_from_device F junk opts f = (Returns (Inr t), free_mem F True (close_file F out_fd (fi_close F fd f4)))"
    using assms(1-7) by (simp add: dma_from_device_def test_dma_from_def open_file_def)
  then show ?thesis
    using view quiet_out(2) [OF assms(16), of True out_fd fd f4] by auto
qed

section \<open>The buffer is never left\<close>

definition allocates :: "'f file_if \<Rightarrow> bool" where
  "allocates F \<longleftrightarrow> (\<forall>n f m f'. fi_memalign F n f = (Some m, f') \<longrightarrow> length m = unat n)"

definition reads_within :: "'f file_if \<Rightarrow> bool" where
  "reads_within F \<longleftrightarrow> (\<forall>fd n f. case fi_read F fd n f of (rc, bs, f') \<Rightarrow> length bs \<le> n)"

lemma seek_to_error: "seek_to F fd offset f = (Inl err, f') \<Longrightarrow> err = EIO"
  by (auto simp: seek_to_def split: if_splits prod.splits)

lemma write_loop_inside:
  assumes "off + unat sz \<le> length m" and "cnt \<le> sz"
  shows "fst (write_loop F fd m off sz cnt offset f) \<noteq> Inl OOPS"
  using assms(2)
proof (induction "unat sz - unat cnt" arbitrary: cnt offset f rule: less_induct)
  case less
  show ?case
  proof (cases "cnt < sz")
    case True
    have fits: "cnt + chunk sz cnt \<le> sz" "\<not> length m < off + unat cnt + unat (chunk sz cnt)"
      using chunk_props [OF True] assms(1) by (simp_all add: word_le_nat_alt)
    have IH: "fst (write_loop F fd m off sz (cnt + chunk sz cnt) p g) \<noteq> Inl OOPS" for p g
      using less.hyps [OF _ fits(1)] chunk_props [OF True] by simp
    show ?thesis
      using True fits(2) IH by (subst write_loop.simps) (auto simp: Let_def split: prod.split sum.split dest: seek_to_error)
  qed (use less in \<open>simp add: write_loop.simps\<close>)
qed

definition read_inside :: "nat \<Rightarrow> (u64 \<times> u8 list) res \<Rightarrow> bool" where
  "read_inside n rc = (case rc of Inl err \<Rightarrow> err \<noteq> OOPS | Inr (_, m) \<Rightarrow> length m = n)"

lemma read_loop_inside:
  assumes "reads_within F" and "off + unat sz \<le> n" and "length m = n" and "cnt \<le> sz"
  shows "read_inside n (fst (read_loop F fd off sz cnt offset m f))"
  using assms(3-)
proof (induction "unat sz - unat cnt" arbitrary: cnt offset m f rule: less_induct)
  case less
  show ?case
  proof (cases "cnt < sz")
    case True
    have fits: "cnt + chunk sz cnt \<le> sz" "off + unat cnt + unat (chunk sz cnt) \<le> n"
      using chunk_props [OF True] assms(2) by (simp_all add: word_le_nat_alt)
    have IH: "read_inside n (fst (read_loop F fd off sz (cnt + chunk sz cnt) p m' g))" if "length m' = n" for m' p g
      using less.hyps [OF _ that fits(1)] chunk_props [OF True] by simp
    have err: "read_inside n (Inl EIO)"
      by (simp add: read_inside_def)
    have data: "\<exists>m'. put_bytes m (off + unat cnt) bs = Inr m' \<and> length m' = n"
      if "fi_read F fd (unat (chunk sz cnt)) g = (rc, bs, g')" for g rc bs g'
    proof -
      have "length bs \<le> unat (chunk sz cnt)"
        using assms(1) that unfolding reads_within_def by (metis (no_types, lifting) case_prod_conv)
      then show ?thesis
        using fits(2) less.prems(1) by (simp add: put_bytes_def)
    qed
    show ?thesis
    proof (cases "seek_to F fd offset f")
      case (Pair r g)
      obtain rc bs g' where rd: "fi_read F fd (unat (chunk sz cnt)) g = (rc, bs, g')"
        by (metis surj_pair)
      obtain m' where "put_bytes m (off + unat cnt) bs = Inr m'" "length m' = n"
        using data [OF rd] by blast
      then show ?thesis
        using True Pair rd IH [of m'] err seek_to_error [of F fd offset f _ g]
        by (subst read_loop.simps) (auto simp: Let_def split: sum.split)
    qed
  qed (use less in \<open>simp add: read_loop.simps read_inside_def\<close>)
qed

lemma ssize_inside: "rc \<noteq> Inl OOPS \<Longrightarrow> ssize rc \<noteq> Inl OOPS"
  by (auto simp: ssize_def split: sum.splits if_splits)

lemma write_inside:
  assumes "off + unat sz \<le> length m"
  shows "fst (map_prod ssize id (write_from_buffer F fd m off sz base f)) \<noteq> Inl OOPS"
  using write_loop_inside [OF assms, of 0 F fd base f] by (simp add: write_from_buffer_def ssize_inside)

lemma read_buffer_inside:
  assumes "reads_within F" and "off + unat sz \<le> length m"
  shows "(case fst (map_prod read_ssize id (read_to_buffer F fd m off sz base f)) of Inl err \<Rightarrow> err \<noteq> OOPS | Inr m' \<Rightarrow> length m' = length m)"
  using read_loop_inside [OF assms refl, of 0 fd base f]
  by (auto simp: read_to_buffer_def read_ssize_def read_inside_def ssize_def split: sum.splits)

lemma to_loop_inside:
  assumes "off + unat sz \<le> length m"
  shows "fst (to_loop F fd out_fd m off sz addr cnt i tt f) \<noteq> Inl OOPS"
proof (induction "unat cnt - unat i" arbitrary: i tt f rule: less_induct)
  case less
  show ?case
  proof (cases "i < cnt")
    case True
    have IH: "fst (to_loop F fd out_fd m off sz addr cnt (i + 1) t g) \<noteq> Inl OOPS" for t g
      using less.hyps [of "i + 1"] unat_next [OF True] True by (simp add: word_less_nat_alt)
    have "\<not> (\<exists>g g'. map_prod ssize id (write_from_buffer F c m off sz p g) = (Inl OOPS, g'))" for c p
      using write_inside [OF assms] by (metis fst_conv)
    then show ?thesis
      using True IH by (subst to_loop.simps) (auto simp: timed_def split: prod.split sum.split)
  qed (simp add: to_loop.simps)
qed

lemma from_loop_inside:
  assumes "reads_within F" and "off + unat sz \<le> n" and "length m = n"
  shows "fst (from_loop F fd out_fd no_write m off sz addr cnt i tt f) \<noteq> Inl OOPS"
  using assms(3)
proof (induction "unat cnt - unat i" arbitrary: i tt m f rule: less_induct)
  case less
  show ?case
  proof (cases "i < cnt")
    case True
    have IH: "fst (from_loop F fd out_fd no_write m' off sz addr cnt (i + 1) t g) \<noteq> Inl OOPS" if "length m' = n" for m' t g
      using less.hyps [of "i + 1", OF _ that] unat_next [OF True] True by (simp add: word_less_nat_alt)
    have wr: "\<not> (\<exists>g g'. map_prod ssize id (write_from_buffer F c m' off sz p g) = (Inl OOPS, g'))" if "length m' = n" for m' c p
      using write_inside [of off sz m'] assms(2) that by (metis fst_conv)
    obtain r g' where rd: "map_prod read_ssize id (read_to_buffer F fd m off sz addr (snd (fi_clock F f))) = (r, g')"
      by fastforce
    then have "case r of Inl err \<Rightarrow> err \<noteq> OOPS | Inr m' \<Rightarrow> length m' = n"
      using read_buffer_inside [OF assms(1), of off sz m fd addr "snd (fi_clock F f)"] assms(2) less.prems by (auto split: sum.splits)
    then show ?thesis
      using True rd IH wr by (subst from_loop.simps) (auto simp: timed_def split: prod.split sum.splits)
  qed (simp add: from_loop.simps)
qed

lemma room_alloc:
  fixes k sz :: u64
  assumes "k \<le> 4095" and "unat sz + 4096 < 2 ^ 64" and "allocates F" and "fi_memalign F (sz + 4096) f = (Some m, f')"
  shows "unat k + unat sz \<le> length m"
  using assms(3,4) unfolding allocates_def by (intro buffer_room [OF assms(1,2)]) blast

lemma fst_with_flag: "fst (case x of (rv, f) \<Rightarrow> (rv, b, f)) = fst x"
  by (simp split: prod.split)

lemma to_body_inside:
  assumes "reads_within F" and "allocates F" and "k \<le> 4095" and "unat sz + 4096 < 2 ^ 64"
  shows "fst (to_device_body F fd in_fd out_fd addr sz k cnt f) \<noteq> Inl OOPS"
proof (cases "fi_memalign F (sz + 4096) f")
  case (Pair r g)
  show ?thesis
  proof (cases r)
    case (Some m)
    have room: "unat k + unat sz \<le> length m"
      using room_alloc [OF assms(3,4,2)] Pair Some by simp
    obtain q h where rd:
      "(if in_fd \<ge> 0 then map_prod read_ssize id (read_to_buffer F in_fd m (unat k) sz 0 g) else (Inr m, g)) = (q, h)"
      by fastforce
    have q: "case q of Inl err \<Rightarrow> err \<noteq> OOPS | Inr m' \<Rightarrow> length m' = length m"
      using rd read_buffer_inside [OF assms(1) room, of in_fd 0 g] by (cases "in_fd \<ge> 0") auto
    have body: "to_device_body F fd in_fd out_fd addr sz k cnt f =
        (case q of Inl err \<Rightarrow> (Inl err, True, h)
         | Inr m' \<Rightarrow> (case to_loop F fd out_fd m' (unat k) sz addr cnt 0 0 h of (rv, f) \<Rightarrow> (rv, True, f)))"
      unfolding to_device_body_def using Pair Some rd by simp
    show ?thesis
      using q room to_loop_inside [of "unat k" sz "projr q"] by (cases q) (simp_all add: body fst_with_flag)
  qed (use Pair in \<open>simp add: to_device_body_def\<close>)
qed

lemma from_body_inside:
  assumes "reads_within F" and "allocates F" and "k \<le> 4095" and "unat sz + 4096 < 2 ^ 64"
  shows "fst (from_device_body F fd out_fd no_write addr sz k cnt f) \<noteq> Inl OOPS"
proof (cases "fi_memalign F (sz + 4096) f")
  case (Pair r g)
  then show ?thesis
    using from_loop_inside [OF assms(1) room_alloc [OF assms(3,4,2)] refl, of f]
    by (cases r) (simp_all add: from_device_body_def fst_with_flag)
qed

text \<open>
  With an allocator that gives the size asked for and reads that fill no more than they were
  asked for, neither program leaves its buffer, whatever the options, files and errors, as long as
  the size plus a page fits in 64 bits.
\<close>

lemma tools_never_fault:
  assumes "reads_within F" and "allocates F"
  shows "(\<forall>d. read_opts (to_opt junk) opts (default_opts ''/dev/xdma0_h2c_0'') = Some d \<longrightarrow> unat (do_size d) + 4096 < 2 ^ 64 \<longrightarrow>
           fst (dma_to_device F junk opts f) \<noteq> Returns (Inl OOPS)) \<and>
         (\<forall>d. read_opts (from_opt junk) opts (default_opts ''/dev/xdma0_c2h_0'') = Some d \<longrightarrow> unat (do_size d) + 4096 < 2 ^ 64 \<longrightarrow>
           fst (dma_from_device F junk opts f) \<noteq> Returns (Inl OOPS))"
proof (intro conjI allI impI)
  fix d
  assume d: "read_opts (to_opt junk) opts (default_opts ''/dev/xdma0_h2c_0'') = Some d" "unat (do_size d) + 4096 < 2 ^ 64"
  have "to_device_body F a b c e (do_size d) (do_offset d) n g \<noteq> (Inl OOPS, x, y)" for a b c e n g x y
    using to_body_inside [OF assms opts_offset(1) [OF d(1)] d(2)] by (metis fst_conv)
  then show "fst (dma_to_device F junk opts f) \<noteq> Returns (Inl OOPS)"
    using d(1) by (auto simp: dma_to_device_def test_dma_to_def open_file_def split: prod.split option.split sum.split)
next
  fix d
  assume d: "read_opts (from_opt junk) opts (default_opts ''/dev/xdma0_c2h_0'') = Some d" "unat (do_size d) + 4096 < 2 ^ 64"
  have "from_device_body F a b c e (do_size d) (do_offset d) n g \<noteq> (Inl OOPS, x, y)" for a b c e n g x y
    using from_body_inside [OF assms opts_offset(2) [OF d(1)] d(2)] by (metis fst_conv)
  then show "fst (dma_from_device F junk opts f) \<noteq> Returns (Inl OOPS)"
    using d(1) by (auto simp: dma_from_device_def test_dma_from_def open_file_def split: prod.split option.split sum.split)
qed

text \<open>
  The bound is needed: with 4096 bytes less than \<open>2 ^ 64\<close>, the size that is allocated wraps to 0 and
  the first transfer leaves the buffer.
\<close>

lemma size_wraps:
  assumes "fi_memalign F 0 f = (Some [], g)" and "in_fd < 0" and "0 < cnt"
  shows "fst (to_device_body F fd in_fd out_fd 0 (- 4096) k cnt f) = Inl OOPS"
proof -
  have "write_from_buffer F fd [] (unat k) (- 4096) 0 h = (Inl OOPS, h)" for h
    using chunk_props(1) [of 0 "- 4096"] word_gt_0 [of "- 4096 :: u64"]
    by (simp add: write_from_buffer_def write_loop.simps [of F fd "[]"] seek_to_def Let_def)
  then show ?thesis
    using assms by (simp add: to_device_body_def to_loop.simps [of F fd out_fd "[]"] timed_def ssize_def fst_with_flag split: prod.split)
qed

text \<open>Only the nanoseconds of a difference are added up: whole seconds are lost.\<close>

lemma seconds_lost: "timespec_check (s, n) \<Longrightarrow> timespec_sub (s + k, n) (s, n) = (k, 0)"
  by (simp add: timespec_sub_def timespec_check_def)

section \<open>Concrete runs\<close>

text \<open>
  A device memory behind the driver's character device (3), whose position only
  \<open>cdev_gen_llseek\<close> moves, and an ordinary file (4).
\<close>

record tools_state =
  ts_dev :: "unit cfile"
  ts_mem :: "u64 \<Rightarrow> u8"
  ts_file :: "u64 \<Rightarrow> u8"
  ts_pos :: u64

abbreviation ts_dev_pos :: "tools_state \<Rightarrow> u64" where
  "ts_dev_pos f \<equiv> f_pos (ts_dev f)"

definition sample_files :: "tools_state file_if" where
  "sample_files = \<lparr>
     fi_open = (\<lambda>n m f. (if m = O_DEVICE \<or> m = O_DEVICE_NONBLOCK then 3 else 4, f)),
     fi_lseek = (\<lambda>fd off f.
       if fd = 3 then (case cdev_gen_llseek (ts_dev f) (word_of_int off) 0 of
                         (Inl _, _) \<Rightarrow> (- 1, f) | (Inr p, c) \<Rightarrow> (sint p, f\<lparr>ts_dev := c\<rparr>))
       else (off, f\<lparr>ts_pos := word_of_int off\<rparr>)),
     fi_read = (\<lambda>fd n f.
       if fd = 3 then (int n, get_mem (ts_mem f) (ts_dev_pos f) n, f)
       else (int n, get_mem (ts_file f) (ts_pos f) n, f\<lparr>ts_pos := ts_pos f + of_nat n\<rparr>)),
     fi_write = (\<lambda>fd bs f.
       if fd = 3 then (int (length bs), f\<lparr>ts_mem := put_mem (ts_mem f) (ts_dev_pos f) bs\<rparr>)
       else (int (length bs), f\<lparr>ts_file := put_mem (ts_file f) (ts_pos f) bs, ts_pos := ts_pos f + of_nat (length bs)\<rparr>)),
     fi_close = (\<lambda>fd f. f), fi_memalign = (\<lambda>n f. (Some (replicate (unat n) 0), f)), fi_free = (\<lambda>f. f),
     fi_clock = (\<lambda>f. ((0, 5), f))\<rparr>"

definition sample_tools :: tools_state where
  "sample_tools = \<lparr>ts_dev = sample_file (\<lambda>n req s. (Inl EIO, False, s)) \<lparr>f_pos := 0\<rparr>, ts_mem = (\<lambda>a. 0xFF), ts_file = (\<lambda>a. ucast a + 1),
     ts_pos = 0\<rparr>"

lemma sample_files_obey:
  "seeks sample_files 3 ts_dev_pos ts_mem" "seeks sample_files 3 ts_dev_pos (\<lambda>f. (ts_mem f, ts_file f, ts_pos f))"
  "writes sample_files 3 ts_dev_pos ts_mem (\<lambda>_. ())" "reads sample_files 3 ts_dev_pos ts_mem (\<lambda>f. (ts_file f, ts_pos f))"
  "seeks sample_files 4 ts_pos (\<lambda>f. (ts_file f, ts_mem f, ts_dev_pos f))" "seeks sample_files 4 ts_pos (\<lambda>f. (ts_file f, ts_mem f))"
  "reads sample_files 4 ts_pos ts_file (\<lambda>f. (ts_mem f, ts_dev_pos f))" "writes sample_files 4 ts_pos ts_file ts_mem"
  "quiet sample_files view"
  by (simp_all add: seeks_def writes_def reads_def quiet_def sample_files_def cdev_gen_llseek_def word_sless_alt)

lemma sample_files_within: "reads_within sample_files" "allocates sample_files"
  by (simp_all add: reads_within_def allocates_def sample_files_def)

definition sample_dma :: dma_opts where
  "sample_dma = (default_opts ''/dev/q0'')\<lparr>do_address := 0x1000, do_size := 8, do_offset := 4, do_count := 2\<rparr>"

definition sample_dma_args :: "(char \<times> string) list" where
  "sample_dma_args = [(CHR ''d'', ''/dev/q0''), (CHR ''a'', ''0x1000''), (CHR ''s'', ''8''), (CHR ''o'', ''4100''), (CHR ''c'', ''2''),
     (CHR ''f'', ''data'')]"

lemma sample_dma_read:
  "read_opts (to_opt 0) sample_dma_args (default_opts ''/dev/xdma0_h2c_0'') = Some (sample_dma\<lparr>do_infname := Some ''data''\<rparr>)"
  "read_opts (from_opt 0) sample_dma_args (default_opts ''/dev/xdma0_c2h_0'') = Some (sample_dma\<lparr>do_ofname := Some ''data''\<rparr>)"
  by code_simp+

lemma sample_files_open:
  "fi_open sample_files n O_DEVICE f = (3, f)" "fi_open sample_files n O_DEVICE_NONBLOCK f = (3, f)"
  "fi_open sample_files n O_INPUT f = (4, f)" "fi_open sample_files n O_OUTPUT f = (4, f)"
  "fi_memalign sample_files k f = (Some (replicate (unat k) 0), f)"
  by (simp_all add: sample_files_def)

lemma sample_dma_fields:
  "do_device sample_dma = ''/dev/q0''" "do_address sample_dma = 0x1000" "do_size sample_dma = 8" "do_offset sample_dma = 4"
  "do_count sample_dma = 2" "do_infname sample_dma = None" "do_ofname sample_dma = None" "\<not> do_no_write sample_dma"
  "ts_mem sample_tools = (\<lambda>a. 0xFF)" "ts_file sample_tools = (\<lambda>a. ucast a + 1)" "ts_pos sample_tools = 0" "ts_dev_pos sample_tools = 0"
  by (simp_all add: sample_dma_def default_opts_def sample_tools_def)

lemmas sample_dma_facts = sample_files_open sample_dma_fields sample_files_obey

lemma sample_bytes:
  "get_mem (\<lambda>a. ucast a + 1) 0 8 = [1, 2, 3, 4, 5, 6, 7, 8]" "get_mem (\<lambda>a. 0xFF) 0x1000 8 = replicate 8 0xFF"
  by code_simp+

theorem dma_to_device_stores_witness:
  "\<exists>t f'. dma_to_device sample_files 0 sample_dma_args sample_tools = (Returns (Inr t), f') \<and>
     ts_mem f' = put_mem (\<lambda>a. 0xFF) 0x1000 [1, 2, 3, 4, 5, 6, 7, 8]"
  using dma_to_device_stores [OF sample_dma_read(1), of "''data''" sample_files sample_tools 3 sample_tools 4 sample_tools
      "replicate (unat (8 + 4096 :: u64)) 0" sample_tools ts_dev_pos ts_pos ts_mem ts_file]
  by (simp add: sample_dma_facts sample_bytes)

theorem dma_from_device_saves_witness:
  "\<exists>t f'. dma_from_device sample_files 0 sample_dma_args sample_tools = (Returns (Inr t), f') \<and> ts_mem f' = (\<lambda>a. 0xFF) \<and>
     ts_file f' = put_mem (\<lambda>a. ucast a + 1) 0 (concat (replicate 2 (replicate 8 0xFF)))"
  using dma_from_device_saves [OF sample_dma_read(2), of "''data''" sample_files sample_tools 3 sample_tools 4 sample_tools
      "replicate (unat (8 + 4096 :: u64)) 0" sample_tools ts_dev_pos ts_pos ts_mem ts_file]
  by (simp add: sample_dma_facts sample_bytes)

lemma tools_never_fault_witness:
  "fst (dma_to_device sample_files 0 sample_dma_args sample_tools) \<noteq> Returns (Inl OOPS) \<and>
   fst (dma_from_device sample_files 0 sample_dma_args sample_tools) \<noteq> Returns (Inl OOPS)"
  using tools_never_fault [OF sample_files_within, of 0 sample_dma_args sample_tools] sample_dma_read
  by (simp add: sample_dma_fields)

end
