(* ===== verification/Qdma_Tx_Count.thy ===== *)
theory Qdma_Tx_Count
  imports Qdma_Tx_Machine
begin

text \<open>
  The transmit queue with a count of descriptors: the state of \<open>Qdma_Tx_Machine\<close> is extended by the
  number of descriptors the device has reported as consumed, a natural number that no index of
  the ring holds. It says when a request may be handed back: when the device has consumed all its
  descriptors, and those of the requests before it.
\<close>

section \<open>Steps\<close>

text \<open>What identifies a request and the data it moves; none of it may change.\<close>

definition req_key :: "qdma_sg_req \<Rightarrow> nat \<times> scatterlist list \<times> u32" where
  "req_key cb = (rid cb, req_sgt cb, req_count cb)"

text \<open>A well-formed request takes one descriptor per entry.\<close>

definition req_len :: "qdma_sg_req \<Rightarrow> nat" where
  "req_len cb = length (req_sgt cb)"

definition req_total :: "qdma_sg_req list \<Rightarrow> nat" where
  "req_total cbs = sum_list (map req_len cbs)"

text \<open>The descriptors the device has reported and the driver has not yet looked at.\<close>

definition unserved :: "qdma_descq \<Rightarrow> nat" where
  "unserved q =
     (unat (wb_cidx (q_desc_wb q)) + unat (qc_rngsz (q_conf q)) - unat (q_cidx q)) mod unat (qc_rngsz (q_conf q))"

type_synonym count_state = "qdma_descq \<times> (nat \<times> scatterlist list \<times> u32) list \<times> nat"

inductive count_step :: "'e env \<Rightarrow> bool \<Rightarrow> count_state \<Rightarrow> count_state \<Rightarrow> bool" for E :: "'e env" and vf where
  queue_request:
    "req_wf (queue_blen q) cb \<Longrightarrow> cb_desc_nr cb = 0 \<Longrightarrow> cb_offset cb = 0 \<Longrightarrow> rid cb \<notin> fst ` set subs \<Longrightarrow>
     req_len cb + unat (qc_rngsz (q_conf q)) < 2 ^ 32 \<Longrightarrow>
     count_step E vf (q, subs, n) (q\<lparr>q_work_list := q_work_list q @ [cb]\<rparr>, subs @ [req_key cb], n)"
| worker:
    "qdma_thread_wrk_proc E vf q e = (rv, q', e') \<Longrightarrow> count_step E vf (q, subs, n) (q', subs, n)"
| device:
    "q' = q\<lparr>q_desc_wb := wb\<rparr> \<Longrightarrow> hw_wb_ok q' \<Longrightarrow> unserved q \<le> unserved q' \<Longrightarrow>
     count_step E vf (q, subs, n) (q', subs, n + (unserved q' - unserved q))"
| writeback:
    "descq_mm_n_h2c_wb E vf xdev q e = (rv, xdev', q', e') \<Longrightarrow> rv \<noteq> Inl OOPS \<Longrightarrow>
     count_step E vf (q, subs, n) (q', subs, n)"

inductive_cases count_step_cases: "count_step E vf (q, subs, n) t"

section \<open>The invariant\<close>

lemma req_key_simps [simp]:
  "req_key (cb\<lparr>cb_desc_nr := a\<rparr>) = req_key cb" "req_key (cb\<lparr>cb_offset := b\<rparr>) = req_key cb"
  "req_key (req_finished cb) = req_key cb" "req_len (cb\<lparr>cb_desc_nr := a\<rparr>) = req_len cb"
  "req_len (cb\<lparr>cb_offset := b\<rparr>) = req_len cb" "req_len (req_finished cb) = req_len cb"
  by (simp_all add: req_key_def req_len_def req_finished_def)

lemma req_total_simps [simp]:
  "req_total [] = 0" "req_total (cb # cbs) = req_len cb + req_total cbs" "req_total (as @ bs) = req_total as + req_total bs"
  "req_total (map req_finished cbs) = req_total cbs"
  by (simp_all add: req_total_def o_def)

lemma desc_sum_append [simp]: "desc_sum (as @ bs) = desc_sum as + desc_sum bs"
  by (simp add: desc_sum_def)

lemma desc_sum_zero: "\<forall>cb\<in>set cbs. cb_desc_nr cb = 0 \<Longrightarrow> desc_sum cbs = 0"
  by (induction cbs) simp_all

text \<open>
  A request that waits has as many descriptors in the ring as entries programmed; only the first can
  have any. A request that is pending has all its descriptors in the ring but for those already
  credited to it, and only the first can have been credited some.
\<close>

definition work_count :: "nat \<Rightarrow> qdma_sg_req list \<Rightarrow> bool" where
  "work_count rngsz cbs \<longleftrightarrow>
     (\<forall>cb\<in>set cbs. unat (cb_desc_nr cb) < req_len cb \<and> unat (cb_offset cb) = sg_sum (take (unat (cb_desc_nr cb)) (req_sgt cb))
        \<and> req_len cb + rngsz < 2 ^ 32)
     \<and> (\<forall>cb\<in>set (tl cbs). cb_desc_nr cb = 0)"

definition pend_count :: "nat \<Rightarrow> u32 \<Rightarrow> qdma_sg_req list \<Rightarrow> bool" where
  "pend_count rngsz credit cbs \<longleftrightarrow>
     (\<forall>cb\<in>set cbs. 0 < unat (cb_desc_nr cb) \<and> unat (cb_desc_nr cb) \<le> req_len cb \<and> req_len cb + rngsz < 2 ^ 32)
     \<and> (\<forall>cb\<in>set (tl cbs). unat (cb_desc_nr cb) = req_len cb)
     \<and> (cbs \<noteq> [] \<longrightarrow> unat credit < unat (cb_desc_nr (hd cbs)))"

text \<open>\<open>s\<close>: the descriptors that have been consumed as far as the driver has looked.\<close>

definition count_ok :: "qdma_descq \<Rightarrow> nat \<Rightarrow> bool" where
  "count_ok q s \<longleftrightarrow>
     work_count (unat (qc_rngsz (q_conf q))) (q_work_list q)
     \<and> pend_count (unat (qc_rngsz (q_conf q))) (q_credit q) (q_pend_list q)
     \<and> outstanding q + unat (q_credit q) = desc_sum (q_pend_list q) + desc_sum (q_work_list q)
     \<and> s + desc_sum (q_pend_list q) = req_total (q_done q) + req_total (q_pend_list q) + unat (q_credit q)"

lemma work_desc_sum: "work_count r cbs \<Longrightarrow> desc_sum cbs = (if cbs = [] then 0 else unat (cb_desc_nr (hd cbs)))"
  using desc_sum_zero [of "tl cbs"] by (cases cbs) (simp_all add: work_count_def)

lemma work_count_tl: "work_count r (cb # cbs) \<Longrightarrow> work_count r cbs"
  by (cases cbs) (auto simp: work_count_def)

lemma pend_count_snoc:
  assumes "pend_count r c cbs" and "unat (cb_desc_nr cb) = req_len cb" and "0 < req_len cb" and "req_len cb + r < 2 ^ 32"
    and "cbs = [] \<Longrightarrow> unat c < req_len cb"
  shows "pend_count r c (cbs @ [cb])"
  using assms by (cases cbs) (auto simp: pend_count_def)

lemma pend_count_head:
  assumes "pend_count r c cbs" and "cbs \<noteq> []"
  shows "unat c < req_len (hd cbs)" and "req_len (hd cbs) + r < 2 ^ 32"
  using assms by (cases cbs; simp add: pend_count_def)+

lemma count_ok_queue:
  assumes "count_ok q s" and "req_wf (queue_blen q) cb" and "cb_desc_nr cb = 0" and "cb_offset cb = 0"
    and "req_len cb + unat (qc_rngsz (q_conf q)) < 2 ^ 32"
  shows "count_ok (q\<lparr>q_work_list := q_work_list q @ [cb]\<rparr>) s"
proof -
  have "0 < req_len cb"
    using assms(2) by (auto simp: req_wf_def req_len_def)
  then show ?thesis
    using assms by (cases "q_work_list q") (auto simp: count_ok_def work_count_def outstanding_def)
qed

section \<open>The worker\<close>

lemma proc_request_counts:
  assumes ok: "work_ok q" and cnt: "count_ok q s" and work: "q_work_list q = cb # cbs" and av: "q_avail q \<noteq> 0"
    and run: "qdma_descq_proc_sgt_request E vf q cb e = (rv, q', e')"
  shows "count_ok q' s" and "map req_key (q_pend_list q' @ q_work_list q') = map req_key (q_pend_list q @ q_work_list q)"
proof -
  define k where "k = unat (cb_desc_nr cb)"
  have tx: "tx_ok q" "reqs_ok q" and wf: "req_wf (queue_blen q) cb"
    using ok work by (simp_all add: work_ok_def tx_ok_def)
  have k: "k < length (req_sgt cb)" "unat (cb_offset cb) = sg_sum (take k (req_sgt cb))"
    and len: "length (req_sgt cb) + unat (qc_rngsz (q_conf q)) < 2 ^ 32"
    using cnt work by (simp_all add: count_ok_def work_count_def req_len_def k_def)
  let ?cs = "wf_pieces q cb k" and ?l = "length (req_sgt cb)"
  let ?p = "of_nat ((unat (q_pidx q) + length ?cs) mod unat (qc_rngsz (q_conf q)))"
  obtain ring where q': "q' = req_commit q cb ring ?p (of_nat (length ?cs)) (chunks_len ?cs)"
    using proc_request_run [OF tx(1) req_wf_start [OF wf k] wf_pieces_req [OF wf k(1) av], of E vf e] run by auto
  have "0 < length ?cs"
    using wf_pieces_req(2) [OF wf k(1) av] by simp
  then have m: "length ?cs = min (unat (q_avail q)) (?l - k)" "0 < length ?cs"
    using length_wf_pieces [of q cb k] by simp_all
  have out: "outstanding q' = outstanding q + length ?cs"
    unfolding q' using tx(1) work m(1) by (intro req_commit_accounting(4)) auto
  have nr: "unat (cb_desc_nr cb + of_nat (length ?cs)) = k + length ?cs"
    using m(1) k(1) len by (subst unat_add_small) (simp_all add: k_def unat_of_nat)
  note off = wf_pieces_offset [OF wf k(2), of q]
  have same: "q_credit q' = q_credit q" "q_conf q' = q_conf q" "q_done q' = q_done q"
    by (simp_all add: q' req_commit_def Let_def req_submitted_def)
  note w = req_commit_work [OF tx(2) work, of ring ?p "of_nat (length ?cs)" "chunks_len ?cs", folded q']
  have full: "cb_offset cb + chunks_len ?cs = req_count cb \<longleftrightarrow> k + length ?cs = ?l"
  proof
    assume "k + length ?cs = ?l"
    then show "cb_offset cb + chunks_len ?cs = req_count cb"
      using off wf by (simp add: req_wf_def word_unat_eq_iff)
  next
    assume "cb_offset cb + chunks_len ?cs = req_count cb"
    then have "sg_sum (take (k + length ?cs) (req_sgt cb)) = sg_sum (take ?l (req_sgt cb))"
      using off wf by (simp add: req_wf_def)
    then show "k + length ?cs = ?l"
      using sg_sum_take_less [of "req_sgt cb" "k + length ?cs" ?l] wf m(1) k(1) by (fastforce simp: req_wf_def)
  qed
  have zero: "desc_sum cbs = 0" "unat (q_credit q) + outstanding q = desc_sum (q_pend_list q) + k"
    using cnt work desc_sum_zero [of cbs] by (auto simp: count_ok_def work_count_def k_def)
  show "map req_key (q_pend_list q' @ q_work_list q') = map req_key (q_pend_list q @ q_work_list q)"
    using w work by (auto simp: req_key_def)
  show "count_ok q' s"
  proof (cases "k + length ?cs = ?l")
    case True
    let ?cb = "cb\<lparr>cb_desc_nr := cb_desc_nr cb + of_nat (length ?cs), cb_offset := cb_offset cb + chunks_len ?cs\<rparr>"
    have new: "q_work_list q' = cbs" "q_pend_list q' = q_pend_list q @ [?cb]"
      using w True full by simp_all
    have cb': "unat (cb_desc_nr ?cb) = req_len ?cb" "req_len ?cb = ?l"
      using nr True by (simp_all add: req_len_def)
    have "pend_count (unat (qc_rngsz (q_conf q))) (q_credit q) (q_pend_list q @ [?cb])"
      by (rule pend_count_snoc) (use cnt cb' k(1) len zero(2) in \<open>auto simp: count_ok_def\<close>)
    moreover have "work_count (unat (qc_rngsz (q_conf q))) (cb # cbs)"
      using cnt work by (simp add: count_ok_def)
    then have "work_count (unat (qc_rngsz (q_conf q))) cbs"
      by (rule work_count_tl)
    ultimately show ?thesis
      using cnt out zero cb' True by (simp add: count_ok_def new same)
  next
    case False
    let ?cb = "cb\<lparr>cb_desc_nr := cb_desc_nr cb + of_nat (length ?cs), cb_offset := cb_offset cb + chunks_len ?cs\<rparr>"
    have new: "q_work_list q' = ?cb # cbs" "q_pend_list q' = q_pend_list q"
      using w False full by simp_all
    have "k + length ?cs < ?l"
      using False m(1) k(1) by simp
    then have "work_count (unat (qc_rngsz (q_conf q))) (?cb # cbs)"
      using cnt work nr off len by (auto simp: count_ok_def work_count_def req_len_def)
    then show ?thesis
      using cnt out zero nr by (simp add: count_ok_def new same)
  qed
qed

lemma wrk_loop_counts:
  "work_ok q \<Longrightarrow> count_ok q s \<Longrightarrow> rs = map rid (q_work_list q) \<Longrightarrow> wrk_loop E vf q rs e = (rv, q', e') \<Longrightarrow>
     count_ok q' s \<and> map req_key (q_pend_list q' @ q_work_list q') = map req_key (q_pend_list q @ q_work_list q)"
proof (induction rs arbitrary: q e)
  case Nil
  then show ?case
    by simp
next
  case (Cons r rs)
  then obtain cb cbs where work: "q_work_list q = cb # cbs" "rid cb = r" "rs = map rid cbs"
    by (auto simp: Cons_eq_map_conv)
  have found: "find (\<lambda>c. rid c = r) (q_work_list q) = Some cb"
    by (simp add: work)
  show ?case
  proof (cases "q_avail q = 0")
    case True
    then have "qdma_descq_proc_sgt_request E vf q cb e = (Inr (), q, e)"
      using Cons.prems(1) by (auto simp: qdma_descq_proc_sgt_request_def descq_mm_proc_request_def
          descq_proc_st_h2c_request_def work_ok_def tx_ok_def ring_mem_ok_def
          split: option.splits desc_ring.splits)
    then show ?thesis
      using True Cons.prems(2,4) found by simp
  next
    case False
    obtain q1 e1 where run: "qdma_descq_proc_sgt_request E vf q cb e = (Inr (), q1, e1)" and ok1: "work_ok q1"
      and step: "q_avail q1 \<noteq> 0 \<longrightarrow> q_work_list q1 = cbs"
      using proc_request_step [OF Cons.prems(1) work(1) False, of E vf e] by blast
    note cnt = proc_request_counts [OF Cons.prems(1,2) work(1) False run]
    show ?thesis
      using Cons.IH [OF ok1 cnt(1), of e1] Cons.prems(4) found run step cnt work(3) by (auto split: if_splits)
  qed
qed

section \<open>Write-backs\<close>

lemma settle_keys: "settle credit cbs = (fin, rest, c) \<Longrightarrow> map req_key (fin @ rest) = map req_key cbs"
  by (induction credit cbs arbitrary: fin rest c rule: settle.induct) (auto simp: Let_def split: if_splits prod.splits)

lemma settle_total: "settle credit cbs = (fin, rest, c) \<Longrightarrow> req_total fin + req_total rest = req_total cbs"
  by (induction credit cbs arbitrary: fin rest c rule: settle.induct) (auto simp: Let_def split: if_splits prod.splits)

lemma settle_sum:
  "settle credit cbs = (fin, rest, c) \<Longrightarrow> unat credit + desc_sum rest = unat c + desc_sum cbs"
proof (induction credit cbs arbitrary: fin rest c rule: settle.induct)
  case (2 credit cb cbs)
  show ?case
  proof (cases "cb_desc_nr cb \<le> credit")
    case True
    then have "unat (credit - cb_desc_nr cb) + unat (cb_desc_nr cb) = unat credit"
      by (simp add: unat_sub_le word_le_nat_alt)
    then show ?thesis
      using 2 True by (fastforce simp: Let_def split: if_splits prod.splits)
  next
    case False
    then have "unat (cb_desc_nr cb - credit) + unat credit = unat (cb_desc_nr cb)"
      by (simp add: unat_sub_le word_le_nat_alt)
    then show ?thesis
      using "2.prems" False by auto
  qed
qed simp

text \<open>After the credits are handed out, the first request left has not got all it needs.\<close>

lemma settle_pend:
  "settle credit cbs = (fin, rest, c) \<Longrightarrow> 0 < credit \<Longrightarrow>
   \<forall>cb\<in>set cbs. 0 < unat (cb_desc_nr cb) \<and> unat (cb_desc_nr cb) \<le> req_len cb \<and> req_len cb + r < 2 ^ 32 \<Longrightarrow>
   \<forall>cb\<in>set (tl cbs). unat (cb_desc_nr cb) = req_len cb \<Longrightarrow> pend_count r c rest"
proof (induction credit cbs arbitrary: fin rest c rule: settle.induct)
  case (2 credit cb cbs)
  show ?case
  proof (cases "cb_desc_nr cb \<le> credit")
    case True
    show ?thesis
    proof (cases "credit - cb_desc_nr cb = 0")
      case True
      then show ?thesis
        using "2.prems" \<open>cb_desc_nr cb \<le> credit\<close> by (cases cbs) (auto simp: pend_count_def)
    next
      case False
      obtain fin' where st: "settle (credit - cb_desc_nr cb) cbs = (fin', rest, c)"
        using "2.prems"(1) True False by (auto simp: Let_def split: prod.splits)
      have "0 < credit - cb_desc_nr cb"
        using False by (metis word_neq_0_conv)
      then show ?thesis
        using "2.IH" [OF True False st] "2.prems"(3,4) by (cases cbs) auto
    qed
  next
    case False
    then have "unat (cb_desc_nr cb - credit) = unat (cb_desc_nr cb) - unat credit" "unat credit < unat (cb_desc_nr cb)"
      by (simp_all add: unat_sub_le word_le_nat_alt)
    then show ?thesis
      using "2.prems" False by (auto simp: pend_count_def)
  qed
qed (simp add: pend_count_def)

lemma ring_distance_pos: "a < n \<Longrightarrow> b < n \<Longrightarrow> b \<noteq> a \<Longrightarrow> (b + n - a) mod n \<noteq> 0" for a b n :: nat
  by (cases "b < a") (simp_all add: le_mod_geq)

lemma wb_credit_exact:
  assumes "ring_ok q" and "hw_wb_ok q" and "ucast (wb_cidx (q_desc_wb q)) \<noteq> q_cidx q"
    and "descq_wb_credit q (ucast (wb_cidx (q_desc_wb q))) = (cr, q1)"
  shows "unat cr = unserved q" and "0 < cr" and "outstanding q1 + unat cr = outstanding q" and "unserved q1 = 0"
    and "q_pend_list q1 = q_pend_list q" and "q_work_list q1 = q_work_list q" and "q_credit q1 = q_credit q"
    and "q_conf q1 = q_conf q" and "q_done q1 = q_done q"
proof -
  let ?n = "unat (qc_rngsz (q_conf q))" and ?c = "ucast (wb_cidx (q_desc_wb q)) :: u32"
  have n: "unat (q_cidx q) < ?n" "unat ?c < ?n" "(unat ?c + ?n - unat (q_cidx q)) mod ?n \<le> outstanding q"
    using assms(1,2) by (simp_all add: ring_ok_def hw_wb_ok_def Let_def word_less_nat_alt)
  then have "unat (fst (descq_wb_credit q ?c)) = (unat ?c + ?n - unat (q_cidx q)) mod ?n"
    using assms(3) by (intro wb_credit_count) (simp_all add: word_less_nat_alt)
  then show cr: "unat cr = unserved q"
    using assms(4) by (simp add: unserved_def)
  have q1: "q_cidx q1 = ?c" "q_pidx q1 = q_pidx q" "q_conf q1 = q_conf q" "q_desc_wb q1 = q_desc_wb q"
    using assms(3,4) by (auto simp: descq_wb_credit_def Let_def)
  have le: "unat cr \<le> outstanding q"
    using n(3) cr by (simp add: unserved_def)
  have "outstanding q1 = outstanding q - unat cr"
    unfolding outstanding_def q1 using n cr by (intro outstanding_retire) (simp_all add: outstanding_def unserved_def)
  then show "outstanding q1 + unat cr = outstanding q"
    using le by simp
  show "unserved q1 = 0"
    by (simp add: unserved_def q1)
  have "unat ?c \<noteq> unat (q_cidx q)"
    using assms(3) word_unat_eq_iff by blast
  then have "(unat ?c + ?n - unat (q_cidx q)) mod ?n \<noteq> 0"
    by (rule ring_distance_pos [OF n(1,2)])
  then have "unserved q \<noteq> 0"
    unfolding unserved_def unat_ucast_u16 .
  then show "0 < cr"
    using cr by (simp add: word_less_nat_alt)
  show "q_pend_list q1 = q_pend_list q" "q_work_list q1 = q_work_list q" "q_credit q1 = q_credit q"
    "q_conf q1 = q_conf q" "q_done q1 = q_done q"
    using assms(4) by (auto simp: descq_wb_credit_def Let_def split: if_splits)
qed

lemma credit_no_wrap:
  assumes "count_ok q s" and "ring_ok q" and "unat cr \<le> outstanding q"
  shows "unat (cr + q_credit q) = unat cr + unat (q_credit q)"
proof -
  let ?n = "unat (qc_rngsz (q_conf q))"
  have "outstanding q < ?n"
    using assms(2) by (simp add: ring_ok_def)
  have "unat cr + unat (q_credit q) < 2 ^ 32"
  proof (cases "q_pend_list q = []")
    case True
    then have "outstanding q + unat (q_credit q) = desc_sum (q_work_list q)" "work_count ?n (q_work_list q)"
      using assms(1) by (simp_all add: count_ok_def)
    moreover have "desc_sum (q_work_list q) < 2 ^ 32"
      using work_desc_sum [OF calculation(2)] unat_lt_u32 by simp
    ultimately show ?thesis
      using assms(3) by linarith
  next
    case False
    then have "unat (q_credit q) < req_len (hd (q_pend_list q))" "req_len (hd (q_pend_list q)) + ?n < 2 ^ 32"
      using assms(1) pend_count_head [of ?n "q_credit q" "q_pend_list q"] by (auto simp: count_ok_def)
    then show ?thesis
      using assms(3) \<open>outstanding q < ?n\<close> by linarith
  qed
  then show ?thesis
    by (intro unat_add_small) simp
qed

lemma writeback_counts:
  assumes "work_ok q" and "hw_wb_ok q" and "count_ok q s" and "s + unserved q = n"
    and "descq_mm_n_h2c_wb E vf xdev q e = (rv, xdev', q', e')" and "rv \<noteq> Inl OOPS"
  shows "\<exists>s'. count_ok q' s' \<and> s' + unserved q' = n"
    and "map req_key (q_done q' @ q_pend_list q' @ q_work_list q') = map req_key (q_done q @ q_pend_list q @ q_work_list q)"
proof -
  have ok: "ring_ok q" "reqs_ok q"
    using assms(1) by (simp_all add: work_ok_def tx_ok_def)
  have "(\<exists>s'. count_ok q' s' \<and> s' + unserved q' = n) \<and>
    map req_key (q_done q' @ q_pend_list q' @ q_work_list q') = map req_key (q_done q @ q_pend_list q @ q_work_list q)"
  proof (cases "q' = q")
    case True
    then show ?thesis
      using assms(3,4) by auto
  next
    case False
    then obtain cr q1 fin rest c where w: "descq_wb_credit q (ucast (wb_cidx (q_desc_wb q))) = (cr, q1)"
      "settle (cr + q_credit q) (q_pend_list q) = (fin, rest, c)"
      "q' = q1\<lparr>q_pend_list := rest, q_done := q_done q @ map req_finished fin, q_credit := c\<rparr>"
      using mm_n_h2c_wb_run [OF ok(2) assms(5,6)] by blast
    have "ucast (wb_cidx (q_desc_wb q)) \<noteq> q_cidx q"
      using False assms(5) by (auto simp: descq_mm_n_h2c_wb_def split: if_splits)
    note cr = wb_credit_exact [OF ok(1) assms(2) this w(1)]
    have tot: "unat (cr + q_credit q) = unat cr + unat (q_credit q)"
      using cr(3) by (intro credit_no_wrap [OF assms(3) ok(1)]) simp
    then have "0 < cr + q_credit q"
      using cr(2) by (simp add: word_less_nat_alt)
    moreover have "pend_count (unat (qc_rngsz (q_conf q))) (q_credit q) (q_pend_list q)"
      using assms(3) by (simp add: count_ok_def)
    ultimately have "pend_count (unat (qc_rngsz (q_conf q))) c rest"
      unfolding pend_count_def [of _ "q_credit q"] by (elim conjE) (rule settle_pend [OF w(2)])
    moreover have "outstanding q' = outstanding q1" "unserved q' = 0"
      using cr(4) by (simp_all add: w(3) outstanding_def unserved_def)
    ultimately have "count_ok q' (s + unat cr)"
      using assms(3) settle_sum [OF w(2)] settle_total [OF w(2)] tot cr by (simp add: count_ok_def w(3))
    then show ?thesis
      using assms(4) cr(1,6) \<open>unserved q' = 0\<close> settle_keys [OF w(2)] by (auto simp: w(3) o_def)
  qed
  then show "\<exists>s'. count_ok q' s' \<and> s' + unserved q' = n"
    and "map req_key (q_done q' @ q_pend_list q' @ q_work_list q') = map req_key (q_done q @ q_pend_list q @ q_work_list q)"
    by blast+
qed

section \<open>The machine\<close>

text \<open>The steps are steps of \<open>Qdma_Tx_Machine\<close>, whose invariant holds along.\<close>

lemma count_step_tx: "count_step E vf (q, subs, n) (q', subs', n') \<Longrightarrow> tx_step E vf (q, map fst subs) (q', map fst subs')"
  by (erule count_step_cases) (auto simp: req_key_def intro: tx_step.intros)

definition count_inv :: "count_state \<Rightarrow> bool" where
  "count_inv = (\<lambda>(q, subs, n). tx_inv (q, map fst subs) \<and> subs = map req_key (q_done q @ q_pend_list q @ q_work_list q)
     \<and> (\<exists>s. count_ok q s \<and> s + unserved q = n))"

lemma count_step_inv:
  assumes "count_step E vf st st'" and "count_inv st"
  shows "count_inv st'"
proof -
  obtain q subs n q' subs' n' where st: "st = (q, subs, n)" "st' = (q', subs', n')"
    by (metis surj_pair)
  obtain s where inv: "tx_inv (q, map fst subs)" "subs = map req_key (q_done q @ q_pend_list q @ q_work_list q)"
      "count_ok q s" "s + unserved q = n"
    using assms(2) st by (auto simp: count_inv_def)
  have tx: "tx_inv (q', map fst subs')"
    using count_step_tx assms(1) inv(1) tx_step_inv unfolding st by blast
  have ok: "work_ok q" "hw_wb_ok q" "q_done q' = q_done q" if "qdma_thread_wrk_proc E vf q e = (rv, q', e')" for e rv e'
    using that inv(1) wrk_loop_ok [of q _ E vf e] by (auto simp: tx_inv_def qdma_thread_wrk_proc_def tx_frame_def)
  have "subs' = map req_key (q_done q' @ q_pend_list q' @ q_work_list q') \<and> (\<exists>s. count_ok q' s \<and> s + unserved q' = n')"
    using assms(1) unfolding st
  proof cases
    case (queue_request cb)
    then show ?thesis
      using count_ok_queue [OF inv(3)] inv(2,4) by (auto simp: unserved_def)
  next
    case (worker e rv e')
    note run = wrk_loop_counts [OF ok(1) [OF worker(3)] inv(3) refl worker(3) [unfolded qdma_thread_wrk_proc_def]]
    have "unserved q' = unserved q"
      using wrk_loop_ok [OF ok(1) [OF worker(3)] refl, of E vf e] worker(3)
      by (auto simp: qdma_thread_wrk_proc_def tx_frame_def unserved_def)
    then show ?thesis
      using run worker inv(2,4) ok(3) [OF worker(3)] by auto
  next
    case (device wb)
    have "count_ok q' s" "s + unserved q' = n'"
      using device inv(3,4) by (simp_all add: count_ok_def outstanding_def)
    then show ?thesis
      using device inv(2) by auto
  next
    case (writeback xdev e rv xdev' e')
    have "work_ok q" "hw_wb_ok q"
      using inv(1) by (simp_all add: tx_inv_def)
    then show ?thesis
      using writeback writeback_counts [OF _ _ inv(3,4) writeback(3,4)] inv(2) by auto
  qed
  then show ?thesis
    using tx by (simp add: st count_inv_def)
qed

interpretation counted_tx: machine "count_step E vf" count_inv
  by unfold_locales (rule count_step_inv)

text \<open>What the invariant says of the requests handed back.\<close>

lemma count_ok_exact:
  assumes "count_ok q s"
  shows "req_total (q_done q) \<le> s"
    and "q_pend_list q \<noteq> [] \<Longrightarrow> s < req_total (q_done q) + req_len (hd (q_pend_list q))"
proof -
  let ?p = "q_pend_list q"
  have p: "pend_count (unat (qc_rngsz (q_conf q))) (q_credit q) ?p" "s + desc_sum ?p = req_total (q_done q) + req_total ?p + unat (q_credit q)"
    using assms by (simp_all add: count_ok_def)
  have le: "desc_sum cbs \<le> req_total cbs" if "\<forall>cb\<in>set cbs. unat (cb_desc_nr cb) \<le> req_len cb" for cbs
    using that by (induction cbs) auto
  have eq: "desc_sum cbs = req_total cbs" if "\<forall>cb\<in>set cbs. unat (cb_desc_nr cb) = req_len cb" for cbs
    using that by (induction cbs) auto
  show "req_total (q_done q) \<le> s"
    using p le [of ?p] by (auto simp: pend_count_def)
  show "s < req_total (q_done q) + req_len (hd ?p)" if "?p \<noteq> []"
    using that p eq [of "tl ?p"] by (cases ?p) (auto simp: pend_count_def)
qed

text \<open>
  C1: Requests are handed back in the order they were queued, with their data, and each exactly when
  the device has consumed it. Take a transmit queue that starts empty and consistent, and any
  interleaving of queueing requests, worker runs, device progress and write-backs. At any time
  the requests queued are those handed back, those pending and those waiting, in this order, none is
  lost or changed, and those handed back report success. Count the descriptors the device has reported as
  consumed, and take off those the driver has not looked at yet. The rest covers all descriptors of
  the requests handed back, one per entry, and does not cover those of the next pending request.

  The requests have the form the character device gives them: entries that are not empty and fit one
  descriptor, a byte count that is that of the entries, a cleared control block, and not more
  entries than 32 bits hold together with the ring. The device reports an index between consumer and
  producer and never steps back. A write-back that faults (no worker thread, no interrupt ring) ends the run.
\<close>

theorem tx_requests_in_order:
  assumes "(count_step E vf)\<^sup>*\<^sup>* (q0, [], unserved q0) (q, subs, n)" and "work_ok q0" and "hw_wb_ok q0"
    and "q_work_list q0 = []" and "q_pend_list q0 = []" and "q_done q0 = []" and "outstanding q0 = 0" and "q_credit q0 = 0"
    and "s = n - unserved q"
  shows "work_ok q \<and> subs = map req_key (q_done q @ q_pend_list q @ q_work_list q)
    \<and> (\<forall>cb\<in>set (q_done q). cb_done cb \<and> cb_status cb = None \<and> cb_offset cb = req_count cb)
    \<and> unserved q \<le> n \<and> req_total (q_done q) \<le> s
    \<and> (q_pend_list q \<noteq> [] \<longrightarrow> s < req_total (q_done q) + req_len (hd (q_pend_list q)))"
proof -
  have "count_ok q0 0"
    using assms(4-8) by (simp add: count_ok_def work_count_def pend_count_def)
  moreover have "tx_inv (q0, [])"
    using assms(2-6) by (simp add: tx_inv_def pend_full_def done_clean_def)
  ultimately have "count_inv (q0, [], unserved q0)"
    using assms(4-6) by (auto simp: count_inv_def)
  then have inv: "count_inv (q, subs, n)"
    using counted_tx.reach_inv [OF assms(1)] by simp
  then obtain t where t: "count_ok q t" "t + unserved q = n"
    by (auto simp: count_inv_def)
  have "t = s"
    using t(2) assms(9) by simp
  then show ?thesis
    using inv t count_ok_exact [of q s] by (auto simp: count_inv_def tx_inv_def done_clean_def)
qed

section \<open>A concrete run\<close>

definition sample_count_run :: "qdma_descq \<times> qdma_descq \<times> qdma_descq" where
  "sample_count_run =
     (let q1 = fst (snd (qdma_thread_wrk_proc ram_env False (sample_idle\<lparr>q_work_list := [sample_req 0]\<rparr>) (\<lambda>_. 0)));
          q2 = q1\<lparr>q_desc_wb := (q_desc_wb q1)\<lparr>wb_cidx := ucast (q_pidx q1)\<rparr>\<rparr>
      in (q1, q2, fst (snd (snd (descq_mm_n_h2c_wb ram_env False sample_xdev q2 (\<lambda>_. 0))))))"

lemma sample_count_facts:
  "case sample_count_run of (q1, q2, q3) \<Rightarrow>
     hw_wb_ok q2 \<and> unserved q1 = 0 \<and> unserved q2 = 2 \<and> unserved q3 = 0 \<and> map rid (q_done q3) = [1]
     \<and> fst (descq_mm_n_h2c_wb ram_env False sample_xdev q2 (\<lambda>_. 0)) \<noteq> Inl OOPS"
  by code_simp

theorem tx_requests_in_order_witness:
  "\<exists>q. (count_step ram_env False)\<^sup>*\<^sup>* (sample_idle, [], 0) (q, [req_key (sample_req 0)], 2)
     \<and> map rid (q_done q) = [1] \<and> [req_key (sample_req 0)] = map req_key (q_done q @ q_pend_list q @ q_work_list q)
     \<and> req_total (q_done q) \<le> 2"
proof -
  let ?q = "sample_idle\<lparr>q_work_list := [sample_req 0]\<rparr>" and ?k = "[req_key (sample_req 0)]"
  obtain q1 q2 q3 where r: "sample_count_run = (q1, q2, q3)"
    by (rule prod_cases3)
  then have q: "q1 = fst (snd (qdma_thread_wrk_proc ram_env False ?q (\<lambda>_. 0)))"
    "q2 = q1\<lparr>q_desc_wb := (q_desc_wb q1)\<lparr>wb_cidx := ucast (q_pidx q1)\<rparr>\<rparr>"
    "q3 = fst (snd (snd (descq_mm_n_h2c_wb ram_env False sample_xdev q2 (\<lambda>_. 0))))"
    by (auto simp: sample_count_run_def Let_def)
  have ok: "hw_wb_ok q2" "unserved q1 = 0" "unserved q2 = 2" "unserved q3 = 0" "map rid (q_done q3) = [1]"
    "fst (descq_mm_n_h2c_wb ram_env False sample_xdev q2 (\<lambda>_. 0)) \<noteq> Inl OOPS"
    using sample_count_facts by (simp_all add: r)
  have idle: "q_work_list sample_idle = []" "q_pend_list sample_idle = []" "q_done sample_idle = []" "outstanding sample_idle = 0"
    "q_credit sample_idle = 0" "unserved sample_idle = 0"
    by (simp_all add: sample_idle_def sample_simps outstanding_def unserved_def)
  have "req_wf (queue_blen sample_idle) (sample_req 0)"
    by (simp add: req_wf_def queue_blen_def sample_idle_def sample_simps word_le_nat_alt exI [of _ 0])
  then have "count_step ram_env False (sample_idle, [], 0) (?q, ?k, 0)"
    using count_step.queue_request [of sample_idle "sample_req 0" "[]" ram_env False 0] idle(1)
    by (simp add: req_len_def sample_idle_def sample_simps)
  moreover have "count_step ram_env False (?q, ?k, 0) (q1, ?k, 0)"
    using q(1) count_step.worker [of ram_env False ?q "\<lambda>_. 0"] by (metis prod.collapse)
  moreover have "count_step ram_env False (q1, ?k, 0) (q2, ?k, 2)"
    using count_step.device [where E = ram_env and vf = False and subs = ?k and n = 0, OF q(2) ok(1)] ok(2,3) by (simp add: numeral_2_eq_2)
  moreover have "count_step ram_env False (q2, ?k, 2) (q3, ?k, 2)"
    using count_step.writeback [of ram_env False sample_xdev q2 "\<lambda>_. 0"] ok(6) q(3)
    by (metis fst_conv snd_conv prod.collapse)
  ultimately have reach: "(count_step ram_env False)\<^sup>*\<^sup>* (sample_idle, [], 0) (q3, ?k, 2)"
    by (auto intro: converse_rtranclp_into_rtranclp)
  then show ?thesis
    using tx_requests_in_order [OF reach [folded idle(6)] sample_idle_ok idle(1-5) refl] ok(4,5) by auto
qed

end
