(* ===== verification/Spec2Isabelle.thy ===== *)
theory Spec2Isabelle
  imports Qdma_Tools Qdma_Tx_Count
begin

text \<open>
  \<^bold>\<open>Verification of the Xilinx QDMA Linux driver\<close> (\<open>drv\<close>), its library (\<open>drv/libqdma\<close>), the command
  line program (\<open>user/cli\<close>) and the test tools (\<open>tools\<close>).

  \<^bold>\<open>The program.\<close> The library drives a PCIe DMA engine. A \<^emph>\<open>device\<close> (\<open>xdev.c\<close>) has a number of
  \<^emph>\<open>queues\<close> (\<open>qdma_descq.c\<close>), each with a ring of descriptors in host memory: memory-mapped queues
  in both directions, streaming queues host-to-card and card-to-host. A client adds, configures,
  starts, stops and removes queues and submits requests (\<open>libqdma_export.c\<close>). A request is a
  scatter-gather list; the submission \<^emph>\<open>worker\<close> (\<open>qdma_thread.c\<close>, \<open>thread.c\<close>) turns it into
  descriptors and rings the doorbell; the engine writes back how far it got, and the write-back
  worker or the interrupt handler (\<open>qdma_intr.c\<close>) completes the requests. On card-to-host
  streaming queues the engine fills pages of a free list and reports them in a completion ring;
  the pages go through a receive queue to the readers. The hardware is configured through
  registers (\<open>qdma_regs.c\<close>) and through \<^emph>\<open>contexts\<close> written indirectly (\<open>qdma_context.c\<close>). Virtual
  functions cannot write contexts: they ask the physical function by \<^emph>\<open>mailbox\<close> messages
  (\<open>qdma_mbox.c\<close>, \<open>qdma_sriov.c\<close>). On top of the library the kernel module (\<open>drv/qdma_mod.c\<close>) attaches to the
  devices, offers a character device for every queue (\<open>drv/cdev.c\<close>) and takes requests over netlink
  (\<open>drv/nl.c\<close>); the command line program (\<open>user/cli\<close>) sends these requests and accesses registers. The test tools (\<open>tools\<close>) move data through the
  character devices.

  \<^bold>\<open>How it is modelled.\<close> Structures are records with the fields of the source, enumerations are
  datatypes, integers are words of their width, so that all wrap-around is there. Everything
  outside the driver is a parameter: the environment \<open>'e env\<close> of \<open>Qdma_Prelude\<close> has the register
  accesses, delays and memory functions of the kernel as functions on an arbitrary state \<open>'e\<close>, and
  the MSI-X, PCI, SR-IOV and scatter-list functions are records of the same kind in the theories
  that use them. Operations take the state and return a result (an error code or a value), the
  new state and the environment. A dereferenced NULL pointer, an access outside an array and the
  like is the result \<open>Inl OOPS\<close>. Locks are not part of the state: an operation is one critical
  section, and concurrency is the interleaving of operations, as step relations (\<open>tx_step\<close>,
  \<open>count_step\<close>, \<open>queue_step\<close>, \<open>dev_step\<close>) or as a parameter for what happens while a thread sleeps. Log messages
  are left out. The parts that differ between the builds for physical and
  virtual functions take a flag \<open>vf\<close> or are two definitions (the suffix \<open>_vf\<close>).

  \<^bold>\<open>Theories.\<close>
  \<^item> \<open>Qdma_Prelude\<close>: words, results, the environment and its tracing extension, the locale \<open>machine\<close>
    (step relation and invariant), loops over registers. \<open>Qdma_Keeps\<close>: what register accesses keep,
    all operations built from them keep.
  \<^item> \<open>Qdma_Types\<close> (\<open>xdev.h\<close>, \<open>qdma_descq.h\<close>, \<open>libqdma_export.h\<close>), \<open>Qdma_Samples\<close>: data, sample values.
  \<^item> \<open>Qdma_Regs\<close> (\<open>qdma_regs.c\<close>): all \<open>hw_\<close> functions. Polling returns after a bounded number of samples;
    a verified context write that succeeds wrote what was asked and read it back.
  \<^item> \<open>Qdma_Request\<close>, \<open>Qdma_Submit\<close> (\<open>qdma_descq.c\<close>): request processing. The descriptors put in the ring
    are exactly the pieces of the request; a request that fits is submitted by one call.
  \<^item> \<open>Qdma_Writeback\<close>, \<open>Qdma_Worker\<close>, \<open>Qdma_Tx_Machine\<close>, \<open>Qdma_Tx_Count\<close> (\<open>qdma_descq.c\<close>, \<open>qdma_thread.c\<close>):
    credits settle pending requests first come, first served (refinement of \<open>settle\<close>); the worker never
    faults; over every interleaving requests are handed back in order, and each exactly when the
    device has consumed all its descriptors, counted by a number no ring index holds (\<open>count_step\<close>).
  \<^item> \<open>Qdma_Rxq\<close>, \<open>Qdma_Rxq_Read\<close>, \<open>Qdma_Rx\<close> (\<open>qdma_descq.c\<close>): the linked lists of the receive queue, at
    the level of pointers, implement lists; reading them is reading a byte stream; completions
    deliver the pages of the free list the device filled, in order, and keep the ring consistent.
  \<^item> \<open>Qdma_Context\<close> (\<open>qdma_context.c\<close>): context words decode to the configuration; the sequence of
    context commands of a set-up.
  \<^item> \<open>Qdma_Descq\<close> (\<open>qdma_descq.c\<close>): life of a queue: allocation is all or nothing and balanced, a
    configured queue satisfies the invariants of the other theories.
  \<^item> \<open>Qdma_Sriov\<close>, \<open>Qdma_Mbox\<close>, \<open>Qdma_Mbox_Pf\<close>, \<open>Qdma_Mbox_Vf\<close> (\<open>qdma_sriov.c\<close>, \<open>qdma_mbox.c\<close>, VF parts of
    \<open>qdma_context.c\<close> and \<open>qdma_device.c\<close>): the table of functions is a partial map (locale
    \<open>vf_registry\<close>); every request is answered; the handler ends when the
    mailbox runs empty; a context set up by message is the context set up directly.
  \<^item> \<open>Qdma_Thread\<close> (\<open>qdma_thread.c\<close>, \<open>thread.c\<close>), \<open>Qdma_Intr\<close> (\<open>qdma_intr.c\<close>), \<open>Qdma_Device\<close>
    (\<open>qdma_device.c\<close>): assignment of queues to threads and its inverse, interrupt handler, vectors and
    rings, look-up of queues within bounds, initialisation of a device.
  \<^item> \<open>Qdma_Export\<close>, \<open>Qdma_Io\<close> (\<open>libqdma_export.c\<close>): the queue functions keep the invariant of the device;
    what a blocking submission returns, on top of \<open>Qdma_Tx_Machine\<close>; cleanup of a device.
  \<^item> \<open>Qdma_Xdev\<close> (\<open>xdev.c\<close>, \<open>xdev.h\<close>): opening a device is all or nothing; the list identifies devices.
  \<^item> \<open>Qdma_Cdev\<close> (\<open>drv/cdev.c\<close>, \<open>drv/cdev.h\<close>): the character device of a queue. The scatter list of a user's
    buffer addresses exactly the buffer; nothing stays pinned; what \<open>read\<close> and \<open>write\<close> return, on top of
    \<open>Qdma_Io\<close>; creation is all or nothing.
  \<^item> \<open>Qdma_Mod\<close> (\<open>drv/qdma_mod.c\<close>, \<open>drv/qdma_mod.h\<close>): the module. Its table of queues and the queues of the
    library agree; attaching a device is all or nothing.
  \<^item> \<open>Qdma_Dump\<close> (the dump and list functions of \<open>qdma_descq.c\<close>, \<open>libqdma_export.c\<close>, \<open>xdev.c\<close>, \<open>qdma_mod.c\<close>,
    \<open>thread.c\<close>): texts as strings. What the list of queues shows and how far it runs over its buffer.
  \<^item> \<open>Qdma_Nl\<close> (\<open>drv/nl.c\<close>, \<open>include/nl.h\<close>): netlink requests. Over all sequences of requests the tables
    of the module match the queues; every request is answered once.
  \<^item> \<open>Qdma_Cli_Parse\<close> (\<open>user/cli/cmd_parse.c\<close>, \<open>user/cli/nl_user.h\<close>): the command line. Commands are read as
    they were typed; where the parser runs past the arguments.
  \<^item> \<open>Qdma_Cli_Regs\<close> (\<open>user/cli/regs.c\<close>, \<open>user/cli/reg_defs_qdma.c\<close>): registers through a mapped bar. A dump
    prints every register of the tables once; files and mappings are given back.
  \<^item> \<open>Qdma_Cli\<close> (\<open>user/cli/nl_user.c\<close>): messages as bytes and the program. Replies are read back exactly;
    what a run sends, message by message, and closes; from the words typed to the configuration the module reads
    (with \<open>Qdma_Nl\<close>), and from the answer of the module back to the program.
  \<^item> \<open>Qdma_Tools\<close> (\<open>tools/dma_utils.c\<close>, \<open>tools/dma_to_device.c\<close>, \<open>tools/dma_from_device.c\<close>): the test programs.
    What they put into and take from the device memory; their buffer is never left.

  \<^bold>\<open>Loops.\<close> Loops over lists and counters are structural recursion or have a termination proof; no
  bound is invented. The mailbox handlers loop as long as the device presents messages and are
  \<open>partial_function\<close>s: \<open>mbox_proc_returns\<close> shows a result on every device whose mailbox drains. The
  polling loop of \<open>hw_monitor_reg\<close> is bounded by its own count. The loop of the program over the
  attributes of a reply may not end (\<open>recv_attrs_diverges\<close>) and is a \<open>partial_function\<close>; it ends for all
  replies the module sends (\<open>recv_attrs_wire\<close>).

  \<^bold>\<open>Errors found.\<close> Several theorems state behaviour the code does not seem to intend: resuming a
  request (\<open>mm_resume_restarts\<close>), requests that time out (\<open>timeout_credits_next\<close>), completion entries with
  an error (\<open>st_c2h_wb_error_blocks\<close>), reading without data (\<open>rxq_read_no_data\<close>), interrupt contexts
  (\<open>intr_context_all_zero\<close>), removing a running queue (\<open>remove_leaves_hardware\<close>), configuring a queue for the
  other direction (\<open>config_counts_other_direction\<close>), the status of mailbox
  replies (\<open>mbox_status_sticks\<close>), queue ranges (\<open>vf_queue_ranges\<close>), thread names
  (\<open>thread_name_bounds\<close>), the aggregation ring (\<open>irq_top_schedules\<close>), failures
  while adding a queue (\<open>queue_add_keeps_garbage\<close>) and opening a device (\<open>probe_binds_no_device\<close>), printing completions
  (\<open>dump_wrb_skips_completions\<close>) and descriptors (\<open>dump_desc_faults\<close>), requests that lack attributes
  (\<open>missing_device_faults\<close>), command lines that end too early (\<open>parse_cmd_faults\<close>), replies shorter than announced
  (\<open>recv_attrs_diverges\<close>), sockets closed twice (\<open>dev_list_closes_twice\<close>) and registers behind the length
  mapped (\<open>user_regs_below\<close>, \<open>in_map_self\<close>), times (\<open>seconds_lost\<close>) and sizes (\<open>size_wraps\<close>) of the test tools.

  \<^bold>\<open>Not modelled.\<close> Log messages, and the texts the library leaves for the user on success; the
  scheduling of \<open>xthread_main\<close>, which is the kernel's; memory ordering. The copy of the library in
  \<open>libqdma\<close> is the same code. Of the test tools, the averages in floating
  point.
\<close>

end
